(* ===== verification/Prelude.thy ===== *)
theory Prelude
  imports Main "HOL-Library.AList" "HOL-Library.Multiset" "HOL-Library.Sublist"
begin

text \<open>
  Shared vocabulary of the development.

  \<^item> Python exceptions are values of \<open>py_error\<close>; a computation that may raise has type
    \<open>'a res\<close>, with \<open>Inl\<close> for the exception and \<open>Inr\<close> for the value, and is sequenced with
    \<open>rbind\<close> (the first exception wins, as it does in the code).
  \<^item> Dynamically typed arguments (constructor arguments that the code checks with
    \<open>isinstance\<close>) are values of \<open>pyval\<close>.
  \<^item> A Python \<open>dict\<close> whose order matters is an association list: \<open>AList.update\<close> overwrites in
    place and appends new keys, \<open>AList.delete\<close> removes a key, \<open>map_of\<close> looks one up, exactly
    as the insertion-ordered dictionary does.
  \<^item> Sorting with \<open>list.sort(key=...)\<close> is stable; it is \<open>sort_key\<close>.
\<close>

section \<open>Exceptions and results\<close>

datatype py_error =
    ValueError | TypeError | KeyError | IndexError | RuntimeError | AttributeError
  | UnpicklingError | OSError | ZeroDivisionError | UnboundLocalError
  | OverflowError

type_synonym 'a res = "py_error + 'a"

definition rbind :: "'a res \<Rightarrow> ('a \<Rightarrow> 'b res) \<Rightarrow> 'b res" where
  "rbind r f = (case r of Inl e \<Rightarrow> Inl e | Inr x \<Rightarrow> f x)"

named_theorems res_simps "equations that sequence results"

lemma rbind_Inl [simp, res_simps]: "rbind (Inl e) f = Inl e"
  by (simp add: rbind_def)

lemma rbind_Inr [simp, res_simps]: "rbind (Inr x) f = f x"
  by (simp add: rbind_def)

lemma rbind_eq_Inr [res_simps]: "rbind r f = Inr y \<longleftrightarrow> (\<exists>x. r = Inr x \<and> f x = Inr y)"
  by (auto simp: rbind_def split: sum.splits)

lemma rbind_eq_Inl [res_simps]:
  "rbind r f = Inl e \<longleftrightarrow> r = Inl e \<or> (\<exists>x. r = Inr x \<and> f x = Inl e)"
  by (auto simp: rbind_def split: sum.splits)

lemma rbind_assoc: "rbind (rbind r f) g = rbind r (\<lambda>x. rbind (f x) g)"
  by (simp add: rbind_def split: sum.splits)

definition is_ok :: "'a res \<Rightarrow> bool" where
  "is_ok r = (case r of Inl _ \<Rightarrow> False | Inr _ \<Rightarrow> True)"

lemma is_ok_simps [simp, res_simps]: "is_ok (Inr x)" "\<not> is_ok (Inl e)"
  by (simp_all add: is_ok_def)

lemma is_ok_iff: "is_ok r \<longleftrightarrow> (\<exists>x. r = Inr x)"
  by (auto simp: is_ok_def split: sum.splits)

section \<open>Stateful computations that may raise\<close>

text \<open>
  A method that updates an object and may raise is a function from the state to a result and
  the state it leaves: what was assigned before the exception stays assigned.
\<close>

type_synonym ('s, 'a) stm = "'s \<Rightarrow> 'a res \<times> 's"

definition sret :: "'a \<Rightarrow> ('s, 'a) stm" where
  "sret x s = (Inr x, s)"

definition sraise :: "py_error \<Rightarrow> ('s, 'a) stm" where
  "sraise e s = (Inl e, s)"

definition smod :: "('s \<Rightarrow> 's) \<Rightarrow> ('s, unit) stm" where
  "smod f s = (Inr (), f s)"

definition sget :: "('s \<Rightarrow> 'a) \<Rightarrow> ('s, 'a) stm" where
  "sget f s = (Inr (f s), s)"

definition slift :: "'a res \<Rightarrow> ('s, 'a) stm" where
  "slift r s = (r, s)"

definition sbind :: "('s, 'a) stm \<Rightarrow> ('a \<Rightarrow> ('s, 'b) stm) \<Rightarrow> ('s, 'b) stm" where
  "sbind m f s = (case m s of (Inl e, s') \<Rightarrow> (Inl e, s') | (Inr x, s') \<Rightarrow> f x s')"

definition sseq :: "('s, 'a) stm \<Rightarrow> ('s, 'b) stm \<Rightarrow> ('s, 'b) stm" where
  "sseq m k = sbind m (\<lambda>_. k)"

text \<open>Running a list of calls in order; the first exception aborts the rest.\<close>

primrec smap_seq :: "('a \<Rightarrow> ('s, unit) stm) \<Rightarrow> 'a list \<Rightarrow> ('s, unit) stm" where
  "smap_seq f [] = sret ()"
| "smap_seq f (x # xs) = sseq (f x) (smap_seq f xs)"

text \<open>
  A computation that runs along a relation: the state it leaves, with a result or an exception, is
  related to the state it starts from.
\<close>

definition along :: "('s \<Rightarrow> 's \<Rightarrow> bool) \<Rightarrow> ('s, 'a) stm \<Rightarrow> bool" where
  "along R m \<longleftrightarrow> (\<forall>s. R s (snd (m s)))"

lemma along_bind:
  assumes "transp R" and "along R m" and "\<And>x. along R (f x)"
  shows "along R (sbind m f)"
  unfolding along_def
proof
  fix s
  have m: "R s (snd (m s))" using assms(2) by (simp add: along_def)
  show "R s (snd (sbind m f s))"
  proof (cases "m s")
    case (Pair r s')
    then show ?thesis
      using m assms(3) transpD [OF assms(1), of s s'] by (cases r) (auto simp: sbind_def along_def)
  qed
qed

lemma along_seq: "transp R \<Longrightarrow> along R m \<Longrightarrow> along R k \<Longrightarrow> along R (sseq m k)"
  unfolding sseq_def by (rule along_bind)

lemma along_pure: "(\<And>s. R s s) \<Longrightarrow> along R (sret x)" "(\<And>s. R s s) \<Longrightarrow> along R (sget f)"
  "(\<And>s. R s s) \<Longrightarrow> along R (slift r)"
  by (simp_all add: along_def sret_def sget_def slift_def)

named_theorems stm_simps "equations that run stateful computations"

lemmas stm_defs [stm_simps] = sret_def sraise_def smod_def sget_def slift_def

lemma sbind_run [stm_simps]:
  "m s = (Inr x, s') \<Longrightarrow> sbind m f s = f x s'"
  "m s = (Inl e, s') \<Longrightarrow> sbind m f s = (Inl e, s')"
  by (simp_all add: sbind_def)

lemma sseq_run [stm_simps]:
  "m s = (Inr x, s') \<Longrightarrow> sseq m k s = k s'"
  "m s = (Inl e, s') \<Longrightarrow> sseq m k s = (Inl e, s')"
  by (simp_all add: sseq_def sbind_def)

lemma sbind_ok:
  "sbind m f s = (Inr y, s'') \<longleftrightarrow> (\<exists>x s'. m s = (Inr x, s') \<and> f x s' = (Inr y, s''))"
  by (auto simp: sbind_def split: prod.splits sum.splits)

lemma sseq_ok:
  "sseq m k s = (Inr y, s'') \<longleftrightarrow> (\<exists>x s'. m s = (Inr x, s') \<and> k s' = (Inr y, s''))"
  by (auto simp: sseq_def sbind_ok)

lemma smap_seq_append:
  "smap_seq f (xs @ ys) s = sseq (smap_seq f xs) (smap_seq f ys) s"
proof (induction xs arbitrary: s)
  case Nil
  then show ?case by (simp add: sseq_def sbind_def sret_def)
next
  case (Cons x xs)
  then show ?case by (auto simp: sseq_def sbind_def split: prod.splits sum.splits)
qed

section \<open>Iteration over sets\<close>

text \<open>
  A Python set has no documented iteration order.  Code that iterates one takes the order as a
  parameter; all it knows is that every element comes once.
\<close>

locale set_iteration =
  fixes iter :: "'a set \<Rightarrow> 'a list"
  assumes set_iter: "finite S \<Longrightarrow> set (iter S) = S"
    and distinct_iter: "finite S \<Longrightarrow> distinct (iter S)"
begin

lemma iter_length: "finite S \<Longrightarrow> length (iter S) = card S"
  using set_iter distinct_iter by (metis distinct_card)

lemma iter_pos: "x \<in> S \<and> finite S \<Longrightarrow> length (iter S) > 0"
  by (auto simp: iter_length card_gt_0_iff)

lemma iter_empty: "iter {} = []"
  using set_iter [of "{}"] by simp

end

interpretation ascending: set_iteration "sorted_list_of_set :: 'a :: linorder set \<Rightarrow> 'a list"
  by unfold_locales simp_all

section \<open>Dynamically typed values\<close>

datatype pyval =
    PNone
  | PBool bool
  | PInt int
  | PFloat int nat \<comment> \<open>a float, as the quotient of an integer and a power of two\<close>
  | PStr string
  | PList "pyval list"
  | PObj nat \<comment> \<open>any other object, by identity\<close>

text \<open>\<open>isinstance(x, int)\<close>: a \<open>bool\<close> is an \<open>int\<close> in Python.\<close>

fun isinstance_int :: "pyval \<Rightarrow> bool" where
  "isinstance_int (PInt _) = True"
| "isinstance_int (PBool _) = True"
| "isinstance_int _ = False"

fun isinstance_bool :: "pyval \<Rightarrow> bool" where
  "isinstance_bool (PBool _) = True"
| "isinstance_bool _ = False"

fun isinstance_str :: "pyval \<Rightarrow> bool" where
  "isinstance_str (PStr _) = True"
| "isinstance_str _ = False"

fun isinstance_list :: "pyval \<Rightarrow> bool" where
  "isinstance_list (PList _) = True"
| "isinstance_list _ = False"

text \<open>The integer an \<open>int\<close> instance stands for.\<close>

fun int_of :: "pyval \<Rightarrow> int" where
  "int_of (PInt n) = n"
| "int_of (PBool b) = (if b then 1 else 0)"
| "int_of _ = 0"

text \<open>Truth value testing (\<open>if x:\<close>).\<close>

fun truthy :: "pyval \<Rightarrow> bool" where
  "truthy PNone = False"
| "truthy (PBool b) = b"
| "truthy (PInt n) = (n \<noteq> 0)"
| "truthy (PFloat m _) = (m \<noteq> 0)"
| "truthy (PStr s) = (s \<noteq> [])"
| "truthy (PList xs) = (xs \<noteq> [])"
| "truthy (PObj _) = True"

section \<open>Sequences\<close>

text \<open>Python indexing: a negative index counts from the end, out of range raises.\<close>

definition py_index :: "'a list \<Rightarrow> int \<Rightarrow> 'a res" where
  "py_index xs i =
     (if i \<ge> int (length xs) \<or> i + int (length xs) < 0 then Inl IndexError
      else Inr (xs ! nat (if i < 0 then i + int (length xs) else i)))"

lemma py_index_nonneg: "i < length xs \<Longrightarrow> py_index xs (int i) = Inr (xs ! i)"
  by (simp add: py_index_def)

text \<open>\<open>s.split(sep)\<close> for a one-character separator.\<close>

fun split_on :: "'a \<Rightarrow> 'a list \<Rightarrow> 'a list list" where
  "split_on c [] = [[]]"
| "split_on c (x # xs) =
     (if x = c then [] # split_on c xs
      else (case split_on c xs of [] \<Rightarrow> [[x]] | w # ws \<Rightarrow> (x # w) # ws))"

lemma split_on_not_Nil [simp]: "split_on c xs \<noteq> []"
  by (induction xs) (auto split: list.splits)

lemma length_split_on: "length (split_on c xs) = Suc (count_list xs c)"
  by (induction xs) (auto split: list.splits)

text \<open>\<open>s.split(sep)\<close> for a longer separator, and the test \<open>sep in s\<close>.\<close>

function split_str :: "'a list \<Rightarrow> 'a list \<Rightarrow> 'a list list" where
  "split_str sep s =
     (case s of
        [] \<Rightarrow> [[]]
      | c # cs \<Rightarrow>
          (if sep \<noteq> [] \<and> prefix sep s then [] # split_str sep (drop (length sep) s)
           else (case split_str sep cs of w # ws \<Rightarrow> (c # w) # ws | [] \<Rightarrow> [[c]])))"
  by pat_completeness auto
termination
  by (relation "measure (\<lambda>(sep, s). length s)") auto

declare split_str.simps [simp del]

definition str_in :: "'a list \<Rightarrow> 'a list \<Rightarrow> bool" where
  "str_in sep s = list_ex (prefix sep) (suffixes s)"

lemma mset_concat_map: "mset (concat (map f xs)) = sum_mset (image_mset (\<lambda>x. mset (f x)) (mset xs))"
  by (induction xs) simp_all

section \<open>Numbers in text\<close>

definition is_digit :: "char \<Rightarrow> bool" where
  "is_digit c = (let k = (of_char c :: nat) in 48 \<le> k \<and> k \<le> 57)"

definition is_space :: "char \<Rightarrow> bool" where
  "is_space c =
     (let k = (of_char c :: nat)
      in (9 \<le> k \<and> k \<le> 13) \<or> (28 \<le> k \<and> k \<le> 32) \<or> k = 133 \<or> k = 160)"

definition digit_val :: "char \<Rightarrow> int" where
  "digit_val c = int (of_char c) - 48"

definition py_strip :: "(char \<Rightarrow> bool) \<Rightarrow> string \<Rightarrow> string" where
  "py_strip P s = rev (dropWhile P (rev (dropWhile P s)))"

text \<open>Digits, with single underscores between digits.\<close>

fun parse_digits :: "int \<Rightarrow> string \<Rightarrow> int option" where
  "parse_digits acc [] = Some acc"
| "parse_digits acc (c # cs) =
     (if is_digit c then parse_digits (10 * acc + digit_val c) cs
      else (case cs of
              d # ds \<Rightarrow> (if c = CHR ''_'' \<and> is_digit d
                        then parse_digits (10 * acc + digit_val d) ds else None)
            | [] \<Rightarrow> None))"

definition parse_nat :: "string \<Rightarrow> int option" where
  "parse_nat s = (case s of [] \<Rightarrow> None | c # _ \<Rightarrow> if is_digit c then parse_digits 0 s else None)"

text \<open>\<open>int(s)\<close> on a string: surrounding white space, a sign, digits.\<close>

definition py_int :: "string \<Rightarrow> int res" where
  "py_int s =
     (let r = (case py_strip is_space s of
                 c # cs \<Rightarrow> (if c = CHR ''-'' then map_option uminus (parse_nat cs)
                            else if c = CHR ''+'' then parse_nat cs
                            else parse_nat (c # cs))
               | [] \<Rightarrow> None)
      in case r of None \<Rightarrow> Inl ValueError | Some n \<Rightarrow> Inr n)"

text \<open>\<open>str(n)\<close> on an integer.\<close>

fun digits_rev :: "nat \<Rightarrow> string" where
  "digits_rev n =
     (if n < 10 then [char_of (n + 48)] else char_of (n mod 10 + 48) # digits_rev (n div 10))"

declare digits_rev.simps [simp del]

definition py_str_nat :: "nat \<Rightarrow> string" where
  "py_str_nat n = rev (digits_rev n)"

definition py_str_int :: "int \<Rightarrow> string" where
  "py_str_int i = (if i < 0 then CHR ''-'' # py_str_nat (nat (- i)) else py_str_nat (nat i))"

lemma digit_char:
  assumes "k < 10"
  shows "is_digit (char_of (k + 48 :: nat))" and "digit_val (char_of (k + 48 :: nat)) = int k"
    and "\<not> is_space (char_of (k + 48 :: nat))"
  using assms by (simp_all add: is_digit_def digit_val_def is_space_def Let_def)

lemma digits_rev_not_Nil [simp]: "digits_rev n \<noteq> []"
  by (subst digits_rev.simps) simp

lemma digits_rev_digits: "c \<in> set (digits_rev n) \<Longrightarrow> is_digit c \<and> \<not> is_space c"
proof (induction n rule: digits_rev.induct)
  case (1 n)
  then show ?case
    by (cases "n < 10") (auto simp: digits_rev.simps [of n] digit_char)
qed

lemma parse_digits_append:
  "list_all is_digit xs \<Longrightarrow>
     parse_digits acc (xs @ ys) =
       parse_digits (foldl (\<lambda>a c. 10 * a + digit_val c) acc xs) ys"
  by (induction xs arbitrary: acc) auto

lemma foldl_digits_rev: "foldl (\<lambda>a c. 10 * a + digit_val c) 0 (rev (digits_rev n)) = int n"
proof (induction n rule: digits_rev.induct)
  case (1 n)
  show ?case
  proof (cases "n < 10")
    case True
    then show ?thesis by (simp add: digits_rev.simps [of n] digit_char)
  next
    case False
    then have "foldl (\<lambda>a c. 10 * a + digit_val c) 0 (rev (digits_rev (n div 10))) = int (n div 10)"
      using 1 by blast
    moreover have "10 * int (n div 10) + int (n mod 10) = int n"
      by (metis mult_div_mod_eq of_nat_add of_nat_mult of_nat_numeral)
    ultimately show ?thesis
      using False by (simp add: digits_rev.simps [of n] digit_char)
  qed
qed

lemma py_str_nat_digits: "list_all is_digit (py_str_nat n)" "py_str_nat n \<noteq> []"
    "list_all (\<lambda>c. \<not> is_space c) (py_str_nat n)"
  using digits_rev_digits by (auto simp: py_str_nat_def list_all_iff)

lemma parse_nat_str: "parse_nat (py_str_nat n) = Some (int n)"
proof -
  obtain c cs where c: "py_str_nat n = c # cs" using py_str_nat_digits(2) by (cases "py_str_nat n") auto
  have "parse_digits 0 (py_str_nat n) = Some (int n)"
    using parse_digits_append [OF py_str_nat_digits(1), of 0 n "[]"] foldl_digits_rev [of n]
    by (simp add: py_str_nat_def)
  then show ?thesis using py_str_nat_digits(1) [of n] by (simp add: parse_nat_def c)
qed

lemma py_strip_id: "list_all (\<lambda>c. \<not> P c) s \<Longrightarrow> py_strip P s = s"
proof -
  assume a: "list_all (\<lambda>c. \<not> P c) s"
  have "dropWhile P s = s" using a by (cases s) auto
  moreover have "dropWhile P (rev s) = rev s" using a by (cases "rev s") (auto simp: list_all_iff dest: arg_cong [where f = set])
  ultimately show ?thesis by (simp add: py_strip_def)
qed

text \<open>Reading back what was printed.\<close>

lemma py_int_str: "py_int (py_str_int i) = Inr i"
proof (cases "i < 0")
  case True
  have "py_strip is_space (py_str_int i) = py_str_int i"
    using True py_str_nat_digits(3) by (intro py_strip_id) (simp add: py_str_int_def is_space_def)
  then show ?thesis using True by (simp add: py_int_def py_str_int_def parse_nat_str)
next
  case False
  obtain c cs where c: "py_str_nat (nat i) = c # cs"
    using py_str_nat_digits(2) by (cases "py_str_nat (nat i)") auto
  have d: "is_digit c" using py_str_nat_digits(1) [of "nat i"] by (simp add: c)
  then have "c \<noteq> CHR ''-''" "c \<noteq> CHR ''+''" by (auto simp: is_digit_def)
  moreover have "py_strip is_space (py_str_int i) = c # cs"
    using False py_str_nat_digits(3) [of "nat i"] by (simp add: py_str_int_def py_strip_id c)
  ultimately show ?thesis
    using False parse_nat_str [of "nat i"] by (simp add: py_int_def c)
qed

end
