(* ===== verification/Scheduler.thy ===== *)
theory Scheduler
  imports Prelude
begin

text \<open>
  The profiling schedule, \<open>torch_npu/profiler/scheduler.py\<close>: the four profiler actions, the
  normalisation of the schedule parameters (\<open>Schedule._check_params\<close>), the step-to-action
  function (\<open>Schedule.__call__\<close>) and the default schedule.  The locale \<open>disciplined_schedule\<close>
  is what the profiler front end relies on; it is interpreted on both schedules.

  \<open>step / num_steps >= repeat\<close> is compared on the exact quotient; Python's float quotient
  agrees with it while \<open>repeat * num_steps\<close> stays below two to the power 53.
\<close>

section \<open>The schedule\<close>

datatype ProfilerAction = NONE | WARMUP | RECORD | RECORD_AND_SAVE

record Schedule =
  sch_wait :: int
  sch_active :: int
  sch_warmup :: int
  sch_repeat :: int
  sch_skip_first :: int

definition reset_below :: "int \<Rightarrow> pyval \<Rightarrow> int" where
  "reset_below lo v = (if \<not> isinstance_int v \<or> int_of v < lo then lo else int_of v)"

definition check_params :: "pyval \<Rightarrow> pyval \<Rightarrow> pyval \<Rightarrow> pyval \<Rightarrow> pyval \<Rightarrow> Schedule" where
  "check_params wait active warmup rep skip =
     \<lparr>sch_wait = reset_below 0 wait,
      sch_active = reset_below 1 active,
      sch_warmup = reset_below 0 warmup,
      sch_repeat = reset_below 0 rep,
      sch_skip_first = reset_below 0 skip\<rparr>"

definition num_steps :: "Schedule \<Rightarrow> int" where
  "num_steps s = sch_wait s + sch_warmup s + sch_active s"

definition schedule_call :: "Schedule \<Rightarrow> int \<Rightarrow> ProfilerAction res" where
  "schedule_call s step0 =
     (if step0 < 0 then Inl ValueError
      else if step0 < sch_skip_first s then Inr NONE
      else let step = step0 - sch_skip_first s;
               n = num_steps s
           in if sch_repeat s > 0 \<and> step \<ge> sch_repeat s * n then Inr NONE
              else let mod_step = step mod n
                   in if mod_step < sch_wait s then Inr NONE
                      else if mod_step < sch_wait s + sch_warmup s then Inr WARMUP
                      else if mod_step < n - 1 then Inr RECORD
                      else Inr RECORD_AND_SAVE)"

definition default_schedule_fn :: "int \<Rightarrow> ProfilerAction res" where
  "default_schedule_fn _ = Inr RECORD"

definition valid_schedule :: "Schedule \<Rightarrow> bool" where
  "valid_schedule s \<longleftrightarrow> 0 \<le> sch_wait s \<and> 1 \<le> sch_active s \<and> 0 \<le> sch_warmup s
     \<and> 0 \<le> sch_repeat s \<and> 0 \<le> sch_skip_first s"

lemma check_params_valid: "valid_schedule (check_params w a wu r sk)"
  by (auto simp: valid_schedule_def check_params_def reset_below_def)

lemma num_steps_pos: "valid_schedule s \<Longrightarrow> 0 < num_steps s"
  by (auto simp: valid_schedule_def num_steps_def)

section \<open>Behaviour within a cycle\<close>

text \<open>The action at offset \<open>m\<close> of a cycle.\<close>

definition phase_action :: "Schedule \<Rightarrow> int \<Rightarrow> ProfilerAction" where
  "phase_action s m =
     (if m < sch_wait s then NONE
      else if m < sch_wait s + sch_warmup s then WARMUP
      else if m < num_steps s - 1 then RECORD else RECORD_AND_SAVE)"

lemma schedule_call_cycle:
  assumes "valid_schedule s" and "0 \<le> c" and "0 \<le> m" and "m < num_steps s"
  shows "schedule_call s (sch_skip_first s + c * num_steps s + m) =
           Inr (if sch_repeat s > 0 \<and> c \<ge> sch_repeat s then NONE else phase_action s m)"
proof -
  let ?n = "num_steps s"
  have pos: "0 < ?n" using assms(1) by (rule num_steps_pos)
  have skip: "0 \<le> sch_skip_first s" using assms(1) by (simp add: valid_schedule_def)
  have cn: "0 \<le> c * ?n" using assms(2) pos by simp
  have modm: "(c * ?n + m) mod ?n = m" using assms(3,4) by simp
  have "sch_repeat s * ?n \<le> c * ?n + m \<longleftrightarrow> sch_repeat s \<le> c"
  proof
    assume "sch_repeat s * ?n \<le> c * ?n + m"
    then have "sch_repeat s * ?n < (c + 1) * ?n" using assms(4) by (simp add: algebra_simps)
    then show "sch_repeat s \<le> c" using pos by simp
  next
    assume "sch_repeat s \<le> c"
    then have "sch_repeat s * ?n \<le> c * ?n" using pos by simp
    then show "sch_repeat s * ?n \<le> c * ?n + m" using assms(3) by simp
  qed
  then show ?thesis
    using cn skip assms(3) modm
    by (auto simp: schedule_call_def phase_action_def Let_def)
qed

lemma schedule_call_total:
  assumes "valid_schedule s" and "0 \<le> step"
  shows "\<exists>a. schedule_call s step = Inr a"
  using assms by (auto simp: schedule_call_def Let_def)

text \<open>Every step past the skipped ones has a cycle number and an offset.\<close>

lemma step_decompose:
  assumes "valid_schedule s" and "sch_skip_first s \<le> step"
  obtains c m where "0 \<le> c" and "0 \<le> m" and "m < num_steps s"
    and "step = sch_skip_first s + c * num_steps s + m"
proof
  let ?n = "num_steps s"
  have pos: "0 < ?n" using assms(1) by (rule num_steps_pos)
  show "0 \<le> (step - sch_skip_first s) div ?n"
    using assms(2) pos by (simp add: pos_imp_zdiv_nonneg_iff)
  show "0 \<le> (step - sch_skip_first s) mod ?n" "(step - sch_skip_first s) mod ?n < ?n"
    using pos by simp_all
  show "step = sch_skip_first s + (step - sch_skip_first s) div ?n * ?n
                 + (step - sch_skip_first s) mod ?n"
    by simp
qed

text \<open>What follows a step of a cycle: the next offset, or the first offset of the next cycle.\<close>

lemma next_after_record:
  assumes "valid_schedule s" and "schedule_call s step = Inr RECORD"
  shows "schedule_call s (step + 1) = Inr RECORD \<or> schedule_call s (step + 1) = Inr RECORD_AND_SAVE"
proof -
  have "0 \<le> step" and skip: "sch_skip_first s \<le> step"
    using assms(2) by (auto simp: schedule_call_def split: if_splits)
  obtain c m where cm: "0 \<le> c" "0 \<le> m" "m < num_steps s"
    and step: "step = sch_skip_first s + c * num_steps s + m"
    using step_decompose [OF assms(1) skip] .
  have act: "\<not> (sch_repeat s > 0 \<and> c \<ge> sch_repeat s)" "phase_action s m = RECORD"
    using assms(2) schedule_call_cycle [OF assms(1) cm] by (auto simp: step split: if_splits)
  then have "m < num_steps s - 1" "sch_wait s + sch_warmup s \<le> m" "sch_wait s \<le> m"
    using assms(1) by (auto simp: phase_action_def valid_schedule_def split: if_splits)
  then show ?thesis
    using schedule_call_cycle [OF assms(1) cm(1), of "m + 1"] cm(2) act(1)
    by (auto simp: step phase_action_def add.assoc split: if_splits)
qed

lemma next_after_warmup:
  assumes "valid_schedule s" and "schedule_call s step = Inr WARMUP"
  shows "schedule_call s (step + 1) \<noteq> Inr NONE"
proof -
  have skip: "sch_skip_first s \<le> step"
    using assms(2) by (auto simp: schedule_call_def split: if_splits)
  obtain c m where cm: "0 \<le> c" "0 \<le> m" "m < num_steps s"
    and step: "step = sch_skip_first s + c * num_steps s + m"
    using step_decompose [OF assms(1) skip] .
  have act: "\<not> (sch_repeat s > 0 \<and> c \<ge> sch_repeat s)" "phase_action s m = WARMUP"
    using assms(2) schedule_call_cycle [OF assms(1) cm] by (auto simp: step split: if_splits)
  then have "m + 1 < num_steps s" "sch_wait s \<le> m"
    using assms(1) by (auto simp: phase_action_def num_steps_def valid_schedule_def split: if_splits)
  then show ?thesis
    using schedule_call_cycle [OF assms(1) cm(1), of "m + 1"] cm(2) act(1)
    by (auto simp: step phase_action_def add.assoc split: if_splits)
qed

section \<open>The contract the profiler relies on\<close>

locale disciplined_schedule =
  fixes sched :: "int \<Rightarrow> ProfilerAction res"
  assumes total: "0 \<le> n \<Longrightarrow> \<exists>a. sched n = Inr a"
    and after_record: "0 \<le> n \<Longrightarrow> sched n = Inr RECORD \<Longrightarrow>
          sched (n + 1) = Inr RECORD \<or> sched (n + 1) = Inr RECORD_AND_SAVE"
    and after_warmup: "0 \<le> n \<Longrightarrow> sched n = Inr WARMUP \<Longrightarrow> sched (n + 1) \<noteq> Inr NONE"
begin

text \<open>The action of a step, and the pairs of consecutive actions a run can meet.\<close>

definition act :: "nat \<Rightarrow> ProfilerAction" where
  "act n = (case sched (int n) of Inl _ \<Rightarrow> NONE | Inr a \<Rightarrow> a)"

lemma sched_act: "sched (int n) = Inr (act n)"
  using total [of "int n"] by (auto simp: act_def)

lemma act_pairs:
  "act n = RECORD \<Longrightarrow> act (Suc n) \<in> {RECORD, RECORD_AND_SAVE}"
  "act n = WARMUP \<Longrightarrow> act (Suc n) \<noteq> NONE"
  using after_record [of "int n"] after_warmup [of "int n"] sched_act [of n] sched_act [of "Suc n"]
  by (auto simp: add.commute)

end

interpretation user_schedule:
  disciplined_schedule "schedule_call (check_params w a wu r sk)" for w a wu r sk
  by unfold_locales
    (use check_params_valid [of w a wu r sk] schedule_call_total next_after_record next_after_warmup
      in blast)+

interpretation default_schedule: disciplined_schedule default_schedule_fn
  by unfold_locales (auto simp: default_schedule_fn_def)

section \<open>How often a trace is saved\<close>

text \<open>\<open>saves s k\<close> is the number of steps below \<open>k\<close> whose action is \<open>RECORD_AND_SAVE\<close>.\<close>

definition saves :: "Schedule \<Rightarrow> nat \<Rightarrow> nat" where
  "saves s k = length (filter (\<lambda>i. schedule_call s (int i) = Inr RECORD_AND_SAVE) [0..<k])"

lemma saves_add:
  "saves s (k + d) =
     saves s k + length (filter (\<lambda>i. schedule_call s (int i) = Inr RECORD_AND_SAVE) [k..<k + d])"
proof -
  have "[0..<k + d] = [0..<k] @ [k..<k + d]" by (rule upt_add_eq_append) simp
  then show ?thesis by (simp add: saves_def)
qed

lemma phase_save_iff:
  assumes "valid_schedule s" and "0 \<le> m" and "m < num_steps s"
  shows "phase_action s m = RECORD_AND_SAVE \<longleftrightarrow> m = num_steps s - 1"
  using assms by (auto simp: phase_action_def num_steps_def valid_schedule_def)

lemma filter_upt_single:
  assumes "k \<le> p" and "p < k + d" and "\<And>i. k \<le> i \<Longrightarrow> i < k + d \<Longrightarrow> P i \<longleftrightarrow> i = p"
  shows "filter P [k..<k + d] = [p]"
proof -
  have split: "[k..<k + d] = [k..<p] @ p # [Suc p..<k + d]"
    using assms(1,2) upt_add_eq_append [of k p "k + d - p"] upt_conv_Cons [of p "k + d"] by simp
  have "filter P [k..<p] = []" "filter P [Suc p..<k + d] = []" "P p"
    using assms by (auto simp: filter_empty_conv)
  then show ?thesis by (simp add: split)
qed

lemma saves_skip:
  assumes "valid_schedule s"
  shows "saves s (nat (sch_skip_first s)) = 0"
  by (auto simp: saves_def schedule_call_def filter_empty_conv)

lemma saves_cycles:
  assumes v: "valid_schedule s" and rep: "sch_repeat s = 0 \<or> int c \<le> sch_repeat s"
  shows "saves s (nat (sch_skip_first s) + c * nat (num_steps s)) = c"
  using rep
proof (induction c)
  case 0
  then show ?case using saves_skip [OF v] by simp
next
  case (Suc c)
  let ?n = "nat (num_steps s)" and ?k = "nat (sch_skip_first s) + c * nat (num_steps s)"
  have pos: "0 < num_steps s" using v by (rule num_steps_pos)
  have skip: "0 \<le> sch_skip_first s" using v by (simp add: valid_schedule_def)
  have act: "schedule_call s (int i) = Inr RECORD_AND_SAVE \<longleftrightarrow> i = ?k + (?n - 1)"
    if "?k \<le> i" "i < ?k + ?n" for i
  proof -
    define m where "m = int i - int ?k"
    have m: "0 \<le> m" "m < num_steps s" using that pos unfolding m_def by linarith+
    have "int i = sch_skip_first s + int c * num_steps s + m"
      using pos skip by (simp add: m_def)
    then have "schedule_call s (int i) = Inr (phase_action s m)"
      using schedule_call_cycle [OF v _ m, of "int c"] Suc.prems by auto
    moreover have "m = num_steps s - 1 \<longleftrightarrow> i = ?k + (?n - 1)"
      using that pos unfolding m_def by linarith
    ultimately show ?thesis
      using phase_save_iff [OF v m] by simp
  qed
  have "saves s (?k + ?n) = saves s ?k + length [?k + (?n - 1)]"
    unfolding saves_add
    by (subst filter_upt_single [where p = "?k + (?n - 1)"]) (use act pos in auto)
  moreover have "saves s ?k = c" using Suc by auto
  ultimately show ?case by (simp add: algebra_simps)
qed

lemma saves_finished:
  assumes v: "valid_schedule s" and rep: "0 < sch_repeat s"
  shows "saves s (nat (sch_skip_first s) + nat (sch_repeat s) * nat (num_steps s) + d) =
           nat (sch_repeat s)"
proof -
  let ?k = "nat (sch_skip_first s) + nat (sch_repeat s) * nat (num_steps s)"
  have pos: "0 < num_steps s" using v by (rule num_steps_pos)
  have skip: "0 \<le> sch_skip_first s" using v by (simp add: valid_schedule_def)
  have "schedule_call s (int i) = Inr NONE" if "?k \<le> i" for i
  proof -
    have "int ?k \<le> int i" using that by linarith
    then have "sch_skip_first s + sch_repeat s * num_steps s \<le> int i"
      using pos rep skip by simp
    then show ?thesis using skip rep by (auto simp: schedule_call_def Let_def)
  qed
  then have "filter (\<lambda>i. schedule_call s (int i) = Inr RECORD_AND_SAVE) [?k..<?k + d] = []"
    by (auto simp: filter_empty_conv)
  then show ?thesis
    using saves_cycles [OF v, of "nat (sch_repeat s)"] rep by (simp add: saves_add)
qed

end
