(* ===== verification/Path_Manager.thy ===== *)
theory Path_Manager
  imports Prelude
begin

text \<open>
  The path guard, \<open>torch_npu/utils/_path_manager.py\<close>.  The file system is a map from paths to
  nodes; a symbolic link carries the node it resolves to, if any.  What the operating system
  decides on its own (whether \<open>makedirs\<close>, \<open>rmtree\<close>, \<open>remove\<close> and \<open>open\<close> succeed) is a field of
  the state, so every exception branch of the code is a branch of the model.

  Paths are strings over the code points 0 to 255; the CJK range that the pattern of
  \<open>_input_path_common_check\<close> also admits lies outside.  Ownership mismatches only warn.
\<close>

section \<open>File system\<close>

record fattr =
  fa_uid :: nat
  fa_read :: bool
  fa_write :: bool

datatype fnode = FFile fattr | FDir fattr | FLink "fnode option"

type_synonym path = string

datatype sys_outcome = SysOk | SysGone | SysFail

record os_state =
  os_fs :: "path \<rightharpoonup> fnode"
  os_uid :: nat
  os_make :: "path \<Rightarrow> bool"
  os_remove :: "path \<Rightarrow> sys_outcome"
  os_write :: "path \<Rightarrow> bool"

primrec resolve :: "fnode \<Rightarrow> fnode option" and resolve_opt :: "fnode option \<Rightarrow> fnode option" where
  "resolve (FFile a) = Some (FFile a)"
| "resolve (FDir a) = Some (FDir a)"
| "resolve (FLink t) = resolve_opt t"
| "resolve_opt None = None"
| "resolve_opt (Some n) = resolve n"

fun node_attr :: "fnode \<Rightarrow> fattr option" where
  "node_attr (FFile a) = Some a"
| "node_attr (FDir a) = Some a"
| "node_attr (FLink _) = None"

definition target :: "os_state \<Rightarrow> path \<Rightarrow> fnode option" where
  "target s p = (case os_fs s p of None \<Rightarrow> None | Some n \<Rightarrow> resolve n)"

definition path_islink :: "os_state \<Rightarrow> path \<Rightarrow> bool" where
  "path_islink s p = (case os_fs s p of Some (FLink _) \<Rightarrow> True | _ \<Rightarrow> False)"

definition path_exists :: "os_state \<Rightarrow> path \<Rightarrow> bool" where
  "path_exists s p = (target s p \<noteq> None)"

definition path_isfile :: "os_state \<Rightarrow> path \<Rightarrow> bool" where
  "path_isfile s p = (case target s p of Some (FFile _) \<Rightarrow> True | _ \<Rightarrow> False)"

definition path_isdir :: "os_state \<Rightarrow> path \<Rightarrow> bool" where
  "path_isdir s p = (case target s p of Some (FDir _) \<Rightarrow> True | _ \<Rightarrow> False)"

definition access_with :: "(fattr \<Rightarrow> bool) \<Rightarrow> os_state \<Rightarrow> path \<Rightarrow> bool" where
  "access_with f s p =
     (case target s p of
        None \<Rightarrow> False
      | Some n \<Rightarrow> (case node_attr n of None \<Rightarrow> False | Some a \<Rightarrow> f a))"

section \<open>Checks\<close>

definition MAX_PATH_LENGTH :: nat where "MAX_PATH_LENGTH = 4096"
definition MAX_FILE_NAME_LENGTH :: nat where "MAX_FILE_NAME_LENGTH = 255"

definition path_char :: "char \<Rightarrow> bool" where
  "path_char c =
     (let k = (of_char c :: nat)
      in c \<in> set ''./_-~''
       \<or> (9 \<le> k \<and> k \<le> 13) \<or> (28 \<le> k \<and> k \<le> 32) \<or> k = 133 \<or> k = 160
       \<or> (48 \<le> k \<and> k \<le> 57) \<or> (65 \<le> k \<and> k \<le> 90) \<or> (97 \<le> k \<and> k \<le> 122))"

definition input_path_common_check :: "os_state \<Rightarrow> path \<Rightarrow> unit res" where
  "input_path_common_check s p =
     (if length p > MAX_PATH_LENGTH then Inl RuntimeError
      else if path_islink s p then Inl RuntimeError
      else if p = [] \<or> \<not> list_all path_char p then Inl RuntimeError
      else if \<exists>name \<in> set (split_on CHR ''/'' p). length name > MAX_FILE_NAME_LENGTH
           then Inl RuntimeError
      else Inr ())"

definition check_input_directory_path :: "os_state \<Rightarrow> path \<Rightarrow> unit res" where
  "check_input_directory_path s p =
     rbind (input_path_common_check s p)
       (\<lambda>_. if path_isfile s p then Inl RuntimeError else Inr ())"

definition check_input_file_path :: "os_state \<Rightarrow> path \<Rightarrow> unit res" where
  "check_input_file_path s p =
     rbind (input_path_common_check s p)
       (\<lambda>_. if path_isdir s p then Inl RuntimeError else Inr ())"

definition check_path_owner_consistent :: "os_state \<Rightarrow> path \<Rightarrow> unit res" where
  "check_path_owner_consistent s p = (if \<not> path_exists s p then Inl RuntimeError else Inr ())"

definition check_path_is_readable :: "os_state \<Rightarrow> path \<Rightarrow> bool" where
  "check_path_is_readable s p = access_with fa_read s p"

definition check_path_is_writeable :: "os_state \<Rightarrow> path \<Rightarrow> bool" where
  "check_path_is_writeable s p = access_with fa_write s p"

definition check_directory_path_writeable :: "os_state \<Rightarrow> path \<Rightarrow> unit res" where
  "check_directory_path_writeable s p =
     rbind (check_path_owner_consistent s p)
       (\<lambda>_. if path_islink s p then Inl RuntimeError
            else if \<not> access_with fa_write s p then Inl RuntimeError
            else Inr ())"

definition check_directory_path_readable :: "os_state \<Rightarrow> path \<Rightarrow> unit res" where
  "check_directory_path_readable s p =
     rbind (check_path_owner_consistent s p)
       (\<lambda>_. if path_islink s p then Inl RuntimeError
            else if \<not> access_with fa_read s p then Inl RuntimeError
            else Inr ())"

section \<open>Mutations\<close>

text \<open>The directories \<open>os.makedirs\<close> creates: every proper ancestor and the path itself.\<close>

definition ancestors :: "path \<Rightarrow> path list" where
  "ancestors p = filter (\<lambda>q. q \<noteq> [])
     (map (\<lambda>i. take i p) (filter (\<lambda>i. p ! i = CHR ''/'') [0..<length p])) @ [p]"

definition own_attr :: "os_state \<Rightarrow> fattr" where
  "own_attr s = \<lparr>fa_uid = os_uid s, fa_read = True, fa_write = True\<rparr>"

definition add_missing :: "fnode \<Rightarrow> path \<Rightarrow> (path \<rightharpoonup> fnode) \<Rightarrow> (path \<rightharpoonup> fnode)" where
  "add_missing n q m = (case m q of None \<Rightarrow> m(q \<mapsto> n) | Some _ \<Rightarrow> m)"

definition makedirs :: "os_state \<Rightarrow> path \<Rightarrow> os_state" where
  "makedirs s p = s\<lparr>os_fs := fold (add_missing (FDir (own_attr s))) (ancestors p) (os_fs s)\<rparr>"

definition make_dir_safety :: "os_state \<Rightarrow> path \<Rightarrow> os_state res" where
  "make_dir_safety s p =
     (if path_islink s p then Inl RuntimeError
      else if path_exists s p then Inr s
      else if os_make s p then Inr (makedirs s p) else Inl RuntimeError)"

definition create_file_safety :: "os_state \<Rightarrow> path \<Rightarrow> os_state res" where
  "create_file_safety s p =
     (if path_islink s p then Inl RuntimeError
      else if path_exists s p then Inr s
      else if os_make s p then Inr (s\<lparr>os_fs := (os_fs s)(p \<mapsto> FFile (own_attr s))\<rparr>)
      else Inl RuntimeError)"

definition below :: "path \<Rightarrow> path \<Rightarrow> bool" where
  "below p q = (q = p \<or> prefix (p @ ''/'') q)"

definition rmtree :: "os_state \<Rightarrow> path \<Rightarrow> os_state" where
  "rmtree s p = s\<lparr>os_fs := (\<lambda>q. if below p q then None else os_fs s q)\<rparr>"

text \<open>
  \<open>shutil.rmtree\<close> on a regular file and \<open>os.remove\<close> on a directory raise, which the callers turn into
  \<open>RuntimeError\<close>.  A removal that fails is taken to have removed nothing.
\<close>

definition remove_path_safety :: "os_state \<Rightarrow> path \<Rightarrow> os_state res" where
  "remove_path_safety s p =
     (if path_islink s p then Inl RuntimeError
      else if \<not> path_exists s p then Inr s
      else (case os_remove s p of
              SysOk \<Rightarrow> (if path_isdir s p then Inr (rmtree s p) else Inl RuntimeError)
            | SysGone \<Rightarrow> Inr s
            | SysFail \<Rightarrow> Inl RuntimeError))"

text \<open>
  \<open>remove_file_safety\<close> catches \<open>FileExistsError\<close>, which \<open>os.remove\<close> does not raise: a file that
  vanished meanwhile (\<open>FileNotFoundError\<close>) reaches the general handler and raises.
\<close>

definition remove_file_safety :: "os_state \<Rightarrow> path \<Rightarrow> os_state res" where
  "remove_file_safety s p =
     (if path_islink s p then Inl RuntimeError
      else if \<not> path_exists s p then Inr s
      else (case os_remove s p of
              SysOk \<Rightarrow> (if path_isdir s p then Inl RuntimeError
                        else Inr (s\<lparr>os_fs := (os_fs s)(p := None)\<rparr>))
            | SysGone \<Rightarrow> Inl RuntimeError
            | SysFail \<Rightarrow> Inl RuntimeError))"

section \<open>Path arithmetic\<close>

definition path_join :: "path \<Rightarrow> path \<Rightarrow> path" where
  "path_join a b =
     (if prefix ''/'' b then b
      else if a = [] \<or> last a = CHR ''/'' then a @ b
      else a @ ''/'' @ b)"

definition path_dirname :: "path \<Rightarrow> path" where
  "path_dirname p =
     (let head = rev (dropWhile (\<lambda>c. c \<noteq> CHR ''/'') (rev p));
          trimmed = rev (dropWhile (\<lambda>c. c = CHR ''/'') (rev head))
      in if trimmed = [] then head else trimmed)"

text \<open>
  \<open>FileManager.create_json_file_by_path\<close> and \<open>create_bin_file_by_path\<close> on non-empty data: the
  directory and the file are made, the file is checked, then written.
\<close>

definition write_file :: "os_state \<Rightarrow> path \<Rightarrow> os_state res" where
  "write_file s p =
     rbind (make_dir_safety s (path_dirname p)) (\<lambda>s1.
     rbind (create_file_safety s1 p) (\<lambda>s2.
     rbind (check_directory_path_writeable s2 p) (\<lambda>_.
     if os_write s2 p then Inr s2 else Inl RuntimeError)))"

section \<open>What a successful check or mutation guarantees\<close>

lemma add_missing_other: "q' \<noteq> q \<Longrightarrow> add_missing n q m q' = m q'"
  by (simp add: add_missing_def split: option.splits)

lemma add_missing_keeps: "m r = Some x \<Longrightarrow> add_missing n q m r = Some x"
  by (auto simp: add_missing_def split: option.splits)

lemma fold_add_missing_keeps: "m r = Some x \<Longrightarrow> fold (add_missing n) qs m r = Some x"
  by (induction qs arbitrary: m) (auto simp: add_missing_keeps)

lemma fold_add_missing_adds:
  "r \<in> set qs \<Longrightarrow> m r = None \<Longrightarrow> fold (add_missing n) qs m r = Some n"
proof (induction qs arbitrary: m)
  case (Cons q qs)
  show ?case
  proof (cases "q = r")
    case True
    then have "add_missing n q m r = Some n" using Cons.prems by (simp add: add_missing_def)
    then show ?thesis by (simp add: fold_add_missing_keeps)
  next
    case False
    with Cons.prems have "add_missing n q m r = None" "r \<in> set qs" by (auto simp: add_missing_other)
    with Cons.IH show ?thesis by simp
  qed
qed simp

lemma makedirs_keeps: "os_fs s q = Some n \<Longrightarrow> os_fs (makedirs s p) q = Some n"
  by (simp add: makedirs_def fold_add_missing_keeps)

lemma makedirs_creates: "os_fs s p = None \<Longrightarrow> os_fs (makedirs s p) p = Some (FDir (own_attr s))"
  by (simp add: makedirs_def fold_add_missing_adds ancestors_def del: fold_append)

lemma not_link_cases:
  assumes "\<not> path_islink s p"
  shows "os_fs s p = None \<or> (\<exists>a. os_fs s p = Some (FFile a)) \<or> (\<exists>a. os_fs s p = Some (FDir a))"
proof (cases "os_fs s p")
  case (Some n)
  then show ?thesis using assms by (cases n) (auto simp: path_islink_def)
qed simp

lemma exists_not_link:
  assumes "\<not> path_islink s p"
  shows "path_exists s p \<longleftrightarrow> os_fs s p \<noteq> None"
  using not_link_cases [OF assms] by (auto simp: path_exists_def target_def)

lemma make_dir_safety_ok:
  assumes "make_dir_safety s p = Inr s'"
  shows "path_exists s' p \<and> \<not> path_islink s' p
       \<and> (\<forall>q n. os_fs s q = Some n \<longrightarrow> os_fs s' q = Some n)"
proof (cases "path_exists s p")
  case True
  then show ?thesis using assms by (auto simp: make_dir_safety_def split: if_splits)
next
  case False
  have nl: "\<not> path_islink s p" and s': "s' = makedirs s p"
    using assms False by (auto simp: make_dir_safety_def split: if_splits)
  then have "os_fs s p = None" using False exists_not_link by blast
  then have "os_fs s' p = Some (FDir (own_attr s))" by (simp add: s' makedirs_creates)
  then show ?thesis
    by (auto simp: s' makedirs_keeps path_exists_def target_def path_islink_def)
qed

lemma check_writeable_ok:
  "check_directory_path_writeable s p = Inr () \<longleftrightarrow>
     path_exists s p \<and> \<not> path_islink s p \<and> access_with fa_write s p"
  by (auto simp: check_directory_path_writeable_def check_path_owner_consistent_def split: if_splits)

lemma remove_path_safety_ok:
  assumes "remove_path_safety s p = Inr s'" and "os_remove s p \<noteq> SysGone" and "path_exists s p"
  shows "path_isdir s p \<and> \<not> path_islink s p
       \<and> (\<forall>q. os_fs s' q = (if below p q then None else os_fs s q))"
  using assms
  by (auto simp: remove_path_safety_def rmtree_def split: if_splits sys_outcome.splits)

lemma common_check_ok:
  "input_path_common_check s p = Inr () \<longleftrightarrow>
     p \<noteq> [] \<and> length p \<le> MAX_PATH_LENGTH \<and> \<not> path_islink s p \<and> list_all path_char p
     \<and> (\<forall>name \<in> set (split_on CHR ''/'' p). length name \<le> MAX_FILE_NAME_LENGTH)"
  by (auto simp: input_path_common_check_def not_less not_le)

end
