(* ===== verification/Native_Profiler.thy ===== *)
theory Native_Profiler
  imports Path_Manager
begin

text \<open>
  The native side of the profiler: the state \<open>ProfilerMgr\<close> keeps between the calls of the Python
  front end (\<open>csrc/profiler/profiler_mgr.cpp\<close>), and the five entry points that reach it
  (\<open>csrc/profiler/npu_profiler.cpp\<close>).

  The device library is outside: its calls succeed (a configuration is created when one is asked
  for, the current device is known).  The flags read from the experimental configuration, the
  Python tracer and the operator callbacks are left out.  What the C++ code writes to its error log
  is counted: \<open>mgr_refused\<close> for a directory it cannot use, \<open>mgr_misused\<close> for a start of what
  runs and a stop of what does not.
\<close>

section \<open>State\<close>

record prof_mgr =
  mgr_path :: path
  mgr_npu_trace :: bool
  mgr_report_enable :: bool
  mgr_enable_warmup :: bool
  mgr_prof_config :: bool
  mgr_receivers :: "path option"
  mgr_profiler_state :: bool
  mgr_refused :: nat
  mgr_misused :: nat

type_synonym native_state = "prof_mgr \<times> os_state"

definition PATH_MAX :: nat where "PATH_MAX = 4096"

definition is_dir :: "os_state \<Rightarrow> path \<Rightarrow> bool" where
  "is_dir s p = (p \<noteq> [] \<and> length p \<le> PATH_MAX \<and> path_isdir s p \<and> \<not> path_islink s p)"

definition is_soft_link :: "os_state \<Rightarrow> path \<Rightarrow> bool" where
  "is_soft_link s p = (p \<noteq> [] \<and> length p \<le> PATH_MAX \<and> path_exists s p \<and> path_islink s p)"

text \<open>
  \<open>CreateDir\<close> makes the missing ancestors one after the other; a directory that exists is fine, an
  ancestor that is something else is not.
\<close>

definition create_dir :: "os_state \<Rightarrow> path \<Rightarrow> bool \<times> os_state" where
  "create_dir s p =
     (if p = [] \<or> length p > PATH_MAX then (False, s)
      else if path_exists s p then (is_dir s p, s)
      else if \<exists>q \<in> set (butlast (ancestors p)). path_exists s q \<and> \<not> path_isdir s q then (False, s)
      else if os_make s p then (True, makedirs s p) else (False, s))"

definition relative_to_abs :: "path \<Rightarrow> path \<Rightarrow> path" where
  "relative_to_abs cwd p =
     (if p = [] \<or> length p > PATH_MAX then []
      else if hd p \<noteq> CHR ''/'' then cwd @ ''/'' @ p else p)"

section \<open>The manager\<close>

definition refuse :: "prof_mgr \<Rightarrow> prof_mgr" where
  "refuse m = m\<lparr>mgr_refused := Suc (mgr_refused m)\<rparr>"

definition misuse :: "prof_mgr \<Rightarrow> prof_mgr" where
  "misuse m = m\<lparr>mgr_misused := Suc (mgr_misused m)\<rparr>"

definition fwk_path :: "path \<Rightarrow> path" where
  "fwk_path p = p @ ''/FRAMEWORK''"

definition StartDataReceiver :: "path \<Rightarrow> prof_mgr \<Rightarrow> prof_mgr" where
  "StartDataReceiver fwk m = m\<lparr>mgr_receivers := Some fwk\<rparr>"

definition StopDataReceiver :: "prof_mgr \<Rightarrow> prof_mgr" where
  "StopDataReceiver m = m\<lparr>mgr_receivers := None\<rparr>"

definition open_receivers :: "native_state \<Rightarrow> native_state" where
  "open_receivers = (\<lambda>(m, s).
     case create_dir s (fwk_path (mgr_path m)) of
       (made, s') \<Rightarrow>
         (if made then (StartDataReceiver (fwk_path (mgr_path m)) m)\<lparr>mgr_report_enable := True\<rparr>
          else refuse m, s'))"

definition mgr_Init :: "path \<Rightarrow> bool \<Rightarrow> prof_mgr \<Rightarrow> prof_mgr" where
  "mgr_Init p npu m = (if npu then m\<lparr>mgr_npu_trace := True\<rparr> else m)\<lparr>mgr_path := p\<rparr>"

text \<open>\<open>Warmup\<close> always creates a configuration, \<open>Start\<close> only when there is none yet.\<close>

definition mgr_Warmup :: "bool \<Rightarrow> native_state \<Rightarrow> native_state" where
  "mgr_Warmup cpu = (\<lambda>(m, s).
     let m1 = (if mgr_npu_trace m then m\<lparr>mgr_prof_config := True\<rparr> else m);
         (m2, s') = (if cpu then open_receivers (m1, s) else (m1, s))
     in (m2\<lparr>mgr_enable_warmup := True\<rparr>, s'))"

definition mgr_Start :: "bool \<Rightarrow> native_state \<Rightarrow> native_state" where
  "mgr_Start cpu = (\<lambda>(m, s).
     let m1 = (if mgr_npu_trace m then m\<lparr>mgr_prof_config := True\<rparr> else m);
         (m2, s') = (if cpu \<and> \<not> mgr_enable_warmup m then open_receivers (m1, s) else (m1, s))
     in (m2\<lparr>mgr_enable_warmup := False\<rparr>, s'))"

definition mgr_Stop :: "prof_mgr \<Rightarrow> prof_mgr" where
  "mgr_Stop m =
     (let m1 = (if mgr_report_enable m then StopDataReceiver m else m);
          m2 = (if mgr_npu_trace m then m1\<lparr>mgr_prof_config := False\<rparr> else m1)
      in m2\<lparr>mgr_report_enable := False, mgr_enable_warmup := False\<rparr>)"

definition mgr_Finalize :: "prof_mgr \<Rightarrow> prof_mgr" where
  "mgr_Finalize m = m\<lparr>mgr_npu_trace := False\<rparr>"

section \<open>The entry points\<close>

definition initNpuProfiler ::
  "path \<Rightarrow> (path \<Rightarrow> path) \<Rightarrow> path \<Rightarrow> bool \<Rightarrow> (native_state, unit) stm" where
  "initNpuProfiler cwd realpath p npu = (\<lambda>(m, s).
     if p = [] then (Inr (), (m, s))
     else let q = relative_to_abs cwd p
       in if is_soft_link s q then (Inr (), (refuse m, s))
          else let (there, s1) = (if path_exists s q then (True, s) else create_dir s q)
            in if \<not> there then (Inr (), (refuse m, s1))
               else if \<not> is_dir s1 q \<or> \<not> access_with fa_write s1 q then (Inr (), (refuse m, s1))
               else if realpath q = [] then (Inl RuntimeError, (m, s1))
               else (Inr (), (mgr_Init (realpath q) npu m, s1)))"

definition warmupNpuProfiler :: "bool \<Rightarrow> (native_state, unit) stm" where
  "warmupNpuProfiler cpu = smod (mgr_Warmup cpu)"

definition startNpuProfiler :: "bool \<Rightarrow> (native_state, unit) stm" where
  "startNpuProfiler cpu = smod (\<lambda>(m, s).
     if mgr_profiler_state m then (misuse m, s)
     else mgr_Start cpu (m\<lparr>mgr_profiler_state := True\<rparr>, s))"

definition stopNpuProfiler :: "(native_state, unit) stm" where
  "stopNpuProfiler = smod (\<lambda>(m, s).
     if \<not> mgr_profiler_state m then (misuse m, s)
     else (mgr_Stop (m\<lparr>mgr_profiler_state := False\<rparr>), s))"

definition finalizeNpuProfiler :: "(native_state, unit) stm" where
  "finalizeNpuProfiler = smod (\<lambda>(m, s). (mgr_Finalize m, s))"

section \<open>What the manager holds in each phase of a session\<close>

datatype phase = Idle | Inited | Warm | Running | Halted | Dropped

definition mgr_at :: "bool \<Rightarrow> bool \<Rightarrow> phase \<Rightarrow> prof_mgr \<Rightarrow> bool" where
  "mgr_at npu cpu ph m \<longleftrightarrow>
     (mgr_npu_trace m \<longleftrightarrow> npu \<and> ph \<in> {Inited, Warm, Running, Halted})
     \<and> (mgr_prof_config m \<longleftrightarrow> npu \<and> ph \<in> {Warm, Running, Dropped})
     \<and> (mgr_report_enable m \<longleftrightarrow> cpu \<and> ph \<in> {Warm, Running, Dropped})
     \<and> mgr_receivers m = (if cpu \<and> ph \<in> {Warm, Running, Dropped}
                           then Some (fwk_path (mgr_path m)) else None)
     \<and> (mgr_enable_warmup m \<longleftrightarrow> ph \<in> {Warm, Dropped})
     \<and> (mgr_profiler_state m \<longleftrightarrow> ph = Running)"

text \<open>An entry point logs refusals, and nothing takes them back.\<close>

definition refusals_grow :: "native_state \<Rightarrow> native_state \<Rightarrow> bool" where
  "refusals_grow x y \<longleftrightarrow> mgr_refused (fst x) \<le> mgr_refused (fst y)"

lemmas native_defs = initNpuProfiler_def warmupNpuProfiler_def startNpuProfiler_def
  stopNpuProfiler_def finalizeNpuProfiler_def mgr_Init_def mgr_Warmup_def mgr_Start_def
  mgr_Stop_def mgr_Finalize_def open_receivers_def StartDataReceiver_def StopDataReceiver_def
  refuse_def misuse_def smod_def Let_def

lemma entry_points_grow:
  "refusals_grow x (snd (initNpuProfiler cwd rp p npu x))"
  "refusals_grow x (snd (warmupNpuProfiler cpu x))"
  "refusals_grow x (snd (startNpuProfiler cpu x))"
  "refusals_grow x (snd (stopNpuProfiler x))"
  "refusals_grow x (snd (finalizeNpuProfiler x))"
  by (auto simp: native_defs refusals_grow_def split: prod.splits)

text \<open>
  In its phase an entry point that refuses nothing takes the manager to the next phase and is no
  misuse.
\<close>

lemma mgr_init_at:
  assumes "initNpuProfiler cwd rp p npu (m, s) = (Inr u, (m', s'))"
    and "mgr_refused m' = mgr_refused m" and "p \<noteq> []" and "mgr_at npu cpu Idle m"
  shows "mgr_at npu cpu Inited m' \<and> mgr_misused m' = mgr_misused m"
  using assms by (auto simp: native_defs mgr_at_def split: prod.splits if_splits)

lemma mgr_warmup_at:
  assumes "warmupNpuProfiler cpu (m, s) = (Inr u, (m', s'))"
    and "mgr_refused m' = mgr_refused m" and "mgr_at npu cpu Inited m"
  shows "mgr_at npu cpu Warm m' \<and> mgr_misused m' = mgr_misused m"
  using assms by (auto simp: native_defs mgr_at_def split: prod.splits if_splits)

lemma mgr_start_at:
  assumes "startNpuProfiler cpu (m, s) = (Inr u, (m', s'))"
    and "mgr_refused m' = mgr_refused m" and "mgr_at npu cpu ph m" and "ph = Inited \<or> ph = Warm"
  shows "mgr_at npu cpu Running m' \<and> mgr_misused m' = mgr_misused m"
  using assms by (auto simp: native_defs mgr_at_def split: prod.splits if_splits)

lemma mgr_stop_at:
  assumes "stopNpuProfiler (m, s) = (Inr u, (m', s'))" and "mgr_at npu cpu Running m"
  shows "mgr_at npu cpu Halted m' \<and> mgr_misused m' = mgr_misused m"
  using assms by (auto simp: native_defs mgr_at_def split: if_splits)

lemma mgr_finalize_at:
  assumes "finalizeNpuProfiler (m, s) = (Inr u, (m', s'))" and "mgr_at npu cpu ph m"
    and "ph = Halted \<and> ph' = Idle \<or> ph = Warm \<and> ph' = Dropped"
  shows "mgr_at npu cpu ph' m' \<and> mgr_misused m' = mgr_misused m"
  using assms by (auto simp: native_defs mgr_at_def split: if_splits)

text \<open>
  A session dropped in its warm-up keeps the receivers: a session after it that starts without a
  warm-up is initialised on its own directory and goes on writing to the old one.
\<close>

lemma start_after_drop:
  assumes "mgr_at npu True Dropped m" and "m1 = mgr_Init p npu m"
  shows "mgr_receivers (fst (mgr_Start True (m1, s))) = Some (fwk_path (mgr_path m))
       \<and> mgr_path (fst (mgr_Start True (m1, s))) = p"
  using assms by (auto simp: native_defs mgr_at_def split: prod.splits if_splits)

end
