(* ===== verification/Profiler_Control.thy ===== *)
theory Profiler_Control
  imports Scheduler Native_Profiler
begin

text \<open>
  The profiler front end: the output-directory singleton (\<open>_profiler_path_creator.py\<close>), the
  trace operations of \<open>profiler_interface.py\<close>, the action table of
  \<open>_profiler_action_controller.py\<close>, and the life cycle of \<open>profile\<close> in \<open>profiler.py\<close>.

  The calls of the native profiler, of the user's callback and of the step markers are recorded in
  the log of the state, and the native calls change the manager of \<open>Native_Profiler\<close>.  The
  environment says what the n-th call of the callback raises, if anything; the callback does not
  drive the profiler itself.  Directory names contain the host name, the process id and the time;
  the environment supplies them, the time as the stamp of the n-th directory made.
\<close>

section \<open>State\<close>

record prof_env =
  env_work_path :: "string option"
  env_cwd :: string
  env_abspath :: "string \<Rightarrow> string"
  env_expanduser :: "string \<Rightarrow> string"
  env_realpath :: "string \<Rightarrow> string"
  env_hostname :: string
  env_pid :: string
  env_stamp :: "nat \<Rightarrow> string"
  env_syscnt_enable :: bool
  env_freq :: int
  env_syscnt :: "nat \<Rightarrow> int"
  env_monotonic :: "nat \<Rightarrow> int"
  env_rank :: "string option"
  env_group_info :: "pyval option"
  env_callback :: "nat \<Rightarrow> unit res"

record prof_config =
  cfg_cpu_activity :: bool
  cfg_npu_activity :: bool
  cfg_with_gc :: bool
  cfg_export_text :: bool

datatype native_call =
    NInit path
  | NWarmup path
  | NStart path
  | NStop
  | NFinalize
  | NTraceReady
  | NStepEnter int
  | NStepExit int

record prof_world =
  pc_prof_path :: "string option"
  pc_worker_name :: "string option"
  pc_dir_path :: "string option"
  pc_export_only_mode :: bool
  pc_is_prof_inited :: bool
  pi_prof_path :: string
  pi_syscnt_enable :: bool
  pi_freq :: int
  pi_start_cnt :: int
  pi_start_monotonic :: int
  pi_gc_detector :: bool
  pi_metadata :: "(string \<times> pyval) list"
  pi_event_wraps :: nat
  w_os :: os_state
  w_mgr :: prof_mgr
  w_made :: nat
  w_log :: "native_call list"

type_synonym 'a prof = "(prof_world, 'a) stm"

definition os_call :: "(os_state \<Rightarrow> os_state res) \<Rightarrow> unit prof" where
  "os_call f w = (case f (w_os w) of Inl e \<Rightarrow> (Inl e, w) | Inr s \<Rightarrow> (Inr (), w\<lparr>w_os := s\<rparr>))"

definition os_check :: "(os_state \<Rightarrow> unit res) \<Rightarrow> unit prof" where
  "os_check f w = (f (w_os w), w)"

definition log_call :: "native_call \<Rightarrow> unit prof" where
  "log_call c = smod (\<lambda>w. w\<lparr>w_log := w_log w @ [c]\<rparr>)"

definition native :: "native_call \<Rightarrow> (native_state, unit) stm \<Rightarrow> unit prof" where
  "native c f =
     sseq (log_call c)
       (\<lambda>w. case f (w_mgr w, w_os w) of (r, m, s) \<Rightarrow> (r, w\<lparr>w_mgr := m, w_os := s\<rparr>))"

section \<open>The output directory\<close>

definition MAX_WORKER_NAME_LENGTH :: nat where "MAX_WORKER_NAME_LENGTH = 226"

definition get_realpath :: "prof_env \<Rightarrow> os_state \<Rightarrow> string \<Rightarrow> path res" where
  "get_realpath env s p =
     (if p = [] then Inl RuntimeError
      else let q = env_expanduser env p
           in if path_islink s q then Inl RuntimeError else Inr (env_realpath env q))"

definition valid_worker_name :: "pyval \<Rightarrow> string option" where
  "valid_worker_name v =
     (case v of
        PStr n \<Rightarrow> (if n \<noteq> [] \<and> length n < MAX_WORKER_NAME_LENGTH then Some n else None)
      | _ \<Rightarrow> None)"

definition creator_init :: "prof_env \<Rightarrow> pyval \<Rightarrow> pyval \<Rightarrow> bool \<Rightarrow> unit prof" where
  "creator_init env worker_name dir_name export_only =
     sseq (smod (\<lambda>w. w\<lparr>pc_export_only_mode := export_only,
                       pc_worker_name := valid_worker_name worker_name\<rparr>))
       (case dir_name of
          PStr (c # cs) \<Rightarrow>
            sbind (\<lambda>w. (get_realpath env (w_os w) (c # cs), w)) (\<lambda>p.
            sseq (os_check (\<lambda>s. check_input_directory_path s p))
                 (smod (\<lambda>w. w\<lparr>pc_dir_path := Some p\<rparr>)))
        | _ \<Rightarrow> smod (\<lambda>w. w\<lparr>pc_dir_path := None\<rparr>))"

text \<open>The parent directory of the next output directory, and the effect on the mode.\<close>

definition prof_parent :: "prof_env \<Rightarrow> prof_world \<Rightarrow> path \<times> bool" where
  "prof_parent env w =
     (case pc_dir_path w of
        Some (c # cs) \<Rightarrow> (c # cs, pc_export_only_mode w)
      | _ \<Rightarrow>
          (let export = pc_export_only_mode w \<and> env_work_path env = None
           in case env_work_path env of
                Some (c # cs) \<Rightarrow> (path_join (env_abspath env (c # cs)) ''profiling_data'', export)
              | _ \<Rightarrow> (if export then path_join (env_cwd env) ''export_only_prof_dir''
                      else env_cwd env, export)))"

definition span_name :: "prof_env \<Rightarrow> prof_world \<Rightarrow> string" where
  "span_name env w =
     (case pc_worker_name w of Some (c # cs) \<Rightarrow> c # cs | _ \<Rightarrow> env_hostname env)
       @ ''_'' @ env_pid env @ ''_'' @ env_stamp env (w_made w) @ ''_ascend_pt''"

definition create_prof_dir :: "prof_env \<Rightarrow> unit prof" where
  "create_prof_dir env =
     sbind (sget (prof_parent env)) (\<lambda>(dir_path, export).
     sseq (smod (\<lambda>w. w\<lparr>pc_export_only_mode := export\<rparr>))
     (sseq (os_check (\<lambda>s. if path_exists s dir_path
                          then check_directory_path_writeable s dir_path else Inr ()))
     (sbind (sget (\<lambda>w. path_join dir_path (span_name env w))) (\<lambda>p.
     sseq (smod (\<lambda>w. w\<lparr>pc_prof_path := Some p, w_made := Suc (w_made w)\<rparr>))
     (sseq (os_check (\<lambda>s. check_input_directory_path s p))
     (sseq (os_call (\<lambda>s. make_dir_safety s p))
     (sseq (os_check (\<lambda>s. check_directory_path_writeable s p))
     (smod (\<lambda>w. w\<lparr>pc_is_prof_inited := True\<rparr>)))))))))"

text \<open>\<open>shutil.rmtree\<close> on the directory; any exception is reported and swallowed.\<close>

definition delete_prof_dir :: "unit prof" where
  "delete_prof_dir w =
     (Inr (), case pc_prof_path w of
        None \<Rightarrow> w
      | Some p \<Rightarrow>
          (if path_isdir (w_os w) p \<and> \<not> path_islink (w_os w) p \<and> os_remove (w_os w) p = SysOk
           then w\<lparr>w_os := rmtree (w_os w) p\<rparr> else w))"

definition delete_export_only_prof :: "unit prof" where
  "delete_export_only_prof w =
     (if \<not> pc_export_only_mode w then (Inr (), w) else delete_prof_dir w)"

section \<open>Trace operations\<close>

definition init_trace :: "prof_env \<Rightarrow> prof_config \<Rightarrow> unit prof" where
  "init_trace env cfg =
     sseq (create_prof_dir env)
     (sseq (smod (\<lambda>w. w\<lparr>pi_prof_path := (case pc_prof_path w of None \<Rightarrow> [] | Some p \<Rightarrow> p)\<rparr>))
     (sbind (sget pi_prof_path) (\<lambda>p. native (NInit p)
        (initNpuProfiler (env_cwd env) (env_realpath env) p (cfg_npu_activity cfg)))))"

definition warmup_trace :: "prof_config \<Rightarrow> unit prof" where
  "warmup_trace cfg =
     sbind (sget pi_prof_path) (\<lambda>p. native (NWarmup p) (warmupNpuProfiler (cfg_cpu_activity cfg)))"

definition check_gc_detect_enable :: "prof_config \<Rightarrow> bool" where
  "check_gc_detect_enable cfg = (cfg_cpu_activity cfg \<and> cfg_with_gc cfg)"

definition start_gc_detect :: "prof_config \<Rightarrow> unit prof" where
  "start_gc_detect cfg =
     smod (\<lambda>w. if check_gc_detect_enable cfg then w\<lparr>pi_gc_detector := True\<rparr> else w)"

definition stop_gc_detect :: "prof_config \<Rightarrow> unit prof" where
  "stop_gc_detect cfg =
     smod (\<lambda>w. if check_gc_detect_enable cfg \<and> pi_gc_detector w
               then w\<lparr>pi_gc_detector := False\<rparr> else w)"

text \<open>
  \<open>_enable_event_record\<close> wraps the five \<open>Event\<close> methods once more, \<open>_disable_event_record\<close>
  removes one wrapper where there is one.
\<close>

definition enable_event_record :: "unit prof" where
  "enable_event_record = smod (\<lambda>w. w\<lparr>pi_event_wraps := Suc (pi_event_wraps w)\<rparr>)"

definition disable_event_record :: "unit prof" where
  "disable_event_record = smod (\<lambda>w. w\<lparr>pi_event_wraps := pi_event_wraps w - 1\<rparr>)"

definition read_clocks :: "prof_env \<Rightarrow> prof_world \<Rightarrow> prof_world" where
  "read_clocks env w =
     w\<lparr>pi_syscnt_enable := env_syscnt_enable env,
       pi_freq := (if env_syscnt_enable env then env_freq env else pi_freq w),
       pi_start_cnt := (if env_syscnt_enable env then env_syscnt env (w_made w) else pi_start_cnt w),
       pi_start_monotonic := env_monotonic env (w_made w)\<rparr>"

definition start_trace :: "prof_env \<Rightarrow> prof_config \<Rightarrow> unit prof" where
  "start_trace env cfg =
     sseq (smod (read_clocks env))
     (sseq enable_event_record
     (sseq (sbind (sget pi_prof_path) (\<lambda>p. native (NStart p) (startNpuProfiler (cfg_cpu_activity cfg))))
     (start_gc_detect cfg)))"

definition stop_trace :: "prof_config \<Rightarrow> unit prof" where
  "stop_trace cfg = sseq (native NStop stopNpuProfiler) (sseq (stop_gc_detect cfg) disable_event_record)"

definition dump_profiler_info :: "prof_env \<Rightarrow> unit prof" where
  "dump_profiler_info env =
     sbind (sget (\<lambda>w. path_join (env_realpath env (pi_prof_path w))
              (case env_rank env of
                 None \<Rightarrow> ''profiler_info.json''
               | Some r \<Rightarrow> ''profiler_info_'' @ r @ ''.json'')))
       (\<lambda>p. os_call (\<lambda>s. write_file s p))"

definition dump_metadata :: "prof_env \<Rightarrow> prof_config \<Rightarrow> unit prof" where
  "dump_metadata env cfg =
     sseq (smod (\<lambda>w. if cfg_export_text cfg
                     then w\<lparr>pi_metadata := AList.update ''ENV_VARIABLES'' (PObj 0) (pi_metadata w)\<rparr>
                     else w))
     (sseq (smod (\<lambda>w. case env_group_info env of
                        None \<Rightarrow> w
                      | Some g \<Rightarrow> w\<lparr>pi_metadata :=
                          AList.update ''parallel_group_info'' g (pi_metadata w)\<rparr>))
     (\<lambda>w. if pi_metadata w = [] then (Inr (), w)
          else if \<not> pc_is_prof_inited w then (Inr (), w)
          else sseq (os_call (\<lambda>s. write_file s (path_join (pi_prof_path w) ''profiler_metadata.json'')))
                 (smod (\<lambda>w. w\<lparr>pi_metadata := []\<rparr>)) w))"

definition finalize_trace :: "prof_env \<Rightarrow> prof_config \<Rightarrow> unit prof" where
  "finalize_trace env cfg =
     sseq (native NFinalize finalizeNpuProfiler)
     (sseq (dump_profiler_info env)
     (sseq (dump_metadata env cfg)
     (smod (\<lambda>w. w\<lparr>pc_is_prof_inited := False\<rparr>))))"

section \<open>The action table\<close>

datatype trace_op =
    InitTrace | WarmupTrace | StartTrace | StopTrace | FinalizeTrace | DeleteProfDir
  | TraceReady | PrintWarn

fun action_map :: "ProfilerAction \<Rightarrow> ProfilerAction option \<Rightarrow> trace_op list option" where
  "action_map NONE (Some NONE) = Some []"
| "action_map NONE (Some WARMUP) = Some [InitTrace, WarmupTrace]"
| "action_map NONE (Some RECORD) = Some [InitTrace, StartTrace]"
| "action_map NONE (Some RECORD_AND_SAVE) = Some [InitTrace, StartTrace]"
| "action_map WARMUP (Some NONE) = Some [PrintWarn, StartTrace, StopTrace, FinalizeTrace]"
| "action_map WARMUP (Some WARMUP) = Some []"
| "action_map WARMUP (Some RECORD) = Some [StartTrace]"
| "action_map WARMUP (Some RECORD_AND_SAVE) = Some [StartTrace]"
| "action_map RECORD (Some NONE) = Some [PrintWarn, StopTrace, FinalizeTrace]"
| "action_map RECORD (Some WARMUP) = Some [PrintWarn, StopTrace, FinalizeTrace]"
| "action_map RECORD (Some RECORD) = Some []"
| "action_map RECORD (Some RECORD_AND_SAVE) = Some []"
| "action_map RECORD_AND_SAVE (Some NONE) = Some [StopTrace, FinalizeTrace, TraceReady]"
| "action_map RECORD_AND_SAVE (Some WARMUP) =
     Some [StopTrace, FinalizeTrace, TraceReady, InitTrace, WarmupTrace]"
| "action_map RECORD_AND_SAVE (Some RECORD) =
     Some [StopTrace, FinalizeTrace, TraceReady, InitTrace, StartTrace]"
| "action_map RECORD_AND_SAVE (Some RECORD_AND_SAVE) =
     Some [StopTrace, FinalizeTrace, TraceReady, InitTrace, StartTrace]"
| "action_map WARMUP None = Some [PrintWarn, FinalizeTrace, DeleteProfDir]"
| "action_map RECORD None = Some [PrintWarn, StopTrace, FinalizeTrace, TraceReady]"
| "action_map RECORD_AND_SAVE None = Some [PrintWarn, StopTrace, FinalizeTrace, TraceReady]"
| "action_map NONE None = None"

text \<open>\<open>on_trace_ready\<close> is the user's callback, called when there is one.\<close>

definition ready_calls :: "prof_world \<Rightarrow> nat" where
  "ready_calls w = count_list (w_log w) NTraceReady"

definition trace_ready :: "prof_env \<Rightarrow> bool \<Rightarrow> unit prof" where
  "trace_ready env has_cb =
     (if has_cb
      then sbind (sget ready_calls) (\<lambda>k. sseq (log_call NTraceReady) (slift (env_callback env k)))
      else sret ())"

fun run_op :: "prof_env \<Rightarrow> prof_config \<Rightarrow> bool \<Rightarrow> trace_op \<Rightarrow> unit prof" where
  "run_op env cfg cb InitTrace = init_trace env cfg"
| "run_op env cfg cb WarmupTrace = warmup_trace cfg"
| "run_op env cfg cb StartTrace = start_trace env cfg"
| "run_op env cfg cb StopTrace = stop_trace cfg"
| "run_op env cfg cb FinalizeTrace = finalize_trace env cfg"
| "run_op env cfg cb DeleteProfDir = delete_prof_dir"
| "run_op env cfg cb TraceReady = trace_ready env cb"
| "run_op env cfg cb PrintWarn = sret ()"

definition transit_ops :: "ProfilerAction \<Rightarrow> ProfilerAction option \<Rightarrow> trace_op list" where
  "transit_ops prev cur = (case action_map prev cur of None \<Rightarrow> [] | Some ops \<Rightarrow> ops)"

definition transit_action ::
  "prof_env \<Rightarrow> prof_config \<Rightarrow> bool \<Rightarrow> ProfilerAction \<Rightarrow> ProfilerAction option \<Rightarrow> unit prof" where
  "transit_action env cfg cb prev cur = smap_seq (run_op env cfg cb) (transit_ops prev cur)"

section \<open>The life cycle of a profile\<close>

record profile =
  p_step_num :: int
  p_current_action :: ProfilerAction
  p_step_num_offset :: int
  p_record_steps :: bool
  p_step_rec_fn :: "int option"
  p_stopped :: bool
  p_on_trace_ready :: bool
  p_reports :: nat
  p_world :: prof_world

definition lift_world :: "unit prof \<Rightarrow> (profile, unit) stm" where
  "lift_world m p = (case m (p_world p) of (r, w) \<Rightarrow> (r, p\<lparr>p_world := w\<rparr>))"

definition profile_init ::
  "(int \<Rightarrow> ProfilerAction res) \<Rightarrow> bool \<Rightarrow> bool \<Rightarrow> prof_world \<Rightarrow> profile res" where
  "profile_init sched has_schedule cb w =
     rbind (sched 0) (\<lambda>a. Inr
       \<lparr>p_step_num = 0, p_current_action = a, p_step_num_offset = 0,
        p_record_steps = has_schedule, p_step_rec_fn = None, p_stopped = False,
        p_on_trace_ready = cb, p_reports = 0, p_world = w\<rparr>)"

definition enter_step :: "(profile, unit) stm" where
  "enter_step p =
     (if p_record_steps p
      then let n = p_step_num p + p_step_num_offset p
           in lift_world (log_call (NStepEnter n)) (p\<lparr>p_step_rec_fn := Some n\<rparr>)
      else (Inr (), p))"

definition exit_step :: "(profile, unit) stm" where
  "exit_step p =
     (case p_step_rec_fn p of
        Some n \<Rightarrow> (if p_record_steps p then lift_world (log_call (NStepExit n)) p else (Inr (), p))
      | None \<Rightarrow> (Inr (), p))"

definition profile_start :: "prof_env \<Rightarrow> prof_config \<Rightarrow> (profile, unit) stm" where
  "profile_start env cfg =
     sseq (smod (\<lambda>p. p\<lparr>p_stopped := False\<rparr>))
     (sseq (\<lambda>p. if \<not> p_on_trace_ready p
                then lift_world (creator_init env PNone PNone True) p else (Inr (), p))
     (sseq (\<lambda>p. lift_world (transit_action env cfg (p_on_trace_ready p) NONE
                              (Some (p_current_action p))) p)
     enter_step))"

definition profile_stop :: "prof_env \<Rightarrow> prof_config \<Rightarrow> (profile, unit) stm" where
  "profile_stop env cfg =
     sseq exit_step
     (sseq (\<lambda>p. lift_world (transit_action env cfg (p_on_trace_ready p) (p_current_action p) None) p)
     (smod (\<lambda>p. p\<lparr>p_stopped := True\<rparr>)))"

definition profile_step ::
  "prof_env \<Rightarrow> prof_config \<Rightarrow> (int \<Rightarrow> ProfilerAction res) \<Rightarrow> (profile, unit) stm" where
  "profile_step env cfg sched p0 =
     (if p_stopped p0 then (Inr (), p0)
      else sseq exit_step
        (sbind (sget p_current_action) (\<lambda>prev.
         sseq (smod (\<lambda>p. p\<lparr>p_step_num := p_step_num p + 1\<rparr>))
        (sseq (\<lambda>p. case sched (p_step_num p) of
                     Inl e \<Rightarrow> (Inl e, p)
                   | Inr a \<Rightarrow> (Inr (), p\<lparr>p_current_action := a\<rparr>))
        (sseq (\<lambda>p. lift_world (transit_action env cfg (p_on_trace_ready p) prev
                                 (Some (p_current_action p))) p)
        enter_step)))) p0)"

definition profile_del :: "prof_env \<Rightarrow> prof_config \<Rightarrow> (profile, unit) stm" where
  "profile_del env cfg p = (if \<not> p_stopped p then profile_stop env cfg p else (Inr (), p))"

text \<open>
  Every public method is wrapped by \<open>no_exception_func\<close>, which prints the exception and returns:
  what was assigned before it stays.  \<open>p_reports\<close> counts the errors printed for the object.
\<close>

definition no_exception_func :: "(profile, unit) stm \<Rightarrow> profile \<Rightarrow> profile" where
  "no_exception_func m p =
     (case m p of (Inl e, p') \<Rightarrow> p'\<lparr>p_reports := Suc (p_reports p')\<rparr> | (Inr _, p') \<Rightarrow> p')"

text \<open>A program that starts a profile, steps it \<open>n\<close> times and stops it, whatever raises.\<close>

definition run_profile ::
  "prof_env \<Rightarrow> prof_config \<Rightarrow> (int \<Rightarrow> ProfilerAction res) \<Rightarrow> nat \<Rightarrow> profile \<Rightarrow> profile" where
  "run_profile env cfg sched n p =
     no_exception_func (profile_stop env cfg)
       ((no_exception_func (profile_step env cfg sched) ^^ n)
         (no_exception_func (profile_start env cfg) p))"

section \<open>Sessions\<close>

text \<open>
  The phases one profiling session goes through under the trace operations.  An operation outside
  its phase has no entry: starting what was not initialised, stopping what does not run.
\<close>

fun proto :: "phase \<Rightarrow> trace_op \<Rightarrow> phase option" where
  "proto Idle InitTrace = Some Inited"
| "proto Inited WarmupTrace = Some Warm"
| "proto Inited StartTrace = Some Running"
| "proto Warm StartTrace = Some Running"
| "proto Running StopTrace = Some Halted"
| "proto Halted FinalizeTrace = Some Idle"
| "proto Warm FinalizeTrace = Some Dropped"
| "proto Dropped DeleteProfDir = Some Dropped"
| "proto Idle TraceReady = Some Idle"
| "proto ph PrintWarn = Some ph"
| "proto _ _ = None"

fun proto_run :: "phase \<Rightarrow> trace_op list \<Rightarrow> phase option" where
  "proto_run ph [] = Some ph"
| "proto_run ph (x # xs) = (case proto ph x of None \<Rightarrow> None | Some ph' \<Rightarrow> proto_run ph' xs)"

text \<open>The phase in which a step with a given action leaves the profiler, and a stop in it.\<close>

fun phase_of :: "ProfilerAction \<Rightarrow> phase" where
  "phase_of NONE = Idle"
| "phase_of WARMUP = Warm"
| "phase_of RECORD = Running"
| "phase_of RECORD_AND_SAVE = Running"

definition exit_phase :: "ProfilerAction \<Rightarrow> phase" where
  "exit_phase a = (if a = WARMUP then Dropped else Idle)"

definition allowed_pair :: "ProfilerAction \<Rightarrow> ProfilerAction \<Rightarrow> bool" where
  "allowed_pair a b = (if a = RECORD then b = RECORD \<or> b = RECORD_AND_SAVE else True)"

lemma transit_proto:
  "allowed_pair a b \<Longrightarrow> proto_run (phase_of a) (transit_ops a (Some b)) = Some (phase_of b)"
  by (cases a; cases b) (auto simp: allowed_pair_def transit_ops_def)

lemma exit_proto: "proto_run (phase_of a) (transit_ops a None) = Some (exit_phase a)"
  by (cases a) (auto simp: transit_ops_def exit_phase_def)

context disciplined_schedule
begin

lemma allowed_act: "allowed_pair (act n) (act (Suc n))"
  using act_pairs(1) [of n] by (auto simp: allowed_pair_def)

lemma no_warning_steps: "PrintWarn \<notin> set (transit_ops (act n) (Some (act (Suc n))))"
proof -
  have "action_map (act n) (Some (act (Suc n))) \<noteq> None" by (cases "act n"; cases "act (Suc n)") auto
  then show ?thesis
    using act_pairs [of n] by (cases "act n"; cases "act (Suc n)") (auto simp: transit_ops_def)
qed

end

text \<open>What the manager and the Python side hold in each phase.\<close>

definition world_phase :: "prof_config \<Rightarrow> phase \<Rightarrow> prof_world \<Rightarrow> bool" where
  "world_phase cfg ph w \<longleftrightarrow>
     mgr_at (cfg_npu_activity cfg) (cfg_cpu_activity cfg) ph (w_mgr w)
     \<and> pi_event_wraps w = (if ph = Running then 1 else 0)
     \<and> (pi_gc_detector w \<longleftrightarrow> ph = Running \<and> check_gc_detect_enable cfg)
     \<and> (pc_is_prof_inited w \<longleftrightarrow> ph \<noteq> Idle \<and> ph \<noteq> Dropped)"

section \<open>What every operation does, raising or not\<close>

text \<open>
  Refusals are never taken back, and only the callback of \<open>TraceReady\<close> counts as a call of it.
\<close>

definition refused :: "prof_world \<Rightarrow> nat" where
  "refused w = mgr_refused (w_mgr w)"

definition drift :: "prof_world \<Rightarrow> prof_world \<Rightarrow> bool" where
  "drift w w' \<longleftrightarrow> refused w \<le> refused w' \<and> ready_calls w' = ready_calls w"

lemma drift_transp: "transp drift"
  by (auto simp: transp_def drift_def)

lemma drift_refl: "drift w w"
  by (simp add: drift_def)

lemma drift_os: "along drift (os_call f)" "along drift (os_check g)"
  by (auto simp: along_def drift_def os_call_def os_check_def refused_def ready_calls_def
      split: sum.splits)

lemma drift_native:
  assumes "c \<noteq> NTraceReady" and "\<And>x. refusals_grow x (snd (f x))"
  shows "along drift (native c f)"
  unfolding along_def
proof
  fix w :: prof_world
  have "refusals_grow (w_mgr w, w_os w) (snd (f (w_mgr w, w_os w)))" by (rule assms(2))
  then show "drift w (snd (native c f w))"
    using assms(1)
    by (auto simp: drift_def native_def log_call_def sseq_def sbind_def smod_def refused_def
        ready_calls_def refusals_grow_def split: prod.splits)
qed

lemma drift_mod:
  "(\<And>w. w_mgr (f w) = w_mgr w \<and> w_log (f w) = w_log w) \<Longrightarrow> along drift (smod f)"
  by (simp add: along_def drift_def smod_def refused_def ready_calls_def)

lemma drift_pure: "along drift (sret x)" "along drift (sget f)" "along drift (slift r)"
  by (simp_all add: along_pure drift_refl)

lemmas drift_rules = along_seq [OF drift_transp] along_bind [OF drift_transp] drift_os drift_mod
  drift_pure

lemma create_prof_dir_drift: "along drift (create_prof_dir env)"
  by (auto simp: create_prof_dir_def intro!: drift_rules split: prod.splits)

lemma dump_profiler_info_drift: "along drift (dump_profiler_info env)"
  by (auto simp: dump_profiler_info_def intro!: drift_rules)

lemma dump_metadata_drift: "along drift (dump_metadata env cfg)"
  by (auto simp: dump_metadata_def along_def drift_def refused_def ready_calls_def sseq_def
      sbind_def smod_def os_call_def split: sum.splits option.splits)

lemma run_op_drift:
  assumes "\<not> (cb \<and> op = TraceReady)"
  shows "along drift (run_op env cfg cb op)"
proof (cases op)
  case InitTrace
  then show ?thesis
    by (auto simp: init_trace_def intro!: drift_rules drift_native create_prof_dir_drift entry_points_grow)
next
  case WarmupTrace
  then show ?thesis by (auto simp: warmup_trace_def intro!: drift_rules drift_native entry_points_grow)
next
  case StartTrace
  then show ?thesis
    by (auto simp: start_trace_def enable_event_record_def start_gc_detect_def read_clocks_def
        intro!: drift_rules drift_native entry_points_grow)
next
  case StopTrace
  then show ?thesis
    by (auto simp: stop_trace_def disable_event_record_def stop_gc_detect_def
        intro!: drift_rules drift_native entry_points_grow)
next
  case FinalizeTrace
  then show ?thesis
    by (auto simp: finalize_trace_def intro!: drift_rules drift_native entry_points_grow
        dump_profiler_info_drift dump_metadata_drift)
next
  case DeleteProfDir
  then show ?thesis
    by (auto simp: along_def drift_def delete_prof_dir_def refused_def ready_calls_def
        split: option.splits)
next
  case TraceReady
  then show ?thesis using assms by (auto simp: trace_ready_def intro!: drift_rules)
next
  case PrintWarn
  then show ?thesis by (auto intro!: drift_rules)
qed

lemma run_op_bounds:
  "refused w \<le> refused (snd (run_op env cfg cb op w))"
  "ready_calls (snd (run_op env cfg cb op w)) = ready_calls w + (if cb \<and> op = TraceReady then 1 else 0)"
proof -
  have "refused w \<le> refused (snd (run_op env cfg cb op w)) \<and>
     ready_calls (snd (run_op env cfg cb op w)) = ready_calls w + (if cb \<and> op = TraceReady then 1 else 0)"
  proof (cases "cb \<and> op = TraceReady")
    case True
    then show ?thesis
      by (auto simp: trace_ready_def log_call_def sseq_def sbind_def smod_def sget_def slift_def
          refused_def ready_calls_def)
  next
    case False
    then show ?thesis using run_op_drift [OF False, of env cfg] by (auto simp: along_def drift_def)
  qed
  then show "refused w \<le> refused (snd (run_op env cfg cb op w))"
    "ready_calls (snd (run_op env cfg cb op w)) = ready_calls w + (if cb \<and> op = TraceReady then 1 else 0)"
    by simp_all
qed

lemma run_ops_bounds:
  "refused w \<le> refused (snd (smap_seq (run_op env cfg cb) ops w))
   \<and> ready_calls (snd (smap_seq (run_op env cfg cb) ops w))
       \<le> ready_calls w + (if cb then count_list ops TraceReady else 0)"
proof (induction ops arbitrary: w)
  case Nil
  then show ?case by (simp add: sret_def)
next
  case (Cons op ops)
  obtain r w1 where w1: "run_op env cfg cb op w = (r, w1)" by (cases "run_op env cfg cb op w")
  note one = run_op_bounds [where w = w and env = env and cfg = cfg and cb = cb and op = op, unfolded w1 snd_conv]
  show ?case using one Cons.IH [of w1] w1 by (cases r) (auto simp: sseq_def sbind_def)
qed

section \<open>Operations in their phase\<close>

text \<open>Operating-system calls change neither the manager nor the Python side.\<close>

definition same_flags :: "prof_world \<Rightarrow> prof_world \<Rightarrow> bool" where
  "same_flags w w' \<longleftrightarrow> w_mgr w' = w_mgr w \<and> pi_event_wraps w' = pi_event_wraps w
     \<and> pi_gc_detector w' = pi_gc_detector w"

lemma os_call_ok:
  "os_call f w = (Inr u, w') \<Longrightarrow> same_flags w w' \<and> pc_is_prof_inited w' = pc_is_prof_inited w
     \<and> pc_prof_path w' = pc_prof_path w"
  by (auto simp: os_call_def same_flags_def split: sum.splits)

lemma os_check_ok: "os_check f w = (Inr u, w') \<Longrightarrow> w' = w \<and> f (w_os w) = Inr u"
  by (auto simp: os_check_def)

lemma directory_path_nonempty: "check_input_directory_path s p = Inr u \<Longrightarrow> p \<noteq> []"
  by (auto simp: check_input_directory_path_def input_path_common_check_def rbind_def
      split: if_splits)

lemma create_prof_dir_ok:
  assumes "create_prof_dir env w = (Inr u, w')"
  shows "same_flags w w' \<and> pc_is_prof_inited w' \<and> (\<exists>p. pc_prof_path w' = Some p \<and> p \<noteq> [])"
  using assms
  by (auto simp: create_prof_dir_def sbind_ok sseq_ok sget_def smod_def same_flags_def
      split: prod.splits dest!: os_call_ok os_check_ok directory_path_nonempty)

lemma dump_profiler_info_ok:
  assumes "dump_profiler_info env w = (Inr u, w')"
  shows "same_flags w w'"
  using assms by (auto simp: dump_profiler_info_def sbind_ok sget_def dest!: os_call_ok)

lemma dump_metadata_ok:
  assumes "dump_metadata env cfg w = (Inr u, w')"
  shows "same_flags w w'"
  using assms
  by (auto simp: dump_metadata_def sseq_ok smod_def same_flags_def
      split: if_splits option.splits dest!: os_call_ok)

lemma native_ok:
  "native c f w = (Inr u, w') \<longleftrightarrow>
     (\<exists>m s. f (w_mgr w, w_os w) = (Inr u, (m, s))
        \<and> w' = w\<lparr>w_log := w_log w @ [c], w_mgr := m, w_os := s\<rparr>)"
  by (auto simp: native_def log_call_def sseq_def sbind_def smod_def split: prod.splits)

lemma init_trace_ok:
  assumes "init_trace env cfg w = (Inr u, w')" and "refused w' = refused w"
    and "world_phase cfg Idle w"
  shows "world_phase cfg Inited w' \<and> mgr_misused (w_mgr w') = mgr_misused (w_mgr w)"
proof -
  from assms(1) obtain w1 v p m s where w1: "create_prof_dir env w = (Inr v, w1)"
    and p: "p = (case pc_prof_path w1 of None \<Rightarrow> [] | Some p \<Rightarrow> p)"
    and n: "initNpuProfiler (env_cwd env) (env_realpath env) p (cfg_npu_activity cfg)
              (w_mgr w1, w_os w1) = (Inr u, (m, s))"
    and w': "w' = w1\<lparr>pi_prof_path := p, w_log := w_log w1 @ [NInit p], w_mgr := m, w_os := s\<rparr>"
    by (auto simp: init_trace_def sseq_ok sbind_ok native_ok smod_def sget_def)
  from create_prof_dir_ok [OF w1] have f: "same_flags w w1" "pc_is_prof_inited w1" "p \<noteq> []"
    by (auto simp: p)
  have "mgr_at (cfg_npu_activity cfg) (cfg_cpu_activity cfg) Idle (w_mgr w1)"
    using assms(3) f(1) by (simp add: world_phase_def same_flags_def)
  moreover have "mgr_refused m = mgr_refused (w_mgr w1)"
    using assms(2) f(1) by (simp add: w' refused_def same_flags_def)
  ultimately have "mgr_at (cfg_npu_activity cfg) (cfg_cpu_activity cfg) Inited m
      \<and> mgr_misused m = mgr_misused (w_mgr w1)"
    using mgr_init_at [OF n] f(3) by blast
  then show ?thesis using assms(3) f by (simp add: w' world_phase_def same_flags_def)
qed

lemma warmup_trace_ok:
  assumes "warmup_trace cfg w = (Inr u, w')" and "refused w' = refused w"
    and "world_phase cfg Inited w"
  shows "world_phase cfg Warm w' \<and> mgr_misused (w_mgr w') = mgr_misused (w_mgr w)"
  using assms
  by (auto simp: warmup_trace_def world_phase_def sbind_ok native_ok sget_def refused_def
      dest!: mgr_warmup_at)

lemmas trace_ops = sseq_ok sbind_ok native_ok smod_def sget_def enable_event_record_def
  disable_event_record_def start_gc_detect_def stop_gc_detect_def read_clocks_def

lemma start_trace_native:
  assumes "start_trace env cfg w = (Inr u, w')"
  obtains m s where "startNpuProfiler (cfg_cpu_activity cfg) (w_mgr w, w_os w) = (Inr (), (m, s))"
    and "w_mgr w' = m" and "pi_event_wraps w' = Suc (pi_event_wraps w)"
    and "pi_gc_detector w' = (check_gc_detect_enable cfg \<or> pi_gc_detector w)"
    and "pc_is_prof_inited w' = pc_is_prof_inited w"
proof -
  let ?w = "(read_clocks env w)\<lparr>pi_event_wraps := Suc (pi_event_wraps w)\<rparr>"
  from assms obtain w1 v where
    n: "native (NStart (pi_prof_path ?w)) (startNpuProfiler (cfg_cpu_activity cfg)) ?w = (Inr v, w1)"
    and w1: "start_gc_detect cfg w1 = (Inr u, w')"
    by (auto simp: start_trace_def enable_event_record_def smod_def sseq_ok sbind_ok sget_def
        read_clocks_def)
  from n obtain m s where
    m: "startNpuProfiler (cfg_cpu_activity cfg) (w_mgr ?w, w_os ?w) = (Inr v, (m, s))"
    and f1: "w_mgr w1 = m" "pi_event_wraps w1 = Suc (pi_event_wraps w)"
      "pi_gc_detector w1 = pi_gc_detector w" "pc_is_prof_inited w1 = pc_is_prof_inited w"
    by (auto simp only: native_ok) (simp_all add: read_clocks_def)
  show thesis
  proof (rule that)
    show "startNpuProfiler (cfg_cpu_activity cfg) (w_mgr w, w_os w) = (Inr (), (m, s))"
      using m by (simp add: read_clocks_def)
  qed (use w1 f1 in \<open>auto simp: start_gc_detect_def smod_def split: if_splits\<close>)
qed

lemma start_trace_ok:
  assumes "start_trace env cfg w = (Inr u, w')" and "refused w' = refused w"
    and "world_phase cfg ph w" and "ph = Inited \<or> ph = Warm"
  shows "world_phase cfg Running w' \<and> mgr_misused (w_mgr w') = mgr_misused (w_mgr w)"
proof -
  obtain m s where
    m: "startNpuProfiler (cfg_cpu_activity cfg) (w_mgr w, w_os w) = (Inr (), (m, s))"
    and w': "w_mgr w' = m" "pi_event_wraps w' = Suc (pi_event_wraps w)"
      "pi_gc_detector w' = (check_gc_detect_enable cfg \<or> pi_gc_detector w)"
      "pc_is_prof_inited w' = pc_is_prof_inited w"
    using start_trace_native [OF assms(1)] by blast
  show ?thesis
    using mgr_start_at [OF m, of "cfg_npu_activity cfg" ph] assms(2-4) w'
    by (auto simp: world_phase_def refused_def)
qed

lemma stop_trace_ok:
  assumes "stop_trace cfg w = (Inr u, w')" and "world_phase cfg Running w"
  shows "world_phase cfg Halted w' \<and> mgr_misused (w_mgr w') = mgr_misused (w_mgr w)"
proof -
  from assms(1) obtain w1 v where n: "native NStop stopNpuProfiler w = (Inr v, w1)"
    and w1: "sseq (stop_gc_detect cfg) disable_event_record w1 = (Inr u, w')"
    by (auto simp: stop_trace_def sseq_ok)
  from n obtain m s where m: "stopNpuProfiler (w_mgr w, w_os w) = (Inr v, (m, s))"
    and f1: "w_mgr w1 = m" "pi_event_wraps w1 = pi_event_wraps w"
      "pi_gc_detector w1 = pi_gc_detector w" "pc_is_prof_inited w1 = pc_is_prof_inited w"
    by (auto simp only: native_ok) simp_all
  have w': "w_mgr w' = m" "pi_event_wraps w' = pi_event_wraps w - 1"
      "pi_gc_detector w' = (\<not> check_gc_detect_enable cfg \<and> pi_gc_detector w)"
      "pc_is_prof_inited w' = pc_is_prof_inited w"
    using w1 f1
    by (auto simp: stop_gc_detect_def disable_event_record_def smod_def sseq_def sbind_def
        split: if_splits)
  show ?thesis
    using mgr_stop_at [OF m, of "cfg_npu_activity cfg" "cfg_cpu_activity cfg"] assms(2) w'
    by (auto simp: world_phase_def)
qed

lemma finalize_trace_ok:
  assumes "finalize_trace env cfg w = (Inr u, w')" and "world_phase cfg ph w"
    and "ph = Halted \<and> ph' = Idle \<or> ph = Warm \<and> ph' = Dropped"
  shows "world_phase cfg ph' w' \<and> mgr_misused (w_mgr w') = mgr_misused (w_mgr w)"
proof -
  from assms(1) obtain m s w1 w2 v v' where
    n: "finalizeNpuProfiler (w_mgr w, w_os w) = (Inr (), (m, s))"
    and w1: "dump_profiler_info env (w\<lparr>w_log := w_log w @ [NFinalize], w_mgr := m, w_os := s\<rparr>)
               = (Inr v, w1)"
    and w2: "dump_metadata env cfg w1 = (Inr v', w2)" and w': "w' = w2\<lparr>pc_is_prof_inited := False\<rparr>"
    by (auto simp: finalize_trace_def trace_ops)
  show ?thesis
    using mgr_finalize_at [OF n, of "cfg_npu_activity cfg" "cfg_cpu_activity cfg" ph ph'] assms(2,3)
      dump_profiler_info_ok [OF w1] dump_metadata_ok [OF w2]
    by (auto simp: w' world_phase_def same_flags_def)
qed

text \<open>One operation in its phase, then a list of them.\<close>

lemma run_op_phase:
  assumes "run_op env cfg cb op w = (Inr u, w')" and "refused w' = refused w"
    and "proto ph op = Some ph'" and "world_phase cfg ph w"
  shows "world_phase cfg ph' w' \<and> mgr_misused (w_mgr w') = mgr_misused (w_mgr w)"
proof (cases op)
  case InitTrace
  with assms show ?thesis by (cases ph) (auto dest!: init_trace_ok)
next
  case WarmupTrace
  with assms show ?thesis by (cases ph) (auto dest!: warmup_trace_ok)
next
  case StartTrace
  with assms show ?thesis by (cases ph) (auto dest!: start_trace_ok)
next
  case StopTrace
  with assms show ?thesis by (cases ph) (auto dest!: stop_trace_ok)
next
  case FinalizeTrace
  then have run: "finalize_trace env cfg w = (Inr u, w')" using assms(1) by simp
  have "ph = Halted \<and> ph' = Idle \<or> ph = Warm \<and> ph' = Dropped"
    using assms(3) FinalizeTrace by (cases ph) auto
  from finalize_trace_ok [OF run assms(4) this] show ?thesis .
next
  case DeleteProfDir
  with assms show ?thesis
    by (cases ph) (auto simp: world_phase_def delete_prof_dir_def split: option.splits if_splits)
next
  case TraceReady
  with assms show ?thesis
    by (cases ph) (auto simp: world_phase_def trace_ready_def log_call_def sseq_ok sbind_ok smod_def
        sget_def slift_def sret_def split: if_splits)
next
  case PrintWarn
  with assms show ?thesis by (cases ph) (auto simp: sret_def)
qed

lemma run_ops_phase:
  assumes "smap_seq (run_op env cfg cb) ops w = (Inr u, w')" and "refused w' = refused w"
    and "proto_run ph ops = Some ph'" and "world_phase cfg ph w"
  shows "world_phase cfg ph' w' \<and> mgr_misused (w_mgr w') = mgr_misused (w_mgr w)
       \<and> ready_calls w' = ready_calls w + (if cb then count_list ops TraceReady else 0)"
  using assms
proof (induction ops arbitrary: ph w)
  case Nil
  then show ?case by (simp add: sret_def)
next
  case (Cons op ops)
  from Cons.prems(3) obtain ph1 where ph1: "proto ph op = Some ph1" "proto_run ph1 ops = Some ph'"
    by (auto split: option.splits)
  from Cons.prems(1) obtain v w1 where w1: "run_op env cfg cb op w = (Inr v, w1)"
      "smap_seq (run_op env cfg cb) ops w1 = (Inr u, w')"
    by (auto simp: sseq_ok)
  have grow: "refused w \<le> refused w1" "refused w1 \<le> refused w'"
    using run_op_bounds(1) [where w = w and env = env and cfg = cfg and cb = cb and op = op]
      run_ops_bounds [where w = w1 and env = env and cfg = cfg and cb = cb and ops = ops] w1
    by simp_all
  have still: "refused w1 = refused w" "refused w' = refused w1" using grow Cons.prems(2) by simp_all
  have ready: "ready_calls w1 = ready_calls w + (if cb \<and> op = TraceReady then 1 else 0)"
    using run_op_bounds(2) [where w = w and env = env and cfg = cfg and cb = cb and op = op] w1(1)
    by simp
  note one = run_op_phase [OF w1(1) still(1) ph1(1) Cons.prems(4)]
  note rest = Cons.IH [OF w1(2) still(2) ph1(2)]
  from one rest ready show ?case by (cases "op = TraceReady") auto
qed

section \<open>Whole runs of a profile\<close>

text \<open>What the step markers and the trace operations leave alone, raising or not.\<close>

definition same_control :: "profile \<Rightarrow> profile \<Rightarrow> bool" where
  "same_control p p' \<longleftrightarrow> p_step_num p' = p_step_num p
     \<and> p_current_action p' = p_current_action p \<and> p_stopped p' = p_stopped p
     \<and> p_on_trace_ready p' = p_on_trace_ready p \<and> p_reports p' = p_reports p"

definition same_world :: "profile \<Rightarrow> profile \<Rightarrow> bool" where
  "same_world p p' \<longleftrightarrow> drift (p_world p) (p_world p') \<and> w_mgr (p_world p') = w_mgr (p_world p)
     \<and> (\<forall>cfg ph. world_phase cfg ph (p_world p') = world_phase cfg ph (p_world p))"

lemma marker_ok:
  "\<exists>p'. enter_step p = (Inr (), p') \<and> same_control p p' \<and> same_world p p'"
  "\<exists>p'. exit_step p = (Inr (), p') \<and> same_control p p' \<and> same_world p p'"
  by (auto simp: enter_step_def exit_step_def lift_world_def log_call_def smod_def same_control_def
      same_world_def drift_def refused_def ready_calls_def world_phase_def Let_def split: option.splits)

lemma creator_default_ok:
  "\<exists>p'. lift_world (creator_init env PNone PNone True) p = (Inr (), p') \<and> same_control p p'
      \<and> same_world p p'"
  by (auto simp: lift_world_def creator_init_def smod_def sseq_def sbind_def same_control_def
      same_world_def drift_def refused_def ready_calls_def world_phase_def)

lemma same_control_trans: "same_control p q \<Longrightarrow> same_control q r \<Longrightarrow> same_control p r"
  by (simp add: same_control_def)

text \<open>
  A transition, raising or not: \<open>k\<close> callbacks are due.  When it returns and nothing was refused,
  it takes the phase of one action to the phase of the next and makes the callbacks.
\<close>

definition moved :: "nat \<Rightarrow> profile \<Rightarrow> profile \<Rightarrow> bool" where
  "moved k p p' \<longleftrightarrow> refused (p_world p) \<le> refused (p_world p')
     \<and> ready_calls (p_world p') \<le> ready_calls (p_world p) + k"

definition arrived :: "prof_config \<Rightarrow> phase \<Rightarrow> nat \<Rightarrow> profile \<Rightarrow> profile \<Rightarrow> bool" where
  "arrived cfg ph k p p' \<longleftrightarrow> (refused (p_world p') = refused (p_world p) \<longrightarrow>
     world_phase cfg ph (p_world p')
     \<and> mgr_misused (w_mgr (p_world p')) = mgr_misused (w_mgr (p_world p))
     \<and> ready_calls (p_world p') = ready_calls (p_world p) + k)"

definition due :: "bool \<Rightarrow> ProfilerAction \<Rightarrow> ProfilerAction option \<Rightarrow> nat" where
  "due cb a b = (if cb then count_list (transit_ops a b) TraceReady else 0)"

lemma transit_bounds:
  assumes "lift_world (transit_action env cfg cb a b) p = (r, p')"
  shows "same_control p p' \<and> moved (due cb a b) p p'"
  using assms
    run_ops_bounds [where w = "p_world p" and env = env and cfg = cfg and cb = cb and ops = "transit_ops a b"]
  by (auto simp: lift_world_def transit_action_def same_control_def moved_def due_def split: prod.splits)

lemma transit_arrived:
  assumes "lift_world (transit_action env cfg cb a b) p = (Inr u, p')"
    and "proto_run (phase_of a) (transit_ops a b) = Some ph"
    and "world_phase cfg (phase_of a) (p_world p)"
  shows "arrived cfg ph (due cb a b) p p'"
  unfolding arrived_def
proof
  assume still: "refused (p_world p') = refused (p_world p)"
  from assms(1) obtain w where w: "transit_action env cfg cb a b (p_world p) = (Inr u, w)"
      "p' = p\<lparr>p_world := w\<rparr>"
    by (auto simp: lift_world_def split: prod.splits)
  then show "world_phase cfg ph (p_world p')
     \<and> mgr_misused (w_mgr (p_world p')) = mgr_misused (w_mgr (p_world p))
     \<and> ready_calls (p_world p') = ready_calls (p_world p) + due cb a b"
    using run_ops_phase [OF w(1) [unfolded transit_action_def] _ assms(2,3)] still
    by (auto simp: due_def)
qed

lemma due_values:
  "due cb a (Some b) = (if cb \<and> a = RECORD_AND_SAVE then 1 else 0)"
  "due cb a None = (if cb \<and> a \<in> {RECORD, RECORD_AND_SAVE} then 1 else 0)"
  by (cases a; cases b; auto simp: due_def transit_ops_def)+

text \<open>
  What is known of a profile since the world \<open>w0\<close>, with \<open>e\<close> callbacks due: the bounds in any case,
  the phase and the exact count when no error was printed and no directory refused.
\<close>

definition tracked :: "prof_config \<Rightarrow> prof_world \<Rightarrow> phase \<Rightarrow> nat \<Rightarrow> profile \<Rightarrow> bool" where
  "tracked cfg w0 ph e p \<longleftrightarrow> refused w0 \<le> refused (p_world p)
     \<and> ready_calls (p_world p) \<le> ready_calls w0 + e
     \<and> (p_reports p = 0 \<and> refused (p_world p) = refused w0 \<longrightarrow>
          world_phase cfg ph (p_world p)
          \<and> mgr_misused (w_mgr (p_world p)) = mgr_misused (w_mgr w0)
          \<and> ready_calls (p_world p) = ready_calls w0 + e)"

lemma tracked_same:
  "tracked cfg w0 ph e p \<Longrightarrow> same_world p q \<Longrightarrow> p_reports q = p_reports p \<Longrightarrow> tracked cfg w0 ph e q"
  by (auto simp: tracked_def same_world_def drift_def refused_def)

lemma tracked_transit:
  assumes "lift_world (transit_action env cfg cb a b) p = (r, q)"
    and "tracked cfg w0 (phase_of a) e p"
    and "proto_run (phase_of a) (transit_ops a b) = Some ph"
  shows "tracked cfg w0 ph (e + due cb a b)
           (if is_ok r then q else q\<lparr>p_reports := Suc (p_reports q)\<rparr>)"
proof (cases r)
  case (Inl x)
  then show ?thesis
    using transit_bounds [OF assms(1)] assms(2) by (auto simp: tracked_def moved_def is_ok_def)
next
  case (Inr u)
  note b = transit_bounds [OF assms(1)]
  have "arrived cfg ph (due cb a b) p q"
    if "p_reports q = 0" "refused (p_world q) = refused w0"
  proof (rule transit_arrived [OF assms(1) [unfolded Inr] assms(3)])
    have "refused (p_world p) = refused w0"
      using that(2) b assms(2) by (auto simp: tracked_def moved_def)
    then show "world_phase cfg (phase_of a) (p_world p)"
      using that(1) b assms(2) by (simp add: tracked_def same_control_def)
  qed
  then show ?thesis
    using b assms(2) Inr by (auto simp: tracked_def moved_def arrived_def is_ok_def same_control_def)
qed

definition profile_at ::
  "prof_config \<Rightarrow> prof_world \<Rightarrow> bool \<Rightarrow> int \<Rightarrow> ProfilerAction \<Rightarrow> nat \<Rightarrow> profile \<Rightarrow> bool" where
  "profile_at cfg w0 cb k a e p \<longleftrightarrow> p_step_num p = k \<and> p_current_action p = a
     \<and> \<not> p_stopped p \<and> p_on_trace_ready p = cb \<and> tracked cfg w0 (phase_of a) e p"

text \<open>A wrapped call that makes a transition and enters the next step.\<close>

lemma wrapped_transit:
  assumes "m p = sseq (lift_world (transit_action env cfg cb a (Some b))) enter_step q"
    and "tracked cfg w0 (phase_of a) e q" and "allowed_pair a b"
  shows "tracked cfg w0 (phase_of b) (e + due cb a (Some b)) (no_exception_func m p)
       \<and> (\<exists>r. same_control q r \<and> (no_exception_func m p = r
             \<or> no_exception_func m p = r\<lparr>p_reports := Suc (p_reports r)\<rparr>))"
proof -
  obtain r q1 where q1: "lift_world (transit_action env cfg cb a (Some b)) q = (r, q1)"
    by (cases "lift_world (transit_action env cfg cb a (Some b)) q")
  note t = tracked_transit [OF q1 assms(2) transit_proto [OF assms(3)]]
  note c = transit_bounds [OF q1]
  obtain q2 where q2: "enter_step q1 = (Inr (), q2)" "same_control q1 q2" "same_world q1 q2"
    using marker_ok(1) by blast
  show ?thesis
  proof (cases r)
    case (Inl x)
    then have "no_exception_func m p = q1\<lparr>p_reports := Suc (p_reports q1)\<rparr>"
      by (simp add: no_exception_func_def assms(1) sseq_def sbind_def q1)
    then show ?thesis using t c Inl by (auto simp: is_ok_def)
  next
    case (Inr u)
    then have n: "no_exception_func m p = q2"
      by (simp add: no_exception_func_def assms(1) sseq_def sbind_def q1 q2)
    have "tracked cfg w0 (phase_of b) (e + due cb a (Some b)) q1" using t Inr by (simp add: is_ok_def)
    from tracked_same [OF this q2(3)] q2(2) have "tracked cfg w0 (phase_of b) (e + due cb a (Some b)) q2"
      by (simp add: same_control_def)
    then show ?thesis using n c q2(2) same_control_trans by blast
  qed
qed

context disciplined_schedule
begin

lemma start_at:
  assumes "p_step_num p = 0" and "p_current_action p = act 0" and "p_on_trace_ready p = cb"
    and "p_reports p = 0" and "world_phase cfg Idle (p_world p)"
  shows "profile_at cfg (p_world p) cb 0 (act 0) 0 (no_exception_func (profile_start env cfg) p)"
proof -
  let ?p0 = "p\<lparr>p_stopped := False\<rparr>"
  let ?init = "\<lambda>p. if \<not> p_on_trace_ready p
                  then lift_world (creator_init env PNone PNone True) p else (Inr (), p)"
  obtain q where q: "?init ?p0 = (Inr (), q)" "same_control ?p0 q" "same_world ?p0 q"
  proof (cases "p_on_trace_ready ?p0")
    case True
    then show ?thesis
      by (intro that [of ?p0]) (auto simp: same_control_def same_world_def drift_def)
  next
    case False
    then show ?thesis using creator_default_ok [of env ?p0] that by auto
  qed
  have a: "p_current_action q = act 0" "p_on_trace_ready q = cb"
    using q(2) assms by (simp_all add: same_control_def)
  have run: "profile_start env cfg p =
      sseq (lift_world (transit_action env cfg cb NONE (Some (act 0)))) enter_step q"
    using q(1) a by (simp add: profile_start_def sseq_def sbind_def smod_def)
  have "tracked cfg (p_world p) (phase_of NONE) 0 q"
    using q(2,3) assms(4,5)
    by (auto simp: tracked_def same_world_def same_control_def drift_def)
  from wrapped_transit [where m = "profile_start env cfg" and p = p, OF run this]
  have t: "tracked cfg (p_world p) (phase_of (act 0)) (due cb NONE (Some (act 0)))
             (no_exception_func (profile_start env cfg) p)"
    and c: "\<exists>r. same_control q r \<and> (no_exception_func (profile_start env cfg) p = r
              \<or> no_exception_func (profile_start env cfg) p = r\<lparr>p_reports := Suc (p_reports r)\<rparr>)"
    by (simp_all add: allowed_pair_def)
  show ?thesis
    using t c q(2) assms(1,2,3) by (auto simp: profile_at_def same_control_def due_values)
qed

lemma step_at:
  assumes "profile_at cfg w0 cb (int k) (act k) e p"
  shows "profile_at cfg w0 cb (int (Suc k)) (act (Suc k)) (e + due cb (act k) (Some (act (Suc k))))
           (no_exception_func (profile_step env cfg sched) p)"
proof -
  obtain p1 where p1: "exit_step p = (Inr (), p1)" "same_control p p1" "same_world p p1"
    using marker_ok(2) by blast
  let ?q = "p1\<lparr>p_step_num := int (Suc k), p_current_action := act (Suc k)\<rparr>"
  have f: "p_step_num p1 = int k" "p_current_action p1 = act k" "\<not> p_stopped p" "p_on_trace_ready p1 = cb"
    using p1(2) assms by (simp_all add: profile_at_def same_control_def)
  have sc: "sched (int k + 1) = Inr (act (Suc k))" using sched_act [of "Suc k"] by (simp add: add.commute)
  have run: "profile_step env cfg sched p =
      sseq (lift_world (transit_action env cfg cb (act k) (Some (act (Suc k))))) enter_step ?q"
    using p1(1) f sc
    by (simp add: profile_step_def sseq_def sbind_def smod_def sget_def add.commute)
  have "tracked cfg w0 (phase_of (act k)) e p1"
    using assms p1(2,3) tracked_same by (auto simp: profile_at_def same_control_def)
  then have "tracked cfg w0 (phase_of (act k)) e ?q" by (simp add: tracked_def)
  from wrapped_transit [where m = "profile_step env cfg sched" and p = p, OF run this allowed_act]
  have t: "tracked cfg w0 (phase_of (act (Suc k))) (e + due cb (act k) (Some (act (Suc k))))
             (no_exception_func (profile_step env cfg sched) p)"
    and c: "\<exists>r. same_control ?q r \<and> (no_exception_func (profile_step env cfg sched) p = r
              \<or> no_exception_func (profile_step env cfg sched) p = r\<lparr>p_reports := Suc (p_reports r)\<rparr>)"
    by simp_all
  show ?thesis
    using t c f p1(2) by (auto simp: profile_at_def same_control_def)
qed

definition saved :: "bool \<Rightarrow> nat \<Rightarrow> nat" where
  "saved cb n = (if cb then length (filter (\<lambda>i. act i = RECORD_AND_SAVE) [0..<n]) else 0)"

lemma steps_at:
  assumes "profile_at cfg w0 cb 0 (act 0) 0 p"
  shows "profile_at cfg w0 cb (int n) (act n) (saved cb n)
           ((no_exception_func (profile_step env cfg sched) ^^ n) p)"
proof (induction n)
  case 0
  have "saved cb 0 = 0" by (simp add: saved_def)
  then show ?case using assms by simp
next
  case (Suc n)
  have "saved cb n + due cb (act n) (Some (act (Suc n))) = saved cb (Suc n)"
    by (simp add: saved_def due_values)
  then show ?case using step_at [OF Suc.IH, of env] by simp
qed

lemma stop_at:
  assumes "profile_at cfg w0 cb (int n) (act n) e p" and "q = no_exception_func (profile_stop env cfg) p"
  shows "p_step_num q = int n \<and> p_current_action q = act n
       \<and> tracked cfg w0 (exit_phase (act n)) (e + due cb (act n) None) q
       \<and> (p_reports q = 0 \<longrightarrow> p_stopped q)"
proof -
  obtain p1 where p1: "exit_step p = (Inr (), p1)" "same_control p p1" "same_world p p1"
    using marker_ok(2) by blast
  obtain r p2 where p2: "lift_world (transit_action env cfg cb (act n) None) p1 = (r, p2)"
    by (cases "lift_world (transit_action env cfg cb (act n) None) p1")
  have f: "p_current_action p1 = act n" "p_on_trace_ready p1 = cb" "p_step_num p1 = int n"
    using p1(2) assms(1) by (simp_all add: profile_at_def same_control_def)
  have q: "q = (if is_ok r then p2\<lparr>p_stopped := True\<rparr> else p2\<lparr>p_reports := Suc (p_reports p2)\<rparr>)"
    using p1(1) p2 f
    by (cases r)
      (simp_all add: assms(2) no_exception_func_def profile_stop_def sseq_def sbind_def smod_def is_ok_def)
  have "tracked cfg w0 (phase_of (act n)) e p1"
    using assms(1) p1(2,3) tracked_same by (auto simp: profile_at_def same_control_def)
  note t = tracked_transit [OF p2 this exit_proto]
  show ?thesis
    using t transit_bounds [OF p2] f by (auto simp: q tracked_def same_control_def split: if_splits)
qed

theorem run_profile_ok:
  assumes "profile_init sched hs cb w = Inr p" and "world_phase cfg Idle w"
    and "p' = run_profile env cfg sched n p"
  shows "p_step_num p' = int n \<and> p_current_action p' = act n
       \<and> tracked cfg w (exit_phase (act n)) (saved cb n + due cb (act n) None) p'
       \<and> (p_reports p' = 0 \<longrightarrow> p_stopped p')"
proof -
  have p: "p_step_num p = 0" "p_current_action p = act 0" "p_world p = w" "p_on_trace_ready p = cb"
      "p_reports p = 0"
    using assms(1) sched_act [of 0] by (auto simp: profile_init_def)
  note s1 = start_at [OF p(1,2,4,5), of cfg env, unfolded p(3), OF assms(2)]
  show ?thesis
    using stop_at [OF steps_at [OF s1, of n env] refl, of env] by (simp add: assms(3) run_profile_def)
qed

end

end
