(* ===== verification/Profiler_Props.thy ===== *)
theory Profiler_Props
  imports Profiler_Control
begin

text \<open>
  What the profiler front end guarantees: the shape of the schedule, the number of saved traces,
  the life cycle of a \<open>profile\<close> on a user schedule and on the default one, the transitions that
  leave the session's phases, the session a stop in a warm-up step leaves behind, and the effect of
  the path guard on the file system.
\<close>

section \<open>The schedule\<close>

text \<open>
  Whatever the user passes, the normalised schedule runs cycles of wait, warm-up, record and
  record-and-save steps after the skipped steps, and stops after \<open>repeat\<close> cycles when \<open>repeat\<close> is
  positive.
\<close>

lemma schedule_shape:
  assumes "s = check_params w a wu r sk" and "0 \<le> c" and "0 \<le> m" and "m < num_steps s"
  shows "schedule_call s (sch_skip_first s + c * num_steps s + m) =
           Inr (if sch_repeat s > 0 \<and> c \<ge> sch_repeat s then NONE
                else if m < sch_wait s then NONE
                else if m < sch_wait s + sch_warmup s then WARMUP
                else if m < num_steps s - 1 then RECORD else RECORD_AND_SAVE)"
  using schedule_call_cycle [OF check_params_valid assms(2), of m w a wu r sk] assms
  by (simp add: phase_action_def)

lemma schedule_shape_witness:
  "schedule_call (check_params (PInt 1) (PInt 2) (PInt 1) (PInt 2) (PInt 3)) (3 + 1 * 4 + 2) = Inr RECORD"
  using schedule_shape [of "check_params (PInt 1) (PInt 2) (PInt 1) (PInt 2) (PInt 3)"
      "PInt 1" "PInt 2" "PInt 1" "PInt 2" "PInt 3" 1 2]
  by (simp add: check_params_def reset_below_def num_steps_def)

text \<open>
  A schedule that repeats saves exactly \<open>repeat\<close> traces, however long the program runs after
  the last cycle, and after \<open>c\<close> complete cycles it has saved \<open>c\<close>.
\<close>

lemma schedule_saves:
  assumes "s = check_params w a wu r sk" and "0 < sch_repeat s" and "int c \<le> sch_repeat s"
  shows "saves s (nat (sch_skip_first s) + c * nat (num_steps s)) = c
       \<and> saves s (nat (sch_skip_first s) + nat (sch_repeat s) * nat (num_steps s) + d) =
           nat (sch_repeat s)"
  using saves_cycles [of s c] saves_finished [of s d] check_params_valid [of w a wu r sk] assms
  by simp

lemma schedule_saves_witness:
  "saves (check_params (PInt 0) (PInt 1) (PInt 1) (PInt 2) (PInt 1)) 5 = 2"
  using schedule_saves [of "check_params (PInt 0) (PInt 1) (PInt 1) (PInt 2) (PInt 1)"
      "PInt 0" "PInt 1" "PInt 1" "PInt 2" "PInt 1" 2]
  by (simp add: check_params_def reset_below_def num_steps_def)

section \<open>Runs of a profile\<close>

text \<open>A machine on which every operation succeeds, and a fresh profiler on it.\<close>

definition sample_os :: os_state where
  "sample_os = \<lparr>os_fs = [''/d'' \<mapsto> FDir \<lparr>fa_uid = 0, fa_read = True, fa_write = True\<rparr>],
     os_uid = 0, os_make = (\<lambda>_. True), os_remove = (\<lambda>_. SysOk), os_write = (\<lambda>_. True)\<rparr>"

definition sample_env :: prof_env where
  "sample_env = \<lparr>env_work_path = None, env_cwd = ''/d'', env_abspath = (\<lambda>p. p),
     env_expanduser = (\<lambda>p. p), env_realpath = (\<lambda>p. p), env_hostname = ''h'', env_pid = ''1'',
     env_stamp = (\<lambda>n. replicate n CHR ''t''), env_syscnt_enable = False, env_freq = 0,
     env_syscnt = (\<lambda>_. 0), env_monotonic = (\<lambda>_. 0), env_rank = None, env_group_info = None,
     env_callback = (\<lambda>_. Inr ())\<rparr>"

definition sample_cfg :: prof_config where
  "sample_cfg = \<lparr>cfg_cpu_activity = True, cfg_npu_activity = True, cfg_with_gc = True, cfg_export_text = True\<rparr>"

definition sample_mgr :: prof_mgr where
  "sample_mgr = \<lparr>mgr_path = [], mgr_npu_trace = False, mgr_report_enable = False,
     mgr_enable_warmup = False, mgr_prof_config = False, mgr_receivers = None,
     mgr_profiler_state = False, mgr_refused = 0, mgr_misused = 0\<rparr>"

definition sample_world :: prof_world where
  "sample_world = \<lparr>pc_prof_path = None, pc_worker_name = None, pc_dir_path = Some ''/d'',
     pc_export_only_mode = False, pc_is_prof_inited = False, pi_prof_path = [],
     pi_syscnt_enable = False, pi_freq = 0, pi_start_cnt = 0, pi_start_monotonic = 0,
     pi_gc_detector = False, pi_metadata = [], pi_event_wraps = 0, w_os = sample_os,
     w_mgr = sample_mgr, w_made = 0, w_log = []\<rparr>"

definition sample_profile :: profile where
  "sample_profile = \<lparr>p_step_num = 0, p_current_action = WARMUP, p_step_num_offset = 0,
     p_record_steps = True, p_step_rec_fn = None, p_stopped = False, p_on_trace_ready = True,
     p_reports = 0, p_world = sample_world\<rparr>"

definition sample_schedule :: Schedule where
  "sample_schedule = check_params (PInt 0) (PInt 1) (PInt 1) (PInt 2) (PInt 0)"

lemma sample_init:
  "profile_init (schedule_call sample_schedule) True True sample_world = Inr sample_profile"
  by (simp add: profile_init_def sample_schedule_def sample_profile_def check_params_def
      reset_below_def schedule_call_def num_steps_def)

lemma sample_idle: "world_phase sample_cfg Idle sample_world"
  by code_simp

text \<open>The errors printed and the directories refused in a run, on sample runs.\<close>

definition complaints :: "profile \<Rightarrow> nat \<times> nat" where
  "complaints p = (p_reports p, refused (p_world p))"

lemma sample_run:
  "complaints (run_profile sample_env sample_cfg (schedule_call sample_schedule) 4 sample_profile) = (0, 0)"
  by code_simp

lemma sample_warm_run:
  "complaints (run_profile sample_env sample_cfg (schedule_call sample_schedule) 2 sample_profile) = (0, 0)"
  by code_simp

lemma sample_raising_run:
  "complaints (run_profile (sample_env\<lparr>env_callback := \<lambda>_. Inl ValueError\<rparr>) sample_cfg
     (schedule_call sample_schedule) 4 sample_profile) = (2, 0)"
  by code_simp

text \<open>The calls of \<open>on_trace_ready\<close> that a run of \<open>n\<close> steps should make.\<close>

definition callbacks :: "Schedule \<Rightarrow> nat \<Rightarrow> nat" where
  "callbacks s n = saves s n
     + (if schedule_call s (int n) \<in> {Inr RECORD, Inr RECORD_AND_SAVE} then 1 else 0)"

text \<open>
  C1: a profile that is started, stepped \<open>n\<close> times on a user schedule and stopped is at step \<open>n\<close>
  of its schedule whatever its calls raised, and never called \<open>on_trace_ready\<close> more often than once
  per saved trace and once more when it is stopped while recording.  If no call printed an error and
  the native profiler refused no directory, the callback ran exactly that often, the native profiler
  was never started twice nor stopped when it did not run, the event wrappers, the
  garbage-collector detector and the output-directory singleton are released, and the native
  manager is released too, unless the profile was stopped in a warm-up step: then the manager
  keeps the configuration, the receivers and both flags of the dropped session.
\<close>

theorem profile_run:
  assumes "s = check_params w a wu r sk"
    and "profile_init (schedule_call s) hs cb wd = Inr p" and "world_phase cfg Idle wd"
    and "p' = run_profile env cfg (schedule_call s) n p"
  shows "p_step_num p' = int n \<and> schedule_call s (int n) = Inr (p_current_action p')
       \<and> ready_calls (p_world p') \<le> ready_calls wd + (if cb then callbacks s n else 0)
       \<and> (p_reports p' = 0 \<and> refused (p_world p') = refused wd \<longrightarrow>
            p_stopped p'
            \<and> ready_calls (p_world p') = ready_calls wd + (if cb then callbacks s n else 0)
            \<and> mgr_misused (w_mgr (p_world p')) = mgr_misused (w_mgr wd)
            \<and> world_phase cfg (if p_current_action p' = WARMUP then Dropped else Idle) (p_world p'))"
proof -
  have act: "user_schedule.act w a wu r sk i = x \<longleftrightarrow> schedule_call s (int i) = Inr x" for i x
    using user_schedule.sched_act [of w a wu r sk i] by (auto simp: assms(1))
  have calls: "user_schedule.saved w a wu r sk cb n + due cb (user_schedule.act w a wu r sk n) None
      = (if cb then callbacks s n else 0)"
    by (simp add: user_schedule.saved_def due_values callbacks_def saves_def act)
  have here: "schedule_call s (int n) = Inr (user_schedule.act w a wu r sk n)"
    using act by blast
  note run = user_schedule.run_profile_ok [of w a wu r sk, OF assms(2) [unfolded assms(1)] assms(3)
      assms(4) [unfolded assms(1)], unfolded calls]
  show ?thesis
    using run here unfolding tracked_def exit_phase_def by simp
qed

text \<open>
  The witness: four steps of a schedule with a warm-up step in each of two cycles, the same steps
  with a callback that raises, and a stop in the warm-up step of the second cycle.
\<close>

theorem profile_run_witness:
  "(let p = run_profile sample_env sample_cfg (schedule_call sample_schedule) 4 sample_profile
    in ready_calls (p_world p) = 2 \<and> world_phase sample_cfg Idle (p_world p))
   \<and> (let p = run_profile (sample_env\<lparr>env_callback := \<lambda>_. Inl ValueError\<rparr>) sample_cfg
              (schedule_call sample_schedule) 4 sample_profile
      in p_step_num p = 4 \<and> ready_calls (p_world p) \<le> 2 \<and> p_reports p = 2)
   \<and> (let p = run_profile sample_env sample_cfg (schedule_call sample_schedule) 2 sample_profile
      in ready_calls (p_world p) = 1 \<and> world_phase sample_cfg Dropped (p_world p))"
proof -
  let ?run = "\<lambda>env. run_profile env sample_cfg (schedule_call sample_schedule)"
  let ?bad = "sample_env\<lparr>env_callback := \<lambda>_. Inl ValueError\<rparr>"
  note law = profile_run [OF sample_schedule_def sample_init sample_idle refl]
  have calls: "callbacks sample_schedule 4 = 2" "callbacks sample_schedule 2 = 1"
      "ready_calls sample_world = 0"
    by code_simp+
  have zero: "refused sample_world = 0" by code_simp
  note quiet = sample_run [unfolded complaints_def prod.inject]
    sample_warm_run [unfolded complaints_def prod.inject]
    sample_raising_run [unfolded complaints_def prod.inject]
  have last: "schedule_call sample_schedule (int 4) = Inr NONE"
      "schedule_call sample_schedule (int 2) = Inr WARMUP"
    by code_simp+
  have act: "p_current_action (?run sample_env 4 sample_profile) = NONE"
      "p_current_action (?run sample_env 2 sample_profile) = WARMUP"
    using law [of sample_env 4] law [of sample_env 2] last by simp_all
  show ?thesis
    using law [of sample_env 4] law [of ?bad 4] law [of sample_env 2] quiet zero calls act
    by (simp add: Let_def)
qed

text \<open>
  A profile without a schedule records from start to stop; when no error is printed and nothing is
  refused, all is released and the callback runs exactly once, at the end.
\<close>

lemma default_profile_run:
  assumes "profile_init default_schedule_fn hs cb wd = Inr p" and "world_phase cfg Idle wd"
    and "p' = run_profile env cfg default_schedule_fn n p"
    and "p_reports p' = 0" and "refused (p_world p') = refused wd"
  shows "world_phase cfg Idle (p_world p') \<and> p_stopped p'
       \<and> ready_calls (p_world p') = ready_calls wd + (if cb then 1 else 0)"
proof -
  have act: "default_schedule.act i = RECORD" for i
    using default_schedule.sched_act [of i] by (simp add: default_schedule_fn_def)
  show ?thesis
    using default_schedule.run_profile_ok [OF assms(1-3)] assms(4,5)
    by (simp add: act tracked_def exit_phase_def due_values default_schedule.saved_def)
qed

text \<open>
  After a stop in a warm-up step the next session that records without a warm-up is initialised on
  its own directory, and the receivers stay on the directory that the stop deleted.
\<close>

lemma session_after_drop:
  assumes "world_phase cfg Dropped w" and "cfg_cpu_activity cfg"
    and "init_trace env cfg w = (Inr u, w1)" and "start_trace env cfg w1 = (Inr v, w2)"
  shows "mgr_receivers (w_mgr w2) = Some (fwk_path (mgr_path (w_mgr w)))"
proof -
  from assms(3) obtain w0 x p m s where w0: "create_prof_dir env w = (Inr x, w0)"
    and n: "initNpuProfiler (env_cwd env) (env_realpath env) p (cfg_npu_activity cfg)
              (w_mgr w0, w_os w0) = (Inr u, (m, s))"
    and w1: "w_mgr w1 = m" "w_os w1 = s"
    by (auto simp: init_trace_def sseq_ok sbind_ok native_ok smod_def sget_def)
  have "w_mgr w0 = w_mgr w" using create_prof_dir_ok [OF w0] by (simp add: same_flags_def)
  with n assms(1,2) have m: "mgr_receivers m = Some (fwk_path (mgr_path (w_mgr w)))"
      "mgr_enable_warmup m" "\<not> mgr_profiler_state m"
    by (auto simp: world_phase_def mgr_at_def native_defs split: prod.splits if_splits)
  obtain m' s' where st: "startNpuProfiler (cfg_cpu_activity cfg) (m, s) = (Inr (), (m', s'))"
    and w2: "w_mgr w2 = m'"
    using start_trace_native [OF assms(4), unfolded w1] by blast
  have "mgr_receivers m' = mgr_receivers m"
    using st m(2,3) by (auto simp: startNpuProfiler_def mgr_Start_def smod_def Let_def split: if_splits)
  then show ?thesis using m(1) w2 by simp
qed

text \<open>
  The table of transitions takes a session from the phase of the previous action to the phase of
  the current one, by operations in their phase, for every pair of actions but one: from
  \<open>RECORD\<close> to \<open>WARMUP\<close> the session is finalised and no new one is initialised.
\<close>

lemma transition_protocol:
  "proto_run (phase_of a) (transit_ops a (Some b)) = Some (phase_of b) \<longleftrightarrow> \<not> (a = RECORD \<and> b = WARMUP)"
  by (cases a; cases b) (auto simp: transit_ops_def)

section \<open>The path guard\<close>

text \<open>
  \<open>make_dir_safety\<close> either raises or leaves a directory entry that exists and is not a
  symbolic link, and no existing file, directory or link changes.
\<close>

lemma make_dir_result:
  assumes "make_dir_safety s p = Inr s'"
  shows "path_exists s' p \<and> \<not> path_islink s' p
       \<and> (\<forall>q n. os_fs s q = Some n \<longrightarrow> os_fs s' q = Some n)"
  by (rule make_dir_safety_ok [OF assms])

lemma make_dir_result_witness:
  "path_exists (makedirs sample_os ''/d/x'') ''/d/x''"
proof -
  have "\<not> path_islink sample_os ''/d/x''" "\<not> path_exists sample_os ''/d/x''" "os_make sample_os ''/d/x''"
    by code_simp+
  then have "make_dir_safety sample_os ''/d/x'' = Inr (makedirs sample_os ''/d/x'')"
    by (simp add: make_dir_safety_def)
  from make_dir_result [OF this] show ?thesis by simp
qed

text \<open>
  A \<open>remove_path_safety\<close> that returns after removing something removed a directory, with everything
  at or below it, and left every other path alone; a link or a regular file makes it raise.
\<close>

lemma remove_path_result:
  assumes "remove_path_safety s p = Inr s'" and "os_remove s p \<noteq> SysGone" and "path_exists s p"
  shows "path_isdir s p \<and> \<not> path_islink s p \<and> (\<forall>q. below p q \<longrightarrow> \<not> path_exists s' q)
       \<and> (\<forall>q. \<not> below p q \<longrightarrow> os_fs s' q = os_fs s q)"
  using remove_path_safety_ok [OF assms] by (simp add: path_exists_def target_def)

lemma remove_path_raises:
  "path_isfile s p \<Longrightarrow> os_remove s p \<noteq> SysGone \<Longrightarrow> remove_path_safety s p = Inl RuntimeError"
  by (auto simp: remove_path_safety_def path_isfile_def path_isdir_def path_exists_def
      split: sys_outcome.splits option.splits fnode.splits)

text \<open>
  A file that vanishes between the check and the removal makes \<open>remove_file_safety\<close> raise,
  while \<open>remove_path_safety\<close> takes the same race for a success.
\<close>

lemma remove_race:
  assumes "path_exists s p" and "\<not> path_islink s p" and "os_remove s p = SysGone"
  shows "remove_file_safety s p = Inl RuntimeError \<and> remove_path_safety s p = Inr s"
  using assms by (simp add: remove_file_safety_def remove_path_safety_def)

lemma remove_race_witness:
  "remove_file_safety (sample_os\<lparr>os_remove := \<lambda>_. SysGone\<rparr>) ''/d'' = Inl RuntimeError"
proof -
  let ?s = "sample_os\<lparr>os_remove := \<lambda>_. SysGone\<rparr>"
  have "path_exists ?s ''/d''" "\<not> path_islink ?s ''/d''" "os_remove ?s ''/d'' = SysGone"
    by code_simp+
  from remove_race [OF this] show ?thesis by simp
qed

end
