(* ===== verification/Flight_Types.thy ===== *)
theory Flight_Types
  imports Prelude
begin

text \<open>
  The flight recorder's data model and operation matching,
  \<open>tools/flight_recorder/components/types.py\<close>: trace entries, the state of an entry under
  analysis, the rows of the result database, and \<open>Op\<close> with its \<open>match\<close>.

  A trace entry is a dictionary; the record \<open>entry\<close> has one optional field per key the tool
  reads (\<open>None\<close> for a key that is missing) and \<open>e_other\<close> for the presence of any other key.  A
  frame is a dictionary of strings.  Where the code indexes or iterates a value that may be
  \<open>None\<close>, the model raises \<open>TypeError\<close>, as Python does.

  \<open>Op.__init__\<close> tests the name \<open>type\<close>, which is Python's built-in class and not \<open>self.type\<close>: the
  three tests \<open>type == "send"\<close>, \<open>type == "recv"\<close> and \<open>type in P2P | COLLECTIVES\<close> compare a class
  with strings and are false for every event.  The model keeps them as the constant
  \<open>builtin_type_is\<close>.
\<close>

section \<open>Entries\<close>

type_synonym frame = "(string \<times> string) list"
type_synonym sizes = "int list list"

record entry =
  e_process_group :: "(string \<times> string) option"
  e_profiling_name :: "string option"
  e_collective_seq_id :: "int option"
  e_p2p_seq_id :: "int option"
  e_record_id :: "int option"
  e_input_sizes :: "sizes option"
  e_output_sizes :: "sizes option"
  e_input_dtypes :: "string list option"
  e_output_dtypes :: "string list option"
  e_state :: "string option"
  e_frames :: "frame list option"
  e_time_created_ns :: "int option"
  e_other :: bool

definition empty_entry :: "entry \<Rightarrow> bool" where
  "empty_entry e \<longleftrightarrow> e_process_group e = None \<and> e_profiling_name e = None
     \<and> e_collective_seq_id e = None \<and> e_p2p_seq_id e = None \<and> e_record_id e = None
     \<and> e_input_sizes e = None \<and> e_output_sizes e = None \<and> e_input_dtypes e = None
     \<and> e_output_dtypes e = None \<and> e_state e = None \<and> e_frames e = None
     \<and> e_time_created_ns e = None \<and> \<not> e_other e"

definition opt_or :: "'a option \<Rightarrow> 'a \<Rightarrow> 'a" where
  "opt_or x d = (case x of None \<Rightarrow> d | Some v \<Rightarrow> v)"

section \<open>Match information\<close>

datatype MatchState =
    FULLY_MATCHED | COLLECTIVE_TYPE_MISMATCH | SIZE_OR_SYNTAX_MISMATCH
  | COLLECTIVE_STATE_MISMATCH | COLLECTIVE_DTYPE_MISMATCH | UNDECIDED

text \<open>The values the culprit message interpolates.\<close>

datatype culprit =
    CulType string string
  | CulState "string option" "string option"
  | CulDtypes "string set" "string set" "string set" "string set"
  | CulSizes "sizes option" "sizes option"
  | CulNumel int int int

record MatchInfo =
  mi_state :: MatchState
  mi_culprit :: "culprit option"

definition match_info :: "MatchState \<Rightarrow> culprit option \<Rightarrow> MatchInfo" where
  "match_info st c = \<lparr>mi_state = st, mi_culprit = c\<rparr>"

section \<open>Rows of the database\<close>

record Group =
  g_id :: string
  g_desc :: string
  g_size :: nat

record Membership =
  m_group_id :: string
  m_global_rank :: int

record collective_row =
  c_id :: nat
  c_group_id :: "string option"
  c_pass_check :: bool
  c_collective_seq_id :: int
  c_p2p_seq_id :: int
  c_record_id :: "int option"
  c_pg_desc :: "string option"
  c_collective_name :: "string option"
  c_input_sizes :: sizes
  c_output_sizes :: sizes
  c_expected_ranks :: "int set"
  c_collective_state :: "string option"
  c_collective_frames :: "frame list"
  c_input_numel :: "int option"
  c_output_numel :: "int option"
  c_missing_ranks :: "int set option"
  c_type_of_mismatch :: "MatchInfo option"

text \<open>A collective, with the rows of the ranks that do not match it.\<close>

record Collective =
  c_row :: collective_row
  c_mismatch_collectives :: "(int \<times> collective_row) list option"

record HCCLCall =
  h_id :: nat
  h_collective_id :: "nat option"
  h_group_id :: "string option"
  h_global_rank :: int
  h_traceback_id :: nat
  h_collective_type :: "string option"
  h_sizes :: sizes

definition COLLECTIVES :: "string list" where
  "COLLECTIVES =
     [''broadcast'', ''_broadcast_oop'', ''reduce'', ''_reduce_oop'', ''all_gather'', ''all_reduce'',
      ''_all_gather_base'', ''all_gather_into_tensor_coalesced'', ''reduce_scatter'',
      ''reduce_scatter_tensor_coalesced'', ''_reduce_scatter_base'', ''gather'', ''scatter'',
      ''all_to_all'', ''all_reduce_barrier'', ''allreduce_coalesced'', ''ALLGATHER_coalesced'',
      ''REDUCE_SCATTER_coalesced'']"

definition P2P :: "string list" where
  "P2P = [''send'', ''recv'']"

section \<open>The state of an entry\<close>

record EntryState =
  es_pg_name :: "string option"
  es_desc :: "string option"
  es_pg_desc :: "string option"
  es_profiling_name :: "string option"
  es_collective_seq_id :: int
  es_p2p_seq_id :: int
  es_record_id :: "int option"
  es_input_sizes :: sizes
  es_output_sizes :: sizes
  es_collective_state :: "string option"
  es_collective_frames :: "frame list"
  es_expected_ranks :: "int set"
  es_missing_ranks :: "int set option"
  es_input_numel :: "int option"
  es_output_numel :: "int option"
  es_errors :: "(int \<times> MatchInfo) list option"

definition entry_state_init :: "entry \<Rightarrow> int set \<Rightarrow> EntryState" where
  "entry_state_init e expected =
     (let pg_name = map_option fst (e_process_group e);
          desc = map_option snd (e_process_group e)
      in \<lparr>es_pg_name = pg_name, es_desc = desc,
          es_pg_desc =
            (case e_process_group e of
               None \<Rightarrow> None
             | Some (n, d) \<Rightarrow> Some (if d \<noteq> [] \<and> d \<noteq> ''undefined'' then n @ '':'' @ d else n)),
          es_profiling_name = e_profiling_name e,
          es_collective_seq_id = opt_or (e_collective_seq_id e) 0,
          es_p2p_seq_id = opt_or (e_p2p_seq_id e) 0,
          es_record_id = e_record_id e,
          es_input_sizes = opt_or (e_input_sizes e) [],
          es_output_sizes = opt_or (e_output_sizes e) [],
          es_collective_state = e_state e,
          es_collective_frames = opt_or (e_frames e) [],
          es_expected_ranks = expected,
          es_missing_ranks = None, es_input_numel = None, es_output_numel = None,
          es_errors = None\<rparr>)"

text \<open>
  \<open>EntryState.log\<close> besides printing stores what it was told.  It takes the logger, the message,
  the frame formatter and the dictionary \<open>additional_info\<close>; any other keyword is a \<open>TypeError\<close>.
\<close>

record additional_info =
  ai_missing_ranks :: "int set option"
  ai_total_numel :: "(int \<times> int) option"
  ai_errors :: "(int \<times> MatchInfo) list option"

datatype log_keywords = LogInfo additional_info | LogErrorsKeyword

fun entry_state_log :: "EntryState \<Rightarrow> log_keywords \<Rightarrow> EntryState res" where
  "entry_state_log es (LogInfo ai) = Inr (es
     \<lparr>es_missing_ranks := (case ai_missing_ranks ai of None \<Rightarrow> es_missing_ranks es | m \<Rightarrow> m),
      es_input_numel := (case ai_total_numel ai of None \<Rightarrow> es_input_numel es | Some (i, _) \<Rightarrow> Some i),
      es_output_numel := (case ai_total_numel ai of None \<Rightarrow> es_output_numel es | Some (_, k) \<Rightarrow> Some k),
      es_errors := (case ai_errors ai of None \<Rightarrow> es_errors es | x \<Rightarrow> x)\<rparr>)"
| "entry_state_log es LogErrorsKeyword = Inl TypeError"

definition own_row :: "EntryState \<Rightarrow> nat \<Rightarrow> bool \<Rightarrow> collective_row" where
  "own_row es cid ok =
     \<lparr>c_id = cid, c_group_id = es_pg_name es, c_pass_check = ok,
      c_collective_seq_id = es_collective_seq_id es, c_p2p_seq_id = es_p2p_seq_id es,
      c_record_id = es_record_id es, c_pg_desc = es_pg_desc es,
      c_collective_name = es_profiling_name es, c_input_sizes = es_input_sizes es,
      c_output_sizes = es_output_sizes es, c_expected_ranks = es_expected_ranks es,
      c_collective_state = es_collective_state es, c_collective_frames = es_collective_frames es,
      c_input_numel = (if ok then None else es_input_numel es),
      c_output_numel = (if ok then None else es_output_numel es),
      c_missing_ranks = es_missing_ranks es, c_type_of_mismatch = None\<rparr>"

definition mismatch_row :: "EntryState \<Rightarrow> nat \<Rightarrow> entry \<Rightarrow> MatchInfo \<Rightarrow> collective_row" where
  "mismatch_row es cid e err =
     \<lparr>c_id = cid, c_group_id = map_option fst (e_process_group e), c_pass_check = False,
      c_collective_seq_id = opt_or (e_collective_seq_id e) 0,
      c_p2p_seq_id = opt_or (e_p2p_seq_id e) 0,
      c_record_id = e_record_id e, c_pg_desc = map_option snd (e_process_group e),
      c_collective_name = e_profiling_name e, c_input_sizes = opt_or (e_input_sizes e) [],
      c_output_sizes = opt_or (e_output_sizes e) [], c_expected_ranks = es_expected_ranks es,
      c_collective_state = e_state e, c_collective_frames = opt_or (e_frames e) [],
      c_input_numel = None, c_output_numel = None, c_missing_ranks = None,
      c_type_of_mismatch = Some err\<rparr>"

type_synonym entries = "(int \<times> entry list) list"

text \<open>The rows of the culprit ranks; a rank without index or entry is skipped.\<close>

fun mismatch_rows ::
  "EntryState \<Rightarrow> nat \<Rightarrow> (int \<rightharpoonup> nat) \<Rightarrow> entries \<Rightarrow> (int \<times> MatchInfo) list
   \<Rightarrow> (int \<times> collective_row) list \<Rightarrow> (int \<times> collective_row) list" where
  "mismatch_rows es cid idx_map all_entries [] acc = acc"
| "mismatch_rows es cid idx_map all_entries ((rank, err) # errs) acc =
     mismatch_rows es cid idx_map all_entries errs
       (case idx_map rank of
          None \<Rightarrow> acc
        | Some idx \<Rightarrow>
            (let rank_entries = opt_or (map_of all_entries rank) []
             in if idx \<ge> length rank_entries then acc
                else AList.update rank (mismatch_row es cid (rank_entries ! idx) err) acc))"

definition to_collective ::
  "EntryState \<Rightarrow> nat \<Rightarrow> (int \<times> MatchInfo) list option \<Rightarrow> (int \<rightharpoonup> nat) option \<Rightarrow> entries option
   \<Rightarrow> Collective res" where
  "to_collective es cid errors idx_map all_entries =
     (case errors of
        Some (x # xs) \<Rightarrow>
          (case idx_map of
             None \<Rightarrow> Inl ValueError
           | Some im \<Rightarrow>
               (case all_entries of
                  None \<Rightarrow> Inl ValueError
                | Some ae \<Rightarrow> Inr
                    \<lparr>c_row = own_row es cid False,
                     c_mismatch_collectives = Some (mismatch_rows es cid im ae (x # xs) [])\<rparr>))
      | _ \<Rightarrow> Inr \<lparr>c_row = own_row es cid True, c_mismatch_collectives = None\<rparr>)"

text \<open>\<open>list.pop(k)\<close> on the entries of a rank.\<close>

definition pop_entry :: "entries \<Rightarrow> int \<Rightarrow> nat \<Rightarrow> entries res" where
  "pop_entry ae r k =
     (case map_of ae r of
        None \<Rightarrow> Inl KeyError
      | Some es \<Rightarrow>
          (if k < length es then Inr (AList.update r (take k es @ drop (Suc k) es) ae)
           else Inl IndexError))"

fun to_hccl_call ::
  "EntryState \<Rightarrow> entries \<Rightarrow> (int \<times> nat) list \<Rightarrow> nat \<Rightarrow> nat option \<Rightarrow> (entries \<times> HCCLCall list) res"
where
  "to_hccl_call es ae [] call_id cid = Inr (ae, [])"
| "to_hccl_call es ae ((i, k) # im) call_id cid =
     rbind (pop_entry ae i k) (\<lambda>ae'.
     rbind (to_hccl_call es ae' im (Suc call_id) cid) (\<lambda>(ae'', calls).
     Inr (ae'',
       \<lparr>h_id = call_id, h_collective_id = cid, h_group_id = es_pg_name es, h_global_rank = i,
        h_traceback_id = 0, h_collective_type = es_profiling_name es,
        h_sizes = es_input_sizes es\<rparr> # calls)))"

section \<open>Operations\<close>

record Op =
  op_profiling_name :: string
  op_type :: string
  op_state :: "string option"
  op_pg_name :: string
  op_pg_desc :: string
  op_src :: int
  op_dst :: int
  op_src_g :: int
  op_dst_g :: int
  op_pg_size :: nat
  op_input_sizes :: "sizes option"
  op_output_sizes :: "sizes option"
  op_collective_seq_id :: "int option"
  op_p2p_seq_id :: "int option"
  op_input_dtypes :: "string list option"
  op_output_dtypes :: "string list option"
  op_time_created_ns :: "int option"

definition builtin_type_is :: "string list \<Rightarrow> bool" where
  "builtin_type_is names = False"

text \<open>The two peers parsed from \<open>"s->d"\<close> and \<open>"d<-s"\<close>; the code reaches neither.\<close>

fun split_at2 :: "char \<Rightarrow> char \<Rightarrow> string \<Rightarrow> string list" where
  "split_at2 a b [] = [[]]"
| "split_at2 a b [x] = [[x]]"
| "split_at2 a b (x # y # xs) =
     (if x = a \<and> y = b then [] # split_at2 a b xs
      else (case split_at2 a b (y # xs) of [] \<Rightarrow> [[x]] | w # ws \<Rightarrow> (x # w) # ws))"

definition parse_peers :: "char \<Rightarrow> char \<Rightarrow> string option \<Rightarrow> (int \<times> int) res" where
  "parse_peers a b meta =
     (case meta of
        None \<Rightarrow> Inl ValueError
      | Some m \<Rightarrow>
          (case split_at2 a b m of
             [x, y] \<Rightarrow> rbind (py_int x) (\<lambda>i. rbind (py_int y) (\<lambda>j. Inr (i, j)))
           | _ \<Rightarrow> Inl ValueError))"

definition init_global_src_dst :: "int \<Rightarrow> int \<Rightarrow> int set \<Rightarrow> (int \<times> int) res" where
  "init_global_src_dst src dst pg_ranks =
     (let rs = sorted_list_of_set pg_ranks
      in rbind (py_index rs src) (\<lambda>s. rbind (py_index rs dst) (\<lambda>d. Inr (s, d))))"

definition op_init ::
  "entry \<Rightarrow> (string \<rightharpoonup> int set) \<Rightarrow> string option \<Rightarrow> Op res" where
  "op_init e memberships pg_name =
     (case e_frames e of
        Some ((kv # kvs) # fs) \<Rightarrow>
          (case map_of (kv # kvs) ''name'' of
             None \<Rightarrow> Inl ValueError
           | Some name \<Rightarrow>
               (let parts = split_on CHR '':'' name;
                    ty = hd parts;
                    meta = (if length parts = 2 then Some (parts ! 1) else None)
                in case e_process_group e of
                     None \<Rightarrow> Inl TypeError
                   | Some (pgn, pgd) \<Rightarrow>
                       rbind (if builtin_type_is [''send'']
                              then parse_peers CHR ''-'' CHR ''>'' meta
                              else if builtin_type_is [''recv'']
                              then rbind (parse_peers CHR ''<'' CHR ''-'' meta) (\<lambda>(d, s). Inr (s, d))
                              else Inr (-1, -1)) (\<lambda>(src, dst).
                       rbind (case pg_name of
                                None \<Rightarrow> Inl KeyError
                              | Some g \<Rightarrow> (case memberships g of None \<Rightarrow> Inl KeyError | Some rs \<Rightarrow> Inr rs))
                         (\<lambda>rs.
                       rbind (init_global_src_dst src dst rs) (\<lambda>(sg, dg).
                       Inr \<lparr>op_profiling_name = name, op_type = ty, op_state = e_state e,
                            op_pg_name = pgn, op_pg_desc = pgd, op_src = src, op_dst = dst,
                            op_src_g = sg, op_dst_g = dg, op_pg_size = card rs,
                            op_input_sizes =
                              (if builtin_type_is (P2P @ COLLECTIVES) then e_input_sizes e else None),
                            op_output_sizes =
                              (if builtin_type_is (P2P @ COLLECTIVES) then e_output_sizes e else None),
                            op_collective_seq_id = e_collective_seq_id e,
                            op_p2p_seq_id = e_p2p_seq_id e,
                            op_input_dtypes = e_input_dtypes e, op_output_dtypes = e_output_dtypes e,
                            op_time_created_ns = e_time_created_ns e\<rparr>)))))
      | _ \<Rightarrow> Inl ValueError)"

end
