(* ===== verification/Flight_Match.thy ===== *)
theory Flight_Match
  imports Flight_Types
begin

text \<open>
  Matching two operations of a collective: \<open>Op.match\<close> (\<open>types.py\<close>) and the helpers of
  \<open>tools/flight_recorder/components/utils.py\<close> that classify the entries of one collective across
  ranks: \<open>match_one_event\<close>, \<open>check_size_alltoall\<close>, \<open>check_current_entry_match\<close>,
  \<open>error_analysis\<close>.

  Functions that iterate a set of ranks take the iteration order as an argument; the locale
  \<open>rank_iteration\<close> states what is known of it.
\<close>

section \<open>Op.match\<close>

definition dtype_set :: "string list option \<Rightarrow> string set res" where
  "dtype_set d = (case d of None \<Rightarrow> Inl TypeError | Some xs \<Rightarrow> Inr (set xs))"

definition size0 :: "sizes option \<Rightarrow> int list res" where
  "size0 s = (case s of None \<Rightarrow> Inl TypeError | Some [] \<Rightarrow> Inl IndexError | Some (x # _) \<Rightarrow> Inr x)"

text \<open>\<open>set(a) != set(b) and sa[0] and sb[0]\<close>, evaluated from left to right.\<close>

definition differ_nonempty ::
  "string list option \<Rightarrow> string list option \<Rightarrow> sizes option \<Rightarrow> sizes option \<Rightarrow> bool res" where
  "differ_nonempty a b sa sb =
     rbind (dtype_set a) (\<lambda>A. rbind (dtype_set b) (\<lambda>B.
     if A = B then Inr False
     else rbind (size0 sa) (\<lambda>x. if x = [] then Inr False
          else rbind (size0 sb) (\<lambda>y. Inr (y \<noteq> [])))))"

definition has_different_dtypes_and_non_empty_sizes :: "Op \<Rightarrow> Op \<Rightarrow> bool res" where
  "has_different_dtypes_and_non_empty_sizes self other =
     rbind (differ_nonempty (op_input_dtypes self) (op_output_dtypes self)
              (op_input_sizes self) (op_output_sizes self)) (\<lambda>c1.
     rbind (differ_nonempty (op_input_dtypes self) (op_input_dtypes other)
              (op_input_sizes self) (op_input_sizes other)) (\<lambda>c2.
     rbind (differ_nonempty (op_input_dtypes self) (op_output_dtypes other)
              (op_input_sizes self) (op_output_sizes other)) (\<lambda>c3.
     Inr (c1 \<or> c2 \<or> c3))))"

text \<open>The element count checks of gathers and scatters; the message evaluates both counts.\<close>

definition numel_check :: "sizes option \<Rightarrow> sizes option \<Rightarrow> nat \<Rightarrow> sizes option \<Rightarrow> sizes option
    \<Rightarrow> MatchInfo option res" where
  "numel_check big small n msg_in msg_out =
     rbind (size0 big) (\<lambda>x. rbind (size0 small) (\<lambda>y.
     if prod_list x = prod_list y * int n then Inr None
     else rbind (size0 msg_in) (\<lambda>i. rbind (size0 msg_out) (\<lambda>k.
          Inr (Some (match_info SIZE_OR_SYNTAX_MISMATCH
            (Some (CulNumel (prod_list i) (prod_list k) (int n)))))))))"

definition op_src_of :: "Op \<Rightarrow> int res" where
  "op_src_of p = (if op_type p \<notin> set P2P then Inl ValueError else Inr (op_src p))"

definition op_dst_of :: "Op \<Rightarrow> int res" where
  "op_dst_of p = (if op_type p \<notin> set P2P then Inl ValueError else Inr (op_dst p))"

text \<open>\<open>other.type == want and self.src == other.src and self.dst == other.dst and a == b\<close>.\<close>

definition p2p_match :: "Op \<Rightarrow> Op \<Rightarrow> string \<Rightarrow> sizes option \<Rightarrow> sizes option \<Rightarrow> MatchInfo res" where
  "p2p_match self other want a b =
     (if op_type other \<noteq> want then Inr (match_info SIZE_OR_SYNTAX_MISMATCH None)
      else rbind (op_src_of self) (\<lambda>s. rbind (op_src_of other) (\<lambda>s'.
           if s \<noteq> s' then Inr (match_info SIZE_OR_SYNTAX_MISMATCH None)
           else rbind (op_dst_of self) (\<lambda>d. rbind (op_dst_of other) (\<lambda>d'.
                Inr (if d = d' \<and> a = b then match_info FULLY_MATCHED None
                     else match_info SIZE_OR_SYNTAX_MISMATCH None))))))"

definition collective_sizes_match :: "Op \<Rightarrow> Op \<Rightarrow> MatchInfo res" where
  "collective_sizes_match self other =
     (let ty = op_type self
      in if ty \<noteq> ''scatter'' \<and> op_input_sizes self \<noteq> op_input_sizes other
         then Inr (match_info SIZE_OR_SYNTAX_MISMATCH
                (Some (CulSizes (op_input_sizes self) (op_input_sizes other))))
         else if ty \<noteq> ''gather'' \<and> op_output_sizes self \<noteq> op_output_sizes other
         then Inr (match_info SIZE_OR_SYNTAX_MISMATCH
                (Some (CulSizes (op_output_sizes self) (op_output_sizes other))))
         else if ty \<in> {''all_reduce'', ''allreduce_coalesced''}
                 \<and> op_input_sizes self \<noteq> op_output_sizes other
         then Inr (match_info SIZE_OR_SYNTAX_MISMATCH
                (Some (CulSizes (op_input_sizes self) (op_output_sizes other))))
         else rbind (if ty \<in> {''all_gather'', ''all_gather_base'', ''all_gather_into_tensor_coalesced''}
                     then numel_check (op_output_sizes other) (op_input_sizes self) (op_pg_size self)
                            (op_input_sizes other) (op_output_sizes other)
                     else Inr None) (\<lambda>m1.
              case m1 of
                Some mi \<Rightarrow> Inr mi
              | None \<Rightarrow>
                  rbind (if ty \<in> {''reduce_scatter'', ''_reduce_scatter_base'',
                                  ''reduce_scatter_tensor_coalesced''}
                         then numel_check (op_input_sizes other) (op_output_sizes self)
                                (op_pg_size self) (op_input_sizes other) (op_output_sizes other)
                         else Inr None) (\<lambda>m2.
                  case m2 of Some mi \<Rightarrow> Inr mi | None \<Rightarrow> Inr (match_info FULLY_MATCHED None))))"

definition op_match :: "Op \<Rightarrow> Op \<Rightarrow> MatchInfo res" where
  "op_match self other =
     (let ty = op_type self
      in if ty = ''send''
         then p2p_match self other ''recv'' (op_input_sizes self) (op_output_sizes other)
         else if ty = ''recv''
         then p2p_match self other ''send'' (op_output_sizes self) (op_input_sizes other)
         else if ty \<in> set COLLECTIVES
         then (if ty \<noteq> op_type other
               then Inr (match_info COLLECTIVE_TYPE_MISMATCH (Some (CulType ty (op_type other))))
               else if op_state self \<noteq> op_state other
               then Inr (match_info COLLECTIVE_STATE_MISMATCH
                      (Some (CulState (op_state self) (op_state other))))
               else rbind (has_different_dtypes_and_non_empty_sizes self self) (\<lambda>diff.
                    if diff
                    then rbind (dtype_set (op_input_dtypes self)) (\<lambda>a.
                         rbind (dtype_set (op_output_dtypes self)) (\<lambda>b.
                         rbind (dtype_set (op_input_dtypes other)) (\<lambda>c.
                         rbind (dtype_set (op_output_dtypes other)) (\<lambda>d.
                         Inr (match_info COLLECTIVE_DTYPE_MISMATCH (Some (CulDtypes a b c d)))))))
                    else if ty = ''all_to_all'' then Inr (match_info UNDECIDED None)
                    else collective_sizes_match self other))
         else if ty \<in> {''coalesced'', ''ALLGATHER_coalesced'', ''REDUCE_SCATTER_coalesced''}
         then Inr (if op_type other = ty then match_info FULLY_MATCHED None
                   else match_info SIZE_OR_SYNTAX_MISMATCH None)
         else Inr (match_info FULLY_MATCHED None))"

definition match_one_event ::
  "entry \<Rightarrow> entry \<Rightarrow> (string \<rightharpoonup> int set) \<Rightarrow> string option \<Rightarrow> MatchInfo res" where
  "match_one_event ea eb memberships pg_name =
     rbind (op_init ea memberships pg_name) (\<lambda>a.
     rbind (op_init eb memberships pg_name) (\<lambda>b. op_match a b))"

section \<open>Classifying the entries of a collective\<close>

locale rank_iteration = set_iteration iter for iter :: "int set \<Rightarrow> int list"

interpretation ascending_ranks: rank_iteration sorted_list_of_set
  by unfold_locales

record MatchStateRecord =
  mr_expected_ranks :: "int set"
  mr_other_ranks :: "int list"
  mr_entry_state :: EntryState
  mr_candidate_ranks :: "int set"
  mr_candidate_idx :: "int \<rightharpoonup> nat"
  mr_found_ranks :: "int set"
  mr_found_idx :: "int \<rightharpoonup> nat"
  mr_errors :: "(int \<times> MatchInfo) list"
  mr_has_undecided_case :: bool

definition match_record_init :: "int set \<Rightarrow> int list \<Rightarrow> EntryState \<Rightarrow> int \<Rightarrow> MatchStateRecord" where
  "match_record_init expected others es first_rank =
     \<lparr>mr_expected_ranks = expected, mr_other_ranks = others, mr_entry_state = es,
      mr_candidate_ranks = {first_rank}, mr_candidate_idx = Map.empty,
      mr_found_ranks = {}, mr_found_idx = Map.empty, mr_errors = [],
      mr_has_undecided_case = False\<rparr>"

definition reset_for_coalesced :: "MatchStateRecord \<Rightarrow> EntryState \<Rightarrow> int set \<Rightarrow> MatchStateRecord" where
  "reset_for_coalesced m es cands =
     m\<lparr>mr_entry_state := es, mr_candidate_ranks := cands, mr_candidate_idx := Map.empty,
       mr_found_ranks := {}, mr_found_idx := Map.empty, mr_errors := []\<rparr>"

definition check_size_alltoall :: "entry list \<Rightarrow> bool \<times> int \<times> int" where
  "check_size_alltoall cases =
     (let numel = (\<lambda>s. case s of Some (x # _) \<Rightarrow> prod_list x | _ \<Rightarrow> 0);
          i = sum_list (map (numel \<circ> e_input_sizes) cases);
          k = sum_list (map (numel \<circ> e_output_sizes) cases)
      in (i \<noteq> k, i, k))"

definition ok_state :: "MatchState \<Rightarrow> bool" where
  "ok_state st \<longleftrightarrow> st = FULLY_MATCHED \<or> st = UNDECIDED"

text \<open>The outcome for one rank whose entry at \<open>idx\<close> has the sequence number looked for.\<close>

definition record_rank ::
  "int \<Rightarrow> int \<Rightarrow> nat \<Rightarrow> MatchInfo \<Rightarrow> MatchStateRecord \<Rightarrow> MatchStateRecord" where
  "record_rank mm rank idx mi m =
     (if ok_state (mi_state mi) \<and> mm = 0
      then m\<lparr>mr_found_ranks := insert rank (mr_found_ranks m),
             mr_found_idx := (mr_found_idx m)(rank \<mapsto> idx),
             mr_has_undecided_case := (mi_state mi = UNDECIDED)\<rparr>
      else (let m1 = m\<lparr>mr_candidate_ranks := insert rank (mr_candidate_ranks m),
                       mr_candidate_idx := (mr_candidate_idx m)(rank \<mapsto> idx)\<rparr>
            in if \<not> ok_state (mi_state mi)
               then m1\<lparr>mr_errors := mr_errors m1 @ [(rank, mi)]\<rparr> else m1))"

text \<open>The first entry of the rank in the group with the sequence number, from index \<open>i\<close> on.\<close>

fun find_entry ::
  "((string \<times> int) \<rightharpoonup> string) \<Rightarrow> string option \<Rightarrow> int \<Rightarrow> int \<Rightarrow> nat \<Rightarrow> entry list \<Rightarrow> (nat \<times> entry) option"
where
  "find_entry pg_guids pg_name seq rank i [] = None"
| "find_entry pg_guids pg_name seq rank i (e # es) =
     (if (case e_process_group e of None \<Rightarrow> None | Some (n, _) \<Rightarrow> pg_guids (n, rank)) = pg_name
         \<and> e_collective_seq_id e = Some seq
      then Some (i, e)
      else find_entry pg_guids pg_name seq rank (Suc i) es)"

text \<open>\<open>mismatch[pg_name]\<close>: the counters are a dictionary indexed by group.\<close>

definition mismatch_of :: "(string \<rightharpoonup> int) \<Rightarrow> string option \<Rightarrow> int res" where
  "mismatch_of mismatch pg_name =
     (case pg_name of
        None \<Rightarrow> Inl KeyError
      | Some g \<Rightarrow> (case mismatch g of None \<Rightarrow> Inl KeyError | Some n \<Rightarrow> Inr n))"

text \<open>\<open>match_info.state in [...] and mismatch[pg_name] == 0\<close> reads the counter only if needed.\<close>

definition lazy_mismatch :: "(string \<rightharpoonup> int) \<Rightarrow> string option \<Rightarrow> MatchInfo \<Rightarrow> int res" where
  "lazy_mismatch mismatch pg_name mi =
     (if ok_state (mi_state mi) then mismatch_of mismatch pg_name else Inr 0)"

record pg_data =
  pd_guids :: "(string \<times> int) \<rightharpoonup> string"
  pd_name :: "string option"
  pd_mismatch :: "string \<rightharpoonup> int"

fun check_ranks ::
  "entries \<Rightarrow> entry \<Rightarrow> (string \<rightharpoonup> int set) \<Rightarrow> pg_data \<Rightarrow> int list
   \<Rightarrow> MatchStateRecord \<Rightarrow> MatchStateRecord res" where
  "check_ranks ae cur memberships pd [] m = Inr m"
| "check_ranks ae cur memberships pd (rank # ranks) m =
     rbind (case map_of ae rank of None \<Rightarrow> Inl KeyError | Some es \<Rightarrow> Inr es) (\<lambda>es.
     case find_entry (pd_guids pd) (pd_name pd) (es_collective_seq_id (mr_entry_state m)) rank 0 es of
       None \<Rightarrow> check_ranks ae cur memberships pd ranks m
     | Some (idx, e) \<Rightarrow>
         rbind (match_one_event cur e memberships (pd_name pd)) (\<lambda>mi.
         rbind (lazy_mismatch (pd_mismatch pd) (pd_name pd) mi) (\<lambda>mm.
         check_ranks ae cur memberships pd ranks (record_rank mm rank idx mi m))))"

definition check_current_entry_match ::
  "(int set \<Rightarrow> int list) \<Rightarrow> entries \<Rightarrow> entry \<Rightarrow> (string \<rightharpoonup> int set) \<Rightarrow> pg_data
   \<Rightarrow> MatchStateRecord \<Rightarrow> MatchStateRecord res" where
  "check_current_entry_match iter ae cur memberships pd m =
     check_ranks ae cur memberships pd
       (iter (mr_expected_ranks m \<inter> set (mr_other_ranks m))) m"

section \<open>Error analysis\<close>

definition demote_found :: "MatchStateRecord \<Rightarrow> MatchStateRecord" where
  "demote_found m =
     m\<lparr>mr_candidate_ranks := mr_candidate_ranks m \<union> mr_found_ranks m,
       mr_candidate_idx := mr_candidate_idx m ++ mr_found_idx m,
       mr_found_idx := Map.empty, mr_found_ranks := {}\<rparr>"

definition promote_candidates :: "MatchStateRecord \<Rightarrow> MatchStateRecord" where
  "promote_candidates m =
     m\<lparr>mr_found_ranks := mr_found_ranks m \<union> mr_candidate_ranks m,
       mr_found_idx := mr_found_idx m ++ mr_candidate_idx m,
       mr_candidate_idx := Map.empty, mr_candidate_ranks := {}\<rparr>"

definition bump_mismatch :: "(string \<rightharpoonup> int) \<Rightarrow> string option \<Rightarrow> (string \<rightharpoonup> int) res" where
  "bump_mismatch mismatch pg_name =
     rbind (mismatch_of mismatch pg_name) (\<lambda>n.
       case pg_name of None \<Rightarrow> Inl KeyError | Some g \<Rightarrow> Inr (mismatch(g \<mapsto> n + 1)))"

text \<open>\<open>[current_entry] + [all_entries[rank][found_idx[rank]] for rank in found_ranks]\<close>.\<close>

fun found_entries :: "entries \<Rightarrow> (int \<rightharpoonup> nat) \<Rightarrow> int list \<Rightarrow> entry list res" where
  "found_entries ae idx [] = Inr []"
| "found_entries ae idx (r # rs) =
     rbind (case map_of ae r of None \<Rightarrow> Inl KeyError | Some es \<Rightarrow>
              (case idx r of None \<Rightarrow> Inl KeyError
               | Some k \<Rightarrow> if k < length es then Inr (es ! k) else Inl IndexError)) (\<lambda>e.
     rbind (found_entries ae idx rs) (\<lambda>es. Inr (e # es)))"

definition log_info :: "additional_info" where
  "log_info = \<lparr>ai_missing_ranks = None, ai_total_numel = None, ai_errors = None\<rparr>"

definition with_log :: "MatchStateRecord \<Rightarrow> log_keywords \<Rightarrow> MatchStateRecord res" where
  "with_log m kw =
     rbind (entry_state_log (mr_entry_state m) kw) (\<lambda>es. Inr (m\<lparr>mr_entry_state := es\<rparr>))"

text \<open>Case two: all ranks agree but the sizes of an all-to-all are known only together.\<close>

definition alltoall_analysis ::
  "(int set \<Rightarrow> int list) \<Rightarrow> entries \<Rightarrow> entry \<Rightarrow> int \<Rightarrow> MatchStateRecord \<Rightarrow> (string \<rightharpoonup> int)
   \<Rightarrow> int \<times> int \<Rightarrow> string option \<Rightarrow> (MatchStateRecord \<times> (string \<rightharpoonup> int)) res" where
  "alltoall_analysis iter ae cur first_rank m mismatch version pg_name =
     rbind (found_entries ae (mr_found_idx m) (iter (mr_found_ranks m))) (\<lambda>es.
     case check_size_alltoall (cur # es) of (fail, i, k) \<Rightarrow>
       if fail \<and> \<not> (fst version \<le> 2 \<and> snd version \<le> 3)
       then rbind (bump_mismatch mismatch pg_name) (\<lambda>mm.
            rbind (with_log m (LogInfo (log_info\<lparr>ai_total_numel := Some (i, k)\<rparr>))) (\<lambda>m1.
            let m2 = demote_found m1
            in Inr (m2\<lparr>mr_errors := mr_errors m2
                        @ [(first_rank, match_info SIZE_OR_SYNTAX_MISMATCH None)]\<rparr>, mm)))
       else Inr (promote_candidates m, mismatch))"

definition error_analysis ::
  "(int set \<Rightarrow> int list) \<Rightarrow> entries \<Rightarrow> entry \<Rightarrow> int set \<Rightarrow> int \<Rightarrow> MatchStateRecord \<Rightarrow> (string \<rightharpoonup> int)
   \<Rightarrow> int \<times> int \<Rightarrow> string option \<Rightarrow> (MatchStateRecord \<times> (string \<rightharpoonup> int)) res" where
  "error_analysis iter ae cur dumps_ranks first_rank m mismatch version pg_name =
     (let joined = mr_candidate_ranks m \<union> mr_found_ranks m;
          missing = mr_expected_ranks m - joined
      in if joined \<noteq> mr_expected_ranks m \<and> missing \<subseteq> dumps_ranks
         then rbind (bump_mismatch mismatch pg_name) (\<lambda>mm.
              rbind (with_log m (LogInfo (log_info\<lparr>ai_missing_ranks := Some missing\<rparr>))) (\<lambda>m1.
              Inr (demote_found m1, mm)))
         else if card (mr_candidate_ranks m) = 1 \<and> dumps_ranks = mr_expected_ranks m
         then (if mr_has_undecided_case m
               then alltoall_analysis iter ae cur first_rank m mismatch version pg_name
               else Inr (promote_candidates m, mismatch))
         else if mr_errors m \<noteq> []
         then rbind (bump_mismatch mismatch pg_name) (\<lambda>mm.
              rbind (with_log m LogErrorsKeyword) (\<lambda>m1. Inr (demote_found m1, mm)))
         else (let m1 = demote_found m
               in if mr_expected_ranks m1 - dumps_ranks \<noteq> {}
                  then rbind (bump_mismatch mismatch pg_name) (\<lambda>mm. Inr (m1, mm))
                  else Inr (m1, mismatch)))"

end
