(* ===== verification/Flight_Build.thy ===== *)
theory Flight_Build
  imports Flight_Match
begin

text \<open>
  Building the flight recorder database, \<open>tools/flight_recorder/components/builder.py\<close>, with the
  checks of \<open>utils.py\<close> it calls: versions, missing dumps, alignment of the traces, the group
  tables, the greedy pairing loop, the printing mode.

  \<open>ast.literal_eval\<close> and \<open>hash(frozenset(...))\<close> are arguments: the first yields the list of ranks
  or, for a quoted list, a string that is evaluated once more; the second is the decimal text
  appended to the group name.  The pairing loop may run forever, so it is a
  \<open>partial_function (option)\<close>: \<open>None\<close> is a run that never ends.
\<close>

section \<open>Checks and alignment\<close>

definition check_version :: "(int \<times> string) list \<Rightarrow> string \<Rightarrow> unit res" where
  "check_version version_by_ranks expected =
     (if \<exists>(r, v) \<in> set version_by_ranks. v \<noteq> expected then Inl ValueError else Inr ())"

definition get_version_detail :: "string \<Rightarrow> (int \<times> int) res" where
  "get_version_detail v =
     (case split_on CHR ''.'' v of
        [a, b] \<Rightarrow> rbind (py_int a) (\<lambda>x. rbind (py_int b) (\<lambda>y. Inr (x, y)))
      | _ \<Rightarrow> Inl ValueError)"

definition check_no_missing_dump_files :: "entries \<Rightarrow> Membership list \<Rightarrow> unit res" where
  "check_no_missing_dump_files ae ms =
     (if m_global_rank ` set ms - fst ` set ae \<noteq> {} then Inl ValueError else Inr ())"

definition record_id_of :: "entry \<Rightarrow> int" where
  "record_id_of e = opt_or (e_record_id e) (-1)"

fun max_starting_record_id :: "int \<Rightarrow> entries \<Rightarrow> int res" where
  "max_starting_record_id acc [] = Inr acc"
| "max_starting_record_id acc ((r, []) # ae) = Inl IndexError"
| "max_starting_record_id acc ((r, e # es) # ae) =
     max_starting_record_id (max acc (record_id_of e)) ae"

definition align_trace_from_beginning :: "entries \<Rightarrow> entries res" where
  "align_trace_from_beginning ae =
     rbind (max_starting_record_id 0 ae) (\<lambda>start.
     Inr (map (\<lambda>(r, es). (r, filter (\<lambda>e. record_id_of e \<ge> start) es)) ae))"

section \<open>Groups and memberships\<close>

record pg_info =
  gi_desc :: "string option"
  gi_ranks :: "string option"

datatype rank_literal = RanksList "int list" | RanksText string

type_synonym pg_config = "(int \<times> (string \<times> pg_info) list) list"

record group_tables =
  gt_groups :: "Group list"
  gt_group_of :: "string \<rightharpoonup> Group"
  gt_memberships :: "Membership list"
  gt_members :: "string \<rightharpoonup> int set"
  gt_pg_guids :: "(string \<times> int) \<rightharpoonup> string"

definition empty_tables :: group_tables where
  "empty_tables = \<lparr>gt_groups = [], gt_group_of = Map.empty, gt_memberships = [],
     gt_members = Map.empty, gt_pg_guids = Map.empty\<rparr>"

record literal_env =
  le_eval :: "string \<Rightarrow> rank_literal res"
  le_eval_text :: "string \<Rightarrow> int list res"
  le_hash :: "rank_literal \<Rightarrow> string"

definition register_group ::
  "string \<Rightarrow> string \<Rightarrow> int list \<Rightarrow> group_tables \<Rightarrow> group_tables res" where
  "register_group guid desc ranks t =
     (case gt_group_of t guid of
        None \<Rightarrow>
          (let g = \<lparr>g_id = guid, g_desc = desc, g_size = length ranks\<rparr>
           in Inr (t\<lparr>gt_groups := gt_groups t @ [g],
                     gt_memberships := gt_memberships t
                       @ map (\<lambda>r. \<lparr>m_group_id = guid, m_global_rank = r\<rparr>) ranks,
                     gt_group_of := (gt_group_of t)(guid \<mapsto> g),
                     gt_members := (gt_members t)(guid \<mapsto> set ranks)\<rparr>))
      | Some g \<Rightarrow>
          (if g_desc g \<noteq> desc then Inl ValueError
           else case gt_members t guid of
                  None \<Rightarrow> Inl KeyError
                | Some ms \<Rightarrow> (if ms \<noteq> set ranks then Inl ValueError else Inr t)))"

definition add_pg ::
  "literal_env \<Rightarrow> int \<Rightarrow> string \<times> pg_info \<Rightarrow> group_tables \<Rightarrow> group_tables res" where
  "add_pg le rank pg t =
     (case pg of (uid, info) \<Rightarrow>
        rbind (le_eval le (opt_or (gi_ranks info) ''[]'')) (\<lambda>lit.
        let guid = uid @ le_hash le lit;
            t1 = t\<lparr>gt_pg_guids := (gt_pg_guids t)((uid, rank) \<mapsto> guid)\<rparr>
        in rbind (case lit of RanksList rs \<Rightarrow> Inr rs | RanksText s \<Rightarrow> le_eval_text le s) (\<lambda>ranks.
           register_group guid (opt_or (gi_desc info) []) ranks t1)))"

fun add_pgs :: "literal_env \<Rightarrow> int \<Rightarrow> (string \<times> pg_info) list \<Rightarrow> group_tables \<Rightarrow> group_tables res" where
  "add_pgs le rank [] t = Inr t"
| "add_pgs le rank (pg # pgs) t = rbind (add_pg le rank pg t) (add_pgs le rank pgs)"

fun add_ranks :: "literal_env \<Rightarrow> pg_config \<Rightarrow> group_tables \<Rightarrow> group_tables res" where
  "add_ranks le [] t = Inr t"
| "add_ranks le ((rank, pgs) # cfg) t = rbind (add_pgs le rank pgs t) (add_ranks le cfg)"

definition build_groups_memberships :: "literal_env \<Rightarrow> pg_config \<Rightarrow> group_tables res" where
  "build_groups_memberships le cfg = add_ranks le cfg empty_tables"

section \<open>Pairing\<close>

definition MISMATCH_TAIL :: int where "MISMATCH_TAIL = 10"

record build_state =
  bs_entries :: entries
  bs_mismatch :: "string \<rightharpoonup> int"
  bs_collectives :: "Collective list"
  bs_calls :: "HCCLCall list"

record build_env =
  be_iter :: "int set \<Rightarrow> int list"
  be_members :: "string \<rightharpoonup> int set"
  be_pg_guids :: "(string \<times> int) \<rightharpoonup> string"
  be_version :: string
  be_dumps :: "int set"

fun idx_pairs :: "int \<Rightarrow> (int \<rightharpoonup> nat) \<Rightarrow> int list \<Rightarrow> (int \<times> nat) list res" where
  "idx_pairs first_rank idx [] = Inr []"
| "idx_pairs first_rank idx (r # rs) =
     rbind (if r = first_rank then Inr 0
            else case idx r of None \<Rightarrow> Inl KeyError | Some k \<Rightarrow> Inr k) (\<lambda>k.
     rbind (idx_pairs first_rank idx rs) (\<lambda>ps. Inr ((r, k) # ps)))"

text \<open>The rows appended for the analysed entry, and the entries removed from the traces.\<close>

definition emit ::
  "build_env \<Rightarrow> int \<Rightarrow> MatchStateRecord \<Rightarrow> string option \<Rightarrow> (string \<rightharpoonup> int) \<Rightarrow> build_state
   \<Rightarrow> build_state res" where
  "emit env first_rank m pg_name mm st =
     (let cid = length (bs_collectives st); hid = length (bs_calls st); es = mr_entry_state m
      in rbind (if mr_found_ranks m = mr_expected_ranks m
                then rbind (mismatch_of mm pg_name) (\<lambda>n. Inr (n = 0)) else Inr False) (\<lambda>matched.
         if matched
         then rbind (to_collective es cid None None None) (\<lambda>c.
              rbind (idx_pairs first_rank (mr_found_idx m) (be_iter env (mr_found_ranks m))) (\<lambda>ps.
              rbind (to_hccl_call es (bs_entries st) ps hid (Some cid)) (\<lambda>(ae, calls).
              Inr (st\<lparr>bs_entries := ae, bs_mismatch := mm,
                      bs_collectives := bs_collectives st @ [c],
                      bs_calls := bs_calls st @ calls\<rparr>))))
         else rbind (idx_pairs first_rank (mr_candidate_idx m)
                       (be_iter env (mr_candidate_ranks m))) (\<lambda>ps.
              rbind (to_collective es cid (Some (mr_errors m)) (Some (map_of ps))
                       (Some (bs_entries st))) (\<lambda>c.
              rbind (to_hccl_call es (bs_entries st) ps hid None) (\<lambda>(ae, calls).
              Inr (st\<lparr>bs_entries := ae, bs_mismatch := mm,
                      bs_collectives := bs_collectives st @ [c],
                      bs_calls := bs_calls st @ calls\<rparr>))))))"

text \<open>One entry of the first rank: group, classification, analysis, rows.\<close>

definition analyse_entry ::
  "build_env \<Rightarrow> int \<Rightarrow> int list \<Rightarrow> entry \<Rightarrow> build_state \<Rightarrow> (bool \<times> build_state) res" where
  "analyse_entry env first_rank others cur st =
     (let pg = (case e_process_group cur of
                  None \<Rightarrow> None | Some (n, _) \<Rightarrow> be_pg_guids env (n, first_rank));
          expected = (case pg of None \<Rightarrow> {} | Some g \<Rightarrow> opt_or (be_members env g) {});
          m0 = match_record_init expected others (entry_state_init cur expected) first_rank
      in rbind (check_current_entry_match (be_iter env) (bs_entries st) cur (be_members env)
                  \<lparr>pd_guids = be_pg_guids env, pd_name = pg, pd_mismatch = bs_mismatch st\<rparr> m0) (\<lambda>m1.
         rbind (get_version_detail (be_version env)) (\<lambda>v.
         rbind (error_analysis (be_iter env) (bs_entries st) cur (be_dumps env) first_rank m1
                  (bs_mismatch st) v pg) (\<lambda>(m2, mm).
         rbind (emit env first_rank m2 pg mm st) (\<lambda>st'.
         rbind (mismatch_of mm pg) (\<lambda>n. Inr (n > MISMATCH_TAIL, st')))))))"

text \<open>One turn of the loop: \<open>True\<close> in the result is the \<open>break\<close>.\<close>

definition build_step :: "build_env \<Rightarrow> build_state \<Rightarrow> (bool \<times> build_state) res" where
  "build_step env st =
     (case bs_entries st of
        [] \<Rightarrow> Inr (True, st)
      | (first_rank, []) # rest \<Rightarrow> Inr (False, st\<lparr>bs_entries := rest\<rparr>)
      | (first_rank, cur # es) # rest \<Rightarrow>
          (if empty_entry cur then Inr (False, st)
           else analyse_entry env first_rank (map fst rest) cur st))"

partial_function (option) build_loop :: "build_env \<Rightarrow> build_state \<Rightarrow> build_state res option" where
  "build_loop env st =
     (if bs_entries st = [] then Some (Inr st)
      else case build_step env st of
             Inl e \<Rightarrow> Some (Inl e)
           | Inr (stop, st') \<Rightarrow> (if stop then Some (Inr st') else build_loop env st'))"

text \<open>What the loop reads only, and what it starts from: a zero counter for every group.\<close>

definition pairing_env ::
  "(int set \<Rightarrow> int list) \<Rightarrow> entries \<Rightarrow> group_tables \<Rightarrow> string \<Rightarrow> build_env" where
  "pairing_env iter ae t version =
     \<lparr>be_iter = iter, be_members = gt_members t, be_pg_guids = gt_pg_guids t,
      be_version = version, be_dumps = fst ` set ae\<rparr>"

definition pairing_start :: "entries \<Rightarrow> group_tables \<Rightarrow> build_state" where
  "pairing_start ae t =
     \<lparr>bs_entries = ae, bs_mismatch = map_of (map (\<lambda>g. (g_id g, 0)) (gt_groups t)),
      bs_collectives = [], bs_calls = []\<rparr>"

definition build_collectives ::
  "(int set \<Rightarrow> int list) \<Rightarrow> entries \<Rightarrow> group_tables \<Rightarrow> string
   \<Rightarrow> (Collective list \<times> HCCLCall list) res option" where
  "build_collectives iter ae t version =
     map_option (\<lambda>r. rbind r (\<lambda>st. Inr (bs_collectives st, bs_calls st)))
       (build_loop (pairing_env iter ae t version) (pairing_start ae t))"

section \<open>Printing mode\<close>

record fr_args =
  fa_selected_ranks :: "int list option"
  fa_allow_incomplete_ranks :: bool
  fa_pg_filters :: "string list option"
  fa_just_print_entries :: bool
  fa_verbose :: bool

datatype cell = Blank | Shown Op

definition print_cell ::
  "(string \<rightharpoonup> int set) \<Rightarrow> ((string \<times> int) \<rightharpoonup> string) \<Rightarrow> fr_args \<Rightarrow> int \<Rightarrow> entry \<Rightarrow> cell res" where
  "print_cell members guids args rank e =
     (let shown = (case fa_pg_filters args of
                     None \<Rightarrow> True
                   | Some fs \<Rightarrow> (case e_process_group e of
                                  None \<Rightarrow> False | Some (n, d) \<Rightarrow> d \<in> set fs \<or> n \<in> set fs))
      in if shown
         then rbind (op_init e members
                (case e_process_group e of None \<Rightarrow> None | Some (n, _) \<Rightarrow> guids (n, rank)))
                (\<lambda>p. Inr (Shown p))
         else Inr Blank)"

text \<open>One row: the first remaining entry of every selected rank, in ascending rank order.\<close>

fun print_row ::
  "(string \<rightharpoonup> int set) \<Rightarrow> ((string \<times> int) \<rightharpoonup> string) \<Rightarrow> fr_args \<Rightarrow> entries
   \<Rightarrow> (entries \<times> cell list \<times> bool) res" where
  "print_row members guids args [] = Inr ([], [], False)"
| "print_row members guids args ((rank, es) # ae) =
     (if fa_selected_ranks args \<noteq> None \<and> rank \<notin> set (opt_or (fa_selected_ranks args) [])
      then rbind (print_row members guids args ae) (\<lambda>(ae', row, prog). Inr ((rank, es) # ae', row, prog))
      else case es of
             [] \<Rightarrow> rbind (print_row members guids args ae) (\<lambda>(ae', row, prog).
                    Inr ((rank, []) # ae', Blank # row, prog))
           | e # es' \<Rightarrow>
               rbind (print_cell members guids args rank e) (\<lambda>c.
               rbind (print_row members guids args ae) (\<lambda>(ae', row, prog).
               Inr ((rank, es') # ae', c # row, True))))"

definition entry_count :: "entries \<Rightarrow> nat" where
  "entry_count ae = sum_list (map (length \<circ> snd) ae)"

lemma print_row_count:
  "print_row members guids args ae = Inr (ae', row, prog) \<Longrightarrow>
     entry_count ae' \<le> entry_count ae \<and> (prog \<longrightarrow> entry_count ae' < entry_count ae)"
proof (induction ae arbitrary: ae' row prog)
  case (Cons p ae)
  obtain rank es where p: "p = (rank, es)" by (cases p)
  show ?case
  proof (cases "fa_selected_ranks args \<noteq> None \<and> rank \<notin> set (opt_or (fa_selected_ranks args) [])")
    case True
    with Cons.prems obtain ae1 where "print_row members guids args ae = Inr (ae1, row, prog)"
        "ae' = (rank, es) # ae1"
      by (auto simp: p rbind_eq_Inr)
    with Cons.IH show ?thesis by (fastforce simp: p entry_count_def)
  next
    case False
    with Cons.prems obtain ae1 row1 prog1 where
      "print_row members guids args ae = Inr (ae1, row1, prog1)"
      "ae' = (rank, tl es) # ae1" "prog \<longrightarrow> es \<noteq> [] \<or> prog1"
      by (cases es) (auto simp: p rbind_eq_Inr split: if_splits)
    with Cons.IH [of ae1 row1 prog1] show ?thesis
      by (cases es) (auto simp: p entry_count_def)
  qed
qed (simp add: entry_count_def)

function print_rows ::
  "(string \<rightharpoonup> int set) \<Rightarrow> ((string \<times> int) \<rightharpoonup> string) \<Rightarrow> fr_args \<Rightarrow> entries \<Rightarrow> cell list list res" where
  "print_rows members guids args ae =
     (case print_row members guids args ae of
        Inl e \<Rightarrow> Inl e
      | Inr (ae', row, prog) \<Rightarrow>
          (if prog then rbind (print_rows members guids args ae') (\<lambda>rows. Inr (row # rows))
           else Inr []))"
  by pat_completeness auto
termination
  by (relation "measure (\<lambda>(_, _, _, ae). entry_count ae)") (auto dest: print_row_count)

declare print_rows.simps [simp del]

definition just_print_entries ::
  "entries \<Rightarrow> group_tables \<Rightarrow> fr_args \<Rightarrow> (int list \<times> cell list list) res" where
  "just_print_entries ae t args =
     (let ranks = filter (\<lambda>r. fa_selected_ranks args = None
                            \<or> r \<in> set (opt_or (fa_selected_ranks args) [])) (sort (map fst ae))
      in rbind (print_rows (gt_members t) (gt_pg_guids t) args (sort_key fst ae)) (\<lambda>rows.
         Inr (ranks, rows)))"

section \<open>The database\<close>

record dump =
  d_entries :: "entry list option"
  d_version :: "string option"
  d_pg_config :: "(string \<times> pg_info) list option"

record Database =
  db_groups :: "Group list"
  db_memberships :: "Membership list"
  db_collectives :: "Collective list"
  db_hcclcalls :: "HCCLCall list"

definition build_db ::
  "(int set \<Rightarrow> int list) \<Rightarrow> literal_env \<Rightarrow> (int \<times> dump) list \<Rightarrow> fr_args \<Rightarrow> string
   \<Rightarrow> Database option res option" where
  "build_db iter le details args version =
     (let entries = map (\<lambda>(r, d). (r, opt_or (d_entries d) [])) details;
          versions = map (\<lambda>(r, d). (r, opt_or (d_version d) version)) details;
          pg_config = map (\<lambda>(r, d). (r, opt_or (d_pg_config d) [])) details;
          prep = rbind (check_version versions version) (\<lambda>_.
                 rbind (align_trace_from_beginning entries) (\<lambda>ae.
                 rbind (build_groups_memberships le pg_config) (\<lambda>t.
                 rbind (if fa_allow_incomplete_ranks args then Inr ()
                        else check_no_missing_dump_files ae (gt_memberships t)) (\<lambda>_.
                 Inr (ae, t)))))
      in case prep of
           Inl e \<Rightarrow> Some (Inl e)
         | Inr (ae, t) \<Rightarrow>
             (if fa_just_print_entries args
              then Some (rbind (just_print_entries ae t args) (\<lambda>_. Inr None))
              else map_option (\<lambda>r. rbind r (\<lambda>(cs, calls). Inr (Some
                     \<lparr>db_groups = gt_groups t, db_memberships = gt_memberships t,
                      db_collectives = cs, db_hcclcalls = calls\<rparr>)))
                     (build_collectives iter ae t version)))"

end
