(* ===== verification/Flight_Match_Facts.thy ===== *)
theory Flight_Match_Facts
  imports Flight_Match
begin

text \<open>
  What operation matching decides.  The first section is about \<open>Op.match\<close> on arbitrary
  operations, the second about operations as \<open>Op.__init__\<close> builds them, the third about one pass
  over the ranks: its result does not depend on the order in which the set of ranks is iterated.
\<close>

section \<open>Matching arbitrary operations\<close>

lemma not_p2p_collective: "t \<in> set COLLECTIVES \<Longrightarrow> t \<noteq> ''send'' \<and> t \<noteq> ''recv''"
  by (auto simp: COLLECTIVES_def)

lemma numel_check_state:
  "numel_check big small n mi mo = Inr (Some x) \<Longrightarrow> mi_state x = SIZE_OR_SYNTAX_MISMATCH"
  by (auto simp: numel_check_def rbind_eq_Inr match_info_def split: if_splits)

lemma sizes_match_state:
  "collective_sizes_match a b = Inr mi \<Longrightarrow>
     mi_state mi = FULLY_MATCHED \<or> mi_state mi = SIZE_OR_SYNTAX_MISMATCH"
  by (auto simp: collective_sizes_match_def rbind_eq_Inr match_info_def Let_def
      split: if_splits option.splits dest: numel_check_state)

lemma p2p_match_state:
  "p2p_match a b w x y = Inr mi \<Longrightarrow>
     mi_state mi = FULLY_MATCHED \<or> mi_state mi = SIZE_OR_SYNTAX_MISMATCH"
  by (auto simp: p2p_match_def rbind_eq_Inr match_info_def split: if_splits)

text \<open>Only an all-to-all is left undecided, and a matching all-to-all always is.\<close>

lemma undecided_type:
  assumes "op_match a b = Inr mi"
  shows "mi_state mi = UNDECIDED \<Longrightarrow> op_type a = ''all_to_all''"
    and "op_type a = ''all_to_all'' \<Longrightarrow> mi_state mi \<noteq> FULLY_MATCHED"
proof -
  show "mi_state mi = UNDECIDED \<Longrightarrow> op_type a = ''all_to_all''"
    using assms
    by (auto simp: op_match_def Let_def rbind_eq_Inr match_info_def
        split: if_splits dest: sizes_match_state p2p_match_state)
  show "op_type a = ''all_to_all'' \<Longrightarrow> mi_state mi \<noteq> FULLY_MATCHED"
    using assms
    by (auto simp: op_match_def Let_def rbind_eq_Inr match_info_def COLLECTIVES_def split: if_splits)
qed

text \<open>A send matches a receive exactly when the receive matches the send.\<close>

lemma p2p_symmetric:
  assumes "op_type a = ''send''" and "op_type b = ''recv''"
  shows "op_match a b = op_match b a"
    and "op_match a b = Inr (match_info FULLY_MATCHED None) \<longleftrightarrow>
           op_src a = op_src b \<and> op_dst a = op_dst b \<and> op_input_sizes a = op_output_sizes b"
  using assms
  by (auto simp: op_match_def p2p_match_def op_src_of_def op_dst_of_def P2P_def match_info_def)

text \<open>Complete description of a match of the collectives without an element count rule.\<close>

definition plain_collective :: "string \<Rightarrow> bool" where
  "plain_collective t \<longleftrightarrow> t \<in> {''broadcast'', ''_broadcast_oop'', ''reduce'', ''_reduce_oop'',
     ''all_reduce_barrier'', ''_all_gather_base'', ''all_reduce'', ''allreduce_coalesced'',
     ''ALLGATHER_coalesced'', ''REDUCE_SCATTER_coalesced''}"

lemma plain_collective_simps:
  "plain_collective t \<Longrightarrow> t \<in> set COLLECTIVES \<and> t \<noteq> ''all_to_all'' \<and> t \<noteq> ''scatter''
     \<and> t \<noteq> ''gather'' \<and> t \<notin> {''all_gather'', ''all_gather_base'', ''all_gather_into_tensor_coalesced''}
     \<and> t \<notin> {''reduce_scatter'', ''_reduce_scatter_base'', ''reduce_scatter_tensor_coalesced''}"
  unfolding plain_collective_def COLLECTIVES_def by fastforce

lemma plain_sizes_match:
  assumes "plain_collective (op_type a)"
  shows "collective_sizes_match a b = Inr (match_info FULLY_MATCHED None) \<longleftrightarrow>
           op_input_sizes a = op_input_sizes b \<and> op_output_sizes a = op_output_sizes b
           \<and> (op_type a \<in> {''all_reduce'', ''allreduce_coalesced''} \<longrightarrow>
                op_input_sizes a = op_output_sizes b)"
  using plain_collective_simps [OF assms]
  by (auto simp: collective_sizes_match_def match_info_def Let_def)

lemma plain_match_iff:
  assumes "plain_collective (op_type a)"
    and "has_different_dtypes_and_non_empty_sizes a a = Inr False"
  shows "op_match a b = Inr (match_info FULLY_MATCHED None) \<longleftrightarrow>
           op_type a = op_type b \<and> op_state a = op_state b
           \<and> op_input_sizes a = op_input_sizes b \<and> op_output_sizes a = op_output_sizes b
           \<and> (op_type a \<in> {''all_reduce'', ''allreduce_coalesced''} \<longrightarrow>
                op_input_sizes a = op_output_sizes b)"
  using plain_collective_simps [OF assms(1)] not_p2p_collective [of "op_type a"]
    plain_sizes_match [OF assms(1), of b] assms(2)
  by (auto simp: op_match_def Let_def match_info_def)

section \<open>Operations built from events\<close>

lemma op_init_fields:
  assumes "op_init e mem pg = Inr p"
  shows "op_input_sizes p = None \<and> op_output_sizes p = None \<and> op_src p = -1 \<and> op_dst p = -1
       \<and> op_state p = e_state e \<and> op_input_dtypes p = e_input_dtypes e
       \<and> op_output_dtypes p = e_output_dtypes e
       \<and> op_type p = hd (split_on CHR '':'' (op_profiling_name p))"
  using assms
  by (auto simp: op_init_def builtin_type_is_def rbind_eq_Inr Let_def
      split: option.splits list.splits)

definition counted_collective :: "string \<Rightarrow> bool" where
  "counted_collective t \<longleftrightarrow> t \<in> {''all_gather'', ''all_gather_into_tensor_coalesced'',
     ''reduce_scatter'', ''_reduce_scatter_base'', ''reduce_scatter_tensor_coalesced''}"

lemma counted_collective_simps:
  "counted_collective t \<Longrightarrow> t \<in> set COLLECTIVES \<and> t \<noteq> ''all_to_all'' \<and> t \<noteq> ''send'' \<and> t \<noteq> ''recv''"
  unfolding counted_collective_def COLLECTIVES_def by fastforce

lemma counted_sizes_raise:
  assumes "counted_collective (op_type a)" and "op_input_sizes a = None" "op_output_sizes a = None"
    and "op_input_sizes b = None" "op_output_sizes b = None"
  shows "collective_sizes_match a b = Inl TypeError"
  using assms by (auto simp: collective_sizes_match_def counted_collective_def numel_check_def size0_def)

lemma match_one_event_ok:
  assumes "match_one_event ea eb mem pg = Inr mi"
  obtains a b where "op_init ea mem pg = Inr a" and "op_init eb mem pg = Inr b"
    and "op_match a b = Inr mi"
  using assms by (auto simp: match_one_event_def rbind_eq_Inr)

lemma counted_never_matches:
  assumes "match_one_event ea eb mem pg = Inr mi" and "op_init ea mem pg = Inr a"
    and "counted_collective (op_type a)"
  shows "mi_state mi = COLLECTIVE_TYPE_MISMATCH \<or> mi_state mi = COLLECTIVE_STATE_MISMATCH"
proof -
  obtain b where b: "op_init eb mem pg = Inr b" and m: "op_match a b = Inr mi"
    using match_one_event_ok [OF assms(1)] assms(2) by auto
  have "differ_nonempty (op_input_dtypes a) (op_output_dtypes a) (op_input_sizes a)
          (op_output_sizes a) \<noteq> Inr True"
    using op_init_fields [OF assms(2)]
    by (auto simp: differ_nonempty_def size0_def rbind_eq_Inr)
  then have nd: "has_different_dtypes_and_non_empty_sizes a a \<noteq> Inr True"
    by (auto simp: has_different_dtypes_and_non_empty_sizes_def differ_nonempty_def rbind_eq_Inr
        size0_def split: if_splits)
  have "collective_sizes_match a b = Inl TypeError"
    using counted_sizes_raise assms(3) op_init_fields [OF assms(2)] op_init_fields [OF b] by blast
  then show ?thesis
    using m nd counted_collective_simps [OF assms(3)]
    by (auto simp: op_match_def Let_def match_info_def rbind_eq_Inr split: if_splits)
qed

text \<open>An operation whose type is none the matcher knows matches everything.\<close>

lemma unknown_type_matches:
  assumes "op_type a \<notin> {''send'', ''recv'', ''coalesced''}" and "op_type a \<notin> set COLLECTIVES"
  shows "op_match a b = Inr (match_info FULLY_MATCHED None)"
proof -
  have "op_type a \<noteq> ''ALLGATHER_coalesced''" "op_type a \<noteq> ''REDUCE_SCATTER_coalesced''"
    using assms(2) by (auto simp: COLLECTIVES_def)
  then show ?thesis using assms by (auto simp: op_match_def Let_def)
qed

section \<open>One pass over the ranks\<close>

text \<open>The outcome for a rank: the index found, the match, and the counter consulted.\<close>

definition rank_outcome ::
  "entries \<Rightarrow> entry \<Rightarrow> (string \<rightharpoonup> int set) \<Rightarrow> pg_data \<Rightarrow> int \<Rightarrow> int
   \<Rightarrow> (nat \<times> MatchInfo \<times> int) option res" where
  "rank_outcome ae cur mem pd seq rank =
     rbind (case map_of ae rank of None \<Rightarrow> Inl KeyError | Some es \<Rightarrow> Inr es) (\<lambda>es.
     case find_entry (pd_guids pd) (pd_name pd) seq rank 0 es of
       None \<Rightarrow> Inr None
     | Some (idx, e) \<Rightarrow>
         rbind (match_one_event cur e mem (pd_name pd)) (\<lambda>mi.
         rbind (lazy_mismatch (pd_mismatch pd) (pd_name pd) mi) (\<lambda>mm. Inr (Some (idx, mi, mm)))))"

lemma record_rank_frame [simp]:
  "mr_entry_state (record_rank mm r i mi m) = mr_entry_state m"
  "mr_expected_ranks (record_rank mm r i mi m) = mr_expected_ranks m"
  "mr_other_ranks (record_rank mm r i mi m) = mr_other_ranks m"
  by (simp_all add: record_rank_def Let_def)

lemma check_ranks_Cons:
  "check_ranks ae cur mem pd (r # rs) m =
     rbind (rank_outcome ae cur mem pd (es_collective_seq_id (mr_entry_state m)) r) (\<lambda>x.
       check_ranks ae cur mem pd rs
         (case x of None \<Rightarrow> m | Some (i, mi, mm) \<Rightarrow> record_rank mm r i mi m))"
  by (auto simp: rank_outcome_def rbind_assoc split: option.splits sum.splits
      simp: rbind_def)

definition good_outcome :: "(nat \<times> MatchInfo \<times> int) option res \<Rightarrow> bool" where
  "good_outcome x = (case x of Inr (Some (i, mi, mm)) \<Rightarrow> ok_state (mi_state mi) \<and> mm = 0 | _ \<Rightarrow> False)"

definition bad_outcome :: "(nat \<times> MatchInfo \<times> int) option res \<Rightarrow> bool" where
  "bad_outcome x = (case x of Inr (Some (i, mi, mm)) \<Rightarrow> \<not> (ok_state (mi_state mi) \<and> mm = 0) | _ \<Rightarrow> False)"

definition outcome_idx :: "(nat \<times> MatchInfo \<times> int) option res \<Rightarrow> nat" where
  "outcome_idx x = (case x of Inr (Some (i, mi, mm)) \<Rightarrow> i | _ \<Rightarrow> 0)"

definition outcome_error :: "int \<Rightarrow> (nat \<times> MatchInfo \<times> int) option res \<Rightarrow> (int \<times> MatchInfo) list" where
  "outcome_error r x =
     (case x of Inr (Some (i, mi, mm)) \<Rightarrow> if ok_state (mi_state mi) then [] else [(r, mi)] | _ \<Rightarrow> [])"

definition outcome_undecided :: "(nat \<times> MatchInfo \<times> int) option res \<Rightarrow> bool" where
  "outcome_undecided x = (case x of Inr (Some (i, mi, mm)) \<Rightarrow> mi_state mi = UNDECIDED | _ \<Rightarrow> False)"

text \<open>The whole pass in terms of the outcomes of the ranks alone.\<close>

lemma check_ranks_spec:
  assumes "check_ranks ae cur mem pd rs m = Inr m'" and "distinct rs"
  defines "out \<equiv> rank_outcome ae cur mem pd (es_collective_seq_id (mr_entry_state m))"
  shows "mr_found_ranks m' = mr_found_ranks m \<union> {r \<in> set rs. good_outcome (out r)}
       \<and> mr_candidate_ranks m' = mr_candidate_ranks m \<union> {r \<in> set rs. bad_outcome (out r)}
       \<and> mr_found_idx m' = (\<lambda>r. if r \<in> set rs \<and> good_outcome (out r)
                                then Some (outcome_idx (out r)) else mr_found_idx m r)
       \<and> mr_candidate_idx m' = (\<lambda>r. if r \<in> set rs \<and> bad_outcome (out r)
                                    then Some (outcome_idx (out r)) else mr_candidate_idx m r)
       \<and> mr_errors m' = mr_errors m @ concat (map (\<lambda>r. outcome_error r (out r)) rs)
       \<and> mr_entry_state m' = mr_entry_state m \<and> mr_expected_ranks m' = mr_expected_ranks m
       \<and> (\<forall>r \<in> set rs. is_ok (out r))"
  using assms(1,2) unfolding out_def
proof (induction rs arbitrary: m)
  case Nil
  then show ?case by simp
next
  case (Cons r rs)
  let ?o = "rank_outcome ae cur mem pd (es_collective_seq_id (mr_entry_state m))"
  from Cons.prems(1) obtain x where x: "?o r = Inr x" and
    rest: "check_ranks ae cur mem pd rs
             (case x of None \<Rightarrow> m | Some (i, mi, mm) \<Rightarrow> record_rank mm r i mi m) = Inr m'"
    unfolding check_ranks_Cons by (auto simp: rbind_eq_Inr)
  show ?case
  proof (cases x)
    case None
    then have "\<not> good_outcome (?o r)" "\<not> bad_outcome (?o r)" "outcome_error r (?o r) = []"
      using x by (auto simp: good_outcome_def bad_outcome_def outcome_error_def)
    moreover have "check_ranks ae cur mem pd rs m = Inr m'" "distinct rs"
      using rest None Cons.prems(2) by auto
    ultimately show ?thesis using Cons.IH [of m] x by (auto simp: fun_eq_iff)
  next
    case (Some y)
    obtain i mi mm where y: "y = (i, mi, mm)" by (cases y)
    let ?m = "record_rank mm r i mi m"
    have c: "check_ranks ae cur mem pd rs ?m = Inr m'" using rest Some y by simp
    have r: "r \<notin> set rs" "distinct rs" using Cons.prems(2) by auto
    note IH = Cons.IH [OF c r(2), unfolded record_rank_frame]
    show ?thesis
    proof (cases "ok_state (mi_state mi) \<and> mm = 0")
      case True
      then have m: "?m = m\<lparr>mr_found_ranks := insert r (mr_found_ranks m),
             mr_found_idx := (mr_found_idx m)(r \<mapsto> i),
             mr_has_undecided_case := (mi_state mi = UNDECIDED)\<rparr>"
        by (simp add: record_rank_def)
      have "good_outcome (?o r)" "\<not> bad_outcome (?o r)" "outcome_idx (?o r) = i"
          "outcome_error r (?o r) = []"
        using x Some y True
        by (auto simp: good_outcome_def bad_outcome_def outcome_idx_def outcome_error_def)
      then show ?thesis using IH r x by (auto simp: m fun_eq_iff)
    next
      case False
      then have m: "mr_found_ranks ?m = mr_found_ranks m" "mr_found_idx ?m = mr_found_idx m"
          "mr_candidate_ranks ?m = insert r (mr_candidate_ranks m)"
          "mr_candidate_idx ?m = (mr_candidate_idx m)(r \<mapsto> i)"
          "mr_errors ?m = mr_errors m @ outcome_error r (?o r)"
        using x Some y by (auto simp: record_rank_def Let_def outcome_error_def)
      have "\<not> good_outcome (?o r)" "bad_outcome (?o r)" "outcome_idx (?o r) = i"
        using x Some y False
        by (auto simp: good_outcome_def bad_outcome_def outcome_idx_def)
      then show ?thesis using IH r x by (auto simp: m fun_eq_iff)
    qed
  qed
qed

text \<open>Every rank that is found has the same verdict on being undecided.\<close>

lemma good_outcome_undecided:
  assumes "rank_outcome ae cur mem pd seq r = Inr (Some (i, mi, mm))"
    and "ok_state (mi_state mi)"
  shows "mi_state mi = UNDECIDED \<longleftrightarrow>
           (\<exists>a. op_init cur mem (pd_name pd) = Inr a \<and> op_type a = ''all_to_all'')"
proof -
  from assms(1) obtain e where "match_one_event cur e mem (pd_name pd) = Inr mi"
    by (auto simp: rank_outcome_def rbind_eq_Inr split: option.splits)
  then obtain a b where a: "op_init cur mem (pd_name pd) = Inr a" and m: "op_match a b = Inr mi"
    by (rule match_one_event_ok)
  show ?thesis
    using undecided_type [OF m] assms(2) a by (auto simp: ok_state_def)
qed

lemma check_ranks_undecided:
  assumes "check_ranks ae cur mem pd rs m = Inr m'"
  defines "out \<equiv> rank_outcome ae cur mem pd (es_collective_seq_id (mr_entry_state m))"
  shows "mr_has_undecided_case m' =
           (if \<exists>r \<in> set rs. good_outcome (out r)
            then \<exists>a. op_init cur mem (pd_name pd) = Inr a \<and> op_type a = ''all_to_all''
            else mr_has_undecided_case m)"
  using assms(1) unfolding out_def
proof (induction rs arbitrary: m)
  case Nil
  then show ?case by simp
next
  case (Cons r rs)
  let ?o = "rank_outcome ae cur mem pd (es_collective_seq_id (mr_entry_state m))"
  from Cons.prems(1) obtain x where x: "?o r = Inr x" and
    rest: "check_ranks ae cur mem pd rs
             (case x of None \<Rightarrow> m | Some (i, mi, mm) \<Rightarrow> record_rank mm r i mi m) = Inr m'"
    unfolding check_ranks_Cons by (auto simp: rbind_eq_Inr)
  show ?case
  proof (cases x)
    case None
    then show ?thesis using Cons.IH rest x by (auto simp: good_outcome_def)
  next
    case (Some y)
    obtain i mi mm where y: "y = (i, mi, mm)" by (cases y)
    let ?m = "record_rank mm r i mi m"
    have c: "check_ranks ae cur mem pd rs ?m = Inr m'" using rest Some y by simp
    note IH = Cons.IH [OF c, unfolded record_rank_frame]
    show ?thesis
    proof (cases "ok_state (mi_state mi) \<and> mm = 0")
      case True
      then have g: "good_outcome (?o r)" using x Some y by (simp add: good_outcome_def)
      have "mi_state mi = UNDECIDED \<longleftrightarrow>
              (\<exists>a. op_init cur mem (pd_name pd) = Inr a \<and> op_type a = ''all_to_all'')"
        using good_outcome_undecided [of ae cur mem pd _ r i mi mm] x Some y True by blast
      then have "mr_has_undecided_case ?m \<longleftrightarrow>
              (\<exists>a. op_init cur mem (pd_name pd) = Inr a \<and> op_type a = ''all_to_all'')"
        using True by (simp add: record_rank_def)
      then show ?thesis using IH g by auto
    next
      case False
      then have "\<not> good_outcome (?o r)" "mr_has_undecided_case ?m = mr_has_undecided_case m"
        using x Some y by (auto simp: good_outcome_def record_rank_def Let_def)
      then show ?thesis using IH by auto
    qed
  qed
qed

text \<open>
  The pass returns exactly when the outcome of every rank is there, whatever the order: the outcome of
  a rank depends on the rank alone.
\<close>

lemma check_ranks_is_ok:
  "is_ok (check_ranks ae cur mem pd rs m) \<longleftrightarrow>
     (\<forall>r \<in> set rs. is_ok (rank_outcome ae cur mem pd (es_collective_seq_id (mr_entry_state m)) r))"
proof (induction rs arbitrary: m)
  case Nil
  then show ?case by (simp add: is_ok_def)
next
  case (Cons r rs)
  show ?case
  proof (cases "rank_outcome ae cur mem pd (es_collective_seq_id (mr_entry_state m)) r")
    case (Inl e)
    then show ?thesis unfolding check_ranks_Cons by (simp add: rbind_def is_ok_def)
  next
    case (Inr x)
    then show ?thesis
      using Cons.IH unfolding check_ranks_Cons
      by (auto simp: rbind_def is_ok_def record_rank_frame split: option.splits)
  qed
qed

text \<open>Two iteration orders that return agree, up to the order of the errors.\<close>

definition same_classification :: "MatchStateRecord \<Rightarrow> MatchStateRecord \<Rightarrow> bool" where
  "same_classification m m' \<longleftrightarrow>
     mr_found_ranks m = mr_found_ranks m' \<and> mr_found_idx m = mr_found_idx m'
     \<and> mr_candidate_ranks m = mr_candidate_ranks m' \<and> mr_candidate_idx m = mr_candidate_idx m'
     \<and> mset (mr_errors m) = mset (mr_errors m')
     \<and> mr_has_undecided_case m = mr_has_undecided_case m'
     \<and> mr_entry_state m = mr_entry_state m'"

lemma check_ranks_permute:
  assumes "check_ranks ae cur mem pd rs m = Inr m1" and "check_ranks ae cur mem pd rs' m = Inr m2"
    and "distinct rs" "distinct rs'" "set rs = set rs'"
  shows "same_classification m1 m2"
proof -
  let ?f = "\<lambda>r. outcome_error r (rank_outcome ae cur mem pd (es_collective_seq_id (mr_entry_state m)) r)"
  have "mset rs = mset rs'" using assms(3,4,5) by (simp add: set_eq_iff_mset_eq_distinct)
  then have "mset (concat (map ?f rs)) = mset (concat (map ?f rs'))"
    by (simp only: mset_concat_map)
  then show ?thesis
    using check_ranks_spec [OF assms(1,3)] check_ranks_spec [OF assms(2,4)]
      check_ranks_undecided [OF assms(1)] check_ranks_undecided [OF assms(2)] assms(5)
    by (simp add: same_classification_def)
qed

end
