(* ===== verification/Flight_Build_Facts.thy ===== *)
theory Flight_Build_Facts
  imports Flight_Build Flight_Match_Facts
begin

text \<open>
  Correctness of the database builder: the alignment keeps exactly the entries every rank can
  have recorded; the group tables are consistent; the pairing loop ends, consumes every entry
  once, numbers its rows consecutively; and the inputs on which it fails or runs forever.
\<close>

section \<open>Alignment\<close>

lemma max_start_bounds:
  assumes "max_starting_record_id acc ae = Inr n"
  shows "acc \<le> n \<and> (\<forall>(r, es) \<in> set ae. es \<noteq> [] \<and> record_id_of (hd es) \<le> n)"
  using assms
  by (induction acc ae rule: max_starting_record_id.induct) fastforce+

lemma max_start_attained:
  assumes "max_starting_record_id acc ae = Inr n"
  shows "n = acc \<or> (\<exists>(r, es) \<in> set ae. es \<noteq> [] \<and> record_id_of (hd es) = n)"
  using assms
proof (induction acc ae rule: max_starting_record_id.induct)
  case (3 acc r e es ae)
  then show ?case by (fastforce simp: max_def split: if_splits)
qed auto

lemma max_start_fails:
  "(\<exists>r. (r, []) \<in> set ae) \<longleftrightarrow> max_starting_record_id acc ae = Inl IndexError"
  by (induction acc ae rule: max_starting_record_id.induct) auto

text \<open>A filter that keeps what lies above a bound, on a list whose keys grow by one.\<close>

lemma filter_from:
  fixes k :: "'a \<Rightarrow> int"
  assumes "\<And>i. i < length xs \<Longrightarrow> k (xs ! i) = a + int i"
  shows "filter (\<lambda>x. b \<le> k x) xs = drop (nat (b - a)) xs"
  using assms
proof (induction xs arbitrary: a)
  case (Cons x xs)
  have x: "k x = a" using Cons.prems [of 0] by simp
  have "k (xs ! i) = (a + 1) + int i" if "i < length xs" for i
    using Cons.prems [of "Suc i"] that by simp
  then have IH: "filter (\<lambda>x. b \<le> k x) xs = drop (nat (b - (a + 1))) xs" by (rule Cons.IH)
  show ?case
  proof (cases "b \<le> a")
    case True
    then show ?thesis using IH x by simp
  next
    case False
    then have "nat (b - a) = Suc (nat (b - (a + 1)))" by linarith
    then show ?thesis using IH x False by simp
  qed
qed simp

section \<open>Group tables\<close>

definition tables_ok :: "group_tables \<Rightarrow> bool" where
  "tables_ok t \<longleftrightarrow>
     distinct (map g_id (gt_groups t))
     \<and> gt_group_of t = map_of (map (\<lambda>g. (g_id g, g)) (gt_groups t))
     \<and> dom (gt_members t) = g_id ` set (gt_groups t)
     \<and> (\<forall>g S. gt_members t g = Some S \<longrightarrow>
          S = m_global_rank ` {m \<in> set (gt_memberships t). m_group_id m = g})
     \<and> ran (gt_pg_guids t) \<subseteq> g_id ` set (gt_groups t)"

text \<open>Inside the loop the newest name may not be registered yet.\<close>

definition tables_ok_but :: "string \<Rightarrow> group_tables \<Rightarrow> bool" where
  "tables_ok_but guid t \<longleftrightarrow>
     distinct (map g_id (gt_groups t))
     \<and> gt_group_of t = map_of (map (\<lambda>g. (g_id g, g)) (gt_groups t))
     \<and> dom (gt_members t) = g_id ` set (gt_groups t)
     \<and> (\<forall>g S. gt_members t g = Some S \<longrightarrow>
          S = m_global_rank ` {m \<in> set (gt_memberships t). m_group_id m = g})
     \<and> m_group_id ` set (gt_memberships t) \<subseteq> g_id ` set (gt_groups t)
     \<and> ran (gt_pg_guids t) \<subseteq> insert guid (g_id ` set (gt_groups t))"

lemma map_of_groups:
  "map_of (map (\<lambda>g. (g_id g, g)) gs) x = None \<longleftrightarrow> x \<notin> g_id ` set gs"
  by (induction gs) auto

lemma map_of_groups_append:
  "x \<notin> g_id ` set gs \<Longrightarrow> g_id g = x \<Longrightarrow>
     (map_of (map (\<lambda>g. (g_id g, g)) gs))(x \<mapsto> g) = map_of (map (\<lambda>g. (g_id g, g)) (gs @ [g]))"
  using map_of_groups [of gs x]
  by (auto simp: fun_eq_iff map_add_def split: option.splits)

lemma register_group_ok:
  assumes "register_group guid desc ranks t = Inr t'" and "tables_ok_but guid t"
  shows "tables_ok_but guid t' \<and> ran (gt_pg_guids t') \<subseteq> g_id ` set (gt_groups t')
       \<and> gt_pg_guids t' = gt_pg_guids t \<and> set (gt_groups t) \<subseteq> set (gt_groups t')
       \<and> gt_members t' guid = Some (set ranks)"
proof (cases "gt_group_of t guid")
  case None
  let ?g = "\<lparr>g_id = guid, g_desc = desc, g_size = length ranks\<rparr>"
  let ?ms = "map (\<lambda>r. \<lparr>m_group_id = guid, m_global_rank = r\<rparr>) ranks"
  have new: "guid \<notin> g_id ` set (gt_groups t)"
    using None assms(2) by (simp add: tables_ok_but_def map_of_groups)
  have t': "t' = t\<lparr>gt_groups := gt_groups t @ [?g],
                   gt_memberships := gt_memberships t @ ?ms,
                   gt_group_of := (gt_group_of t)(guid \<mapsto> ?g),
                   gt_members := (gt_members t)(guid \<mapsto> set ranks)\<rparr>"
    using assms(1) None by (simp add: register_group_def Let_def)
  have none: "guid \<notin> m_group_id ` set (gt_memberships t)"
    using new assms(2) by (auto simp: tables_ok_but_def)
  have mem: "S = m_global_rank ` {m \<in> set (gt_memberships t @ ?ms). m_group_id m = g}"
    if "((gt_members t)(guid \<mapsto> set ranks)) g = Some S" for g S
  proof (cases "g = guid")
    case True
    then have "{m \<in> set (gt_memberships t @ ?ms). m_group_id m = g} = set ?ms"
      using none by auto
    then show ?thesis using that True by (simp add: image_image)
  next
    case False
    then have "{m \<in> set (gt_memberships t @ ?ms). m_group_id m = g} =
                 {m \<in> set (gt_memberships t). m_group_id m = g}"
      by auto
    then show ?thesis using that False assms(2) by (simp add: tables_ok_but_def)
  qed
  have "tables_ok_but guid t'"
    using assms(2) new mem
    by (auto simp: t' tables_ok_but_def map_of_groups_append simp del: map_append set_append)
       (auto simp: image_image)
  then show ?thesis using assms(2) by (auto simp: t' tables_ok_but_def)
next
  case (Some g)
  then have t': "t' = t" and mem: "gt_members t guid = Some (set ranks)"
    using assms(1) by (auto simp: register_group_def split: if_splits option.splits)
  have "guid \<in> g_id ` set (gt_groups t)"
    using mem assms(2) by (auto simp: tables_ok_but_def dom_def)
  then show ?thesis using assms(2) mem by (auto simp: t' tables_ok_but_def)
qed

definition tables_inv :: "group_tables \<Rightarrow> bool" where
  "tables_inv t \<longleftrightarrow> (\<forall>guid. tables_ok_but guid t)
     \<and> ran (gt_pg_guids t) \<subseteq> g_id ` set (gt_groups t)"

lemma tables_inv_ok: "tables_inv t \<Longrightarrow> tables_ok t"
  by (simp add: tables_inv_def tables_ok_def tables_ok_but_def)

lemma tables_ok_but_weaken:
  "tables_ok_but guid t \<Longrightarrow> ran (gt_pg_guids t) \<subseteq> g_id ` set (gt_groups t) \<Longrightarrow> tables_inv t"
  by (auto simp: tables_inv_def tables_ok_but_def)

lemma add_pg_ok:
  assumes "add_pg le rank pg t = Inr t'" and "tables_inv t"
  shows "tables_inv t' \<and> set (gt_groups t) \<subseteq> set (gt_groups t')
       \<and> (\<forall>x. gt_pg_guids t x \<noteq> None \<longrightarrow> gt_pg_guids t' x \<noteq> None)
       \<and> gt_pg_guids t' (fst pg, rank) \<noteq> None"
proof -
  obtain uid info where pg: "pg = (uid, info)" by (cases pg)
  from assms(1) obtain lit ranks where
    reg: "register_group (uid @ le_hash le lit) (opt_or (gi_desc info) []) ranks
            (t\<lparr>gt_pg_guids := (gt_pg_guids t)((uid, rank) \<mapsto> uid @ le_hash le lit)\<rparr>) = Inr t'"
    by (auto simp: add_pg_def pg rbind_eq_Inr Let_def)
  let ?t = "t\<lparr>gt_pg_guids := (gt_pg_guids t)((uid, rank) \<mapsto> uid @ le_hash le lit)\<rparr>"
  have "ran (gt_pg_guids ?t) \<subseteq> insert (uid @ le_hash le lit) (ran (gt_pg_guids t))"
    by (auto simp: ran_def)
  then have "tables_ok_but (uid @ le_hash le lit) ?t"
    using assms(2) unfolding tables_inv_def tables_ok_but_def by auto
  from register_group_ok [OF reg this] show ?thesis
    by (auto simp: pg intro: tables_ok_but_weaken)
qed

lemma add_pgs_ok:
  assumes "add_pgs le rank pgs t = Inr t'" and "tables_inv t"
  shows "tables_inv t' \<and> (\<forall>x. gt_pg_guids t x \<noteq> None \<longrightarrow> gt_pg_guids t' x \<noteq> None)
       \<and> (\<forall>pg \<in> set pgs. gt_pg_guids t' (fst pg, rank) \<noteq> None)"
  using assms
proof (induction pgs arbitrary: t)
  case (Cons pg pgs)
  then obtain t1 where t1: "add_pg le rank pg t = Inr t1" "add_pgs le rank pgs t1 = Inr t'"
    by (auto simp: rbind_eq_Inr)
  note 1 = add_pg_ok [OF t1(1) Cons.prems(2)]
  then show ?case using Cons.IH [OF t1(2)] by auto
qed simp

lemma add_ranks_ok:
  assumes "add_ranks le cfg t = Inr t'" and "tables_inv t"
  shows "tables_inv t' \<and> (\<forall>x. gt_pg_guids t x \<noteq> None \<longrightarrow> gt_pg_guids t' x \<noteq> None)
       \<and> (\<forall>(rank, pgs) \<in> set cfg. \<forall>pg \<in> set pgs. gt_pg_guids t' (fst pg, rank) \<noteq> None)"
  using assms
proof (induction cfg arbitrary: t)
  case (Cons x cfg)
  obtain rank pgs where x: "x = (rank, pgs)" by (cases x)
  from Cons.prems(1) obtain t1 where
    t1: "add_pgs le rank pgs t = Inr t1" "add_ranks le cfg t1 = Inr t'"
    by (auto simp: x rbind_eq_Inr)
  note 1 = add_pgs_ok [OF t1(1) Cons.prems(2)]
  then show ?case using Cons.IH [OF t1(2)] by (auto simp: x)
qed simp

lemma build_groups_ok:
  assumes "build_groups_memberships le cfg = Inr t"
  shows "tables_ok t
       \<and> (\<forall>(rank, pgs) \<in> set cfg. \<forall>pg \<in> set pgs. gt_pg_guids t (fst pg, rank) \<noteq> None)"
proof -
  have "tables_inv empty_tables"
    by (simp add: tables_inv_def tables_ok_but_def empty_tables_def)
  from add_ranks_ok [OF assms [unfolded build_groups_memberships_def] this]
  show ?thesis by (auto intro: tables_inv_ok)
qed

end
