(* ===== verification/Flight_Loop_Facts.thy ===== *)
theory Flight_Loop_Facts
  imports Flight_Build_Facts
begin

text \<open>
  The pairing loop of \<open>build_collectives\<close>: progress of one turn, termination, conservation of
  the entries, numbering of the rows, and the two ways the loop goes wrong.
\<close>

section \<open>Removing the entries of a collective\<close>

lemma entry_count_update:
  assumes "map_of ae r = Some es"
  shows "entry_count (AList.update r es' ae) + length es = entry_count ae + length es'"
  using assms by (induction ae) (auto simp: entry_count_def split: if_splits)

lemma keys_update: "map_of ae r = Some es \<Longrightarrow> map fst (AList.update r es' ae) = map fst ae"
  by (induction ae) (auto split: if_splits)

lemma pop_entry_ok:
  assumes "pop_entry ae r k = Inr ae'"
  shows "Suc (entry_count ae') = entry_count ae \<and> map fst ae' = map fst ae"
proof -
  from assms obtain es where es: "map_of ae r = Some es" "k < length es"
      "ae' = AList.update r (take k es @ drop (Suc k) es) ae"
    by (auto simp: pop_entry_def split: option.splits if_splits)
  have "length (take k es @ drop (Suc k) es) = length es - 1" using es(2) by auto
  then show ?thesis
    using entry_count_update [OF es(1), of "take k es @ drop (Suc k) es"] keys_update [OF es(1)] es(2,3)
    by auto
qed

lemma to_hccl_call_ok:
  assumes "to_hccl_call es ae ps hid cid = Inr (ae', calls)"
  shows "entry_count ae' + length ps = entry_count ae \<and> map fst ae' = map fst ae
       \<and> length calls = length ps \<and> map h_id calls = [hid..<hid + length ps]
       \<and> map h_global_rank calls = map fst ps"
  using assms
proof (induction ps arbitrary: ae hid calls)
  case (Cons p ps)
  obtain i k where p: "p = (i, k)" by (cases p)
  from Cons.prems obtain ae1 call calls1 where 1: "pop_entry ae i k = Inr ae1"
    and 2: "to_hccl_call es ae1 ps (Suc hid) cid = Inr (ae', calls1)"
    and c: "calls = call # calls1" "h_id call = hid" "h_global_rank call = i"
    by (auto simp: p rbind_eq_Inr)
  have "[hid..<hid + length (p # ps)] = hid # [Suc hid..<Suc hid + length ps]"
    by (simp add: upt_conv_Cons del: upt_Suc)
  then show ?case
    using Cons.IH [OF 2] pop_entry_ok [OF 1] c by (simp add: p del: upt_Suc)
qed simp

lemma idx_pairs_keys: "idx_pairs fr idx rs = Inr ps \<Longrightarrow> map fst ps = rs"
  by (induction rs arbitrary: ps) (auto simp: rbind_eq_Inr)

definition no_empty_entries :: "entries \<Rightarrow> bool" where
  "no_empty_entries ae \<longleftrightarrow> (\<forall>(r, es) \<in> set ae. \<forall>e \<in> set es. \<not> empty_entry e)"

lemma update_entries:
  assumes "\<forall>(r, es) \<in> set ae. Q es" and "Q es'"
  shows "\<forall>(r, es) \<in> set (AList.update k es' ae). Q es"
  using assms by (induction ae) (auto split: if_splits)

lemma no_empty_pop: "pop_entry ae r k = Inr ae' \<Longrightarrow> no_empty_entries ae \<Longrightarrow> no_empty_entries ae'"
proof -
  assume a: "pop_entry ae r k = Inr ae'" and n: "no_empty_entries ae"
  from a obtain es where es: "map_of ae r = Some es"
      "ae' = AList.update r (take k es @ drop (Suc k) es) ae"
    by (auto simp: pop_entry_def split: option.splits if_splits)
  have "\<forall>e \<in> set es. \<not> empty_entry e"
    using n es(1) by (auto simp: no_empty_entries_def dest!: map_of_SomeD)
  then have "\<forall>e \<in> set (take k es @ drop (Suc k) es). \<not> empty_entry e"
    by (auto dest: in_set_takeD in_set_dropD)
  then show ?thesis
    using update_entries [of ae "\<lambda>es. \<forall>e \<in> set es. \<not> empty_entry e"] n
    unfolding no_empty_entries_def es(2) by blast
qed

lemma no_empty_calls:
  "to_hccl_call es ae ps hid cid = Inr (ae', calls) \<Longrightarrow> no_empty_entries ae \<Longrightarrow> no_empty_entries ae'"
proof (induction ps arbitrary: ae hid calls)
  case (Cons p ps)
  obtain i k where p: "p = (i, k)" by (cases p)
  from Cons.prems(1) obtain ae1 calls1 where 1: "pop_entry ae i k = Inr ae1"
    and 2: "to_hccl_call es ae1 ps (Suc hid) cid = Inr (ae', calls1)"
    by (auto simp: p rbind_eq_Inr)
  show ?case using Cons.IH [OF 2] no_empty_pop [OF 1 Cons.prems(2)] by blast
qed simp

section \<open>Emitting rows\<close>

lemma to_collective_id: "to_collective es cid er im ae = Inr c \<Longrightarrow> c_id (c_row c) = cid"
  by (auto simp: to_collective_def own_row_def split: option.splits list.splits)

definition ids_ok :: "build_state \<Rightarrow> bool" where
  "ids_ok st \<longleftrightarrow>
     map (c_id \<circ> c_row) (bs_collectives st) = [0..<length (bs_collectives st)]
     \<and> map h_id (bs_calls st) = [0..<length (bs_calls st)]"

lemma emit_shape:
  assumes "emit env fr m pg mm st = Inr st'"
  obtains ps c cid ae calls where
    "to_hccl_call (mr_entry_state m) (bs_entries st) ps (length (bs_calls st)) cid = Inr (ae, calls)"
    and "st' = st\<lparr>bs_entries := ae, bs_mismatch := mm, bs_collectives := bs_collectives st @ [c],
                  bs_calls := bs_calls st @ calls\<rparr>"
    and "c_id (c_row c) = length (bs_collectives st)"
    and "map fst ps = (if mr_found_ranks m = mr_expected_ranks m \<and> mismatch_of mm pg = Inr 0
                       then be_iter env (mr_found_ranks m) else be_iter env (mr_candidate_ranks m))"
proof -
  let ?matched = "mr_found_ranks m = mr_expected_ranks m \<and> mismatch_of mm pg = Inr 0"
  show thesis
  proof (cases ?matched)
    case True
    with assms obtain c ps ae calls where e:
      "to_collective (mr_entry_state m) (length (bs_collectives st)) None None None = Inr c"
      "idx_pairs fr (mr_found_idx m) (be_iter env (mr_found_ranks m)) = Inr ps"
      "to_hccl_call (mr_entry_state m) (bs_entries st) ps (length (bs_calls st))
         (Some (length (bs_collectives st))) = Inr (ae, calls)"
      "st' = st\<lparr>bs_entries := ae, bs_mismatch := mm, bs_collectives := bs_collectives st @ [c],
                bs_calls := bs_calls st @ calls\<rparr>"
      by (auto simp: emit_def Let_def rbind_eq_Inr)
    show thesis
      using that [OF e(3,4) to_collective_id [OF e(1)]] idx_pairs_keys [OF e(2)] True by simp
  next
    case False
    with assms obtain c ps ae calls where e:
      "idx_pairs fr (mr_candidate_idx m) (be_iter env (mr_candidate_ranks m)) = Inr ps"
      "to_collective (mr_entry_state m) (length (bs_collectives st)) (Some (mr_errors m))
         (Some (map_of ps)) (Some (bs_entries st)) = Inr c"
      "to_hccl_call (mr_entry_state m) (bs_entries st) ps (length (bs_calls st)) None = Inr (ae, calls)"
      "st' = st\<lparr>bs_entries := ae, bs_mismatch := mm, bs_collectives := bs_collectives st @ [c],
                bs_calls := bs_calls st @ calls\<rparr>"
      by (auto simp: emit_def Let_def rbind_eq_Inr split: if_splits)
    have "map fst ps = (if ?matched then be_iter env (mr_found_ranks m)
                        else be_iter env (mr_candidate_ranks m))"
      unfolding if_not_P [OF False] by (rule idx_pairs_keys [OF e(1)])
    then show thesis by (rule that [OF e(3,4) to_collective_id [OF e(2)]])
  qed
qed

lemma emit_ok:
  assumes "emit env fr m pg mm st = Inr st'"
  shows "entry_count (bs_entries st') + length (bs_calls st') =
           entry_count (bs_entries st) + length (bs_calls st)
       \<and> map fst (bs_entries st') = map fst (bs_entries st)
       \<and> bs_mismatch st' = mm \<and> (ids_ok st \<longrightarrow> ids_ok st')
       \<and> (no_empty_entries (bs_entries st) \<longrightarrow> no_empty_entries (bs_entries st'))
       \<and> length (bs_collectives st') = Suc (length (bs_collectives st))"
proof (rule emit_shape [OF assms])
  fix ps c cid ae calls
  assume h: "to_hccl_call (mr_entry_state m) (bs_entries st) ps (length (bs_calls st)) cid = Inr (ae, calls)"
    and st': "st' = st\<lparr>bs_entries := ae, bs_mismatch := mm,
                 bs_collectives := bs_collectives st @ [c], bs_calls := bs_calls st @ calls\<rparr>"
    and c: "c_id (c_row c) = length (bs_collectives st)"
  have "map h_id (bs_calls st @ calls) = [0..<length (bs_calls st @ calls)]" if "ids_ok st"
    using that to_hccl_call_ok [OF h] upt_add_eq_append [of 0 "length (bs_calls st)" "length calls"]
    by (simp add: ids_ok_def)
  then show ?thesis
    using to_hccl_call_ok [OF h] no_empty_calls [OF h] c by (auto simp: st' ids_ok_def)
qed

section \<open>Outcome of the analysis\<close>

lemma bump_mismatch_eq:
  "bump_mismatch mm pg = Inr mm' \<longleftrightarrow> (\<exists>g n. pg = Some g \<and> mm g = Some n \<and> mm' = mm(g \<mapsto> n + 1))"
  by (cases pg) (auto simp: bump_mismatch_def mismatch_of_def rbind_eq_Inr split: option.splits)

lemma with_log_frame:
  "with_log m kw = Inr m' \<Longrightarrow> mr_candidate_ranks m' = mr_candidate_ranks m
     \<and> mr_found_ranks m' = mr_found_ranks m \<and> mr_expected_ranks m' = mr_expected_ranks m"
  by (auto simp: with_log_def rbind_eq_Inr)

text \<open>
  After the analysis every rank of the collective is a candidate (a mismatch, or a group whose
  ranks were not all dumped), or every rank is found.
\<close>

definition demoted :: "MatchStateRecord \<Rightarrow> MatchStateRecord \<Rightarrow> bool" where
  "demoted m m' \<longleftrightarrow> mr_candidate_ranks m' = mr_candidate_ranks m \<union> mr_found_ranks m
     \<and> mr_found_ranks m' = {} \<and> mr_expected_ranks m' = mr_expected_ranks m"

definition promoted :: "int set \<Rightarrow> MatchStateRecord \<Rightarrow> MatchStateRecord \<Rightarrow> bool" where
  "promoted dumps m m' \<longleftrightarrow> mr_found_ranks m' = dumps \<and> mr_expected_ranks m' = dumps
     \<and> mr_expected_ranks m = dumps \<and> card (mr_candidate_ranks m) = 1
     \<and> mr_candidate_ranks m \<union> mr_found_ranks m = dumps"

lemma demoted_found: "with_log m kw = Inr m1 \<Longrightarrow> demoted m (demote_found m1)"
  by (auto simp: demoted_def demote_found_def dest: with_log_frame)

lemma alltoall_shape:
  assumes "alltoall_analysis iter ae cur fr m mm v pg = Inr (m', mm')"
  shows "demoted m m' \<and> bump_mismatch mm pg = Inr mm' \<or> m' = promote_candidates m \<and> mm' = mm"
proof -
  from assms obtain es where es: "found_entries ae (mr_found_idx m) (iter (mr_found_ranks m)) = Inr es"
    by (auto simp: alltoall_analysis_def rbind_eq_Inr)
  obtain fail i k where c: "check_size_alltoall (cur # es) = (fail, i, k)"
    by (cases "check_size_alltoall (cur # es)")
  show ?thesis
  proof (cases "fail \<and> \<not> (fst v \<le> 2 \<and> snd v \<le> 3)")
    case True
    with assms es c obtain m1 where "with_log m (LogInfo (log_info\<lparr>ai_total_numel := Some (i, k)\<rparr>)) = Inr m1"
      "bump_mismatch mm pg = Inr mm'" "m' = (demote_found m1)\<lparr>mr_errors := mr_errors (demote_found m1)
         @ [(fr, match_info SIZE_OR_SYNTAX_MISMATCH None)]\<rparr>"
      unfolding alltoall_analysis_def Let_def by (auto simp: rbind_eq_Inr)
    then show ?thesis by (auto simp: demoted_def dest: demoted_found)
  next
    case False
    with assms es c show ?thesis unfolding alltoall_analysis_def by auto
  qed
qed

lemma error_analysis_shape:
  assumes "error_analysis iter ae cur dumps fr m mm v pg = Inr (m', mm')"
    and "fr \<in> mr_candidate_ranks m"
  shows "demoted m m' \<and> (mm' = mm \<and> mr_expected_ranks m \<noteq> {} \<or> bump_mismatch mm pg = Inr mm')
       \<or> promoted dumps m m' \<and> mm' = mm"
proof -
  let ?joined = "mr_candidate_ranks m \<union> mr_found_ranks m"
  let ?c1 = "?joined \<noteq> mr_expected_ranks m \<and> mr_expected_ranks m - ?joined \<subseteq> dumps"
  let ?c2 = "card (mr_candidate_ranks m) = 1 \<and> dumps = mr_expected_ranks m"
  have prom: "promoted dumps m (promote_candidates m)" if "\<not> ?c1" "?c2"
    using that by (auto simp: promoted_def promote_candidates_def)
  consider "?c1" | "\<not> ?c1" "?c2" "mr_has_undecided_case m" | "\<not> ?c1" "?c2" "\<not> mr_has_undecided_case m"
    | "\<not> ?c1" "\<not> ?c2" "mr_errors m \<noteq> []" | "\<not> ?c1" "\<not> ?c2" "mr_errors m = []" by blast
  then show ?thesis
  proof cases
    case 1
    have "bump_mismatch mm pg = Inr mm' \<and> demoted m m'"
      using assms(1) unfolding error_analysis_def Let_def if_P [OF 1] rbind_eq_Inr
      by (auto intro: demoted_found)
    then show ?thesis by blast
  next
    case 2
    then have "alltoall_analysis iter ae cur fr m mm v pg = Inr (m', mm')"
      using assms(1) unfolding error_analysis_def Let_def by auto
    from alltoall_shape [OF this] show ?thesis using prom 2 by auto
  next
    case 3
    then have "m' = promote_candidates m" "mm' = mm"
      using assms(1) unfolding error_analysis_def Let_def by auto
    then show ?thesis using prom 3 by simp
  next
    case 4
    have "bump_mismatch mm pg = Inr mm' \<and> demoted m m'"
      using assms(1) 4(3)
      unfolding error_analysis_def Let_def if_not_P [OF 4(1)] if_not_P [OF 4(2)] rbind_eq_Inr
      by (auto simp: rbind_eq_Inr intro: demoted_found)
    then show ?thesis by blast
  next
    case 5
    then have "m' = demote_found m \<and> (mm' = mm \<or> bump_mismatch mm pg = Inr mm')"
      using assms(1) unfolding error_analysis_def Let_def
      by (auto simp: rbind_eq_Inr split: if_splits)
    then show ?thesis
      using assms(2) 5(1) by (auto simp: demoted_def demote_found_def)
  qed
qed

section \<open>Progress of one turn\<close>

text \<open>
  The counters are never negative, and a job of a single rank never counts a mismatch for the group
  of that rank: its entries are their own matches.
\<close>

definition loop_inv :: "build_env \<Rightarrow> build_state \<Rightarrow> bool" where
  "loop_inv env st \<longleftrightarrow>
     distinct (map fst (bs_entries st)) \<and> fst ` set (bs_entries st) \<subseteq> be_dumps env
     \<and> (\<forall>g n. bs_mismatch st g = Some n \<longrightarrow> n \<ge> 0)
     \<and> (\<forall>g r. be_dumps env = {r} \<and> be_members env g = Some {r} \<longrightarrow>
           bs_mismatch st g = None \<or> bs_mismatch st g = Some 0)"

lemma good_outcome_mismatch:
  "good_outcome (rank_outcome ae cur mem pd seq r) \<Longrightarrow> mismatch_of (pd_mismatch pd) (pd_name pd) = Inr 0"
  by (auto simp: good_outcome_def rank_outcome_def lazy_mismatch_def rbind_eq_Inr rbind_def
      split: sum.splits option.splits if_splits)

lemma error_analysis_alone:
  assumes "mr_candidate_ranks m = {fr}" and "mr_found_ranks m = {}" and "mr_expected_ranks m = {fr}"
    and "\<not> mr_has_undecided_case m"
  shows "error_analysis iter ae cur {fr} fr m mm v pg = Inr (promote_candidates m, mm)"
  using assms by (simp add: error_analysis_def)

context rank_iteration
begin

lemma classify:
  assumes "check_current_entry_match iter ae cur mem pd (match_record_init ex others es fr) = Inr m"
  shows "fr \<in> mr_candidate_ranks m \<and> finite (mr_candidate_ranks m) \<and> finite (mr_found_ranks m)
       \<and> mr_expected_ranks m = ex
       \<and> (mr_found_ranks m \<noteq> {} \<longrightarrow> mismatch_of (pd_mismatch pd) (pd_name pd) = Inr 0)"
proof -
  let ?rs = "iter (ex \<inter> set others)"
  let ?out = "rank_outcome ae cur mem pd (es_collective_seq_id es)"
  have fin: "finite (ex \<inter> set others)" by simp
  have "check_ranks ae cur mem pd ?rs (match_record_init ex others es fr) = Inr m"
    using assms by (simp add: check_current_entry_match_def match_record_init_def)
  from check_ranks_spec [OF this distinct_iter [OF fin]]
  have f: "mr_found_ranks m = {r \<in> ex \<inter> set others. good_outcome (?out r)}"
    and c: "mr_candidate_ranks m = insert fr {r \<in> ex \<inter> set others. bad_outcome (?out r)}"
    and e: "mr_expected_ranks m = ex"
    by (simp_all add: match_record_init_def set_iter)
  then show ?thesis by (auto dest: good_outcome_mismatch)
qed

lemma classify_alone:
  assumes "ex \<inter> set others = {}"
  shows "check_current_entry_match iter ae cur mem pd (match_record_init ex others es fr) =
           Inr (match_record_init ex others es fr)"
  using assms by (simp add: check_current_entry_match_def match_record_init_def iter_empty)

text \<open>The entry of the first rank is consumed, whatever the outcome.\<close>

lemma emit_progress:
  assumes emit: "emit env fr m' pg mm' st = Inr st'" and iter: "be_iter env = iter"
    and m: "fr \<in> mr_candidate_ranks m" "finite (mr_candidate_ranks m)" "finite (mr_found_ranks m)"
      "mr_found_ranks m \<noteq> {} \<Longrightarrow> mismatch_of mm pg = Inr 0"
    and shape: "demoted m m' \<and> (mm' = mm \<and> mr_expected_ranks m \<noteq> {} \<or> bump_mismatch mm pg = Inr mm')
      \<or> promoted (be_dumps env) m m' \<and> mm' = mm"
    and nonneg: "\<And>g n. mm g = Some n \<Longrightarrow> n \<ge> 0"
    and alone: "be_dumps env = {fr} \<Longrightarrow> mr_expected_ranks m = {fr} \<Longrightarrow> mismatch_of mm pg = Inr 0"
  shows "entry_count (bs_entries st') < entry_count (bs_entries st)"
proof -
  let ?matched = "mr_found_ranks m' = mr_expected_ranks m' \<and> mismatch_of mm' pg = Inr 0"
  let ?consumed = "if ?matched then mr_found_ranks m' else mr_candidate_ranks m'"
  have "fr \<in> ?consumed \<and> finite ?consumed"
    using shape
  proof (elim disjE conjE)
    assume d: "demoted m m'" and "mm' = mm" "mr_expected_ranks m \<noteq> {}"
    then show ?thesis using m by (auto simp: demoted_def)
  next
    assume d: "demoted m m'" and "bump_mismatch mm pg = Inr mm'"
    then obtain g n where "pg = Some g" "mm g = Some n" "mm' = mm(g \<mapsto> n + 1)"
      by (auto simp: bump_mismatch_eq)
    with nonneg [of g n] have "mismatch_of mm' pg \<noteq> Inr 0" by (simp add: mismatch_of_def)
    then show ?thesis using d m by (auto simp: demoted_def)
  next
    assume p: "promoted (be_dumps env) m m'" and mm: "mm' = mm"
    have "mismatch_of mm pg = Inr 0"
    proof (cases "mr_found_ranks m = {}")
      case True
      from p have "card (mr_candidate_ranks m) = 1" by (simp add: promoted_def)
      with m(1) have "mr_candidate_ranks m = {fr}" by (metis card_1_singletonE singletonD)
      with p True show ?thesis by (intro alone) (auto simp: promoted_def)
    qed (rule m(4))
    moreover have "mr_found_ranks m' = mr_candidate_ranks m \<union> mr_found_ranks m"
      "mr_found_ranks m' = mr_expected_ranks m'" using p by (auto simp: promoted_def)
    ultimately show ?thesis using mm m by auto
  qed
  then have pos: "length (iter ?consumed) > 0" by (rule iter_pos)
  show ?thesis
  proof (rule emit_shape [OF emit])
    fix ps c cid ae calls
    assume h: "to_hccl_call (mr_entry_state m') (bs_entries st) ps (length (bs_calls st)) cid = Inr (ae, calls)"
      and st': "st' = st\<lparr>bs_entries := ae, bs_mismatch := mm',
                 bs_collectives := bs_collectives st @ [c], bs_calls := bs_calls st @ calls\<rparr>"
      and ps: "map fst ps = (if ?matched then be_iter env (mr_found_ranks m')
                             else be_iter env (mr_candidate_ranks m'))"
    have "length ps = length (iter ?consumed)"
      using arg_cong [OF ps, of length] by (simp add: iter split: if_splits)
    with pos have "length ps > 0" by simp
    then show ?thesis using to_hccl_call_ok [OF h] unfolding st' by (simp; linarith)
  qed
qed

lemma analyse_entry_step:
  assumes a: "analyse_entry env fr (map fst rest) cur st = Inr (stop, st')"
    and iter: "be_iter env = iter" and ae: "bs_entries st = (fr, cur # es) # rest"
    and inv: "loop_inv env st"
  shows "entry_count (bs_entries st') < entry_count (bs_entries st)
       \<and> entry_count (bs_entries st') + length (bs_calls st') =
           entry_count (bs_entries st) + length (bs_calls st)
       \<and> loop_inv env st' \<and> (ids_ok st \<longrightarrow> ids_ok st')
       \<and> (no_empty_entries (bs_entries st) \<longrightarrow> no_empty_entries (bs_entries st'))
       \<and> length (bs_entries st') = length (bs_entries st)
       \<and> (stop \<longrightarrow> (\<exists>g n. bs_mismatch st' g = Some n \<and> n > MISMATCH_TAIL))"
proof -
  let ?mm = "bs_mismatch st"
  define pg where "pg = (case e_process_group cur of
                  None \<Rightarrow> None | Some (n, _) \<Rightarrow> be_pg_guids env (n, fr))"
  define ex where "ex = (case pg of None \<Rightarrow> {} | Some g \<Rightarrow> opt_or (be_members env g) {})"
  let ?m0 = "match_record_init ex (map fst rest) (entry_state_init cur ex) fr"
  let ?pd = "\<lparr>pd_guids = be_pg_guids env, pd_name = pg, pd_mismatch = ?mm\<rparr>"
  from a obtain m1 v m2 mm n where
    c: "check_current_entry_match iter (bs_entries st) cur (be_members env) ?pd ?m0 = Inr m1"
    and e: "error_analysis iter (bs_entries st) cur (be_dumps env) fr m1 ?mm v pg = Inr (m2, mm)"
    and em: "emit env fr m2 pg mm st = Inr st'"
    and n: "mismatch_of mm pg = Inr n" and stop: "stop \<longleftrightarrow> n > MISMATCH_TAIL"
    unfolding analyse_entry_def Let_def pg_def [symmetric] ex_def [symmetric] iter
    by (auto simp: rbind_eq_Inr)
  note cl = classify [OF c]
  have fr: "fr \<in> be_dumps env" "fr \<notin> fst ` set rest" using inv by (auto simp: loop_inv_def ae)
  have rest: "fst ` set rest \<subseteq> be_dumps env" using inv by (auto simp: loop_inv_def ae)
  note sh = error_analysis_shape [OF e] cl
  have nonneg: "?mm g = Some k \<Longrightarrow> k \<ge> 0" for g k using inv by (simp add: loop_inv_def)
  have alone: "mm = ?mm" if "be_dumps env = {fr}" "ex = {fr}"
  proof -
    have "m1 = ?m0" using classify_alone [of ex "map fst rest"] c fr(2) that by auto
    then show ?thesis
      using e error_analysis_alone [of ?m0 fr] that by (simp add: match_record_init_def)
  qed
  have pg: "\<exists>g. pg = Some g \<and> be_members env g = Some ex" if "ex \<noteq> {}"
    using that by (cases pg; cases "be_members env (the pg)") (auto simp: ex_def opt_or_def)
  have alone0: "mismatch_of ?mm pg = Inr 0" if h: "be_dumps env = {fr}" "mr_expected_ranks m1 = {fr}"
  proof -
    from h cl have ex: "ex = {fr}" by simp
    with pg obtain g where g: "pg = Some g" "be_members env g = Some {fr}" by auto
    with inv h(1) have "?mm g = None \<or> ?mm g = Some 0" by (auto simp: loop_inv_def)
    with n alone [OF h(1) ex] g show ?thesis by (auto simp: mismatch_of_def)
  qed
  have "entry_count (bs_entries st') < entry_count (bs_entries st)"
    using emit_progress [OF em iter, of m1 ?mm] sh nonneg alone0 by auto
  moreover have "loop_inv env st'"
  proof -
    note ok = emit_ok [OF em]
    have mm: "mm = ?mm \<or> bump_mismatch ?mm pg = Inr mm" using sh by auto
    have nn: "mm g = Some k \<Longrightarrow> k \<ge> 0" for g k
      using mm nonneg by (auto simp: bump_mismatch_eq split: if_splits)
    have single: "mm g = None \<or> mm g = Some 0"
      if h: "be_dumps env = {r}" "be_members env g = Some {r}" for g r
    proof (cases "mm g = ?mm g")
      case True
      then show ?thesis using inv h by (simp add: loop_inv_def)
    next
      case False
      with mm have "pg = Some g" by (auto simp: bump_mismatch_eq split: if_splits)
      with h fr have "ex = {fr}" "be_dumps env = {fr}" by (auto simp: ex_def opt_or_def)
      with alone False show ?thesis by simp
    qed
    have "map fst (bs_entries st') = map fst (bs_entries st)" "bs_mismatch st' = mm"
      using ok by auto
    moreover from this(1) have "fst ` set (bs_entries st') = fst ` set (bs_entries st)"
      by (metis set_map)
    ultimately show ?thesis
      using inv nn single unfolding loop_inv_def by simp
  qed
  moreover have "\<exists>g n. bs_mismatch st' g = Some n \<and> n > MISMATCH_TAIL" if stop
    using that n emit_ok [OF em] unfolding stop
    by (auto simp: mismatch_of_def split: option.splits)
  moreover have "length (bs_entries st') = length (bs_entries st)"
    using emit_ok [OF em] by (metis length_map)
  ultimately show ?thesis using emit_ok [OF em] by blast
qed

lemma build_step_ok:
  assumes b: "build_step env st = Inr (stop, st')" and iter: "be_iter env = iter"
    and inv: "loop_inv env st" and ne: "no_empty_entries (bs_entries st)" and "bs_entries st \<noteq> []"
  shows "entry_count (bs_entries st') + length (bs_entries st')
           < entry_count (bs_entries st) + length (bs_entries st)
       \<and> entry_count (bs_entries st') + length (bs_calls st') =
           entry_count (bs_entries st) + length (bs_calls st)
       \<and> loop_inv env st' \<and> no_empty_entries (bs_entries st') \<and> (ids_ok st \<longrightarrow> ids_ok st')
       \<and> (stop \<longrightarrow> (\<exists>g n. bs_mismatch st' g = Some n \<and> n > MISMATCH_TAIL))"
proof -
  from assms(5) obtain fr es rest where ae: "bs_entries st = (fr, es) # rest"
    by (cases "bs_entries st") auto
  show ?thesis
  proof (cases es)
    case Nil
    with b ae have "st' = st\<lparr>bs_entries := rest\<rparr>" "\<not> stop" by (simp_all add: build_step_def)
    then show ?thesis
      using inv ne by (simp add: ae Nil entry_count_def loop_inv_def no_empty_entries_def ids_ok_def)
  next
    case (Cons cur es')
    have "\<not> empty_entry cur" using ne by (simp add: no_empty_entries_def ae Cons)
    then have "analyse_entry env fr (map fst rest) cur st = Inr (stop, st')"
      using b by (simp add: build_step_def ae Cons)
    from analyse_entry_step [OF this iter ae [unfolded Cons] inv] ne show ?thesis by auto
  qed
qed

lemma build_loop_returns:
  assumes iter: "be_iter env = iter" and "loop_inv env st" and "no_empty_entries (bs_entries st)"
  shows "\<exists>r. build_loop env st = Some r \<and> (\<forall>st'. r = Inr st' \<longrightarrow>
           entry_count (bs_entries st') + length (bs_calls st') =
             entry_count (bs_entries st) + length (bs_calls st)
         \<and> (ids_ok st \<longrightarrow> ids_ok st')
         \<and> (bs_entries st' = [] \<or> (\<exists>g n. bs_mismatch st' g = Some n \<and> n > MISMATCH_TAIL)))"
  using assms(2,3)
proof (induction "entry_count (bs_entries st) + length (bs_entries st)" arbitrary: st
    rule: less_induct)
  case less
  show ?case
  proof (cases "bs_entries st = []")
    case True
    then show ?thesis by (subst build_loop.simps) auto
  next
    case False
    show ?thesis
    proof (cases "build_step env st")
      case (Inl e)
      with False show ?thesis by (subst build_loop.simps) simp
    next
      case (Inr p)
      obtain stop st1 where p: "p = (stop, st1)" by (cases p)
      note ok = build_step_ok [OF Inr [unfolded p] iter less.prems False]
      show ?thesis
      proof (cases stop)
        case True
        with False Inr p ok show ?thesis by (subst build_loop.simps) auto
      next
        case f: False
        have "build_loop env st = build_loop env st1"
          using False Inr p f by (subst build_loop.simps) simp
        moreover from less.hyps [of st1] ok obtain r where "build_loop env st1 = Some r"
          "\<forall>st'. r = Inr st' \<longrightarrow>
             entry_count (bs_entries st') + length (bs_calls st') =
               entry_count (bs_entries st1) + length (bs_calls st1)
           \<and> (ids_ok st1 \<longrightarrow> ids_ok st')
           \<and> (bs_entries st' = [] \<or> (\<exists>g n. bs_mismatch st' g = Some n \<and> n > MISMATCH_TAIL))"
          by blast
        ultimately show ?thesis using ok by auto
      qed
    qed
  qed
qed

end

section \<open>The whole loop\<close>

lemma zero_counters:
  "map_of (map (\<lambda>g. (g_id g, 0 :: int)) gs) x = (if x \<in> g_id ` set gs then Some 0 else None)"
  by (induction gs) auto

lemma pairing_start_ok:
  assumes "distinct (map fst ae)"
  shows "loop_inv (pairing_env iter ae t v) (pairing_start ae t) \<and> ids_ok (pairing_start ae t)"
  using assms
  by (auto simp: loop_inv_def pairing_start_def pairing_env_def ids_ok_def zero_counters split: if_splits)

text \<open>A turn that leaves the state as it is never ends the loop.\<close>

definition stuck :: "build_state \<Rightarrow> bool" where
  "stuck st \<longleftrightarrow> (\<exists>r e es rest. bs_entries st = (r, e # es) # rest \<and> empty_entry e)"

lemma stuck_step: "stuck st \<Longrightarrow> build_step env st = Inr (False, st) \<and> bs_entries st \<noteq> []"
  by (auto simp: stuck_def build_step_def)

lemma build_loop_stuck: "stuck st \<Longrightarrow> build_loop env st = None"
proof -
  have "\<not> stuck st" if "build_loop env st = Some y" for y
  proof (rule build_loop.raw_induct [of "\<lambda>_ st _. \<not> stuck st", OF _ that])
    fix loop env st y
    assume IH: "\<And>env st y. loop env st = Some y \<Longrightarrow> \<not> stuck st"
      and s: "(if bs_entries st = [] then Some (Inr st)
               else case build_step env st of Inl e \<Rightarrow> Some (Inl e)
                    | Inr (stop, st') \<Rightarrow> if stop then Some (Inr st') else loop env st') = Some y"
    show "\<not> stuck st"
    proof
      assume "stuck st"
      with stuck_step [OF this, of env] s have "loop env st = Some y" by simp
      from IH [OF this] \<open>stuck st\<close> show False by simp
    qed
  qed
  then show "stuck st \<Longrightarrow> build_loop env st = None" by (cases "build_loop env st") auto
qed

text \<open>An entry whose process group is not configured for its rank.\<close>

lemma unknown_group_step:
  assumes "rank_iteration (be_iter env)" and "bs_entries st = (fr, e # es) # rest" and "\<not> empty_entry e"
    and "(case e_process_group e of None \<Rightarrow> None | Some (n, _) \<Rightarrow> be_pg_guids env (n, fr)) = None"
    and "get_version_detail (be_version env) = Inr v"
  shows "build_step env st = Inl KeyError"
proof -
  have "be_iter env {} = []" using assms(1) set_iteration.iter_empty unfolding rank_iteration_def by blast
  then show ?thesis
    using assms(2-)
    by (simp add: build_step_def analyse_entry_def check_current_entry_match_def
        match_record_init_def error_analysis_def bump_mismatch_def mismatch_of_def)
qed

end
