(* ===== verification/Flight_Healthy.thy ===== *)
theory Flight_Healthy
  imports Flight_Loop_Facts
begin

text \<open>
  A healthy job: every rank of one group recorded the same sequence of collectives.  The pairing
  loop of \<open>build_collectives\<close> then reports exactly one passing collective per recorded step and
  consumes every entry.
\<close>

section \<open>Traces that agree\<close>

text \<open>A column gives the entry of each rank for one step; the traces are the transposed columns.\<close>

type_synonym column = "int \<Rightarrow> entry"

definition grid :: "int list \<Rightarrow> column list \<Rightarrow> entries" where
  "grid rs cols = map (\<lambda>r. (r, map (\<lambda>c. c r) cols)) rs"

definition agreeing :: "build_env \<Rightarrow> string \<Rightarrow> int list \<Rightarrow> column \<Rightarrow> bool" where
  "agreeing env g rs c \<longleftrightarrow>
     (\<exists>s. \<forall>r \<in> set rs. \<not> empty_entry (c r) \<and> e_collective_seq_id (c r) = Some s
        \<and> (case e_process_group (c r) of None \<Rightarrow> None | Some (n, _) \<Rightarrow> be_pg_guids env (n, r)) = Some g)
     \<and> (\<forall>r \<in> set rs. \<forall>r' \<in> set rs. match_one_event (c r) (c r') (be_members env) (Some g) =
          Inr (match_info FULLY_MATCHED None))"

lemma grid_keys [simp]: "map fst (grid rs cols) = rs"
  by (simp add: grid_def comp_def)

lemma grid_lookup: "r \<in> set rs \<Longrightarrow> map_of (grid rs cols) r = Some (map (\<lambda>c. c r) cols)"
  by (induction rs) (auto simp: grid_def)

section \<open>Classification\<close>

lemma check_ranks_agree:
  assumes "\<And>r. r \<in> set qs \<Longrightarrow> map_of ae r = Some (c r # es r)"
    and "\<And>r. r \<in> set qs \<Longrightarrow> e_collective_seq_id (c r) = Some (es_collective_seq_id (mr_entry_state m))"
    and "\<And>r. r \<in> set qs \<Longrightarrow>
      (case e_process_group (c r) of None \<Rightarrow> None | Some (n, _) \<Rightarrow> pd_guids pd (n, r)) = pd_name pd"
    and "\<And>r. r \<in> set qs \<Longrightarrow> match_one_event cur (c r) mem (pd_name pd) = Inr (match_info FULLY_MATCHED None)"
    and "mismatch_of (pd_mismatch pd) (pd_name pd) = Inr 0"
  shows "\<exists>m'. check_ranks ae cur mem pd qs m = Inr m'
       \<and> mr_found_ranks m' = mr_found_ranks m \<union> set qs \<and> mr_candidate_ranks m' = mr_candidate_ranks m
       \<and> mr_found_idx m' = (\<lambda>r. if r \<in> set qs then Some 0 else mr_found_idx m r)
       \<and> mr_candidate_idx m' = mr_candidate_idx m
       \<and> mr_errors m' = mr_errors m \<and> mr_entry_state m' = mr_entry_state m
       \<and> mr_expected_ranks m' = mr_expected_ranks m
       \<and> (mr_has_undecided_case m' \<longrightarrow> mr_has_undecided_case m)"
  using assms
proof (induction qs arbitrary: m)
  case (Cons q qs)
  let ?m = "record_rank 0 q 0 (match_info FULLY_MATCHED None) m"
  have frame: "mr_found_ranks ?m = insert q (mr_found_ranks m)"
    "mr_found_idx ?m = (mr_found_idx m)(q \<mapsto> 0)" "mr_candidate_ranks ?m = mr_candidate_ranks m"
    "mr_candidate_idx ?m = mr_candidate_idx m" "mr_errors ?m = mr_errors m"
    "mr_entry_state ?m = mr_entry_state m" "mr_expected_ranks ?m = mr_expected_ranks m"
    "\<not> mr_has_undecided_case ?m"
    by (simp_all add: record_rank_def ok_state_def match_info_def)
  have "check_ranks ae cur mem pd (q # qs) m = check_ranks ae cur mem pd qs ?m"
    using Cons.prems(1-4) [of q] Cons.prems(5)
    by (simp add: lazy_mismatch_def ok_state_def match_info_def)
  moreover have "\<exists>m'. check_ranks ae cur mem pd qs ?m = Inr m'
       \<and> mr_found_ranks m' = mr_found_ranks ?m \<union> set qs \<and> mr_candidate_ranks m' = mr_candidate_ranks ?m
       \<and> mr_found_idx m' = (\<lambda>r. if r \<in> set qs then Some 0 else mr_found_idx ?m r)
       \<and> mr_candidate_idx m' = mr_candidate_idx ?m
       \<and> mr_errors m' = mr_errors ?m \<and> mr_entry_state m' = mr_entry_state ?m
       \<and> mr_expected_ranks m' = mr_expected_ranks ?m
       \<and> (mr_has_undecided_case m' \<longrightarrow> mr_has_undecided_case ?m)"
    using Cons.prems by (intro Cons.IH) (simp_all add: frame)
  ultimately show ?case by (auto simp: frame fun_eq_iff)
qed simp

section \<open>Removing the first entries\<close>

lemma update_as_map:
  "distinct (map fst ae) \<Longrightarrow> r \<in> fst ` set ae \<Longrightarrow>
     AList.update r v ae = map (\<lambda>(k, e). (k, if k = r then v else e)) ae"
proof (induction ae)
  case (Cons p ae)
  then show ?case
    by (cases p) (auto intro!: map_idI [symmetric] simp: rev_image_eqI)
qed simp

definition drop_heads :: "int set \<Rightarrow> entries \<Rightarrow> entries" where
  "drop_heads S ae = map (\<lambda>(r, es). (r, if r \<in> S then tl es else es)) ae"

lemma drop_heads_grid: "set rs \<subseteq> S \<Longrightarrow> drop_heads S (grid rs (c # cols)) = grid rs cols"
  by (auto simp: drop_heads_def grid_def)

lemma pop_head:
  assumes "distinct (map fst ae)" and "map_of ae r = Some (e # es)"
  shows "pop_entry ae r 0 = Inr (drop_heads {r} ae)"
proof -
  have "r \<in> fst ` set ae" using assms(2) by (metis map_of_eq_None_iff option.distinct(1))
  moreover have "tl b = es" if "(r, b) \<in> set ae" for b
    using map_of_is_SomeI [OF assms(1) that] assms(2) by auto
  then have "map (\<lambda>(k, e'). (k, if k = r then es else e')) ae = drop_heads {r} ae"
    by (auto simp: drop_heads_def)
  ultimately show ?thesis
    using assms by (simp add: pop_entry_def update_as_map)
qed

lemma drop_heads_lookup:
  "map_of (drop_heads S ae) r = map_option (\<lambda>es. if r \<in> S then tl es else es) (map_of ae r)"
  by (induction ae) (auto simp: drop_heads_def)

lemma pop_heads:
  assumes "distinct qs" and "distinct (map fst ae)"
    and "\<And>r. r \<in> set qs \<Longrightarrow> \<exists>e es. map_of ae r = Some (e # es)"
  shows "\<exists>calls. to_hccl_call s ae (map (\<lambda>r. (r, 0)) qs) hid cid = Inr (drop_heads (set qs) ae, calls)
       \<and> (\<forall>c \<in> set calls. h_collective_id c = cid)"
  using assms
proof (induction qs arbitrary: ae hid)
  case Nil
  have "drop_heads {} ae = ae" by (simp add: drop_heads_def)
  then show ?case by simp
next
  case (Cons q qs)
  obtain e es where "map_of ae q = Some (e # es)" using Cons.prems(3) [of q] by auto
  note pop = pop_head [OF Cons.prems(2) this]
  have keys: "map fst (drop_heads {q} ae) = map fst ae"
    by (simp add: drop_heads_def comp_def case_prod_beta)
  have both: "drop_heads (set qs) (drop_heads {q} ae) = drop_heads (set (q # qs)) ae"
    using Cons.prems(1) by (auto simp: drop_heads_def)
  have "\<exists>calls. to_hccl_call s (drop_heads {q} ae) (map (\<lambda>r. (r, 0)) qs) (Suc hid) cid =
          Inr (drop_heads (set qs) (drop_heads {q} ae), calls) \<and> (\<forall>c \<in> set calls. h_collective_id c = cid)"
  proof (rule Cons.IH)
    fix r assume "r \<in> set qs"
    with Cons.prems(1) have "r \<noteq> q" by auto
    with \<open>r \<in> set qs\<close> Cons.prems(3) [of r]
    show "\<exists>e es. map_of (drop_heads {q} ae) r = Some (e # es)" by (auto simp: drop_heads_lookup)
  qed (use Cons.prems keys in simp_all)
  then show ?case by (auto simp: pop both)
qed

lemma idx_pairs_zero:
  "(\<And>r. r \<in> set qs \<Longrightarrow> r = fr \<or> idx r = Some 0) \<Longrightarrow> idx_pairs fr idx qs = Inr (map (\<lambda>r. (r, 0)) qs)"
proof (induction qs)
  case (Cons q qs)
  have "q = fr \<or> idx q = Some 0" using Cons.prems by simp
  moreover have "idx_pairs fr idx qs = Inr (map (\<lambda>r. (r, 0)) qs)" using Cons by simp
  ultimately show ?case by auto
qed simp

section \<open>One turn\<close>

context rank_iteration
begin

text \<open>The group, the entries and the counters of a turn in which every rank agrees.\<close>

lemma healthy_classify:
  fixes st :: build_state
  assumes rs: "rs = fr # rest" "distinct rs" and c: "agreeing env g rs c"
    and mm: "bs_mismatch st g = Some 0"
  shows "\<exists>m. check_current_entry_match iter (grid rs (c # cols)) (c fr) (be_members env)
            \<lparr>pd_guids = be_pg_guids env, pd_name = Some g, pd_mismatch = bs_mismatch st\<rparr>
            (match_record_init (set rs) rest (entry_state_init (c fr) (set rs)) fr) = Inr m
       \<and> mr_found_ranks m = set rest \<and> mr_candidate_ranks m = {fr}
       \<and> mr_found_idx m = (\<lambda>r. if r \<in> set rest then Some 0 else None)
       \<and> mr_candidate_idx m = Map.empty
       \<and> mr_entry_state m = entry_state_init (c fr) (set rs) \<and> mr_expected_ranks m = set rs
       \<and> \<not> mr_has_undecided_case m"
proof -
  define es where "es = entry_state_init (c fr) (set rs)"
  let ?m0 = "match_record_init (set rs) rest es fr"
  let ?pd = "\<lparr>pd_guids = be_pg_guids env, pd_name = Some g, pd_mismatch = bs_mismatch st\<rparr>"
  let ?qs = "iter (set rs \<inter> set rest)"
  have seq: "Some (es_collective_seq_id es) = e_collective_seq_id (c fr)"
    using c by (auto simp: es_def entry_state_init_def rs opt_or_def agreeing_def)
  have set_qs: "set ?qs = set rest" by (auto simp: set_iter rs)
  have "\<exists>m. check_ranks (grid rs (c # cols)) (c fr) (be_members env) ?pd ?qs ?m0 = Inr m
       \<and> mr_found_ranks m = mr_found_ranks ?m0 \<union> set ?qs
       \<and> mr_candidate_ranks m = mr_candidate_ranks ?m0
       \<and> mr_found_idx m = (\<lambda>r. if r \<in> set ?qs then Some 0 else mr_found_idx ?m0 r)
       \<and> mr_candidate_idx m = mr_candidate_idx ?m0
       \<and> mr_errors m = mr_errors ?m0 \<and> mr_entry_state m = mr_entry_state ?m0
       \<and> mr_expected_ranks m = mr_expected_ranks ?m0
       \<and> (mr_has_undecided_case m \<longrightarrow> mr_has_undecided_case ?m0)"
  proof (rule check_ranks_agree)
    fix q assume "q \<in> set ?qs"
    then have q: "q \<in> set rs" unfolding set_qs by (simp add: rs)
    show "map_of (grid rs (c # cols)) q = Some (c q # map (\<lambda>c. c q) cols)"
      using grid_lookup [OF q, of "c # cols"] by simp
    show "e_collective_seq_id (c q) = Some (es_collective_seq_id (mr_entry_state ?m0))"
      using c q by (auto simp: match_record_init_def seq agreeing_def rs)
    show "(case e_process_group (c q) of None \<Rightarrow> None | Some (n, _) \<Rightarrow> pd_guids ?pd (n, q)) = pd_name ?pd"
      using c q unfolding agreeing_def pg_data.select_convs by auto
    show "match_one_event (c fr) (c q) (be_members env) (pd_name ?pd) = Inr (match_info FULLY_MATCHED None)"
      using c q by (auto simp: agreeing_def rs)
  qed (simp add: mismatch_of_def mm)
  then show ?thesis
    by (auto simp: check_current_entry_match_def match_record_init_def set_qs es_def fun_eq_iff)
qed

lemma healthy_emit:
  assumes iter: "be_iter env = iter" and rs: "rs = fr # rest" "distinct rs"
    and ae: "bs_entries st = grid rs (c # cols)" and mm: "bs_mismatch st g = Some 0"
    and m: "mr_found_ranks m = set rs" "mr_expected_ranks m = set rs" "mr_entry_state m = es"
      "mr_found_idx m = (\<lambda>r. if r \<in> set rest then Some 0 else None)"
  shows "\<exists>calls. emit env fr m (Some g) (bs_mismatch st) st = Inr (st\<lparr>bs_entries := grid rs cols,
             bs_collectives := bs_collectives st
               @ [\<lparr>c_row = own_row es (length (bs_collectives st)) True, c_mismatch_collectives = None\<rparr>],
             bs_calls := bs_calls st @ calls\<rparr>)
         \<and> map h_global_rank calls = iter (set rs)
         \<and> (\<forall>h \<in> set calls. h_collective_id h = Some (length (bs_collectives st)))"
proof -
  have pairs: "idx_pairs fr (mr_found_idx m) (iter (set rs)) = Inr (map (\<lambda>r. (r, 0)) (iter (set rs)))"
    by (rule idx_pairs_zero) (auto simp: m set_iter rs)
  have look: "map_of (grid rs (c # cols)) q = Some (c q # map (\<lambda>c. c q) cols)"
    if "q \<in> set rs" for q using grid_lookup [OF that, of "c # cols"] by simp
  obtain calls where calls: "to_hccl_call es (grid rs (c # cols)) (map (\<lambda>r. (r, 0)) (iter (set rs)))
      (length (bs_calls st)) (Some (length (bs_collectives st))) = Inr (grid rs cols, calls)"
    and cid: "\<forall>h \<in> set calls. h_collective_id h = Some (length (bs_collectives st))"
    using pop_heads [of "iter (set rs)" "grid rs (c # cols)" es "length (bs_calls st)"
        "Some (length (bs_collectives st))"] look rs(2)
    by (auto simp: set_iter distinct_iter drop_heads_grid)
  then show ?thesis
    using pairs m to_hccl_call_ok [OF calls]
    by (intro exI [of _ calls])
       (simp add: emit_def Let_def iter ae mismatch_of_def mm to_collective_def comp_def)
qed

lemma healthy_step:
  assumes iter: "be_iter env = iter" and rs: "distinct rs" "rs \<noteq> []"
    and dumps: "be_dumps env = set rs" and mem: "be_members env g = Some (set rs)"
    and ver: "get_version_detail (be_version env) = Inr v"
    and c: "agreeing env g rs c" and ae: "bs_entries st = grid rs (c # cols)"
    and mm: "bs_mismatch st g = Some 0"
  shows "\<exists>calls row. build_step env st = Inr (False, st\<lparr>bs_entries := grid rs cols,
             bs_collectives := bs_collectives st @ [\<lparr>c_row = row, c_mismatch_collectives = None\<rparr>],
             bs_calls := bs_calls st @ calls\<rparr>)
         \<and> c_pass_check row \<and> c_id row = length (bs_collectives st)
         \<and> Some (c_collective_seq_id row) = e_collective_seq_id (c (hd rs))
         \<and> map h_global_rank calls = iter (set rs)
         \<and> (\<forall>h \<in> set calls. h_collective_id h = Some (length (bs_collectives st)))"
proof -
  obtain fr rest where r: "rs = fr # rest" using rs(2) by (cases rs) auto
  define es where "es = entry_state_init (c fr) (set rs)"
  obtain s where s: "\<forall>r \<in> set rs. \<not> empty_entry (c r) \<and> e_collective_seq_id (c r) = Some s
        \<and> (case e_process_group (c r) of None \<Rightarrow> None | Some (n, _) \<Rightarrow> be_pg_guids env (n, r)) = Some g"
    using c by (auto simp: agreeing_def)
  obtain m1 where m1: "check_current_entry_match iter (grid rs (c # cols)) (c fr) (be_members env)
       \<lparr>pd_guids = be_pg_guids env, pd_name = Some g, pd_mismatch = bs_mismatch st\<rparr>
       (match_record_init (set rs) rest es fr) = Inr m1"
    and f: "mr_found_ranks m1 = set rest" "mr_candidate_ranks m1 = {fr}"
      "mr_found_idx m1 = (\<lambda>r. if r \<in> set rest then Some 0 else None)" "mr_candidate_idx m1 = Map.empty"
      "mr_entry_state m1 = es" "mr_expected_ranks m1 = set rs" "\<not> mr_has_undecided_case m1"
    using healthy_classify [where st = st, OF r rs(1) c mm, of cols] unfolding es_def by blast
  let ?m2 = "promote_candidates m1"
  have m2: "mr_found_ranks ?m2 = set rs" "mr_expected_ranks ?m2 = set rs" "mr_entry_state ?m2 = es"
    "mr_found_idx ?m2 = (\<lambda>r. if r \<in> set rest then Some 0 else None)"
    using f by (auto simp: promote_candidates_def r)
  have err: "error_analysis iter (grid rs (c # cols)) (c fr) (set rs) fr m1 (bs_mismatch st) v (Some g) =
      Inr (?m2, bs_mismatch st)"
    using f by (simp add: error_analysis_def r)
  let ?row = "own_row es (length (bs_collectives st)) True"
  obtain calls where calls: "emit env fr ?m2 (Some g) (bs_mismatch st) st = Inr (st\<lparr>bs_entries := grid rs cols,
        bs_collectives := bs_collectives st @ [\<lparr>c_row = ?row, c_mismatch_collectives = None\<rparr>],
        bs_calls := bs_calls st @ calls\<rparr>)" "map h_global_rank calls = iter (set rs)"
      "\<forall>h \<in> set calls. h_collective_id h = Some (length (bs_collectives st))"
    using healthy_emit [OF iter r rs(1) ae mm m2] by blast
  have "analyse_entry env fr rest (c fr) st = Inr (False, st\<lparr>bs_entries := grid rs cols,
             bs_collectives := bs_collectives st @ [\<lparr>c_row = ?row, c_mismatch_collectives = None\<rparr>],
             bs_calls := bs_calls st @ calls\<rparr>)"
    using s m1 err calls(1)
    by (simp add: analyse_entry_def Let_def r iter ae mem [unfolded r] opt_or_def ver dumps
        es_def mismatch_of_def mm MISMATCH_TAIL_def)
  moreover have "bs_entries st = (fr, c fr # map (\<lambda>c. c fr) cols) # grid rest (c # cols)"
    by (simp add: ae grid_def r)
  moreover have "es_collective_seq_id es = s"
    using s by (simp add: es_def entry_state_init_def r opt_or_def)
  ultimately show ?thesis
    using calls(2,3) s
    by (intro exI [of _ calls] exI [of _ ?row]) (auto simp: build_step_def own_row_def r)
qed

lemma drain:
  assumes "bs_entries st = map (\<lambda>r. (r, [])) rs"
  shows "build_loop env st = Some (Inr (st\<lparr>bs_entries := []\<rparr>))"
  using assms
proof (induction rs arbitrary: st)
  case Nil
  then show ?case by (subst build_loop.simps) simp
next
  case (Cons r rs)
  have "build_loop env st = build_loop env (st\<lparr>bs_entries := map (\<lambda>r. (r, [])) rs\<rparr>)"
    using Cons.prems by (subst build_loop.simps) (simp add: build_step_def)
  also have "\<dots> = Some (Inr (st\<lparr>bs_entries := []\<rparr>))"
    using Cons.IH [of "st\<lparr>bs_entries := map (\<lambda>r. (r, [])) rs\<rparr>"] by simp
  finally show ?case .
qed

lemma healthy_loop:
  assumes iter: "be_iter env = iter" and rs: "distinct rs" "rs \<noteq> []"
    and dumps: "be_dumps env = set rs" and mem: "be_members env g = Some (set rs)"
    and ver: "get_version_detail (be_version env) = Inr v"
    and "\<forall>c \<in> set cols. agreeing env g rs c" and "bs_entries st = grid rs cols"
    and "bs_mismatch st g = Some 0"
  shows "\<exists>st' rows. build_loop env st = Some (Inr st') \<and> bs_entries st' = []
       \<and> bs_collectives st' = bs_collectives st @ rows
       \<and> (\<forall>c \<in> set rows. c_pass_check (c_row c) \<and> c_mismatch_collectives c = None)
       \<and> map (Some \<circ> c_collective_seq_id \<circ> c_row) rows = map (\<lambda>c. e_collective_seq_id (c (hd rs))) cols
       \<and> map h_global_rank (bs_calls st') =
           map h_global_rank (bs_calls st) @ concat (replicate (length cols) (iter (set rs)))"
  using assms(7-9)
proof (induction cols arbitrary: st)
  case Nil
  then have "bs_entries st = map (\<lambda>r. (r, [])) rs" by (simp add: grid_def)
  from drain [OF this] show ?case by simp
next
  case (Cons c cols)
  from healthy_step [OF iter rs dumps mem ver _ Cons.prems(2,3)] Cons.prems(1)
  obtain calls row where step: "build_step env st = Inr (False, st\<lparr>bs_entries := grid rs cols,
             bs_collectives := bs_collectives st @ [\<lparr>c_row = row, c_mismatch_collectives = None\<rparr>],
             bs_calls := bs_calls st @ calls\<rparr>)" (is "_ = Inr (False, ?st)")
    and row: "c_pass_check row" "Some (c_collective_seq_id row) = e_collective_seq_id (c (hd rs))"
    and calls: "map h_global_rank calls = iter (set rs)"
    by auto
  have "bs_entries st \<noteq> []" using Cons.prems(2) rs(2) by (cases rs) (auto simp: grid_def)
  then have "build_loop env st = build_loop env ?st"
    using step by (subst build_loop.simps) simp
  moreover have "\<exists>st' rows. build_loop env ?st = Some (Inr st') \<and> bs_entries st' = []
       \<and> bs_collectives st' = bs_collectives ?st @ rows
       \<and> (\<forall>c \<in> set rows. c_pass_check (c_row c) \<and> c_mismatch_collectives c = None)
       \<and> map (Some \<circ> c_collective_seq_id \<circ> c_row) rows = map (\<lambda>c. e_collective_seq_id (c (hd rs))) cols
       \<and> map h_global_rank (bs_calls st') =
           map h_global_rank (bs_calls ?st) @ concat (replicate (length cols) (iter (set rs)))"
    by (rule Cons.IH) (use Cons.prems in simp_all)
  ultimately obtain st' rows where
    "build_loop env st = Some (Inr st')" "bs_entries st' = []"
    "bs_collectives st' = bs_collectives ?st @ rows"
    "\<forall>c \<in> set rows. c_pass_check (c_row c) \<and> c_mismatch_collectives c = None"
    "map (Some \<circ> c_collective_seq_id \<circ> c_row) rows = map (\<lambda>c. e_collective_seq_id (c (hd rs))) cols"
    "map h_global_rank (bs_calls st') =
       map h_global_rank (bs_calls ?st) @ concat (replicate (length cols) (iter (set rs)))"
    by (elim exE conjE) (simp del: map_map)
  then show ?case using row calls
    by (intro exI [of _ st'] exI [of _ "\<lparr>c_row = row, c_mismatch_collectives = None\<rparr> # rows"])
       (simp add: comp_def)
qed

end

end
