(* ===== verification/Flight_Props.thy ===== *)
theory Flight_Props
  imports Flight_Healthy
begin

text \<open>
  What the flight recorder analysis guarantees, from matching two operations to the whole pairing
  loop, and the inputs on which it fails.
\<close>

section \<open>Sample traces\<close>

definition sample_entry :: "int \<Rightarrow> string \<Rightarrow> entry" where
  "sample_entry seq name =
     \<lparr>e_process_group = Some (''0'', ''default_pg''), e_profiling_name = Some (''hccl:'' @ name),
      e_collective_seq_id = Some seq, e_p2p_seq_id = None, e_record_id = Some seq,
      e_input_sizes = Some [[2, 3]], e_output_sizes = Some [[2, 3]],
      e_input_dtypes = Some [''float''], e_output_dtypes = Some [''float''],
      e_state = Some ''completed'', e_frames = Some [[(''name'', name)]],
      e_time_created_ns = None, e_other = False\<rparr>"

definition sample_tables :: group_tables where
  "sample_tables =
     \<lparr>gt_groups = [\<lparr>g_id = ''0h'', g_desc = ''default_pg'', g_size = 2\<rparr>],
      gt_group_of = [''0h'' \<mapsto> \<lparr>g_id = ''0h'', g_desc = ''default_pg'', g_size = 2\<rparr>],
      gt_memberships = [\<lparr>m_group_id = ''0h'', m_global_rank = 0\<rparr>,
                        \<lparr>m_group_id = ''0h'', m_global_rank = 1\<rparr>],
      gt_members = [''0h'' \<mapsto> {0, 1}],
      gt_pg_guids = [(''0'', 0) \<mapsto> ''0h'', (''0'', 1) \<mapsto> ''0h'']\<rparr>"

definition sample_op :: "string \<Rightarrow> Op" where
  "sample_op t =
     \<lparr>op_profiling_name = t, op_type = t, op_state = None, op_pg_name = ''0'', op_pg_desc = [],
      op_src = 0, op_dst = 1, op_src_g = 0, op_dst_g = 1, op_pg_size = 2,
      op_input_sizes = Some [[2]], op_output_sizes = Some [[2]], op_collective_seq_id = None,
      op_p2p_seq_id = None, op_input_dtypes = Some [''float''], op_output_dtypes = Some [''float''],
      op_time_created_ns = None\<rparr>"

lemma sample_op_sel [simp]:
  "op_type (sample_op t) = t" "op_state (sample_op t) = None" "op_src (sample_op t) = 0"
  "op_dst (sample_op t) = 1" "op_input_sizes (sample_op t) = Some [[2]]"
  "op_output_sizes (sample_op t) = Some [[2]]" "op_input_dtypes (sample_op t) = Some [''float'']"
  "op_output_dtypes (sample_op t) = Some [''float'']"
  by (simp_all add: sample_op_def)

section \<open>Matching\<close>

text \<open>
  Matching a send with a receive does not depend on which of the two is looked at first, and
  they match exactly when peers and sizes agree.
\<close>

lemma send_recv_match:
  assumes "op_type a = ''send''" and "op_type b = ''recv''"
  shows "op_match a b = op_match b a
       \<and> (op_match a b = Inr (match_info FULLY_MATCHED None) \<longleftrightarrow>
            op_src a = op_src b \<and> op_dst a = op_dst b \<and> op_input_sizes a = op_output_sizes b)"
  using p2p_symmetric [OF assms] by blast

lemma send_recv_match_witness:
  "op_match (sample_op ''send'') (sample_op ''recv'') = Inr (match_info FULLY_MATCHED None)"
  using send_recv_match [of "sample_op ''send''" "sample_op ''recv''"] by auto

text \<open>
  Complete criterion for a collective without an element-count rule whose data types agree:
  same type, same state, same sizes, and equal input and output sizes for an all-reduce.
\<close>

lemma collective_match:
  assumes "plain_collective (op_type a)"
    and "has_different_dtypes_and_non_empty_sizes a a = Inr False"
  shows "op_match a b = Inr (match_info FULLY_MATCHED None) \<longleftrightarrow>
           op_type a = op_type b \<and> op_state a = op_state b
           \<and> op_input_sizes a = op_input_sizes b \<and> op_output_sizes a = op_output_sizes b
           \<and> (op_type a \<in> {''all_reduce'', ''allreduce_coalesced''} \<longrightarrow>
                op_input_sizes a = op_output_sizes b)"
  by (rule plain_match_iff [OF assms])

lemma collective_match_witness:
  "op_match (sample_op ''all_reduce'') (sample_op ''all_reduce'') = Inr (match_info FULLY_MATCHED None)"
proof -
  have "plain_collective (op_type (sample_op ''all_reduce''))"
    by (simp add: plain_collective_def)
  moreover have "has_different_dtypes_and_non_empty_sizes (sample_op ''all_reduce'') (sample_op ''all_reduce'')
      = Inr False"
    by (simp add: has_different_dtypes_and_non_empty_sizes_def differ_nonempty_def dtype_set_def)
  ultimately show ?thesis using collective_match by simp
qed

text \<open>
  \<open>Op.__init__\<close> tests the builtin \<open>type\<close> where it means the operation's type, so an operation
  built from an event has no sizes, and an all-gather or reduce-scatter event never matches another:
  the comparison reports a mismatch of type or state or does not return.
\<close>

lemma gather_scatter_never_match:
  assumes "match_one_event ea eb mem pg = Inr mi" and "op_init ea mem pg = Inr a"
    and "counted_collective (op_type a)"
  shows "mi_state mi = COLLECTIVE_TYPE_MISMATCH \<or> mi_state mi = COLLECTIVE_STATE_MISMATCH"
  by (rule counted_never_matches [OF assms])

definition sample_gather_op :: Op where
  "sample_gather_op =
     \<lparr>op_profiling_name = ''all_gather'', op_type = ''all_gather'', op_state = Some ''completed'',
      op_pg_name = ''0'', op_pg_desc = ''default_pg'', op_src = -1, op_dst = -1, op_src_g = 1,
      op_dst_g = 1, op_pg_size = 2, op_input_sizes = None, op_output_sizes = None,
      op_collective_seq_id = Some 1, op_p2p_seq_id = None, op_input_dtypes = Some [''float''],
      op_output_dtypes = Some [''float''], op_time_created_ns = None\<rparr>"

lemma sample_gather:
  "op_init (sample_entry 1 ''all_gather'') (gt_members sample_tables) (Some ''0h'') = Inr sample_gather_op"
  "match_one_event (sample_entry 1 ''all_gather'') (sample_entry 1 ''all_reduce'')
     (gt_members sample_tables) (Some ''0h'')
   = Inr (match_info COLLECTIVE_TYPE_MISMATCH (Some (CulType ''all_gather'' ''all_reduce'')))"
  by code_simp+

lemma gather_scatter_never_match_witness:
  "mi_state (match_info COLLECTIVE_TYPE_MISMATCH (Some (CulType ''all_gather'' ''all_reduce'')))
     = COLLECTIVE_TYPE_MISMATCH \<or>
   mi_state (match_info COLLECTIVE_TYPE_MISMATCH (Some (CulType ''all_gather'' ''all_reduce'')))
     = COLLECTIVE_STATE_MISMATCH"
  by (rule gather_scatter_never_match [OF sample_gather(2,1)])
     (simp add: sample_gather_op_def counted_collective_def)

text \<open>
  an operation whose type the matcher does not know, such as \<open>hccl\<close> of the recorded name
  \<open>hccl:broadcast\<close>, fully matches any other operation.
\<close>

lemma unknown_type_match:
  assumes "op_type a \<notin> {''send'', ''recv'', ''coalesced''}" and "op_type a \<notin> set COLLECTIVES"
  shows "op_match a b = Inr (match_info FULLY_MATCHED None)"
  by (rule unknown_type_matches [OF assms])

lemma unknown_type_match_witness:
  "op_match (sample_op ''hccl'') (sample_op ''broadcast'') = Inr (match_info FULLY_MATCHED None)"
  by (rule unknown_type_match) (simp_all add: COLLECTIVES_def)

text \<open>
  C33: the classification of the ranks of a collective does not depend on the order in which Python
  iterates the set of ranks: either every order raises, or every order returns, with the same found
  and candidate ranks, the same indices and, up to their order, the same errors.
\<close>

theorem classification_order_independent:
  assumes "rank_iteration i1" and "rank_iteration i2"
  shows "(\<exists>e1 e2. check_current_entry_match i1 ae cur mem pd m = Inl e1
            \<and> check_current_entry_match i2 ae cur mem pd m = Inl e2)
       \<or> (\<exists>m1 m2. check_current_entry_match i1 ae cur mem pd m = Inr m1
            \<and> check_current_entry_match i2 ae cur mem pd m = Inr m2 \<and> same_classification m1 m2)"
proof -
  let ?S = "mr_expected_ranks m \<inter> set (mr_other_ranks m)"
  let ?c = "\<lambda>i. check_ranks ae cur mem pd (i ?S) m"
  have "finite ?S" by simp
  then have it: "distinct (i1 ?S)" "distinct (i2 ?S)" "set (i1 ?S) = set (i2 ?S)"
    using assms by (simp_all add: rank_iteration_def set_iteration_def)
  have ok: "is_ok (?c i1) = is_ok (?c i2)" using it(3) by (simp add: check_ranks_is_ok)
  show ?thesis
  proof (cases "?c i1")
    case (Inl e)
    then show ?thesis using ok by (auto simp: check_current_entry_match_def is_ok_def split: sum.splits)
  next
    case (Inr m1)
    then obtain m2 where "?c i2 = Inr m2" using ok by (auto simp: is_ok_def split: sum.splits)
    with Inr check_ranks_permute [OF Inr this it] show ?thesis
      by (auto simp: check_current_entry_match_def)
  qed
qed

definition sample_three :: MatchStateRecord where
  "sample_three =
     match_record_init {0, 1, 2} [1, 2] (entry_state_init (sample_entry 1 ''all_reduce'') {0, 1, 2}) 0"

definition sample_pd :: pg_data where
  "sample_pd = \<lparr>pd_guids = [(''0'', 0) \<mapsto> ''0h'', (''0'', 1) \<mapsto> ''0h'', (''0'', 2) \<mapsto> ''0h''],
     pd_name = Some ''0h'', pd_mismatch = [''0h'' \<mapsto> 0]\<rparr>"

definition sample_check :: "(int set \<Rightarrow> int list) \<Rightarrow> MatchStateRecord res" where
  "sample_check i =
     check_current_entry_match i
       [(0, [sample_entry 1 ''all_reduce'']), (1, [sample_entry 1 ''all_reduce'']),
        (2, [sample_entry 1 ''broadcast''])]
       (sample_entry 1 ''all_reduce'') [''0h'' \<mapsto> {0, 1, 2}] sample_pd sample_three"

lemma sample_check_outcome:
  "case sample_check sorted_list_of_set of
     Inl e \<Rightarrow> False | Inr m \<Rightarrow> mr_found_ranks m = {1} \<and> mr_candidate_ranks m = {0, 2}"
  by code_simp

theorem classification_order_independent_witness:
  "\<exists>m1 m2. sample_check sorted_list_of_set = Inr m1
     \<and> sample_check (rev \<circ> sorted_list_of_set) = Inr m2
     \<and> mr_found_ranks m2 = {1} \<and> mr_candidate_ranks m2 = {0, 2} \<and> same_classification m1 m2"
proof -
  have it: "rank_iteration (rev \<circ> sorted_list_of_set)" by unfold_locales simp_all
  obtain m1 where m1: "sample_check sorted_list_of_set = Inr m1"
      "mr_found_ranks m1 = {1}" "mr_candidate_ranks m1 = {0, 2}"
    using sample_check_outcome by (auto split: sum.splits)
  note either = classification_order_independent [OF ascending_ranks.rank_iteration_axioms it,
      of "[(0, [sample_entry 1 ''all_reduce'']), (1, [sample_entry 1 ''all_reduce'']),
           (2, [sample_entry 1 ''broadcast''])]" "sample_entry 1 ''all_reduce''" "[''0h'' \<mapsto> {0, 1, 2}]"
         sample_pd sample_three, folded sample_check_def]
  then obtain m2 where "sample_check (rev \<circ> sorted_list_of_set) = Inr m2" "same_classification m1 m2"
    using m1(1) by auto
  with m1 show ?thesis by (auto simp: same_classification_def)
qed

section \<open>Alignment and groups\<close>

text \<open>
  C34: alignment keeps, for every rank, the entries from the latest first record id on; on traces
  recorded without gaps each rank loses exactly the entries before that id, so all traces start at
  the same record.
\<close>

theorem alignment:
  assumes "align_trace_from_beginning ae = Inr ae'"
  shows "\<exists>start. (\<forall>(r, es) \<in> set ae. es \<noteq> [] \<and> record_id_of (hd es) \<le> start)
       \<and> (start = 0 \<or> (\<exists>(r, es) \<in> set ae. record_id_of (hd es) = start))
       \<and> map fst ae' = map fst ae
       \<and> (\<forall>r es. (r, es) \<in> set ae \<longrightarrow> (r, filter (\<lambda>e. start \<le> record_id_of e) es) \<in> set ae'
            \<and> ((\<forall>i < length es. record_id_of (es ! i) = record_id_of (hd es) + int i) \<longrightarrow>
                filter (\<lambda>e. start \<le> record_id_of e) es = drop (nat (start - record_id_of (hd es))) es))"
proof -
  from assms obtain start where m: "max_starting_record_id 0 ae = Inr start"
    and ae': "ae' = map (\<lambda>(r, es). (r, filter (\<lambda>e. record_id_of e \<ge> start) es)) ae"
    by (auto simp: align_trace_from_beginning_def rbind_eq_Inr)
  have gapless: "filter (\<lambda>e. start \<le> record_id_of e) es = drop (nat (start - record_id_of (hd es))) es"
    if "\<forall>i < length es. record_id_of (es ! i) = record_id_of (hd es) + int i" for es
    by (rule filter_from) (use that in auto)
  have kept: "(r, filter (\<lambda>e. start \<le> record_id_of e) es) \<in> set ae'" if "(r, es) \<in> set ae" for r es
    using that unfolding ae' by (auto intro: rev_image_eqI)
  have keys: "map fst ae' = map fst ae" by (simp add: ae' comp_def case_prod_beta)
  have attained: "start = 0 \<or> (\<exists>(r, es) \<in> set ae. record_id_of (hd es) = start)"
    using max_start_attained [OF m] by blast
  show ?thesis
    using max_start_bounds [OF m] attained keys kept gapless by (intro exI [of _ start]) blast
qed

theorem alignment_witness:
  "\<exists>ae'. align_trace_from_beginning [(0, [sample_entry 1 ''all_reduce'', sample_entry 2 ''all_reduce'']),
       (1, [sample_entry 2 ''all_reduce''])] = Inr ae' \<and> map fst ae' = [0, 1]"
proof -
  have "is_ok (align_trace_from_beginning [(0, [sample_entry 1 ''all_reduce'', sample_entry 2 ''all_reduce'']),
       (1, [sample_entry 2 ''all_reduce''])])" by code_simp
  then obtain ae' where a: "align_trace_from_beginning
      [(0, [sample_entry 1 ''all_reduce'', sample_entry 2 ''all_reduce'']),
       (1, [sample_entry 2 ''all_reduce''])] = Inr ae'" by (auto simp: is_ok_def split: sum.splits)
  from alignment [OF a] a show ?thesis by auto
qed

text \<open>
  alignment raises \<open>IndexError\<close> exactly when some rank dumped no entry; it raises nothing
  else.
\<close>

lemma alignment_error:
  "align_trace_from_beginning ae = Inl e \<longleftrightarrow> e = IndexError \<and> (\<exists>r. (r, []) \<in> set ae)"
proof -
  have "max_starting_record_id a x = Inl e \<Longrightarrow> e = IndexError" for a x e
    by (induction a x rule: max_starting_record_id.induct) auto
  then show ?thesis
    using max_start_fails [of ae 0]
    by (auto simp: align_trace_from_beginning_def rbind_def split: sum.splits)
qed

text \<open>
  C35: the group tables are consistent: one row per group, a membership row for exactly the ranks of
  each group, and a registered group behind the name of every process group of every rank.
\<close>

theorem group_tables_consistent:
  assumes "build_groups_memberships le cfg = Inr t"
  shows "tables_ok t
       \<and> (\<forall>(rank, pgs) \<in> set cfg. \<forall>pg \<in> set pgs. gt_pg_guids t (fst pg, rank) \<noteq> None)"
  by (rule build_groups_ok [OF assms])

definition sample_literals :: literal_env where
  "sample_literals = \<lparr>le_eval = (\<lambda>s. if s = ''[0, 1]'' then Inr (RanksList [0, 1]) else Inl ValueError),
     le_eval_text = (\<lambda>_. Inl ValueError), le_hash = (\<lambda>_. ''h'')\<rparr>"

definition sample_config :: pg_config where
  "sample_config = [(0, [(''0'', \<lparr>gi_desc = Some ''default_pg'', gi_ranks = Some ''[0, 1]''\<rparr>)]),
                    (1, [(''0'', \<lparr>gi_desc = Some ''default_pg'', gi_ranks = Some ''[0, 1]''\<rparr>)])]"

theorem group_tables_consistent_witness:
  "\<exists>t. build_groups_memberships sample_literals sample_config = Inr t \<and> tables_ok t"
proof -
  have "is_ok (build_groups_memberships sample_literals sample_config)" by code_simp
  then obtain t where "build_groups_memberships sample_literals sample_config = Inr t"
    by (auto simp: is_ok_def split: sum.splits)
  with group_tables_consistent [OF this] show ?thesis by blast
qed

section \<open>Pairing\<close>

text \<open>
  C2: the pairing loop returns on every input whose entries are not empty dictionaries, in any
  iteration order of Python's sets; when it returns rows, collectives and calls are numbered
  consecutively from zero and no entry is reported twice.
\<close>

theorem pairing_terminates:
  assumes "rank_iteration iter" and "distinct (map fst ae)" and "no_empty_entries ae"
  shows "\<exists>r. build_collectives iter ae t v = Some r
       \<and> (\<forall>cs calls. r = Inr (cs, calls) \<longrightarrow> map (c_id \<circ> c_row) cs = [0..<length cs]
            \<and> map h_id calls = [0..<length calls] \<and> length calls \<le> entry_count ae)"
proof -
  have i: "be_iter (pairing_env iter ae t v) = iter" by (simp add: pairing_env_def)
  note start = pairing_start_ok [OF assms(2), of iter t v]
  from rank_iteration.build_loop_returns [OF assms(1) i, of "pairing_start ae t"] start assms(3)
  obtain r where r: "build_loop (pairing_env iter ae t v) (pairing_start ae t) = Some r"
    and ok: "\<And>st. r = Inr st \<Longrightarrow> entry_count (bs_entries st) + length (bs_calls st) = entry_count ae
              \<and> ids_ok st"
    by (auto simp: pairing_start_def)
  show ?thesis
  proof (cases r)
    case (Inl e)
    then show ?thesis using r by (simp add: build_collectives_def)
  next
    case (Inr st)
    with ok [OF Inr] r show ?thesis by (auto simp: build_collectives_def ids_ok_def)
  qed
qed

definition sample_traces :: entries where
  "sample_traces =
     [(0, [sample_entry 1 ''all_reduce'', sample_entry 2 ''broadcast'']),
      (1, [sample_entry 1 ''all_reduce'', sample_entry 2 ''broadcast''])]"

lemma sample_traces_ok: "distinct (map fst sample_traces)" "no_empty_entries sample_traces"
  by (simp_all add: sample_traces_def no_empty_entries_def empty_entry_def sample_entry_def)

theorem pairing_terminates_witness:
  "\<exists>r. build_collectives sorted_list_of_set sample_traces sample_tables ''2.4'' = Some r"
  using pairing_terminates [OF ascending_ranks.rank_iteration_axioms sample_traces_ok, of sample_tables "''2.4''"]
  by blast

text \<open>The loop on the traces of a healthy job: everything is paired and reported.\<close>

lemma healthy_pairing:
  assumes "rank_iteration iter" and "distinct rs" and "rs \<noteq> []" and "gt_members t g = Some (set rs)"
    and "g \<in> g_id ` set (gt_groups t)" and "get_version_detail v = Inr d"
    and "\<forall>c \<in> set cols. agreeing (pairing_env iter (grid rs cols) t v) g rs c"
  shows "\<exists>st rows. build_loop (pairing_env iter (grid rs cols) t v) (pairing_start (grid rs cols) t)
             = Some (Inr st) \<and> bs_entries st = [] \<and> bs_collectives st = rows
       \<and> (\<forall>c \<in> set rows. c_pass_check (c_row c) \<and> c_mismatch_collectives c = None)
       \<and> map (Some \<circ> c_collective_seq_id \<circ> c_row) rows = map (\<lambda>c. e_collective_seq_id (c (hd rs))) cols
       \<and> map h_global_rank (bs_calls st) = concat (replicate (length cols) (iter (set rs)))"
proof -
  let ?env = "pairing_env iter (grid rs cols) t v" and ?st = "pairing_start (grid rs cols) t"
  have env: "be_iter ?env = iter" "be_dumps ?env = set rs" "be_members ?env = gt_members t"
    "be_version ?env = v"
    by (simp_all add: pairing_env_def grid_def image_image)
  have zero: "bs_mismatch ?st g = Some 0"
    using assms(5) by (simp add: pairing_start_def zero_counters)
  have "\<exists>st' rows. build_loop ?env ?st = Some (Inr st') \<and> bs_entries st' = []
       \<and> bs_collectives st' = bs_collectives ?st @ rows
       \<and> (\<forall>c \<in> set rows. c_pass_check (c_row c) \<and> c_mismatch_collectives c = None)
       \<and> map (Some \<circ> c_collective_seq_id \<circ> c_row) rows = map (\<lambda>c. e_collective_seq_id (c (hd rs))) cols
       \<and> map h_global_rank (bs_calls st') =
           map h_global_rank (bs_calls ?st) @ concat (replicate (length cols) (iter (set rs)))"
    by (rule rank_iteration.healthy_loop [OF assms(1) env(1) assms(2,3) env(2) _ _ assms(7) _ zero])
       (use assms(4,6) env in \<open>simp_all add: pairing_start_def\<close>)
  then show ?thesis by (auto simp: pairing_start_def)
qed

text \<open>
  C3: when every rank of a group that covers all dumps recorded the same sequence of matching
  collectives, the result is one passing collective per step, in order, and every entry is reported.
\<close>

theorem healthy_job:
  assumes "rank_iteration iter" and "distinct rs" and "rs \<noteq> []" and "gt_members t g = Some (set rs)"
    and "g \<in> g_id ` set (gt_groups t)" and "get_version_detail v = Inr d"
    and "\<forall>c \<in> set cols. agreeing (pairing_env iter (grid rs cols) t v) g rs c"
  shows "\<exists>cs calls. build_collectives iter (grid rs cols) t v = Some (Inr (cs, calls))
       \<and> map (Some \<circ> c_collective_seq_id \<circ> c_row) cs = map (\<lambda>c. e_collective_seq_id (c (hd rs))) cols
       \<and> (\<forall>c \<in> set cs. c_pass_check (c_row c) \<and> c_mismatch_collectives c = None)
       \<and> map h_global_rank calls = concat (replicate (length cols) (iter (set rs)))"
  using healthy_pairing [OF assms] by (auto simp: build_collectives_def)

definition sample_columns :: "column list" where
  "sample_columns = [(\<lambda>_. sample_entry 1 ''all_reduce''), (\<lambda>_. sample_entry 2 ''broadcast'')]"

lemma sample_match:
  "match_one_event (sample_entry 1 ''all_reduce'') (sample_entry 1 ''all_reduce'')
     (gt_members sample_tables) (Some ''0h'') = Inr (match_info FULLY_MATCHED None)"
  "match_one_event (sample_entry 2 ''broadcast'') (sample_entry 2 ''broadcast'')
     (gt_members sample_tables) (Some ''0h'') = Inr (match_info FULLY_MATCHED None)"
  by code_simp+

lemma sample_job:
  "distinct [0 :: int, 1]" "[0 :: int, 1] \<noteq> []" "gt_members sample_tables ''0h'' = Some (set [0, 1])"
  "''0h'' \<in> g_id ` set (gt_groups sample_tables)" "get_version_detail ''2.4'' = Inr (2, 4)"
  "\<forall>c \<in> set sample_columns.
     agreeing (pairing_env sorted_list_of_set (grid [0, 1] sample_columns) sample_tables ''2.4'') ''0h'' [0, 1] c"
proof -
  show "get_version_detail ''2.4'' = Inr (2, 4)" by code_simp
  show "\<forall>c \<in> set sample_columns.
     agreeing (pairing_env sorted_list_of_set (grid [0, 1] sample_columns) sample_tables ''2.4'') ''0h'' [0, 1] c"
    using sample_match
    by (simp add: sample_columns_def agreeing_def pairing_env_def)
       (simp add: sample_entry_def sample_tables_def empty_entry_def)
qed (simp_all add: sample_tables_def)

theorem healthy_job_witness:
  "\<exists>cs calls. build_collectives sorted_list_of_set (grid [0, 1] sample_columns) sample_tables ''2.4''
       = Some (Inr (cs, calls))
     \<and> map (c_collective_seq_id \<circ> c_row) cs = [1, 2] \<and> map h_global_rank calls = [0, 1, 0, 1]"
proof -
  from healthy_job [OF ascending_ranks.rank_iteration_axioms sample_job] obtain cs calls where
    "build_collectives sorted_list_of_set (grid [0, 1] sample_columns) sample_tables ''2.4''
       = Some (Inr (cs, calls))"
    "map (Some \<circ> (c_collective_seq_id \<circ> c_row)) cs = [Some 1, Some 2]"
    "map h_global_rank calls = [0, 1, 0, 1]"
    by (auto simp: sample_columns_def sample_entry_def numeral_2_eq_2 comp_assoc)
  moreover from this(2) have "map (c_collective_seq_id \<circ> c_row) cs = [1, 2]" by auto
  ultimately show ?thesis by (intro exI [of _ cs] exI [of _ calls] conjI)
qed

text \<open>
  C4: every call row is an entry removed from the traces: what the loop leaves and what it reports
  add up to what was recorded, and it leaves entries only when it gave up on a group after more than
  ten mismatches.
\<close>

theorem pairing_conserves:
  assumes "rank_iteration iter" and "distinct (map fst ae)" and "no_empty_entries ae"
    and "build_loop (pairing_env iter ae t v) (pairing_start ae t) = Some (Inr st)"
  shows "entry_count (bs_entries st) + length (bs_calls st) = entry_count ae
       \<and> (bs_entries st = [] \<or> (\<exists>g n. bs_mismatch st g = Some n \<and> n > MISMATCH_TAIL))"
proof -
  have i: "be_iter (pairing_env iter ae t v) = iter" by (simp add: pairing_env_def)
  note start = pairing_start_ok [OF assms(2), of iter t v]
  from rank_iteration.build_loop_returns [OF assms(1) i, of "pairing_start ae t"] start assms(3,4)
  show ?thesis by (auto simp: pairing_start_def)
qed

theorem pairing_conserves_witness:
  "\<exists>st. build_loop (pairing_env sorted_list_of_set (grid [0, 1] sample_columns) sample_tables ''2.4'')
          (pairing_start (grid [0, 1] sample_columns) sample_tables) = Some (Inr st)
      \<and> entry_count (grid [0, 1] sample_columns) = 4 \<and> length (bs_calls st) = 4
      \<and> entry_count (bs_entries st) + length (bs_calls st) = 4"
proof -
  obtain st where run: "build_loop (pairing_env sorted_list_of_set (grid [0, 1] sample_columns) sample_tables ''2.4'')
          (pairing_start (grid [0, 1] sample_columns) sample_tables) = Some (Inr st)"
    and all: "bs_entries st = []"
    using healthy_pairing [OF ascending_ranks.rank_iteration_axioms sample_job] by blast
  have ok: "distinct (map fst (grid [0, 1] sample_columns))" "no_empty_entries (grid [0, 1] sample_columns)"
    by (simp_all add: grid_def sample_columns_def no_empty_entries_def empty_entry_def sample_entry_def)
  have "entry_count (grid [0, 1] sample_columns) = 4"
    by (simp add: entry_count_def grid_def sample_columns_def)
  with pairing_conserves [OF ascending_ranks.rank_iteration_axioms ok run] run all show ?thesis
    by (auto simp: entry_count_def)
qed

text \<open>
  C36: an empty dictionary as the next entry of the first rank makes the loop run forever: it is
  skipped without being removed.
\<close>

theorem empty_entry_diverges:
  assumes "ae = (r, e # es) # rest" and "empty_entry e"
  shows "build_collectives iter ae t v = None"
proof -
  have "stuck (pairing_start ae t)" using assms by (simp add: stuck_def pairing_start_def)
  then show ?thesis by (simp add: build_collectives_def build_loop_stuck)
qed

definition blank_entry :: entry where
  "blank_entry =
     \<lparr>e_process_group = None, e_profiling_name = None, e_collective_seq_id = None,
      e_p2p_seq_id = None, e_record_id = None, e_input_sizes = None, e_output_sizes = None,
      e_input_dtypes = None, e_output_dtypes = None, e_state = None, e_frames = None,
      e_time_created_ns = None, e_other = False\<rparr>"

theorem empty_entry_diverges_witness:
  "build_collectives sorted_list_of_set [(0, [blank_entry])] sample_tables ''2.4'' = None"
  by (rule empty_entry_diverges [OF refl]) (simp add: blank_entry_def empty_entry_def)

text \<open>
  An entry whose process group its rank did not configure ends the analysis with a \<open>KeyError\<close>.
\<close>

lemma unknown_group_raises:
  assumes "rank_iteration iter" and "ae = (fr, e # es) # rest" and "\<not> empty_entry e"
    and "\<forall>n d. e_process_group e = Some (n, d) \<longrightarrow> gt_pg_guids t (n, fr) = None"
    and "get_version_detail v = Inr d"
  shows "build_collectives iter ae t v = Some (Inl KeyError)"
proof -
  have "build_step (pairing_env iter ae t v) (pairing_start ae t) = Inl KeyError"
    by (rule unknown_group_step [of _ _ fr e es rest d])
       (use assms in \<open>auto simp: pairing_env_def pairing_start_def split: option.splits\<close>)
  then show ?thesis
    unfolding build_collectives_def
    by (subst build_loop.simps) (simp add: pairing_start_def assms(2))
qed

lemma unknown_group_raises_witness:
  "build_collectives sorted_list_of_set [(7, [sample_entry 1 ''all_reduce''])] sample_tables ''2.4''
     = Some (Inl KeyError)"
proof (rule unknown_group_raises [OF ascending_ranks.rank_iteration_axioms refl])
  show "get_version_detail ''2.4'' = Inr (2, 4)" by code_simp
qed (simp_all add: sample_entry_def sample_tables_def empty_entry_def)

text \<open>
  When ranks disagree about a collective that no rank misses, the branch that should report the
  errors raises \<open>TypeError\<close>, because \<open>EntryState.log\<close> has no parameter \<open>errors\<close>.
\<close>

lemma disagreement_raises:
  assumes "mr_errors m \<noteq> []" and "mr_candidate_ranks m \<union> mr_found_ranks m = mr_expected_ranks m"
    and "card (mr_candidate_ranks m) \<noteq> 1" and "mismatch_of mm pg = Inr n" and "pg \<noteq> None"
  shows "error_analysis iter ae cur dumps fr m mm v pg = Inl TypeError"
  using assms by (auto simp: error_analysis_def bump_mismatch_def with_log_def)

lemma disagreement_raises_witness:
  "error_analysis sorted_list_of_set [] (sample_entry 1 ''all_reduce'') {0, 1} 0
     (sample_three\<lparr>mr_candidate_ranks := {0, 1, 2},
        mr_errors := [(1, match_info COLLECTIVE_STATE_MISMATCH None)]\<rparr>)
     [''0h'' \<mapsto> 0] (2, 4) (Some ''0h'') = Inl TypeError"
  by (rule disagreement_raises [where n = 0])
     (simp_all add: sample_three_def match_record_init_def mismatch_of_def)

end
