(* ===== verification/Time_Range.thy ===== *)
theory Time_Range
  imports Prelude
begin

text \<open>
  Interval arithmetic of the step-time report,
  \<open>torch_npu/profiler/analysis/prof_common_func/_time_range_calculator.py\<close>: merging of intervals and
  the overlap of communication and computation.

  A range covers the points from its start up to and without its end.  The ranges are objects that
  the loops update in place; an updated object is never read again through another reference, so
  the model passes values.
\<close>

section \<open>Ranges\<close>

datatype range_class = Plain | Comm

record TimeRange =
  start_ts :: int
  end_ts :: int
  range_kind :: range_class

definition generate_time_range :: "int \<Rightarrow> int \<Rightarrow> range_class \<Rightarrow> TimeRange" where
  "generate_time_range s e k = \<lparr>start_ts = s, end_ts = e, range_kind = k\<rparr>"

definition is_comm :: "TimeRange \<Rightarrow> bool" where
  "is_comm r = (range_kind r = Comm)"

section \<open>Merging\<close>

fun merge_loop :: "TimeRange \<Rightarrow> TimeRange list \<Rightarrow> TimeRange list" where
  "merge_loop current [] = [current]"
| "merge_loop current (r # rs) =
     (if start_ts r \<le> end_ts current
      then merge_loop (current\<lparr>end_ts := max (end_ts current) (end_ts r)\<rparr>) rs
      else current # merge_loop r rs)"

definition merge_continuous_intervals :: "TimeRange list \<Rightarrow> TimeRange list" where
  "merge_continuous_intervals rs =
     (case sort_key start_ts rs of [] \<Rightarrow> [] | r # rs' \<Rightarrow> merge_loop r (r # rs'))"

section \<open>Overlap\<close>

text \<open>One range against the current one: the ranges to report and the new current range.\<close>

definition overlap_step ::
  "TimeRange \<Rightarrow> TimeRange \<Rightarrow> TimeRange list \<times> TimeRange list \<times> TimeRange" where
  "overlap_step cur r =
     (if end_ts cur - start_ts r < 0
      then (if is_comm cur then [generate_time_range (start_ts cur) (end_ts cur) Plain] else [],
            [generate_time_range (end_ts cur) (start_ts r) Plain], r)
      else if end_ts cur - end_ts r < 0
      then (let pure = (if is_comm cur then [generate_time_range (start_ts cur) (start_ts r) Plain] else []);
                c1 = (if is_comm cur then generate_time_range (end_ts cur) (end_ts r) Plain else cur);
                c2 = (if is_comm r then generate_time_range (end_ts c1) (end_ts r) Comm else c1)
            in (pure, [], c2))
      else (let pure = (if is_comm cur then [generate_time_range (start_ts cur) (start_ts r) Plain] else []);
                c1 = (if is_comm cur then generate_time_range (end_ts r) (end_ts cur) Comm else cur);
                c2 = (if is_comm r then generate_time_range (end_ts r) (end_ts c1) Plain else c1)
            in (pure, [], c2)))"

fun overlap_loop :: "TimeRange \<Rightarrow> TimeRange list \<Rightarrow> TimeRange list \<times> TimeRange list" where
  "overlap_loop cur [] = (if is_comm cur then [cur] else [], [])"
| "overlap_loop cur (r # rs) =
     (case overlap_step cur r of (pure, free, cur') \<Rightarrow>
       case overlap_loop cur' rs of (ps, fs) \<Rightarrow> (pure @ ps, free @ fs))"

definition compute_pipeline_overlap ::
  "TimeRange list \<Rightarrow> TimeRange list \<Rightarrow> TimeRange list \<times> TimeRange list" where
  "compute_pipeline_overlap comm_rs comp_rs =
     (case sort_key start_ts (comm_rs @ comp_rs) of [] \<Rightarrow> ([], []) | r # rs \<Rightarrow> overlap_loop r rs)"

section \<open>The points of a range\<close>

definition pts :: "TimeRange \<Rightarrow> int set" where
  "pts r = {start_ts r..<end_ts r}"

definition points :: "TimeRange list \<Rightarrow> int set" where
  "points rs = (\<Union>r \<in> set rs. pts r)"

definition proper :: "TimeRange \<Rightarrow> bool" where
  "proper r \<longleftrightarrow> start_ts r \<le> end_ts r"

text \<open>In ascending order with a gap between any two.\<close>

definition separated :: "TimeRange list \<Rightarrow> bool" where
  "separated rs \<longleftrightarrow> sorted_wrt (\<lambda>a b. end_ts a < start_ts b) rs"

lemma points_simps [simp]:
  "points [] = {}" "points (r # rs) = pts r \<union> points rs" "points (rs @ rs') = points rs \<union> points rs'"
  by (auto simp: points_def)

lemma points_cong: "set rs = set rs' \<Longrightarrow> points rs = points rs'"
  by (simp add: points_def)

lemma generate_sel [simp]:
  "start_ts (generate_time_range s e k) = s" "end_ts (generate_time_range s e k) = e"
  "is_comm (generate_time_range s e k) = (k = Comm)" "pts (generate_time_range s e k) = {s..<e}"
  by (simp_all add: generate_time_range_def is_comm_def pts_def)

section \<open>Merging keeps the points and separates the ranges\<close>

lemma merge_loop_points:
  assumes "sorted (map start_ts (c # rs))" and "\<forall>r \<in> set (c # rs). proper r"
  shows "points (merge_loop c rs) = points (c # rs)"
  using assms
proof (induction c rs rule: merge_loop.induct)
  case (2 c r rs)
  show ?case
  proof (cases "start_ts r \<le> end_ts c")
    case True
    let ?c = "c\<lparr>end_ts := max (end_ts c) (end_ts r)\<rparr>"
    have "pts ?c = pts c \<union> pts r" using 2(3,4) True by (auto simp: pts_def proper_def)
    moreover have "points (merge_loop ?c rs) = points (?c # rs)"
      using 2(3,4) by (intro 2(1) [OF True]) (auto simp: proper_def)
    ultimately show ?thesis using True by auto
  next
    case False
    have "points (merge_loop r rs) = points (r # rs)"
      using 2(3,4) by (intro 2(2) [OF False]) auto
    then show ?thesis using False by simp
  qed
qed simp

lemma merge_loop_separated:
  assumes "sorted (map start_ts (c # rs))" and "\<forall>r \<in> set (c # rs). proper r"
  shows "separated (merge_loop c rs) \<and> (\<forall>r \<in> set (merge_loop c rs). proper r \<and> start_ts c \<le> start_ts r)"
  using assms
proof (induction c rs rule: merge_loop.induct)
  case (2 c r rs)
  show ?case
  proof (cases "start_ts r \<le> end_ts c")
    case True
    let ?c = "c\<lparr>end_ts := max (end_ts c) (end_ts r)\<rparr>"
    have "separated (merge_loop ?c rs)
        \<and> (\<forall>x \<in> set (merge_loop ?c rs). proper x \<and> start_ts ?c \<le> start_ts x)"
      using 2(3,4) by (intro 2(1) [OF True]) (auto simp: proper_def)
    then show ?thesis using True by simp
  next
    case False
    have "separated (merge_loop r rs) \<and> (\<forall>x \<in> set (merge_loop r rs). proper x \<and> start_ts r \<le> start_ts x)"
      using 2(3,4) by (intro 2(2) [OF False]) auto
    moreover have "start_ts c \<le> start_ts r" "proper c" using 2(3,4) by auto
    ultimately show ?thesis using False by (fastforce simp: separated_def)
  qed
qed (auto simp: separated_def)

lemma merge_ok:
  assumes "\<forall>r \<in> set rs. proper r"
  shows "points (merge_continuous_intervals rs) = points rs"
    and "separated (merge_continuous_intervals rs)"
    and "\<forall>r \<in> set (merge_continuous_intervals rs). proper r"
proof -
  have "points (merge_continuous_intervals rs) = points rs \<and> separated (merge_continuous_intervals rs)
      \<and> (\<forall>r \<in> set (merge_continuous_intervals rs). proper r)"
  proof (cases "sort_key start_ts rs")
    case Nil
    then have "rs = []" by (metis length_0_conv length_sort)
    then show ?thesis by (simp add: merge_continuous_intervals_def separated_def)
  next
    case (Cons r rs')
    have s: "set (r # rs') = set rs" using Cons by (metis set_sort)
    have srt: "sorted (map start_ts (r # rs'))" using Cons by (metis sorted_sort_key)
    have p: "\<forall>x \<in> set (r # r # rs'). proper x" using s assms by auto
    have srt': "sorted (map start_ts (r # r # rs'))" using srt by simp
    have "points (r # r # rs') = points rs" using s by (intro points_cong) auto
    then show ?thesis
      using merge_loop_points [OF srt' p] merge_loop_separated [OF srt' p] Cons
      by (auto simp: merge_continuous_intervals_def)
  qed
  then show "points (merge_continuous_intervals rs) = points rs"
    "separated (merge_continuous_intervals rs)"
    "\<forall>r \<in> set (merge_continuous_intervals rs). proper r" by auto
qed

section \<open>Overlap splits communication from computation\<close>

text \<open>
  The loop relies on merged inputs: ranges of one kind are separated, the current range starts first
  and those of its kind lie behind it.
\<close>

definition overlap_inv :: "TimeRange \<Rightarrow> TimeRange list \<Rightarrow> bool" where
  "overlap_inv cur rs \<longleftrightarrow>
     proper cur \<and> (\<forall>r \<in> set rs. proper r \<and> start_ts cur \<le> start_ts r
        \<and> (is_comm r = is_comm cur \<longrightarrow> end_ts cur < start_ts r))
     \<and> sorted_wrt (\<lambda>a b. start_ts a \<le> start_ts b \<and> (is_comm a = is_comm b \<longrightarrow> end_ts a < start_ts b)) rs"

definition comm_points :: "TimeRange list \<Rightarrow> int set" where
  "comm_points rs = points (filter is_comm rs)"

definition comp_points :: "TimeRange list \<Rightarrow> int set" where
  "comp_points rs = points (filter (\<lambda>r. \<not> is_comm r) rs)"

lemma kind_points [simp]:
  "comm_points [] = {}" "comp_points [] = {}"
  "comm_points (r # rs) = (if is_comm r then pts r else {}) \<union> comm_points rs"
  "comp_points (r # rs) = (if is_comm r then {} else pts r) \<union> comp_points rs"
  by (simp_all add: comm_points_def comp_points_def)

lemma points_split: "points rs = comm_points rs \<union> comp_points rs"
  by (auto simp: points_def comm_points_def comp_points_def)

text \<open>Where the points of the remaining ranges can lie.\<close>

lemma points_behind:
  "\<forall>r \<in> set rs. is_comm r \<longrightarrow> b < start_ts r \<Longrightarrow> x \<in> comm_points rs \<Longrightarrow> b < x"
  "\<forall>r \<in> set rs. \<not> is_comm r \<longrightarrow> b < start_ts r \<Longrightarrow> x \<in> comp_points rs \<Longrightarrow> b < x"
  by (fastforce simp: comm_points_def comp_points_def points_def pts_def)+

fun last_end :: "int \<Rightarrow> TimeRange list \<Rightarrow> int" where
  "last_end e [] = e"
| "last_end e (r # rs) = last_end (max e (end_ts r)) rs"

lemma last_end_ge: "e \<le> last_end e rs"
proof (induction e rs rule: last_end.induct)
  case (2 e r rs)
  then show ?case by (metis last_end.simps(2) max.boundedE)
qed simp

text \<open>The outcomes of a step on merged inputs.\<close>

lemma overlap_step_cases:
  assumes "overlap_inv cur (r # rs)" and "overlap_step cur r = (pure, free, cur')"
  obtains (gap) "end_ts cur < start_ts r" "cur' = r"
      "pure = (if is_comm cur then [generate_time_range (start_ts cur) (end_ts cur) Plain] else [])"
      "free = [generate_time_range (end_ts cur) (start_ts r) Plain]"
    | (comm) "start_ts r \<le> end_ts cur" "is_comm cur" "\<not> is_comm r" "free = []"
      "pure = [generate_time_range (start_ts cur) (start_ts r) Plain]"
      "cur' = (if end_ts cur < end_ts r then generate_time_range (end_ts cur) (end_ts r) Plain
               else generate_time_range (end_ts r) (end_ts cur) Comm)"
    | (comp) "start_ts r \<le> end_ts cur" "\<not> is_comm cur" "is_comm r" "free = []" "pure = []"
      "cur' = (if end_ts cur < end_ts r then generate_time_range (end_ts cur) (end_ts r) Comm
               else generate_time_range (end_ts r) (end_ts cur) Plain)"
proof -
  have k: "is_comm r = is_comm cur \<Longrightarrow> end_ts cur < start_ts r"
    using assms(1) by (simp add: overlap_inv_def)
  show thesis
  proof (cases "end_ts cur < start_ts r")
    case True
    with assms(2) show thesis by (intro gap) (auto simp: overlap_step_def)
  next
    case False
    with k have "is_comm r \<noteq> is_comm cur" by blast
    then consider "is_comm cur" "\<not> is_comm r" | "\<not> is_comm cur" "is_comm r" by blast
    then show thesis
    proof cases
      case 1
      with assms(2) False show thesis
        by (intro comm) (auto simp: overlap_step_def Let_def split: if_splits)
    next
      case 2
      with assms(2) False show thesis
        by (intro comp) (auto simp: overlap_step_def Let_def split: if_splits)
    qed
  qed
qed

lemma overlap_step_inv:
  assumes "overlap_inv cur (r # rs)" and "overlap_step cur r = (pure, free, cur')"
  shows "overlap_inv cur' rs \<and> end_ts cur' = max (end_ts cur) (end_ts r)"
  using assms(1)
  by (cases rule: overlap_step_cases [OF assms]) (fastforce simp: overlap_inv_def proper_def)+

lemma overlap_step_pure:
  assumes "overlap_inv cur (r # rs)" and "overlap_step cur r = (pure, free, cur')"
  shows "comm_points (cur # r # rs) - comp_points (cur # r # rs) =
           points pure \<union> (comm_points (cur' # rs) - comp_points (cur' # rs))"
proof -
  have b: "proper cur" "proper r" "start_ts cur \<le> start_ts r"
    using assms(1) by (auto simp: overlap_inv_def)
  have C: "is_comm cur \<Longrightarrow> \<forall>x \<in> comm_points rs. end_ts cur < x"
      "is_comm r \<Longrightarrow> \<forall>x \<in> comm_points rs. end_ts r < x"
    using assms(1) by (auto simp: overlap_inv_def intro: points_behind(1))
  have P: "\<not> is_comm cur \<Longrightarrow> \<forall>x \<in> comp_points rs. end_ts cur < x"
      "\<not> is_comm r \<Longrightarrow> \<forall>x \<in> comp_points rs. end_ts r < x"
    using assms(1) by (auto simp: overlap_inv_def intro: points_behind(2))
  have L: "\<forall>x \<in> points rs. start_ts r \<le> x"
    using assms(1) by (auto simp: overlap_inv_def points_def pts_def)
  show ?thesis
  proof (rule set_eqI)
    fix x
    have Cx: "is_comm cur \<Longrightarrow> x \<in> comm_points rs \<Longrightarrow> end_ts cur < x"
      "is_comm r \<Longrightarrow> x \<in> comm_points rs \<Longrightarrow> end_ts r < x" using C by auto
    have Px: "\<not> is_comm cur \<Longrightarrow> x \<in> comp_points rs \<Longrightarrow> end_ts cur < x"
      "\<not> is_comm r \<Longrightarrow> x \<in> comp_points rs \<Longrightarrow> end_ts r < x"
      "x \<in> comp_points rs \<or> x \<in> comm_points rs \<Longrightarrow> start_ts r \<le> x"
      using P L by (auto simp: points_split)
    show "x \<in> comm_points (cur # r # rs) - comp_points (cur # r # rs) \<longleftrightarrow>
           x \<in> points pure \<union> (comm_points (cur' # rs) - comp_points (cur' # rs))"
    proof (rule overlap_step_cases [OF assms], goal_cases)
      case 1
      then show ?case using b Cx Px by (cases "is_comm cur"; cases "is_comm r") (auto simp: pts_def proper_def)
    next
      case 2
      then show ?case using b Cx(1) Px(2) by (auto simp: pts_def proper_def)
    next
      case 3
      then show ?case using b Cx(2) Px(1) by (auto simp: pts_def proper_def)
    qed
  qed
qed

lemma overlap_step_free:
  assumes "overlap_inv cur (r # rs)" and "overlap_step cur r = (pure, free, cur')"
    and "max (end_ts cur) (end_ts r) \<le> e"
  shows "{start_ts cur..<e} - points (cur # r # rs) =
           points free \<union> ({start_ts cur'..<e} - points (cur' # rs))"
proof -
  have b: "proper cur" "proper r" "start_ts cur \<le> start_ts r"
    using assms(1) by (auto simp: overlap_inv_def)
  have L: "\<forall>x \<in> points rs. start_ts r \<le> x"
    using assms(1) by (auto simp: overlap_inv_def points_def pts_def)
  show ?thesis
  proof (rule overlap_step_cases [OF assms(1,2)], goal_cases)
    case 1
    then show ?case using b L assms(3) by (fastforce simp: pts_def proper_def)
  next
    case 2
    then show ?case using b assms(3) by (auto simp: pts_def proper_def split: if_splits)
  next
    case 3
    then show ?case using b assms(3) by (auto simp: pts_def proper_def split: if_splits)
  qed
qed

lemma overlap_loop_ok:
  assumes "overlap_inv cur rs" and "overlap_loop cur rs = (ps, fs)"
  shows "points ps = comm_points (cur # rs) - comp_points (cur # rs)
       \<and> points fs = {start_ts cur..<last_end (end_ts cur) rs} - points (cur # rs)"
  using assms
proof (induction cur rs arbitrary: ps fs rule: overlap_loop.induct)
  case (1 cur)
  then show ?case by (auto simp: pts_def split: if_splits)
next
  case (2 cur r rs)
  obtain pure free cur' where st: "overlap_step cur r = (pure, free, cur')" by (cases "overlap_step cur r")
  obtain ps' fs' where lp: "overlap_loop cur' rs = (ps', fs')" by (cases "overlap_loop cur' rs")
  have split: "ps = pure @ ps'" "fs = free @ fs'" using 2(3) st lp by auto
  note inv = overlap_step_inv [OF 2(2) st]
  have IH: "points ps' = comm_points (cur' # rs) - comp_points (cur' # rs)
       \<and> points fs' = {start_ts cur'..<last_end (end_ts cur') rs} - points (cur' # rs)"
    using 2(1) [OF st [symmetric] refl conjunct1 [OF inv] lp] .
  have e: "last_end (end_ts cur) (r # rs) = last_end (end_ts cur') rs" using inv by simp
  have "max (end_ts cur) (end_ts r) \<le> last_end (end_ts cur') rs"
    using last_end_ge [of "end_ts cur'" rs] inv by simp
  from overlap_step_free [OF 2(2) st this] overlap_step_pure [OF 2(2) st] IH
  show ?case unfolding e split by simp
qed

section \<open>The two functions\<close>

lemma sorted_disjoint_inv:
  assumes srt: "sorted (map start_ts (r # rs))" and pr: "\<forall>x \<in> set (r # rs). proper x"
    and dis: "\<And>k. sorted_wrt (\<lambda>a b. end_ts a < start_ts b) (filter (\<lambda>x. is_comm x = k) (r # rs))"
  shows "overlap_inv r rs"
proof -
  have "sorted_wrt (\<lambda>a b. start_ts a \<le> start_ts b \<and> (is_comm a = is_comm b \<longrightarrow> end_ts a < start_ts b)) (r # rs)"
    using srt dis
  proof (induction "r # rs" arbitrary: r rs)
    case (Cons x xs)
    have dis': "sorted_wrt (\<lambda>a b. end_ts a < start_ts b) (filter (\<lambda>y. is_comm y = k) xs)" for k
      using Cons.prems(2) [of k] by (auto split: if_splits)
    have "\<forall>y \<in> set xs. is_comm y = is_comm x \<longrightarrow> end_ts x < start_ts y"
      using Cons.prems(2) [of "is_comm x"] by auto
    then show ?case using Cons.prems(1) Cons.hyps dis' by (cases xs) auto
  qed
  then show ?thesis using pr by (auto simp: overlap_inv_def)
qed

lemma separated_sorted: "separated rs \<Longrightarrow> \<forall>r \<in> set rs. proper r \<Longrightarrow> sorted (map start_ts rs)"
  by (induction rs) (auto simp: separated_def proper_def intro: order.strict_implies_order)

lemma last_end_Max: "last_end e rs = Max (insert e (end_ts ` set rs))"
proof (induction e rs rule: last_end.induct)
  case (2 e r rs)
  then show ?case by (cases "rs = []") (auto simp: max.assoc)
qed simp

lemma overlap_ok:
  assumes "\<forall>r \<in> set cs. proper r \<and> is_comm r" and "separated cs"
    and "\<forall>r \<in> set ks. proper r \<and> \<not> is_comm r" and "separated ks"
    and "compute_pipeline_overlap cs ks = (ps, fs)"
  shows "points ps = points cs - points ks
       \<and> points fs = (if cs @ ks = [] then {}
           else {Min (start_ts ` set (cs @ ks))..<Max (end_ts ` set (cs @ ks))} - points (cs @ ks))"
proof (cases "sort_key start_ts (cs @ ks)")
  case Nil
  then have "cs @ ks = []" by (metis length_0_conv length_sort)
  then show ?thesis using assms(5) by (simp add: compute_pipeline_overlap_def)
next
  case (Cons r rs)
  have sets: "set (r # rs) = set (cs @ ks)" using Cons by (metis set_sort)
  have srt: "sorted (map start_ts (r # rs))" using Cons by (metis sorted_sort_key)
  have kinds: "filter is_comm (r # rs) = cs" "filter (\<lambda>x. \<not> is_comm x) (r # rs) = ks"
  proof -
    have "filter is_comm (cs @ ks) = cs" "filter (\<lambda>x. \<not> is_comm x) (cs @ ks) = ks"
      using assms(1,3) by (auto simp: filter_id_conv filter_empty_conv)
    moreover have "sort_key start_ts cs = cs" "sort_key start_ts ks = ks"
      using assms(1-4) by (auto intro!: sort_key_id_if_sorted separated_sorted)
    ultimately show "filter is_comm (r # rs) = cs" "filter (\<lambda>x. \<not> is_comm x) (r # rs) = ks"
      unfolding Cons [symmetric] filter_sort by auto
  qed
  have inv: "overlap_inv r rs"
  proof (rule sorted_disjoint_inv [OF srt])
    show "\<forall>x \<in> set (r # rs). proper x" unfolding sets using assms(1,3) by auto
    show "sorted_wrt (\<lambda>a b. end_ts a < start_ts b) (filter (\<lambda>x. is_comm x = k) (r # rs))" for k
      using kinds assms(2,4) unfolding separated_def by (cases k) (simp_all only: simp_thms)
  qed
  have "Min (start_ts ` set (cs @ ks)) = start_ts r"
    unfolding sets [symmetric] using srt by (intro Min_eqI) auto
  moreover have "Max (end_ts ` set (cs @ ks)) = last_end (end_ts r) rs"
    unfolding sets [symmetric] last_end_Max by simp
  moreover have "cs @ ks \<noteq> []" using sets by auto
  moreover have "overlap_loop r rs = (ps, fs)" using assms(5) Cons by (simp add: compute_pipeline_overlap_def)
  ultimately show ?thesis
    using overlap_loop_ok [OF inv, of ps fs] points_cong [OF sets]
    unfolding comm_points_def comp_points_def kinds by auto
qed

section \<open>Properties\<close>

text \<open>
  C16: merging keeps exactly the points covered, and returns proper ranges in ascending order with a
  gap between any two.
\<close>

theorem merge_covers:
  assumes "\<forall>r \<in> set rs. proper r"
  shows "points (merge_continuous_intervals rs) = points rs
       \<and> separated (merge_continuous_intervals rs)
       \<and> (\<forall>r \<in> set (merge_continuous_intervals rs). proper r)"
  using merge_ok [OF assms] by simp

theorem merge_covers_witness:
  "points (merge_continuous_intervals
      [generate_time_range 5 7 Plain, generate_time_range 1 3 Plain, generate_time_range 2 4 Plain])
   = {1..<4} \<union> {5..<7}"
proof -
  let ?rs = "[generate_time_range 5 7 Plain, generate_time_range 1 3 Plain, generate_time_range 2 4 Plain]"
  have "\<forall>r \<in> set ?rs. proper r" by (simp add: proper_def)
  from merge_covers [OF this] show ?thesis by auto
qed

text \<open>
  C11: on merged inputs the pure communication time is exactly the communication time during which
  nothing is computed, and the free time is exactly what lies between the first start and the last
  end and is covered by neither.
\<close>

theorem overlap_exact:
  assumes "\<forall>r \<in> set cs. proper r \<and> is_comm r" and "\<forall>r \<in> set ks. proper r \<and> \<not> is_comm r"
    and "separated cs" and "separated ks" and "compute_pipeline_overlap cs ks = (ps, fs)"
  shows "points ps = points cs - points ks
       \<and> points fs = (if cs @ ks = [] then {}
           else {Min (start_ts ` set (cs @ ks))..<Max (end_ts ` set (cs @ ks))} - points (cs @ ks))"
  by (rule overlap_ok) (use assms in auto)

theorem overlap_exact_witness:
  "points (fst (compute_pipeline_overlap [generate_time_range 0 10 Comm]
      [generate_time_range 4 6 Plain, generate_time_range 12 14 Plain])) = {0..<4} \<union> {6..<10}"
proof -
  let ?c = "[generate_time_range 0 10 Comm]"
    and ?k = "[generate_time_range 4 6 Plain, generate_time_range 12 14 Plain]"
  have 1: "\<forall>r \<in> set ?c. proper r \<and> is_comm r" "\<forall>r \<in> set ?k. proper r \<and> \<not> is_comm r"
    "separated ?c" "separated ?k" by (simp_all add: proper_def separated_def)
  have 2: "compute_pipeline_overlap ?c ?k = (fst (compute_pipeline_overlap ?c ?k), snd (compute_pipeline_overlap ?c ?k))"
    by simp
  from overlap_exact [OF 1 2] show ?thesis by auto
qed

end
