(* ===== verification/Task_Manager.thy ===== *)
theory Task_Manager
  imports Prelude "HOL-Library.Word"
begin

text \<open>
  The manager that runs the parsers of the analysis concurrently,
  \<open>torch_npu/profiler/analysis/prof_common_func/_task_manager.py\<close>: the dependency graph, the
  scheduling of ready tasks into at most \<open>max_concurrent_num\<close> subprocesses and threads, the messages
  that come back over pipes, and the end of a run.

  Tasks are referred to by name.  The receive buffers of the tasks are one table of the manager,
  indexed by name.  What the operating system and the workers decide is an argument: the file
  descriptors of a new pipe, the result of a task that runs in the main process, the encoding of
  objects (\<open>pickle\<close>), the bytes that a read returns, whether a worker is still alive.  Times,
  log records and the progress bar are not modelled.
\<close>

unbundle bit_operations_syntax

section \<open>Tasks\<close>

type_synonym byte = "8 word"

definition MAIN_PROCESS :: int where "MAIN_PROCESS = 0"
definition SUB_PROCESS :: int where "SUB_PROCESS = 1"
definition PTHREAD :: int where "PTHREAD = 2"
definition NON_BLOCKING :: int where "NON_BLOCKING = 4"

record ConcurrentTask =
  tk_name :: string
  tk_deps :: "string list"
  tk_mode :: int

definition is_non_blocking :: "ConcurrentTask \<Rightarrow> bool" where
  "is_non_blocking t = (tk_mode t AND NON_BLOCKING \<noteq> 0)"

datatype TaskStatus = Init | Running | Succeed | Failed | Stopped

record TaskInfo =
  ti_task :: ConcurrentTask
  ti_pre_tasks :: "string set"
  ti_post_tasks :: "string set"
  ti_status :: TaskStatus
  ti_output :: pyval
  ti_handler :: bool
  ti_pipe :: "int \<times> int"

definition task_info_init :: "ConcurrentTask \<Rightarrow> TaskInfo" where
  "task_info_init t =
     \<lparr>ti_task = t, ti_pre_tasks = set (tk_deps t), ti_post_tasks = {}, ti_status = Init,
      ti_output = PNone, ti_handler = False, ti_pipe = (-1, -1)\<rparr>"

section \<open>Messages\<close>

datatype TaskMsgType = RET_CODE | OUTPUT | PRINT

fun msg_value :: "TaskMsgType \<Rightarrow> int" where
  "msg_value RET_CODE = 1"
| "msg_value OUTPUT = 2"
| "msg_value PRINT = 3"

text \<open>\<open>n.to_bytes(4, "big")\<close> and \<open>int.from_bytes(bs, "big")\<close>.\<close>

definition to_bytes4 :: "int \<Rightarrow> byte list res" where
  "to_bytes4 n =
     (if 0 \<le> n \<and> n < 2 ^ 32
      then Inr [word_of_int (n div 2 ^ 24), word_of_int (n div 2 ^ 16), word_of_int (n div 2 ^ 8),
                word_of_int n]
      else Inl OverflowError)"

definition from_bytes :: "byte list \<Rightarrow> int" where
  "from_bytes bs = foldl (\<lambda>acc b. acc * 256 + uint b) 0 bs"

definition tlv :: "TaskMsgType \<Rightarrow> byte list \<Rightarrow> byte list res" where
  "tlv ty v =
     rbind (to_bytes4 (msg_value ty)) (\<lambda>t.
     rbind (to_bytes4 (int (length v))) (\<lambda>l. Inr (t @ l @ v)))"

text \<open>
  The bytes \<open>send_result_to_manager\<close> writes: the output, when there is one, then the return code.
\<close>

definition result_message :: "(pyval \<Rightarrow> byte list) \<Rightarrow> int \<Rightarrow> pyval \<Rightarrow> byte list res" where
  "result_message dumps ret_code output =
     rbind (if truthy output then tlv OUTPUT (dumps output) else Inr []) (\<lambda>b.
     rbind (to_bytes4 ret_code) (\<lambda>c.
     rbind (tlv RET_CODE c) (\<lambda>r. Inr (b @ r))))"

text \<open>
  The write loop: \<open>os.write\<close> accepts as many bytes as the given sizes say; the pieces written, or
  \<open>None\<close> while it still waits.
\<close>

fun write_loop :: "byte list \<Rightarrow> nat list \<Rightarrow> byte list list option" where
  "write_loop msg [] = None"
| "write_loop msg (k # ks) =
     (let n = min k (length msg)
      in if n < length msg then map_option ((#) (take n msg)) (write_loop (drop n msg) ks)
         else Some [msg])"

section \<open>The manager\<close>

record ConcurrentTasksManager =
  tm_tasks :: "(string \<times> TaskInfo) list"
  tm_listening :: "(int \<times> string) list"
  tm_ready :: "string list"
  tm_max :: int
  tm_buffers :: "string \<Rightarrow> byte list"
  tm_printed :: "byte list list"

record tm_env =
  te_iter :: "string set \<Rightarrow> string list"
  te_pipe :: "int set \<Rightarrow> int \<times> int"
  te_run :: "string \<Rightarrow> (string \<times> pyval) list \<Rightarrow> int \<times> pyval"
  te_loads :: "byte list \<Rightarrow> pyval res"

type_synonym 'a mgr = "(ConcurrentTasksManager, 'a) stm"

definition manager_init :: "int \<Rightarrow> ConcurrentTasksManager" where
  "manager_init n = \<lparr>tm_tasks = [], tm_listening = [], tm_ready = [], tm_max = n,
     tm_buffers = (\<lambda>_. []), tm_printed = []\<rparr>"

definition task_info :: "ConcurrentTasksManager \<Rightarrow> string \<Rightarrow> TaskInfo option" where
  "task_info m n = map_of (tm_tasks m) n"

definition update_info ::
  "string \<Rightarrow> (TaskInfo \<Rightarrow> TaskInfo) \<Rightarrow> ConcurrentTasksManager \<Rightarrow> ConcurrentTasksManager" where
  "update_info n f m =
     (case task_info m n of
        None \<Rightarrow> m
      | Some i \<Rightarrow> m\<lparr>tm_tasks := AList.update n (f i) (tm_tasks m)\<rparr>)"

fun link_deps :: "string \<Rightarrow> string list \<Rightarrow> unit mgr" where
  "link_deps name [] m = (Inr (), m)"
| "link_deps name (d # ds) m =
     (case task_info m d of
        None \<Rightarrow> (Inl ValueError, m)
      | Some _ \<Rightarrow> link_deps name ds
          (update_info d (\<lambda>i. i\<lparr>ti_post_tasks := insert name (ti_post_tasks i)\<rparr>) m))"

definition add_task :: "ConcurrentTask \<Rightarrow> unit mgr" where
  "add_task t =
     sseq (link_deps (tk_name t) (tk_deps t))
       (smod (\<lambda>m. m\<lparr>tm_tasks := AList.update (tk_name t) (task_info_init t) (tm_tasks m),
                    tm_ready := tm_ready m @ (if tk_deps t = [] then [tk_name t] else [])\<rparr>))"

subsection \<open>The end of a task\<close>

text \<open>\<open>set.remove\<close> raises when the element is missing; an unknown task is \<open>None\<close>.\<close>

definition release_post :: "string \<Rightarrow> string \<Rightarrow> unit mgr" where
  "release_post name post m =
     (case task_info m post of
        None \<Rightarrow> (Inl AttributeError, m)
      | Some i \<Rightarrow>
          (if name \<notin> ti_pre_tasks i then (Inl KeyError, m)
           else (let m' = update_info post (\<lambda>i. i\<lparr>ti_pre_tasks := ti_pre_tasks i - {name}\<rparr>) m
                 in (Inr (), if ti_pre_tasks i - {name} = {}
                             then m'\<lparr>tm_ready := tm_ready m' @ [post]\<rparr> else m'))))"

definition drop_dep :: "string \<Rightarrow> string \<Rightarrow> unit mgr" where
  "drop_dep name dep m =
     (case task_info m dep of
        None \<Rightarrow> (Inl AttributeError, m)
      | Some i \<Rightarrow>
          (if name \<notin> ti_post_tasks i then (Inl KeyError, m)
           else (Inr (), update_info dep (\<lambda>i. i\<lparr>ti_post_tasks := ti_post_tasks i - {name},
                   ti_output := (if ti_post_tasks i - {name} = {} then PNone else ti_output i)\<rparr>) m)))"

definition on_task_done :: "tm_env \<Rightarrow> string \<Rightarrow> int \<Rightarrow> pyval \<Rightarrow> unit mgr" where
  "on_task_done env name ret_code output m =
     (case task_info m name of
        None \<Rightarrow> (Inl AttributeError, m)
      | Some i \<Rightarrow>
          (if ret_code = 0
           then sseq (smod (update_info name (\<lambda>i. i\<lparr>ti_status := Succeed,
                   ti_output := (if output = PNone then ti_output i else output)\<rparr>)))
                (sseq (smap_seq (release_post name) (te_iter env (ti_post_tasks i)))
                      (smap_seq (drop_dep name) (tk_deps (ti_task i)))) m
           else (Inr (), update_info name (\<lambda>i. i\<lparr>ti_status := Failed\<rparr>) m)))"

definition remove_listening :: "string \<Rightarrow> unit mgr" where
  "remove_listening name m =
     (case task_info m name of
        None \<Rightarrow> (Inl AttributeError, m)
      | Some i \<Rightarrow>
          (let pr = fst (ti_pipe i)
           in if pr \<noteq> -1 \<and> map_of (tm_listening m) pr = None then (Inl KeyError, m)
              else (Inr (), update_info name (\<lambda>i. i\<lparr>ti_pipe := (-1, -1)\<rparr>)
                     (if pr = -1 then m
                      else m\<lparr>tm_listening := AList.delete pr (tm_listening m)\<rparr>))))"

definition on_task_exit :: "string \<Rightarrow> unit mgr" where
  "on_task_exit name =
     sseq (smod (update_info name (\<lambda>i. if ti_status i = Succeed then i else i\<lparr>ti_status := Failed\<rparr>)))
       (remove_listening name)"

subsection \<open>Starting tasks\<close>

definition add_listening :: "tm_env \<Rightarrow> string \<Rightarrow> unit mgr" where
  "add_listening env name =
     smod (\<lambda>m. let p = te_pipe env (fst ` set (tm_listening m))
               in (update_info name (\<lambda>i. i\<lparr>ti_pipe := p\<rparr>) m)
                    \<lparr>tm_listening := AList.update (fst p) name (tm_listening m)\<rparr>)"

definition user_input :: "ConcurrentTasksManager \<Rightarrow> TaskInfo \<Rightarrow> (string \<times> pyval) list" where
  "user_input m i =
     fold (\<lambda>d acc. case task_info m d of None \<Rightarrow> acc | Some j \<Rightarrow> AList.update d (ti_output j) acc)
       (tk_deps (ti_task i)) []"

text \<open>The write end of the pipe of a subprocess is closed in the parent.\<close>

definition run_in_subprocess :: "tm_env \<Rightarrow> string \<Rightarrow> unit mgr" where
  "run_in_subprocess env name =
     sseq (add_listening env name)
       (smod (update_info name (\<lambda>i. i\<lparr>ti_handler := True, ti_pipe := (fst (ti_pipe i), -1)\<rparr>)))"

definition run_in_pthread :: "tm_env \<Rightarrow> string \<Rightarrow> unit mgr" where
  "run_in_pthread env name =
     sseq (add_listening env name) (smod (update_info name (\<lambda>i. i\<lparr>ti_handler := True\<rparr>)))"

definition run_in_mainprocess :: "tm_env \<Rightarrow> string \<Rightarrow> unit mgr" where
  "run_in_mainprocess env name m =
     (case task_info m name of
        None \<Rightarrow> (Inl AttributeError, m)
      | Some i \<Rightarrow> (case te_run env name (user_input m i) of (ret, out) \<Rightarrow>
                    on_task_done env name ret out m))"

definition run_one_task :: "tm_env \<Rightarrow> string \<Rightarrow> unit mgr" where
  "run_one_task env name m =
     (case task_info m name of
        None \<Rightarrow> (Inl AttributeError, m)
      | Some i \<Rightarrow>
          sseq (smod (update_info name (\<lambda>i. i\<lparr>ti_status := Running\<rparr>)))
            (if tk_mode (ti_task i) AND SUB_PROCESS \<noteq> 0 then run_in_subprocess env name
             else if tk_mode (ti_task i) AND PTHREAD \<noteq> 0 then run_in_pthread env name
             else run_in_mainprocess env name) m)"

text \<open>Slices \<open>xs[:n]\<close> and \<open>xs[n:]\<close>; a negative bound counts from the end.\<close>

definition slice_bound :: "int \<Rightarrow> 'a list \<Rightarrow> nat" where
  "slice_bound n xs = (if n < 0 then nat (n + int (length xs)) else nat n)"

text \<open>
  The tasks that wait are computed first and stored last: what the tasks of the main process make
  ready in between is overwritten.
\<close>

definition schedule :: "tm_env \<Rightarrow> unit mgr" where
  "schedule env m =
     (let n = min (tm_max m - int (length (tm_listening m))) (int (length (tm_ready m)));
          k = slice_bound n (tm_ready m)
      in sseq (smap_seq (run_one_task env) (take k (tm_ready m)))
           (smod (\<lambda>m'. m'\<lparr>tm_ready := drop k (tm_ready m)\<rparr>)) m)"

subsection \<open>Receiving\<close>

definition dispatch :: "tm_env \<Rightarrow> string \<Rightarrow> int \<Rightarrow> byte list \<Rightarrow> unit mgr" where
  "dispatch env name ty v m =
     (if ty = msg_value RET_CODE then on_task_done env name (from_bytes v) PNone m
      else if ty = msg_value OUTPUT
      then (case te_loads env v of
              Inl e \<Rightarrow> (Inl e, m)
            | Inr x \<Rightarrow> (Inr (), update_info name (\<lambda>i. i\<lparr>ti_output := x\<rparr>) m))
      else if ty = msg_value PRINT then (Inr (), m\<lparr>tm_printed := tm_printed m @ [v]\<rparr>)
      else (Inr (), m))"

text \<open>Length of the first message of a buffer, when it is complete.\<close>

definition msg_len :: "byte list \<Rightarrow> nat option" where
  "msg_len msg =
     (if length msg < 8 then None
      else let n = 8 + nat (from_bytes (take 4 (drop 4 msg)))
           in if length msg < n then None else Some n)"

lemma msg_len_bounds: "msg_len msg = Some n \<Longrightarrow> 8 \<le> n \<and> n \<le> length msg"
  by (auto simp: msg_len_def Let_def split: if_splits)

function recv_loop :: "tm_env \<Rightarrow> string \<Rightarrow> byte list \<Rightarrow> unit mgr" where
  "recv_loop env name msg m =
     (case msg_len msg of
        None \<Rightarrow> (Inr (), m\<lparr>tm_buffers := (tm_buffers m)(name := msg)\<rparr>)
      | Some n \<Rightarrow>
          (case dispatch env name (from_bytes (take 4 msg)) (drop 8 (take n msg)) m of
             (Inl e, m') \<Rightarrow> (Inl e, m')
           | (Inr _, m') \<Rightarrow> recv_loop env name (drop n msg) m'))"
  by pat_completeness auto
termination
  by (relation "measure (\<lambda>(_, _, msg, _). length msg)") (auto dest: msg_len_bounds)

declare recv_loop.simps [simp del]

datatype read_result = WouldBlock | Data "byte list"

definition on_recv_msg :: "tm_env \<Rightarrow> int \<Rightarrow> read_result \<Rightarrow> unit mgr" where
  "on_recv_msg env fd r m =
     (case r of
        WouldBlock \<Rightarrow> (Inr (), m)
      | Data msg \<Rightarrow>
          (case map_of (tm_listening m) fd of
             None \<Rightarrow> (Inl AttributeError, m)
           | Some name \<Rightarrow> recv_loop env name (tm_buffers m name @ msg) m))"

subsection \<open>Listening and the run\<close>

record poll_event =
  pe_fd :: int
  pe_in :: "read_result option"
  pe_hup :: bool

definition on_event :: "tm_env \<Rightarrow> poll_event \<Rightarrow> unit mgr" where
  "on_event env ev =
     sseq (case pe_in ev of None \<Rightarrow> sret () | Some r \<Rightarrow> on_recv_msg env (pe_fd ev) r)
       (\<lambda>m. if pe_hup ev
            then (case map_of (tm_listening m) (pe_fd ev) of
                    None \<Rightarrow> (Inl AttributeError, m)
                  | Some name \<Rightarrow> on_task_exit name m)
            else (Inr (), m))"

definition only_non_blocking :: "ConcurrentTasksManager \<Rightarrow> bool" where
  "only_non_blocking m =
     list_all (\<lambda>(fd, n). case task_info m n of None \<Rightarrow> True | Some i \<Rightarrow> is_non_blocking (ti_task i))
       (tm_listening m)"

definition listen :: "tm_env \<Rightarrow> poll_event list \<Rightarrow> bool mgr" where
  "listen env evs m =
     (if only_non_blocking m then (Inr True, m)
      else sseq (smap_seq (on_event env) evs) (sret False) m)"

definition stop_task :: "(string \<Rightarrow> bool) \<Rightarrow> string \<Rightarrow> ConcurrentTasksManager \<Rightarrow> ConcurrentTasksManager" where
  "stop_task alive name =
     update_info name (\<lambda>i. if ti_handler i \<and> alive name then i\<lparr>ti_status := Stopped\<rparr> else i)"

definition finalize :: "(string \<Rightarrow> bool) \<Rightarrow> ConcurrentTasksManager \<Rightarrow> ConcurrentTasksManager" where
  "finalize alive m =
     fold (\<lambda>(n, i). if ti_status i = Succeed then id else stop_task alive n) (tm_tasks m) m"

definition clear_manager :: "(string \<Rightarrow> bool) \<Rightarrow> ConcurrentTasksManager \<Rightarrow> ConcurrentTasksManager" where
  "clear_manager alive m =
     (fold (\<lambda>(fd, n). stop_task alive n) (tm_listening m) m)
       \<lparr>tm_tasks := [], tm_listening := [], tm_ready := []\<rparr>"

text \<open>
  The loop of \<open>run\<close> on the poll results given: \<open>Inr True\<close> is a loop that has exited, \<open>Inr False\<close> one
  that still waits for events.
\<close>

fun run_loop :: "tm_env \<Rightarrow> poll_event list list \<Rightarrow> bool mgr" where
  "run_loop env [] m = (if only_non_blocking m then (Inr True, m) else (Inr False, m))"
| "run_loop env (evs # evss) m =
     (case listen env evs m of
        (Inl e, m') \<Rightarrow> (Inl e, m')
      | (Inr True, m') \<Rightarrow> (Inr True, m')
      | (Inr False, m') \<Rightarrow> sseq (schedule env) (run_loop env evss) m')"

definition run_manager :: "tm_env \<Rightarrow> (string \<Rightarrow> bool) \<Rightarrow> poll_event list list \<Rightarrow> ConcurrentTasksManager
   \<Rightarrow> ConcurrentTasksManager" where
  "run_manager env alive evss m =
     finalize alive (snd (sseq (schedule env) (run_loop env evss) m))"

end
