(* ===== verification/Task_Facts.thy ===== *)
theory Task_Facts
  imports Task_Manager
begin

text \<open>
  Invariants of the task manager: the prerequisite sets are exactly the unfinished dependencies, so
  no task starts before its prerequisites have succeeded; finishing a task never raises; the number
  of workers is bounded.
\<close>

section \<open>Looking up updated tasks\<close>

definition keys :: "ConcurrentTasksManager \<Rightarrow> string list" where
  "keys m = map fst (tm_tasks m)"

lemma task_info_update [simp]:
  "task_info (update_info n f m) k = (if k = n then map_option f (task_info m n) else task_info m k)"
  by (auto simp: task_info_def update_info_def update_conv split: option.splits)

lemma update_keys: "map_of ae r = Some x \<Longrightarrow> map fst (AList.update r y ae) = map fst ae"
  by (induction ae) (auto split: if_splits)

lemma task_keys_update [simp]: "keys (update_info n f m) = keys m"
  by (auto simp: keys_def update_info_def task_info_def update_keys split: option.splits)

lemma update_info_frame [simp]:
  "tm_listening (update_info n f m) = tm_listening m" "tm_ready (update_info n f m) = tm_ready m"
  "tm_max (update_info n f m) = tm_max m" "tm_buffers (update_info n f m) = tm_buffers m"
  "tm_printed (update_info n f m) = tm_printed m"
  by (simp_all add: update_info_def split: option.splits)

lemma task_info_other [simp]:
  "task_info (m\<lparr>tm_ready := r\<rparr>) = task_info m" "task_info (m\<lparr>tm_listening := l\<rparr>) = task_info m"
  "task_info (m\<lparr>tm_buffers := b\<rparr>) = task_info m" "task_info (m\<lparr>tm_printed := p\<rparr>) = task_info m"
  "keys (m\<lparr>tm_ready := r\<rparr>) = keys m" "keys (m\<lparr>tm_listening := l\<rparr>) = keys m"
  "keys (m\<lparr>tm_buffers := b\<rparr>) = keys m" "keys (m\<lparr>tm_printed := p\<rparr>) = keys m"
  by (simp_all add: task_info_def keys_def fun_eq_iff)

lemma task_info_key: "task_info m n = Some i \<Longrightarrow> n \<in> set (keys m)"
  by (auto simp: task_info_def keys_def dest!: map_of_SomeD intro: rev_image_eqI)

lemma key_task_info: "n \<in> set (keys m) \<Longrightarrow> \<exists>i. task_info m n = Some i"
  by (auto simp: task_info_def keys_def) (metis map_of_eq_None_iff not_None_eq rev_image_eqI fst_conv)

definition frame :: "ConcurrentTasksManager \<Rightarrow> ConcurrentTasksManager \<Rightarrow> bool" where
  "frame m m' \<longleftrightarrow> keys m' = keys m \<and> tm_listening m' = tm_listening m \<and> tm_max m' = tm_max m
     \<and> tm_buffers m' = tm_buffers m \<and> tm_printed m' = tm_printed m"

lemma frame_trans: "frame m m' \<Longrightarrow> frame m' m'' \<Longrightarrow> frame m m''"
  by (simp add: frame_def)

section \<open>The two loops at the end of a task\<close>

abbreviation unlinked :: "string \<Rightarrow> TaskInfo \<Rightarrow> TaskInfo" where
  "unlinked name i \<equiv> i\<lparr>ti_pre_tasks := ti_pre_tasks i - {name}\<rparr>"

lemma release_posts_ok:
  assumes "distinct ps" and "\<And>p. p \<in> set ps \<Longrightarrow> \<exists>i. task_info m p = Some i \<and> name \<in> ti_pre_tasks i"
  shows "\<exists>m'. smap_seq (release_post name) ps m = (Inr (), m') \<and> frame m m'
       \<and> (\<forall>k. task_info m' k = (if k \<in> set ps then map_option (unlinked name) (task_info m k)
                                else task_info m k))
       \<and> tm_ready m' = tm_ready m
           @ filter (\<lambda>p. \<exists>i. task_info m p = Some i \<and> ti_pre_tasks i - {name} = {}) ps"
  using assms
proof (induction ps arbitrary: m)
  case Nil
  then show ?case by (simp add: sret_def frame_def)
next
  case (Cons p ps)
  obtain i where i: "task_info m p = Some i" "name \<in> ti_pre_tasks i" using Cons.prems(2) [of p] by auto
  define m1 where "m1 = (let m' = update_info p (unlinked name) m
     in if ti_pre_tasks i - {name} = {} then m'\<lparr>tm_ready := tm_ready m' @ [p]\<rparr> else m')"
  have run: "release_post name p m = (Inr (), m1)" using i by (simp add: release_post_def m1_def Let_def)
  have info: "task_info m1 k = (if k = p then Some (unlinked name i) else task_info m k)" for k
    using i by (simp add: m1_def Let_def)
  have fr: "frame m m1" by (simp add: m1_def Let_def frame_def)
  have rd: "tm_ready m1 = tm_ready m @ (if ti_pre_tasks i - {name} = {} then [p] else [])"
    by (simp add: m1_def Let_def)
  have p: "p \<notin> set ps" using Cons.prems(1) by simp
  have "\<exists>i. task_info m1 q = Some i \<and> name \<in> ti_pre_tasks i" if "q \<in> set ps" for q
    using Cons.prems(2) [of q] that p info by auto
  then obtain m' where m': "smap_seq (release_post name) ps m1 = (Inr (), m')" "frame m1 m'"
      "\<forall>k. task_info m' k = (if k \<in> set ps then map_option (unlinked name) (task_info m1 k)
                                else task_info m1 k)"
      "tm_ready m' = tm_ready m1
           @ filter (\<lambda>p. \<exists>i. task_info m1 p = Some i \<and> ti_pre_tasks i - {name} = {}) ps"
    using Cons.IH [of m1] Cons.prems(1) by auto
  have "filter (\<lambda>q. \<exists>i. task_info m1 q = Some i \<and> ti_pre_tasks i - {name} = {}) ps =
        filter (\<lambda>q. \<exists>i. task_info m q = Some i \<and> ti_pre_tasks i - {name} = {}) ps"
    using p info by (intro filter_cong) auto
  then show ?case
    using run m' fr rd i info p
    by (intro exI [of _ m']) (auto simp: sseq_ok intro: frame_trans)
qed

abbreviation unneeded :: "string \<Rightarrow> TaskInfo \<Rightarrow> TaskInfo" where
  "unneeded name i \<equiv> i\<lparr>ti_post_tasks := ti_post_tasks i - {name},
     ti_output := (if ti_post_tasks i - {name} = {} then PNone else ti_output i)\<rparr>"

lemma drop_deps_ok:
  assumes "distinct ds" and "\<And>d. d \<in> set ds \<Longrightarrow> \<exists>i. task_info m d = Some i \<and> name \<in> ti_post_tasks i"
  shows "\<exists>m'. smap_seq (drop_dep name) ds m = (Inr (), m') \<and> frame m m' \<and> tm_ready m' = tm_ready m
       \<and> (\<forall>k. task_info m' k = (if k \<in> set ds then map_option (unneeded name) (task_info m k)
                                else task_info m k))"
  using assms
proof (induction ds arbitrary: m)
  case Nil
  then show ?case by (simp add: sret_def frame_def)
next
  case (Cons d ds)
  obtain i where i: "task_info m d = Some i" "name \<in> ti_post_tasks i" using Cons.prems(2) [of d] by auto
  let ?m1 = "update_info d (unneeded name) m"
  have run: "drop_dep name d m = (Inr (), ?m1)" using i by (simp add: drop_dep_def)
  have d: "d \<notin> set ds" using Cons.prems(1) by simp
  have "\<exists>i. task_info ?m1 q = Some i \<and> name \<in> ti_post_tasks i" if "q \<in> set ds" for q
    using Cons.prems(2) [of q] that d by auto
  moreover have "distinct ds" using Cons.prems(1) by simp
  ultimately obtain m' where m': "smap_seq (drop_dep name) ds ?m1 = (Inr (), m')" "frame ?m1 m'"
      "tm_ready m' = tm_ready ?m1"
      "\<forall>k. task_info m' k = (if k \<in> set ds then map_option (unneeded name) (task_info ?m1 k)
                                else task_info ?m1 k)"
    using Cons.IH [of ?m1] by blast
  then show ?case
    using run d by (intro exI [of _ m']) (auto simp: sseq_ok frame_def)
qed

section \<open>The invariant\<close>

definition succeeded :: "ConcurrentTasksManager \<Rightarrow> string set" where
  "succeeded m = {n. \<exists>i. task_info m n = Some i \<and> ti_status i = Succeed}"

definition waiting_for :: "ConcurrentTasksManager \<Rightarrow> string \<Rightarrow> string set" where
  "waiting_for m n = {k. \<exists>j. task_info m k = Some j \<and> n \<in> set (tk_deps (ti_task j)) \<and> ti_status j \<noteq> Succeed}"

text \<open>What holds of every task, whatever the lists of ready and listening tasks.\<close>

definition task_ok :: "ConcurrentTasksManager \<Rightarrow> string \<Rightarrow> TaskInfo \<Rightarrow> bool" where
  "task_ok m n i \<longleftrightarrow>
     tk_name (ti_task i) = n \<and> distinct (tk_deps (ti_task i)) \<and> n \<notin> set (tk_deps (ti_task i))
     \<and> set (tk_deps (ti_task i)) \<subseteq> set (keys m)
     \<and> ti_pre_tasks i = set (tk_deps (ti_task i)) - succeeded m
     \<and> ti_post_tasks i = waiting_for m n
     \<and> (ti_status i \<noteq> Init \<longrightarrow> ti_pre_tasks i = {})"

definition tasks_ok :: "ConcurrentTasksManager \<Rightarrow> bool" where
  "tasks_ok m \<longleftrightarrow> distinct (keys m) \<and> (\<forall>n i. task_info m n = Some i \<longrightarrow> task_ok m n i)"

definition startable :: "ConcurrentTasksManager \<Rightarrow> string \<Rightarrow> bool" where
  "startable m n \<longleftrightarrow> (\<exists>i. task_info m n = Some i \<and> ti_status i = Init \<and> ti_pre_tasks i = {})"

definition ready_ok :: "ConcurrentTasksManager \<Rightarrow> bool" where
  "ready_ok m \<longleftrightarrow> distinct (tm_ready m) \<and> (\<forall>n \<in> set (tm_ready m). startable m n)"

definition listening_ok :: "ConcurrentTasksManager \<Rightarrow> bool" where
  "listening_ok m \<longleftrightarrow>
     distinct (map fst (tm_listening m)) \<and> int (length (tm_listening m)) \<le> tm_max m
     \<and> (\<forall>(fd, n) \<in> set (tm_listening m). fd \<noteq> -1 \<and>
          (\<exists>i. task_info m n = Some i \<and> fst (ti_pipe i) = fd \<and> ti_status i \<noteq> Init))
     \<and> (\<forall>n i. task_info m n = Some i \<longrightarrow> fst (ti_pipe i) \<noteq> -1 \<longrightarrow> (fst (ti_pipe i), n) \<in> set (tm_listening m))"

definition tm_inv :: "ConcurrentTasksManager \<Rightarrow> bool" where
  "tm_inv m \<longleftrightarrow> tasks_ok m \<and> ready_ok m \<and> listening_ok m"

text \<open>The interpretation of the iteration contract the manager needs.\<close>

locale task_env =
  fixes env :: tm_env
  assumes iter_set: "finite S \<Longrightarrow> set (te_iter env S) = S"
    and iter_distinct: "finite S \<Longrightarrow> distinct (te_iter env S)"
    and pipe_fresh: "finite F \<Longrightarrow> fst (te_pipe env F) \<notin> F \<and> fst (te_pipe env F) \<ge> 0"

lemma derived_other [simp]:
  "succeeded (m\<lparr>tm_ready := r\<rparr>) = succeeded m" "succeeded (m\<lparr>tm_listening := l\<rparr>) = succeeded m"
  "succeeded (m\<lparr>tm_buffers := b\<rparr>) = succeeded m" "succeeded (m\<lparr>tm_printed := p\<rparr>) = succeeded m"
  "waiting_for (m\<lparr>tm_ready := r\<rparr>) = waiting_for m" "waiting_for (m\<lparr>tm_listening := l\<rparr>) = waiting_for m"
  "waiting_for (m\<lparr>tm_buffers := b\<rparr>) = waiting_for m" "waiting_for (m\<lparr>tm_printed := p\<rparr>) = waiting_for m"
  "startable (m\<lparr>tm_ready := r\<rparr>) = startable m" "startable (m\<lparr>tm_listening := l\<rparr>) = startable m"
  by (simp_all add: succeeded_def waiting_for_def startable_def fun_eq_iff)

lemma tasks_ok_other [simp]:
  "tasks_ok (m\<lparr>tm_ready := r\<rparr>) = tasks_ok m" "tasks_ok (m\<lparr>tm_listening := l\<rparr>) = tasks_ok m"
  "tasks_ok (m\<lparr>tm_buffers := b\<rparr>) = tasks_ok m" "tasks_ok (m\<lparr>tm_printed := p\<rparr>) = tasks_ok m"
  by (simp_all add: tasks_ok_def task_ok_def)

lemma finite_waiting: "finite (waiting_for m n)"
proof (rule finite_subset)
  show "waiting_for m n \<subseteq> set (keys m)" by (auto simp: waiting_for_def dest: task_info_key)
qed simp

text \<open>How the tasks change when one of them succeeds.\<close>

definition done_rel :: "string \<Rightarrow> string \<Rightarrow> TaskInfo \<Rightarrow> TaskInfo \<Rightarrow> bool" where
  "done_rel name k j j' \<longleftrightarrow>
     ti_status j' = (if k = name then Succeed else ti_status j)
     \<and> ti_task j' = ti_task j \<and> ti_pipe j' = ti_pipe j \<and> ti_handler j' = ti_handler j
     \<and> ti_pre_tasks j' = ti_pre_tasks j - {name} \<and> ti_post_tasks j' = ti_post_tasks j - {name}"

definition done_tasks :: "string \<Rightarrow> ConcurrentTasksManager \<Rightarrow> ConcurrentTasksManager \<Rightarrow> bool" where
  "done_tasks name m m' \<longleftrightarrow> (\<forall>k. rel_option (done_rel name k) (task_info m k) (task_info m' k))"

lemma done_tasks_someD:
  "done_tasks name m m' \<Longrightarrow> task_info m' k = Some j' \<Longrightarrow> \<exists>j. task_info m k = Some j \<and> done_rel name k j j'"
  unfolding done_tasks_def by (metis option_rel_Some2)

lemma done_tasks_someI:
  "done_tasks name m m' \<Longrightarrow> task_info m k = Some j \<Longrightarrow> \<exists>j'. task_info m' k = Some j' \<and> done_rel name k j j'"
  unfolding done_tasks_def by (metis option_rel_Some1)

lemma done_tasks_cases:
  assumes "done_tasks name m m'"
  obtains "task_info m k = None" "task_info m' k = None"
    | j j' where "task_info m k = Some j" "task_info m' k = Some j'" "done_rel name k j j'"
  using assms unfolding done_tasks_def
  by (cases "task_info m k"; cases "task_info m' k") (metis option.rel_distinct(1) option.rel_distinct(2) option.rel_inject(2))+

lemma done_succeeded:
  assumes "done_tasks name m m'" and "task_info m name = Some i"
  shows "succeeded m' = insert name (succeeded m)"
proof (rule set_eqI)
  fix k
  show "k \<in> succeeded m' \<longleftrightarrow> k \<in> insert name (succeeded m)"
    by (rule done_tasks_cases [OF assms(1), of k]) (use assms(2) in \<open>auto simp: succeeded_def done_rel_def\<close>)
qed

lemma done_waiting:
  assumes "done_tasks name m m'"
  shows "waiting_for m' n = waiting_for m n - {name}"
proof (rule set_eqI)
  fix k
  show "k \<in> waiting_for m' n \<longleftrightarrow> k \<in> waiting_for m n - {name}"
    by (rule done_tasks_cases [OF assms(1), of k]) (auto simp: waiting_for_def done_rel_def)
qed

lemma done_tasks_ok:
  assumes "done_tasks name m m'" and "tasks_ok m" and "task_info m name = Some i"
    and "keys m' = keys m" and "ti_status i \<noteq> Init"
  shows "tasks_ok m'"
  unfolding tasks_ok_def
proof (intro conjI allI impI)
  show "distinct (keys m')" using assms(2,4) by (simp add: tasks_ok_def)
next
  fix k j' assume "task_info m' k = Some j'"
  then obtain j where j: "task_info m k = Some j" "done_rel name k j j'"
    using done_tasks_someD [OF assms(1)] by blast
  have ok: "task_ok m k j" and oki: "task_ok m name i"
    using assms(2,3) j(1) by (simp_all add: tasks_ok_def)
  have e: "ti_task j' = ti_task j" "ti_pre_tasks j' = ti_pre_tasks j - {name}"
    "ti_post_tasks j' = ti_post_tasks j - {name}"
    "ti_status j' = (if k = name then Succeed else ti_status j)"
    using j(2) by (simp_all add: done_rel_def)
  have started: "ti_status j' \<noteq> Init \<Longrightarrow> ti_pre_tasks j' = {}"
    using ok oki e assms(3,5) j(1) by (cases "k = name") (auto simp: task_ok_def)
  show "task_ok m' k j'"
    using ok e started assms(4) done_succeeded [OF assms(1,3)] done_waiting [OF assms(1), of k]
    unfolding task_ok_def by auto
qed

lemma not_blocked:
  assumes "tasks_ok m" and "task_info m k = Some j" and "k \<notin> waiting_for m name"
  shows "name \<notin> ti_pre_tasks j"
proof -
  have "task_ok m k j" using assms(1,2) by (simp add: tasks_ok_def)
  then show ?thesis using assms(2,3) by (cases "ti_status j = Succeed") (auto simp: task_ok_def waiting_for_def)
qed

context task_env
begin

lemma on_task_done_success:
  assumes ok: "tasks_ok m" and i: "task_info m name = Some i" "ti_status i = Running"
  shows "\<exists>m' new. on_task_done env name 0 out m = (Inr (), m') \<and> frame m m' \<and> done_tasks name m m'
       \<and> tm_ready m' = tm_ready m @ new \<and> distinct new
       \<and> (\<forall>p. p \<in> set new \<longleftrightarrow> (\<exists>j. task_info m p = Some j \<and> name \<in> ti_pre_tasks j \<and> ti_pre_tasks j - {name} = {}))"
proof -
  have ti: "task_ok m name i" using ok i by (simp add: tasks_ok_def)
  have ns: "name \<notin> succeeded m" using i by (simp add: succeeded_def)
  define s where "s i = i\<lparr>ti_status := Succeed, ti_output := (if out = PNone then ti_output i else out)\<rparr>" for i :: TaskInfo
  let ?m1 = "update_info name s m"
  let ?ps = "te_iter env (ti_post_tasks i)" and ?ds = "tk_deps (ti_task i)"
  have post: "ti_post_tasks i = waiting_for m name" using ti by (simp add: task_ok_def)
  have ps: "set ?ps = waiting_for m name" "distinct ?ps"
    using iter_set [OF finite_waiting] iter_distinct [OF finite_waiting] by (simp_all add: post)
  have self: "name \<notin> waiting_for m name" using ti i by (auto simp: waiting_for_def task_ok_def)
  have blocked: "\<exists>j. task_info m p = Some j \<and> name \<in> ti_pre_tasks j" if "p \<in> set ?ps" for p
    using that ps(1) ok ns by (fastforce simp: waiting_for_def tasks_ok_def task_ok_def)
  have "\<exists>j. task_info ?m1 p = Some j \<and> name \<in> ti_pre_tasks j" if "p \<in> set ?ps" for p
    using blocked [OF that] that ps(1) self by auto
  from release_posts_ok [OF ps(2) this] obtain m2 where
    m2: "smap_seq (release_post name) ?ps ?m1 = (Inr (), m2)" "frame ?m1 m2"
      "\<And>k. task_info m2 k = (if k \<in> set ?ps then map_option (unlinked name) (task_info ?m1 k) else task_info ?m1 k)"
      "tm_ready m2 = tm_ready ?m1 @ filter (\<lambda>p. \<exists>i. task_info ?m1 p = Some i \<and> ti_pre_tasks i - {name} = {}) ?ps"
    by blast
  have ds: "distinct ?ds" "name \<notin> set ?ds" using ti by (simp_all add: task_ok_def)
  have needed: "\<exists>j. task_info m d = Some j \<and> name \<in> ti_post_tasks j" if "d \<in> set ?ds" for d
  proof -
    from that ti obtain j where j: "task_info m d = Some j"
      by (meson key_task_info subsetD task_ok_def)
    then have "ti_post_tasks j = waiting_for m d" using ok by (simp add: tasks_ok_def task_ok_def)
    then show ?thesis using i that j by (simp add: waiting_for_def)
  qed
  have "\<exists>j. task_info m2 d = Some j \<and> name \<in> ti_post_tasks j" if "d \<in> set ?ds" for d
  proof -
    have "d \<noteq> name" using that ds(2) by auto
    then show ?thesis using needed [OF that] m2(3) [of d] by auto
  qed
  from drop_deps_ok [OF ds(1) this] obtain m3 where
    m3: "smap_seq (drop_dep name) ?ds m2 = (Inr (), m3)" "frame m2 m3" "tm_ready m3 = tm_ready m2"
      "\<And>k. task_info m3 k = (if k \<in> set ?ds then map_option (unneeded name) (task_info m2 k) else task_info m2 k)"
    by blast
  have run: "on_task_done env name 0 out m = (Inr (), m3)"
    using i m2(1) m3(1) unfolding s_def by (simp add: on_task_done_def sseq_ok smod_def)
  have dt: "done_tasks name m m3"
    unfolding done_tasks_def
  proof
    fix k
    show "rel_option (done_rel name k) (task_info m k) (task_info m3 k)"
    proof (cases "task_info m k")
      case None
      then show ?thesis using i m2(3) [of k] m3(4) [of k] by (auto split: if_splits)
    next
      case (Some j)
      have pre: "k \<notin> set ?ps \<Longrightarrow> name \<notin> ti_pre_tasks j"
        using not_blocked [OF ok Some] ps(1) by simp
      have "ti_post_tasks j = waiting_for m k" using ok Some by (simp add: tasks_ok_def task_ok_def)
      then have pst: "k \<notin> set ?ds \<Longrightarrow> name \<notin> ti_post_tasks j" using i by (simp add: waiting_for_def)
      show ?thesis
        using Some m2(3) [of k] m3(4) [of k] pre pst ps(1) self ds(2)
        by (cases "k = name"; cases "k \<in> set ?ps"; cases "k \<in> set ?ds")
           (auto simp: done_rel_def s_def)
    qed
  qed
  let ?new = "filter (\<lambda>p. \<exists>i. task_info ?m1 p = Some i \<and> ti_pre_tasks i - {name} = {}) ?ps"
  have "\<exists>j. task_info m p = Some j \<and> name \<in> ti_pre_tasks j \<and> ti_pre_tasks j - {name} = {}"
    if "p \<in> set ?new" for p
  proof -
    from that have p: "p \<in> set ?ps" "p \<noteq> name" using ps(1) self by auto
    with blocked [OF p(1)] that show ?thesis by auto
  qed
  moreover have "p \<in> set ?new"
    if "task_info m p = Some j" "name \<in> ti_pre_tasks j" "ti_pre_tasks j - {name} = {}" for p j
  proof -
    have p: "p \<in> set ?ps" using not_blocked [OF ok that(1)] that(2) ps(1) by auto
    then show ?thesis using that ps(1) self by auto
  qed
  ultimately have "\<forall>p. p \<in> set ?new \<longleftrightarrow>
      (\<exists>j. task_info m p = Some j \<and> name \<in> ti_pre_tasks j \<and> ti_pre_tasks j - {name} = {})" by blast
  then show ?thesis
    using run dt m2(2,4) m3(2,3) ps(2)
    by (intro exI [of _ m3] exI [of _ ?new]) (auto simp: frame_def)
qed

end

section \<open>Small changes\<close>

lemma tasks_ok_update:
  assumes ok: "tasks_ok m" and i: "task_info m n = Some i"
    and same: "ti_task (f i) = ti_task i" "ti_pre_tasks (f i) = ti_pre_tasks i"
      "ti_post_tasks (f i) = ti_post_tasks i"
    and st: "ti_status (f i) = Succeed \<longleftrightarrow> ti_status i = Succeed"
      "ti_status (f i) \<noteq> Init \<Longrightarrow> ti_pre_tasks i = {}"
  shows "tasks_ok (update_info n f m)"
proof -
  let ?m = "update_info n f m"
  have sc: "succeeded ?m = succeeded m" using i st(1) by (auto simp: succeeded_def)
  have wf: "waiting_for ?m k = waiting_for m k" for k
    using i st(1) same(1) by (auto simp: waiting_for_def)
  have "task_ok ?m k j'" if j': "task_info ?m k = Some j'" for k j'
  proof (cases "k = n")
    case True
    moreover have "task_ok m n i" using ok i by (simp add: tasks_ok_def)
    ultimately show ?thesis using j' i same st(2) sc wf by (simp add: task_ok_def)
  next
    case False
    then have "task_ok m k j'" using ok j' by (simp add: tasks_ok_def)
    then show ?thesis unfolding task_ok_def sc wf task_keys_update .
  qed
  then show ?thesis using ok by (simp add: tasks_ok_def)
qed

lemma started_clear:
  "tasks_ok m \<Longrightarrow> task_info m k = Some j \<Longrightarrow> ti_status j \<noteq> Init \<Longrightarrow> ti_pre_tasks j = {}"
  unfolding tasks_ok_def task_ok_def by blast

lemma startable_update:
  "startable m k \<Longrightarrow> k \<noteq> n \<Longrightarrow> startable (update_info n f m) k"
  by (simp add: startable_def)

lemma listening_okI:
  assumes "distinct (map fst (tm_listening m))" and "int (length (tm_listening m)) \<le> tm_max m"
    and "\<And>fd n. (fd, n) \<in> set (tm_listening m) \<Longrightarrow>
      fd \<noteq> -1 \<and> (\<exists>i. task_info m n = Some i \<and> fst (ti_pipe i) = fd \<and> ti_status i \<noteq> Init)"
    and "\<And>n i. task_info m n = Some i \<Longrightarrow> fst (ti_pipe i) \<noteq> -1 \<Longrightarrow> (fst (ti_pipe i), n) \<in> set (tm_listening m)"
  shows "listening_ok m"
  using assms unfolding listening_ok_def by blast

lemma listening_okD:
  assumes "listening_ok m"
  shows "(fd, n) \<in> set (tm_listening m) \<Longrightarrow>
      fd \<noteq> -1 \<and> (\<exists>i. task_info m n = Some i \<and> fst (ti_pipe i) = fd \<and> ti_status i \<noteq> Init)"
    and "task_info m n = Some i \<Longrightarrow> fst (ti_pipe i) \<noteq> -1 \<Longrightarrow> (fst (ti_pipe i), n) \<in> set (tm_listening m)"
    and "distinct (map fst (tm_listening m))" and "int (length (tm_listening m)) \<le> tm_max m"
  using assms unfolding listening_ok_def by blast+

lemma listening_cong:
  assumes "listening_ok m" and "tm_listening m' = tm_listening m" and "tm_max m' = tm_max m"
    and rel: "\<And>k. rel_option (\<lambda>j j'. ti_pipe j' = ti_pipe j \<and> (ti_status j \<noteq> Init \<longrightarrow> ti_status j' \<noteq> Init))
                (task_info m k) (task_info m' k)"
  shows "listening_ok m'"
proof (rule listening_okI)
  show "distinct (map fst (tm_listening m'))" "int (length (tm_listening m')) \<le> tm_max m'"
    using listening_okD(3,4) [OF assms(1)] assms(2,3) by simp_all
next
  fix fd n assume "(fd, n) \<in> set (tm_listening m')"
  then obtain i where "task_info m n = Some i" "fst (ti_pipe i) = fd" "ti_status i \<noteq> Init" "fd \<noteq> -1"
    using listening_okD(1) [OF assms(1)] assms(2) by fastforce
  then show "fd \<noteq> -1 \<and> (\<exists>i. task_info m' n = Some i \<and> fst (ti_pipe i) = fd \<and> ti_status i \<noteq> Init)"
    using rel [of n] by (auto simp: option_rel_Some1)
next
  fix n i assume "task_info m' n = Some i" "fst (ti_pipe i) \<noteq> -1"
  then show "(fst (ti_pipe i), n) \<in> set (tm_listening m')"
    using listening_okD(2) [OF assms(1), of n] rel [of n] assms(2) by (auto simp: option_rel_Some2)
qed

lemma listening_update:
  assumes "listening_ok m" and "\<And>i. task_info m n = Some i \<Longrightarrow> ti_pipe (f i) = ti_pipe i
      \<and> (ti_status i \<noteq> Init \<longrightarrow> ti_status (f i) \<noteq> Init)"
  shows "listening_ok (update_info n f m)"
proof (rule listening_cong [OF assms(1)])
  fix k
  show "rel_option (\<lambda>j j'. ti_pipe j' = ti_pipe j \<and> (ti_status j \<noteq> Init \<longrightarrow> ti_status j' \<noteq> Init))
          (task_info m k) (task_info (update_info n f m) k)"
    using assms(2) by (cases "task_info m k") (auto simp: option_rel_Some1)
qed simp_all

lemma listening_done:
  assumes "listening_ok m" and "frame m m'" and "done_tasks name m m'"
  shows "listening_ok m'"
proof (rule listening_cong [OF assms(1)])
  fix k
  show "rel_option (\<lambda>j j'. ti_pipe j' = ti_pipe j \<and> (ti_status j \<noteq> Init \<longrightarrow> ti_status j' \<noteq> Init))
          (task_info m k) (task_info m' k)"
    by (rule done_tasks_cases [OF assms(3), of k]) (auto simp: done_rel_def)
qed (use assms(2) in \<open>simp_all add: frame_def\<close>)

lemma startable_done:
  assumes "startable m k" and "done_tasks name m m'" and "k \<noteq> name"
  shows "startable m' k"
  by (rule done_tasks_cases [OF assms(2), of k]) (use assms(1,3) in \<open>auto simp: startable_def done_rel_def\<close>)

section \<open>Starting a task\<close>

lemma idle_pipe:
  assumes "listening_ok m" and "task_info m n = Some i" and "ti_status i = Init"
  shows "fst (ti_pipe i) = -1"
  using assms by (fastforce simp: listening_ok_def)

lemma update_new: "k \<notin> fst ` set xs \<Longrightarrow> AList.update k v xs = xs @ [(k, v)]"
  by (induction xs) auto

lemma listening_start:
  assumes ok: "listening_ok m" and i: "task_info m n = Some i" "ti_status i = Init"
    and room: "int (length (tm_listening m)) < tm_max m"
    and fd: "fd \<notin> fst ` set (tm_listening m)" "fd \<noteq> -1"
    and m': "tm_listening m' = tm_listening m @ [(fd, n)]" "tm_max m' = tm_max m"
      "\<And>k. k \<noteq> n \<Longrightarrow> task_info m' k = task_info m k" "task_info m' n = Some i'"
      "ti_status i' \<noteq> Init" "fst (ti_pipe i') = fd"
  shows "listening_ok m'"
proof (rule listening_okI)
  show "distinct (map fst (tm_listening m'))" using listening_okD(3) [OF ok] m'(1) fd(1) by simp
  show "int (length (tm_listening m')) \<le> tm_max m'" using room m'(1,2) by simp
next
  fix f k assume fk: "(f, k) \<in> set (tm_listening m')"
  show "f \<noteq> -1 \<and> (\<exists>j. task_info m' k = Some j \<and> fst (ti_pipe j) = f \<and> ti_status j \<noteq> Init)"
  proof (cases "(f, k) \<in> set (tm_listening m)")
    case True
    from listening_okD(1) [OF ok True] i have "k \<noteq> n" by auto
    then show ?thesis using listening_okD(1) [OF ok True] m'(3) by simp
  next
    case False
    then have "f = fd" "k = n" using fk m'(1) by auto
    then show ?thesis using m'(4-6) fd(2) by simp
  qed
next
  fix k j assume "task_info m' k = Some j" "fst (ti_pipe j) \<noteq> -1"
  then show "(fst (ti_pipe j), k) \<in> set (tm_listening m')"
    using listening_okD(2) [OF ok, of k j] m' by (cases "k = n") auto
qed

context task_env
begin

text \<open>The effect of starting a startable task while there is room for a worker.\<close>

lemma run_one_task_ok:
  assumes ok: "tasks_ok m" and lis: "listening_ok m" and st: "startable m n"
    and room: "int (length (tm_listening m)) < tm_max m"
  shows "\<exists>m'. run_one_task env n m = (Inr (), m') \<and> tasks_ok m' \<and> listening_ok m'
       \<and> length (tm_listening m') \<le> Suc (length (tm_listening m)) \<and> tm_max m' = tm_max m
       \<and> (\<forall>k. k \<noteq> n \<longrightarrow> startable m k \<longrightarrow> startable m' k)"
proof -
  obtain i where i: "task_info m n = Some i" "ti_status i = Init" "ti_pre_tasks i = {}"
    using st by (auto simp: startable_def)
  define run where "run i = i\<lparr>ti_status := Running\<rparr>" for i :: TaskInfo
  let ?m1 = "update_info n run m"
  have ok1: "tasks_ok ?m1" by (rule tasks_ok_update [OF ok i(1)]) (use i in \<open>simp_all add: run_def\<close>)
  have lis1: "listening_ok ?m1" by (rule listening_update [OF lis]) (simp add: run_def)
  have i1: "task_info ?m1 n = Some (run i)" using i by simp
  have others: "k \<noteq> n \<Longrightarrow> startable m k \<Longrightarrow> startable ?m1 k" for k by (rule startable_update)
  let ?p = "te_pipe env (fst ` set (tm_listening m))"
  have fresh: "fst ?p \<notin> fst ` set (tm_listening m)" "fst ?p \<noteq> -1"
    using pipe_fresh [of "fst ` set (tm_listening m)"] by auto
  have worker: "\<exists>m'. g ?m1 = (Inr (), m') \<and> tasks_ok m' \<and> listening_ok m'
       \<and> length (tm_listening m') \<le> Suc (length (tm_listening m)) \<and> tm_max m' = tm_max m
       \<and> (\<forall>k. k \<noteq> n \<longrightarrow> startable m k \<longrightarrow> startable m' k)"
    if g: "g = sseq (add_listening env n) (smod (update_info n h))"
      and h: "\<And>i. ti_status (h i) = ti_status i \<and> ti_task (h i) = ti_task i \<and> ti_pre_tasks (h i) = ti_pre_tasks i
             \<and> ti_post_tasks (h i) = ti_post_tasks i \<and> fst (ti_pipe (h i)) = fst (ti_pipe i)" for g h
  proof -
    let ?m2 = "(update_info n (\<lambda>i. i\<lparr>ti_pipe := ?p\<rparr>) ?m1)\<lparr>tm_listening := tm_listening m @ [(fst ?p, n)]\<rparr>"
    let ?m3 = "update_info n h ?m2"
    have run: "g ?m1 = (Inr (), ?m3)"
      using fresh by (simp add: g add_listening_def sseq_def sbind_def smod_def update_new Let_def)
    have "tasks_ok (update_info n (\<lambda>i. i\<lparr>ti_pipe := ?p\<rparr>) ?m1)"
      by (rule tasks_ok_update [OF ok1 i1]) (use i in \<open>simp_all add: run_def\<close>)
    then have ok2: "tasks_ok ?m2" by simp
    have i2: "task_info ?m2 n = Some ((run i)\<lparr>ti_pipe := ?p\<rparr>)" using i by simp
    have ok3: "tasks_ok ?m3" by (rule tasks_ok_update [OF ok2 i2]) (use h i in \<open>simp_all add: run_def\<close>)
    have lis3: "listening_ok ?m3"
      by (rule listening_start [OF lis i(1,2) room fresh, where i' = "h ((run i)\<lparr>ti_pipe := ?p\<rparr>)"])
         (use h i in \<open>simp_all add: run_def\<close>)
    have "k \<noteq> n \<Longrightarrow> startable m k \<Longrightarrow> startable ?m3 k" for k by (simp add: startable_def)
    with run ok3 lis3 show ?thesis by (intro exI [of _ ?m3]) simp
  qed
  have main: "\<exists>m'. run_in_mainprocess env n ?m1 = (Inr (), m') \<and> tasks_ok m' \<and> listening_ok m'
       \<and> length (tm_listening m') \<le> Suc (length (tm_listening m)) \<and> tm_max m' = tm_max m
       \<and> (\<forall>k. k \<noteq> n \<longrightarrow> startable m k \<longrightarrow> startable m' k)"
  proof -
    obtain rc out where r: "te_run env n (user_input ?m1 (run i)) = (rc, out)" by fastforce
    have run: "run_in_mainprocess env n ?m1 = on_task_done env n rc out ?m1"
      using i1 r by (simp add: run_in_mainprocess_def del: task_info_update)
    show ?thesis
    proof (cases "rc = 0")
      case True
      from on_task_done_success [OF ok1 i1, of out] obtain m' new where
        d: "on_task_done env n 0 out ?m1 = (Inr (), m')" "frame ?m1 m'" "done_tasks n ?m1 m'"
        using i1 by (auto simp: run_def)
      have "tasks_ok m'"
        by (rule done_tasks_ok [OF d(3) ok1 i1]) (use d(2) in \<open>simp_all add: frame_def run_def\<close>)
      moreover have "startable m' k" if "k \<noteq> n" "startable m k" for k
        by (rule startable_done [OF others [OF that] d(3) that(1)])
      moreover have "length (tm_listening m') \<le> Suc (length (tm_listening m))" "tm_max m' = tm_max m"
        using d(2) by (simp_all add: frame_def)
      ultimately show ?thesis
        using run d(1) True listening_done [OF lis1 d(2,3)] by (intro exI [of _ m']) simp
    next
      case False
      let ?m2 = "update_info n (\<lambda>i. i\<lparr>ti_status := Failed\<rparr>) ?m1"
      have "tasks_ok ?m2" by (rule tasks_ok_update [OF ok1 i1]) (use i in \<open>simp_all add: run_def\<close>)
      moreover have "listening_ok ?m2" by (rule listening_update [OF lis1]) simp
      moreover have "on_task_done env n rc out ?m1 = (Inr (), ?m2)"
        using False i(1) by (simp add: on_task_done_def)
      ultimately show ?thesis
        using run others startable_update by (intro exI [of _ ?m2]) auto
    qed
  qed
  have "run_one_task env n m = (if tk_mode (ti_task i) AND SUB_PROCESS \<noteq> 0 then run_in_subprocess env n
      else if tk_mode (ti_task i) AND PTHREAD \<noteq> 0 then run_in_pthread env n
      else run_in_mainprocess env n) ?m1"
    using i(1) unfolding run_def by (simp add: run_one_task_def sseq_def sbind_def smod_def)
  moreover have "\<exists>m'. run_in_subprocess env n ?m1 = (Inr (), m') \<and> tasks_ok m' \<and> listening_ok m'
       \<and> length (tm_listening m') \<le> Suc (length (tm_listening m)) \<and> tm_max m' = tm_max m
       \<and> (\<forall>k. k \<noteq> n \<longrightarrow> startable m k \<longrightarrow> startable m' k)"
    unfolding run_in_subprocess_def by (rule worker [OF refl]) simp
  moreover have "\<exists>m'. run_in_pthread env n ?m1 = (Inr (), m') \<and> tasks_ok m' \<and> listening_ok m'
       \<and> length (tm_listening m') \<le> Suc (length (tm_listening m)) \<and> tm_max m' = tm_max m
       \<and> (\<forall>k. k \<noteq> n \<longrightarrow> startable m k \<longrightarrow> startable m' k)"
    unfolding run_in_pthread_def by (rule worker [OF refl]) simp
  ultimately show ?thesis using main by simp
qed

text \<open>A batch of startable tasks.\<close>

lemma run_batch_ok:
  assumes "tasks_ok m" and "listening_ok m" and "distinct ns" and "\<forall>n \<in> set ns. startable m n"
    and "int (length (tm_listening m)) + int (length ns) \<le> tm_max m"
  shows "\<exists>m'. smap_seq (run_one_task env) ns m = (Inr (), m') \<and> tasks_ok m' \<and> listening_ok m'
       \<and> tm_max m' = tm_max m \<and> (\<forall>k. k \<notin> set ns \<longrightarrow> startable m k \<longrightarrow> startable m' k)"
  using assms
proof (induction ns arbitrary: m)
  case Nil
  then show ?case by (simp add: sret_def)
next
  case (Cons n ns)
  have st: "startable m n" and room: "int (length (tm_listening m)) < tm_max m" using Cons.prems by auto
  from run_one_task_ok [OF Cons.prems(1,2) st room] obtain m1 where
    r: "run_one_task env n m = (Inr (), m1)" "tasks_ok m1" "listening_ok m1"
      "length (tm_listening m1) \<le> Suc (length (tm_listening m))" "tm_max m1 = tm_max m"
      "\<forall>k. k \<noteq> n \<longrightarrow> startable m k \<longrightarrow> startable m1 k" by blast
  have "\<forall>k \<in> set ns. startable m1 k" using Cons.prems(3,4) r(6) by auto
  moreover have "int (length (tm_listening m1)) + int (length ns) \<le> tm_max m1"
    using Cons.prems(5) r(4,5) by simp
  moreover have "distinct ns" using Cons.prems(3) by simp
  ultimately obtain m' where "smap_seq (run_one_task env) ns m1 = (Inr (), m')" "tasks_ok m'" "listening_ok m'"
      "tm_max m' = tm_max m1" "\<forall>k. k \<notin> set ns \<longrightarrow> startable m1 k \<longrightarrow> startable m' k"
    using Cons.IH [of m1] r(2,3) by blast
  then show ?case using r by (intro exI [of _ m']) (auto simp: sseq_def sbind_def)
qed

lemma schedule_ok:
  assumes inv: "tm_inv m"
  shows "\<exists>m'. schedule env m = (Inr (), m') \<and> tm_inv m'"
proof -
  let ?n = "min (tm_max m - int (length (tm_listening m))) (int (length (tm_ready m)))"
  let ?k = "slice_bound ?n (tm_ready m)"
  have ok: "tasks_ok m" "ready_ok m" "listening_ok m" using inv by (simp_all add: tm_inv_def)
  have n: "0 \<le> ?n" using listening_okD(4) [OF ok(3)] by simp
  then have k: "?k = nat ?n" by (simp add: slice_bound_def)
  have rd: "distinct (tm_ready m)" "\<forall>x \<in> set (tm_ready m). startable m x" using ok(2) by (auto simp: ready_ok_def)
  have split: "distinct (take ?k (tm_ready m))" "\<forall>x \<in> set (take ?k (tm_ready m)). startable m x"
    using rd by (auto dest: in_set_takeD)
  have "int (length (tm_listening m)) + int (length (take ?k (tm_ready m))) \<le> tm_max m"
  proof -
    have "length (take ?k (tm_ready m)) \<le> nat ?n" unfolding k by simp
    then show ?thesis using n by linarith
  qed
  from run_batch_ok [OF ok(1,3) split this] obtain m' where
    m': "smap_seq (run_one_task env) (take ?k (tm_ready m)) m = (Inr (), m')" "tasks_ok m'" "listening_ok m'"
      "tm_max m' = tm_max m" "\<forall>x. x \<notin> set (take ?k (tm_ready m)) \<longrightarrow> startable m x \<longrightarrow> startable m' x"
    by blast
  have disj: "set (take ?k (tm_ready m)) \<inter> set (drop ?k (tm_ready m)) = {}"
    using rd(1) by (metis append_take_drop_id distinct_append)
  let ?m2 = "m'\<lparr>tm_ready := drop ?k (tm_ready m)\<rparr>"
  have "ready_ok ?m2" using rd m'(5) disj by (auto simp: ready_ok_def dest: in_set_dropD)
  moreover have "listening_ok ?m2" by (rule listening_cong [OF m'(3)]) (auto intro: option.rel_refl)
  moreover have "schedule env m = (Inr (), ?m2)"
    using m'(1) by (simp add: schedule_def Let_def sseq_def sbind_def smod_def)
  ultimately show ?thesis using m'(2) by (auto simp: tm_inv_def)
qed

lemma result_ok:
  assumes inv: "tm_inv m" and i: "task_info m n = Some i" "ti_status i = Running"
  shows "\<exists>m'. on_task_done env n rc out m = (Inr (), m') \<and> tm_inv m'"
proof (cases "rc = 0")
  case True
  have ok: "tasks_ok m" "ready_ok m" "listening_ok m" using inv by (simp_all add: tm_inv_def)
  from on_task_done_success [OF ok(1) i, of out] obtain m' new where
    d: "on_task_done env n 0 out m = (Inr (), m')" "frame m m'" "done_tasks n m m'"
      "tm_ready m' = tm_ready m @ new" "distinct new"
      "\<forall>p. p \<in> set new \<longleftrightarrow> (\<exists>j. task_info m p = Some j \<and> n \<in> ti_pre_tasks j \<and> ti_pre_tasks j - {n} = {})" by blast
  have tok: "tasks_ok m'" by (rule done_tasks_ok [OF d(3) ok(1) i(1)]) (use d(2) i in \<open>simp_all add: frame_def\<close>)
  have old: "startable m' k" if "k \<in> set (tm_ready m)" for k
  proof -
    have "startable m k" using ok(2) that by (simp add: ready_ok_def)
    moreover from this i have "k \<noteq> n" by (auto simp: startable_def)
    ultimately show ?thesis using startable_done d(3) by blast
  qed
  have fresh: "startable m' p \<and> p \<notin> set (tm_ready m)" if p: "p \<in> set new" for p
  proof -
    obtain j where j: "task_info m p = Some j" "n \<in> ti_pre_tasks j" "ti_pre_tasks j - {n} = {}" using d(6) p by blast
    then have "ti_status j = Init" using started_clear [OF ok(1) j(1)] by auto
    moreover from this i j(1) have "p \<noteq> n" by auto
    moreover have "p \<notin> set (tm_ready m)" using ok(2) j by (auto simp: ready_ok_def startable_def)
    ultimately show ?thesis
      using done_tasks_someI [OF d(3) j(1)] j(3) by (auto simp: startable_def done_rel_def)
  qed
  have "ready_ok m'" using old fresh d(4,5) ok(2) by (auto simp: ready_ok_def)
  then show ?thesis using d(1) True tok listening_done [OF ok(3) d(2,3)] by (auto simp: tm_inv_def)
next
  case False
  let ?m = "update_info n (\<lambda>i. i\<lparr>ti_status := Failed\<rparr>) m"
  have ok: "tasks_ok m" "ready_ok m" "listening_ok m" using inv by (simp_all add: tm_inv_def)
  have "ti_pre_tasks i = {}" using started_clear [OF ok(1) i(1)] i(2) by simp
  then have "tasks_ok ?m" by (intro tasks_ok_update [OF ok(1) i(1)]) (use i in simp_all)
  moreover have "listening_ok ?m" by (rule listening_update [OF ok(3)]) simp
  moreover have "ready_ok ?m" using ok(2) i by (auto simp: ready_ok_def startable_def)
  moreover have "on_task_done env n rc out m = (Inr (), ?m)" using False i by (simp add: on_task_done_def)
  ultimately show ?thesis by (simp add: tm_inv_def)
qed

end

section \<open>The end of a worker\<close>

lemma exit_ok:
  assumes inv: "tm_inv m" and n: "map_of (tm_listening m) fd = Some n"
  shows "\<exists>m'. on_task_exit n m = (Inr (), m') \<and> tm_inv m'"
proof -
  have ok: "tasks_ok m" "ready_ok m" "listening_ok m" using inv by (simp_all add: tm_inv_def)
  have mem: "(fd, n) \<in> set (tm_listening m)" using n by (rule map_of_SomeD)
  obtain i where i: "task_info m n = Some i" "fst (ti_pipe i) = fd" "ti_status i \<noteq> Init" and fd: "fd \<noteq> -1"
    using listening_okD(1) [OF ok(3) mem] by blast
  define f where "f i = (if ti_status i = Succeed then i else i\<lparr>ti_status := Failed\<rparr>)" for i :: TaskInfo
  define g where "g i = i\<lparr>ti_pipe := (-1, -1)\<rparr>" for i :: TaskInfo
  let ?m1 = "update_info n f m"
  let ?m2 = "?m1\<lparr>tm_listening := AList.delete fd (tm_listening m)\<rparr>"
  let ?m3 = "update_info n g ?m2"
  have i1: "task_info ?m1 n = Some (f i)" and pipe: "fst (ti_pipe (f i)) = fd"
    using i by (simp_all add: f_def)
  have run: "on_task_exit n m = (Inr (), ?m3)"
  proof -
    have "remove_listening n ?m1 = (Inr (), ?m3)"
      using i pipe n fd by (simp add: remove_listening_def g_def [abs_def] Let_def)
    then show ?thesis by (simp add: on_task_exit_def sseq_def sbind_def smod_def f_def [abs_def])
  qed
  have clear: "ti_pre_tasks i = {}" using started_clear [OF ok(1) i(1,3)] .
  have t1: "tasks_ok ?m1" by (rule tasks_ok_update [OF ok(1) i(1)]) (use clear i in \<open>simp_all add: f_def\<close>)
  then have t2: "tasks_ok ?m2" by simp
  have i2: "task_info ?m2 n = Some (f i)" using i1 by simp
  have t3: "tasks_ok ?m3"
    by (rule tasks_ok_update [OF t2 i2]) (use clear in \<open>simp_all add: f_def g_def\<close>)
  have r3: "ready_ok ?m3" using ok(2) i(1,3) by (auto simp: ready_ok_def startable_def f_def g_def)
  have l3: "listening_ok ?m3"
  proof (rule listening_okI)
    show "distinct (map fst (tm_listening ?m3))"
      using listening_okD(3) [OF ok(3)] by (simp add: distinct_delete)
    show "int (length (tm_listening ?m3)) \<le> tm_max ?m3"
      using listening_okD(4) [OF ok(3)] length_delete_le [of fd "tm_listening m"] by simp
  next
    fix f' k assume "(f', k) \<in> set (tm_listening ?m3)"
    then have fk: "(f', k) \<in> set (tm_listening m)" "f' \<noteq> fd" by (auto simp: AList.delete_eq)
    then have "k \<noteq> n" using listening_okD(1) [OF ok(3) fk(1)] i by auto
    then show "f' \<noteq> -1 \<and> (\<exists>i. task_info ?m3 k = Some i \<and> fst (ti_pipe i) = f' \<and> ti_status i \<noteq> Init)"
      using listening_okD(1) [OF ok(3) fk(1)] by simp
  next
    fix k j assume j: "task_info ?m3 k = Some j" "fst (ti_pipe j) \<noteq> -1"
    have "k \<noteq> n" using j i by (auto simp: g_def)
    then have m: "task_info m k = Some j" using j(1) by simp
    have "(fst (ti_pipe j), k) \<in> set (tm_listening m)" using listening_okD(2) [OF ok(3) m j(2)] .
    moreover from this have "fst (ti_pipe j) \<noteq> fd"
      using \<open>k \<noteq> n\<close> mem listening_okD(3) [OF ok(3)] by (metis eq_key_imp_eq_value)
    ultimately show "(fst (ti_pipe j), k) \<in> set (tm_listening ?m3)" by (simp add: AList.delete_eq)
  qed
  show ?thesis using run t3 r3 l3 by (auto simp: tm_inv_def)
qed

section \<open>Adding tasks\<close>

lemma link_deps_ok:
  assumes "link_deps name ds m = (Inr (), m')"
  shows "set ds \<subseteq> set (keys m) \<and> frame m m' \<and> tm_ready m' = tm_ready m
       \<and> (\<forall>k. task_info m' k = (if k \<in> set ds
            then map_option (\<lambda>i. i\<lparr>ti_post_tasks := insert name (ti_post_tasks i)\<rparr>) (task_info m k)
            else task_info m k))"
  using assms
proof (induction ds arbitrary: m)
  case (Cons d ds)
  then obtain i where i: "task_info m d = Some i" by (cases "task_info m d") auto
  let ?m1 = "update_info d (\<lambda>i. i\<lparr>ti_post_tasks := insert name (ti_post_tasks i)\<rparr>) m"
  have "link_deps name ds ?m1 = (Inr (), m')" using Cons.prems i by simp
  note IH = Cons.IH [OF this]
  have "task_info m' k = (if k \<in> set (d # ds)
            then map_option (\<lambda>i. i\<lparr>ti_post_tasks := insert name (ti_post_tasks i)\<rparr>) (task_info m k)
            else task_info m k)" for k
    using IH by (cases "task_info m k") (auto simp: insert_absorb)
  then show ?case using IH task_info_key [OF i] by (auto simp: frame_def)
qed (simp add: frame_def)

lemma keys_append: "n \<notin> set (keys m) \<Longrightarrow> AList.update n i (tm_tasks m) = tm_tasks m @ [(n, i)]"
  unfolding keys_def by (simp add: update_new)

lemma add_task_ok:
  assumes inv: "tm_inv m" and fresh: "tk_name t \<notin> set (keys m)" and "distinct (tk_deps t)"
    and idle: "\<And>k i. task_info m k = Some i \<Longrightarrow> ti_status i = Init"
    and add: "add_task t m = (Inr (), m')"
  shows "tm_inv m'"
proof -
  let ?n = "tk_name t" and ?ds = "tk_deps t"
  from add obtain m1 where m1: "link_deps ?n ?ds m = (Inr (), m1)"
    and m': "m' = m1\<lparr>tm_tasks := AList.update ?n (task_info_init t) (tm_tasks m1),
                tm_ready := tm_ready m1 @ (if ?ds = [] then [?n] else [])\<rparr>"
    by (auto simp: add_task_def sseq_ok smod_def)
  note l = link_deps_ok [OF m1]
  have ok: "tasks_ok m" "ready_ok m" "listening_ok m" using inv by (simp_all add: tm_inv_def)
  have new: "task_info m ?n = None" using fresh task_info_key by (cases "task_info m ?n") auto
  have keys: "keys m' = keys m @ [?n]"
    using l fresh keys_append [of ?n m1] by (simp add: m' keys_def frame_def)
  have info: "task_info m' k = (if k = ?n then Some (task_info_init t)
      else if k \<in> set ?ds then map_option (\<lambda>i. i\<lparr>ti_post_tasks := insert ?n (ti_post_tasks i)\<rparr>) (task_info m k)
      else task_info m k)" for k
    using l by (auto simp: task_info_def m' update_conv)
  have sub: "set ?ds \<subseteq> set (keys m)" and self: "?n \<notin> set ?ds" using l fresh by auto
  have suc: "succeeded m' = {}" "succeeded m = {}"
    using idle by (fastforce simp: succeeded_def info task_info_init_def split: if_splits)+
  have wait: "waiting_for m' k = waiting_for m k \<union> (if k \<in> set ?ds then {?n} else {})" for k
    using new by (auto simp: waiting_for_def info task_info_init_def idle split: if_splits)
  have "set (tk_deps (ti_task j)) \<subseteq> set (keys m)" if "task_info m k = Some j" for k j
    using ok(1) that unfolding tasks_ok_def task_ok_def by blast
  then have unused: "waiting_for m ?n = {}" using fresh unfolding waiting_for_def by blast
  have tok: "task_ok m' k j'" if j': "task_info m' k = Some j'" for k j'
  proof (cases "k = ?n")
    case True
    then show ?thesis
      using j' sub self assms(3) suc(1) wait [of ?n] unused
      by (auto simp: info task_ok_def task_info_init_def keys)
  next
    case False
    then obtain j where j: "task_info m k = Some j"
        "j' = (if k \<in> set ?ds then j\<lparr>ti_post_tasks := insert ?n (ti_post_tasks j)\<rparr> else j)"
      using j' by (auto simp: info split: if_splits)
    have "task_ok m k j" using ok(1) j(1) by (simp add: tasks_ok_def)
    then show ?thesis using j(2) suc wait [of k] idle [OF j(1)] by (auto simp: task_ok_def keys)
  qed
  have "tasks_ok m'" using tok ok(1) fresh by (simp add: tasks_ok_def keys)
  moreover have "ready_ok m'"
  proof -
    have "startable m' k" if "startable m k" for k
      using that new by (auto simp: startable_def info)
    moreover have "startable m' ?n" if "?ds = []" using that by (simp add: startable_def info task_info_init_def)
    moreover have "?n \<notin> set (tm_ready m)" using ok(2) new by (auto simp: ready_ok_def startable_def)
    ultimately show ?thesis using ok(2) l by (auto simp: ready_ok_def m')
  qed
  moreover have "listening_ok m'"
  proof (rule listening_okI)
    show "distinct (map fst (tm_listening m'))" "int (length (tm_listening m')) \<le> tm_max m'"
      using listening_okD(3,4) [OF ok(3)] l by (simp_all add: m' frame_def)
  next
    fix f k assume "(f, k) \<in> set (tm_listening m')"
    then have fk: "(f, k) \<in> set (tm_listening m)" using l by (simp add: m' frame_def)
    from listening_okD(1) [OF ok(3) fk] show
      "f \<noteq> -1 \<and> (\<exists>i. task_info m' k = Some i \<and> fst (ti_pipe i) = f \<and> ti_status i \<noteq> Init)"
      using new by (auto simp: info)
  next
    fix k j' assume j': "task_info m' k = Some j'" "fst (ti_pipe j') \<noteq> -1"
    then have "k \<noteq> ?n" by (auto simp: info task_info_init_def)
    then obtain j where "task_info m k = Some j" "ti_pipe j' = ti_pipe j"
      using j'(1) by (auto simp: info split: if_splits)
    then show "(fst (ti_pipe j'), k) \<in> set (tm_listening m')"
      using listening_okD(2) [OF ok(3)] j'(2) l by (simp add: m' frame_def)
  qed
  ultimately show ?thesis by (simp add: tm_inv_def)
qed

section \<open>Reachable managers\<close>

text \<open>
  The steps of a manager: tasks are added before the run; then ready tasks are scheduled, workers
  report one result each, send outputs and texts, and exit, in any order.
\<close>

inductive tm_reach :: "tm_env \<Rightarrow> (ConcurrentTask \<Rightarrow> bool) \<Rightarrow> ConcurrentTasksManager \<Rightarrow> bool" for env P where
  start: "0 \<le> n \<Longrightarrow> tm_reach env P (manager_init n)"
| add: "tm_reach env P m \<Longrightarrow> (\<And>k i. task_info m k = Some i \<Longrightarrow> ti_status i = Init) \<Longrightarrow>
    tk_name t \<notin> set (keys m) \<Longrightarrow> distinct (tk_deps t) \<Longrightarrow> P t \<Longrightarrow> add_task t m = (Inr (), m') \<Longrightarrow> tm_reach env P m'"
| sched: "tm_reach env P m \<Longrightarrow> schedule env m = (r, m') \<Longrightarrow> tm_reach env P m'"
| result: "tm_reach env P m \<Longrightarrow> task_info m n = Some i \<Longrightarrow> ti_status i = Running \<Longrightarrow>
    dispatch env n (msg_value RET_CODE) v m = (r, m') \<Longrightarrow> tm_reach env P m'"
| other: "tm_reach env P m \<Longrightarrow> ty \<noteq> msg_value RET_CODE \<Longrightarrow> dispatch env n ty v m = (r, m') \<Longrightarrow> tm_reach env P m'"
| exit: "tm_reach env P m \<Longrightarrow> map_of (tm_listening m) fd = Some n \<Longrightarrow> on_task_exit n m = (r, m') \<Longrightarrow> tm_reach env P m'"

lemma other_dispatch_ok:
  assumes "tm_inv m" and "ty \<noteq> msg_value RET_CODE" and "dispatch env n ty v m = (r, m')"
  shows "tm_inv m'"
proof -
  have out: "tm_inv (update_info n (\<lambda>i. i\<lparr>ti_output := x\<rparr>) m)" for x
  proof (cases "task_info m n")
    case None
    then show ?thesis using assms(1) by (simp add: update_info_def)
  next
    case (Some i)
    let ?m = "update_info n (\<lambda>i. i\<lparr>ti_output := x\<rparr>) m"
    have ok: "tasks_ok m" "ready_ok m" "listening_ok m" using assms(1) by (simp_all add: tm_inv_def)
    have "tasks_ok ?m" by (rule tasks_ok_update [OF ok(1) Some]) (use started_clear [OF ok(1) Some] in simp_all)
    moreover have "listening_ok ?m" by (rule listening_update [OF ok(3)]) simp
    moreover have "ready_ok ?m" using ok(2) Some by (auto simp: ready_ok_def startable_def)
    ultimately show ?thesis by (simp add: tm_inv_def)
  qed
  have "m' = m \<or> (\<exists>x. m' = update_info n (\<lambda>i. i\<lparr>ti_output := x\<rparr>) m) \<or> m' = m\<lparr>tm_printed := tm_printed m @ [v]\<rparr>"
    using assms(2,3) by (auto simp: dispatch_def split: if_splits sum.splits)
  moreover have "tm_inv (m\<lparr>tm_printed := tm_printed m @ [v]\<rparr>)"
    using assms(1) by (simp add: tm_inv_def ready_ok_def listening_ok_def startable_def)
  ultimately show ?thesis using assms(1) out by auto
qed

context task_env
begin

lemma reach_inv: "tm_reach env P m \<Longrightarrow> tm_inv m"
proof (induction rule: tm_reach.induct)
  case (start n)
  then show ?case
    by (simp add: tm_inv_def tasks_ok_def ready_ok_def listening_ok_def manager_init_def keys_def task_info_def)
next
  case (add m t m')
  show ?case by (rule add_task_ok [OF add.IH add.hyps(3,4,2,6)])
next
  case (sched m r m')
  then show ?case using schedule_ok [of m] by auto
next
  case (result m n i v r m')
  then show ?case using result_ok [of m n i "from_bytes v" PNone] by (auto simp: dispatch_def)
next
  case (other m ty n v r m')
  then show ?case using other_dispatch_ok by blast
next
  case (exit m fd n r m')
  then show ?case using exit_ok [of m fd n] by auto
qed

text \<open>A task that has been started has all its prerequisites behind it.\<close>

lemma reach_deps:
  assumes "tm_reach env P m" and "task_info m n = Some i" and "ti_status i \<noteq> Init" and "d \<in> set (tk_deps (ti_task i))"
  shows "\<exists>j. task_info m d = Some j \<and> ti_status j = Succeed"
proof -
  have ok: "tasks_ok m" using reach_inv [OF assms(1)] by (simp add: tm_inv_def)
  then have "ti_pre_tasks i = set (tk_deps (ti_task i)) - succeeded m"
    using assms(2) by (simp add: tasks_ok_def task_ok_def)
  then show ?thesis using started_clear [OF ok assms(2,3)] assms(4) by (auto simp: succeeded_def)
qed

end

end
