(* ===== verification/Task_Messages.thy ===== *)
theory Task_Messages
  imports Task_Facts
begin

text \<open>
  The messages of the workers: whatever pieces a result arrives in, the manager handles it as if it
  had arrived whole.
\<close>

section \<open>Encoding\<close>

lemma to_bytes4_length: "to_bytes4 n = Inr bs \<Longrightarrow> length bs = 4"
  by (auto simp: to_bytes4_def split: if_splits)

lemma from_to_bytes4:
  assumes "to_bytes4 n = Inr bs"
  shows "from_bytes bs = n"
proof -
  have n: "0 \<le> n" "n < 2 ^ 32" and bs: "bs = [word_of_int (n div 2 ^ 24), word_of_int (n div 2 ^ 16),
      word_of_int (n div 2 ^ 8), word_of_int n]"
    using assms by (auto simp: to_bytes4_def split: if_splits)
  have u: "uint (word_of_int x :: byte) = x mod 256" for x by (simp add: uint_word_of_int)
  have "n div 2 ^ 24 mod 256 = n div 2 ^ 24" using n by (intro mod_pos_pos_trivial) auto
  moreover have "n div 2 ^ 24 = n div 2 ^ 16 div 256" "n div 2 ^ 16 = n div 2 ^ 8 div 256"
    by (simp_all add: zdiv_zmult2_eq [symmetric])
  ultimately show ?thesis
    unfolding bs from_bytes_def u by (simp add: u) 
qed

lemma tlv_shape:
  assumes "tlv ty v = Inr bs"
  shows "length bs = 8 + length v \<and> from_bytes (take 4 bs) = msg_value ty
       \<and> from_bytes (take 4 (drop 4 bs)) = int (length v) \<and> drop 8 bs = v"
proof -
  from assms obtain t l where t: "to_bytes4 (msg_value ty) = Inr t" and l: "to_bytes4 (int (length v)) = Inr l"
    and bs: "bs = t @ l @ v" by (auto simp: tlv_def rbind_eq_Inr)
  then show ?thesis
    using to_bytes4_length [OF t] to_bytes4_length [OF l] from_to_bytes4 [OF t] from_to_bytes4 [OF l] by simp
qed

lemma msg_len_tlv: "tlv ty v = Inr bs \<Longrightarrow> msg_len (bs @ rest) = Some (length bs)"
  using tlv_shape [of ty v bs] by (simp add: msg_len_def)

lemma recv_tlv:
  assumes "tlv ty v = Inr bs"
  shows "recv_loop env n (bs @ rest) m =
           (case dispatch env n (msg_value ty) v m of (Inl e, m') \<Rightarrow> (Inl e, m') | (Inr _, m') \<Rightarrow> recv_loop env n rest m')"
proof -
  have "drop (length bs) (bs @ rest) = rest" by simp
  then show ?thesis
    using tlv_shape [OF assms]
    by (subst recv_loop.simps) (simp add: msg_len_tlv [OF assms] split: prod.splits sum.splits)
qed

section \<open>The write loop\<close>

lemma write_loop_complete: "write_loop msg ks = Some ps \<Longrightarrow> concat ps = msg"
proof (induction msg ks arbitrary: ps rule: write_loop.induct)
  case (2 msg k ks)
  then show ?case by (auto simp: Let_def split: if_splits)
qed simp

section \<open>Dispatching does not look at the buffers\<close>

definition with_buffers :: "(string \<Rightarrow> byte list) \<Rightarrow> ConcurrentTasksManager \<Rightarrow> ConcurrentTasksManager" where
  "with_buffers B m = m\<lparr>tm_buffers := B\<rparr>"

definition blind :: "unit mgr \<Rightarrow> bool" where
  "blind c \<longleftrightarrow> (\<forall>B m. c (with_buffers B m) = (fst (c m), with_buffers B (snd (c m)))
     \<and> tm_buffers (snd (c m)) = tm_buffers m \<and> tm_listening (snd (c m)) = tm_listening m)"

lemma blind_sseq: "blind c \<Longrightarrow> blind d \<Longrightarrow> blind (sseq c d)"
  unfolding blind_def sseq_def sbind_def by (auto split: prod.splits sum.splits) (metis fst_conv snd_conv)+

lemma blind_smap: "(\<And>x. blind (f x)) \<Longrightarrow> blind (smap_seq f xs)"
proof (induction xs)
  case Nil
  then show ?case by (simp add: blind_def sret_def)
next
  case (Cons x xs)
  then show ?case by (simp add: blind_sseq)
qed

lemma with_buffers_sel [simp]:
  "task_info (with_buffers B m) n = task_info m n" "tm_ready (with_buffers B m) = tm_ready m"
  "tm_printed (with_buffers B m) = tm_printed m" "tm_listening (with_buffers B m) = tm_listening m"
  "tm_buffers (with_buffers B m) = B"
  "(with_buffers B m)\<lparr>tm_ready := r\<rparr> = with_buffers B (m\<lparr>tm_ready := r\<rparr>)"
  "(with_buffers B m)\<lparr>tm_printed := p\<rparr> = with_buffers B (m\<lparr>tm_printed := p\<rparr>)"
  by (simp_all add: with_buffers_def task_info_def)

lemma update_with_buffers: "update_info n f (with_buffers B m) = with_buffers B (update_info n f m)"
  by (simp add: with_buffers_def update_info_def task_info_def split: option.splits)

lemma blind_update: "blind (smod (update_info n f))"
  by (simp add: blind_def smod_def update_with_buffers)

lemma blind_release: "blind (release_post n p)"
  by (auto simp: blind_def release_post_def update_with_buffers Let_def split: option.splits)

lemma blind_drop: "blind (drop_dep n d)"
  by (auto simp: blind_def drop_dep_def update_with_buffers split: option.splits)

lemma blind_done: "blind (on_task_done env n rc out)"
proof -
  have "blind (sseq (smod (update_info n f)) (sseq (smap_seq (release_post n) ps) (smap_seq (drop_dep n) ds)))" for f ps ds
    by (intro blind_sseq blind_update blind_smap blind_release blind_drop)
  then show ?thesis
    unfolding blind_def on_task_done_def by (auto simp: update_with_buffers split: option.splits)
qed

lemma blind_dispatch: "blind (dispatch env n ty v)"
proof -
  have "blind (on_task_done env n (from_bytes v) PNone)" by (rule blind_done)
  then show ?thesis
    unfolding blind_def dispatch_def
    by (auto simp: update_with_buffers split: sum.splits)
qed

section \<open>Any chunks\<close>

lemma dispatch_with_buffers:
  "dispatch env n ty v (with_buffers B m) = (fst (dispatch env n ty v m), with_buffers B (snd (dispatch env n ty v m)))"
  "tm_buffers (snd (dispatch env n ty v m)) = tm_buffers m"
  "tm_listening (snd (dispatch env n ty v m)) = tm_listening m"
  using blind_dispatch [of env n ty v] by (simp_all add: blind_def)

lemma recv_step:
  assumes "msg_len msg = Some k"
    and "dispatch env n (from_bytes (take 4 msg)) (drop 8 (take k msg)) m = (r, m1)"
  shows "recv_loop env n msg m = (case r of Inl e \<Rightarrow> (Inl e, m1) | Inr _ \<Rightarrow> recv_loop env n (drop k msg) m1)"
  using assms by (subst recv_loop.simps) simp

lemma recv_buffers:
  "recv_loop env n msg (with_buffers ((tm_buffers m)(n := x)) m) = (Inr (), m') \<longleftrightarrow> recv_loop env n msg m = (Inr (), m')"
proof (induction env n msg m rule: recv_loop.induct)
  case (1 env n msg m)
  show ?case
  proof (cases "msg_len msg")
    case None
    then show ?thesis by (simp add: recv_loop.simps [of env n msg] with_buffers_def fun_upd_def cong: if_cong)
  next
    case (Some k)
    let ?d = "dispatch env n (from_bytes (take 4 msg)) (drop 8 (take k msg))"
    obtain r m1 where d: "?d m = (r, m1)" by (cases "?d m")
    have b: "tm_buffers m1 = tm_buffers m" using dispatch_with_buffers(2) [of env n _ _ m] d by (metis snd_conv)
    have d': "?d (with_buffers ((tm_buffers m)(n := x)) m) = (r, with_buffers ((tm_buffers m1)(n := x)) m1)"
      using dispatch_with_buffers(1) [of env n _ _ _ m] d by (simp add: b)
    have two: "recv_loop env n msg (with_buffers ((tm_buffers m)(n := x)) m) =
          (case r of Inl e \<Rightarrow> (Inl e, with_buffers ((tm_buffers m1)(n := x)) m1)
           | Inr _ \<Rightarrow> recv_loop env n (drop k msg) (with_buffers ((tm_buffers m1)(n := x)) m1))"
      by (rule recv_step [OF Some d'])
    show ?thesis
    proof (cases r)
      case (Inl e)
      then show ?thesis unfolding two recv_step [OF Some d] by simp
    next
      case (Inr u)
      then show ?thesis using 1 [OF Some d [symmetric] Inr] unfolding two recv_step [OF Some d] by (simp add: fun_upd_def)
    qed
  qed
qed

lemma msg_len_append: "msg_len a = Some k \<Longrightarrow> msg_len (a @ b) = Some k"
  by (auto simp: msg_len_def Let_def split: if_splits)

lemma recv_append:
  "recv_loop env n (a @ b) m = (Inr (), m2) \<longleftrightarrow>
     (\<exists>m1. recv_loop env n a m = (Inr (), m1) \<and> recv_loop env n (tm_buffers m1 n @ b) m1 = (Inr (), m2))"
proof (induction env n a m rule: recv_loop.induct)
  case (1 env n a m)
  show ?case
  proof (cases "msg_len a")
    case None
    let ?m1 = "with_buffers ((tm_buffers m)(n := a)) m"
    have "recv_loop env n a m = (Inr (), ?m1)"
      using None by (simp add: recv_loop.simps [of env n a] with_buffers_def)
    moreover have "tm_buffers ?m1 n = a" by simp
    ultimately show ?thesis using recv_buffers [of env n "a @ b" m a m2] by auto
  next
    case (Some k)
    let ?d = "dispatch env n (from_bytes (take 4 a)) (drop 8 (take k a))"
    note k = msg_len_bounds [OF Some]
    obtain r m1 where d: "?d m = (r, m1)" by (cases "?d m")
    have ab: "recv_loop env n (a @ b) m =
        (case ?d m of (Inl e, m') \<Rightarrow> (Inl e, m') | (Inr _, m') \<Rightarrow> recv_loop env n (drop k a @ b) m')"
      using msg_len_append [OF Some] k
      by (simp add: recv_loop.simps [of env n "a @ b"] split: prod.splits sum.splits)
    show ?thesis
    proof (cases r)
      case (Inl e)
      then show ?thesis using Some d ab by (simp add: recv_loop.simps [of env n a])
    next
      case (Inr u)
      then show ?thesis using 1 [OF Some d [symmetric] Inr] Some d ab by (simp add: recv_loop.simps [of env n a])
    qed
  qed
qed

lemma recv_listening: "recv_loop env n msg m = (r, m') \<Longrightarrow> tm_listening m' = tm_listening m"
proof (induction env n msg m arbitrary: r m' rule: recv_loop.induct)
  case (1 env n msg m)
  show ?case
  proof (cases "msg_len msg")
    case None
    then show ?thesis using 1(2) by (auto simp: recv_loop.simps [of env n msg])
  next
    case (Some k)
    let ?d = "dispatch env n (from_bytes (take 4 msg)) (drop 8 (take k msg))"
    obtain q m1 where d: "?d m = (q, m1)" by (cases "?d m")
    have l: "tm_listening m1 = tm_listening m" using dispatch_with_buffers(3) [of env n _ _ m] d by (metis snd_conv)
    show ?thesis
    proof (cases q)
      case (Inl e)
      then show ?thesis using 1(2) Some d l by (simp add: recv_loop.simps [of env n msg])
    next
      case (Inr u)
      then show ?thesis using 1(1) [OF Some d [symmetric] Inr] 1(2) Some d l
        by (simp add: recv_loop.simps [of env n msg])
    qed
  qed
qed

lemma recv_chunks:
  assumes "map_of (tm_listening m) fd = Some n"
  shows "smap_seq (\<lambda>c. on_recv_msg env fd (Data c)) (c # cs) m = (Inr (), m') \<longleftrightarrow>
           recv_loop env n (tm_buffers m n @ concat (c # cs)) m = (Inr (), m')"
  using assms
proof (induction cs arbitrary: c m)
  case Nil
  then show ?case by (simp add: on_recv_msg_def sseq_ok sret_def)
next
  case (Cons c' cs)
  have "smap_seq (\<lambda>c. on_recv_msg env fd (Data c)) (c # c' # cs) m = (Inr (), m') \<longleftrightarrow>
      (\<exists>m1. recv_loop env n (tm_buffers m n @ c) m = (Inr (), m1)
         \<and> smap_seq (\<lambda>c. on_recv_msg env fd (Data c)) (c' # cs) m1 = (Inr (), m'))"
    using Cons.prems by (simp add: on_recv_msg_def sseq_ok)
  also have "\<dots> \<longleftrightarrow> (\<exists>m1. recv_loop env n (tm_buffers m n @ c) m = (Inr (), m1)
         \<and> recv_loop env n (tm_buffers m1 n @ concat (c' # cs)) m1 = (Inr (), m'))"
    using Cons.IH Cons.prems recv_listening by metis
  also have "\<dots> \<longleftrightarrow> recv_loop env n ((tm_buffers m n @ c) @ concat (c' # cs)) m = (Inr (), m')"
    by (rule recv_append [symmetric])
  finally show ?case by simp
qed

section \<open>The result of a worker\<close>

lemma recv_empty: "recv_loop env n [] m = (Inr (), m\<lparr>tm_buffers := (tm_buffers m)(n := [])\<rparr>)"
  by (subst recv_loop.simps) (simp add: msg_len_def)

lemma recv_result:
  assumes "result_message dumps rc out = Inr bs" and "te_loads env (dumps out) = Inr out"
  shows "recv_loop env n bs m =
     (case on_task_done env n rc PNone
             (if truthy out then update_info n (\<lambda>i. i\<lparr>ti_output := out\<rparr>) m else m) of
        (Inl e, m') \<Rightarrow> (Inl e, m')
      | (Inr _, m') \<Rightarrow> (Inr (), m'\<lparr>tm_buffers := (tm_buffers m')(n := [])\<rparr>))"
proof -
  from assms(1) obtain b1 c r where b1: "(if truthy out then tlv OUTPUT (dumps out) else Inr []) = Inr b1"
    and c: "to_bytes4 rc = Inr c" and r: "tlv RET_CODE c = Inr r" and bs: "bs = b1 @ r"
    by (auto simp: result_message_def rbind_eq_Inr)
  have ret: "recv_loop env n r m' = (case on_task_done env n rc PNone m' of
        (Inl e, m') \<Rightarrow> (Inl e, m') | (Inr _, m') \<Rightarrow> (Inr (), m'\<lparr>tm_buffers := (tm_buffers m')(n := [])\<rparr>))" for m'
    using recv_tlv [OF r, of env n "[]" m'] from_to_bytes4 [OF c]
    by (simp add: dispatch_def recv_empty split: prod.splits sum.splits)
  show ?thesis
  proof (cases "truthy out")
    case True
    then have "tlv OUTPUT (dumps out) = Inr b1" using b1 by simp
    from recv_tlv [OF this, of env n r m] True show ?thesis
      by (simp add: bs ret dispatch_def assms(2))
  next
    case False
    then show ?thesis using b1 ret by (simp add: bs)
  qed
qed

text \<open>What the end of a task leaves of the task itself.\<close>

lemma release_own:
  "smap_seq (release_post n) ps m = (Inr (), m') \<Longrightarrow> task_info m n = Some i \<Longrightarrow>
     \<exists>i'. task_info m' n = Some i' \<and> ti_status i' = ti_status i \<and> ti_output i' = ti_output i"
proof (induction ps arbitrary: m i)
  case (Cons p ps)
  from Cons.prems(1) obtain m1 where m1: "release_post n p m = (Inr (), m1)" "smap_seq (release_post n) ps m1 = (Inr (), m')"
    by (auto simp: sseq_ok)
  have "task_info m1 n = Some (if n = p then unlinked n i else i)"
    using m1(1) Cons.prems(2) by (auto simp: release_post_def Let_def split: option.splits if_splits)
  then obtain i1 where "task_info m1 n = Some i1" "ti_status i1 = ti_status i" "ti_output i1 = ti_output i"
    by (auto split: if_splits)
  then show ?case using Cons.IH [OF m1(2)] by metis
qed (simp add: sret_def)

lemma drop_own:
  "smap_seq (drop_dep n) ds m = (Inr (), m') \<Longrightarrow> k \<notin> set ds \<Longrightarrow> task_info m' k = task_info m k"
proof (induction ds arbitrary: m)
  case (Cons d ds)
  from Cons.prems(1) obtain m1 where m1: "drop_dep n d m = (Inr (), m1)" "smap_seq (drop_dep n) ds m1 = (Inr (), m')"
    by (auto simp: sseq_ok)
  have "task_info m1 k = task_info m k"
    using m1(1) Cons.prems(2) by (auto simp: drop_dep_def split: option.splits if_splits)
  then show ?case using Cons.IH [OF m1(2)] Cons.prems(2) by simp
qed (simp add: sret_def)

lemma done_own:
  assumes "on_task_done env n rc PNone m = (Inr (), m')" and i: "task_info m n = Some i"
    and self: "n \<notin> set (tk_deps (ti_task i))"
  shows "\<exists>i'. task_info m' n = Some i' \<and> ti_status i' = (if rc = 0 then Succeed else Failed) \<and> ti_output i' = ti_output i"
proof (cases "rc = 0")
  case True
  let ?m1 = "update_info n (\<lambda>i. i\<lparr>ti_status := Succeed, ti_output := ti_output i\<rparr>) m"
  from assms(1) i True obtain m2 where
    m2: "smap_seq (release_post n) (te_iter env (ti_post_tasks i)) ?m1 = (Inr (), m2)"
      "smap_seq (drop_dep n) (tk_deps (ti_task i)) m2 = (Inr (), m')"
    by (auto simp: on_task_done_def sseq_ok smod_def)
  have "task_info ?m1 n = Some (i\<lparr>ti_status := Succeed, ti_output := ti_output i\<rparr>)" using i by simp
  from release_own [OF m2(1) this] show ?thesis
    using True drop_own [OF m2(2) self] by simp
qed (use assms in \<open>auto simp: on_task_done_def\<close>)

lemma result_message_nonempty: "result_message dumps rc out = Inr bs \<Longrightarrow> bs \<noteq> []"
  by (auto simp: result_message_def rbind_eq_Inr tlv_def to_bytes4_def split: if_splits)

lemma tm_inv_buffers: "tm_inv (m\<lparr>tm_buffers := B\<rparr>) = tm_inv m"
  by (simp add: tm_inv_def ready_ok_def listening_ok_def startable_def)

context task_env
begin

lemma recv_result_ok:
  assumes inv: "tm_inv m" and i: "task_info m n = Some i" "ti_status i = Running"
    and msg: "result_message dumps rc out = Inr bs" and loads: "te_loads env (dumps out) = Inr out"
  shows "\<exists>m' i'. recv_loop env n bs m = (Inr (), m') \<and> tm_inv m' \<and> tm_buffers m' n = []
    \<and> task_info m' n = Some i' \<and> ti_status i' = (if rc = 0 then Succeed else Failed)
    \<and> ti_output i' = (if truthy out then out else ti_output i)"
proof -
  let ?m0 = "if truthy out then update_info n (\<lambda>i. i\<lparr>ti_output := out\<rparr>) m else m"
  have "dispatch env n (msg_value OUTPUT) (dumps out) m = (Inr (), update_info n (\<lambda>i. i\<lparr>ti_output := out\<rparr>) m)"
    using loads by (simp add: dispatch_def)
  from other_dispatch_ok [OF inv _ this] have inv0: "tm_inv ?m0" using inv by simp
  obtain i0 where i0: "task_info ?m0 n = Some i0" "ti_status i0 = Running" "ti_task i0 = ti_task i"
      "ti_output i0 = (if truthy out then out else ti_output i)"
    using i by (cases "truthy out") auto
  obtain m1 where m1: "on_task_done env n rc PNone ?m0 = (Inr (), m1)" "tm_inv m1"
    using result_ok [OF inv0 i0(1,2)] by blast
  have "n \<notin> set (tk_deps (ti_task i0))"
    using inv0 i0(1) by (auto simp: tm_inv_def tasks_ok_def task_ok_def)
  from done_own [OF m1(1) i0(1) this] obtain i' where
    i': "task_info m1 n = Some i'" "ti_status i' = (if rc = 0 then Succeed else Failed)" "ti_output i' = ti_output i0" by blast
  let ?m' = "m1\<lparr>tm_buffers := (tm_buffers m1)(n := [])\<rparr>"
  have "recv_loop env n bs m = (Inr (), ?m')"
    using recv_result [OF msg loads, of n m] m1(1) by simp
  then show ?thesis using m1(2) i' i0(4) by (intro exI [of _ ?m'] exI [of _ i']) (simp add: tm_inv_buffers)
qed

end

end
