(* ===== verification/Task_Progress.thy ===== *)
theory Task_Progress
  imports Task_Facts
begin

text \<open>
  No task is forgotten when every task runs in a worker: a task whose prerequisites are done is in
  the list of ready tasks until it is started, and a running task is listened to.  A manager with
  nothing ready and nothing to listen to has therefore finished everything, unless a task failed.
\<close>

definition worker :: "ConcurrentTask \<Rightarrow> bool" where
  "worker t \<longleftrightarrow> tk_mode t AND SUB_PROCESS \<noteq> 0 \<or> tk_mode t AND PTHREAD \<noteq> 0"

definition deps_before :: "ConcurrentTasksManager \<Rightarrow> bool" where
  "deps_before m \<longleftrightarrow> (\<forall>a n b i. keys m = a @ n # b \<longrightarrow> task_info m n = Some i \<longrightarrow> set (tk_deps (ti_task i)) \<subseteq> set a)"

definition live_task :: "ConcurrentTasksManager \<Rightarrow> string \<Rightarrow> TaskInfo \<Rightarrow> bool" where
  "live_task m n i \<longleftrightarrow> worker (ti_task i) \<and> ti_status i \<noteq> Stopped
     \<and> (ti_status i = Running \<longrightarrow> fst (ti_pipe i) \<noteq> -1)
     \<and> (ti_status i = Init \<longrightarrow> ti_pre_tasks i = {} \<longrightarrow> n \<in> set (tm_ready m))"

definition live :: "ConcurrentTasksManager \<Rightarrow> bool" where
  "live m \<longleftrightarrow> deps_before m \<and> (\<forall>n i. task_info m n = Some i \<longrightarrow> live_task m n i)"

lemma liveD: "live m \<Longrightarrow> task_info m n = Some i \<Longrightarrow> live_task m n i"
  by (simp add: live_def)

text \<open>A step that keeps the tasks and their order.\<close>

lemma live_cong:
  assumes "live m" and "keys m' = keys m"
    and rel: "\<And>k j'. task_info m' k = Some j' \<Longrightarrow>
      \<exists>j. task_info m k = Some j \<and> ti_task j' = ti_task j \<and> (live_task m k j \<longrightarrow> live_task m' k j')"
  shows "live m'"
  unfolding live_def
proof (intro conjI allI impI)
  show "deps_before m'"
    unfolding deps_before_def
  proof (intro allI impI)
    fix a n b i assume k: "keys m' = a @ n # b" and i: "task_info m' n = Some i"
    from rel [OF i] obtain j where j: "task_info m n = Some j" "ti_task i = ti_task j" by blast
    have "deps_before m" using assms(1) by (simp add: live_def)
    then show "set (tk_deps (ti_task i)) \<subseteq> set a"
      using k j assms(2) unfolding deps_before_def by simp
  qed
next
  fix n i assume "task_info m' n = Some i"
  from rel [OF this] liveD [OF assms(1)] show "live_task m' n i" by blast
qed

section \<open>Scheduling\<close>

definition started :: "TaskInfo \<Rightarrow> TaskInfo \<Rightarrow> bool" where
  "started i i' \<longleftrightarrow> ti_task i' = ti_task i \<and> ti_status i' = Running \<and> fst (ti_pipe i') \<noteq> -1"

context task_env
begin

lemma start_worker:
  assumes i: "task_info m n = Some i" and w: "worker (ti_task i)"
  shows "\<exists>m' i'. run_one_task env n m = (Inr (), m') \<and> keys m' = keys m \<and> tm_ready m' = tm_ready m
       \<and> (\<forall>k. task_info m' k = (if k = n then Some i' else task_info m k)) \<and> started i i'"
proof -
  let ?p = "te_pipe env (fst ` set (tm_listening m))"
  have fresh: "fst ?p \<noteq> -1" using pipe_fresh [of "fst ` set (tm_listening m)"] by auto
  let ?m1 = "update_info n (\<lambda>i. i\<lparr>ti_status := Running\<rparr>) m"
  have start: "\<exists>m' i'. sseq (add_listening env n) (smod (update_info n h)) ?m1 = (Inr (), m')
       \<and> keys m' = keys m \<and> tm_ready m' = tm_ready m
       \<and> (\<forall>k. task_info m' k = (if k = n then Some i' else task_info m k)) \<and> started i i'"
    if h: "\<And>i. ti_status (h i) = ti_status i \<and> ti_task (h i) = ti_task i \<and> fst (ti_pipe (h i)) = fst (ti_pipe i)" for h
    using fresh i h by (auto simp: add_listening_def sseq_def sbind_def smod_def Let_def started_def)
  have "run_one_task env n m = (if tk_mode (ti_task i) AND SUB_PROCESS \<noteq> 0 then run_in_subprocess env n
      else run_in_pthread env n) ?m1"
    using i w by (auto simp: run_one_task_def sseq_def sbind_def smod_def worker_def)
  moreover have "\<exists>m' i'. run_in_subprocess env n ?m1 = (Inr (), m') \<and> keys m' = keys m \<and> tm_ready m' = tm_ready m
       \<and> (\<forall>k. task_info m' k = (if k = n then Some i' else task_info m k)) \<and> started i i'"
    unfolding run_in_subprocess_def by (rule start) simp
  moreover have "\<exists>m' i'. run_in_pthread env n ?m1 = (Inr (), m') \<and> keys m' = keys m \<and> tm_ready m' = tm_ready m
       \<and> (\<forall>k. task_info m' k = (if k = n then Some i' else task_info m k)) \<and> started i i'"
    unfolding run_in_pthread_def by (rule start) simp
  ultimately show ?thesis by simp
qed

lemma start_workers:
  assumes "\<And>n. n \<in> set ns \<Longrightarrow> \<exists>i. task_info m n = Some i \<and> worker (ti_task i)"
  shows "\<exists>m'. smap_seq (run_one_task env) ns m = (Inr (), m') \<and> keys m' = keys m
       \<and> (\<forall>k. rel_option (\<lambda>j j'. if k \<in> set ns then started j j' else j' = j) (task_info m k) (task_info m' k))"
  using assms
proof (induction ns arbitrary: m)
  case Nil
  then show ?case by (auto simp: sret_def intro: option.rel_refl)
next
  case (Cons n ns)
  obtain i where i: "task_info m n = Some i" "worker (ti_task i)" using Cons.prems by auto
  from start_worker [OF i] obtain m1 i' where m1: "run_one_task env n m = (Inr (), m1)" "keys m1 = keys m"
    and info: "\<And>k. task_info m1 k = (if k = n then Some i' else task_info m k)" and st: "started i i'" by blast
  have "\<exists>j. task_info m1 k = Some j \<and> worker (ti_task j)" if "k \<in> set ns" for k
    using Cons.prems [of k] that i st by (auto simp: info started_def)
  from Cons.IH [OF this] obtain m' where m': "smap_seq (run_one_task env) ns m1 = (Inr (), m')" "keys m' = keys m1"
    and rel: "\<And>k. rel_option (\<lambda>j j'. if k \<in> set ns then started j j' else j' = j) (task_info m1 k) (task_info m' k)"
    by blast
  have "rel_option (\<lambda>j j'. if k \<in> set (n # ns) then started j j' else j' = j) (task_info m k) (task_info m' k)" for k
    using rel [of k] i st
    by (cases "k = n") (auto simp: info option_rel_Some1 started_def split: if_splits)
  then show ?case using m1 m' by (intro exI [of _ m']) (simp add: sseq_def sbind_def)
qed

lemma schedule_live:
  assumes inv: "tm_inv m" and live: "live m" and run: "schedule env m = (r, m')"
  shows "live m'"
proof -
  let ?n = "min (tm_max m - int (length (tm_listening m))) (int (length (tm_ready m)))"
  let ?k = "slice_bound ?n (tm_ready m)"
  let ?ns = "take ?k (tm_ready m)"
  have known: "\<exists>i. task_info m n = Some i \<and> worker (ti_task i)" if "n \<in> set ?ns" for n
  proof -
    have "startable m n" using inv that in_set_takeD [OF that] by (auto simp: tm_inv_def ready_ok_def)
    then show ?thesis using liveD [OF live] by (auto simp: startable_def live_task_def)
  qed
  from start_workers [OF known] obtain m1 where m1: "smap_seq (run_one_task env) ?ns m = (Inr (), m1)" "keys m1 = keys m"
    and rel: "\<And>k. rel_option (\<lambda>j j'. if k \<in> set ?ns then started j j' else j' = j) (task_info m k) (task_info m1 k)"
    by blast
  have m': "m' = m1\<lparr>tm_ready := drop ?k (tm_ready m)\<rparr>"
    using run m1(1) by (simp add: schedule_def Let_def sseq_def sbind_def smod_def)
  show ?thesis
  proof (rule live_cong [OF live])
    show "keys m' = keys m" by (simp add: m' m1(2))
  next
    fix k j' assume "task_info m' k = Some j'"
    then have k: "task_info m1 k = Some j'" by (simp add: m')
    from rel [of k] k obtain j where j: "task_info m k = Some j" "if k \<in> set ?ns then started j j' else j' = j"
      by (auto simp: option_rel_Some2)
    have "k \<in> set (tm_ready m) \<Longrightarrow> k \<in> set ?ns \<or> k \<in> set (drop ?k (tm_ready m))"
      by (metis Un_iff append_take_drop_id set_append)
    then have "live_task m k j \<longrightarrow> live_task m' k j'"
      using j(2) by (auto simp: live_task_def started_def m' split: if_splits)
    then show "\<exists>j. task_info m k = Some j \<and> ti_task j' = ti_task j \<and> (live_task m k j \<longrightarrow> live_task m' k j')"
      using j by (auto simp: started_def split: if_splits)
  qed
qed

section \<open>Results and exits\<close>

lemma result_live:
  assumes inv: "tm_inv m" and live: "live m" and i: "task_info m n = Some i" "ti_status i = Running"
    and run: "on_task_done env n rc out m = (r, m')"
  shows "live m'"
proof (cases "rc = 0")
  case True
  have ok: "tasks_ok m" using inv by (simp add: tm_inv_def)
  from on_task_done_success [OF ok i, of out] run True obtain new where
    d: "frame m m'" "done_tasks n m m'" "tm_ready m' = tm_ready m @ new"
      "\<forall>p. p \<in> set new \<longleftrightarrow> (\<exists>j. task_info m p = Some j \<and> n \<in> ti_pre_tasks j \<and> ti_pre_tasks j - {n} = {})" by auto
  show ?thesis
  proof (rule live_cong [OF live])
    show "keys m' = keys m" using d(1) by (simp add: frame_def)
  next
    fix k j' assume "task_info m' k = Some j'"
    from done_tasks_someD [OF d(2) this] obtain j where j: "task_info m k = Some j" "done_rel n k j j'" by blast
    have "k \<in> set new" if "n \<in> ti_pre_tasks j" "ti_pre_tasks j - {n} = {}" using d(4) j(1) that by blast
    then have "live_task m k j \<longrightarrow> live_task m' k j'"
      using j(2) d(3) by (cases "n \<in> ti_pre_tasks j") (auto simp: live_task_def done_rel_def split: if_splits)
    then show "\<exists>j. task_info m k = Some j \<and> ti_task j' = ti_task j \<and> (live_task m k j \<longrightarrow> live_task m' k j')"
      using j by (auto simp: done_rel_def)
  qed
next
  case False
  then have m': "m' = update_info n (\<lambda>i. i\<lparr>ti_status := Failed\<rparr>) m"
    using run i by (simp add: on_task_done_def)
  show ?thesis by (rule live_cong [OF live]) (use i in \<open>auto simp: m' live_task_def split: if_splits\<close>)
qed

end

lemma other_live:
  assumes live: "live m" and "ty \<noteq> msg_value RET_CODE" and "dispatch env n ty v m = (r, m')"
  shows "live m'"
proof -
  have "live (update_info n (\<lambda>i. i\<lparr>ti_output := x\<rparr>) m)" for x
    by (rule live_cong [OF live]) (auto simp: live_task_def split: if_splits)
  moreover have "live (m\<lparr>tm_printed := p\<rparr>)" for p
    by (rule live_cong [OF live]) (auto simp: live_task_def)
  ultimately show ?thesis
    using assms by (auto simp: dispatch_def split: if_splits sum.splits)
qed

lemma exit_live:
  assumes inv: "tm_inv m" and live: "live m" and n: "map_of (tm_listening m) fd = Some n"
    and run: "on_task_exit n m = (r, m')"
  shows "live m'"
proof -
  have lis: "listening_ok m" using inv by (simp add: tm_inv_def)
  obtain i where i: "task_info m n = Some i" "fst (ti_pipe i) = fd" "ti_status i \<noteq> Init" "fd \<noteq> -1"
    using listening_okD(1) [OF lis map_of_SomeD [OF n]] by blast
  have "keys m' = keys m \<and> tm_ready m' = tm_ready m \<and> task_info m' k = (if k = n
      then Some ((if ti_status i = Succeed then i else i\<lparr>ti_status := Failed\<rparr>)\<lparr>ti_pipe := (-1, -1)\<rparr>)
      else task_info m k)" for k
    using run i n by (auto simp: on_task_exit_def sseq_def sbind_def smod_def remove_listening_def Let_def)
  then have e: "keys m' = keys m" "tm_ready m' = tm_ready m"
    "\<And>k. task_info m' k = (if k = n
      then Some ((if ti_status i = Succeed then i else i\<lparr>ti_status := Failed\<rparr>)\<lparr>ti_pipe := (-1, -1)\<rparr>)
      else task_info m k)" by blast+
  show ?thesis
    by (rule live_cong [OF live e(1)]) (use i e in \<open>auto simp: live_task_def split: if_splits\<close>)
qed

lemma add_live:
  assumes live: "live m" and "worker t" and fresh: "tk_name t \<notin> set (keys m)"
    and inv: "tm_inv m" and add: "add_task t m = (Inr (), m')"
  shows "live m'"
proof -
  let ?n = "tk_name t" and ?ds = "tk_deps t"
  from add obtain m1 where m1: "link_deps ?n ?ds m = (Inr (), m1)"
    and m': "m' = m1\<lparr>tm_tasks := AList.update ?n (task_info_init t) (tm_tasks m1),
                tm_ready := tm_ready m1 @ (if ?ds = [] then [?n] else [])\<rparr>"
    by (auto simp: add_task_def sseq_ok smod_def)
  note l = link_deps_ok [OF m1]
  have k1: "keys m1 = keys m" using l by (simp add: frame_def)
  have "AList.update ?n (task_info_init t) (tm_tasks m1) = tm_tasks m1 @ [(?n, task_info_init t)]"
    using fresh k1 by (intro keys_append) simp
  then have keys: "keys m' = keys m @ [?n]" using k1 by (simp add: keys_def m')
  have info: "task_info m' k = (if k = ?n then Some (task_info_init t)
      else if k \<in> set ?ds then map_option (\<lambda>i. i\<lparr>ti_post_tasks := insert ?n (ti_post_tasks i)\<rparr>) (task_info m k)
      else task_info m k)" for k
    using l by (auto simp: task_info_def m' update_conv)
  have db: "deps_before m" and dist: "distinct (keys m)" using live inv by (simp_all add: live_def tm_inv_def tasks_ok_def)
  have "deps_before m'"
    unfolding deps_before_def
  proof (intro allI impI)
    fix a n b i assume k: "keys m' = a @ n # b" and i: "task_info m' n = Some i"
    show "set (tk_deps (ti_task i)) \<subseteq> set a"
    proof (cases "n = ?n")
      case True
      have "a = keys m" using k keys fresh True dist by (auto simp: append_eq_append_conv2 Cons_eq_append_conv append_eq_Cons_conv)
      then show ?thesis using True i l by (auto simp: info task_info_init_def)
    next
      case False
      then obtain b' where "keys m = a @ n # b'"
        using k keys by (cases b rule: rev_cases) auto
      moreover obtain j where "task_info m n = Some j" "ti_task i = ti_task j"
        using i False by (auto simp: info split: if_splits)
      ultimately show ?thesis using db unfolding deps_before_def by simp
    qed
  qed
  moreover have "live_task m' k j'" if j': "task_info m' k = Some j'" for k j'
  proof (cases "k = ?n")
    case True
    then have "j' = task_info_init t" using j' by (simp add: info)
    moreover have "?ds = [] \<Longrightarrow> ?n \<in> set (tm_ready m')" by (simp add: m')
    ultimately show ?thesis using True assms(2) by (simp add: live_task_def task_info_init_def)
  next
    case False
    then obtain j where "task_info m k = Some j"
        "j' = (if k \<in> set ?ds then j\<lparr>ti_post_tasks := insert ?n (ti_post_tasks j)\<rparr> else j)"
      using j' by (auto simp: info split: if_splits)
    then show ?thesis using liveD [OF live, of k j] l by (auto simp: live_task_def m')
  qed
  ultimately show ?thesis by (simp add: live_def)
qed

section \<open>Reachable managers\<close>

context task_env
begin

lemma reach_live: "tm_reach env worker m \<Longrightarrow> live m"
proof (induction rule: tm_reach.induct)
  case (start n)
  then show ?case by (simp add: live_def deps_before_def manager_init_def keys_def task_info_def)
next
  case (add m t m')
  then show ?case using add_live reach_inv by blast
next
  case (sched m r m')
  then show ?case using schedule_live reach_inv by blast
next
  case (result m n i v r m')
  then show ?case using result_live [OF reach_inv [OF result.hyps(1)] result.IH result.hyps(2,3)]
    by (simp add: dispatch_def)
next
  case (other m ty n v r m')
  then show ?case using other_live by blast
next
  case (exit m fd n r m')
  then show ?case using exit_live reach_inv by blast
qed

text \<open>Nothing ready, nothing listened to and nothing failed: everything is done.\<close>

lemma all_done:
  assumes reach: "tm_reach env worker m" and idle: "tm_ready m = []" "tm_listening m = []"
    and ok: "\<And>n i. task_info m n = Some i \<Longrightarrow> ti_status i \<noteq> Failed"
  shows "keys m = a @ n # b \<Longrightarrow> n \<in> succeeded m"
proof (induction "length a" arbitrary: a n b rule: less_induct)
  case less
  have inv: "tm_inv m" and live: "live m" using reach_inv reach_live reach by blast+
  obtain i where i: "task_info m n = Some i" using key_task_info less.prems by fastforce
  have deps: "set (tk_deps (ti_task i)) \<subseteq> set a"
    using live i less.prems unfolding live_def deps_before_def by blast
  have "d \<in> succeeded m" if "d \<in> set a" for d
  proof -
    from split_list [OF that] obtain a1 a2 where "a = a1 @ d # a2" by blast
    then show ?thesis using less.hyps [of a1 d "a2 @ n # b"] less.prems by simp
  qed
  then have "ti_pre_tasks i = {}"
    using inv i deps by (auto simp: tm_inv_def tasks_ok_def task_ok_def)
  moreover have "fst (ti_pipe i) = -1"
    using inv i idle listening_okD(2) [of m n i] by (auto simp: tm_inv_def)
  ultimately have "ti_status i = Succeed"
    using liveD [OF live i] ok [OF i] idle by (cases "ti_status i") (auto simp: live_task_def)
  then show ?case using i by (simp add: succeeded_def)
qed

end

end
