(* ===== verification/Parser_Config.thy ===== *)
theory Parser_Config
  imports Task_Facts
begin

text \<open>
  The parsers an analysis runs and the order between them: the tables of
  \<open>prof_config/_parser_config.py\<close> and \<open>prof_config/_parser_deps_config.py\<close>, the task a parser becomes
  (\<open>prof_view/_base_parser.py\<close>) and the selection of the parsers in \<open>_profiling_parser.py\<close>, all
  under \<open>torch_npu/profiler/analysis\<close>.

  Whether the profiling directory holds CANN data, the profiler level, the requested export types
  and the capability of the installed CANN package are arguments, as is the iteration order of the
  set of export types.
\<close>

section \<open>Parsers and their names\<close>

datatype parser =
    TorchOpParser | TaskQueueParser | TracePreParser | TreeBuildParser | CANNExportParser
  | CANNTimelineParser | CANNAnalyzeParser | OperatorViewParser | TraceViewParser | KernelViewParser
  | TraceStepTimeParser | MemoryViewParser | IntegrateParser | CommunicationParser | RelationParser
  | StackViewParser | MemoryPrepareParser | MemoryTimelineParser | DbPreParser | DbParser

fun PARSER_NAME_MAP :: "parser \<Rightarrow> string" where
  "PARSER_NAME_MAP TorchOpParser = ''torch_op''"
| "PARSER_NAME_MAP TaskQueueParser = ''task_queue''"
| "PARSER_NAME_MAP TracePreParser = ''trace_prepare''"
| "PARSER_NAME_MAP TreeBuildParser = ''build_tree''"
| "PARSER_NAME_MAP CANNExportParser = ''export''"
| "PARSER_NAME_MAP CANNTimelineParser = ''timeline''"
| "PARSER_NAME_MAP CANNAnalyzeParser = ''analyze''"
| "PARSER_NAME_MAP OperatorViewParser = ''operator''"
| "PARSER_NAME_MAP TraceViewParser = ''trace''"
| "PARSER_NAME_MAP KernelViewParser = ''kernel''"
| "PARSER_NAME_MAP TraceStepTimeParser = ''step_time''"
| "PARSER_NAME_MAP MemoryViewParser = ''memory''"
| "PARSER_NAME_MAP IntegrateParser = ''integrate''"
| "PARSER_NAME_MAP CommunicationParser = ''communication''"
| "PARSER_NAME_MAP RelationParser = ''relation''"
| "PARSER_NAME_MAP StackViewParser = ''export_stack''"
| "PARSER_NAME_MAP MemoryPrepareParser = ''memory_prepare''"
| "PARSER_NAME_MAP MemoryTimelineParser = ''memory_timeline''"
| "PARSER_NAME_MAP DbPreParser = ''db_prepare''"
| "PARSER_NAME_MAP DbParser = ''torch_db''"

section \<open>Dependencies\<close>

text \<open>An entry may leave out the mode and the dependencies.\<close>

record deps_entry =
  de_mode :: "int option"
  de_deps :: "string list option"

definition de :: "int \<Rightarrow> string list \<Rightarrow> deps_entry" where
  "de md deps = \<lparr>de_mode = Some md, de_deps = Some deps\<rparr>"

definition deps_COMMON_CONFIG :: "(string \<times> deps_entry) list" where
  "deps_COMMON_CONFIG =
    [(''torch_op'', de PTHREAD []),
     (''task_queue'', de PTHREAD []),
     (''trace_prepare'', de SUB_PROCESS [''torch_op'', ''task_queue'']),
     (''build_tree'', de PTHREAD [''torch_op'', ''task_queue'']),
     (''export'', de SUB_PROCESS []),
     (''timeline'', de (NON_BLOCKING OR PTHREAD) []),
     (''relation'', de PTHREAD [''task_queue'', ''timeline'']),
     (''analyze'', de SUB_PROCESS [''timeline'']),
     (''operator'', de SUB_PROCESS [''build_tree'', ''timeline'', ''relation'', ''torch_op'']),
     (''trace'', de SUB_PROCESS [''build_tree'', ''trace_prepare'', ''timeline'', ''task_queue'', ''torch_op'']),
     (''kernel'', de SUB_PROCESS [''build_tree'', ''export'', ''relation'']),
     (''step_time'', de SUB_PROCESS [''build_tree'', ''timeline'', ''relation'', ''torch_op'']),
     (''memory'', de SUB_PROCESS [''export'', ''memory_prepare'']),
     (''integrate'', de SUB_PROCESS [''export'']),
     (''communication'', de SUB_PROCESS [''build_tree'', ''analyze'', ''relation'']),
     (''export_stack'', de SUB_PROCESS [''build_tree'', ''timeline'', ''task_queue'', ''torch_op'']),
     (''memory_prepare'', de PTHREAD [''build_tree'', ''task_queue'', ''torch_op'']),
     (''db_prepare'', de PTHREAD [''torch_op'', ''task_queue'']),
     (''torch_db'', de PTHREAD [''export'', ''memory_prepare'', ''build_tree'', ''analyze'', ''db_prepare'']),
     (''memory_timeline'', \<lparr>de_mode = None, de_deps = None\<rparr>)]"

definition deps_ONLY_FWK_CONFIG :: "(string \<times> deps_entry) list" where
  "deps_ONLY_FWK_CONFIG =
    [(''torch_op'', de PTHREAD []),
     (''task_queue'', de PTHREAD []),
     (''build_tree'', de PTHREAD [''torch_op'', ''task_queue'']),
     (''operator'', de SUB_PROCESS [''torch_op'']),
     (''trace'', de SUB_PROCESS [''task_queue'', ''torch_op'']),
     (''memory'', de SUB_PROCESS [''memory_prepare'']),
     (''export_stack'', de SUB_PROCESS [''torch_op'', ''task_queue'']),
     (''export'', de SUB_PROCESS []),
     (''db_prepare'', de PTHREAD [''torch_op'', ''task_queue'']),
     (''memory_prepare'', de PTHREAD [''task_queue'', ''torch_op'']),
     (''torch_db'', de PTHREAD [''db_prepare'', ''memory_prepare'', ''build_tree'']),
     (''memory_timeline'', \<lparr>de_mode = None, de_deps = None\<rparr>)]"

text \<open>The task a parser becomes; \<open>cann\<close> tells whether the directory holds CANN data.\<close>

definition init_param :: "bool \<Rightarrow> string \<Rightarrow> string list \<times> int" where
  "init_param cann name =
     (let config = (case map_of (if cann then deps_COMMON_CONFIG else deps_ONLY_FWK_CONFIG) name of
                      Some e \<Rightarrow> e | None \<Rightarrow> \<lparr>de_mode = None, de_deps = None\<rparr>);
          md = (case de_mode config of Some x \<Rightarrow> x | None \<Rightarrow> SUB_PROCESS);
          deps = (case de_deps config of Some ds \<Rightarrow> ds | None \<Rightarrow> [])
      in (deps, md))"

definition parser_task :: "bool \<Rightarrow> parser \<Rightarrow> ConcurrentTask" where
  "parser_task cann p =
     (case init_param cann (PARSER_NAME_MAP p) of (deps, md) \<Rightarrow>
        \<lparr>tk_name = PARSER_NAME_MAP p, tk_deps = deps, tk_mode = md\<rparr>)"

section \<open>Which parsers run\<close>

type_synonym parser_table = "(string \<times> (string \<times> parser list) list) list"

definition LEVEL_NONE_CONFIG :: parser_table where
  "LEVEL_NONE_CONFIG =
    [(''text'', [(''tensorboard_trace_handler'',
        [TaskQueueParser, TorchOpParser, TracePreParser, TreeBuildParser, CANNExportParser,
         CANNTimelineParser, RelationParser, MemoryPrepareParser, CANNAnalyzeParser,
         OperatorViewParser, TraceViewParser, MemoryViewParser, IntegrateParser])]),
     (''db'', [(''tensorboard_trace_handler'',
        [TorchOpParser, TaskQueueParser, DbPreParser, CANNExportParser, CANNTimelineParser,
         CANNAnalyzeParser, TreeBuildParser, MemoryPrepareParser, DbParser])])]"

definition COMMON_CONFIG :: parser_table where
  "COMMON_CONFIG =
    [(''text'',
       [(''tensorboard_trace_handler'',
          [TorchOpParser, TaskQueueParser, TracePreParser, TreeBuildParser, CANNExportParser,
           CANNTimelineParser, RelationParser, MemoryPrepareParser, CANNAnalyzeParser,
           OperatorViewParser, TraceViewParser, KernelViewParser, TraceStepTimeParser,
           MemoryViewParser, IntegrateParser, CommunicationParser]),
        (''export_chrome_trace'',
          [TorchOpParser, TaskQueueParser, TracePreParser, TreeBuildParser, CANNExportParser,
           CANNTimelineParser, TraceViewParser]),
        (''export_stack'',
          [TorchOpParser, TaskQueueParser, TreeBuildParser, CANNExportParser, CANNTimelineParser,
           StackViewParser]),
        (''export_memory_timeline'', [MemoryTimelineParser])]),
     (''db'',
       [(''tensorboard_trace_handler'',
          [TorchOpParser, TaskQueueParser, DbPreParser, CANNExportParser, CANNTimelineParser,
           CANNAnalyzeParser, TreeBuildParser, MemoryPrepareParser, DbParser])])]"

definition ONLY_FWK_CONFIG :: parser_table where
  "ONLY_FWK_CONFIG =
    [(''text'',
       [(''tensorboard_trace_handler'',
          [TorchOpParser, TaskQueueParser, MemoryPrepareParser, OperatorViewParser, TraceViewParser,
           MemoryViewParser]),
        (''export_chrome_trace'', [TorchOpParser, TaskQueueParser, TraceViewParser]),
        (''export_stack'', [TorchOpParser, TaskQueueParser, StackViewParser]),
        (''export_memory_timeline'', [MemoryTimelineParser])]),
     (''db'',
       [(''tensorboard_trace_handler'',
          [TorchOpParser, TaskQueueParser, DbPreParser, TreeBuildParser, MemoryPrepareParser, DbParser])])]"

definition table_get :: "parser_table \<Rightarrow> string \<Rightarrow> string \<Rightarrow> parser list" where
  "table_get config export_type analysis_type =
     (case map_of config export_type of
        None \<Rightarrow> []
      | Some d \<Rightarrow> (case map_of d analysis_type of None \<Rightarrow> [] | Some ps \<Rightarrow> ps))"

definition select_config :: "bool \<Rightarrow> string \<Rightarrow> parser_table" where
  "select_config cann level =
     (if cann then (if level = ''Level_none'' then LEVEL_NONE_CONFIG else COMMON_CONFIG)
      else ONLY_FWK_CONFIG)"

text \<open>Appending the parsers that are not in the list yet.\<close>

definition add_parsers :: "parser list \<Rightarrow> parser list \<Rightarrow> parser list" where
  "add_parsers ps acc = fold (\<lambda>p acc. if p \<in> set acc then acc else acc @ [p]) ps acc"

definition parser_list ::
  "(string set \<Rightarrow> string list) \<Rightarrow> parser_table \<Rightarrow> string \<Rightarrow> string list \<Rightarrow> bool \<Rightarrow> parser list" where
  "parser_list iter config analysis_type export_types default_db =
     (let ps = fold (\<lambda>t. add_parsers (table_get config t analysis_type)) (iter (set export_types)) []
      in if default_db then add_parsers (table_get config ''db'' analysis_type) ps else ps)"

definition add_all :: "bool \<Rightarrow> parser list \<Rightarrow> unit mgr" where
  "add_all cann = smap_seq (\<lambda>p. add_task (parser_task cann p))"

definition run_parser ::
  "tm_env \<Rightarrow> (string \<Rightarrow> bool) \<Rightarrow> poll_event list list \<Rightarrow> bool \<Rightarrow> string \<Rightarrow> string \<Rightarrow> string list \<Rightarrow> bool
     \<Rightarrow> unit mgr" where
  "run_parser env alive evss cann level analysis_type export_types default_db =
     sseq (add_all cann (parser_list (te_iter env) (select_config cann level) analysis_type
             export_types default_db))
       (smod (run_manager env alive evss))"

text \<open>
  The export types an analysis uses: the requested ones, without the database when the analysis is
  an export of traces or stacks; a CANN package that cannot export a database raises.
\<close>

definition update_export_type ::
  "string list option \<Rightarrow> string \<Rightarrow> bool \<Rightarrow> bool \<Rightarrow> (string list, unit) stm" where
  "update_export_type requested analysis_type cann support_db =
     sseq (smod (\<lambda>ts. case requested of None \<Rightarrow> ts | Some rs \<Rightarrow> rs))
       (\<lambda>ts. if ''db'' \<notin> set ts then (Inr (), ts)
             else if analysis_type = ''export_chrome_trace'' \<or> analysis_type = ''export_stack''
             then (Inr (), [''text''])
             else if \<not> cann then (Inr (), ts)
             else if \<not> support_db then (Inl RuntimeError, ts)
             else (Inr (), ts))"

section \<open>Every configured pipeline is accepted\<close>

lemma PARSER_NAME_MAP_inj: "PARSER_NAME_MAP p = PARSER_NAME_MAP q \<longleftrightarrow> p = q"
  by (cases p; cases q) simp_all

text \<open>The dependencies of a parser, as parsers.\<close>

fun dep_parsers :: "bool \<Rightarrow> parser \<Rightarrow> parser list" where
  "dep_parsers _ TorchOpParser = []"
| "dep_parsers _ TaskQueueParser = []"
| "dep_parsers c TracePreParser = (if c then [TorchOpParser, TaskQueueParser] else [])"
| "dep_parsers _ TreeBuildParser = [TorchOpParser, TaskQueueParser]"
| "dep_parsers _ CANNExportParser = []"
| "dep_parsers _ CANNTimelineParser = []"
| "dep_parsers c CANNAnalyzeParser = (if c then [CANNTimelineParser] else [])"
| "dep_parsers c OperatorViewParser =
     (if c then [TreeBuildParser, CANNTimelineParser, RelationParser, TorchOpParser] else [TorchOpParser])"
| "dep_parsers c TraceViewParser =
     (if c then [TreeBuildParser, TracePreParser, CANNTimelineParser, TaskQueueParser, TorchOpParser]
      else [TaskQueueParser, TorchOpParser])"
| "dep_parsers c KernelViewParser = (if c then [TreeBuildParser, CANNExportParser, RelationParser] else [])"
| "dep_parsers c TraceStepTimeParser =
     (if c then [TreeBuildParser, CANNTimelineParser, RelationParser, TorchOpParser] else [])"
| "dep_parsers c MemoryViewParser = (if c then [CANNExportParser, MemoryPrepareParser] else [MemoryPrepareParser])"
| "dep_parsers c IntegrateParser = (if c then [CANNExportParser] else [])"
| "dep_parsers c CommunicationParser = (if c then [TreeBuildParser, CANNAnalyzeParser, RelationParser] else [])"
| "dep_parsers c RelationParser = (if c then [TaskQueueParser, CANNTimelineParser] else [])"
| "dep_parsers c StackViewParser =
     (if c then [TreeBuildParser, CANNTimelineParser, TaskQueueParser, TorchOpParser]
      else [TorchOpParser, TaskQueueParser])"
| "dep_parsers c MemoryPrepareParser =
     (if c then [TreeBuildParser, TaskQueueParser, TorchOpParser] else [TaskQueueParser, TorchOpParser])"
| "dep_parsers _ MemoryTimelineParser = []"
| "dep_parsers _ DbPreParser = [TorchOpParser, TaskQueueParser]"
| "dep_parsers c DbParser =
     (if c then [CANNExportParser, MemoryPrepareParser, TreeBuildParser, CANNAnalyzeParser, DbPreParser]
      else [DbPreParser, MemoryPrepareParser, TreeBuildParser])"

lemma de_sel [simp]: "de_mode (de md ds) = Some md" "de_deps (de md ds) = Some ds"
  by (simp_all add: de_def)

lemmas lookup = map_of_Cons_code option.case

lemmas table_defs = init_param_def deps_COMMON_CONFIG_def deps_ONLY_FWK_CONFIG_def Let_def lookup

lemma parser_task_name: "tk_name (parser_task c p) = PARSER_NAME_MAP p"
  by (simp add: parser_task_def split: prod.splits)

lemma parser_task_deps: "tk_deps (parser_task c p) = map PARSER_NAME_MAP (dep_parsers c p)"
  by (cases c; cases p) (simp_all add: parser_task_def table_defs del: map_of.simps)

lemma parser_task_mode: "tk_mode (parser_task c p) \<in> {SUB_PROCESS, PTHREAD, NON_BLOCKING OR PTHREAD}"
  by (cases c; cases p) (simp_all add: parser_task_def table_defs del: map_of.simps)

lemma dep_parsers_distinct: "distinct (dep_parsers c p)"
  by (cases p) auto

text \<open>Every parser comes after the ones it depends on.\<close>

fun ordered :: "bool \<Rightarrow> parser list \<Rightarrow> parser list \<Rightarrow> bool" where
  "ordered c seen [] = True"
| "ordered c seen (p # ps) =
     (list_all (\<lambda>q. q \<in> set seen) (dep_parsers c p) \<and> p \<notin> set seen \<and> ordered c (p # seen) ps)"

lemma parser_list_known:
  assumes "set_iteration iter"
  shows "\<exists>ts \<in> {[], [''text''], [''db''], [''text'', ''db''], [''db'', ''text'']}.
    parser_list iter (select_config c level) a types d =
      (let ps = fold (\<lambda>t. add_parsers (table_get (select_config c level) t a)) ts []
       in if d then add_parsers (table_get (select_config c level) ''db'' a) ps else ps)"
proof -
  let ?g = "\<lambda>t. table_get (select_config c level) t a"
  let ?known = "\<lambda>t. t = ''text'' \<or> t = ''db''"
  let ?xs = "iter (set types)"
  have unknown: "\<not> ?known t \<Longrightarrow> ?g t = []" for t
    by (auto simp: table_get_def select_config_def LEVEL_NONE_CONFIG_def COMMON_CONFIG_def ONLY_FWK_CONFIG_def)
  have "fold (\<lambda>t. add_parsers (?g t)) xs acc = fold (\<lambda>t. add_parsers (?g t)) (filter ?known xs) acc" for xs acc
    by (induction xs arbitrary: acc) (simp_all add: unknown add_parsers_def)
  moreover have "filter ?known ?xs \<in> {[], [''text''], [''db''], [''text'', ''db''], [''db'', ''text'']}"
  proof -
    have d: "distinct (filter ?known ?xs)" using set_iteration.distinct_iter [OF assms, of "set types"] by simp
    have s: "set (filter ?known ?xs) \<subseteq> {''text'', ''db''}" by auto
    have "ys \<in> {[], [''text''], [''db''], [''text'', ''db''], [''db'', ''text'']}"
      if "distinct ys" "set ys \<subseteq> {''text'', ''db''}" for ys
    proof (cases ys)
      case (Cons y zs)
      show ?thesis
      proof (cases zs)
        case (Cons z ws)
        have "ws = []" using that by (cases ws) (auto simp: \<open>ys = y # zs\<close> Cons)
        then show ?thesis using that by (auto simp: \<open>ys = y # zs\<close> Cons)
      qed (use that in \<open>auto simp: Cons\<close>)
    qed simp
    from this [OF d s] show ?thesis .
  qed
  ultimately show ?thesis by (intro bexI [of _ "filter ?known ?xs"]) (simp_all add: parser_list_def)
qed

text \<open>A table lists, per analysis, the parsers of the text export and those of the database.\<close>

definition ordered_pair :: "bool \<Rightarrow> parser list \<times> parser list \<Rightarrow> bool" where
  "ordered_pair c td = (case td of (t, d) \<Rightarrow>
     ordered c [] (add_parsers t []) \<and> ordered c [] (add_parsers d [])
     \<and> ordered c [] (add_parsers d (add_parsers t [])) \<and> ordered c [] (add_parsers t (add_parsers d [])))"

definition pair_of :: "parser_table \<Rightarrow> string \<Rightarrow> parser list \<times> parser list" where
  "pair_of config a = (table_get config ''text'' a, table_get config ''db'' a)"

lemmas pair_defs = pair_of_def table_get_def

lemma empty_pair: "ordered_pair c ([], [])"
  by (simp add: ordered_pair_def add_parsers_def)

lemma level_none_ordered: "ordered_pair True (pair_of LEVEL_NONE_CONFIG a)"
proof (cases "a = ''tensorboard_trace_handler''")
  case True
  show ?thesis unfolding True by code_simp
next
  case False
  then show ?thesis by (simp add: pair_defs LEVEL_NONE_CONFIG_def empty_pair lookup del: map_of.simps)
qed

lemma common_ordered: "ordered_pair True (pair_of COMMON_CONFIG a)"
proof -
  consider "a = ''tensorboard_trace_handler''" | "a = ''export_chrome_trace''" | "a = ''export_stack''"
    | "a = ''export_memory_timeline''" | "a \<noteq> ''tensorboard_trace_handler''"
      "a \<noteq> ''export_chrome_trace''" "a \<noteq> ''export_stack''" "a \<noteq> ''export_memory_timeline''"
    by argo
  then show ?thesis
  proof cases
    case 1
    show ?thesis unfolding 1 by code_simp
  next
    case 2
    show ?thesis unfolding 2 by code_simp
  next
    case 3
    show ?thesis unfolding 3 by code_simp
  next
    case 4
    show ?thesis unfolding 4 by code_simp
  next
    case 5
    then show ?thesis by (simp add: pair_defs COMMON_CONFIG_def empty_pair lookup del: map_of.simps)
  qed
qed

lemma only_fwk_ordered: "ordered_pair False (pair_of ONLY_FWK_CONFIG a)"
proof -
  consider "a = ''tensorboard_trace_handler''" | "a = ''export_chrome_trace''" | "a = ''export_stack''"
    | "a = ''export_memory_timeline''" | "a \<noteq> ''tensorboard_trace_handler''"
      "a \<noteq> ''export_chrome_trace''" "a \<noteq> ''export_stack''" "a \<noteq> ''export_memory_timeline''"
    by argo
  then show ?thesis
  proof cases
    case 1
    show ?thesis unfolding 1 by code_simp
  next
    case 2
    show ?thesis unfolding 2 by code_simp
  next
    case 3
    show ?thesis unfolding 3 by code_simp
  next
    case 4
    show ?thesis unfolding 4 by code_simp
  next
    case 5
    then show ?thesis by (simp add: pair_defs ONLY_FWK_CONFIG_def empty_pair lookup del: map_of.simps)
  qed
qed

lemma configured_ordered: "ordered_pair c (pair_of (select_config c level) a)"
  by (simp add: select_config_def level_none_ordered common_ordered only_fwk_ordered)

lemma add_parsers_set: "set (add_parsers ps acc) = set ps \<union> set acc"
  unfolding add_parsers_def by (induction ps arbitrary: acc) auto

lemma add_parsers_same: "set ps \<subseteq> set acc \<Longrightarrow> add_parsers ps acc = acc"
  unfolding add_parsers_def by (induction ps arbitrary: acc) auto

lemma parser_list_ordered:
  assumes "set_iteration iter"
  shows "ordered c [] (parser_list iter (select_config c level) a types d)"
proof -
  let ?t = "table_get (select_config c level) ''text'' a" and ?d = "table_get (select_config c level) ''db'' a"
  have "ordered_pair c (?t, ?d)" using configured_ordered by (simp add: pair_of_def)
  then have o: "ordered c [] (add_parsers ?t [])" "ordered c [] (add_parsers ?d [])"
      "ordered c [] (add_parsers ?d (add_parsers ?t []))" "ordered c [] (add_parsers ?t (add_parsers ?d []))"
    by (simp_all add: ordered_pair_def)
  have same: "add_parsers ?d (add_parsers ?d xs) = add_parsers ?d xs"
      "add_parsers ?d (add_parsers ?t (add_parsers ?d xs)) = add_parsers ?t (add_parsers ?d xs)" for xs
    by (auto intro!: add_parsers_same simp: add_parsers_set)
  from parser_list_known [OF assms, of c level a types d] o show ?thesis
    by (auto simp: same Let_def)
qed

section \<open>Adding an ordered list\<close>

lemma link_deps_accepts:
  "set ds \<subseteq> set (keys m) \<Longrightarrow> \<exists>m'. link_deps name ds m = (Inr (), m')"
proof (induction ds arbitrary: m)
  case (Cons d ds)
  obtain i where "task_info m d = Some i" using Cons.prems key_task_info by fastforce
  then show ?case using Cons by simp
qed simp

lemma add_task_accepts:
  assumes "set (tk_deps t) \<subseteq> set (keys m)" and "tk_name t \<notin> set (keys m)"
  shows "\<exists>m'. add_task t m = (Inr (), m') \<and> keys m' = keys m @ [tk_name t]
    \<and> (\<forall>k i'. task_info m' k = Some i' \<longrightarrow>
         (if k = tk_name t then i' = task_info_init t
          else \<exists>i. task_info m k = Some i \<and> ti_task i' = ti_task i \<and> ti_status i' = ti_status i))"
proof -
  obtain m1 where m1: "link_deps (tk_name t) (tk_deps t) m = (Inr (), m1)"
    using link_deps_accepts [OF assms(1)] by blast
  note l = link_deps_ok [OF m1]
  have k: "keys m1 = keys m" using l by (simp add: frame_def)
  let ?m' = "m1\<lparr>tm_tasks := AList.update (tk_name t) (task_info_init t) (tm_tasks m1),
                tm_ready := tm_ready m1 @ (if tk_deps t = [] then [tk_name t] else [])\<rparr>"
  have "add_task t m = (Inr (), ?m')" by (simp add: add_task_def m1 sseq_run(1) smod_def)
  moreover have "AList.update (tk_name t) (task_info_init t) (tm_tasks m1) = tm_tasks m1 @ [(tk_name t, task_info_init t)]"
    using assms(2) k by (intro keys_append) simp
  then have "keys ?m' = keys m @ [tk_name t]"
    using k by (simp add: keys_def)
  moreover have "task_info ?m' n = (if n = tk_name t then Some (task_info_init t) else task_info m1 n)" for n
    by (simp add: task_info_def update_conv)
  then have "\<forall>n i'. task_info ?m' n = Some i' \<longrightarrow>
         (if n = tk_name t then i' = task_info_init t
          else \<exists>i. task_info m n = Some i \<and> ti_task i' = ti_task i \<and> ti_status i' = ti_status i)"
    using l by (auto split: if_splits)
  ultimately show ?thesis by blast
qed

text \<open>A manager that holds exactly the tasks of these parsers, none of them started.\<close>

definition holds_tasks :: "bool \<Rightarrow> parser list \<Rightarrow> ConcurrentTasksManager \<Rightarrow> bool" where
  "holds_tasks c ps m \<longleftrightarrow> keys m = map PARSER_NAME_MAP ps
     \<and> (\<forall>k i. task_info m k = Some i \<longrightarrow> ti_status i = Init \<and> (\<exists>p \<in> set ps. ti_task i = parser_task c p))"

lemma add_parser_step:
  assumes "holds_tasks c ps m" and "list_all (\<lambda>q. q \<in> set ps) (dep_parsers c p)" and "p \<notin> set ps"
    and "tm_reach env P m" and "P (parser_task c p)"
  shows "\<exists>m'. add_task (parser_task c p) m = (Inr (), m') \<and> holds_tasks c (ps @ [p]) m' \<and> tm_reach env P m'"
proof -
  let ?t = "parser_task c p"
  have k: "keys m = map PARSER_NAME_MAP ps" using assms(1) by (simp add: holds_tasks_def)
  have deps: "set (tk_deps ?t) \<subseteq> set (keys m)" using assms(2) by (auto simp: parser_task_deps k list_all_iff)
  have fresh: "tk_name ?t \<notin> set (keys m)" using assms(3) by (auto simp: parser_task_name k PARSER_NAME_MAP_inj)
  obtain m' where m': "add_task ?t m = (Inr (), m')" "keys m' = keys m @ [tk_name ?t]"
    and info: "\<forall>k i'. task_info m' k = Some i' \<longrightarrow>
         (if k = tk_name ?t then i' = task_info_init ?t
          else \<exists>i. task_info m k = Some i \<and> ti_task i' = ti_task i \<and> ti_status i' = ti_status i)"
    using add_task_accepts [OF deps fresh] by blast
  have "holds_tasks c (ps @ [p]) m'"
    unfolding holds_tasks_def
  proof (intro conjI allI impI)
    show "keys m' = map PARSER_NAME_MAP (ps @ [p])" using m'(2) k by (simp add: parser_task_name)
  next
    fix n i' assume n: "task_info m' n = Some i'"
    have "i' = task_info_init ?t \<or> (\<exists>i. task_info m n = Some i \<and> ti_task i' = ti_task i \<and> ti_status i' = ti_status i)"
      using info n by (metis (full_types))
    then show "ti_status i' = Init" "\<exists>q \<in> set (ps @ [p]). ti_task i' = parser_task c q"
      using assms(1) by (auto simp: holds_tasks_def task_info_init_def)
  qed
  moreover have "distinct (tk_deps ?t)"
    by (simp add: parser_task_deps distinct_map dep_parsers_distinct inj_on_def PARSER_NAME_MAP_inj)
  then have "tm_reach env P m'"
    using tm_reach.add [OF assms(4) _ fresh _ assms(5) m'(1)] assms(1) by (auto simp: holds_tasks_def)
  ultimately show ?thesis using m'(1) by blast
qed

lemma add_all_accepts:
  assumes "ordered c (rev ps) qs" and "holds_tasks c ps m" and "tm_reach env P m"
    and P: "\<And>p. P (parser_task c p)"
  shows "\<exists>m'. add_all c qs m = (Inr (), m') \<and> holds_tasks c (ps @ qs) m' \<and> tm_reach env P m'"
  using assms(1-3)
proof (induction qs arbitrary: ps m)
  case Nil
  then show ?case by (simp add: add_all_def sret_def)
next
  case (Cons q qs)
  then obtain m1 where m1: "add_task (parser_task c q) m = (Inr (), m1)" "holds_tasks c (ps @ [q]) m1"
      "tm_reach env P m1"
    using add_parser_step [of c ps m q env P] P by (auto simp: list_all_iff)
  have "ordered c (rev (ps @ [q])) qs" using Cons.prems(1) by simp
  from Cons.IH [OF this m1(2,3)] show ?case by (simp add: add_all_def m1(1) sseq_run(1))
qed

end
