(* ===== verification/Task_Props.thy ===== *)
theory Task_Props
  imports Task_Messages Task_Progress Parser_Config "HOL-Library.List_Lexorder" "HOL-Library.Char_ord"
begin

text \<open>
  The properties of the task manager and of the configured pipelines, with their witnesses.
\<close>

section \<open>A concrete environment\<close>

text \<open>
  Sets are iterated in ascending order and a new pipe gets the next free descriptors; what the tasks
  compute and how objects are decoded stays open.
\<close>

definition sorted_env ::
  "(string \<Rightarrow> (string \<times> pyval) list \<Rightarrow> int \<times> pyval) \<Rightarrow> (byte list \<Rightarrow> pyval res) \<Rightarrow> tm_env" where
  "sorted_env run loads =
     \<lparr>te_iter = sorted_list_of_set,
      te_pipe = (\<lambda>F. let r = Max (insert 2 F) + 2 in (r, r + 1)),
      te_run = run, te_loads = loads\<rparr>"

interpretation sorted: task_env "sorted_env run loads" for run loads
proof
  fix F :: "int set" assume "finite F"
  let ?r = "Max (insert 2 F) + 2"
  have "2 \<le> Max (insert 2 F)" "\<forall>x \<in> F. x \<le> Max (insert 2 F)" using \<open>finite F\<close> by simp_all
  then have "?r \<notin> F" "0 \<le> ?r" by auto
  then show "fst (te_pipe (sorted_env run loads) F) \<notin> F \<and> 0 \<le> fst (te_pipe (sorted_env run loads) F)"
    by (simp add: sorted_env_def Let_def)
qed (simp_all add: sorted_env_def)

sublocale task_env \<subseteq> set_iteration "te_iter env"
  by unfold_locales (rule iter_set iter_distinct, assumption)+

definition sample_loads :: "byte list \<Rightarrow> pyval res" where
  "sample_loads bs = (if bs = [1] then Inr (PInt 7) else Inl UnpicklingError)"

definition sample_dumps :: "pyval \<Rightarrow> byte list" where
  "sample_dumps x = [1]"

definition sample_env :: tm_env where
  "sample_env = sorted_env (\<lambda>_ _. (0, PNone)) sample_loads"

lemma sample_task_env: "task_env sample_env"
  unfolding sample_env_def by (rule sorted.task_env_axioms)

text \<open>Three parsers, the third of which needs the others.\<close>

definition sample_manager :: ConcurrentTasksManager where
  "sample_manager = snd (sseq (add_all True [TorchOpParser, TaskQueueParser, TreeBuildParser])
     (schedule sample_env) (manager_init 16))"

lemma worker_tasks: "worker (parser_task c p)"
proof -
  have "tk_mode (parser_task c p) \<in> {1, 2, 6}"
    using parser_task_mode [of c p] by (simp add: SUB_PROCESS_def PTHREAD_def NON_BLOCKING_def)
  then show ?thesis by (auto simp: worker_def SUB_PROCESS_def PTHREAD_def)
qed

lemma empty_manager: "holds_tasks c [] (manager_init n)"
  by (simp add: holds_tasks_def manager_init_def keys_def task_info_def)

lemma added_reach:
  assumes "ordered True [] ps"
  shows "\<exists>m. add_all True ps (manager_init 16) = (Inr (), m) \<and> tm_reach sample_env worker m"
  using add_all_accepts [where P = worker and env = sample_env and ps = "[]", OF _ empty_manager [of True 16] tm_reach.start worker_tasks] assms
  by auto

lemma sample_reach: "tm_reach sample_env worker sample_manager"
proof -
  have "ordered True [] [TorchOpParser, TaskQueueParser, TreeBuildParser]" by simp
  from added_reach [OF this] obtain m where
    m: "add_all True [TorchOpParser, TaskQueueParser, TreeBuildParser] (manager_init 16) = (Inr (), m)"
      "tm_reach sample_env worker m" by auto
  obtain r m' where s: "schedule sample_env m = (r, m')" by fastforce
  have "sample_manager = m'" using m(1) s by (simp add: sample_manager_def sseq_def sbind_def)
  then show ?thesis using tm_reach.sched [OF m(2) s] by simp
qed

text \<open>One parser, started, finished and gone.\<close>

definition sample_started :: ConcurrentTasksManager where
  "sample_started = snd (schedule sample_env (snd (add_all True [TorchOpParser] (manager_init 16))))"

definition sample_done :: ConcurrentTasksManager where
  "sample_done = snd (on_task_exit ''torch_op''
     (snd (dispatch sample_env ''torch_op'' (msg_value RET_CODE) [0, 0, 0, 0] sample_started)))"

lemma result_reach:
  assumes "tm_reach env P m" and "map_option ti_status (task_info m n) = Some Running"
  shows "tm_reach env P (snd (dispatch env n (msg_value RET_CODE) v m))"
proof -
  from assms(2) obtain i where i: "task_info m n = Some i" "ti_status i = Running" by auto
  show ?thesis by (rule tm_reach.result [OF assms(1) i]) (rule surjective_pairing)
qed

lemma sample_done_reach: "tm_reach sample_env worker sample_done"
proof -
  have "ordered True [] [TorchOpParser]" by simp
  from added_reach [OF this] have "tm_reach sample_env worker (snd (add_all True [TorchOpParser] (manager_init 16)))" by auto
  then have r1: "tm_reach sample_env worker sample_started"
    unfolding sample_started_def by (rule tm_reach.sched) (rule surjective_pairing)
  let ?m = "snd (dispatch sample_env ''torch_op'' (msg_value RET_CODE) [0, 0, 0, 0] sample_started)"
  have "map_option ti_status (task_info sample_started ''torch_op'') = Some Running" by code_simp
  from result_reach [OF r1 this] have "tm_reach sample_env worker ?m" .
  moreover have "map_of (tm_listening ?m) 4 = Some ''torch_op''" by code_simp
  ultimately show ?thesis
    unfolding sample_done_def by (rule tm_reach.exit) (rule surjective_pairing)
qed

text \<open>The two parsers that need nothing have reported success.\<close>

definition sample_both :: ConcurrentTasksManager where
  "sample_both = snd (dispatch sample_env ''task_queue'' (msg_value RET_CODE) [0, 0, 0, 0]
     (snd (dispatch sample_env ''torch_op'' (msg_value RET_CODE) [0, 0, 0, 0] sample_manager)))"

lemma sample_both_reach: "tm_reach sample_env worker sample_both"
  unfolding sample_both_def
proof (intro result_reach sample_reach)
  show "map_option ti_status (task_info sample_manager ''torch_op'') = Some Running" by code_simp
  show "map_option ti_status (task_info (snd (dispatch sample_env ''torch_op'' (msg_value RET_CODE) [0, 0, 0, 0]
      sample_manager)) ''task_queue'') = Some Running" by code_simp
qed

section \<open>Dependencies and workers\<close>

text \<open>
  C6: In every reachable state of a manager, whatever the iteration order of sets and whatever the
  tasks do, scheduling raises nothing, and afterwards every task that has been started has all its
  prerequisites finished successfully, and no more than the permitted number of workers is active.
\<close>

theorem scheduling_safe:
  assumes "task_env env" and "tm_reach env P m"
  shows "\<exists>m'. schedule env m = (Inr (), m') \<and> int (length (tm_listening m')) \<le> tm_max m'
    \<and> (\<forall>n i d. task_info m' n = Some i \<and> ti_status i \<noteq> Init \<and> d \<in> set (tk_deps (ti_task i)) \<longrightarrow>
         (\<exists>j. task_info m' d = Some j \<and> ti_status j = Succeed))"
proof -
  note env = task_env.reach_inv [OF assms(1)] task_env.reach_deps [OF assms(1)]
  obtain m' where s: "schedule env m = (Inr (), m')" "tm_inv m'"
    using task_env.schedule_ok [OF assms(1) env(1) [OF assms(2)]] by blast
  have "tm_reach env P m'" by (rule tm_reach.sched [OF assms(2) s(1)])
  then show ?thesis using s env(2) by (auto simp: tm_inv_def listening_ok_def intro!: exI [of _ m'])
qed

theorem scheduling_safe_witness:
  "\<exists>m' j. schedule sample_env sample_both = (Inr (), m') \<and> int (length (tm_listening m')) \<le> tm_max m'
    \<and> map_option ti_status (task_info m' ''build_tree'') = Some Running
    \<and> task_info m' ''torch_op'' = Some j \<and> ti_status j = Succeed"
proof -
  from scheduling_safe [OF sample_task_env sample_both_reach] obtain m' where
    m': "schedule sample_env sample_both = (Inr (), m')" "int (length (tm_listening m')) \<le> tm_max m'"
    and deps: "\<And>n i d. task_info m' n = Some i \<and> ti_status i \<noteq> Init \<and> d \<in> set (tk_deps (ti_task i)) \<Longrightarrow>
         (\<exists>j. task_info m' d = Some j \<and> ti_status j = Succeed)" by blast
  have "map_option (\<lambda>i. (ti_status i, tk_deps (ti_task i))) (task_info (snd (schedule sample_env sample_both)) ''build_tree'')
      = Some (Running, [''torch_op'', ''task_queue''])" by code_simp
  then obtain i where "task_info m' ''build_tree'' = Some i" "ti_status i = Running"
      "tk_deps (ti_task i) = [''torch_op'', ''task_queue'']" using m'(1) by auto
  then show ?thesis using m' deps [of "''build_tree''" i "''torch_op''"] by auto
qed

text \<open>
  C5: When every task runs in a worker, no task is forgotten: a reachable manager that has nothing
  ready and nothing to listen to, and in which no task failed, has finished every task.
\<close>

theorem no_task_lost:
  assumes "task_env env" and "tm_reach env worker m" and "tm_ready m = []" and "tm_listening m = []"
    and "\<forall>n i. task_info m n = Some i \<longrightarrow> ti_status i \<noteq> Failed"
  shows "\<forall>n i. task_info m n = Some i \<longrightarrow> ti_status i = Succeed"
proof (intro allI impI)
  fix n i assume i: "task_info m n = Some i"
  from split_list [OF task_info_key [OF i]] obtain a b where "keys m = a @ n # b" by blast
  from task_env.all_done [OF assms(1-4) _ this] assms(5) have "n \<in> succeeded m" by blast
  then show "ti_status i = Succeed" using i by (simp add: succeeded_def)
qed

theorem no_task_lost_witness: "map_option ti_status (task_info sample_done ''torch_op'') = Some Succeed"
proof -
  have idle: "tm_ready sample_done = []" "tm_listening sample_done = []" by code_simp+
  have "list_all (\<lambda>(n, i). ti_status i \<noteq> Failed) (tm_tasks sample_done)" by code_simp
  then have "\<forall>n i. task_info sample_done n = Some i \<longrightarrow> ti_status i \<noteq> Failed"
    by (auto simp: task_info_def list_all_iff dest!: map_of_SomeD)
  note all = no_task_lost [OF sample_task_env sample_done_reach idle this]
  have "map_option ti_handler (task_info sample_done ''torch_op'') = Some True" by code_simp
  then show ?thesis using all by (cases "task_info sample_done ''torch_op''") auto
qed

text \<open>
  C10: The result of a worker, an output and a return code encoded into one message, is received
  correctly however the pipe splits it into pieces: every read succeeds, the task becomes succeeded or
  failed as the return code says, its output is the one that was sent, and nothing stays in the buffer.
\<close>

theorem worker_result:
  assumes env: "task_env env" and reach: "tm_reach env P m"
    and fd: "map_of (tm_listening m) fd = Some n" "task_info m n = Some i" "ti_status i = Running" "tm_buffers m n = []"
    and msg: "result_message dumps rc out = Inr (concat chunks)" and loads: "te_loads env (dumps out) = Inr out"
  shows "\<exists>m' i'. smap_seq (\<lambda>c. on_recv_msg env fd (Data c)) chunks m = (Inr (), m') \<and> tm_inv m'
    \<and> tm_buffers m' n = [] \<and> task_info m' n = Some i'
    \<and> ti_status i' = (if rc = 0 then Succeed else Failed) \<and> ti_output i' = (if truthy out then out else ti_output i)"
proof -
  have inv: "tm_inv m" by (rule task_env.reach_inv [OF env reach])
  obtain m' i' where r: "recv_loop env n (concat chunks) m = (Inr (), m')" "tm_inv m'" "tm_buffers m' n = []"
      "task_info m' n = Some i'" "ti_status i' = (if rc = 0 then Succeed else Failed)"
      "ti_output i' = (if truthy out then out else ti_output i)"
    using task_env.recv_result_ok [OF env inv fd(2,3) msg loads] by blast
  obtain c cs where "chunks = c # cs" using result_message_nonempty [OF msg] by (cases chunks) auto
  then have "smap_seq (\<lambda>c. on_recv_msg env fd (Data c)) chunks m = (Inr (), m')"
    using recv_chunks [OF fd(1), of env c cs m'] r(1) fd(4) by simp
  then show ?thesis using r by blast
qed

theorem worker_result_witness:
  "\<exists>m' i'. smap_seq (\<lambda>c. on_recv_msg sample_env 4 (Data c)) [[0, 0, 0], [2, 0, 0, 0, 1, 1, 0, 0, 0, 1, 0, 0], [0, 4, 0, 0, 0, 0]]
        sample_manager = (Inr (), m') \<and> tm_inv m'
    \<and> tm_buffers m' ''torch_op'' = [] \<and> task_info m' ''torch_op'' = Some i'
    \<and> ti_status i' = Succeed \<and> ti_output i' = PInt 7"
proof -
  have fd: "map_of (tm_listening sample_manager) 4 = Some ''torch_op''"
    "map_option ti_status (task_info sample_manager ''torch_op'') = Some Running"
    "tm_buffers sample_manager ''torch_op'' = []"
    by code_simp+
  then obtain i where i: "task_info sample_manager ''torch_op'' = Some i" "ti_status i = Running" by auto
  have msg: "result_message sample_dumps 0 (PInt 7) =
      Inr (concat [[0, 0, 0], [2, 0, 0, 0, 1, 1, 0, 0, 0, 1, 0, 0], [0, 4, 0, 0, 0, 0]])" by code_simp
  have loads: "te_loads sample_env (sample_dumps (PInt 7)) = Inr (PInt 7)" by code_simp
  from worker_result [OF sample_task_env sample_reach fd(1) i fd(3) msg loads] show ?thesis by simp
qed

section \<open>The configured pipelines\<close>

text \<open>
  C17: Every configured analysis is accepted by the manager: for each kind of data, profiler level,
  analysis type, set of export types and order of that set, with or without the default database
  export, adding the selected parsers raises nothing, the manager then holds exactly these parsers,
  each once, and every dependency of a parser is one of them and stands before it.
\<close>

theorem pipeline_accepted:
  assumes "task_env env" and "ps = parser_list (te_iter env) (select_config cann level) analysis_type types default_db"
  shows "\<exists>m. add_all cann ps (manager_init 16) = (Inr (), m) \<and> tm_reach env worker m
    \<and> keys m = map PARSER_NAME_MAP ps \<and> distinct ps \<and> deps_before m"
proof -
  have it: "set_iteration (te_iter env)"
    by unfold_locales (rule task_env.iter_set [OF assms(1)] task_env.iter_distinct [OF assms(1)], assumption)+
  have "ordered cann (rev []) ps" using parser_list_ordered [OF it] by (simp add: assms(2))
  moreover have "tm_reach env worker (manager_init 16)" by (rule tm_reach.start) simp
  ultimately obtain m where m: "add_all cann ps (manager_init 16) = (Inr (), m)" "holds_tasks cann ps m" "tm_reach env worker m"
    using add_all_accepts [of cann "[]" ps "manager_init 16" env worker, OF _ empty_manager _ worker_tasks] by auto
  have "keys m = map PARSER_NAME_MAP ps" using m(2) by (simp add: holds_tasks_def)
  moreover have "distinct (keys m)"
    using task_env.reach_inv [OF assms(1) m(3)] by (simp add: tm_inv_def tasks_ok_def)
  ultimately show ?thesis
    using m(1,3) task_env.reach_live [OF assms(1) m(3)] by (auto simp: live_def distinct_map)
qed

theorem pipeline_accepted_witness:
  "\<exists>m. add_all True [TorchOpParser, TaskQueueParser, TreeBuildParser, CANNExportParser, CANNTimelineParser, StackViewParser]
      (manager_init 16) = (Inr (), m) \<and> tm_reach sample_env worker m
    \<and> keys m = [''torch_op'', ''task_queue'', ''build_tree'', ''export'', ''timeline'', ''export_stack'']"
proof -
  have ps: "[TorchOpParser, TaskQueueParser, TreeBuildParser, CANNExportParser, CANNTimelineParser, StackViewParser] =
      parser_list (te_iter sample_env) (select_config True ''Level1'') ''export_stack'' [''text''] False"
    by code_simp
  from pipeline_accepted [OF sample_task_env ps] show ?thesis by auto
qed

section \<open>Where tasks are lost\<close>

lemma run_loop_extend: "run_loop env evs m = (Inr True, m') \<Longrightarrow> run_loop env (evs @ rest) m = (Inr True, m')"
proof (induction env evs m rule: run_loop.induct)
  case (1 env m)
  then have "only_non_blocking m" "m' = m" by (auto split: if_splits)
  then show ?case by (cases rest) (auto simp: listen_def)
next
  case (2 env evs evss m)
  obtain r m1 where l: "listen env evs m = (r, m1)" by fastforce
  obtain s m2 where s: "schedule env m1 = (s, m2)" by fastforce
  show ?case using 2 l s
    by (auto simp: sseq_def sbind_def split: sum.splits bool.splits)
qed

text \<open>
  What a worker that succeeded without output writes before it closes its end of the pipe.
\<close>

definition finish :: "int \<Rightarrow> poll_event" where
  "finish fd = \<lparr>pe_fd = fd, pe_in = Some (Data [0, 0, 0, 1, 0, 0, 0, 4, 0, 0, 0, 0]), pe_hup = True\<rparr>"

definition statuses :: "ConcurrentTasksManager \<Rightarrow> (string \<times> TaskStatus) list" where
  "statuses m = map (\<lambda>(n, i). (n, ti_status i)) (tm_tasks m)"


text \<open>
  The non-blocking timeline parser makes the export of stacks a race.  When all other parsers
  have finished and the timeline parser has not reported yet, the run ends, whatever arrives
  afterwards: the timeline parser is stopped and the stack view, which waits for it, never runs.
\<close>

lemma timeline_race:
  "statuses (snd (run_parser sample_env (\<lambda>n. n = ''timeline'') ([[finish 4, finish 6], [finish 8, finish 12]] @ rest)
       True ''Level1'' ''export_stack'' [''text''] False (manager_init 16))) =
     [(''torch_op'', Succeed), (''task_queue'', Succeed), (''build_tree'', Succeed), (''export'', Succeed),
      (''timeline'', Stopped), (''export_stack'', Init)]"
proof -
  let ?evs = "[[finish 4, finish 6], [finish 8, finish 12]]"
  define m0 where "m0 = snd (schedule sample_env (snd (add_all True (parser_list (te_iter sample_env)
      (select_config True ''Level1'') ''export_stack'' [''text''] False) (manager_init 16))))"
  have a: "fst (add_all True (parser_list (te_iter sample_env)
      (select_config True ''Level1'') ''export_stack'' [''text''] False) (manager_init 16)) = Inr ()" by code_simp
  have b: "fst (schedule sample_env (snd (add_all True (parser_list (te_iter sample_env)
      (select_config True ''Level1'') ''export_stack'' [''text''] False) (manager_init 16)))) = Inr ()" by code_simp
  have c: "fst (run_loop sample_env ?evs m0) = Inr True" unfolding m0_def by code_simp
  have d: "statuses (finalize (\<lambda>n. n = ''timeline'') (snd (run_loop sample_env ?evs m0))) =
     [(''torch_op'', Succeed), (''task_queue'', Succeed), (''build_tree'', Succeed), (''export'', Succeed),
      (''timeline'', Stopped), (''export_stack'', Init)]" unfolding m0_def by code_simp
  have "run_loop sample_env (?evs @ rest) m0 = (Inr True, snd (run_loop sample_env ?evs m0))"
    using run_loop_extend [of sample_env ?evs m0] c by (metis prod.collapse)
  moreover have "run_parser sample_env alive evss True ''Level1'' ''export_stack'' [''text''] False (manager_init 16) =
      (Inr (), finalize alive (snd (run_loop sample_env evss m0)))" for alive evss
    using a b unfolding run_parser_def run_manager_def m0_def
    by (auto simp: sseq_def sbind_def smod_def split: prod.splits sum.splits)
  ultimately show ?thesis using d by simp
qed

text \<open>
  C37: A task that becomes ready while a task of the main process runs is lost: the scheduler stores
  the list of waiting tasks it computed before.  With a main-process task and one that needs it, the
  second can be started but is not in the list of ready tasks, and the run ends without it.
\<close>

theorem main_process_loses_task:
  assumes "task_env env" and "a \<noteq> b" and "0 < n" and "\<And>x. fst (te_run env a x) = 0"
  shows "\<exists>m. sseq (add_task \<lparr>tk_name = a, tk_deps = [], tk_mode = MAIN_PROCESS\<rparr>)
        (sseq (add_task \<lparr>tk_name = b, tk_deps = [a], tk_mode = md\<rparr>) (schedule env)) (manager_init n) = (Inr (), m)
    \<and> startable m b \<and> tm_ready m = [] \<and> run_loop env evss m = (Inr True, m)"
proof -
  have it: "te_iter env {b} = [b]"
    using task_env.iter_set [OF assms(1), of "{b}"] task_env.iter_distinct [OF assms(1), of "{b}"]
    by (cases "te_iter env {b}") (auto simp: subset_singleton_iff)
  obtain out where r: "te_run env a [] = (0, out)" using assms(4) [of "[]"] by (metis prod.collapse)
  define ia where "ia = (task_info_init \<lparr>tk_name = a, tk_deps = [], tk_mode = MAIN_PROCESS\<rparr>)\<lparr>ti_post_tasks := {b}\<rparr>"
  define ib where "ib = task_info_init \<lparr>tk_name = b, tk_deps = [a], tk_mode = md\<rparr>"
  define m2 where "m2 = (manager_init n)\<lparr>tm_tasks := [(a, ia), (b, ib)], tm_ready := [a]\<rparr>"
  have add: "sseq (add_task \<lparr>tk_name = a, tk_deps = [], tk_mode = MAIN_PROCESS\<rparr>)
        (sseq (add_task \<lparr>tk_name = b, tk_deps = [a], tk_mode = md\<rparr>) (schedule env)) (manager_init n) = schedule env m2"
    using assms(2) by (simp add: add_task_def sseq_def sbind_def smod_def manager_init_def update_info_def
        task_info_def task_info_init_def m2_def ia_def ib_def)
  let ?m3 = "m2\<lparr>tm_tasks := [(a, ia\<lparr>ti_status := Succeed, ti_output := (if out = PNone then PNone else out)\<rparr>),
                            (b, ib\<lparr>ti_pre_tasks := {}\<rparr>)]\<rparr>"
  have run: "run_one_task env a m2 = (Inr (), ?m3\<lparr>tm_ready := [a, b]\<rparr>)"
    using assms(2) r it
    by (simp add: run_one_task_def run_in_mainprocess_def on_task_done_def release_post_def user_input_def sseq_def
        sbind_def smod_def sret_def update_info_def task_info_def m2_def ia_def ib_def task_info_init_def
        MAIN_PROCESS_def manager_init_def Let_def)
  have "schedule env m2 = (Inr (), ?m3\<lparr>tm_ready := []\<rparr>)"
    using assms(3) run by (simp add: schedule_def slice_bound_def m2_def manager_init_def Let_def sseq_def sbind_def smod_def sret_def)
  moreover have "startable (?m3\<lparr>tm_ready := []\<rparr>) b"
    using assms(2) by (simp add: startable_def task_info_def ib_def task_info_init_def)
  moreover have "run_loop env evss (?m3\<lparr>tm_ready := []\<rparr>) = (Inr True, ?m3\<lparr>tm_ready := []\<rparr>)"
    by (cases evss) (simp_all add: listen_def only_non_blocking_def m2_def manager_init_def)
  ultimately show ?thesis unfolding add by auto
qed

theorem main_process_loses_task_witness:
  "\<exists>m. sseq (add_task \<lparr>tk_name = ''a'', tk_deps = [], tk_mode = MAIN_PROCESS\<rparr>)
        (sseq (add_task \<lparr>tk_name = ''b'', tk_deps = [''a''], tk_mode = SUB_PROCESS\<rparr>) (schedule sample_env)) (manager_init 16) = (Inr (), m)
    \<and> startable m ''b'' \<and> tm_ready m = [] \<and> run_loop sample_env [] m = (Inr True, m)"
  by (rule main_process_loses_task [OF sample_task_env]) (simp_all add: sample_env_def sorted_env_def)

end
