(* ===== verification/Trace_Codec.thy ===== *)
theory Trace_Codec
  imports Prelude "HOL-Library.Word"
begin

text \<open>
  The binary and textual encodings of the trace data, under
  \<open>torch_npu/profiler/analysis/prof_common_func\<close>: the decoders of the collected records
  (\<open>_tlv_decoder.py\<close>, \<open>_binary_decoder.py\<close>), the conversion between nanoseconds and microseconds
  (\<open>_constant.py\<close>) and the managers that number strings, connections and call chains
  (\<open>_id_manager.py\<close>).
\<close>

unbundle bit_operations_syntax

type_synonym octet = "8 word"

section \<open>Type-length-value records\<close>

text \<open>\<open>struct.unpack\<close> of an unsigned little-endian integer.\<close>

definition from_le :: "octet list \<Rightarrow> nat" where
  "from_le bs = foldr (\<lambda>b acc. unat b + 256 * acc) bs 0"

text \<open>
  The items of a byte string, up to the first incomplete one, and whether there was one (the code
  then warns that data has been lost).
\<close>

function tlv_items :: "octet list \<Rightarrow> (nat \<times> octet list) list \<times> bool" where
  "tlv_items bs =
     (if bs = [] then ([], False)
      else if length bs < 2 then ([], True)
      else if length bs < 2 + 4 then ([], True)
      else let n = from_le (take 4 (drop 2 bs))
           in if length bs < 6 + n then ([], True)
              else case tlv_items (drop (6 + n) bs) of
                     (items, lost) \<Rightarrow> ((from_le (take 2 bs), take n (drop 6 bs)) # items, lost))"
  by pat_completeness auto
termination
  by (relation "measure length") auto

declare tlv_items.simps [simp del]

text \<open>\<open>bytes.decode\<close>: strict UTF-8, as a list of code points.\<close>

definition continuation :: "octet \<Rightarrow> bool" where
  "continuation b = (unat b div 64 = 2)"

fun utf8_decode :: "octet list \<Rightarrow> nat list option" where
  "utf8_decode [] = Some []"
| "utf8_decode (a # bs) =
     (let n = unat a
      in if n < 128 then map_option ((#) n) (utf8_decode bs)
         else if 194 \<le> n \<and> n < 224
         then (case bs of
                 b # cs \<Rightarrow> (if continuation b
                            then map_option ((#) ((n - 192) * 64 + unat b mod 64)) (utf8_decode cs) else None)
               | [] \<Rightarrow> None)
         else if 224 \<le> n \<and> n < 240
         then (case bs of
                 b # c # ds \<Rightarrow>
                   (let k = (n - 224) * 4096 + unat b mod 64 * 64 + unat c mod 64
                    in if continuation b \<and> continuation c \<and> 2048 \<le> k \<and> \<not> (55296 \<le> k \<and> k < 57344)
                       then map_option ((#) k) (utf8_decode ds) else None)
               | _ \<Rightarrow> None)
         else if 240 \<le> n \<and> n < 245
         then (case bs of
                 b # c # d # es \<Rightarrow>
                   (let k = (n - 240) * 262144 + unat b mod 64 * 4096 + unat c mod 64 * 64 + unat d mod 64
                    in if continuation b \<and> continuation c \<and> continuation d \<and> 65536 \<le> k \<and> k < 1114112
                       then map_option ((#) k) (utf8_decode es) else None)
               | _ \<Rightarrow> None)
         else None)"

definition NOT_AVAILABLE :: "nat list" where
  "NOT_AVAILABLE = [78, 47, 65]"

text \<open>The fields of a record, by type; a field that is no text counts as undecodable.\<close>

definition field_step :: "nat \<times> octet list \<Rightarrow> (nat \<times> nat list) list \<times> nat \<Rightarrow> (nat \<times> nat list) list \<times> nat" where
  "field_step item acc =
     (case (item, acc) of ((ty, v), (fields, bad)) \<Rightarrow>
        (case utf8_decode v of
           Some s \<Rightarrow> (AList.update ty s fields, bad)
         | None \<Rightarrow> (AList.update ty NOT_AVAILABLE fields, Suc bad)))"

definition tlv_list_decode_fields :: "octet list \<Rightarrow> nat \<Rightarrow> (nat \<times> nat list) list \<times> nat" where
  "tlv_list_decode_fields bs bad = fold field_step (fst (tlv_items bs)) ([], bad)"

definition tlv_list_decode_records :: "octet list \<Rightarrow> octet list list" where
  "tlv_list_decode_records bs = map snd (fst (tlv_items bs))"

record tlv_fields =
  tf_fields :: "(nat \<times> nat list) list"
  tf_constant :: "octet list"

text \<open>
  Decoding all records: those shorter than the constant structure are skipped.  The state is the
  count of undecodable fields, which is reported and reset at the end.
\<close>

definition decode_step :: "nat \<Rightarrow> octet list \<Rightarrow> tlv_fields list \<times> nat \<Rightarrow> tlv_fields list \<times> nat" where
  "decode_step sz rec acc =
     (case acc of (out, bad) \<Rightarrow>
        (if sz > length rec then (out, bad)
         else (case tlv_list_decode_fields (drop sz rec) bad of
                 (fs, bad') \<Rightarrow> (out @ [\<lparr>tf_fields = fs, tf_constant = take sz rec\<rparr>], bad'))))"

definition tlv_decode :: "nat \<Rightarrow> octet list \<Rightarrow> nat \<Rightarrow> tlv_fields list \<times> nat" where
  "tlv_decode sz bs bad =
     (case fold (decode_step sz) (tlv_list_decode_records bs) ([], bad) of (out, bad') \<Rightarrow> (out, 0))"

section \<open>Records of a fixed size\<close>

text \<open>The loop never ends when the size is 0; the value is then \<open>None\<close>.\<close>

partial_function (option) binary_loop :: "nat \<Rightarrow> nat \<Rightarrow> octet list list \<Rightarrow> octet list \<Rightarrow> octet list list option" where
  "binary_loop sz start result bs =
     (if start + sz \<le> length bs
      then binary_loop sz (start + sz) (result @ [take sz (drop start bs)]) bs
      else Some result)"

definition binary_decode :: "nat \<Rightarrow> octet list \<Rightarrow> octet list list option" where
  "binary_decode sz bs = binary_loop sz 0 [] bs"

section \<open>Nanoseconds and microseconds\<close>

datatype number = NInt int | NInf bool | NOther

definition convert_ns2us_str :: "number \<Rightarrow> string \<Rightarrow> string res" where
  "convert_ns2us_str ns tail =
     (case ns of
        NInf neg \<Rightarrow> Inr (if neg then ''-inf'' else ''inf'')
      | NOther \<Rightarrow> Inl RuntimeError
      | NInt n \<Rightarrow>
          (let s = py_str_int n;
               r = (if length s \<le> 3 then ''0.'' @ replicate (3 - length s) CHR ''0'' @ s
                    else take (length s - 3) s @ ''.'' @ drop (length s - 3) s)
           in Inr (r @ tail)))"

text \<open>The argument is the value as \<open>str\<close> prints it.\<close>

definition convert_us2ns :: "string \<Rightarrow> string \<Rightarrow> int res" where
  "convert_us2ns us tail =
     (case split_on CHR ''.'' (py_strip (\<lambda>c. c \<in> set tail) us) of
        [a, b] \<Rightarrow> py_int (a @ take 3 b @ replicate (3 - length b) CHR ''0'')
      | [a] \<Rightarrow> py_int (a @ replicate 3 CHR ''0'')
      | _ \<Rightarrow> Inl RuntimeError)"

definition contact_2num :: "int \<Rightarrow> int \<Rightarrow> int" where
  "contact_2num high_num low_num = (push_bit 32 high_num OR low_num)"

section \<open>Numbering\<close>

definition DB_INVALID_VALUE :: int where "DB_INVALID_VALUE = 4294967295"
definition DB_INVALID_CONNECTION_ID :: int where "DB_INVALID_CONNECTION_ID = -1"

record Str2IdManager =
  si_map :: "(string \<times> int) list"
  si_curr :: int

definition set_start_id :: "int \<Rightarrow> Str2IdManager \<Rightarrow> Str2IdManager" where
  "set_start_id start m = m\<lparr>si_curr := start\<rparr>"

definition get_id_from_str :: "string \<Rightarrow> Str2IdManager \<Rightarrow> int \<times> Str2IdManager" where
  "get_id_from_str s m =
     (if s = [] then (DB_INVALID_VALUE, m)
      else case map_of (si_map m) s of
             Some i \<Rightarrow> (i, m)
           | None \<Rightarrow> (si_curr m, m\<lparr>si_map := AList.update s (si_curr m) (si_map m), si_curr := si_curr m + 1\<rparr>))"

definition get_all_string_2_id_data :: "Str2IdManager \<Rightarrow> (int \<times> string) list \<times> Str2IdManager" where
  "get_all_string_2_id_data m = (map (\<lambda>(k, v). (v, k)) (si_map m), m\<lparr>si_map := []\<rparr>)"

record ConnectionIdManager =
  ci_map :: "(int \<times> int list) list"
  ci_curr :: int

definition get_id_from_connection_ids :: "int list \<Rightarrow> ConnectionIdManager \<Rightarrow> int \<times> ConnectionIdManager" where
  "get_id_from_connection_ids ids m =
     (ci_curr m, m\<lparr>ci_map := AList.update (ci_curr m) ids (ci_map m), ci_curr := ci_curr m + 1\<rparr>)"

definition get_connection_ids_from_id :: "int \<Rightarrow> ConnectionIdManager \<Rightarrow> int list" where
  "get_connection_ids_from_id i m =
     (case map_of (ci_map m) i of Some ids \<Rightarrow> ids | None \<Rightarrow> [DB_INVALID_CONNECTION_ID])"

record CallChainIdManager =
  cc_map :: "(int \<times> (int \<times> nat) list) list"
  cc_curr :: int

definition add_frame :: "nat \<times> string \<Rightarrow> CallChainIdManager \<times> Str2IdManager \<Rightarrow> CallChainIdManager \<times> Str2IdManager" where
  "add_frame frame st =
     (case (frame, st) of ((idx, stack), (m, sm)) \<Rightarrow>
        (case get_id_from_str stack sm of (i, sm') \<Rightarrow>
           (m\<lparr>cc_map := AList.update (cc_curr m)
                ((case map_of (cc_map m) (cc_curr m) of Some xs \<Rightarrow> xs | None \<Rightarrow> []) @ [(i, idx)]) (cc_map m)\<rparr>, sm')))"

definition get_callchain_id_from_callstack ::
  "string \<Rightarrow> CallChainIdManager \<Rightarrow> Str2IdManager \<Rightarrow> int \<times> CallChainIdManager \<times> Str2IdManager" where
  "get_callchain_id_from_callstack callstack m sm =
     (case fold add_frame (enumerate 0 (split_str [CHR '';'', CHR 0x0D, CHR 0x0A] callstack)) (m, sm) of (m', sm') \<Rightarrow>
        (cc_curr m, m'\<lparr>cc_curr := cc_curr m' + 1\<rparr>, sm'))"

text \<open>A list comprehension whose expression changes such a manager.\<close>

fun run_rows :: "('a \<Rightarrow> 's \<Rightarrow> 'b \<times> 's) \<Rightarrow> 'a list \<Rightarrow> 's \<Rightarrow> 'b list \<times> 's" where
  "run_rows f [] st = ([], st)"
| "run_rows f (x # xs) st =
     (case f x st of (y, st1) \<Rightarrow> (case run_rows f xs st1 of (ys, st2) \<Rightarrow> (y # ys, st2)))"

text \<open>A dictionary of lists, filled in the order of the input (\<open>defaultdict(list)\<close>).\<close>

definition group_by :: "('a \<Rightarrow> 'k) \<Rightarrow> 'a list \<Rightarrow> ('k \<times> 'a list) list" where
  "group_by f xs =
     fold (\<lambda>x d. AList.update (f x) ((case map_of d (f x) of Some ys \<Rightarrow> ys | None \<Rightarrow> []) @ [x]) d) xs []"

lemma group_by_lookup:
  "(case map_of (group_by f xs) t of Some ys \<Rightarrow> ys | None \<Rightarrow> []) = filter (\<lambda>x. f x = t) xs"
  unfolding group_by_def by (induction xs rule: rev_induct) (auto simp: update_conv)

section \<open>Numbers side by side\<close>

lemma shift_or:
  fixes high low :: int
  assumes "0 \<le> low" and "low < 2 ^ n"
  shows "push_bit n high OR low = high * 2 ^ n + low"
proof -
  have t: "take_bit n low = low" using assms by (simp add: take_bit_int_eq_self)
  then have "push_bit n high OR low = concat_bit n low high" by (simp add: concat_bit_def or.commute)
  also have "\<dots> = high * 2 ^ n + low" using t by (simp add: concat_bit_eq push_bit_eq_mult)
  finally show ?thesis .
qed

end
