(* ===== verification/Trace_Codec_Props.thy ===== *)
theory Trace_Codec_Props
  imports Trace_Codec
begin

text \<open>
  Properties of the encodings: decoding inverts encoding and survives truncation, fixed-size records
  are cut correctly, printed times read back, numbers identify strings.
\<close>

section \<open>Little-endian numbers\<close>

primrec to_le :: "nat \<Rightarrow> nat \<Rightarrow> octet list" where
  "to_le 0 n = []"
| "to_le (Suc k) n = word_of_nat n # to_le k (n div 256)"

lemma length_to_le [simp]: "length (to_le k n) = k"
  by (induction k arbitrary: n) simp_all

lemma from_le_simps [simp]: "from_le [] = 0" "from_le (b # bs) = unat b + 256 * from_le bs"
  by (simp_all add: from_le_def)

lemma unat_octet: "unat (word_of_nat n :: octet) = n mod 256"
  by (simp add: unat_of_nat)

lemma from_le_to_le: "n < 256 ^ k \<Longrightarrow> from_le (to_le k n) = n"
proof (induction k arbitrary: n)
  case (Suc k)
  have "n div 256 < 256 ^ k" using Suc.prems by (simp add: less_mult_imp_div_less mult.commute)
  then show ?case using Suc.IH by (simp add: unat_octet)
qed simp

section \<open>Type-length-value records\<close>

definition tlv_item :: "nat \<times> octet list \<Rightarrow> octet list" where
  "tlv_item tv = (case tv of (t, v) \<Rightarrow> to_le 2 t @ to_le 4 (length v) @ v)"

definition tlv_encode :: "(nat \<times> octet list) list \<Rightarrow> octet list" where
  "tlv_encode items = concat (map tlv_item items)"

definition tlv_ok :: "nat \<times> octet list \<Rightarrow> bool" where
  "tlv_ok tv = (fst tv < 2 ^ 16 \<and> length (snd tv) < 2 ^ 32)"

lemma tlv_encode_simps [simp]: "tlv_encode [] = []" "tlv_encode (x # xs) = tlv_item x @ tlv_encode xs"
  by (simp_all add: tlv_encode_def)

lemma tlv_item_length: "length (tlv_item (t, v)) = 6 + length v"
  by (simp add: tlv_item_def)

lemma tlv_items_Nil [simp]: "tlv_items [] = ([], False)"
  by (subst tlv_items.simps) simp

lemma tlv_items_item:
  assumes "tlv_ok (t, v)"
  shows "tlv_items (tlv_item (t, v) @ bs) = (case tlv_items bs of (items, lost) \<Rightarrow> ((t, v) # items, lost))"
proof -
  have "t < 256 ^ 2" "length v < 256 ^ 4" using assms by (simp_all add: tlv_ok_def)
  then have le: "from_le (to_le 2 t) = t" "from_le (to_le 4 (length v)) = length v" by (metis from_le_to_le)+
  let ?bs = "tlv_item (t, v) @ bs"
  have t2: "take 2 ?bs = to_le 2 t" "take 4 (drop 2 ?bs) = to_le 4 (length v)"
    and l: "length ?bs = 6 + length v + length bs"
    and v: "take (length v) (drop 6 ?bs) = v" "drop (6 + length v) ?bs = bs"
    by (simp_all add: tlv_item_def)
  have "?bs \<noteq> []" using l by auto
  then show ?thesis
    unfolding tlv_items.simps [of ?bs] t2 v le Let_def l by (simp split: prod.splits)
qed

lemma tlv_items_cut:
  assumes "tlv_ok (t, v)" and "prefix bs (tlv_item (t, v))" and "bs \<noteq> []" and "length bs < 6 + length v"
  shows "tlv_items bs = ([], True)"
proof (cases "length bs < 6")
  case True
  then show ?thesis using assms(3) by (subst tlv_items.simps) simp
next
  case False
  obtain cs where cs: "tlv_item (t, v) = bs @ cs" using assms(2) by (auto elim: prefixE)
  have "take 4 (drop 2 bs) = take 4 (drop 2 (tlv_item (t, v)))"
    using False by (simp add: cs)
  also have "\<dots> = to_le 4 (length v)" by (simp add: tlv_item_def)
  finally have "take 4 (drop 2 bs) = to_le 4 (length v)" .
  moreover have "from_le (to_le 4 (length v)) = length v"
    using assms(1) from_le_to_le [of "length v" 4] by (simp add: tlv_ok_def)
  ultimately show ?thesis
    using False assms(3,4) by (subst tlv_items.simps) simp
qed

lemma tlv_prefix:
  assumes "list_all tlv_ok items" and "prefix bs (tlv_encode items)"
  shows "\<exists>k \<le> length items. fst (tlv_items bs) = take k items
     \<and> (snd (tlv_items bs) \<longleftrightarrow> bs \<noteq> tlv_encode (take k items))
     \<and> (k < length items \<longrightarrow> length bs < length (tlv_encode (take (Suc k) items)))"
  using assms
proof (induction items arbitrary: bs)
  case Nil
  then show ?case by simp
next
  case (Cons x items)
  obtain t v where x: "x = (t, v)" by fastforce
  have ok: "tlv_ok (t, v)" using Cons.prems x by simp
  show ?case
  proof (cases "length bs < length (tlv_item x)")
    case True
    show ?thesis
    proof (cases "bs = []")
      case True
      then show ?thesis by (intro exI [of _ 0]) (simp add: x tlv_item_length)
    next
      case False
      have "prefix bs (tlv_item x)"
        using Cons.prems(2) True by (auto simp: prefix_append intro: prefix_length_prefix)
      from tlv_items_cut [OF ok] this True False have "tlv_items bs = ([], True)"
        by (simp add: x tlv_item_length)
      then show ?thesis using False True by (intro exI [of _ 0]) simp
    qed
  next
    case False
    then obtain bs' where bs: "bs = tlv_item x @ bs'" "prefix bs' (tlv_encode items)"
    proof -
      have "take (length (tlv_item x)) bs = tlv_item x" "prefix (drop (length (tlv_item x)) bs) (tlv_encode items)"
        using Cons.prems(2) False by (auto simp: prefix_def append_eq_append_conv2)
      then show ?thesis using that by (metis append_take_drop_id)
    qed
    from Cons.IH [OF _ bs(2)] Cons.prems(1) obtain k where k: "k \<le> length items"
        "fst (tlv_items bs') = take k items" "snd (tlv_items bs') \<longleftrightarrow> bs' \<noteq> tlv_encode (take k items)"
        "k < length items \<longrightarrow> length bs' < length (tlv_encode (take (Suc k) items))" by auto
    then show ?thesis
      using tlv_items_item [OF ok, of bs'] by (intro exI [of _ "Suc k"]) (auto simp: bs(1) x split: prod.splits)
  qed
qed

text \<open>
  C31: Decoding collected data is robust against truncation: from any beginning of an encoded sequence
  of items exactly the items that are complete in it are decoded, in order and unchanged, from the whole
  sequence all of them. A loss is reported exactly when the beginning ends inside an item; one that ends
  between two items is not recognisable as truncated and reports nothing.
\<close>

theorem tlv_truncation:
  assumes "list_all tlv_ok items" and "prefix bs (tlv_encode items)"
  shows "\<exists>k \<le> length items. tlv_list_decode_records bs = map snd (take k items)
     \<and> fst (tlv_items bs) = take k items
     \<and> (snd (tlv_items bs) \<longleftrightarrow> bs \<noteq> tlv_encode (take k items))
     \<and> (k < length items \<longrightarrow> length bs < length (tlv_encode (take (Suc k) items)))"
  using tlv_prefix [OF assms] unfolding tlv_list_decode_records_def by metis

definition sample_items :: "(nat \<times> octet list) list" where
  "sample_items = [(1, [7, 8]), (5, [9])]"

definition sample_bytes :: "octet list" where
  "sample_bytes = [1, 0, 2, 0, 0, 0, 7, 8, 5, 0, 1]"

theorem tlv_truncation_witness:
  "\<exists>k. k \<le> length sample_items \<and> tlv_list_decode_records sample_bytes = map snd (take k sample_items)
     \<and> snd (tlv_items sample_bytes) = (sample_bytes \<noteq> tlv_encode (take k sample_items))"
proof -
  have ok: "list_all tlv_ok sample_items" by (simp add: tlv_ok_def sample_items_def)
  have pre: "prefix sample_bytes (tlv_encode sample_items)" by code_simp
  from tlv_truncation [OF ok pre] show ?thesis by blast
qed

section \<open>Records of a fixed size\<close>

lemma binary_loop_from:
  assumes "0 < sz"
  shows "binary_loop sz (i * sz) acc bs = Some (acc @ map (\<lambda>j. take sz (drop (j * sz) bs)) [i ..< length bs div sz])"
proof (induction "length bs div sz - i" arbitrary: i acc)
  case 0
  then have "length bs div sz < Suc i" by simp
  then have "length bs < Suc i * sz" using assms by (simp add: div_less_iff_less_mult)
  then show ?case using 0 by (subst binary_loop.simps) simp
next
  case (Suc d)
  then have i: "i < length bs div sz" by simp
  then have "Suc i * sz \<le> length bs" using assms by (simp add: less_eq_div_iff_mult_less_eq [symmetric] Suc_le_eq del: mult_Suc)
  then have le: "i * sz + sz \<le> length bs" by simp
  have "binary_loop sz (Suc i * sz) (acc @ [take sz (drop (i * sz) bs)]) bs =
      Some ((acc @ [take sz (drop (i * sz) bs)]) @ map (\<lambda>j. take sz (drop (j * sz) bs)) [Suc i ..< length bs div sz])"
    using Suc.hyps(2) by (intro Suc.hyps(1)) simp
  then show ?case
    using le i by (subst binary_loop.simps) (simp add: add.commute upt_rec [of i])
qed

lemma binary_loop_zero: "start \<le> length bs \<Longrightarrow> binary_loop 0 start acc bs = None"
proof -
  have "\<not> (sz = 0 \<and> start \<le> length bs)" if "binary_loop sz start acc bs = Some y" for sz y
  proof (rule binary_loop.raw_induct [of "\<lambda>sz start _ bs _. \<not> (sz = 0 \<and> start \<le> length bs)", OF _ that])
    fix loop sz start acc bs y
    assume IH: "\<And>sz start acc bs y. loop sz start acc bs = Some y \<Longrightarrow> \<not> (sz = 0 \<and> start \<le> length bs)"
      and s: "(if start + sz \<le> length bs then loop sz (start + sz) (acc @ [take sz (drop start bs)]) bs else Some acc) = Some y"
    show "\<not> (sz = 0 \<and> start \<le> length bs)"
    proof
      assume "sz = 0 \<and> start \<le> length bs"
      with s IH [of sz "start + sz"] show False by (auto split: if_splits)
    qed
  qed
  then show "start \<le> length bs \<Longrightarrow> ?thesis" by (cases "binary_loop 0 start acc bs") auto
qed

text \<open>
  The decoder of fixed-size records returns the complete records of the data, in order, and
  ignores an incomplete rest; with a record size of 0 it never returns.
\<close>

lemma binary_decode_records:
  "binary_decode sz bs =
     (if sz = 0 then None else Some (map (\<lambda>j. take sz (drop (j * sz) bs)) [0 ..< length bs div sz]))"
  using binary_loop_from [of sz 0 "[]" bs] binary_loop_zero [of 0 bs "[]"] by (auto simp: binary_decode_def)

section \<open>Times in text\<close>

lemma py_strip_tail:
  assumes "list_all (\<lambda>c. \<not> P c) r" and "list_all P t" and "r \<noteq> []"
  shows "py_strip P (r @ t) = r"
proof -
  have a: "dropWhile P (r @ t) = r @ t" using assms(1,3) by (cases r) auto
  have "dropWhile P (rev t @ rev r) = dropWhile P (rev r)"
    using assms(2) by (intro dropWhile_append2) (auto simp: list_all_iff)
  also have "\<dots> = rev r" using assms(1,3) by (cases r rule: rev_cases) auto
  finally show ?thesis by (simp add: py_strip_def a)
qed

lemma split_on_none: "c \<notin> set a \<Longrightarrow> split_on c a = [a]"
  by (induction a) auto

lemma split_on_one: "c \<notin> set a \<Longrightarrow> c \<notin> set b \<Longrightarrow> split_on c (a @ c # b) = [a, b]"
  by (induction a) (auto simp: split_on_none)

text \<open>The characters of a printed number.\<close>

lemma str_int_chars:
  assumes "c \<in> set (py_str_int n)"
  shows "is_digit c \<or> c = CHR ''-''"
  using assms py_str_nat_digits(1) by (auto simp: py_str_int_def list_all_iff split: if_splits)

lemma digit_no_mark: "is_digit c \<Longrightarrow> c \<noteq> CHR ''.'' \<and> c \<noteq> CHR 0x09"
  by (auto simp: is_digit_def)

lemma us2ns_parts:
  assumes a: "\<And>c. c \<in> set a \<Longrightarrow> is_digit c \<or> c = CHR ''-''" and b: "\<And>c. c \<in> set b \<Longrightarrow> is_digit c \<or> c = CHR ''-''"
    and len: "length b = 3" and t: "set t \<subseteq> {CHR 0x09}"
  shows "convert_us2ns (a @ CHR ''.'' # b @ t) [CHR 0x09] = py_int (a @ b)"
proof -
  have n: "c \<noteq> CHR ''.'' \<and> c \<noteq> CHR 0x09" if "c \<in> set a \<union> set b" for c
    using a [of c] b [of c] that digit_no_mark [of c] by auto
  have "py_strip (\<lambda>c. c \<in> set [CHR 0x09]) ((a @ CHR ''.'' # b) @ t) = a @ CHR ''.'' # b"
    by (rule py_strip_tail) (use n t in \<open>auto simp: list_all_iff\<close>)
  moreover have "split_on CHR ''.'' (a @ CHR ''.'' # b) = [a, b]"
    by (rule split_on_one) (use n in blast)+
  ultimately show ?thesis
    using len by (simp add: convert_us2ns_def)
qed

lemma length_digits_rev: "length (digits_rev n) \<le> 2 \<longleftrightarrow> n < 100"
proof -
  have one: "length (digits_rev k) \<le> 1 \<longleftrightarrow> k < 10" for k
    by (simp add: digits_rev.simps [of k] Suc_le_eq)
  show ?thesis
  proof (cases "n < 10")
    case False
    then have "length (digits_rev n) \<le> 2 \<longleftrightarrow> length (digits_rev (n div 10)) \<le> 1"
      by (simp add: digits_rev.simps [of n])
    then show ?thesis unfolding one by auto
  qed (simp add: digits_rev.simps [of n])
qed

lemma parse_nat_zeros:
  assumes "list_all is_digit s"
  shows "parse_nat (CHR ''0'' # replicate k CHR ''0'' @ s @ u) =
           parse_digits (foldl (\<lambda>a c. 10 * a + digit_val c) 0 s) u"
proof -
  have z: "is_digit CHR ''0''" "digit_val CHR ''0'' = 0" by (simp_all add: is_digit_def digit_val_def)
  have "foldl (\<lambda>a c. 10 * a + digit_val c) 0 (replicate k CHR ''0'') = 0"
    by (induction k) (simp_all add: z)
  then have "parse_digits 0 ((replicate k CHR ''0'' @ s) @ u) =
      parse_digits (foldl (\<lambda>a c. 10 * a + digit_val c) 0 s) u"
    using assms z by (subst parse_digits_append) (auto simp: list_all_iff)
  then show ?thesis using z by (simp add: parse_nat_def)
qed

lemma py_int_zero_prefix:
  assumes "list_all (\<lambda>c. \<not> is_space c) s"
  shows "py_int (CHR ''0'' # s) = (case parse_nat (CHR ''0'' # s) of None \<Rightarrow> Inl ValueError | Some n \<Rightarrow> Inr n)"
proof -
  have "py_strip is_space (CHR ''0'' # s) = CHR ''0'' # s"
    using assms by (intro py_strip_id) (simp add: is_space_def)
  then show ?thesis by (simp add: py_int_def)
qed

lemma zeros_no_space:
  assumes "list_all (\<lambda>c. \<not> is_space c) s"
  shows "list_all (\<lambda>c. \<not> is_space c) (replicate k CHR ''0'' @ s)"
proof -
  have "\<not> is_space CHR ''0''" by (simp add: is_space_def)
  then show ?thesis using assms by (auto simp: list_all_iff)
qed

lemma short_pos:
  "py_int (CHR ''0'' # replicate k CHR ''0'' @ py_str_nat n) = Inr (int n)"
proof -
  have sp: "list_all (\<lambda>c. \<not> is_space c) (replicate k CHR ''0'' @ py_str_nat n)"
    by (rule zeros_no_space [OF py_str_nat_digits(3)])
  show ?thesis
    using parse_nat_zeros [OF py_str_nat_digits(1), of k n "[]"] foldl_digits_rev [of n] py_int_zero_prefix [OF sp]
    by (simp add: py_str_nat_def)
qed

lemma short_neg: "py_int (CHR ''0'' # replicate k CHR ''0'' @ CHR ''-'' # py_str_nat n) = Inl ValueError"
proof -
  have sp: "list_all (\<lambda>c. \<not> is_space c) (replicate k CHR ''0'' @ CHR ''-'' # py_str_nat n)"
    by (rule zeros_no_space) (simp add: py_str_nat_digits(3), simp add: is_space_def)
  have "parse_digits a (CHR ''-'' # s) = None" for a s
    by (cases s) (simp_all add: is_digit_def)
  then show ?thesis
    using parse_nat_zeros [of "[]" k "CHR ''-'' # py_str_nat n"] by (simp add: py_int_zero_prefix [OF sp])
qed

text \<open>
  C32: A time printed in microseconds, with or without tabulators behind it, reads back as the same
  number of nanoseconds, except for the negative times above -100 ns: their sign is printed after
  the padding, as in \<open>0.0-5\<close>, and reading them raises \<open>ValueError\<close>.
\<close>

theorem ns_us_roundtrip:
  assumes "set t \<subseteq> {CHR 0x09}"
  shows "rbind (convert_ns2us_str (NInt n) t) (\<lambda>s. convert_us2ns s [CHR 0x09]) =
           (if -100 < n \<and> n < 0 then Inl ValueError else Inr n)"
proof (cases "length (py_str_int n) \<le> 3")
  case True
  let ?z = "replicate (3 - length (py_str_int n)) CHR ''0''"
  have z: "is_digit CHR ''0''" by (simp add: is_digit_def)
  have "rbind (convert_ns2us_str (NInt n) t) (\<lambda>s. convert_us2ns s [CHR 0x09]) =
      convert_us2ns (''0'' @ CHR ''.'' # (?z @ py_str_int n) @ t) [CHR 0x09]"
    using True by (simp add: convert_ns2us_str_def Let_def)
  also have "\<dots> = py_int (''0'' @ ?z @ py_str_int n)"
    by (rule us2ns_parts) (use True assms z str_int_chars [of _ n] in auto)
  finally have eq: "rbind (convert_ns2us_str (NInt n) t) (\<lambda>s. convert_us2ns s [CHR 0x09]) =
      py_int (CHR ''0'' # ?z @ py_str_int n)" by simp
  show ?thesis
  proof (cases "n < 0")
    case neg: True
    then have "length (digits_rev (nat (- n))) \<le> 2" using True by (simp add: py_str_int_def py_str_nat_def)
    then have "-100 < n" using length_digits_rev by auto
    then show ?thesis using eq neg short_neg by (simp add: py_str_int_def)
  next
    case False
    have "py_int (CHR ''0'' # ?z @ py_str_nat (nat n)) = Inr (int (nat n))" by (rule short_pos)
    then show ?thesis using eq False by (simp add: py_str_int_def)
  qed
next
  case False
  let ?k = "length (py_str_int n) - 3"
  have "rbind (convert_ns2us_str (NInt n) t) (\<lambda>s. convert_us2ns s [CHR 0x09]) =
      convert_us2ns (take ?k (py_str_int n) @ CHR ''.'' # drop ?k (py_str_int n) @ t) [CHR 0x09]"
    using False by (simp add: convert_ns2us_str_def Let_def)
  also have "\<dots> = py_int (take ?k (py_str_int n) @ drop ?k (py_str_int n))"
    by (rule us2ns_parts) (use False assms str_int_chars [of _ n] in \<open>auto dest: in_set_takeD in_set_dropD\<close>)
  finally have "rbind (convert_ns2us_str (NInt n) t) (\<lambda>s. convert_us2ns s [CHR 0x09]) = Inr n"
    by (simp add: py_int_str)
  moreover have "\<not> (-100 < n \<and> n < 0)"
    using False length_digits_rev [of "nat (- n)"] by (auto simp: py_str_int_def py_str_nat_def)
  ultimately show ?thesis by simp
qed

theorem ns_us_roundtrip_witness:
  "rbind (convert_ns2us_str (NInt 1234567) [CHR 0x09]) (\<lambda>s. convert_us2ns s [CHR 0x09]) = Inr 1234567"
  using ns_us_roundtrip [of "[CHR 0x09]" 1234567] by simp

section \<open>Numbers for strings\<close>

text \<open>A sequence of lookups.\<close>

fun get_ids :: "string list \<Rightarrow> Str2IdManager \<Rightarrow> int list \<times> Str2IdManager" where
  "get_ids [] m = ([], m)"
| "get_ids (x # xs) m =
     (case get_id_from_str x m of (i, m1) \<Rightarrow> (case get_ids xs m1 of (is, m2) \<Rightarrow> (i # is, m2)))"

definition ids_ok :: "int \<Rightarrow> Str2IdManager \<Rightarrow> bool" where
  "ids_ok s m \<longleftrightarrow> distinct (map fst (si_map m)) \<and> distinct (map snd (si_map m))
     \<and> (\<forall>(k, i) \<in> set (si_map m). k \<noteq> [] \<and> s \<le> i \<and> i < si_curr m) \<and> s \<le> si_curr m"

lemma update_append: "map_of xs k = None \<Longrightarrow> AList.update k v xs = xs @ [(k, v)]"
  by (induction xs) (auto split: if_splits)

lemma get_id_ok:
  assumes "ids_ok s m" and "get_id_from_str x m = (i, m')"
  shows "ids_ok s m' \<and> si_curr m' \<le> si_curr m + 1 \<and> (\<exists>new. si_map m' = si_map m @ new \<and> set (map fst new) \<subseteq> {x} - {[]})
    \<and> (if x = [] then i = DB_INVALID_VALUE else (x, i) \<in> set (si_map m'))"
proof (cases "x = []")
  case True
  then show ?thesis using assms by (auto simp: get_id_from_str_def)
next
  case False
  show ?thesis
  proof (cases "map_of (si_map m) x")
    case None
    then have m': "i = si_curr m" "m' = m\<lparr>si_map := si_map m @ [(x, si_curr m)], si_curr := si_curr m + 1\<rparr>"
      using assms(2) False by (auto simp: get_id_from_str_def update_append)
    have "x \<notin> fst ` set (si_map m)" using None by (simp add: map_of_eq_None_iff)
    then show ?thesis using assms(1) m' False by (force simp: ids_ok_def)
  next
    case (Some j)
    then show ?thesis using assms False by (auto simp: get_id_from_str_def dest: map_of_SomeD)
  qed
qed

lemma get_ids_ok:
  assumes "ids_ok s m" and "get_ids xs m = (is, m')"
  shows "ids_ok s m' \<and> si_curr m' \<le> si_curr m + int (length xs) \<and> length is = length xs
    \<and> (\<exists>new. si_map m' = si_map m @ new \<and> set (map fst new) \<subseteq> set xs - {[]})
    \<and> (\<forall>j < length xs. if xs ! j = [] then is ! j = DB_INVALID_VALUE else (xs ! j, is ! j) \<in> set (si_map m'))"
  using assms
proof (induction xs arbitrary: m "is")
  case (Cons x xs)
  obtain i m1 is' where 1: "get_id_from_str x m = (i, m1)" "get_ids xs m1 = (is', m')" "is = i # is'"
    using Cons.prems(2) by (auto split: prod.splits)
  note a = get_id_ok [OF Cons.prems(1) 1(1)]
  note b = Cons.IH [OF conjunct1 [OF a] 1(2)]
  obtain n1 n2 where n: "si_map m1 = si_map m @ n1" "set (map fst n1) \<subseteq> {x} - {[]}" "si_map m' = si_map m1 @ n2"
      "set (map fst n2) \<subseteq> set xs - {[]}" using a b by blast
  have "\<forall>j < length (x # xs). if (x # xs) ! j = [] then is ! j = DB_INVALID_VALUE else ((x # xs) ! j, is ! j) \<in> set (si_map m')"
  proof (intro allI impI)
    fix j assume "j < length (x # xs)"
    then show "if (x # xs) ! j = [] then is ! j = DB_INVALID_VALUE else ((x # xs) ! j, is ! j) \<in> set (si_map m')"
      using a b n(3) 1(3) by (cases j) (auto split: if_splits)
  qed
  moreover have "\<exists>new. si_map m' = si_map m @ new \<and> set (map fst new) \<subseteq> set (x # xs) - {[]}"
    using n by (intro exI [of _ "n1 @ n2"]) auto
  moreover have "si_curr m' \<le> si_curr m + int (length (x # xs))" using a b by simp
  ultimately show ?case using b 1(3) by simp
qed simp

lemma ids_ok_inj:
  assumes "ids_ok s m" and x: "(x, i) \<in> set (si_map m)" and y: "(y, j) \<in> set (si_map m)"
  shows "i = j \<longleftrightarrow> x = y"
proof
  assume "i = j"
  moreover have "inj_on snd (set (si_map m))" using assms(1) by (simp add: ids_ok_def distinct_map)
  ultimately show "x = y" using inj_onD [of snd, OF _ _ x y] by simp
next
  assume "x = y"
  then show "i = j" using eq_key_imp_eq_value [of "si_map m"] assms by (simp add: ids_ok_def)
qed

text \<open>
  The numbers given to strings identify them: in any sequence of lookups that starts at a number
  leaving room below the invalid value, two lookups return the same number exactly when they ask for
  the same string, the empty string gets the invalid value, the others numbers from the start on,
  and the table that is written out pairs exactly these numbers with these strings.
\<close>

lemma string_ids_unique:
  assumes "get_ids xs (set_start_id s \<lparr>si_map = [], si_curr = 0\<rparr>) = (is, m)" and "s + int (length xs) \<le> DB_INVALID_VALUE"
  shows "length is = length xs \<and> (\<forall>i < length xs. \<forall>j < length xs. is ! i = is ! j \<longleftrightarrow> xs ! i = xs ! j)
    \<and> (\<forall>i < length xs. if xs ! i = [] then is ! i = DB_INVALID_VALUE else s \<le> is ! i \<and> is ! i < s + int (length xs))
    \<and> set (fst (get_all_string_2_id_data m)) = {(is ! i, xs ! i) | i. i < length xs \<and> xs ! i \<noteq> []}"
proof -
  have "ids_ok s (set_start_id s \<lparr>si_map = [], si_curr = 0\<rparr>)" by (simp add: ids_ok_def set_start_id_def)
  note r = get_ids_ok [OF this assms(1)]
  have ok: "ids_ok s m" and len: "length is = length xs" and curr: "si_curr m \<le> s + int (length xs)"
    using r by (simp_all add: set_start_id_def)
  have known: "if xs ! j = [] then is ! j = DB_INVALID_VALUE else (xs ! j, is ! j) \<in> set (si_map m)" if "j < length xs" for j
    using r that by blast
  have bound: "s \<le> is ! j \<and> is ! j < s + int (length xs)" if "j < length xs" "xs ! j \<noteq> []" for j
    using known [OF that(1)] that(2) ok curr by (fastforce simp: ids_ok_def)
  have "is ! i = is ! j \<longleftrightarrow> xs ! i = xs ! j" if "i < length xs" "j < length xs" for i j
    using known [OF that(1)] known [OF that(2)] bound [OF that(1)] bound [OF that(2)] assms(2) ids_ok_inj [OF ok]
    by (cases "xs ! i = []"; cases "xs ! j = []") auto
  moreover have "(k, v) \<in> set (si_map m) \<longleftrightarrow> (\<exists>i < length xs. xs ! i \<noteq> [] \<and> k = xs ! i \<and> v = is ! i)" for k v
  proof
    assume kv: "(k, v) \<in> set (si_map m)"
    then have "k \<in> set xs - {[]}" using r by (force simp: set_start_id_def)
    then obtain i where i: "i < length xs" "xs ! i = k" "k \<noteq> []" by (auto simp: in_set_conv_nth)
    then have "(k, is ! i) \<in> set (si_map m)" using known [OF i(1)] by simp
    then show "\<exists>i < length xs. xs ! i \<noteq> [] \<and> k = xs ! i \<and> v = is ! i"
      using kv i ids_ok_inj [OF ok] by blast
  next
    assume "\<exists>i < length xs. xs ! i \<noteq> [] \<and> k = xs ! i \<and> v = is ! i"
    then show "(k, v) \<in> set (si_map m)" using known by fastforce
  qed
  then have "set (fst (get_all_string_2_id_data m)) = {(is ! i, xs ! i) | i. i < length xs \<and> xs ! i \<noteq> []}"
    by (force simp: get_all_string_2_id_data_def)
  ultimately show ?thesis using len known bound by auto
qed

definition sample_strings :: "string list" where
  "sample_strings = [''add'', [], ''mul'', ''add'']"

definition sample_ids :: "int list \<times> Str2IdManager" where
  "sample_ids = get_ids sample_strings (set_start_id 268435456 \<lparr>si_map = [], si_curr = 0\<rparr>)"

lemma string_ids_unique_witness:
  "length (fst sample_ids) = length sample_strings
    \<and> set (fst (get_all_string_2_id_data (snd sample_ids))) =
        {(fst sample_ids ! i, sample_strings ! i) | i. i < length sample_strings \<and> sample_strings ! i \<noteq> []}"
proof -
  have g: "get_ids sample_strings (set_start_id 268435456 \<lparr>si_map = [], si_curr = 0\<rparr>) =
      (fst sample_ids, snd sample_ids)" by (simp add: sample_ids_def)
  have "268435456 + int (length sample_strings) \<le> DB_INVALID_VALUE"
    by (simp add: DB_INVALID_VALUE_def sample_strings_def)
  from string_ids_unique [OF g this] show ?thesis by blast
qed

section \<open>Process and thread in one number\<close>

text \<open>
  The number that combines a process and a thread below \<open>2 ^ 32\<close> is exactly their sum in base
  \<open>2 ^ 32\<close>: both can be read back, so different pairs give different numbers.
\<close>

lemma contact_2num_inverse:
  assumes "0 \<le> low" and "low < 2 ^ 32"
  shows "contact_2num high low div 2 ^ 32 = high \<and> contact_2num high low mod 2 ^ 32 = low"
  using assms shift_or [OF assms] by (simp add: contact_2num_def)

lemma contact_2num_inverse_witness:
  "contact_2num 12 4294967295 div 2 ^ 32 = 12 \<and> contact_2num 12 4294967295 mod 2 ^ 32 = 4294967295"
  by (rule contact_2num_inverse) simp_all

end
