(* ===== verification/Op_Tree.thy ===== *)
theory Op_Tree
  imports Prelude
begin

text \<open>
  The tree of framework operations, \<open>prof_common_func/_tree_builder.py\<close> and
  \<open>prof_bean/_torch_op_node.py\<close> under \<open>torch_npu/profiler/analysis\<close>.

  The nodes are one store, indexed as in \<open>all_node_list\<close>: node 0 is the root, which has no event, and
  every other node has one.  A reference to a node is its index; \<open>None\<close> is Python's \<open>None\<close>.  The
  loops along parent and child references are \<open>partial_function\<close>s: on a store with a cycle they
  would not return.
\<close>

section \<open>Events and nodes\<close>

record op_event =
  oe_ts :: int
  oe_end :: int
  oe_name :: string
  oe_tid :: int
  oe_pid :: int

definition oe_dur :: "op_event \<Rightarrow> int" where
  "oe_dur e = oe_end e - oe_ts e"

datatype tree_event = TorchOp op_event | OpMark (mark_ts: int) (mark_corr: int)

fun ev_ts :: "tree_event \<Rightarrow> int" where
  "ev_ts (TorchOp e) = oe_ts e"
| "ev_ts (OpMark t c) = t"

record TorchOpNode =
  on_event :: "op_event option"
  on_parent :: "nat option"
  on_children :: "nat list"
  on_total :: "int list"
  on_self :: "int list"

type_synonym op_store = "TorchOpNode list"

definition torch_op_node :: "op_event option \<Rightarrow> nat option \<Rightarrow> TorchOpNode" where
  "torch_op_node e p = \<lparr>on_event = e, on_parent = p, on_children = [], on_total = [], on_self = []\<rparr>"

definition start_time :: "op_store \<Rightarrow> nat \<Rightarrow> int" where
  "start_time ns i = (case on_event (ns ! i) of Some e \<Rightarrow> oe_ts e | None \<Rightarrow> 0)"

definition end_time :: "op_store \<Rightarrow> nat \<Rightarrow> int" where
  "end_time ns i = (case on_event (ns ! i) of Some e \<Rightarrow> oe_end e | None \<Rightarrow> 0)"

definition update_node :: "nat \<Rightarrow> (TorchOpNode \<Rightarrow> TorchOpNode) \<Rightarrow> op_store \<Rightarrow> op_store" where
  "update_node i f ns = ns[i := f (ns ! i)]"

definition add_child_node :: "nat \<Rightarrow> nat \<Rightarrow> op_store \<Rightarrow> op_store" where
  "add_child_node i c = update_node i (\<lambda>n. n\<lparr>on_children := on_children n @ [c]\<rparr>)"

definition update_corr_id_total :: "nat \<Rightarrow> int \<Rightarrow> op_store \<Rightarrow> op_store" where
  "update_corr_id_total i corr = update_node i (\<lambda>n. n\<lparr>on_total := on_total n @ [corr]\<rparr>)"

definition update_corr_id_self :: "nat \<Rightarrow> int \<Rightarrow> op_store \<Rightarrow> op_store" where
  "update_corr_id_self i corr = update_node i (\<lambda>n. n\<lparr>on_self := on_self n @ [corr]\<rparr>)"

partial_function (option) corr_loop :: "int \<Rightarrow> nat \<Rightarrow> op_store \<Rightarrow> op_store option" where
  "corr_loop corr i ns =
     (case on_parent (ns ! i) of
        None \<Rightarrow> Some ns
      | Some p \<Rightarrow> corr_loop corr p (update_corr_id_total i corr ns))"

definition update_corr_id :: "int \<Rightarrow> nat \<Rightarrow> op_store \<Rightarrow> op_store option" where
  "update_corr_id corr i ns = corr_loop corr i (update_corr_id_self i corr ns)"

definition host_self_dur :: "op_store \<Rightarrow> nat \<Rightarrow> int" where
  "host_self_dur ns i =
     (case on_event (ns ! i) of None \<Rightarrow> 0 | Some e \<Rightarrow> oe_dur e)
     - sum_list (map (\<lambda>c. case on_event (ns ! c) of None \<Rightarrow> 0 | Some e \<Rightarrow> oe_dur e) (on_children (ns ! i)))"

text \<open>\<open>name.find("ProfilerStep#") != -1\<close>.\<close>

definition is_profiler_step :: "op_store \<Rightarrow> nat \<Rightarrow> bool" where
  "is_profiler_step ns i =
     (case on_event (ns ! i) of None \<Rightarrow> False | Some e \<Rightarrow> str_in ''ProfilerStep#'' (oe_name e))"

section \<open>Building the tree\<close>

text \<open>Going up to the node that is still open at the time of an event.\<close>

partial_function (option) climb :: "op_store \<Rightarrow> int \<Rightarrow> nat option \<Rightarrow> nat option option" where
  "climb ns ts last_node =
     (case last_node of
        None \<Rightarrow> Some None
      | Some i \<Rightarrow>
          (if i \<noteq> 0 \<and> ts > end_time ns i then climb ns ts (on_parent (ns ! i)) else Some (Some i)))"

definition tree_step :: "tree_event \<Rightarrow> op_store \<times> nat option \<Rightarrow> (op_store \<times> nat option) option" where
  "tree_step e st =
     (case st of (ns, last_node) \<Rightarrow>
        (case climb ns (ev_ts e) last_node of
           None \<Rightarrow> None
         | Some None \<Rightarrow> Some (ns, None)
         | Some (Some i) \<Rightarrow>
             (case e of
                TorchOp o1 \<Rightarrow>
                  Some (add_child_node i (length ns) ns @ [torch_op_node (Some o1) (Some i)], Some (length ns))
              | OpMark ts corr \<Rightarrow> map_option (\<lambda>ns'. (ns', Some i)) (update_corr_id corr i ns))))"

fun tree_loop :: "tree_event list \<Rightarrow> op_store \<times> nat option \<Rightarrow> (op_store \<times> nat option) option" where
  "tree_loop [] st = Some st"
| "tree_loop (e # es) st = (case tree_step e st of None \<Rightarrow> None | Some st' \<Rightarrow> tree_loop es st')"

definition merged_events :: "op_event list \<Rightarrow> (int \<times> int) list \<Rightarrow> tree_event list" where
  "merged_events ops marks = sort_key ev_ts (map TorchOp ops @ map (\<lambda>(t, c). OpMark t c) marks)"

definition build_tree :: "op_event list \<Rightarrow> (int \<times> int) list \<Rightarrow> op_store option" where
  "build_tree ops marks =
     map_option fst (tree_loop (merged_events ops marks) ([torch_op_node None None], Some 0))"

section \<open>Finding an operation by time\<close>

text \<open>
  \<open>ceil((right - left) / 2)\<close> is the quotient rounded up; the search looks for the last child that
  does not start after the time.
\<close>

function child_search :: "(nat \<Rightarrow> int) \<Rightarrow> int \<Rightarrow> nat \<Rightarrow> nat \<Rightarrow> nat" where
  "child_search starts ts left right =
     (if right > left
      then let mid = left + (right - left + 1) div 2
           in if ts \<ge> starts mid then child_search starts ts mid right
              else child_search starts ts left (mid - 1)
      else left)"
  by pat_completeness auto
termination
  by (relation "measure (\<lambda>(_, _, left, right). right - left)") auto

declare child_search.simps [simp del]

definition match_child_node :: "op_store \<Rightarrow> nat \<Rightarrow> int \<Rightarrow> nat option" where
  "match_child_node ns i ts =
     (let cs = on_children (ns ! i)
      in if cs = [] then None
         else let c = cs ! child_search (\<lambda>k. start_time ns (cs ! k)) ts 0 (length cs - 1)
              in if end_time ns c > ts then Some c else None)"

text \<open>
  The queues of \<open>update_tree_node_info\<close> and \<open>match_self_torch_op\<close> hold at most one node, the one the
  loop looks at next.
\<close>

partial_function (option) info_loop :: "int \<Rightarrow> nat \<Rightarrow> op_store \<Rightarrow> op_store option" where
  "info_loop ts i ns =
     (let ns' = update_corr_id_total i ts ns
      in case match_child_node ns' i ts of
           Some c \<Rightarrow> info_loop ts c ns'
         | None \<Rightarrow> Some (update_corr_id_self i ts ns'))"

definition update_tree_node_info :: "int \<Rightarrow> nat \<Rightarrow> op_store \<Rightarrow> op_store option" where
  "update_tree_node_info acl_ts root ns =
     (case match_child_node ns root acl_ts of None \<Rightarrow> Some ns | Some c \<Rightarrow> info_loop acl_ts c ns)"

partial_function (option) self_loop :: "int \<Rightarrow> nat \<Rightarrow> op_store \<Rightarrow> nat option" where
  "self_loop ts i ns =
     (case match_child_node ns i ts of Some c \<Rightarrow> self_loop ts c ns | None \<Rightarrow> Some i)"

definition match_self_torch_op :: "int \<Rightarrow> nat \<Rightarrow> op_store \<Rightarrow> nat option option" where
  "match_self_torch_op ts root ns =
     (case match_child_node ns root ts of
        None \<Rightarrow> Some None
      | Some c \<Rightarrow> map_option Some (self_loop ts c ns))"

declare corr_loop.simps [code] climb.simps [code] info_loop.simps [code] self_loop.simps [code]

section \<open>The reference definition\<close>

text \<open>
  An operation belongs to the operation that started last before it and is not over; the numbers are
  those of the nodes, 0 when there is none.  \<open>ends\<close> are the ends of the operations so far.
\<close>

definition owner :: "int list \<Rightarrow> int \<Rightarrow> nat" where
  "owner ends t =
     (case filter (\<lambda>j. t \<le> ends ! j) [0 ..< length ends] of [] \<Rightarrow> 0 | js \<Rightarrow> Suc (last js))"

fun owners :: "int list \<Rightarrow> tree_event list \<Rightarrow> nat list \<times> (nat \<times> int) list" where
  "owners ends [] = ([], [])"
| "owners ends (TorchOp e # es) = (case owners (ends @ [oe_end e]) es of (ps, ms) \<Rightarrow> (owner ends (oe_ts e) # ps, ms))"
| "owners ends (OpMark t c # es) = (case owners ends es of (ps, ms) \<Rightarrow> (ps, (owner ends t, c) # ms))"

fun torch_ops :: "tree_event list \<Rightarrow> op_event list" where
  "torch_ops [] = []"
| "torch_ops (TorchOp e # es) = e # torch_ops es"
| "torch_ops (OpMark t c # es) = torch_ops es"

text \<open>A node and the nodes above it, without the root.\<close>

function chain :: "nat list \<Rightarrow> nat \<Rightarrow> nat list" where
  "chain ps i = (if 0 < i \<and> i \<le> length ps \<and> ps ! (i - 1) < i then i # chain ps (ps ! (i - 1)) else [])"
  by pat_completeness auto
termination
  by (relation "measure snd") auto

declare chain.simps [simp del]

section \<open>The contract of the tree\<close>

text \<open>
  What the users of a tree rely on: a parent stands before its children in the store, so every walk
  to the root ends.
\<close>

locale op_forest =
  fixes ns :: op_store
  assumes parent_before: "i < length ns \<Longrightarrow> on_parent (ns ! i) = Some p \<Longrightarrow> p < i"

end
