(* ===== verification/Op_Tree_Props.thy ===== *)
theory Op_Tree_Props
  imports Op_Tree
begin

text \<open>
  The tree is what the reference definition says: the parent of an operation is the operation that
  started last before it and is not over, launches are booked on the operation that issues them and
  on everything above it.  The search by time is characterised exactly.
\<close>

section \<open>Chains and owners\<close>

definition parents_ok :: "nat list \<Rightarrow> bool" where
  "parents_ok ps \<longleftrightarrow> (\<forall>k < length ps. ps ! k \<le> k)"

lemma chain_0 [simp]: "chain ps 0 = []"
  by (simp add: chain.simps)

lemma chain_step:
  assumes "parents_ok ps" and "0 < i" and "i \<le> length ps"
  shows "chain ps i = i # chain ps (ps ! (i - 1))" and "ps ! (i - 1) < i"
proof -
  have "ps ! (i - 1) \<le> i - 1" using assms by (simp add: parents_ok_def)
  then show "ps ! (i - 1) < i" using assms(2) by linarith
  then show "chain ps i = i # chain ps (ps ! (i - 1))" using assms by (simp add: chain.simps [of ps i])
qed

lemma chain_bounds: "j \<in> set (chain ps i) \<Longrightarrow> 0 < j \<and> j \<le> i \<and> j \<le> length ps"
proof (induction ps i rule: chain.induct)
  case (1 ps i)
  then show ?case by (auto simp: chain.simps [of ps i] split: if_splits)
qed

lemma chain_trans: "j \<in> set (chain ps i) \<Longrightarrow> set (chain ps j) \<subseteq> set (chain ps i)"
proof (induction ps i rule: chain.induct)
  case (1 ps i)
  show ?case
  proof (cases "j = i")
    case False
    then have "0 < i \<and> i \<le> length ps \<and> ps ! (i - 1) < i" "j \<in> set (chain ps (ps ! (i - 1)))"
      using 1(2) by (auto simp: chain.simps [of ps i] split: if_splits)
    then show ?thesis using 1(1) by (auto simp: chain.simps [of ps i])
  qed simp
qed

lemma chain_snoc:
  assumes "i \<le> length ps"
  shows "chain (ps @ [p]) i = chain ps i"
  using assms
proof (induction i rule: less_induct)
  case (less i)
  have "(ps @ [p]) ! (i - 1) = ps ! (i - 1)" if "0 < i"
    using less.prems that by (subst nth_append) auto
  then show ?case using less by (auto simp: chain.simps [of "ps @ [p]" i] chain.simps [of ps i])
qed

lemma sorted_last_ge: "sorted xs \<Longrightarrow> x \<in> set xs \<Longrightarrow> (x :: nat) \<le> last xs"
  by (induction xs) auto

lemma owner_eqI:
  assumes "q = 0 \<or> 0 < q \<and> q \<le> length ends \<and> t \<le> ends ! (q - 1)"
    and "\<And>j. 0 < j \<Longrightarrow> j \<le> length ends \<Longrightarrow> t \<le> ends ! (j - 1) \<Longrightarrow> j \<le> q"
  shows "owner ends t = q"
proof -
  let ?js = "filter (\<lambda>j. t \<le> ends ! j) [0 ..< length ends]"
  have top: "Suc j \<le> q" if "j \<in> set ?js" for j using assms(2) [of "Suc j"] that by auto
  show ?thesis
  proof (cases "q = 0")
    case True
    then have "?js = []" using top by (cases ?js) fastforce+
    then show ?thesis using True by (simp add: owner_def)
  next
    case False
    then have mem: "q - 1 \<in> set ?js" using assms(1) by auto
    then have ne: "?js \<noteq> []" by (metis empty_iff empty_set)
    have "sorted ?js" by (simp add: sorted_wrt_filter)
    then have "q - 1 \<le> last ?js" using mem ne sorted_last_ge by blast
    moreover have "Suc (last ?js) \<le> q" using top last_in_set [OF ne] by blast
    ultimately have "Suc (last ?js) = q" using False by linarith
    then show ?thesis using ne by (cases ?js) (simp_all add: owner_def)
  qed
qed

section \<open>The store of a tree\<close>

definition tree_node :: "op_event list \<Rightarrow> nat list \<Rightarrow> (nat \<times> int) list \<Rightarrow> nat \<Rightarrow> TorchOpNode" where
  "tree_node ops ps ms i =
     \<lparr>on_event = (if i = 0 then None else Some (ops ! (i - 1))),
      on_parent = (if i = 0 then None else Some (ps ! (i - 1))),
      on_children = filter (\<lambda>c. ps ! (c - 1) = i) [1 ..< Suc (length ps)],
      on_total = map snd (filter (\<lambda>(o1, c). i \<in> set (chain ps o1)) ms),
      on_self = map snd (filter (\<lambda>(o1, c). o1 = i) ms)\<rparr>"

definition tree_store :: "op_event list \<Rightarrow> nat list \<Rightarrow> (nat \<times> int) list \<Rightarrow> op_store" where
  "tree_store ops ps ms = map (tree_node ops ps ms) [0 ..< Suc (length ps)]"

lemma tree_store_length [simp]: "length (tree_store ops ps ms) = Suc (length ps)"
  by (simp add: tree_store_def)

lemma tree_store_nth [simp]: "i \<le> length ps \<Longrightarrow> tree_store ops ps ms ! i = tree_node ops ps ms i"
  unfolding tree_store_def by (subst nth_map) (auto simp del: upt_Suc)

lemma tree_store_end:
  assumes "0 < i" and "i \<le> length ps" and "length ops = length ps"
  shows "end_time (tree_store ops ps ms) i = map oe_end ops ! (i - 1)"
  using assms by (simp add: end_time_def tree_node_def)

lemma tree_store_add:
  assumes ok: "parents_ok ps" and len: "length ops = length ps" and q: "q \<le> length ps"
    and ms: "\<And>o1 c. (o1, c) \<in> set ms \<Longrightarrow> o1 \<le> length ps"
  shows "add_child_node q (length (tree_store ops ps ms)) (tree_store ops ps ms)
           @ [torch_op_node (Some e) (Some q)] = tree_store (ops @ [e]) (ps @ [q]) ms" (is "?l = ?r")
proof (rule nth_equalityI)
  show "length ?l = length ?r" by (simp add: add_child_node_def update_node_def)
next
  fix i assume "i < length ?l"
  then have i: "i \<le> Suc (length ps)" by (simp add: add_child_node_def update_node_def)
  have ch: "filter (\<lambda>(o1, c). i \<in> set (chain (ps @ [q]) o1)) ms = filter (\<lambda>(o1, c). i \<in> set (chain ps o1)) ms"
    using ms by (intro filter_cong) (auto simp: chain_snoc)
  have kids: "filter (\<lambda>c. (ps @ [q]) ! (c - 1) = i) [1 ..< Suc (length (ps @ [q]))] =
      filter (\<lambda>c. ps ! (c - 1) = i) [1 ..< Suc (length ps)] @ (if q = i then [Suc (length ps)] else [])"
  proof -
    have "filter (\<lambda>c. (ps @ [q]) ! (c - 1) = i) [1 ..< Suc (length ps)] =
        filter (\<lambda>c. ps ! (c - 1) = i) [1 ..< Suc (length ps)]"
      by (intro filter_cong) (auto simp: nth_append)
    then show ?thesis by simp
  qed
  show "?l ! i = ?r ! i"
  proof (cases "i = Suc (length ps)")
    case True
    have "filter (\<lambda>c. ps ! (c - 1) = i) [1 ..< Suc (length ps)] = []"
    proof -
      have "ps ! (c - 1) \<noteq> i" if "c \<in> {1 ..< Suc (length ps)}" for c
      proof -
        have "ps ! (c - 1) \<le> c - 1" using ok that by (auto simp: parents_ok_def)
        then show ?thesis using True that by auto
      qed
      then show ?thesis by (simp add: filter_empty_conv del: upt_Suc)
    qed
    moreover have "filter (\<lambda>(o1, c). i \<in> set (chain ps o1)) ms = []"
      using True by (auto simp: filter_empty_conv dest: chain_bounds)
    moreover have "filter (\<lambda>(o1, c). o1 = i) ms = []" using True ms by (fastforce simp: filter_empty_conv)
    ultimately show ?thesis
      using True len q ch kids
      by (simp add: tree_node_def torch_op_node_def add_child_node_def update_node_def nth_append del: upt_Suc)
  next
    case False
    then have i': "i \<le> length ps" using i by simp
    have "?l ! i = add_child_node q (Suc (length ps)) (tree_store ops ps ms) ! i"
      using i' by (simp add: add_child_node_def update_node_def nth_append)
    also have "\<dots> = (if i = q then (tree_node ops ps ms i)\<lparr>on_children := on_children (tree_node ops ps ms i) @ [Suc (length ps)]\<rparr>
        else tree_node ops ps ms i)"
      using i' by (auto simp: add_child_node_def update_node_def nth_list_update)
    also have "\<dots> = tree_node (ops @ [e]) (ps @ [q]) ms i"
      using i' len ch kids by (auto simp: tree_node_def nth_append simp del: upt_Suc)
    finally show ?thesis using i by simp
  qed
qed

lemma tree_node_mark:
  assumes "q \<le> length ps"
  shows "tree_node ops ps (ms @ [(q, c)]) i =
    (let n = tree_node ops ps ms i
     in n\<lparr>on_total := on_total n @ (if i \<in> set (chain ps q) then [c] else []),
          on_self := on_self n @ (if i = q then [c] else [])\<rparr>)"
  by (simp add: tree_node_def Let_def)

lemma corr_loop_ok:
  assumes ok: "parents_ok ps" and "q \<le> length ps" and "length ns = Suc (length ps)"
    and "\<And>i. i \<le> length ps \<Longrightarrow> on_parent (ns ! i) = (if i = 0 then None else Some (ps ! (i - 1)))"
  shows "\<exists>ns'. corr_loop c q ns = Some ns' \<and> length ns' = length ns
    \<and> (\<forall>i < length ns. ns' ! i = (if i \<in> set (chain ps q) then (ns ! i)\<lparr>on_total := on_total (ns ! i) @ [c]\<rparr> else ns ! i))"
  using assms(2-)
proof (induction q arbitrary: ns rule: less_induct)
  case (less q)
  show ?case
  proof (cases "q = 0")
    case True
    then show ?thesis using less.prems(3) [of 0] by (subst corr_loop.simps) simp
  next
    case False
    let ?p = "ps ! (q - 1)"
    note st = chain_step [OF ok _ less.prems(1)]
    have p: "?p < q" "?p \<le> length ps" using st(2) False less.prems(1) by simp_all
    let ?ns = "update_corr_id_total q c ns"
    have nth: "?ns ! i = (if i = q then (ns ! q)\<lparr>on_total := on_total (ns ! q) @ [c]\<rparr> else ns ! i)" if "i < length ns" for i
      using less.prems(1,2) that by (simp add: update_corr_id_total_def update_node_def nth_list_update)
    have len: "length ?ns = Suc (length ps)" using less.prems(2) by (simp add: update_corr_id_total_def update_node_def)
    have "on_parent (?ns ! i) = (if i = 0 then None else Some (ps ! (i - 1)))" if "i \<le> length ps" for i
      using less.prems(2,3) that nth [of i] False by simp
    from less.IH [OF p(1,2) len this] obtain ns' where ns': "corr_loop c ?p ?ns = Some ns'" "length ns' = length ?ns"
      "\<forall>i < length ?ns. ns' ! i = (if i \<in> set (chain ps ?p) then (?ns ! i)\<lparr>on_total := on_total (?ns ! i) @ [c]\<rparr> else ?ns ! i)"
      by blast
    have "corr_loop c q ns = Some ns'"
      using less.prems(3) [OF less.prems(1)] False ns'(1) by (subst corr_loop.simps) simp
    moreover have "q \<notin> set (chain ps ?p)" using chain_bounds [of q ps ?p] p(1) by auto
    ultimately show ?thesis
      using ns'(2,3) nth st(1) False less.prems(2) len by (intro exI [of _ ns']) auto
  qed
qed

lemma tree_store_mark:
  assumes ok: "parents_ok ps" and q: "q \<le> length ps"
  shows "update_corr_id c q (tree_store ops ps ms) = Some (tree_store ops ps (ms @ [(q, c)]))"
proof -
  let ?ns = "update_corr_id_self q c (tree_store ops ps ms)"
  have nth: "?ns ! i = (let n = tree_node ops ps ms i in if i = q then n\<lparr>on_self := on_self n @ [c]\<rparr> else n)"
    if "i \<le> length ps" for i
    using that q by (simp add: update_corr_id_self_def update_node_def nth_list_update Let_def)
  have len: "length ?ns = Suc (length ps)" by (simp add: update_corr_id_self_def update_node_def)
  have "on_parent (?ns ! i) = (if i = 0 then None else Some (ps ! (i - 1)))" if "i \<le> length ps" for i
    using nth [OF that] by (simp add: Let_def tree_node_def)
  from corr_loop_ok [OF ok q len this, of c] obtain ns' where ns': "corr_loop c q ?ns = Some ns'" "length ns' = Suc (length ps)"
    "\<And>i. i \<le> length ps \<Longrightarrow> ns' ! i = (if i \<in> set (chain ps q) then (?ns ! i)\<lparr>on_total := on_total (?ns ! i) @ [c]\<rparr> else ?ns ! i)"
    using len by auto
  have "ns' = tree_store ops ps (ms @ [(q, c)])"
    by (rule nth_equalityI) (use ns'(2,3) nth q in \<open>auto simp: tree_node_mark Let_def less_Suc_eq_le\<close>)
  then show ?thesis using ns'(1) by (simp add: update_corr_id_def)
qed

section \<open>Building\<close>

lemma climb_ok:
  assumes ok: "parents_ok ps" and len: "length ops = length ps" and "l \<le> length ps"
  shows "\<exists>q. climb (tree_store ops ps ms) t (Some l) = Some (Some q) \<and> q \<le> length ps
    \<and> (q = 0 \<or> t \<le> map oe_end ops ! (q - 1))
    \<and> (\<forall>j \<in> set (chain ps l). j \<in> set (chain ps q) \<or> map oe_end ops ! (j - 1) < t)"
  using assms(3)
proof (induction l rule: less_induct)
  case (less l)
  let ?ns = "tree_store ops ps ms"
  show ?case
  proof (cases "l \<noteq> 0 \<and> t > end_time ?ns l")
    case True
    let ?p = "ps ! (l - 1)"
    note st = chain_step [OF ok _ less.prems]
    have p: "?p < l" "?p \<le> length ps" using st(2) True less.prems by simp_all
    have "map oe_end ops ! (l - 1) < t" using True tree_store_end [OF _ less.prems len] by simp
    moreover have "climb ?ns t (Some l) = climb ?ns t (Some ?p)"
      using True less.prems by (subst climb.simps) (simp add: tree_node_def)
    ultimately show ?thesis using less.IH [OF p] st(1) True by auto
  next
    case False
    then have "climb ?ns t (Some l) = Some (Some l)" by (subst climb.simps) auto
    moreover have "l = 0 \<or> t \<le> map oe_end ops ! (l - 1)"
      using False tree_store_end [OF _ less.prems len, of ms] by (cases "l = 0") auto
    ultimately show ?thesis using less.prems by auto
  qed
qed

text \<open>The state of the loop: every operation that is not above the current one is over.\<close>

definition tree_state :: "op_event list \<Rightarrow> nat list \<Rightarrow> (nat \<times> int) list \<Rightarrow> nat \<Rightarrow> int \<Rightarrow> bool" where
  "tree_state ops ps ms l t \<longleftrightarrow> parents_ok ps \<and> length ops = length ps \<and> l \<le> length ps
     \<and> (\<forall>(o1, c) \<in> set ms. o1 \<le> length ps)
     \<and> (\<forall>j. 0 < j \<longrightarrow> j \<le> length ps \<longrightarrow> j \<in> set (chain ps l) \<or> map oe_end ops ! (j - 1) < t)"

lemma climb_owner:
  assumes st: "tree_state ops ps ms l t" and "t \<le> t'"
  shows "\<exists>q. climb (tree_store ops ps ms) t' (Some l) = Some (Some q) \<and> q = owner (map oe_end ops) t'
    \<and> tree_state ops ps ms q t'"
proof -
  from st have ok: "parents_ok ps" "length ops = length ps" "l \<le> length ps" by (auto simp: tree_state_def)
  from climb_ok [OF ok] obtain q where q: "climb (tree_store ops ps ms) t' (Some l) = Some (Some q)" "q \<le> length ps"
    "q = 0 \<or> t' \<le> map oe_end ops ! (q - 1)"
    "\<forall>j \<in> set (chain ps l). j \<in> set (chain ps q) \<or> map oe_end ops ! (j - 1) < t'" by blast
  have closed: "j \<in> set (chain ps q) \<or> map oe_end ops ! (j - 1) < t'" if "0 < j" "j \<le> length ps" for j
  proof -
    have "j \<in> set (chain ps l) \<or> map oe_end ops ! (j - 1) < t" using st that unfolding tree_state_def by blast
    then show ?thesis using q(4) assms(2) by (meson less_le_trans)
  qed
  have "owner (map oe_end ops) t' = q"
  proof (rule owner_eqI)
    show "q = 0 \<or> 0 < q \<and> q \<le> length (map oe_end ops) \<and> t' \<le> map oe_end ops ! (q - 1)" using q(2,3) ok(2) by auto
  next
    fix j assume "0 < j" "j \<le> length (map oe_end ops)" "t' \<le> map oe_end ops ! (j - 1)"
    then show "j \<le> q" using closed [of j] ok(2) chain_bounds [of j ps q] by fastforce
  qed
  then show ?thesis using q closed st unfolding tree_state_def by blast
qed

lemma tree_loop_ok:
  assumes "tree_state ops ps ms l t" and "sorted (map ev_ts es)" and "\<forall>e \<in> set es. t \<le> ev_ts e"
    and "owners (map oe_end ops) es = (ps', ms')"
  shows "\<exists>l'. tree_loop es (tree_store ops ps ms, Some l) =
     Some (tree_store (ops @ torch_ops es) (ps @ ps') (ms @ ms'), Some l')"
  using assms
proof (induction es arbitrary: ops ps ms l t ps' ms')
  case Nil
  then show ?case by simp
next
  case (Cons e es)
  let ?t = "ev_ts e"
  from climb_owner [OF Cons.prems(1), of ?t] Cons.prems(3) obtain q where
    q: "climb (tree_store ops ps ms) ?t (Some l) = Some (Some q)" "q = owner (map oe_end ops) ?t"
    "tree_state ops ps ms q ?t" by auto
  from q(3) have ok: "parents_ok ps" "length ops = length ps" "q \<le> length ps" "\<And>o1 c. (o1, c) \<in> set ms \<Longrightarrow> o1 \<le> length ps"
    by (auto simp: tree_state_def)
  have rest: "sorted (map ev_ts es)" "\<forall>e' \<in> set es. ?t \<le> ev_ts e'" using Cons.prems(2) by auto
  show ?case
  proof (cases e)
    case (TorchOp o1)
    obtain ps1 where o: "owners (map oe_end (ops @ [o1])) es = (ps1, ms')" "ps' = q # ps1"
      using Cons.prems(4) q(2) TorchOp by (auto split: prod.splits)
    have p': "parents_ok (ps @ [q])" using ok(1,3) by (auto simp: parents_ok_def nth_append less_Suc_eq)
    have "tree_state (ops @ [o1]) (ps @ [q]) ms (Suc (length ps)) ?t"
      unfolding tree_state_def
    proof (intro conjI)
      have ch: "chain (ps @ [q]) (Suc (length ps)) = Suc (length ps) # chain ps q"
        using chain_step(1) [OF p', of "Suc (length ps)"] chain_snoc [OF ok(3), of q] by simp
      show "\<forall>j. 0 < j \<longrightarrow> j \<le> length (ps @ [q]) \<longrightarrow>
          j \<in> set (chain (ps @ [q]) (Suc (length ps))) \<or> map oe_end (ops @ [o1]) ! (j - 1) < ?t"
        using q(3) ok(2) unfolding ch tree_state_def by (auto simp: nth_append le_Suc_eq)
    qed (use p' ok in \<open>auto intro: le_SucI\<close>)
    from Cons.IH [OF this rest o(1)] obtain l' where
      l': "tree_loop es (tree_store (ops @ [o1]) (ps @ [q]) ms, Some (Suc (length ps))) =
         Some (tree_store ((ops @ [o1]) @ torch_ops es) ((ps @ [q]) @ ps1) (ms @ ms'), Some l')" by blast
    have "tree_step e (tree_store ops ps ms, Some l) = Some (tree_store (ops @ [o1]) (ps @ [q]) ms, Some (Suc (length ps)))"
      using q(1) tree_store_add [OF ok, where e = o1] TorchOp by (simp add: tree_step_def)
    then show ?thesis using l' o(2) TorchOp by simp
  next
    case (OpMark t1 c)
    obtain ms1 where o: "owners (map oe_end ops) es = (ps', ms1)" "ms' = (q, c) # ms1"
      using Cons.prems(4) q(2) OpMark by (auto split: prod.splits)
    have "tree_state ops ps (ms @ [(q, c)]) q ?t" using q(3) ok(3) unfolding tree_state_def by (simp del: nth_map)
    from Cons.IH [OF this rest o(1)] obtain l' where
      l': "tree_loop es (tree_store ops ps (ms @ [(q, c)]), Some q) =
         Some (tree_store (ops @ torch_ops es) (ps @ ps') ((ms @ [(q, c)]) @ ms1), Some l')" by blast
    have "tree_step e (tree_store ops ps ms, Some l) = Some (tree_store ops ps (ms @ [(q, c)]), Some q)"
      using q(1) tree_store_mark [OF ok(1,3), of c ops ms] OpMark by (simp add: tree_step_def)
    then show ?thesis using l' o(2) OpMark by simp
  qed
qed

lemma torch_ops_filter: "torch_ops es = map (\<lambda>e. case e of TorchOp o1 \<Rightarrow> o1) (filter (\<lambda>e. case e of TorchOp _ \<Rightarrow> True | _ \<Rightarrow> False) es)"
  by (induction es rule: torch_ops.induct) simp_all

lemma insort_map: "insort_key ev_ts (TorchOp a) (map TorchOp xs) = map TorchOp (insort_key oe_ts a xs)"
  by (induction xs) simp_all

lemma merged_ops: "torch_ops (merged_events ops marks) = sort_key oe_ts ops"
proof -
  let ?is = "\<lambda>e. case e of TorchOp _ \<Rightarrow> True | _ \<Rightarrow> False"
  have "filter ?is (merged_events ops marks) = sort_key ev_ts (filter ?is (map TorchOp ops @ map (\<lambda>(t, c). OpMark t c) marks))"
    by (simp add: merged_events_def filter_sort)
  also have "filter ?is (map TorchOp ops @ map (\<lambda>(t, c). OpMark t c) marks) = map TorchOp ops"
    by (auto simp: filter_map comp_def case_prod_beta)
  also have "sort_key ev_ts (map TorchOp ops) = map TorchOp (sort_key oe_ts ops)"
    by (induction ops) (simp_all add: insort_map)
  finally show ?thesis by (simp add: torch_ops_filter comp_def)
qed

lemma owners_ok:
  "owners ends es = (ps, ms) \<Longrightarrow> length ps = length (torch_ops es)"
  by (induction es arbitrary: ends ps ms rule: torch_ops.induct) (auto split: prod.splits)

lemma owner_bound: "owner ends t \<le> length ends"
proof -
  let ?js = "filter (\<lambda>j. t \<le> ends ! j) [0 ..< length ends]"
  show ?thesis
  proof (cases ?js)
    case (Cons j js)
    then have "last ?js \<in> set ?js" by (intro last_in_set) simp
    then have "last ?js < length ends" by simp
    then show ?thesis using Cons by (simp add: owner_def)
  qed (simp add: owner_def)
qed

lemma owners_bound: "owners ends es = (ps, ms) \<Longrightarrow> k < length ps \<Longrightarrow> ps ! k \<le> length ends + k"
proof (induction es arbitrary: ends ps ms k rule: torch_ops.induct)
  case (2 e es)
  obtain ps1 where o: "owners (ends @ [oe_end e]) es = (ps1, ms)" "ps = owner ends (oe_ts e) # ps1"
    using 2(2) by (auto split: prod.splits)
  show ?case
  proof (cases k)
    case 0
    then show ?thesis using owner_bound by (simp add: o(2))
  next
    case (Suc k')
    then show ?thesis using 2(1) [OF o(1), of k'] 2(3) by (simp add: o(2))
  qed
qed (auto split: prod.splits)

lemma tree_built:
  assumes "owners [] (merged_events ops marks) = (ps, ms)"
  shows "build_tree ops marks = Some (tree_store (sort_key oe_ts ops) ps ms)"
proof -
  let ?es = "merged_events ops marks"
  have sorted: "sorted (map ev_ts ?es)" by (simp add: merged_events_def)
  obtain t where t: "\<forall>e \<in> set ?es. t \<le> ev_ts e" using sorted by (cases ?es) auto
  have "tree_state [] [] [] 0 t" by (simp add: tree_state_def parents_ok_def)
  from tree_loop_ok [OF this sorted t] assms obtain l where
    "tree_loop ?es (tree_store [] [] [], Some 0) = Some (tree_store (torch_ops ?es) ps ms, Some l)" by auto
  moreover have "tree_store [] [] [] = [torch_op_node None None]"
    by (simp add: tree_store_def tree_node_def torch_op_node_def)
  ultimately show ?thesis by (simp add: build_tree_def merged_ops)
qed

text \<open>
  C18: The tree builder computes the reference tree on every input: it returns, its nodes are the root
  and the operations in the order of their start times, the parent of an operation is the operation
  that started last before it and has not ended, children are listed in order, and every launch is
  booked on the operation that was running when it was issued and on all operations above that one.
\<close>

theorem build_tree_exact:
  "build_tree ops marks =
     (case owners [] (merged_events ops marks) of (ps, ms) \<Rightarrow> Some (tree_store (sort_key oe_ts ops) ps ms))"
  using tree_built by (cases "owners [] (merged_events ops marks)") simp

lemma built_parents:
  assumes "build_tree ops marks = Some ns" and "i < length ns" and "on_parent (ns ! i) = Some p"
  shows "p < i"
proof -
  obtain ps ms where o: "owners [] (merged_events ops marks) = (ps, ms)" by fastforce
  have ns: "ns = tree_store (sort_key oe_ts ops) ps ms" using tree_built [OF o] assms(1) by simp
  have "i \<noteq> 0" "p = ps ! (i - 1)" "i - 1 < length ps"
    using assms(2,3) by (auto simp: ns tree_node_def split: if_splits)
  then show ?thesis using owners_bound [OF o, of "i - 1"] by auto
qed

text \<open>
  The parents are those of the reference, and the operations between an operation and its parent were
  over when it started.
\<close>

lemma owners_nth:
  "owners ends es = (ps, ms) \<Longrightarrow> k < length ps \<Longrightarrow>
     ps ! k = owner (ends @ map oe_end (take k (torch_ops es))) (oe_ts (torch_ops es ! k))"
proof (induction es arbitrary: ends ps ms k rule: torch_ops.induct)
  case (2 e es)
  obtain ps1 where o: "owners (ends @ [oe_end e]) es = (ps1, ms)" "ps = owner ends (oe_ts e) # ps1"
    using 2(2) by (auto split: prod.splits)
  show ?case using 2(1) [OF o(1), of "k - 1"] 2(3) by (cases k) (simp_all add: o(2))
qed (auto split: prod.splits)

lemma owner_above:
  assumes "owner ends t \<le> j" and "j < length ends"
  shows "ends ! j < t"
proof (rule ccontr)
  let ?js = "filter (\<lambda>j. t \<le> ends ! j) [0 ..< length ends]"
  assume "\<not> ends ! j < t"
  then have j: "j \<in> set ?js" using assms(2) by simp
  moreover have "sorted ?js" by (simp add: sorted_wrt_filter)
  ultimately have "j \<le> last ?js" using sorted_last_ge by blast
  moreover have "owner ends t = Suc (last ?js)"
    using j by (cases ?js) (simp_all add: owner_def)
  ultimately show False using assms(1) by simp
qed

lemma built_timed:
  assumes "build_tree ops marks = Some ns"
  shows "on_event (ns ! 0) = None"
    and "0 < i \<Longrightarrow> i < length ns \<Longrightarrow> on_event (ns ! i) \<noteq> None \<and> on_parent (ns ! i) \<noteq> None"
    and "0 < i \<Longrightarrow> i \<le> j \<Longrightarrow> j < length ns \<Longrightarrow> start_time ns i \<le> start_time ns j"
    and "j < length ns \<Longrightarrow> on_parent (ns ! j) = Some p \<Longrightarrow> p < k \<Longrightarrow> k < j \<Longrightarrow> end_time ns k < start_time ns j"
proof -
  let ?ops = "sort_key oe_ts ops"
  obtain ps ms where o: "owners [] (merged_events ops marks) = (ps, ms)" by fastforce
  have ns: "ns = tree_store ?ops ps ms" using tree_built [OF o] assms(1) by simp
  have len: "length ps = length ?ops" using owners_ok [OF o] by (simp add: merged_ops)
  have event: "on_event (ns ! i) = Some (?ops ! (i - 1))" "on_parent (ns ! i) = Some (ps ! (i - 1))"
    if "0 < i" "i < length ns" for i using that by (auto simp: ns tree_node_def)
  show "on_event (ns ! 0) = None" by (simp add: ns tree_node_def)
  show "0 < i \<Longrightarrow> i < length ns \<Longrightarrow> on_event (ns ! i) \<noteq> None \<and> on_parent (ns ! i) \<noteq> None"
    using event by simp
  show "0 < i \<Longrightarrow> i \<le> j \<Longrightarrow> j < length ns \<Longrightarrow> start_time ns i \<le> start_time ns j"
    using sorted_nth_mono [of "map oe_ts ?ops" "i - 1" "j - 1"] event [of i] event [of j] len
    by (simp add: start_time_def ns)
  assume j: "j < length ns" "on_parent (ns ! j) = Some p" "p < k" "k < j"
  then have p: "p = owner (map oe_end (take (j - 1) ?ops)) (oe_ts (?ops ! (j - 1)))"
    using event [of j] owners_nth [OF o, of "j - 1"] len by (simp add: merged_ops ns)
  have "map oe_end (take (j - 1) ?ops) ! (k - 1) < oe_ts (?ops ! (j - 1))"
    by (rule owner_above) (use j p len in \<open>auto simp: ns\<close>)
  then show "end_time ns k < start_time ns j"
    using j event [of j] event [of k] len by (auto simp: end_time_def start_time_def ns)
qed

text \<open>
  A search upwards from a node for the first operation that is not over finds the latest one in the
  whole tree up to that node.
\<close>

locale timed_forest = op_forest ns for ns :: op_store +
  assumes root_event: "on_event (ns ! 0) = None"
    and inner: "0 < i \<Longrightarrow> i < length ns \<Longrightarrow> on_event (ns ! i) \<noteq> None \<and> on_parent (ns ! i) \<noteq> None"
    and starts: "0 < i \<Longrightarrow> i \<le> j \<Longrightarrow> j < length ns \<Longrightarrow> start_time ns i \<le> start_time ns j"
    and between: "j < length ns \<Longrightarrow> on_parent (ns ! j) = Some p \<Longrightarrow> p < k \<Longrightarrow> k < j \<Longrightarrow> end_time ns k < start_time ns j"

interpretation built: op_forest "the (build_tree ops marks)" for ops marks
proof
  fix i p
  assume "i < length (the (build_tree ops marks))" "on_parent (the (build_tree ops marks) ! i) = Some p"
  moreover obtain ns where "build_tree ops marks = Some ns"
    using tree_built [of ops marks] by (cases "owners [] (merged_events ops marks)") blast
  ultimately show "p < i" using built_parents by simp
qed

interpretation timed: timed_forest "the (build_tree ops marks)" for ops marks
proof -
  obtain ns where ns: "build_tree ops marks = Some ns"
    using tree_built [of ops marks] by (cases "owners [] (merged_events ops marks)") blast
  show "timed_forest (the (build_tree ops marks))"
    using built.op_forest_axioms [of ops marks] built_timed [OF ns]
    unfolding timed_forest_def timed_forest_axioms_def ns option.sel by blast
qed

section \<open>Searching\<close>

lemma child_search_ok:
  assumes "\<And>a b. left \<le> a \<Longrightarrow> a \<le> b \<Longrightarrow> b \<le> right \<Longrightarrow> starts a \<le> starts b" and "left \<le> right"
  shows "left \<le> child_search starts ts left right \<and> child_search starts ts left right \<le> right
    \<and> (child_search starts ts left right = left \<or> starts (child_search starts ts left right) \<le> ts)
    \<and> (\<forall>j. child_search starts ts left right < j \<longrightarrow> j \<le> right \<longrightarrow> ts < starts j)"
  using assms
proof (induction starts ts left right rule: child_search.induct)
  case (1 starts ts left right)
  show ?case
  proof (cases "right > left")
    case False
    then have "child_search starts ts left right = left" by (simp add: child_search.simps [of starts ts left right])
    then show ?thesis using 1(4) False by simp
  next
    case True
    let ?mid = "left + (right - left + 1) div 2"
    have mid: "left < ?mid" "?mid \<le> right" using True by auto
    show ?thesis
    proof (cases "starts ?mid \<le> ts")
      case le: True
      have eq: "child_search starts ts left right = child_search starts ts ?mid right"
        using True le by (simp add: child_search.simps [of starts ts left right] Let_def)
      have IH: "?mid \<le> child_search starts ts ?mid right \<and> child_search starts ts ?mid right \<le> right
          \<and> (child_search starts ts ?mid right = ?mid \<or> starts (child_search starts ts ?mid right) \<le> ts)
          \<and> (\<forall>j. child_search starts ts ?mid right < j \<longrightarrow> j \<le> right \<longrightarrow> ts < starts j)"
      proof (rule 1(1) [OF True refl le])
        show "starts a \<le> starts b" if "?mid \<le> a" "a \<le> b" "b \<le> right" for a b
          using 1(3) [OF _ that(2,3)] that(1) mid by linarith
        show "?mid \<le> right" by (rule mid(2))
      qed
      show ?thesis
        unfolding eq
      proof (intro conjI)
        show "left \<le> child_search starts ts ?mid right" using IH mid by linarith
        show "child_search starts ts ?mid right = left \<or> starts (child_search starts ts ?mid right) \<le> ts"
          using IH le by (metis (no_types))
      qed (use IH in blast)+
    next
      case gt: False
      have eq: "child_search starts ts left right = child_search starts ts left (?mid - 1)"
        using True gt by (simp add: child_search.simps [of starts ts left right] Let_def)
      have IH: "left \<le> child_search starts ts left (?mid - 1) \<and> child_search starts ts left (?mid - 1) \<le> ?mid - 1
          \<and> (child_search starts ts left (?mid - 1) = left \<or> starts (child_search starts ts left (?mid - 1)) \<le> ts)
          \<and> (\<forall>j. child_search starts ts left (?mid - 1) < j \<longrightarrow> j \<le> ?mid - 1 \<longrightarrow> ts < starts j)"
      proof (rule 1(2) [OF True refl gt])
        show "starts a \<le> starts b" if "left \<le> a" "a \<le> b" "b \<le> ?mid - 1" for a b
          using 1(3) [OF that(1,2)] that(3) mid by linarith
        show "left \<le> ?mid - 1" using mid by linarith
      qed
      have above: "ts < starts j" if "?mid \<le> j" "j \<le> right" for j
        using 1(3) [OF _ that] mid gt by linarith
      show ?thesis
        unfolding eq
      proof (intro conjI allI impI)
        show "child_search starts ts left (?mid - 1) \<le> right" using IH mid by linarith
        show "ts < starts j" if "child_search starts ts left (?mid - 1) < j" "j \<le> right" for j
        proof (cases "?mid \<le> j")
          case False
          then have "j \<le> ?mid - 1" using mid by linarith
          then show ?thesis using IH that(1) by blast
        qed (use above that(2) in blast)
      qed (use IH in blast)+
    qed
  qed
qed

lemma filter_prefix_length:
  assumes "k < length xs" and "\<And>j. j \<le> k \<Longrightarrow> P (xs ! j)" and "\<And>j. k < j \<Longrightarrow> j < length xs \<Longrightarrow> \<not> P (xs ! j)"
  shows "length (filter P xs) = Suc k"
proof -
  have "length (filter P xs) = card {i. i < length xs \<and> P (xs ! i)}" by (rule length_filter_conv_card)
  also have "{i. i < length xs \<and> P (xs ! i)} = {.. k}"
  proof (rule set_eqI)
    fix i
    show "i \<in> {i. i < length xs \<and> P (xs ! i)} \<longleftrightarrow> i \<in> {.. k}"
      using assms(1) assms(2) [of i] assms(3) [of i] by (cases "i \<le> k") auto
  qed
  finally show ?thesis by simp
qed

lemma match_child_ok:
  assumes cs: "cs = on_children (ns ! i)" "cs \<noteq> []" and sorted: "sorted (map (start_time ns) cs)"
  shows "match_child_node ns i ts =
    (let c = cs ! (length (filter (\<lambda>c. start_time ns c \<le> ts) cs) - 1) in if ts < end_time ns c then Some c else None)"
proof -
  let ?s = "\<lambda>k. start_time ns (cs ! k)"
  let ?k = "child_search ?s ts 0 (length cs - 1)"
  have mono: "?s a \<le> ?s b" if "a \<le> b" "b < length cs" for a b
    using sorted_nth_mono [OF sorted that(1)] that by simp
  have len: "length cs - 1 < length cs" using cs(2) by simp
  have m': "?s a \<le> ?s b" if "a \<le> b" "b \<le> length cs - 1" for a b
    using that len by (intro mono) simp_all
  have c: "?k \<le> length cs - 1 \<and> (?k = 0 \<or> ?s ?k \<le> ts) \<and> (\<forall>j. ?k < j \<longrightarrow> j \<le> length cs - 1 \<longrightarrow> ts < ?s j)"
    using child_search_ok [of 0 "length cs - 1" ?s ts] m' by simp
  have k: "?k < length cs" "?k = 0 \<or> ?s ?k \<le> ts" using c len by linarith+
  have above: "ts < ?s j" if "?k < j" "j < length cs" for j
  proof -
    have "j \<le> length cs - 1" using that(2) by simp
    then show ?thesis using c that(1) by blast
  qed
  have "length (filter (\<lambda>c. start_time ns c \<le> ts) cs) - 1 = ?k"
  proof (cases "?s ?k \<le> ts")
    case True
    have "length (filter (\<lambda>c. start_time ns c \<le> ts) cs) = Suc ?k"
    proof (rule filter_prefix_length [OF k(1)])
      show "start_time ns (cs ! j) \<le> ts" if "j \<le> ?k" for j using mono [OF that k(1)] True by linarith
      show "\<not> start_time ns (cs ! j) \<le> ts" if "?k < j" "j < length cs" for j using above [OF that] by simp
    qed
    then show ?thesis by simp
  next
    case False
    then have z: "?k = 0" using k(2) by blast
    have "ts < ?s j" if "j < length cs" for j using above [of j] False z that by (cases "j = 0") auto
    then have "filter (\<lambda>c. start_time ns c \<le> ts) cs = []"
      by (auto simp: filter_empty_conv in_set_conv_nth not_le)
    then show ?thesis using z by simp
  qed
  then show ?thesis using cs by (simp add: match_child_node_def Let_def)
qed

lemma built_children:
  assumes "build_tree ops marks = Some ns" and "i < length ns"
  shows "sorted (map (start_time ns) (on_children (ns ! i)))"
    and "\<And>c. c \<in> set (on_children (ns ! i)) \<Longrightarrow> i < c \<and> c < length ns"
proof -
  obtain ps ms where o: "owners [] (merged_events ops marks) = (ps, ms)" by fastforce
  have ns: "ns = tree_store (sort_key oe_ts ops) ps ms" using tree_built [OF o] assms(1) by simp
  have len: "length ps = length ops" using owners_ok [OF o] by (simp add: merged_ops)
  have i: "i \<le> length ps" using assms(2) by (simp add: ns)
  let ?cs = "filter (\<lambda>c. ps ! (c - 1) = i) [1 ..< Suc (length ps)]"
  have cs: "on_children (ns ! i) = ?cs" using i by (simp add: ns tree_node_def del: upt_Suc)
  have st: "start_time ns c = oe_ts (sort_key oe_ts ops ! (c - 1))" if "0 < c" "c \<le> length ps" for c
    using that by (simp add: ns start_time_def tree_node_def)
  have "sorted_wrt (\<lambda>a b. start_time ns a \<le> start_time ns b) [1 ..< Suc (length ps)]"
    unfolding sorted_wrt_iff_nth_less
  proof (intro allI impI)
    fix a b assume "a < b" "b < length [1 ..< Suc (length ps)]"
    then have ab: "a < b" "b < length ps" by (simp_all del: upt_Suc)
    have "map oe_ts (sort_key oe_ts ops) ! a \<le> map oe_ts (sort_key oe_ts ops) ! b"
      using ab len by (intro sorted_nth_mono) simp_all
    then show "start_time ns ([1 ..< Suc (length ps)] ! a) \<le> start_time ns ([1 ..< Suc (length ps)] ! b)"
      using ab len by (simp add: st del: upt_Suc)
  qed
  then have "sorted_wrt (\<lambda>a b. start_time ns a \<le> start_time ns b) ?cs" by (rule sorted_wrt_filter)
  then show "sorted (map (start_time ns) (on_children (ns ! i)))" by (simp add: cs sorted_map del: upt_Suc)
  show "i < c \<and> c < length ns" if "c \<in> set (on_children (ns ! i))" for c
  proof -
    have c: "c \<in> set ?cs" using that unfolding cs .
    then have "0 < c" "c \<le> length ps" "ps ! (c - 1) = i" by auto
    moreover from this have "ps ! (c - 1) \<le> c - 1" using owners_bound [OF o, of "c - 1"] by simp
    ultimately show ?thesis by (simp add: ns)
  qed
qed

lemma pred_filter_less:
  assumes "xs \<noteq> []"
  shows "length (filter P xs) - 1 < length xs"
proof -
  have "length (filter P xs) \<le> length xs" "0 < length xs" using assms by simp_all
  then show ?thesis by linarith
qed

lemma self_loop_returns:
  assumes "build_tree ops marks = Some ns" and "i < length ns"
  shows "\<exists>j. self_loop ts i ns = Some j"
  using assms(2)
proof (induction "length ns - i" arbitrary: i rule: less_induct)
  case less
  show ?case
  proof (cases "match_child_node ns i ts")
    case None
    then show ?thesis by (subst self_loop.simps) simp
  next
    case (Some c)
    have "c \<in> set (on_children (ns ! i))"
    proof -
      have cs: "on_children (ns ! i) \<noteq> []" using Some by (auto simp: match_child_node_def Let_def split: if_splits)
      have "length (filter (\<lambda>c. start_time ns c \<le> ts) (on_children (ns ! i))) - 1 < length (on_children (ns ! i))"
        by (rule pred_filter_less [OF cs])
      then show ?thesis
        using Some match_child_ok [OF refl cs built_children(1) [OF assms(1) less.prems], of ts]
        by (auto simp: Let_def split: if_splits)
    qed
    then have "i < c" "c < length ns" using built_children(2) [OF assms(1) less.prems] by blast+
    then obtain j where "self_loop ts c ns = Some j" using less.hyps [of c] by fastforce
    then show ?thesis using Some by (subst self_loop.simps) simp
  qed
qed

text \<open>
  In a tree the builder made, the binary search among the children of a node finds the last child
  that does not start after the given time, provided it ends after it; when every child starts later
  the first child is taken if it ends after the time.  The descent to the innermost operation returns.
\<close>

lemma search_exact:
  assumes "build_tree ops marks = Some ns" and "i < length ns" and "on_children (ns ! i) = c # cs"
  shows "match_child_node ns i ts =
      (let k = length (filter (\<lambda>c. start_time ns c \<le> ts) (c # cs)) - 1
       in if ts < end_time ns ((c # cs) ! k) then Some ((c # cs) ! k) else None)
    \<and> (\<exists>r. match_self_torch_op ts i ns = Some r)"
proof -
  have "c # cs \<noteq> []" by simp
  from match_child_ok [OF assms(3) [symmetric] this, of ts] built_children(1) [OF assms(1,2)] assms(3)
  have m: "match_child_node ns i ts =
      (let k = length (filter (\<lambda>c. start_time ns c \<le> ts) (c # cs)) - 1
       in if ts < end_time ns ((c # cs) ! k) then Some ((c # cs) ! k) else None)" by (simp add: Let_def)
  have "\<exists>r. match_self_torch_op ts i ns = Some r"
  proof (cases "match_child_node ns i ts")
    case (Some d)
    let ?k = "length (filter (\<lambda>c. start_time ns c \<le> ts) (c # cs)) - 1"
    have "?k < length (c # cs)" by (rule pred_filter_less) simp
    moreover have "d = (c # cs) ! ?k" using m Some by (auto simp: Let_def split: if_splits)
    ultimately have "d \<in> set (on_children (ns ! i))" unfolding assms(3) by (metis nth_mem)
    then obtain j where "self_loop ts d ns = Some j"
      using self_loop_returns [OF assms(1)] built_children(2) [OF assms(1,2)] by blast
    then show ?thesis using Some by (simp add: match_self_torch_op_def)
  qed (simp add: match_self_torch_op_def)
  with m show ?thesis by blast
qed

definition sample_ops :: "op_event list" where
  "sample_ops = [\<lparr>oe_ts = 10, oe_end = 30, oe_name = ''aten::add'', oe_tid = 1, oe_pid = 1\<rparr>,
                 \<lparr>oe_ts = 15, oe_end = 20, oe_name = ''aten::mul'', oe_tid = 1, oe_pid = 1\<rparr>,
                 \<lparr>oe_ts = 40, oe_end = 50, oe_name = ''aten::sub'', oe_tid = 1, oe_pid = 1\<rparr>]"

definition sample_tree :: op_store where
  "sample_tree = the (build_tree sample_ops [(16, 7), (45, 8)])"

lemma sample_tree_built:
  "build_tree sample_ops [(16, 7), (45, 8)] = Some sample_tree"
  "length sample_tree = 4" "on_children (sample_tree ! 0) = [1, 3]"
proof -
  show "build_tree sample_ops [(16, 7), (45, 8)] = Some sample_tree"
    using tree_built [of sample_ops "[(16, 7), (45, 8)]"]
    by (cases "owners [] (merged_events sample_ops [(16, 7), (45, 8)])") (simp add: sample_tree_def)
  have t: "sample_tree = (case owners [] (merged_events sample_ops [(16, 7), (45, 8)]) of (ps, ms) \<Rightarrow>
      tree_store (sort_key oe_ts sample_ops) ps ms)"
    using tree_built [of sample_ops "[(16, 7), (45, 8)]"]
    by (cases "owners [] (merged_events sample_ops [(16, 7), (45, 8)])") (simp add: sample_tree_def)
  show "length sample_tree = 4" "on_children (sample_tree ! 0) = [1, 3]" unfolding t by code_simp+
qed

lemma search_exact_witness: "\<exists>r. match_self_torch_op 17 0 sample_tree = Some r"
proof -
  have "0 < length sample_tree" using sample_tree_built(2) by simp
  from search_exact [OF sample_tree_built(1) this sample_tree_built(3), of 17] show ?thesis by blast
qed

text \<open>
  A time before every recorded operation is attributed to the first one: the search never
  compares it with a start time, so it returns an operation that was not running.
\<close>

lemma early_time_matches:
  assumes "build_tree ops marks = Some ns" and "on_children (ns ! 0) = c # cs"
    and "\<forall>d \<in> set (c # cs). ts < start_time ns d" and "ts < end_time ns c"
  shows "match_child_node ns 0 ts = Some c \<and> (\<exists>i. match_self_torch_op ts 0 ns = Some (Some i))"
proof -
  obtain ps ms where "owners [] (merged_events ops marks) = (ps, ms)" by fastforce
  from tree_built [OF this] assms(1) have l: "0 < length ns" by auto
  have "c # cs \<noteq> []" by simp
  from match_child_ok [OF assms(2) [symmetric] this, of ts] built_children(1) [OF assms(1) l] assms(2-)
  have m: "match_child_node ns 0 ts = Some c" by (simp add: Let_def filter_empty_conv not_le)
  have "c < length ns" using built_children(2) [OF assms(1) l] assms(2) by simp
  then obtain j where "self_loop ts c ns = Some j" using self_loop_returns [OF assms(1)] by blast
  then show ?thesis using m by (simp add: match_self_torch_op_def)
qed

lemma early_time_matches_witness: "\<exists>i. match_self_torch_op 3 0 sample_tree = Some (Some i)"
proof -
  have t: "sample_tree = (case owners [] (merged_events sample_ops [(16, 7), (45, 8)]) of (ps, ms) \<Rightarrow>
      tree_store (sort_key oe_ts sample_ops) ps ms)"
    using sample_tree_built(1) tree_built by (cases "owners [] (merged_events sample_ops [(16, 7), (45, 8)])") fastforce
  have "start_time sample_tree 1 = 10" "start_time sample_tree 3 = 40" "end_time sample_tree 1 = 30" unfolding t by code_simp+
  then show ?thesis using early_time_matches [OF sample_tree_built(1,3), of 3] by simp
qed

end
