(* ===== verification/Trace_Event.thy ===== *)
theory Trace_Event
  imports Trace_Codec
begin

text \<open>
  The events of the trace view, \<open>prof_common_func/_trace_event_manager.py\<close>.

  The dictionaries the code builds become constructors, by phase.  Times are texts in microseconds;
  durations, which the code divides by 1000 as floating-point numbers, are kept in nanoseconds.
\<close>

section \<open>Events\<close>

datatype arg = AInt int | AStr string | ANone

type_synonym args = "(string \<times> arg) list"

record timed =
  td_name :: string
  td_pid :: int
  td_tid :: int
  td_ts :: int
  td_dur :: int
  td_args :: args

datatype trace_event =
    XEvent (ev_name: string) (ev_pid: int) (ev_tid: int) (ev_time: string) (ev_dur: int) (ev_cat: string) (ev_args: args)
  | MEvent (ev_name: string) (ev_pid: int) (ev_tid: int) (ev_args: args)
  | Flow (ev_phase: char) (ev_name: string) (ev_flow: int) (ev_pid: int) (ev_tid: int) (ev_time: string) (ev_cat: string)

definition us_str :: "int \<Rightarrow> string" where
  "us_str ns = (case convert_ns2us_str (NInt ns) '''' of Inr s \<Rightarrow> s | Inl _ \<Rightarrow> '''')"

definition FWK_SORT_INDEX :: int where "FWK_SORT_INDEX = 0"
definition GC_SORT_INDEX :: int where "GC_SORT_INDEX = 1"
definition PID_OFFSET :: nat where "PID_OFFSET = 10"
definition INDEX_OFFSET :: nat where "INDEX_OFFSET = 5"

definition create_x_event :: "timed \<Rightarrow> string \<Rightarrow> trace_event" where
  "create_x_event e cat = XEvent (td_name e) (td_pid e) (td_tid e) (us_str (td_ts e)) (td_dur e) cat (td_args e)"

definition thread_events :: "int \<Rightarrow> (int \<times> bool) list \<Rightarrow> int \<times> bool \<Rightarrow> trace_event list" where
  "thread_events pid tid_dict entry =
     (case entry of (tid, is_dequeue) \<Rightarrow>
        [MEvent ''thread_name'' pid tid [(''name'', AStr (''Thread '' @ py_str_int tid))],
         MEvent ''thread_sort_index'' pid tid
           [(''sort_index'', AInt (if is_dequeue then Max (set (map fst tid_dict)) + 1 else tid))]])"

definition create_m_event :: "int \<Rightarrow> (int \<times> bool) list \<Rightarrow> trace_event list" where
  "create_m_event pid tid_dict =
     [MEvent ''process_name'' pid 0 [(''name'', AStr ''Python'')],
      MEvent ''process_labels'' pid 0 [(''labels'', AStr ''CPU'')],
      MEvent ''process_sort_index'' pid 0 [(''sort_index'', AInt FWK_SORT_INDEX)]]
     @ concat (map (thread_events pid tid_dict) tid_dict)"

definition create_torch_to_npu_flow :: "timed \<Rightarrow> timed \<Rightarrow> trace_event list" where
  "create_torch_to_npu_flow s e =
     [Flow CHR ''s'' ''torch_to_npu'' (td_ts e) (td_pid s) (td_tid s) (us_str (td_ts s)) ''async_npu'',
      Flow CHR ''f'' ''torch_to_npu'' (td_ts e) (td_pid e) (td_tid e) (us_str (td_ts e)) ''async_npu'']"

definition create_task_queue_flow :: "char \<Rightarrow> int \<Rightarrow> timed \<Rightarrow> trace_event" where
  "create_task_queue_flow ph corr_id e =
     Flow ph ''enqueue_to_dequeue'' corr_id (td_pid e) (td_tid e) (us_str (td_ts e)) ''async_task_queue''"

section \<open>Forward and backward passes\<close>

record 'a fwd_node =
  fn_start :: "'a option"
  fn_end :: "'a option"

record fwd_point =
  fp_pid :: int
  fp_tid :: int
  fp_ts :: int

definition fwd_flow :: "int \<times> fwd_point fwd_node \<Rightarrow> trace_event list" where
  "fwd_flow entry =
     (case entry of (fwd_id, node) \<Rightarrow>
        (case (fn_start node, fn_end node) of
           (Some s, Some e) \<Rightarrow>
             (if fp_tid s = fp_tid e then []
              else [Flow CHR ''s'' ''fwdbwd'' fwd_id (fp_pid s) (fp_tid s) (us_str (fp_ts s)) ''fwdbwd'',
                    Flow CHR ''f'' ''fwdbwd'' fwd_id (fp_pid e) (fp_tid e) (us_str (fp_ts e)) ''fwdbwd''])
         | _ \<Rightarrow> []))"

definition create_fwd_flow :: "(int \<times> fwd_point fwd_node) list \<Rightarrow> trace_event list" where
  "create_fwd_flow d = concat (map fwd_flow d)"

section \<open>Garbage collection\<close>

definition create_gc_m_event :: "int \<Rightarrow> int \<Rightarrow> trace_event list" where
  "create_gc_m_event pid tid =
     [MEvent ''process_name'' pid 0 [(''name'', AStr ''Python GC'')],
      MEvent ''process_labels'' pid 0 [(''labels'', AStr ''CPU'')],
      MEvent ''process_sort_index'' pid 0 [(''sort_index'', AInt GC_SORT_INDEX)],
      MEvent ''thread_name'' pid tid [(''name'', AStr ''Python GC'')],
      MEvent ''thread_sort_index'' pid tid [(''sort_index'', AInt tid)]]"

definition get_pid_format :: "int \<Rightarrow> int \<Rightarrow> int \<Rightarrow> int" where
  "get_pid_format pid sort_index device_id =
     ((push_bit PID_OFFSET pid OR push_bit INDEX_OFFSET sort_index) OR device_id)"

text \<open>
  A formatted process number tells process, index and device apart as long as the latter two fit
  into their five bits; without a device the code passes -1, and every process gets the number -1.
\<close>

lemma pid_format_parts:
  assumes "0 \<le> s" "s < 32" "0 \<le> d" "d < 32"
  shows "get_pid_format p s d = p * 1024 + s * 32 + d"
  using assms shift_or [of d 5 s] shift_or [of "s * 32 + d" 10 p]
  by (simp add: get_pid_format_def PID_OFFSET_def INDEX_OFFSET_def or.assoc)

lemma pid_format_no_device: "get_pid_format p s (-1) = -1"
  by (simp add: get_pid_format_def)

end
