(* ===== verification/Python_Trace.thy ===== *)
theory Python_Trace
  imports Trace_Event
begin

text \<open>
  The reconstruction of Python calls from the records of the tracer,
  \<open>torch_npu/profiler/analysis/prof_parse/_python_trace_parser.py\<close>.

  The replay stack is kept with its top first.  Frames are objects that are updated in place when
  they are popped and moved to the result at once, so the model passes values.
\<close>

section \<open>Records and frames\<close>

record call_bean =
  cb_start_ns :: int
  cb_tid :: int
  cb_pid :: int
  cb_key :: int
  cb_trace_tag :: int

datatype TraceTag = kPy_Call | kPy_Return | kC_Call | kC_Return

fun tag_value :: "TraceTag \<Rightarrow> int" where
  "tag_value kPy_Call = 0"
| "tag_value kPy_Return = 1"
| "tag_value kC_Call = 2"
| "tag_value kC_Return = 3"

datatype CallType = kPyCall | kPyModuleCall | kCCall

record PyTraceEvent =
  pe_start_time :: int
  pe_end_time :: int
  pe_base_name :: string
  pe_tid :: int
  pe_pid :: int
  pe_self_id :: int
  pe_parent_id :: "int option"
  pe_call_type :: CallType
  pe_module_id :: int
  pe_call_idx :: int
  pe_return_idx :: int
  pe_params :: "pyval option"

definition pe_name :: "PyTraceEvent \<Rightarrow> string" where
  "pe_name e =
     (if pe_call_type e = kPyModuleCall
      then ''nn.Module: '' @ pe_base_name e @ ''_'' @ py_str_int (pe_module_id e) else pe_base_name e)"

definition pe_dur :: "PyTraceEvent \<Rightarrow> int" where
  "pe_dur e = pe_end_time e - pe_start_time e"

record ReplayFrame =
  rf_event :: PyTraceEvent
  rf_id :: int
  rf_parent_id :: int

definition replay_frame ::
  "call_bean \<Rightarrow> string \<Rightarrow> int \<Rightarrow> CallType \<Rightarrow> int \<Rightarrow> int \<Rightarrow> int \<Rightarrow> pyval option \<Rightarrow> ReplayFrame" where
  "replay_frame b name event_idx ct module_id cur_id parent_id params =
     \<lparr>rf_event = \<lparr>pe_start_time = cb_start_ns b, pe_end_time = -1, pe_base_name = name, pe_tid = cb_tid b,
        pe_pid = cb_pid b, pe_self_id = cur_id, pe_parent_id = None, pe_call_type = ct, pe_module_id = module_id,
        pe_call_idx = event_idx, pe_return_idx = 0, pe_params = params\<rparr>,
      rf_id = cur_id, rf_parent_id = parent_id\<rparr>"

section \<open>Modules\<close>

definition MODULE_NAME_DELIMITER :: string where
  "MODULE_NAME_DELIMITER = ''######''"

record module_table =
  mt_counter :: "(string \<times> int) list"
  mt_uids :: "(string \<times> int) list"

text \<open>A name with more than one delimiter cannot be unpacked.\<close>

definition get_module_info_from_value :: "string \<Rightarrow> (module_table, string \<times> int) stm" where
  "get_module_info_from_value name m =
     (case split_str MODULE_NAME_DELIMITER name of
        [module_name, module_uid] \<Rightarrow>
          (case map_of (mt_uids m) module_uid of
             Some i \<Rightarrow> (Inr (module_name, i), m)
           | None \<Rightarrow>
               (let cur = (case map_of (mt_counter m) module_name of Some n \<Rightarrow> n | None \<Rightarrow> 0)
                in (Inr (module_name, cur),
                    m\<lparr>mt_uids := AList.update module_uid cur (mt_uids m),
                      mt_counter := AList.update module_name (cur + 1) (mt_counter m)\<rparr>)))
      | _ \<Rightarrow> (Inl ValueError, m))"

section \<open>The replay\<close>

record replay_env =
  re_hash_map :: "(int \<times> string) list"
  re_param_map :: "(int \<times> pyval) list"

record replay_state =
  rs_stack :: "ReplayFrame list"
  rs_result :: "ReplayFrame list"
  rs_modules :: module_table
  rs_event_idx :: int
  rs_max_end :: int

definition hash_name :: "replay_env \<Rightarrow> int \<Rightarrow> string" where
  "hash_name env key = (case map_of (re_hash_map env) key of Some s \<Rightarrow> s | None \<Rightarrow> py_str_int key)"

definition push_frame :: "ReplayFrame \<Rightarrow> replay_state \<Rightarrow> replay_state" where
  "push_frame f st = st\<lparr>rs_stack := f # rs_stack st\<rparr>"

definition pop_frame :: "int \<Rightarrow> replay_state \<Rightarrow> replay_state" where
  "pop_frame end_time st =
     (case rs_stack st of
        [] \<Rightarrow> st
      | f # fs \<Rightarrow>
          st\<lparr>rs_stack := fs,
             rs_result := rs_result st
               @ [f\<lparr>rf_event := (rf_event f)\<lparr>pe_end_time := end_time, pe_return_idx := rs_event_idx st\<rparr>\<rparr>]\<rparr>)"

definition on_call :: "replay_env \<Rightarrow> int \<Rightarrow> call_bean \<Rightarrow> (replay_state, unit) stm" where
  "on_call env id_counter b st =
     (let name = hash_name env (cb_key b);
          params = map_of (re_param_map env) (cb_key b);
          parent = (case rs_stack st of [] \<Rightarrow> 0 | f # _ \<Rightarrow> rf_id f)
      in if cb_trace_tag b = tag_value kPy_Call
         then (if str_in MODULE_NAME_DELIMITER name
               then (case get_module_info_from_value name (rs_modules st) of
                       (Inl e, ms) \<Rightarrow> (Inl e, st\<lparr>rs_modules := ms\<rparr>)
                     | (Inr (module_name, module_id), ms) \<Rightarrow>
                         (Inr (), push_frame (replay_frame b module_name (rs_event_idx st) kPyModuleCall module_id
                             id_counter parent params) (st\<lparr>rs_modules := ms\<rparr>)))
               else (Inr (), push_frame (replay_frame b name (rs_event_idx st) kPyCall 0 id_counter parent params) st))
         else if cb_trace_tag b = tag_value kC_Call
         then (Inr (), push_frame (replay_frame b name (rs_event_idx st) kCCall 0 id_counter parent params) st)
         else if cb_trace_tag b = tag_value kPy_Return \<or> cb_trace_tag b = tag_value kC_Return
         then (Inr (), pop_frame (cb_start_ns b) st)
         else (Inr (), st))"

definition replay_step :: "replay_env \<Rightarrow> int \<Rightarrow> call_bean \<Rightarrow> (replay_state, unit) stm" where
  "replay_step env id_counter b =
     sseq (on_call env id_counter b)
       (smod (\<lambda>st. st\<lparr>rs_event_idx := rs_event_idx st + 1, rs_max_end := max (rs_max_end st) (cb_start_ns b)\<rparr>))"

fun replay_loop :: "replay_env \<Rightarrow> int \<Rightarrow> call_bean list \<Rightarrow> (replay_state, unit) stm" where
  "replay_loop env k [] = sret ()"
| "replay_loop env k (b # bs) = sseq (replay_step env k b) (replay_loop env (k + 1) bs)"

text \<open>The calls that never returned end with the last record.\<close>

function close_loop :: "replay_state \<Rightarrow> replay_state" where
  "close_loop st =
     (if rs_stack st = [] then st
      else close_loop ((pop_frame (rs_max_end st) st)\<lparr>rs_event_idx := rs_event_idx st + 1\<rparr>))"
  by pat_completeness auto
termination
  by (relation "measure (\<lambda>st. length (rs_stack st))") (auto simp: pop_frame_def split: list.splits)

declare close_loop.simps [simp del]

text \<open>The parent of an event is looked up among the events; a later event with the same id wins.\<close>

definition set_parents :: "ReplayFrame list \<Rightarrow> PyTraceEvent list" where
  "set_parents rs =
     (let ids = fold (\<lambda>f. AList.update (rf_id f) (pe_self_id (rf_event f))) rs []
      in map (\<lambda>f. (rf_event f)\<lparr>pe_parent_id :=
                Some (case map_of ids (rf_parent_id f) of Some i \<Rightarrow> i | None \<Rightarrow> 0)\<rparr>) rs)"

definition replay_start :: replay_state where
  "replay_start = \<lparr>rs_stack = [], rs_result = [], rs_modules = \<lparr>mt_counter = [], mt_uids = []\<rparr>,
     rs_event_idx = 0, rs_max_end = 0\<rparr>"

definition replay_stack :: "replay_env \<Rightarrow> call_bean list \<Rightarrow> PyTraceEvent list res" where
  "replay_stack env beans =
     (case replay_loop env 0 (sort_key cb_start_ns beans) replay_start of
        (Inl e, _) \<Rightarrow> Inl e
      | (Inr _, st) \<Rightarrow> Inr (set_parents (rs_result (close_loop st))))"

section \<open>All threads\<close>

definition group_trace_data_by_tid :: "call_bean list \<Rightarrow> (int \<times> call_bean list) list" where
  "group_trace_data_by_tid beans = group_by cb_tid beans"

fun replay_threads :: "replay_env \<Rightarrow> call_bean list list \<Rightarrow> PyTraceEvent list res" where
  "replay_threads env [] = Inr []"
| "replay_threads env (bs # bss) =
     rbind (replay_stack env bs) (\<lambda>es. rbind (replay_threads env bss) (\<lambda>rest. Inr (es @ rest)))"

definition gen_python_trace_event_data :: "replay_env \<Rightarrow> call_bean list \<Rightarrow> PyTraceEvent list res" where
  "gen_python_trace_event_data env beans = replay_threads env (map snd (group_trace_data_by_tid beans))"

text \<open>A dictionary built from key and value pairs: a later pair wins.\<close>

definition gen_map :: "(int \<times> 'a) list \<Rightarrow> (int \<times> 'a) list" where
  "gen_map kvs = fold (\<lambda>(k, v). AList.update k v) kvs []"

record PythonTraceParser =
  pp_hash_data :: "(int \<times> string) list"
  pp_call_data :: "call_bean list"
  pp_param_data :: "(int \<times> pyval) list option"

definition plain_env :: "PythonTraceParser \<Rightarrow> replay_env" where
  "plain_env p = \<lparr>re_hash_map = gen_map (pp_hash_data p), re_param_map = []\<rparr>"

definition get_pycall_data :: "PythonTraceParser \<Rightarrow> PyTraceEvent list res" where
  "get_pycall_data p =
     gen_python_trace_event_data
       ((plain_env p)\<lparr>re_param_map := (case pp_param_data p of Some kvs \<Rightarrow> gen_map kvs | None \<Rightarrow> [])\<rparr>) (pp_call_data p)"

section \<open>Rows and events\<close>

definition pe_args :: "PyTraceEvent \<Rightarrow> args" where
  "pe_args e =
     [(''Python id'', AInt (pe_self_id e)),
      (''Python parent id'', case pe_parent_id e of Some i \<Rightarrow> AInt i | None \<Rightarrow> ANone)]
     @ (if pe_call_type e = kPyModuleCall then [(''Python module id'', AInt (pe_module_id e))] else [])"

definition pe_timed :: "PyTraceEvent \<Rightarrow> timed" where
  "pe_timed e = \<lparr>td_name = pe_name e, td_pid = pe_pid e, td_tid = pe_tid e, td_ts = pe_start_time e,
     td_dur = pe_dur e, td_args = pe_args e\<rparr>"

text \<open>Threads that are new to the thread table are entered as threads that do not dequeue.\<close>

definition add_tid :: "int \<Rightarrow> (int \<times> bool) list \<Rightarrow> (int \<times> bool) list" where
  "add_tid tid d = (if tid \<in> set (map fst d) then d else AList.update tid False d)"

definition get_python_trace_data ::
  "PythonTraceParser \<Rightarrow> (int \<times> bool) list \<Rightarrow> (trace_event list \<times> (int \<times> bool) list) res" where
  "get_python_trace_data p tid_dict =
     rbind (gen_python_trace_event_data (plain_env p) (pp_call_data p)) (\<lambda>es.
       Inr (map (\<lambda>e. create_x_event (pe_timed e) ''python_function'') es, fold (add_tid \<circ> pe_tid) es tid_dict))"

datatype connection = NoConnection | ConnId int | ConnList "int list"

record api_row =
  ar_start :: int
  ar_end :: int
  ar_global_tid :: int
  ar_connection :: connection
  ar_name :: int
  ar_seq :: "int option"
  ar_fwd_tid :: "int option"
  ar_dtypes :: "int option"
  ar_shapes :: "int option"
  ar_callchain :: "int option"
  ar_type :: int

definition TORCH_OP :: int where "TORCH_OP = 50001"
definition TASK_QUEUE :: int where "TASK_QUEUE = 50002"
definition PYTHON_TRACE :: int where "PYTHON_TRACE = 50003"

definition plain_row :: "int \<Rightarrow> int \<Rightarrow> int \<Rightarrow> connection \<Rightarrow> int \<Rightarrow> int \<Rightarrow> api_row" where
  "plain_row start end tid conn name ty =
     \<lparr>ar_start = start, ar_end = end, ar_global_tid = tid, ar_connection = conn, ar_name = name, ar_seq = None,
      ar_fwd_tid = None, ar_dtypes = None, ar_shapes = None, ar_callchain = None, ar_type = ty\<rparr>"

definition trace_api_row :: "PyTraceEvent \<Rightarrow> Str2IdManager \<Rightarrow> api_row \<times> Str2IdManager" where
  "trace_api_row e sm =
     (case get_id_from_str (pe_name e) sm of (i, sm1) \<Rightarrow>
        (plain_row (pe_start_time e) (pe_start_time e + pe_dur e) (contact_2num (pe_pid e) (pe_tid e)) NoConnection i
           PYTHON_TRACE, sm1))"

definition get_python_trace_api_data ::
  "PythonTraceParser \<Rightarrow> Str2IdManager \<Rightarrow> (api_row list \<times> Str2IdManager) res" where
  "get_python_trace_api_data p sm =
     rbind (gen_python_trace_event_data (plain_env p) (pp_call_data p)) (\<lambda>es. Inr (run_rows trace_api_row es sm))"

end
