(* ===== verification/Python_Trace_Props.thy ===== *)
theory Python_Trace_Props
  imports Python_Trace
begin

text \<open>
  The replayed calls are well nested: every call record yields one event, two events are nested or
  apart, and the parent of an event encloses it.
\<close>

section \<open>The invariant of the replay\<close>

abbreviation call_idx :: "ReplayFrame \<Rightarrow> int" where "call_idx f \<equiv> pe_call_idx (rf_event f)"
abbreviation ret_idx :: "ReplayFrame \<Rightarrow> int" where "ret_idx f \<equiv> pe_return_idx (rf_event f)"
abbreviation f_start :: "ReplayFrame \<Rightarrow> int" where "f_start f \<equiv> pe_start_time (rf_event f)"
abbreviation f_end :: "ReplayFrame \<Rightarrow> int" where "f_end f \<equiv> pe_end_time (rf_event f)"

definition frame_ok :: "ReplayFrame \<Rightarrow> bool" where
  "frame_ok f \<longleftrightarrow> rf_id f = call_idx f \<and> pe_self_id (rf_event f) = call_idx f"

text \<open>Each frame of the stack lies above the frame it was called from.\<close>

fun stack_ok :: "ReplayFrame list \<Rightarrow> bool" where
  "stack_ok [] = True"
| "stack_ok [f] = (frame_ok f \<and> rf_parent_id f = 0)"
| "stack_ok (f # g # fs) =
     (frame_ok f \<and> rf_parent_id f = rf_id g \<and> call_idx g < call_idx f \<and> f_start g \<le> f_start f \<and> stack_ok (g # fs))"

definition encloses :: "ReplayFrame \<Rightarrow> ReplayFrame \<Rightarrow> bool" where
  "encloses g f \<longleftrightarrow> call_idx g < call_idx f \<and> ret_idx f < ret_idx g \<and> f_start g \<le> f_start f \<and> f_end f \<le> f_end g"

definition below :: "ReplayFrame \<Rightarrow> ReplayFrame \<Rightarrow> bool" where
  "below g f \<longleftrightarrow> call_idx g < call_idx f \<and> f_start g \<le> f_start f"

definition done_ok :: "int \<Rightarrow> int \<Rightarrow> ReplayFrame \<Rightarrow> bool" where
  "done_ok k t f \<longleftrightarrow> frame_ok f \<and> call_idx f < ret_idx f \<and> ret_idx f < k \<and> f_start f \<le> f_end f \<and> f_end f \<le> t"

text \<open>The frames around a frame, and its parent: the innermost of them, or 0 when there is none.\<close>

definition around :: "ReplayFrame list \<Rightarrow> ReplayFrame list \<Rightarrow> ReplayFrame \<Rightarrow> ReplayFrame set" where
  "around stk res f = {g \<in> set stk. below g f} \<union> {g \<in> set res. encloses g f}"

definition parent_known :: "ReplayFrame list \<Rightarrow> ReplayFrame list \<Rightarrow> ReplayFrame \<Rightarrow> bool" where
  "parent_known stk res f \<longleftrightarrow>
     (if around stk res f = {} then rf_parent_id f = 0
      else \<exists>g \<in> around stk res f. rf_id g = rf_parent_id f \<and> (\<forall>h \<in> around stk res f. call_idx h \<le> call_idx g))"

lemma parent_image:
  assumes "around stk' res' f = r ` around stk res f"
    and "\<And>h. rf_id (r h) = rf_id h" and "\<And>h. call_idx (r h) = call_idx h"
  shows "parent_known stk' res' f = parent_known stk res f"
  using assms by (auto simp: parent_known_def)

definition before :: "ReplayFrame \<Rightarrow> ReplayFrame \<Rightarrow> bool" where
  "before f g \<longleftrightarrow> ret_idx f < call_idx g \<and> f_end f \<le> f_start g"

definition apart :: "ReplayFrame \<Rightarrow> ReplayFrame \<Rightarrow> bool" where
  "apart f g \<longleftrightarrow> call_idx f < call_idx g \<and> (before f g \<or> encloses f g)
     \<or> call_idx g < call_idx f \<and> (before g f \<or> encloses g f)"

lemma apart_sym: "apart f g \<Longrightarrow> apart g f"
  by (auto simp: apart_def)

definition replay_inv :: "int \<Rightarrow> int \<Rightarrow> ReplayFrame list \<Rightarrow> ReplayFrame list \<Rightarrow> bool" where
  "replay_inv k t stk res \<longleftrightarrow> stack_ok stk \<and> (\<forall>s \<in> set stk. call_idx s < k \<and> f_start s \<le> t)
     \<and> (\<forall>f \<in> set res. done_ok k t f \<and> parent_known stk res f)
     \<and> (\<forall>f \<in> set res. \<forall>s \<in> set stk. below s f \<or> before f s)
     \<and> pairwise apart (set res) \<and> distinct (map call_idx res)"

lemma replay_invD:
  assumes "replay_inv k t stk res"
  shows "stack_ok stk" and "s \<in> set stk \<Longrightarrow> call_idx s < k \<and> f_start s \<le> t"
    and "f \<in> set res \<Longrightarrow> done_ok k t f" and "f \<in> set res \<Longrightarrow> parent_known stk res f"
    and "f \<in> set res \<Longrightarrow> s \<in> set stk \<Longrightarrow> below s f \<or> before f s"
    and "pairwise apart (set res)" and "distinct (map call_idx res)"
  using assms by (auto simp: replay_inv_def)

lemma stack_top:
  "stack_ok (f # fs) \<Longrightarrow> frame_ok f \<and> stack_ok fs \<and> (\<forall>g \<in> set fs. call_idx g < call_idx f \<and> f_start g \<le> f_start f)
     \<and> rf_parent_id f = (case fs of [] \<Rightarrow> 0 | g # _ \<Rightarrow> rf_id g)"
proof (induction fs arbitrary: f)
  case (Cons g gs)
  from Cons.prems have g: "stack_ok (g # gs)" "call_idx g < call_idx f" "f_start g \<le> f_start f" by auto
  from Cons.IH [OF g(1)] have "\<forall>h \<in> set gs. call_idx h < call_idx g \<and> f_start h \<le> f_start g" by blast
  then show ?case using Cons.prems g by force
qed simp

lemma inv_later:
  assumes "replay_inv k t stk res" and "t \<le> t'"
  shows "replay_inv (k + 1) t' stk res"
  using assms unfolding replay_inv_def done_ok_def by force

lemma inv_push:
  assumes inv: "replay_inv k t stk res" and f: "frame_ok f" "call_idx f = k" "f_start f = t'" and "t \<le> t'"
    and p: "rf_parent_id f = (case stk of [] \<Rightarrow> 0 | g # _ \<Rightarrow> rf_id g)"
  shows "replay_inv (k + 1) t' (f # stk) res"
  unfolding replay_inv_def
proof (intro conjI ballI)
  note d = replay_invD [OF inv]
  show "stack_ok (f # stk)"
    using d(1) f p d(2) \<open>t \<le> t'\<close> by (cases stk) (auto intro: order_trans)
  show "call_idx s < k + 1" "f_start s \<le> t'" if "s \<in> set (f # stk)" for s
    using that f d(2) [of s] \<open>t \<le> t'\<close> by auto
  show "done_ok (k + 1) t' g" if "g \<in> set res" for g using d(3) [OF that] \<open>t \<le> t'\<close> by (auto simp: done_ok_def)
  show "parent_known (f # stk) res g" if "g \<in> set res" for g
  proof -
    have "\<not> below f g" using d(3) [OF that] f by (auto simp: below_def done_ok_def)
    then have "around (f # stk) res g = around stk res g" by (auto simp: around_def)
    then show ?thesis using d(4) [OF that] by (simp add: parent_known_def)
  qed
  show "below s g \<or> before g s" if "g \<in> set res" "s \<in> set (f # stk)" for g s
    using that d(3) [OF that(1)] d(5) [OF that(1), of s] f \<open>t \<le> t'\<close> by (auto simp: done_ok_def before_def)
  show "pairwise apart (set res)" "distinct (map call_idx res)" by (rule d)+
qed

lemma inv_pop:
  assumes inv: "replay_inv k t (f # fs) res" and "t \<le> t'"
    and f': "f' = f\<lparr>rf_event := (rf_event f)\<lparr>pe_end_time := t', pe_return_idx := k\<rparr>\<rparr>"
  shows "replay_inv (k + 1) t' fs (res @ [f'])"
  unfolding replay_inv_def
proof (intro conjI ballI)
  note d = replay_invD [OF inv]
  note top = stack_top [OF d(1)]
  have c: "call_idx f' = call_idx f" "ret_idx f' = k" "f_start f' = f_start f" "f_end f' = t'" "rf_id f' = rf_id f"
      "rf_parent_id f' = rf_parent_id f" "frame_ok f' = frame_ok f"
    by (simp_all add: f' frame_ok_def)
  have low: "call_idx f < k" "f_start f \<le> t" using d(2) [of f] by auto
  show "stack_ok fs" using top by blast
  show "call_idx s < k + 1" "f_start s \<le> t'" if "s \<in> set fs" for s using that d(2) [of s] \<open>t \<le> t'\<close> by auto
  show "done_ok (k + 1) t' g" if "g \<in> set (res @ [f'])" for g
    using that d(3) [of g] top low \<open>t \<le> t'\<close> c by (auto simp: done_ok_def)
  have old: "apart g f'" if "g \<in> set res" for g
    using d(3) [OF that] d(5) [OF that, of f] \<open>t \<le> t'\<close> c
    by (auto simp: apart_def done_ok_def before_def below_def encloses_def)
  show "pairwise apart (set (res @ [f']))"
    using d(6) old apart_sym by (auto simp: pairwise_insert)
  have "call_idx f' \<notin> call_idx ` set res"
  proof
    assume "call_idx f' \<in> call_idx ` set res"
    then obtain g where "g \<in> set res" "call_idx f' = call_idx g" by blast
    then show False using old [of g] by (simp add: apart_def)
  qed
  then show "distinct (map call_idx (res @ [f']))" using d(7) by simp
  show "below s g \<or> before g s" if "g \<in> set (res @ [f'])" "s \<in> set fs" for g s
    using that d(5) [of g s] top c by (auto simp: below_def)
  show "parent_known fs (res @ [f']) g" if g: "g \<in> set (res @ [f'])" for g
  proof (cases "g \<in> set res")
    case True
    let ?r = "\<lambda>h. if h = f then f' else h"
    have same: "encloses f' g = below f g"
      using d(3) [OF True] \<open>t \<le> t'\<close> c by (auto simp: encloses_def below_def done_ok_def)
    have ids: "rf_id (?r h) = rf_id h" "call_idx (?r h) = call_idx h" for h using c by auto
    have fresh: "f \<notin> set fs" "f \<notin> set res" using top d(5) [of f f] low d(3) [of f]
      by (auto simp: below_def before_def done_ok_def)
    have "around fs (res @ [f']) g = ?r ` around (f # fs) res g"
      using same fresh by (auto simp: around_def image_iff)
    from parent_image [OF this ids] d(4) [OF True] show ?thesis by simp
  next
    case False
    then have "g = f'" using g by simp
    moreover have "\<not> encloses h f'" if "h \<in> set (res @ [f'])" for h
      using that d(3) [of h] c by (auto simp: encloses_def done_ok_def)
    moreover have "below h f'" if "h \<in> set fs" for h using that top c by (auto simp: below_def)
    ultimately have a: "around fs (res @ [f']) g = set fs" by (auto simp: around_def)
    show ?thesis
    proof (cases fs)
      case Nil
      then show ?thesis using a top c \<open>g = f'\<close> by (simp add: parent_known_def)
    next
      case (Cons h hs)
      have "\<forall>q \<in> set hs. call_idx q < call_idx h" using stack_top [of h hs] top Cons by auto
      then show ?thesis
        unfolding parent_known_def a using top c \<open>g = f'\<close> Cons by (auto simp: less_imp_le)
    qed
  qed
qed

section \<open>The loops\<close>

definition is_call :: "call_bean \<Rightarrow> bool" where
  "is_call b \<longleftrightarrow> cb_trace_tag b = tag_value kPy_Call \<or> cb_trace_tag b = tag_value kC_Call"

definition calls_of :: "replay_state \<Rightarrow> int set" where
  "calls_of st = call_idx ` (set (rs_stack st) \<union> set (rs_result st))"

abbreviation state_inv :: "int \<Rightarrow> int \<Rightarrow> replay_state \<Rightarrow> bool" where
  "state_inv k t st \<equiv> replay_inv k t (rs_stack st) (rs_result st)"

lemma pop_ok:
  assumes "state_inv (rs_event_idx st) t st" and "t \<le> t'"
  shows "state_inv (rs_event_idx st + 1) t' (pop_frame t' st) \<and> calls_of (pop_frame t' st) = calls_of st
    \<and> rs_event_idx (pop_frame t' st) = rs_event_idx st \<and> rs_max_end (pop_frame t' st) = rs_max_end st"
proof (cases "rs_stack st")
  case Nil
  then show ?thesis using inv_later [OF assms] by (simp add: pop_frame_def)
next
  case (Cons f fs)
  then show ?thesis
    using inv_pop [OF _ assms(2) refl] assms(1) by (auto simp: pop_frame_def calls_of_def image_iff)
qed

lemma push_ok:
  assumes "state_inv (rs_event_idx st) t st" and "t \<le> cb_start_ns b"
  shows "state_inv (rs_event_idx st + 1) (cb_start_ns b)
      (push_frame (replay_frame b n (rs_event_idx st) ct mi (rs_event_idx st)
         (case rs_stack st of [] \<Rightarrow> 0 | f # _ \<Rightarrow> rf_id f) ps) (st\<lparr>rs_modules := ms\<rparr>))"
  unfolding push_frame_def
  by (simp, rule inv_push [OF assms(1)]) (use assms(2) in \<open>simp_all add: replay_frame_def frame_ok_def\<close>)

lemma on_call_ok:
  assumes inv: "state_inv (rs_event_idx st) t st" and t: "t \<le> cb_start_ns b"
    and run: "on_call env (rs_event_idx st) b st = (Inr (), st')"
  shows "state_inv (rs_event_idx st + 1) (cb_start_ns b) st'
    \<and> calls_of st' = calls_of st \<union> (if is_call b then {rs_event_idx st} else {})
    \<and> rs_event_idx st' = rs_event_idx st \<and> rs_max_end st' = rs_max_end st"
proof -
  let ?b = "cb_trace_tag b"
  consider n ct mi ps ms where "is_call b" "st' = push_frame (replay_frame b n (rs_event_idx st) ct mi (rs_event_idx st)
         (case rs_stack st of [] \<Rightarrow> 0 | f # _ \<Rightarrow> rf_id f) ps) (st\<lparr>rs_modules := ms\<rparr>)"
    | "\<not> is_call b" "st' = pop_frame (cb_start_ns b) st" | "\<not> is_call b" "st' = st"
  proof -
    have st: "st\<lparr>rs_modules := rs_modules st\<rparr> = st" by simp
    show ?thesis
      using run that
      unfolding on_call_def Let_def is_call_def
      by (auto split: if_splits sum.splits prod.splits) (metis st)+
  qed
  then show ?thesis
  proof cases
    case 1
    then show ?thesis
      using push_ok [OF inv t] by (auto simp: push_frame_def calls_of_def replay_frame_def)
  next
    case 2
    then show ?thesis using pop_ok [OF inv t] by simp
  next
    case 3
    then show ?thesis using inv_later [OF inv t] by simp
  qed
qed

lemma replay_loop_ok:
  assumes "state_inv (rs_event_idx st) t st" and "sorted (map cb_start_ns bs)" and "\<forall>b \<in> set bs. t \<le> cb_start_ns b"
    and "t \<le> rs_max_end st" and "replay_loop env (rs_event_idx st) bs st = (Inr (), st')"
  shows "\<exists>t'. state_inv (rs_event_idx st') t' st' \<and> t' \<le> rs_max_end st'
    \<and> calls_of st' = calls_of st \<union> {rs_event_idx st + int j | j. j < length bs \<and> is_call (bs ! j)}"
  using assms
proof (induction bs arbitrary: st t)
  case Nil
  then show ?case by (auto simp: sret_def)
next
  case (Cons b bs)
  from Cons.prems(5) obtain st1 where
    r: "on_call env (rs_event_idx st) b st = (Inr (), st1)"
    and loop: "replay_loop env (rs_event_idx st + 1) bs
        (st1\<lparr>rs_event_idx := rs_event_idx st1 + 1, rs_max_end := max (rs_max_end st1) (cb_start_ns b)\<rparr>) = (Inr (), st')"
    by (auto simp: sseq_ok replay_step_def smod_def)
  note o = on_call_ok [OF Cons.prems(1) _ r]
  let ?st = "st1\<lparr>rs_event_idx := rs_event_idx st1 + 1, rs_max_end := max (rs_max_end st1) (cb_start_ns b)\<rparr>"
  have ok: "state_inv (rs_event_idx ?st) (cb_start_ns b) ?st" "rs_event_idx ?st = rs_event_idx st + 1"
      "calls_of ?st = calls_of st \<union> (if is_call b then {rs_event_idx st} else {})"
    using o Cons.prems(3) by (simp_all add: calls_of_def)
  from Cons.IH [OF ok(1)] Cons.prems(2) loop ok(2) obtain t' where
    t': "state_inv (rs_event_idx st') t' st'" "t' \<le> rs_max_end st'"
    "calls_of st' = calls_of ?st \<union> {rs_event_idx st + 1 + int j | j. j < length bs \<and> is_call (bs ! j)}" by auto
  have "{rs_event_idx st + int j | j. j < length (b # bs) \<and> is_call ((b # bs) ! j)} =
      (if is_call b then {rs_event_idx st} else {}) \<union> {rs_event_idx st + 1 + int j | j. j < length bs \<and> is_call (bs ! j)}"
    (is "?l = ?r")
  proof
    show "?l \<subseteq> ?r"
    proof
      fix x assume "x \<in> ?l"
      then obtain j where j: "x = rs_event_idx st + int j" "j < length (b # bs)" "is_call ((b # bs) ! j)" by blast
      then show "x \<in> ?r" by (cases j) auto
    qed
    show "?r \<subseteq> ?l"
      by (auto split: if_splits) (metis Suc_less_eq add.assoc nth_Cons_Suc of_nat_Suc)
  qed
  then show ?case using t' ok(3) by auto
qed

lemma close_Nil: "rs_stack st = [] \<Longrightarrow> close_loop st = st"
  by (simp add: close_loop.simps [of st])

lemma close_Cons:
  "rs_stack st \<noteq> [] \<Longrightarrow>
     close_loop st = close_loop ((pop_frame (rs_max_end st) st)\<lparr>rs_event_idx := rs_event_idx st + 1\<rparr>)"
  by (simp add: close_loop.simps [of st])

lemma close_loop_ok:
  "state_inv (rs_event_idx st) t st \<Longrightarrow> t \<le> rs_max_end st \<Longrightarrow>
     \<exists>k. replay_inv k (rs_max_end st) [] (rs_result (close_loop st)) \<and> call_idx ` set (rs_result (close_loop st)) = calls_of st"
proof (induction st arbitrary: t rule: close_loop.induct)
  case (1 st)
  show ?case
  proof (cases "rs_stack st = []")
    case True
    have "replay_inv (rs_event_idx st + 1) (rs_max_end st) [] (rs_result st)"
      using inv_later [OF 1(2,3)] True by simp
    then show ?thesis using True by (auto simp: close_loop.simps [of st] calls_of_def)
  next
    case False
    let ?st = "(pop_frame (rs_max_end st) st)\<lparr>rs_event_idx := rs_event_idx st + 1\<rparr>"
    note p = pop_ok [OF 1(2,3)]
    from 1(1) [OF False, of "rs_max_end st"] p obtain k where
      "replay_inv k (rs_max_end st) [] (rs_result (close_loop ?st))" "call_idx ` set (rs_result (close_loop ?st)) = calls_of ?st"
      by auto
    moreover have "calls_of ?st = calls_of st" using p by (simp add: calls_of_def)
    moreover have "close_loop st = close_loop ?st" using False by (simp add: close_loop.simps [of st])
    ultimately show ?thesis by auto
  qed
qed

section \<open>The events\<close>

lemma ids_map:
  assumes "\<forall>f \<in> set rs. frame_ok f"
  shows "map_of (fold (\<lambda>f. AList.update (rf_id f) (pe_self_id (rf_event f))) rs d) i =
    (if \<exists>f \<in> set rs. rf_id f = i then Some i else map_of d i)"
  using assms by (induction rs arbitrary: d) (auto simp: frame_ok_def update_conv)

lemma set_parents_ok:
  assumes "replay_inv k t [] rs"
  shows "set_parents rs = map (\<lambda>f. (rf_event f)\<lparr>pe_parent_id := Some (rf_parent_id f)\<rparr>) rs"
proof -
  have ok: "\<forall>f \<in> set rs. frame_ok f" using replay_invD(3) [OF assms] by (simp add: done_ok_def)
  have "(case map_of (fold (\<lambda>f. AList.update (rf_id f) (pe_self_id (rf_event f))) rs []) (rf_parent_id f) of
      Some i \<Rightarrow> i | None \<Rightarrow> 0) = rf_parent_id f" if "f \<in> set rs" for f
    using replay_invD(4) [OF assms that] unfolding ids_map [OF ok]
    by (auto simp: parent_known_def around_def split: if_splits)
  then show ?thesis by (simp add: set_parents_def)
qed

text \<open>At the end the parent is the innermost of the calls around a call.\<close>

lemma parent_innermost:
  assumes "replay_inv k t [] res" and "f \<in> set res"
  shows "(rf_parent_id f = 0 \<and> (\<forall>q \<in> set res. \<not> encloses q f))
    \<or> (\<exists>g \<in> set res. rf_id g = rf_parent_id f \<and> encloses g f
         \<and> (\<forall>q \<in> set res. encloses q f \<longrightarrow> q = g \<or> encloses q g))"
proof -
  note d = replay_invD [OF assms(1)]
  have inner: "encloses q g" if "g \<in> set res" "q \<in> set res" "encloses q f" "encloses g f" "call_idx q \<le> call_idx g" "q \<noteq> g"
    for q g
  proof -
    have "apart q g" using d(6) that(1,2,6) by (auto simp: pairwise_def)
    then show ?thesis
      using that(3-5) d(3) [OF assms(2)] by (auto simp: apart_def before_def encloses_def done_ok_def)
  qed
  show ?thesis
    using d(4) [OF assms(2)] inner by (fastforce simp: parent_known_def around_def split: if_splits)
qed

definition ev_encloses :: "PyTraceEvent \<Rightarrow> PyTraceEvent \<Rightarrow> bool" where
  "ev_encloses p e \<longleftrightarrow> pe_call_idx p < pe_call_idx e \<and> pe_return_idx e < pe_return_idx p
     \<and> pe_start_time p \<le> pe_start_time e \<and> pe_end_time e \<le> pe_end_time p"

definition ev_before :: "PyTraceEvent \<Rightarrow> PyTraceEvent \<Rightarrow> bool" where
  "ev_before e f \<longleftrightarrow> pe_return_idx e < pe_call_idx f \<and> pe_end_time e \<le> pe_start_time f"

text \<open>
  C26: The replay of the calls of a thread is well nested, whatever returns are missing or superfluous:
  the events are one per call record, none ends before it starts, any two of them are one inside the
  other or one after the other, in record order and in time, and the parent id of an event is the id of
  the innermost event that encloses it, and 0 exactly when no event does or the innermost one is the
  first record of the thread, whose id is 0 as well.
\<close>

theorem replay_nested:
  assumes "replay_stack env beans = Inr es"
  shows "distinct (map pe_self_id es)
    \<and> set (map pe_self_id es) = {int j | j. j < length beans \<and> is_call (sort_key cb_start_ns beans ! j)}
    \<and> (\<forall>e \<in> set es. pe_start_time e \<le> pe_end_time e)
    \<and> (\<forall>e \<in> set es. \<forall>f \<in> set es. e \<noteq> f \<longrightarrow> ev_before e f \<or> ev_before f e \<or> ev_encloses e f \<or> ev_encloses f e)
    \<and> (\<forall>e \<in> set es. (pe_parent_id e = Some 0 \<and> (\<forall>q \<in> set es. \<not> ev_encloses q e))
          \<or> (\<exists>p \<in> set es. pe_parent_id e = Some (pe_self_id p) \<and> ev_encloses p e
               \<and> (\<forall>q \<in> set es. ev_encloses q e \<longrightarrow> q = p \<or> ev_encloses q p)))"
proof -
  let ?bs = "sort_key cb_start_ns beans"
  from assms obtain st where loop: "replay_loop env 0 ?bs replay_start = (Inr (), st)"
    and es: "es = set_parents (rs_result (close_loop st))"
    by (auto simp: replay_stack_def split: prod.splits sum.splits)
  obtain t where t: "\<forall>b \<in> set ?bs. t \<le> cb_start_ns b" "t \<le> 0"
  proof
    show "\<forall>b \<in> set ?bs. Min (insert 0 (cb_start_ns ` set ?bs)) \<le> cb_start_ns b" "Min (insert 0 (cb_start_ns ` set ?bs)) \<le> 0"
      by simp_all
  qed
  have start: "state_inv (rs_event_idx replay_start) t replay_start" "calls_of replay_start = {}"
    by (simp_all add: replay_start_def replay_inv_def pairwise_def calls_of_def)
  have z: "rs_event_idx replay_start = 0" "rs_max_end replay_start = 0" by (simp_all add: replay_start_def)
  have "\<exists>t'. state_inv (rs_event_idx st) t' st \<and> t' \<le> rs_max_end st
      \<and> calls_of st = calls_of replay_start \<union> {rs_event_idx replay_start + int j | j. j < length ?bs \<and> is_call (?bs ! j)}"
    by (rule replay_loop_ok [OF start(1) _ t(1)]) (use loop t(2) z in simp_all)
  then obtain t' where
    st: "state_inv (rs_event_idx st) t' st" "t' \<le> rs_max_end st"
      "calls_of st = {int j | j. j < length beans \<and> is_call (?bs ! j)}"
    unfolding start(2) z by auto
  obtain k where inv: "replay_inv k (rs_max_end st) [] (rs_result (close_loop st))"
    and calls: "call_idx ` set (rs_result (close_loop st)) = calls_of st"
    using close_loop_ok [OF st(1,2)] by blast
  let ?rs = "rs_result (close_loop st)"
  let ?e = "\<lambda>f. (rf_event f)\<lparr>pe_parent_id := Some (rf_parent_id f)\<rparr>"
  have es': "es = map ?e ?rs" unfolding es by (rule set_parents_ok [OF inv])
  have self: "map pe_self_id es = map call_idx ?rs"
    using replay_invD(3) [OF inv] by (simp add: es' done_ok_def frame_ok_def)
  note d = replay_invD [OF inv]
  have enc: "ev_encloses (?e g) (?e f) = encloses g f" "ev_before (?e f) (?e g) = before f g" for f g
    by (simp_all add: ev_encloses_def encloses_def ev_before_def before_def)
  have "ev_before e f \<or> ev_before f e \<or> ev_encloses e f \<or> ev_encloses f e"
    if ef: "e \<in> set es" "f \<in> set es" "e \<noteq> f" for e f
  proof -
    obtain g h where gh: "g \<in> set ?rs" "e = ?e g" "h \<in> set ?rs" "f = ?e h" using ef(1,2) by (auto simp: es')
    then have "apart g h" using d(6) ef(3) by (auto simp: pairwise_def)
    then show ?thesis by (auto simp: gh enc apart_def)
  qed
  moreover have "(pe_parent_id e = Some 0 \<and> (\<forall>q \<in> set es. \<not> ev_encloses q e))
      \<or> (\<exists>p \<in> set es. pe_parent_id e = Some (pe_self_id p) \<and> ev_encloses p e
           \<and> (\<forall>q \<in> set es. ev_encloses q e \<longrightarrow> q = p \<or> ev_encloses q p))"
    if e: "e \<in> set es" for e
  proof -
    obtain f where f: "f \<in> set ?rs" "e = ?e f" using e by (auto simp: es')
    from parent_innermost [OF inv f(1)] show ?thesis
    proof (elim disjE bexE conjE)
      assume p: "rf_parent_id f = 0" and none: "\<forall>q \<in> set ?rs. \<not> encloses q f"
      have "\<forall>q \<in> set es. \<not> ev_encloses q e"
        unfolding es' f(2) set_map ball_simps enc using none .
      moreover have "pe_parent_id e = Some 0" using p f(2) by simp
      ultimately show ?thesis by blast
    next
      fix g assume g: "g \<in> set ?rs" "rf_id g = rf_parent_id f" "encloses g f"
        "\<forall>q \<in> set ?rs. encloses q f \<longrightarrow> q = g \<or> encloses q g"
      have "pe_self_id (?e g) = rf_id g" using d(3) [OF g(1)] by (simp add: done_ok_def frame_ok_def)
      then have "?e g \<in> set es" "pe_parent_id e = Some (pe_self_id (?e g))" "ev_encloses (?e g) e"
          "\<forall>q \<in> set es. ev_encloses q e \<longrightarrow> q = ?e g \<or> ev_encloses q (?e g)"
        using g by (auto simp: es' f(2) enc)
      then show ?thesis by blast
    qed
  qed
  moreover have "\<forall>e \<in> set es. pe_start_time e \<le> pe_end_time e"
    using d(3) by (auto simp: es' done_ok_def)
  moreover have "distinct (map pe_self_id es)" unfolding self by (rule d)
  moreover have "set (map pe_self_id es) = calls_of st" unfolding self using calls by simp
  ultimately show ?thesis unfolding st(3) by blast
qed

definition demo_beans :: "call_bean list" where
  "demo_beans =
     [\<lparr>cb_start_ns = 10, cb_tid = 1, cb_pid = 7, cb_key = 100, cb_trace_tag = 0\<rparr>,
      \<lparr>cb_start_ns = 12, cb_tid = 1, cb_pid = 7, cb_key = 100, cb_trace_tag = 0\<rparr>,
      \<lparr>cb_start_ns = 13, cb_tid = 1, cb_pid = 7, cb_key = 101, cb_trace_tag = 2\<rparr>,
      \<lparr>cb_start_ns = 15, cb_tid = 1, cb_pid = 7, cb_key = 101, cb_trace_tag = 3\<rparr>]"

definition demo_names :: replay_env where
  "demo_names = \<lparr>re_hash_map = [(100, ''run''), (101, ''len'')], re_param_map = []\<rparr>"

lemma demo_replay:
  "case replay_stack demo_names demo_beans of
     Inl e \<Rightarrow> False
   | Inr es \<Rightarrow> map (\<lambda>e. (pe_self_id e, pe_parent_id e, pe_start_time e, pe_end_time e)) es
                 = [(2, Some 1, 13, 15), (1, Some 0, 12, 15), (0, Some 0, 10, 15)]"
  by code_simp

text \<open>A recursive Python call that never returns with a C call inside it: three nested events.\<close>

theorem replay_nested_witness:
  "\<exists>es. replay_stack demo_names demo_beans = Inr es
     \<and> map (\<lambda>e. (pe_self_id e, pe_parent_id e, pe_start_time e, pe_end_time e)) es
         = [(2, Some 1, 13, 15), (1, Some 0, 12, 15), (0, Some 0, 10, 15)]
     \<and> distinct (map pe_self_id es)
     \<and> (\<forall>e \<in> set es. \<forall>f \<in> set es. e \<noteq> f \<longrightarrow> ev_before e f \<or> ev_before f e \<or> ev_encloses e f \<or> ev_encloses f e)"
proof -
  obtain es where es: "replay_stack demo_names demo_beans = Inr es"
    "map (\<lambda>e. (pe_self_id e, pe_parent_id e, pe_start_time e, pe_end_time e)) es
       = [(2, Some 1, 13, 15), (1, Some 0, 12, 15), (0, Some 0, 10, 15)]"
    using demo_replay by (auto split: sum.splits)
  from replay_nested [OF es(1)] es show ?thesis by (intro exI [of _ es] conjI) blast+
qed

end
