(* ===== verification/Fwk_Parser.thy ===== *)
theory Fwk_Parser
  imports Python_Trace Op_Tree
begin

text \<open>
  The parser of the framework data, \<open>prof_parse/_fwk_file_parser.py\<close>, with the beans it reads,
  \<open>prof_bean/_op_mark_bean.py\<close> and \<open>prof_bean/_torch_op_bean.py\<close>.

  Reading and decoding the files is the codec's part; the functions below take the decoded records,
  whose time stamps are already in local time.  The tables of open marks, dictionaries of dictionaries
  of lists, are functions of thread and name with the empty list as default.
\<close>

section \<open>Marks of the task queue\<close>

datatype mark_category = ENQUEUE_START | ENQUEUE_END | DEQUEUE_START | DEQUEUE_END

record op_mark =
  om_time_ns :: int
  om_category :: mark_category
  om_corr_id :: int
  om_tid :: int
  om_pid :: int
  om_origin_name :: string

record queue_mark = op_mark +
  qm_ts :: int
  qm_dur :: int

definition om_name :: "('a) op_mark_scheme \<Rightarrow> string" where
  "om_name m =
     (if om_category m = DEQUEUE_START \<or> om_category m = DEQUEUE_END then ''Dequeue@'' @ om_origin_name m else ''Enqueue'')"

definition om_args :: "('a) op_mark_scheme \<Rightarrow> args" where
  "om_args m = [(''correlation_id'', AInt (om_corr_id m))]"

definition om_key :: "('a) op_mark_scheme \<Rightarrow> int \<times> string" where
  "om_key m = (om_tid m, om_origin_name m)"

type_synonym open_marks = "int \<times> string \<Rightarrow> op_mark list"

record queue_state =
  qs_enqueue_open :: open_marks
  qs_dequeue_open :: open_marks
  qs_enqueue :: "queue_mark list"
  qs_dequeue :: "queue_mark list"
  qs_enqueue_failed :: nat
  qs_dequeue_failed :: nat

definition finish_mark :: "op_mark \<Rightarrow> op_mark \<Rightarrow> queue_mark" where
  "finish_mark s e =
     op_mark.extend e \<lparr>qm_ts = om_time_ns s, qm_dur = om_time_ns e - om_time_ns s\<rparr>"

definition queue_step :: "op_mark \<Rightarrow> queue_state \<Rightarrow> queue_state" where
  "queue_step m st =
     (case om_category m of
        ENQUEUE_START \<Rightarrow>
          st\<lparr>qs_enqueue_open := (qs_enqueue_open st)(om_key m := qs_enqueue_open st (om_key m) @ [m])\<rparr>
      | DEQUEUE_START \<Rightarrow>
          st\<lparr>qs_dequeue_open := (qs_dequeue_open st)(om_key m := qs_dequeue_open st (om_key m) @ [m])\<rparr>
      | ENQUEUE_END \<Rightarrow>
          (let starts = qs_enqueue_open st (om_key m)
           in if starts = [] then st\<lparr>qs_enqueue_failed := Suc (qs_enqueue_failed st)\<rparr>
              else st\<lparr>qs_enqueue := qs_enqueue st @ [finish_mark (last starts) m],
                      qs_enqueue_open := (qs_enqueue_open st)(om_key m := [])\<rparr>)
      | DEQUEUE_END \<Rightarrow>
          (let starts = qs_dequeue_open st (om_key m)
           in if starts = [] then st\<lparr>qs_dequeue_failed := Suc (qs_dequeue_failed st)\<rparr>
              else st\<lparr>qs_dequeue := qs_dequeue st @ [finish_mark (last starts) m],
                      qs_dequeue_open := (qs_dequeue_open st)(om_key m := [])\<rparr>))"

definition queue_start :: queue_state where
  "queue_start = \<lparr>qs_enqueue_open = (\<lambda>_. []), qs_dequeue_open = (\<lambda>_. []), qs_enqueue = [], qs_dequeue = [],
     qs_enqueue_failed = 0, qs_dequeue_failed = 0\<rparr>"

definition get_task_queue_data :: "op_mark list \<Rightarrow> queue_mark list \<times> queue_mark list" where
  "get_task_queue_data op_mark_data =
     (let st = fold queue_step (sort_key om_time_ns op_mark_data) queue_start
      in (qs_enqueue st, qs_dequeue st))"

section \<open>Operations\<close>

record torch_op =
  to_ts :: int
  to_end_ns :: int
  to_sequence_number :: int
  to_pid :: int
  to_tid :: int
  to_fwd_thread_id :: int
  to_fields :: "(nat \<times> string) list"

definition TORCH_TLV_TYPES :: "(string \<times> nat) list" where
  "TORCH_TLV_TYPES =
     [(''op_name'', 2), (''Input Dims'', 4), (''Input type'', 3), (''Input Tensors'', 5), (''Input TensorLists'', 6),
      (''Input Scalars'', 7), (''Call stack'', 8), (''Module Hierarchy'', 9), (''flops'', 10)]"

definition REPLACE_FIELDS :: "string list" where
  "REPLACE_FIELDS = [''Input Dims'', ''Input type'', ''Call stack'']"

definition SKIP_FIELDS :: "string list" where
  "SKIP_FIELDS = [''op_name'', ''Input Tensors'', ''Input TensorLists'', ''Input Scalars'']"

definition to_name :: "torch_op \<Rightarrow> string" where
  "to_name op = (case map_of (to_fields op) 2 of Some s \<Rightarrow> s | None \<Rightarrow> '''')"

definition break_lines :: "string \<Rightarrow> string" where
  "break_lines s = concat (map (\<lambda>c. if c = CHR '';'' then [CHR '';'', CHR 0x0D, CHR 0x0A] else [c]) s)"

definition arg_step :: "torch_op \<Rightarrow> string \<times> nat \<Rightarrow> args \<Rightarrow> args" where
  "arg_step op entry args =
     (case entry of (type_name, type_id) \<Rightarrow>
        (if type_name \<in> set SKIP_FIELDS then args
         else case map_of (to_fields op) type_id of
                None \<Rightarrow> args
              | Some v \<Rightarrow>
                  AList.update type_name (AStr (if type_name \<in> set REPLACE_FIELDS then break_lines v else v)) args))"

definition get_args :: "torch_op \<Rightarrow> args" where
  "get_args op =
     fold (arg_step op) TORCH_TLV_TYPES
       [(''Sequence number'', AInt (to_sequence_number op)), (''Fwd thread id'', AInt (to_fwd_thread_id op))]"

definition args_int :: "args \<Rightarrow> string \<Rightarrow> int option" where
  "args_int args key = (case map_of args key of Some (AInt i) \<Rightarrow> Some i | _ \<Rightarrow> None)"

definition args_str :: "args \<Rightarrow> string \<Rightarrow> string option" where
  "args_str args key = (case map_of args key of Some (AStr s) \<Rightarrow> Some s | _ \<Rightarrow> None)"

definition seq_num :: "torch_op \<Rightarrow> int" where
  "seq_num op = (case args_int (get_args op) ''Sequence number'' of Some n \<Rightarrow> n | None \<Rightarrow> -1)"

definition is_start :: "torch_op \<Rightarrow> bool" where
  "is_start op \<longleftrightarrow> args_int (get_args op) ''Fwd thread id'' = Some 0"

definition to_timed :: "torch_op \<Rightarrow> timed" where
  "to_timed op = \<lparr>td_name = to_name op, td_pid = to_pid op, td_tid = to_tid op, td_ts = to_ts op,
     td_dur = to_end_ns op - to_ts op, td_args = get_args op\<rparr>"

definition qm_timed :: "queue_mark \<Rightarrow> timed" where
  "qm_timed m = \<lparr>td_name = om_name m, td_pid = om_pid m, td_tid = om_tid m, td_ts = qm_ts m,
     td_dur = qm_dur m, td_args = om_args m\<rparr>"

section \<open>Forward and backward operations\<close>

definition empty_node :: "'a fwd_node" where
  "empty_node = \<lparr>fn_start = None, fn_end = None\<rparr>"

definition node_at :: "(int \<times> 'a fwd_node) list \<Rightarrow> int \<Rightarrow> 'a fwd_node" where
  "node_at d n = (case map_of d n of Some v \<Rightarrow> v | None \<Rightarrow> empty_node)"

definition set_point :: "bool \<Rightarrow> 'a \<Rightarrow> 'a fwd_node \<Rightarrow> 'a fwd_node" where
  "set_point start x node = (if start then node\<lparr>fn_start := Some x\<rparr> else node\<lparr>fn_end := Some x\<rparr>)"

definition get_point :: "bool \<Rightarrow> 'a fwd_node \<Rightarrow> 'a option" where
  "get_point start node = (if start then fn_start node else fn_end node)"

definition filter_fwd_bwd_event :: "torch_op \<Rightarrow> (int \<times> fwd_point fwd_node) list \<Rightarrow> (int \<times> fwd_point fwd_node) list" where
  "filter_fwd_bwd_event op d =
     (if seq_num op < 0 then d
      else let node = node_at d (seq_num op)
           in if (case get_point (is_start op) node of None \<Rightarrow> True | Some p \<Rightarrow> fp_ts p < to_ts op)
              then AList.update (seq_num op)
                     (set_point (is_start op) \<lparr>fp_pid = to_pid op, fp_tid = to_tid op, fp_ts = to_ts op\<rparr> node) d
              else d)"

text \<open>Here the stored node is an index without a time, so the comparison finds no time and always holds.\<close>

definition filter_fwd_bwd_api :: "torch_op \<Rightarrow> nat \<Rightarrow> (int \<times> nat fwd_node) list \<Rightarrow> (int \<times> nat fwd_node) list" where
  "filter_fwd_bwd_api op idx d =
     (if seq_num op < 0 then d
      else AList.update (seq_num op) (set_point (is_start op) idx (node_at d (seq_num op))) d)"

definition START_CONNECTION_ID_FWK_API :: int where "START_CONNECTION_ID_FWK_API = 5 * 2 ^ 28"
definition START_STRING_ID_FWK_API :: int where "START_STRING_ID_FWK_API = 2 ^ 28"

definition add_connection :: "int \<Rightarrow> api_row \<Rightarrow> api_row" where
  "add_connection c row =
     row\<lparr>ar_connection := (case ar_connection row of ConnList cs \<Rightarrow> ConnList (cs @ [c]) | x \<Rightarrow> x)\<rparr>"

fun link_loop :: "nat fwd_node list \<Rightarrow> int \<Rightarrow> api_row list \<Rightarrow> api_row list" where
  "link_loop [] start rows = rows"
| "link_loop (node # nodes) start rows =
     (case (fn_start node, fn_end node) of
        (Some f, Some b) \<Rightarrow>
          (let c = start + START_CONNECTION_ID_FWK_API;
               rows1 = rows[f := add_connection c (rows ! f)]
           in link_loop nodes (start + 1) (rows1[b := add_connection c (rows1 ! b)]))
      | _ \<Rightarrow> link_loop nodes start rows)"

definition update_fwd_bwd_connection_id :: "(int \<times> nat fwd_node) list \<Rightarrow> api_row list \<Rightarrow> int \<Rightarrow> api_row list" where
  "update_fwd_bwd_connection_id d rows start = link_loop (map snd d) start rows"

section \<open>Rows for the database\<close>

record api_state =
  as_strings :: Str2IdManager
  as_connections :: ConnectionIdManager
  as_chains :: CallChainIdManager

definition queue_row :: "int \<Rightarrow> queue_mark \<times> string \<Rightarrow> api_state \<Rightarrow> api_row \<times> api_state" where
  "queue_row pid entry st =
     (case entry of (m, name) \<Rightarrow>
       (case get_id_from_connection_ids [om_corr_id m + START_CONNECTION_ID_FWK_API] (as_connections st) of (c, cm) \<Rightarrow>
         (case get_id_from_str name (as_strings st) of (n, sm) \<Rightarrow>
            (plain_row (qm_ts m) (qm_ts m + qm_dur m) (contact_2num pid (om_tid m)) (ConnId c) n TASK_QUEUE,
             st\<lparr>as_connections := cm, as_strings := sm\<rparr>))))"

text \<open>The names of the dequeued operations by correlation id, the last one of an id.\<close>

definition correlation_names :: "queue_mark list \<Rightarrow> (int \<times> string) list" where
  "correlation_names ms = fold (\<lambda>m. AList.update (om_corr_id m) (om_origin_name m)) ms []"

definition enqueue_name :: "(int \<times> string) list \<Rightarrow> queue_mark \<Rightarrow> string" where
  "enqueue_name names m =
     om_name m @ (case map_of names (om_corr_id m) of Some s \<Rightarrow> CHR ''@'' # s | None \<Rightarrow> '''')"

definition optional_id :: "string option \<Rightarrow> Str2IdManager \<Rightarrow> int option \<times> Str2IdManager" where
  "optional_id s sm =
     (case s of
        Some (c # cs) \<Rightarrow> (case get_id_from_str (c # cs) sm of (i, sm') \<Rightarrow> (Some i, sm'))
      | _ \<Rightarrow> (None, sm))"

definition torch_row :: "int \<Rightarrow> torch_op \<Rightarrow> api_state \<Rightarrow> api_row \<times> api_state" where
  "torch_row pid op st =
     (let args = get_args op in
      case get_id_from_str (to_name op) (as_strings st) of (n, sm1) \<Rightarrow>
      case optional_id (args_str args ''Input type'') sm1 of (dt, sm2) \<Rightarrow>
      case optional_id (args_str args ''Input Dims'') sm2 of (sh, sm3) \<Rightarrow>
      case (case args_str args ''Call stack'' of
              Some (c # cs) \<Rightarrow>
                (case get_callchain_id_from_callstack (c # cs) (as_chains st) sm3 of (i, cm, sm) \<Rightarrow> (Some i, cm, sm))
            | _ \<Rightarrow> (None, as_chains st, sm3)) of (ch, cm, sm4) \<Rightarrow>
        (\<lparr>ar_start = to_ts op, ar_end = to_end_ns op, ar_global_tid = contact_2num pid (to_tid op),
          ar_connection = ConnList [], ar_name = n, ar_seq = Some (seq_num op),
          ar_fwd_tid = args_int args ''Fwd thread id'', ar_dtypes = dt, ar_shapes = sh, ar_callchain = ch,
          ar_type = TORCH_OP\<rparr>, st\<lparr>as_strings := sm4, as_chains := cm\<rparr>))"

record torch_acc =
  ta_apis :: "api_row list"
  ta_mstx :: "api_row list"
  ta_links :: "(int \<times> nat fwd_node) list"
  ta_idx :: nat
  ta_state :: api_state

definition torch_step :: "int \<Rightarrow> torch_op \<Rightarrow> torch_acc \<Rightarrow> torch_acc" where
  "torch_step pid op acc =
     (case torch_row pid op (ta_state acc) of (api, st) \<Rightarrow>
        (if to_name op = ''mstx_mark_op'' then acc\<lparr>ta_mstx := ta_mstx acc @ [api], ta_state := st\<rparr>
         else acc\<lparr>ta_apis := ta_apis acc @ [api], ta_links := filter_fwd_bwd_api op (ta_idx acc) (ta_links acc),
                  ta_idx := Suc (ta_idx acc), ta_state := st\<rparr>))"

record fwk_api =
  fa_torch :: "api_row list"
  fa_enqueue :: "api_row list"
  fa_dequeue :: "api_row list"
  fa_python :: "api_row list"
  fa_mstx :: "api_row list"

definition fwk_pid :: "torch_op list \<Rightarrow> queue_mark list \<Rightarrow> queue_mark list \<Rightarrow> int option" where
  "fwk_pid ops enq deq =
     (case (ops, enq, deq) of
        (op # _, _, _) \<Rightarrow> Some (to_pid op)
      | ([], m # _, _) \<Rightarrow> Some (om_pid m)
      | ([], [], m # _) \<Rightarrow> Some (om_pid m)
      | ([], [], []) \<Rightarrow> None)"

definition python_parser :: "(int \<times> string) list \<Rightarrow> call_bean list \<Rightarrow> PythonTraceParser option" where
  "python_parser hash_data func_data =
     (if hash_data \<noteq> [] \<and> func_data \<noteq> []
      then Some \<lparr>pp_hash_data = hash_data, pp_call_data = func_data, pp_param_data = None\<rparr> else None)"

text \<open>The empty dictionary that is returned without framework data is \<open>None\<close>.\<close>

definition get_fwk_api ::
  "bool \<Rightarrow> PythonTraceParser option \<Rightarrow> torch_op list \<Rightarrow> queue_mark list \<Rightarrow> queue_mark list \<Rightarrow> api_state
     \<Rightarrow> (fwk_api option \<times> api_state) res" where
  "get_fwk_api cpu python ops enq deq st =
     (case (if cpu then fwk_pid ops enq deq else None) of
        None \<Rightarrow> Inr (None, st)
      | Some pid \<Rightarrow>
          (let st0 = st\<lparr>as_strings := set_start_id START_STRING_ID_FWK_API (as_strings st)\<rparr>;
               (dequeues, st1) = run_rows (queue_row pid) (map (\<lambda>m. (m, om_name m)) deq) st0;
               names = correlation_names deq;
               (enqueues, st2) = run_rows (queue_row pid) (map (\<lambda>m. (m, enqueue_name names m)) enq) st1;
               acc = fold (torch_step pid) ops \<lparr>ta_apis = [], ta_mstx = [], ta_links = [], ta_idx = 0, ta_state = st2\<rparr>;
               connection_ids = map om_corr_id enq;
               start = (if connection_ids \<noteq> [] then Max (set connection_ids) + 1 else 0);
               torch = update_fwd_bwd_connection_id (ta_links acc) (ta_apis acc) start
           in rbind (case python of
                       None \<Rightarrow> Inr ([], as_strings (ta_state acc))
                     | Some p \<Rightarrow> get_python_trace_api_data p (as_strings (ta_state acc)))
                (\<lambda>(py, sm). Inr (Some \<lparr>fa_torch = torch, fa_enqueue = enqueues, fa_dequeue = dequeues, fa_python = py,
                     fa_mstx = ta_mstx acc\<rparr>, (ta_state acc)\<lparr>as_strings := sm\<rparr>))))"

section \<open>Events for the trace view\<close>

definition rename_event :: "string \<Rightarrow> trace_event \<Rightarrow> trace_event" where
  "rename_event n e = (case e of XEvent _ p t ts d c a \<Rightarrow> XEvent n p t ts d c a | _ \<Rightarrow> e)"

definition get_gc_record_db_data :: "timed list \<Rightarrow> (int \<times> int \<times> int) list" where
  "get_gc_record_db_data gc = map (\<lambda>e. (td_ts e, td_ts e + td_dur e, contact_2num (td_pid e) (td_tid e))) gc"

definition get_gc_record_trace_data :: "int list \<Rightarrow> timed list \<Rightarrow> trace_event list" where
  "get_gc_record_trace_data device_ids gc_events =
     (let device_id = (case device_ids of [] \<Rightarrow> -1 | d # _ \<Rightarrow> d);
          gc = map (\<lambda>e. e\<lparr>td_pid := get_pid_format (td_pid e) GC_SORT_INDEX device_id\<rparr>) gc_events
      in case gc of
           [] \<Rightarrow> []
         | e # _ \<Rightarrow> map (\<lambda>e. create_x_event e ''GC'') gc @ create_gc_m_event (td_pid e) (td_tid e))"

text \<open>
  The list of events is allocated with its final length and filled from the front, which is a list
  that grows.
\<close>

definition get_fwk_trace_data ::
  "bool \<Rightarrow> PythonTraceParser option \<Rightarrow> int list \<Rightarrow> timed list \<Rightarrow> torch_op list \<Rightarrow> queue_mark list \<Rightarrow> queue_mark list
     \<Rightarrow> trace_event list res" where
  "get_fwk_trace_data cpu python device_ids gc ops enq deq =
     (case (if cpu then fwk_pid ops enq deq else None) of
        None \<Rightarrow> Inr []
      | Some pid \<Rightarrow>
          (let fwd_dict = fold filter_fwd_bwd_event ops [];
               tids1 = fold (\<lambda>op. AList.update (to_tid op) False) ops [];
               tids2 = fold (\<lambda>m. AList.update (om_tid m) True) deq tids1;
               tids3 = fold (\<lambda>m. AList.update (om_tid m) False) enq tids2;
               names = correlation_names deq;
               xs = map (\<lambda>op. create_x_event (to_timed op) ''cpu_op'') ops
                 @ concat (map (\<lambda>m. [create_x_event (qm_timed m) ''dequeue'',
                       create_task_queue_flow CHR ''f'' (om_corr_id m) (qm_timed m)]) deq)
                 @ concat (map (\<lambda>m. [rename_event (enqueue_name names m) (create_x_event (qm_timed m) ''enqueue''),
                       create_task_queue_flow CHR ''s'' (om_corr_id m) (qm_timed m)]) enq)
           in rbind (case python of None \<Rightarrow> Inr ([], tids3) | Some p \<Rightarrow> get_python_trace_data p tids3)
                (\<lambda>(py, tids). Inr (xs @ create_m_event pid tids @ create_fwd_flow fwd_dict @ py
                    @ get_gc_record_trace_data device_ids gc))))"

definition get_first_fwk_op :: "torch_op list \<Rightarrow> torch_op option" where
  "get_first_fwk_op ops = (case ops of [] \<Rightarrow> None | _ # _ \<Rightarrow> Some (arg_min_list to_ts ops))"

definition get_torch_op_tree_node :: "bool \<Rightarrow> torch_op list \<Rightarrow> queue_mark list \<Rightarrow> op_store option" where
  "get_torch_op_tree_node cpu ops enq =
     (if \<not> cpu \<or> ops = [] then Some []
      else build_tree
             (map (\<lambda>op. \<lparr>oe_ts = to_ts op, oe_end = to_end_ns op, oe_name = to_name op, oe_tid = to_tid op, oe_pid = to_pid op\<rparr>) ops)
             (map (\<lambda>m. (qm_ts m, om_corr_id m)) enq))"

end
