(* ===== verification/Fwk_Props.thy ===== *)
theory Fwk_Props
  imports Fwk_Parser
begin

text \<open>
  What the framework parser makes of its records: which marks of the task queue it pairs, and which
  operations it links as forward and backward pass of each other.
\<close>

section \<open>Pairing of marks\<close>

definition is_enqueue :: "op_mark \<Rightarrow> bool" where
  "is_enqueue m \<longleftrightarrow> om_category m = ENQUEUE_START \<or> om_category m = ENQUEUE_END"

definition is_end_mark :: "op_mark \<Rightarrow> bool" where
  "is_end_mark m \<longleftrightarrow> om_category m = ENQUEUE_END \<or> om_category m = DEQUEUE_END"

definition on_channel :: "bool \<Rightarrow> int \<times> string \<Rightarrow> op_mark list \<Rightarrow> op_mark list" where
  "on_channel q k ms = filter (\<lambda>m. is_enqueue m = q \<and> om_key m = k) ms"

text \<open>
  The reference: an end is paired with the mark right before it on the same queue end, thread and
  name, provided that mark is a start.
\<close>

definition pair_at :: "bool \<Rightarrow> op_mark list \<Rightarrow> nat \<Rightarrow> queue_mark list" where
  "pair_at q ms i =
     (let e = ms ! i; before = on_channel q (om_key e) (take i ms)
      in if is_enqueue e = q \<and> is_end_mark e \<and> before \<noteq> [] \<and> \<not> is_end_mark (last before)
         then [finish_mark (last before) e] else [])"

definition paired :: "bool \<Rightarrow> op_mark list \<Rightarrow> queue_mark list" where
  "paired q ms = concat (map (pair_at q ms) [0..<length ms])"

definition open_of :: "bool \<Rightarrow> queue_state \<Rightarrow> open_marks" where
  "open_of q st = (if q then qs_enqueue_open st else qs_dequeue_open st)"

definition out_of :: "bool \<Rightarrow> queue_state \<Rightarrow> queue_mark list" where
  "out_of q st = (if q then qs_enqueue st else qs_dequeue st)"

lemma queue_step_open:
  "open_of q (queue_step m st) k =
     (if is_enqueue m = q \<and> om_key m = k then (if is_end_mark m then [] else open_of q st k @ [m]) else open_of q st k)"
  by (cases "om_category m") (auto simp: queue_step_def open_of_def is_enqueue_def is_end_mark_def Let_def)

lemma queue_step_out:
  "out_of q (queue_step m st) =
     out_of q st @ (if is_enqueue m = q \<and> is_end_mark m \<and> open_of q st (om_key m) \<noteq> []
                    then [finish_mark (last (open_of q st (om_key m))) m] else [])"
  by (cases "om_category m") (auto simp: queue_step_def open_of_def out_of_def is_enqueue_def is_end_mark_def Let_def)

lemma paired_snoc:
  "paired q (ms @ [m]) =
     paired q ms @ (let before = on_channel q (om_key m) ms
                    in if is_enqueue m = q \<and> is_end_mark m \<and> before \<noteq> [] \<and> \<not> is_end_mark (last before)
                       then [finish_mark (last before) m] else [])"
proof -
  have "pair_at q (ms @ [m]) i = pair_at q ms i" if "i < length ms" for i
    using that by (simp add: pair_at_def nth_append)
  then have c: "concat (map (pair_at q (ms @ [m])) [0..<length ms]) = paired q ms"
    unfolding paired_def by (intro arg_cong [of _ _ concat] map_cong) simp_all
  show ?thesis
    unfolding paired_def [of q "ms @ [m]"] by (simp add: pair_at_def [of q "ms @ [m]" "length ms"] c)
qed

lemma queue_fold_open:
  defines "st \<equiv> \<lambda>ms. fold queue_step ms queue_start"
  shows "(open_of q (st ms) k \<noteq> [] \<longleftrightarrow> on_channel q k ms \<noteq> [] \<and> \<not> is_end_mark (last (on_channel q k ms)))
    \<and> (open_of q (st ms) k \<noteq> [] \<longrightarrow> last (open_of q (st ms) k) = last (on_channel q k ms))"
proof (induction ms rule: rev_induct)
  case Nil
  then show ?case by (simp add: st_def queue_start_def open_of_def on_channel_def)
next
  case (snoc m ms)
  then show ?case by (auto simp: st_def queue_step_open on_channel_def)
qed

lemma queue_fold_out: "out_of q (fold queue_step ms queue_start) = paired q ms"
proof (induction ms rule: rev_induct)
  case Nil
  then show ?case by (simp add: queue_start_def out_of_def paired_def)
next
  case (snoc m ms)
  then show ?case
    using queue_fold_open [of q ms "om_key m"] by (simp add: queue_step_out paired_snoc Let_def)
qed

lemma paired_durations:
  assumes "sorted (map om_time_ns ms)" and "p \<in> set (paired q ms)"
  shows "0 \<le> qm_dur p"
proof -
  from assms(2) obtain i where i: "i < length ms" "p \<in> set (pair_at q ms i)" by (auto simp: paired_def)
  let ?b = "on_channel q (om_key (ms ! i)) (take i ms)"
  from i(2) have p: "p = finish_mark (last ?b) (ms ! i)" "?b \<noteq> []"
    by (auto simp: pair_at_def Let_def split: if_splits)
  from p(2) have "last ?b \<in> set (take i ms)" using last_in_set [of ?b] by (simp add: on_channel_def)
  then obtain j where "j < i" "last ?b = ms ! j" using i(1) by (auto simp: in_set_conv_nth)
  then have "om_time_ns (last ?b) \<le> om_time_ns (ms ! i)"
    using assms(1) i(1) by (simp add: sorted_iff_nth_mono)
  then show ?thesis by (simp add: p(1) finish_mark_def op_mark.defs)
qed

text \<open>
  C27: The pairing of the marks of the task queue, with its tables of open starts, does exactly what
  the following reference says: in the order of time, an end is reported with the mark that comes
  right before it on the same side of the queue, thread and name, provided that mark is a start, and
  is dropped otherwise. Every reported duration is at least 0.
\<close>

theorem task_queue_pairs:
  "get_task_queue_data marks =
     (paired True (sort_key om_time_ns marks), paired False (sort_key om_time_ns marks))
   \<and> list_all (\<lambda>m. 0 \<le> qm_dur m) (fst (get_task_queue_data marks) @ snd (get_task_queue_data marks))"
proof -
  let ?ms = "sort_key om_time_ns marks"
  have "get_task_queue_data marks = (paired True ?ms, paired False ?ms)"
    using queue_fold_out [of True ?ms] queue_fold_out [of False ?ms]
    by (simp add: get_task_queue_data_def out_of_def)
  then show ?thesis using paired_durations [of ?ms] by (auto simp: list_all_iff)
qed

section \<open>Forward and backward operations\<close>

lemma arg_step_keeps:
  "fst entry \<noteq> key \<Longrightarrow> map_of (arg_step op entry args) key = map_of args key"
  by (auto simp: arg_step_def update_conv split: prod.splits option.splits)

lemma arg_fold_keeps:
  "key \<notin> set (map fst types) \<Longrightarrow> map_of (fold (arg_step op) types args) key = map_of args key"
proof (induction types arbitrary: args)
  case (Cons t ts)
  have "fst t \<noteq> key" "key \<notin> set (map fst ts)" using Cons.prems by auto
  then show ?case using Cons.IH [of "arg_step op t args"] arg_step_keeps [of t key op args] by simp
qed simp

lemma get_args_ints:
  "args_int (get_args op) ''Sequence number'' = Some (to_sequence_number op)"
  "args_int (get_args op) ''Fwd thread id'' = Some (to_fwd_thread_id op)"
proof -
  have "''Sequence number'' \<notin> set (map fst TORCH_TLV_TYPES)" "''Fwd thread id'' \<notin> set (map fst TORCH_TLV_TYPES)"
    by code_simp+
  then show "args_int (get_args op) ''Sequence number'' = Some (to_sequence_number op)"
    "args_int (get_args op) ''Fwd thread id'' = Some (to_fwd_thread_id op)"
    unfolding args_int_def get_args_def by (simp_all add: arg_fold_keeps)
qed

lemma seq_num_eq: "seq_num op = to_sequence_number op"
  by (simp add: seq_num_def get_args_ints)

lemma is_start_eq: "is_start op \<longleftrightarrow> to_fwd_thread_id op = 0"
  by (simp add: is_start_def get_args_ints)

definition hits :: "torch_op list \<Rightarrow> int \<Rightarrow> bool \<Rightarrow> nat list" where
  "hits ops n s = filter (\<lambda>i. to_sequence_number (ops ! i) = n \<and> (to_fwd_thread_id (ops ! i) = 0) = s) [0..<length ops]"

definition last_idx :: "torch_op list \<Rightarrow> int \<Rightarrow> bool \<Rightarrow> nat option" where
  "last_idx ops n s = (if hits ops n s = [] then None else Some (last (hits ops n s)))"

lemma hits_snoc:
  "hits (ops @ [op]) n s =
     hits ops n s @ (if to_sequence_number op = n \<and> (to_fwd_thread_id op = 0) = s then [length ops] else [])"
proof -
  have "filter (\<lambda>i. to_sequence_number ((ops @ [op]) ! i) = n \<and> (to_fwd_thread_id ((ops @ [op]) ! i) = 0) = s) [0..<length ops]
      = hits ops n s"
    unfolding hits_def by (rule filter_cong) (auto simp: nth_append)
  then show ?thesis by (simp add: hits_def [of "ops @ [op]"])
qed

lemma last_idx_snoc:
  "last_idx (ops @ [op]) n s =
     (if to_sequence_number op = n \<and> (to_fwd_thread_id op = 0) = s then Some (length ops) else last_idx ops n s)"
  by (simp add: last_idx_def hits_snoc)

lemma last_idx_SomeD:
  assumes "last_idx ops n s = Some i"
  shows "i < length ops \<and> to_sequence_number (ops ! i) = n \<and> (to_fwd_thread_id (ops ! i) = 0) = s"
proof -
  have "i \<in> set (hits ops n s)" using assms by (auto simp: last_idx_def split: if_splits)
  then show ?thesis by (simp add: hits_def)
qed

definition link_dict :: "torch_op list \<Rightarrow> (int \<times> nat fwd_node) list \<Rightarrow> bool" where
  "link_dict ops d \<longleftrightarrow> distinct (map fst d)
     \<and> (\<forall>n s. get_point s (node_at d n) = (if n < 0 then None else last_idx ops n s))"

lemma point_set [simp]:
  "get_point s (set_point s' x node) = (if s = s' then Some x else get_point s node)"
  by (auto simp: get_point_def set_point_def)

lemma link_dict_snoc:
  "link_dict ops d \<Longrightarrow> link_dict (ops @ [op]) (filter_fwd_bwd_api op (length ops) d)"
  by (auto simp: link_dict_def filter_fwd_bwd_api_def last_idx_snoc seq_num_eq is_start_eq node_at_def update_conv
      distinct_update)

definition plain_ops :: "torch_op list \<Rightarrow> torch_op list" where
  "plain_ops ops = filter (\<lambda>op. to_name op \<noteq> ''mstx_mark_op'') ops"

definition fresh_row :: "torch_op \<Rightarrow> api_row \<Rightarrow> bool" where
  "fresh_row op row \<longleftrightarrow> ar_start row = to_ts op \<and> ar_end row = to_end_ns op \<and> ar_connection row = ConnList []"

lemma torch_row_fresh: "torch_row pid op st = (row, st') \<Longrightarrow> fresh_row op row"
  by (auto simp: torch_row_def fresh_row_def Let_def split: prod.splits)

lemma torch_fold:
  assumes "ta_apis acc = []" "ta_links acc = []" "ta_idx acc = 0"
  shows "let r = fold (torch_step pid) ops acc
    in ta_idx r = length (plain_ops ops) \<and> list_all2 fresh_row (plain_ops ops) (ta_apis r) \<and> link_dict (plain_ops ops) (ta_links r)"
proof (induction ops rule: rev_induct)
  case Nil
  then show ?case
    using assms by (auto simp: plain_ops_def link_dict_def node_at_def empty_node_def get_point_def last_idx_def hits_def)
next
  case (snoc op ops)
  let ?r = "fold (torch_step pid) ops acc"
  obtain row st' where row: "torch_row pid op (ta_state ?r) = (row, st')" by fastforce
  have r: "fold (torch_step pid) (ops @ [op]) acc = torch_step pid op ?r" by simp
  show ?case
    using snoc torch_row_fresh [OF row] link_dict_snoc [of "plain_ops ops" "ta_links ?r" op]
    unfolding r Let_def torch_step_def [of pid op ?r]
    by (cases "to_name op = ''mstx_mark_op''") (simp_all add: row plain_ops_def list_all2_appendI)
qed

definition both :: "'a fwd_node \<Rightarrow> bool" where
  "both node \<longleftrightarrow> fn_start node \<noteq> None \<and> fn_end node \<noteq> None"

definition ends :: "'a fwd_node \<Rightarrow> 'a \<times> 'a" where
  "ends node = (the (fn_start node), the (fn_end node))"

fun links :: "nat \<Rightarrow> int \<Rightarrow> (nat \<times> nat) list \<Rightarrow> int list" where
  "links i start [] = []"
| "links i start ((f, b) # ps) =
     (if i = f \<or> i = b then [start + START_CONNECTION_ID_FWK_API] else []) @ links i (start + 1) ps"

lemma links_set:
  "set (links i start ps) =
     {start + int k + START_CONNECTION_ID_FWK_API | k. k < length ps \<and> (i = fst (ps ! k) \<or> i = snd (ps ! k))}"
proof (induction ps arbitrary: start)
  case (Cons p ps)
  obtain f b where p: "p = (f, b)" by fastforce
  have "{start + int k + START_CONNECTION_ID_FWK_API | k. k < length (p # ps) \<and> (i = fst ((p # ps) ! k) \<or> i = snd ((p # ps) ! k))}
    = (if i = f \<or> i = b then {start + START_CONNECTION_ID_FWK_API} else {})
      \<union> {start + 1 + int k + START_CONNECTION_ID_FWK_API | k. k < length ps \<and> (i = fst (ps ! k) \<or> i = snd (ps ! k))}"
    (is "?l = ?r")
  proof
    show "?l \<subseteq> ?r"
    proof
      fix x assume "x \<in> ?l"
      then obtain k where "x = start + int k + START_CONNECTION_ID_FWK_API" "k < length (p # ps)"
        "i = fst ((p # ps) ! k) \<or> i = snd ((p # ps) ! k)" by blast
      then show "x \<in> ?r" by (cases k) (auto simp: p)
    qed
    show "?r \<subseteq> ?l"
    proof
      fix x assume "x \<in> ?r"
      then consider "i = f \<or> i = b" "x = start + START_CONNECTION_ID_FWK_API"
        | k where "x = start + 1 + int k + START_CONNECTION_ID_FWK_API" "k < length ps" "i = fst (ps ! k) \<or> i = snd (ps ! k)"
        by (auto split: if_splits)
      then show "x \<in> ?l"
      proof cases
        case 1
        then show ?thesis by (intro CollectI exI [of _ 0]) (simp add: p)
      next
        case (2 k)
        then show ?thesis by (intro CollectI exI [of _ "Suc k"]) simp
      qed
    qed
  qed
  then show ?case using Cons.IH [of "start + 1"] by (simp add: p)
qed simp

lemma links_length:
  assumes "\<And>j k. j < length ps \<Longrightarrow> k < length ps \<Longrightarrow> i = fst (ps ! j) \<or> i = snd (ps ! j) \<Longrightarrow>
     i = fst (ps ! k) \<or> i = snd (ps ! k) \<Longrightarrow> j = k"
  shows "length (links i start ps) \<le> 1"
  using assms
proof (induction ps arbitrary: start)
  case (Cons p ps)
  obtain f b where p: "p = (f, b)" by fastforce
  show ?case
  proof (cases "i = f \<or> i = b")
    case True
    have "links i (start + 1) ps = []"
    proof (rule ccontr)
      assume "links i (start + 1) ps \<noteq> []"
      then obtain x where "x \<in> set (links i (start + 1) ps)" by (meson last_in_set)
      then obtain k where "k < length ps" "i = fst (ps ! k) \<or> i = snd (ps ! k)"
        unfolding links_set by blast
      then show False using Cons.prems [of 0 "Suc k"] True by (simp add: p)
    qed
    then show ?thesis using True by (simp add: p)
  next
    case False
    have "j = k" if "j < length ps" "k < length ps" "i = fst (ps ! j) \<or> i = snd (ps ! j)" "i = fst (ps ! k) \<or> i = snd (ps ! k)" for j k
      using Cons.prems [of "Suc j" "Suc k"] that by simp
    then show ?thesis using Cons.IH [of "start + 1"] False by (simp add: p)
  qed
qed simp

lemma add_connection_simps [simp]:
  "ar_connection row = ConnList cs \<Longrightarrow> ar_connection (add_connection c row) = ConnList (cs @ [c])"
  "ar_start (add_connection c row) = ar_start row" "ar_end (add_connection c row) = ar_end row"
  by (simp_all add: add_connection_def)

lemma link_loop_rows:
  assumes "\<forall>(f, b) \<in> set (map ends (filter both nodes)). f \<noteq> b \<and> f < length rows \<and> b < length rows"
    and "\<And>i. i < length rows \<Longrightarrow> ar_connection (rows ! i) = ConnList (cs i)"
  shows "length (link_loop nodes start rows) = length rows
    \<and> (\<forall>i < length rows. ar_connection (link_loop nodes start rows ! i) = ConnList (cs i @ links i start (map ends (filter both nodes)))
         \<and> ar_start (link_loop nodes start rows ! i) = ar_start (rows ! i) \<and> ar_end (link_loop nodes start rows ! i) = ar_end (rows ! i))"
  using assms
proof (induction nodes arbitrary: start rows cs)
  case (Cons node nodes)
  show ?case
  proof (cases "both node")
    case False
    then have l: "link_loop (node # nodes) start rows = link_loop nodes start rows"
      by (auto simp: both_def split: option.splits)
    have f: "filter both (node # nodes) = filter both nodes" using False by simp
    show ?thesis unfolding l f by (rule Cons.IH) (use Cons.prems f in auto)
  next
    case True
    then obtain f b where fb: "fn_start node = Some f" "fn_end node = Some b" by (auto simp: both_def)
    then have ok: "f \<noteq> b" "f < length rows" "b < length rows" using Cons.prems(1) True by (auto simp: ends_def)
    let ?c = "start + START_CONNECTION_ID_FWK_API"
    define rows1 where "rows1 = rows[f := add_connection ?c (rows ! f), b := add_connection ?c (rows ! b)]"
    have l: "link_loop (node # nodes) start rows = link_loop nodes (start + 1) rows1"
      using ok by (simp add: fb Let_def rows1_def)
    have len: "length rows1 = length rows" by (simp add: rows1_def)
    have row: "rows1 ! i = (if i = f \<or> i = b then add_connection ?c (rows ! i) else rows ! i)" if "i < length rows" for i
      using ok that by (simp add: nth_list_update rows1_def)
    have "length (link_loop nodes (start + 1) rows1) = length rows1
      \<and> (\<forall>i < length rows1. ar_connection (link_loop nodes (start + 1) rows1 ! i)
            = ConnList ((cs i @ (if i = f \<or> i = b then [?c] else [])) @ links i (start + 1) (map ends (filter both nodes)))
         \<and> ar_start (link_loop nodes (start + 1) rows1 ! i) = ar_start (rows1 ! i)
         \<and> ar_end (link_loop nodes (start + 1) rows1 ! i) = ar_end (rows1 ! i))"
    proof (rule Cons.IH)
      show "\<forall>(f, b) \<in> set (map ends (filter both nodes)). f \<noteq> b \<and> f < length rows1 \<and> b < length rows1"
        using Cons.prems(1) True len by auto
      show "ar_connection (rows1 ! i) = ConnList (cs i @ (if i = f \<or> i = b then [?c] else []))" if "i < length rows1" for i
        using that Cons.prems(2) [of i] by (simp add: row len)
    qed
    then show ?thesis
      unfolding l using True by (simp add: row len ends_def [of node] fb)
  qed
qed simp

section \<open>The links\<close>

definition link_ids :: "(int \<times> nat fwd_node) list \<Rightarrow> int list" where
  "link_ids d = map fst (filter (both \<circ> snd) d)"

lemma link_dict_node:
  assumes "link_dict ops d" and "(n, node) \<in> set d"
  shows "fn_start node = (if n < 0 then None else last_idx ops n True)"
    and "fn_end node = (if n < 0 then None else last_idx ops n False)"
proof -
  have "map_of d n = Some node" using assms by (simp add: link_dict_def)
  then have node: "node_at d n = node" by (simp add: node_at_def)
  have "get_point s (node_at d n) = (if n < 0 then None else last_idx ops n s)" for s
    using assms(1) by (simp add: link_dict_def)
  note this [unfolded node]
  from this [of True] this [of False]
  show "fn_start node = (if n < 0 then None else last_idx ops n True)"
    "fn_end node = (if n < 0 then None else last_idx ops n False)" by (simp_all add: get_point_def)
qed

lemma link_ids_set:
  assumes "link_dict ops d"
  shows "distinct (link_ids d)"
    and "set (link_ids d) = {n. 0 \<le> n \<and> last_idx ops n True \<noteq> None \<and> last_idx ops n False \<noteq> None}"
proof -
  show "distinct (link_ids d)" using assms by (simp add: link_ids_def link_dict_def distinct_map_filter)
  show "set (link_ids d) = {n. 0 \<le> n \<and> last_idx ops n True \<noteq> None \<and> last_idx ops n False \<noteq> None}" (is "_ = ?s")
  proof
    show "set (link_ids d) \<subseteq> ?s"
      using link_dict_node [OF assms] by (auto simp: link_ids_def both_def split: if_splits)
    show "?s \<subseteq> set (link_ids d)"
    proof
      fix n assume n: "n \<in> ?s"
      have p: "get_point s (node_at d n) = last_idx ops n s" for s using assms n by (auto simp: link_dict_def)
      from p [of True] n obtain node where "map_of d n = Some node"
        by (auto simp: node_at_def empty_node_def get_point_def split: option.splits)
      then have m: "(n, node) \<in> set d" by (rule map_of_SomeD)
      then have "both node" using link_dict_node [OF assms m] n by (auto simp: both_def)
      then show "n \<in> set (link_ids d)" using m by (force simp: link_ids_def)
    qed
  qed
qed

lemma link_pairs:
  assumes "link_dict ops d"
  shows "map ends (filter both (map snd d)) = map (\<lambda>n. (the (last_idx ops n True), the (last_idx ops n False))) (link_ids d)"
  using link_dict_node [OF assms]
  by (auto simp: link_ids_def filter_map ends_def both_def split: if_splits)

definition first_link :: "queue_mark list \<Rightarrow> int" where
  "first_link enq = (if enq = [] then 0 else Max (set (map om_corr_id enq)) + 1)"

definition linked :: "torch_op list \<Rightarrow> int \<Rightarrow> nat \<Rightarrow> bool" where
  "linked ops n i \<longleftrightarrow> last_idx ops n True = Some i \<or> last_idx ops n False = Some i"

lemma get_fwk_api_torch:
  assumes "get_fwk_api cpu python ops enq deq st = Inr (Some api, st')"
  obtains pid st0 where "fa_torch api =
    (let acc = fold (torch_step pid) ops \<lparr>ta_apis = [], ta_mstx = [], ta_links = [], ta_idx = 0, ta_state = st0\<rparr>
     in update_fwd_bwd_connection_id (ta_links acc) (ta_apis acc) (first_link enq))"
proof -
  have start: "(if enq \<noteq> [] then Max (set (map om_corr_id enq)) + 1 else 0) = first_link enq"
    by (simp add: first_link_def)
  show thesis
    using assms that unfolding get_fwk_api_def
    by (auto simp: rbind_def Let_def start split: option.splits prod.splits sum.splits)
qed

lemma linked_seq: "linked ops n i \<Longrightarrow> to_sequence_number (ops ! i) = n"
  by (auto simp: linked_def dest: last_idx_SomeD)

lemma linked_ends:
  assumes "last_idx ops n True = Some f" and "last_idx ops n False = Some b"
  shows "f \<noteq> b \<and> f < length ops \<and> b < length ops"
  using last_idx_SomeD [OF assms(1)] last_idx_SomeD [OF assms(2)] by auto

lemma links_unique:
  assumes "j < length ns" "k < length ns" and "distinct ns"
    and "linked ops (ns ! j) i" and "linked ops (ns ! k) i"
  shows "j = k"
proof -
  have "ns ! j = ns ! k" using linked_seq [OF assms(4)] linked_seq [OF assms(5)] by simp
  then show ?thesis using assms(1-3) by (simp add: nth_eq_iff_index_eq)
qed

text \<open>
  C28: The operations the database links as forward and backward pass are, for every sequence number
  that occurs in an operation with forward thread 0 and in one with another, the last such operations
  in the order of the list; no other operation gets a connection, and none gets two. The numbers of
  the connections count from one above the correlation ids of the enqueued tasks, so no link is taken for the
  connection of an enqueued task.
\<close>

theorem fwd_bwd_links:
  assumes "get_fwk_api cpu python ops enq deq st = Inr (Some api, st')"
  shows "\<exists>ns. distinct ns
    \<and> set ns = {n. 0 \<le> n \<and> last_idx (plain_ops ops) n True \<noteq> None \<and> last_idx (plain_ops ops) n False \<noteq> None}
    \<and> map ar_start (fa_torch api) = map to_ts (plain_ops ops)
    \<and> (\<forall>i < length (plain_ops ops). \<exists>cs. ar_connection (fa_torch api ! i) = ConnList cs \<and> length cs \<le> 1
         \<and> set cs = {first_link enq + int k + START_CONNECTION_ID_FWK_API | k. k < length ns \<and> linked (plain_ops ops) (ns ! k) i})
    \<and> (\<forall>m \<in> set enq. om_corr_id m < first_link enq)"
proof -
  let ?ops = "plain_ops ops"
  obtain pid st0 where torch: "fa_torch api =
    (let acc = fold (torch_step pid) ops \<lparr>ta_apis = [], ta_mstx = [], ta_links = [], ta_idx = 0, ta_state = st0\<rparr>
     in update_fwd_bwd_connection_id (ta_links acc) (ta_apis acc) (first_link enq))"
    using assms by (rule get_fwk_api_torch)
  define acc where "acc = fold (torch_step pid) ops \<lparr>ta_apis = [], ta_mstx = [], ta_links = [], ta_idx = 0, ta_state = st0\<rparr>"
  have rows: "list_all2 fresh_row ?ops (ta_apis acc)" and d: "link_dict ?ops (ta_links acc)"
    using torch_fold [of "\<lparr>ta_apis = [], ta_mstx = [], ta_links = [], ta_idx = 0, ta_state = st0\<rparr>" pid ops]
    by (simp_all add: acc_def Let_def)
  let ?ns = "link_ids (ta_links acc)"
  let ?ps = "map (\<lambda>n. (the (last_idx ?ops n True), the (last_idx ?ops n False))) ?ns"
  note ns = link_ids_set [OF d]
  note len = list_all2_lengthD [OF rows]
  have on: "i = fst (?ps ! k) \<or> i = snd (?ps ! k) \<longleftrightarrow> linked ?ops (?ns ! k) i" if "k < length ?ns" for i k
  proof -
    have "?ns ! k \<in> set ?ns" using that by simp
    then show ?thesis using that unfolding ns(2) by (auto simp: linked_def)
  qed
  have pairs: "\<forall>(f, b) \<in> set ?ps. f \<noteq> b \<and> f < length (ta_apis acc) \<and> b < length (ta_apis acc)"
    unfolding set_map ns(2) len [symmetric] using linked_ends by force
  have "length (fa_torch api) = length (ta_apis acc)
    \<and> (\<forall>i < length (ta_apis acc). ar_connection (fa_torch api ! i) = ConnList ([] @ links i (first_link enq) ?ps)
      \<and> ar_start (fa_torch api ! i) = ar_start (ta_apis acc ! i) \<and> ar_end (fa_torch api ! i) = ar_end (ta_apis acc ! i))"
    unfolding torch Let_def acc_def [symmetric] update_fwd_bwd_connection_id_def link_pairs [OF d, symmetric]
    by (rule link_loop_rows) (use pairs rows in \<open>auto simp: link_pairs [OF d] list_all2_conv_all_nth fresh_row_def\<close>)
  then have torch_rows: "length (fa_torch api) = length ?ops"
      "i < length ?ops \<Longrightarrow> ar_connection (fa_torch api ! i) = ConnList (links i (first_link enq) ?ps)"
      "i < length ?ops \<Longrightarrow> ar_start (fa_torch api ! i) = to_ts (?ops ! i)" for i
    using len rows by (auto simp: list_all2_conv_all_nth fresh_row_def)
  have "length (links i (first_link enq) ?ps) \<le> 1" for i
    by (rule links_length) (use on links_unique [OF _ _ ns(1)] in auto)
  moreover have "set (links i (first_link enq) ?ps) =
      {first_link enq + int k + START_CONNECTION_ID_FWK_API | k. k < length ?ns \<and> linked ?ops (?ns ! k) i}" for i
    unfolding links_set length_map by (rule Collect_cong) (use on in blast)
  moreover have "map ar_start (fa_torch api) = map to_ts ?ops"
    using torch_rows by (simp add: list_eq_iff_nth_eq)
  moreover have "om_corr_id m < first_link enq" if "m \<in> set enq" for m
    using that by (auto simp: first_link_def intro: le_imp_less_Suc)
  ultimately show ?thesis
    using ns torch_rows(2) by (intro exI [of _ ?ns]) simp
qed

definition demo_op :: "int \<Rightarrow> int \<Rightarrow> int \<Rightarrow> torch_op" where
  "demo_op ts tid fwd = \<lparr>to_ts = ts, to_end_ns = ts + 5, to_sequence_number = 4, to_pid = 7, to_tid = tid,
     to_fwd_thread_id = fwd, to_fields = []\<rparr>"

definition demo_ops :: "torch_op list" where
  "demo_ops = [demo_op 30 1 0, demo_op 10 1 0, demo_op 50 2 1]"

definition demo_state :: api_state where
  "demo_state = \<lparr>as_strings = \<lparr>si_map = [], si_curr = 0\<rparr>, as_connections = \<lparr>ci_map = [], ci_curr = 0\<rparr>,
     as_chains = \<lparr>cc_map = [], cc_curr = 0\<rparr>\<rparr>"

lemma demo_api:
  "case get_fwk_api True None demo_ops [] [] demo_state of
     Inr (Some api, _) \<Rightarrow>
       map ar_connection (fa_torch api) =
         [ConnList [], ConnList [START_CONNECTION_ID_FWK_API], ConnList [START_CONNECTION_ID_FWK_API]]
   | _ \<Rightarrow> False"
  by code_simp

theorem fwd_bwd_links_witness:
  "\<exists>api st' ns. get_fwk_api True None demo_ops [] [] demo_state = Inr (Some api, st')
     \<and> map ar_connection (fa_torch api) =
         [ConnList [], ConnList [START_CONNECTION_ID_FWK_API], ConnList [START_CONNECTION_ID_FWK_API]]
     \<and> set ns = {n. 0 \<le> n \<and> last_idx (plain_ops demo_ops) n True \<noteq> None \<and> last_idx (plain_ops demo_ops) n False \<noteq> None}"
proof -
  obtain api st' where api: "get_fwk_api True None demo_ops [] [] demo_state = Inr (Some api, st')"
    "map ar_connection (fa_torch api) =
       [ConnList [], ConnList [START_CONNECTION_ID_FWK_API], ConnList [START_CONNECTION_ID_FWK_API]]"
    using demo_api by (auto split: sum.splits option.splits prod.splits)
  from fwd_bwd_links [OF api(1)] obtain ns where
    "set ns = {n. 0 \<le> n \<and> last_idx (plain_ops demo_ops) n True \<noteq> None \<and> last_idx (plain_ops demo_ops) n False \<noteq> None}"
    by (elim exE conjE)
  with api show ?thesis by (intro exI conjI)
qed

text \<open>
  The trace view links the forward operation that starts last, the database the one that comes last in
  the list: for the same operations they can be different.
\<close>

lemma fwd_bwd_views_differ:
  "(case fold filter_fwd_bwd_event demo_ops [] of
      [(n, node)] \<Rightarrow> n = 4 \<and> map_option fp_ts (fn_start node) = Some 30 \<and> map_option fp_ts (fn_end node) = Some 50
    | _ \<Rightarrow> False)
   \<and> last_idx demo_ops 4 True = Some 1 \<and> to_ts (demo_ops ! 1) = 10"
  by code_simp

text \<open>
  The numbering leaves the enqueued tasks aside only: a dequeued task whose enqueueing was lost can
  have the same connection as a link.
\<close>

definition lost_enqueue :: queue_mark where
  "lost_enqueue = finish_mark \<lparr>om_time_ns = 1, om_category = DEQUEUE_START, om_corr_id = 0, om_tid = 3, om_pid = 7, om_origin_name = ''a''\<rparr>
     \<lparr>om_time_ns = 2, om_category = DEQUEUE_END, om_corr_id = 0, om_tid = 3, om_pid = 7, om_origin_name = ''a''\<rparr>"

lemma dequeue_link_collision:
  "case get_fwk_api True None demo_ops [] [lost_enqueue] demo_state of
     Inr (Some api, st) \<Rightarrow>
       map ar_connection (fa_dequeue api) = [ConnId 0]
       \<and> ConnList (get_connection_ids_from_id 0 (as_connections st)) = ar_connection (fa_torch api ! 2)
   | _ \<Rightarrow> False"
  by code_simp

end
