(* ===== verification/Memory_Prepare.thy ===== *)
theory Memory_Prepare
  imports Fwk_Parser
begin

text \<open>
  The preparation of the memory view, \<open>prof_view/_memory_prepare_parser.py\<close>, with the records it
  reads, \<open>prof_bean/_memory_use_bean.py\<close>.

  Operations are the nodes of the operation tree, by their index in its store.  The records are
  objects; the cache of operation names is keyed by their identity, which is \<open>mr_id\<close> here.  The rows
  of the text view and of the database differ in the rendering of times and devices, which is a
  parameter; the text view's division of sizes to kilobytes and megabytes is not modelled.  The loops
  that follow parents would not return on a cyclic store, they are \<open>partial_function\<close>s.
\<close>

section \<open>Memory records\<close>

record MemoryUseBean =
  mr_id :: nat
  mr_ptr :: int
  mr_time_ns :: int
  mr_alloc_size :: int
  mr_total_allocated :: int
  mr_total_reserved :: int
  mr_total_active :: int
  mr_stream_ptr :: int
  mr_device_type :: int
  mr_device_index :: int
  mr_component_type :: int
  mr_data_type :: int
  mr_allocator_type :: int
  mr_tid :: int
  mr_pid :: int

definition MEMORY_MALLOC :: int where "MEMORY_MALLOC = 0"
definition MEMORY_FREE :: int where "MEMORY_FREE = 1"
definition MEMORY_BLOCK_FREE :: int where "MEMORY_BLOCK_FREE = 2"
definition PTA_RECORD_TYPE_NUM :: nat where "PTA_RECORD_TYPE_NUM = 3"
definition CACHING_TYPE :: int where "CACHING_TYPE = 0"

definition is_npu :: "MemoryUseBean \<Rightarrow> bool" where "is_npu r \<longleftrightarrow> mr_device_type r = 20"

definition is_inner_allocator :: "MemoryUseBean \<Rightarrow> bool" where "is_inner_allocator r \<longleftrightarrow> mr_allocator_type r = 0"

definition device_tag :: "MemoryUseBean \<Rightarrow> string" where
  "device_tag r = (if is_npu r then ''NPU:'' @ py_str_int (mr_device_index r) else ''CPU'')"

section \<open>The records of one allocation\<close>

partial_function (option) valid_loop ::
  "MemoryUseBean list \<Rightarrow> nat \<Rightarrow> nat \<Rightarrow> MemoryUseBean list \<Rightarrow> int list \<Rightarrow> MemoryUseBean list list \<Rightarrow> MemoryUseBean list list option"
where
  "valid_loop records l_idx r_idx data_buf type_buf ret =
     (if l_idx < length records \<and> r_idx < length records
      then (if mr_data_type (records ! l_idx) \<noteq> MEMORY_MALLOC
            then valid_loop records (l_idx + 1) (l_idx + 1) data_buf type_buf ret
            else if length data_buf < PTA_RECORD_TYPE_NUM \<and> mr_data_type (records ! r_idx) \<notin> set type_buf
            then valid_loop records l_idx (r_idx + 1) (data_buf @ [records ! r_idx])
                   (type_buf @ [mr_data_type (records ! r_idx)]) ret
            else valid_loop records r_idx r_idx [] [] (ret @ [data_buf]))
      else Some (if data_buf \<noteq> [] then ret @ [data_buf] else ret))"

definition get_valid_record_entry :: "MemoryUseBean list \<Rightarrow> MemoryUseBean list list option" where
  "get_valid_record_entry records = valid_loop records 0 0 [] [] []"

section \<open>The operation of an allocation\<close>

record mem_env =
  me_nodes :: op_store
  me_enqueue :: "(int \<times> queue_mark) list"
  me_dequeue :: "int \<times> int \<Rightarrow> queue_mark list"
  me_dequeue_pids :: "int set"
  me_dequeue_tids :: "int set"
  me_device_ids :: "int list"

record mem_state =
  ms_dequeue_index :: "((int \<times> int) \<times> nat) list"
  ms_torch_index :: "((int \<times> bool) \<times> nat) list"
  ms_names :: "(nat \<times> string) list"
  ms_torch_ops :: "(int \<times> nat list) list"
  ms_incomplete :: nat

definition init_queue_info :: "queue_mark list \<Rightarrow> queue_mark list \<Rightarrow> mem_env \<Rightarrow> mem_env" where
  "init_queue_info enq deq env =
     env\<lparr>me_enqueue := fold (\<lambda>m. AList.update (om_corr_id m) m) enq [],
         me_dequeue := (\<lambda>k. filter (\<lambda>m. (om_pid m, om_tid m) = k) deq),
         me_dequeue_pids := om_pid ` set deq, me_dequeue_tids := om_tid ` set deq\<rparr>"

definition node_name :: "op_store \<Rightarrow> nat \<Rightarrow> string" where
  "node_name ns i = (case on_event (ns ! i) of Some e \<Rightarrow> oe_name e | None \<Rightarrow> '''')"

definition node_tid :: "op_store \<Rightarrow> nat \<Rightarrow> int" where
  "node_tid ns i = (case on_event (ns ! i) of Some e \<Rightarrow> oe_tid e | None \<Rightarrow> 0)"

definition node_pid :: "op_store \<Rightarrow> nat \<Rightarrow> int" where
  "node_pid ns i = (case on_event (ns ! i) of Some e \<Rightarrow> oe_pid e | None \<Rightarrow> 0)"

text \<open>The index that is remembered from the last search, moved on to the first start after the time.\<close>

function advance :: "int list \<Rightarrow> nat \<Rightarrow> int \<Rightarrow> nat" where
  "advance starts i ts = (if i < length starts \<and> starts ! i \<le> ts then advance starts (i + 1) ts else i)"
  by pat_completeness auto
termination
  by (relation "measure (\<lambda>(starts, i, ts). length starts - i)") auto

declare advance.simps [simp del]

definition index_at :: "('k \<times> nat) list \<Rightarrow> 'k \<Rightarrow> nat" where
  "index_at d k = (case map_of d k of Some i \<Rightarrow> i | None \<Rightarrow> 0)"

definition find_last_dequeue_record_before_timestamp ::
  "mem_env \<Rightarrow> int \<Rightarrow> MemoryUseBean \<Rightarrow> mem_state \<Rightarrow> int \<times> mem_state" where
  "find_last_dequeue_record_before_timestamp env ts r st =
     (let k = (mr_pid r, mr_tid r);
          i = advance (map qm_ts (me_dequeue env k)) (index_at (ms_dequeue_index st) k) ts
      in (int i - 1, st\<lparr>ms_dequeue_index := AList.update k i (ms_dequeue_index st)\<rparr>))"

definition torch_ops_of :: "mem_state \<Rightarrow> int \<Rightarrow> nat list" where
  "torch_ops_of st tid = (case map_of (ms_torch_ops st) tid of Some is \<Rightarrow> is | None \<Rightarrow> [])"

definition find_last_torch_op_before_timestamp ::
  "mem_env \<Rightarrow> int \<Rightarrow> int \<Rightarrow> bool \<Rightarrow> mem_state \<Rightarrow> int \<times> mem_state" where
  "find_last_torch_op_before_timestamp env ts tid is_enqueue st =
     (let k = (tid, is_enqueue);
          i = advance (map (start_time (me_nodes env)) (torch_ops_of st tid)) (index_at (ms_torch_index st) k) ts
      in (int i - 1, st\<lparr>ms_torch_index := AList.update k i (ms_torch_index st)\<rparr>))"

partial_function (option) running_loop :: "op_store \<Rightarrow> int \<Rightarrow> nat \<Rightarrow> string option" where
  "running_loop ns ts i =
     (if end_time ns i < ts
      then (case on_parent (ns ! i) of
              None \<Rightarrow> Some ''''
            | Some p \<Rightarrow> (if on_event (ns ! p) = None then Some '''' else running_loop ns ts p))
      else Some (node_name ns i))"

definition find_matched_torch_op_name ::
  "mem_env \<Rightarrow> int \<Rightarrow> int \<Rightarrow> mem_state \<Rightarrow> (string \<times> mem_state) option" where
  "find_matched_torch_op_name env ts tid st =
     (case find_last_torch_op_before_timestamp env ts tid False st of (i, st') \<Rightarrow>
        (if i = -1 then Some ('''', st')
         else map_option (\<lambda>n. (n, st')) (running_loop (me_nodes env) ts (torch_ops_of st tid ! nat i))))"

definition find_related_dequeue_record ::
  "mem_env \<Rightarrow> MemoryUseBean \<Rightarrow> mem_state \<Rightarrow> queue_mark option \<times> mem_state" where
  "find_related_dequeue_record env r st =
     (if \<not> (mr_pid r \<in> me_dequeue_pids env \<and> mr_tid r \<in> me_dequeue_tids env) then (None, st)
      else case find_last_dequeue_record_before_timestamp env (mr_time_ns r) r st of (i, st') \<Rightarrow>
        (if i = -1 then (None, st')
         else let m = me_dequeue env (mr_pid r, mr_tid r) ! nat i
              in (if \<not> (qm_ts m \<le> mr_time_ns r \<and> mr_time_ns r < qm_ts m + qm_dur m) then None else Some m, st')))"

definition op_prefix :: "string \<Rightarrow> bool" where
  "op_prefix s \<longleftrightarrow> prefix ''aten'' s \<or> prefix ''npu'' s"

partial_function (option) aten_loop :: "op_store \<Rightarrow> nat \<Rightarrow> string option" where
  "aten_loop ns i =
     (if \<not> op_prefix (node_name ns i)
      then (case on_parent (ns ! i) of
              None \<Rightarrow> Some ''''
            | Some p \<Rightarrow> (if on_event (ns ! p) = None then Some '''' else aten_loop ns p))
      else Some (node_name ns i))"

definition get_aten_op_name_by_enqueue_record ::
  "mem_env \<Rightarrow> queue_mark \<Rightarrow> mem_state \<Rightarrow> (string \<times> mem_state) option" where
  "get_aten_op_name_by_enqueue_record env m st =
     (case find_last_torch_op_before_timestamp env (om_time_ns m) (om_tid m) True st of (i, st') \<Rightarrow>
        (if i = -1 then Some ('''', st')
         else map_option (\<lambda>n. (n, st')) (aten_loop (me_nodes env) (torch_ops_of st (om_tid m) ! nat i))))"

definition find_real_op_name_of_record ::
  "mem_env \<Rightarrow> queue_mark \<Rightarrow> mem_state \<Rightarrow> (string \<times> mem_state) option" where
  "find_real_op_name_of_record env deq st =
     (case map_of (me_enqueue env) (om_corr_id deq) of
        None \<Rightarrow> Some ('''', st)
      | Some enq \<Rightarrow> get_aten_op_name_by_enqueue_record env enq st)"

definition get_op_name_of_record :: "mem_env \<Rightarrow> MemoryUseBean \<Rightarrow> mem_state \<Rightarrow> (string \<times> mem_state) option" where
  "get_op_name_of_record env r st =
     (case map_of (ms_names st) (mr_id r) of
        Some n \<Rightarrow> Some (n, st)
      | None \<Rightarrow>
          map_option (\<lambda>(n, st'). (n, st'\<lparr>ms_names := AList.update (mr_id r) n (ms_names st')\<rparr>))
            (case find_related_dequeue_record env r st of
               (None, st') \<Rightarrow> find_matched_torch_op_name env (mr_time_ns r) (mr_tid r) st'
             | (Some m, st') \<Rightarrow> find_real_op_name_of_record env m st'))"

section \<open>Rows\<close>

record ('t, 'd) mem_row =
  mw_name :: string
  mw_size :: int
  mw_time :: 't
  mw_release :: "'t option"
  mw_active_release :: "'t option"
  mw_duration :: "'t option"
  mw_active_duration :: "'t option"
  mw_alloc_totals :: "int \<times> int \<times> int"
  mw_release_totals :: "(int \<times> int \<times> int) option"
  mw_stream :: int
  mw_device :: 'd

definition totals :: "MemoryUseBean \<Rightarrow> int \<times> int \<times> int" where
  "totals r = (mr_total_allocated r, mr_total_reserved r, mr_total_active r)"

text \<open>The row of a group of one, two or three records; there is none for any other number.\<close>

definition combine_data :: "(int \<Rightarrow> 't) \<Rightarrow> (MemoryUseBean \<Rightarrow> 'd) \<Rightarrow> string \<Rightarrow> MemoryUseBean list \<Rightarrow> ('t, 'd) mem_row option" where
  "combine_data conv dev name records =
     (let row = (\<lambda>a rel act dur adur tot.
            \<lparr>mw_name = name, mw_size = mr_alloc_size a, mw_time = conv (mr_time_ns a), mw_release = map_option conv rel,
             mw_active_release = map_option conv act, mw_duration = map_option conv dur,
             mw_active_duration = map_option conv adur, mw_alloc_totals = totals a, mw_release_totals = tot,
             mw_stream = mr_stream_ptr a, mw_device = dev a\<rparr>)
      in case records of
           [a] \<Rightarrow> Some (row a None None None None None)
         | [a, b] \<Rightarrow>
             Some (row a (if mr_data_type b = MEMORY_FREE then Some (mr_time_ns b) else None)
                (if mr_data_type b = MEMORY_BLOCK_FREE then Some (mr_time_ns b) else None)
                (if mr_data_type b = MEMORY_FREE then Some (mr_time_ns b - mr_time_ns a) else None)
                (if mr_data_type b = MEMORY_BLOCK_FREE then Some (mr_time_ns b - mr_time_ns a) else None)
                (Some (totals b)))
         | [a, b, c] \<Rightarrow>
             (let fr = (if mr_data_type b = MEMORY_FREE then b else c);
                  ac = (if mr_data_type b = MEMORY_FREE then c else b)
              in Some (row a (Some (mr_time_ns fr)) (Some (mr_time_ns ac)) (Some (mr_time_ns fr - mr_time_ns a))
                    (Some (mr_time_ns ac - mr_time_ns a)) (Some (totals fr))))
         | _ \<Rightarrow> None)"

definition missing :: "MemoryUseBean list \<Rightarrow> nat" where
  "missing records =
     (case records of
        [a] \<Rightarrow> (if mr_component_type a = CACHING_TYPE then 2 else 0)
      | [a, b] \<Rightarrow> (if mr_component_type a = CACHING_TYPE then 1 else 0)
      | _ \<Rightarrow> 0)"

fun row_loop ::
  "(int \<Rightarrow> 't) \<Rightarrow> (MemoryUseBean \<Rightarrow> 'd) \<Rightarrow> mem_env \<Rightarrow> MemoryUseBean list list \<Rightarrow> mem_state
     \<Rightarrow> (('t, 'd) mem_row list \<times> mem_state) option" where
  "row_loop conv dev env [] st = Some ([], st)"
| "row_loop conv dev env (g # gs) st =
     (if g = [] \<or> length g > 3 then row_loop conv dev env gs st
      else case get_op_name_of_record env (hd g) st of
             None \<Rightarrow> None
           | Some (n, st1) \<Rightarrow>
               (case row_loop conv dev env gs (st1\<lparr>ms_incomplete := ms_incomplete st1 + missing g\<rparr>) of
                  None \<Rightarrow> None
                | Some (rows, st2) \<Rightarrow>
                    (case combine_data conv dev n g of
                       Some row \<Rightarrow> Some (row # rows, st2)
                     | None \<Rightarrow> Some (rows, st2))))"

definition init_tid_dict :: "mem_env \<Rightarrow> nat list \<Rightarrow> mem_state \<Rightarrow> mem_state" where
  "init_tid_dict env ops st =
     (if ms_torch_ops st \<noteq> [] then st
      else st\<lparr>ms_torch_ops :=
             group_by (node_tid (me_nodes env))
               (filter (\<lambda>i. node_name (me_nodes env) i \<noteq> ''empty_tensor'' \<and> node_name (me_nodes env) i \<noteq> ''malloc_workspace'') ops)\<rparr>)"

definition text_device :: "mem_env \<Rightarrow> MemoryUseBean \<Rightarrow> string" where
  "text_device env r = (case me_device_ids env of [d] \<Rightarrow> ''NPU:'' @ py_str_int d | _ \<Rightarrow> device_tag r)"

definition complete_record_entry ::
  "mem_env \<Rightarrow> MemoryUseBean list list \<Rightarrow> nat list \<Rightarrow> mem_state \<Rightarrow> ((string, string) mem_row list \<times> mem_state) option" where
  "complete_record_entry env ptr_records ops st =
     row_loop (\<lambda>ns. us_str ns @ [CHR 0x09]) (text_device env) env ptr_records (init_tid_dict env ops st)"

definition db_device :: "mem_env \<Rightarrow> MemoryUseBean \<Rightarrow> int" where
  "db_device env r =
     (let device_index = (case me_device_ids env of [d] \<Rightarrow> d | _ \<Rightarrow> -1)
      in if device_index \<noteq> -1 then device_index else mr_device_index r)"

definition complete_record_entry_for_db ::
  "mem_env \<Rightarrow> MemoryUseBean list list \<Rightarrow> nat list \<Rightarrow> mem_state \<Rightarrow> ((int, int) mem_row list \<times> mem_state) option" where
  "complete_record_entry_for_db env ptr_records ops st =
     row_loop (\<lambda>ns. ns) (db_device env) env ptr_records (init_tid_dict env ops st)"

section \<open>All processes\<close>

fun entries_of :: "MemoryUseBean list list \<Rightarrow> MemoryUseBean list list option" where
  "entries_of [] = Some []"
| "entries_of (rs # rss) =
     (case get_valid_record_entry (sort_key mr_time_ns rs) of
        None \<Rightarrow> None
      | Some gs \<Rightarrow> map_option ((@) gs) (entries_of rss))"

record memory_data =
  md_text :: "(string, string) mem_row list option"
  md_db :: "(int, int) mem_row list option"

record export_config =
  ex_text :: bool
  ex_db :: bool
  ex_default_db :: bool

text \<open>\<open>setdefault\<close> keeps the rows of an earlier process.\<close>

definition setdefault :: "'a option \<Rightarrow> 'a \<Rightarrow> 'a option" where
  "setdefault old new = (case old of Some x \<Rightarrow> Some x | None \<Rightarrow> Some new)"

definition text_step ::
  "mem_env \<Rightarrow> MemoryUseBean list list \<Rightarrow> nat list \<Rightarrow> memory_data \<times> mem_state \<Rightarrow> (memory_data \<times> mem_state) option" where
  "text_step env buf ops s =
     (case s of (md, st) \<Rightarrow>
        map_option (\<lambda>(rows, st'). (md\<lparr>md_text := setdefault (md_text md) rows\<rparr>, st')) (complete_record_entry env buf ops st))"

definition db_step ::
  "mem_env \<Rightarrow> MemoryUseBean list list \<Rightarrow> nat list \<Rightarrow> memory_data \<times> mem_state \<Rightarrow> (memory_data \<times> mem_state) option" where
  "db_step env buf ops s =
     (case s of (md, st) \<Rightarrow>
        map_option (\<lambda>(rows, st'). (md\<lparr>md_db := setdefault (md_db md) rows\<rparr>, st'))
          (complete_record_entry_for_db env buf ops st))"

fun pid_loop ::
  "export_config \<Rightarrow> mem_env \<Rightarrow> (int \<times> nat list) list \<Rightarrow> (int \<times> MemoryUseBean list) list \<Rightarrow> memory_data \<times> mem_state
     \<Rightarrow> (memory_data \<times> mem_state) option" where
  "pid_loop cfg env torch_op_dict [] s = Some s"
| "pid_loop cfg env torch_op_dict ((pid, records) # rest) s =
     (case map_of torch_op_dict pid of
        None \<Rightarrow> pid_loop cfg env torch_op_dict rest s
      | Some ops0 \<Rightarrow>
          (let ops = sort_key (start_time (me_nodes env)) ops0
           in Option.bind (entries_of (map snd (group_by mr_ptr records))) (\<lambda>entries.
                let buf = sort_key (\<lambda>g. mr_time_ns (hd g)) entries
                in Option.bind (if ex_text cfg then text_step env buf ops s else Some s) (\<lambda>s1.
                     if ex_text cfg \<and> ex_default_db cfg then db_step env buf ops s1
                     else Option.bind (if ex_db cfg then db_step env buf ops s1 else Some s1)
                            (pid_loop cfg env torch_op_dict rest)))))"

definition add_pta_memory_data ::
  "export_config \<Rightarrow> mem_env \<Rightarrow> nat list \<Rightarrow> MemoryUseBean list \<Rightarrow> mem_state
     \<Rightarrow> (MemoryUseBean list \<times> memory_data \<times> mem_state) option" where
  "add_pta_memory_data cfg env op_nodes pta_memory_data st =
     (let npu = filter is_npu (sort_key mr_time_ns pta_memory_data)
      in map_option (Pair npu)
           (pid_loop cfg env (group_by (node_pid (me_nodes env)) op_nodes)
              (group_by mr_pid (filter is_inner_allocator npu)) (\<lparr>md_text = None, md_db = None\<rparr>, st)))"

definition mem_start :: mem_state where
  "mem_start = \<lparr>ms_dequeue_index = [], ms_torch_index = [], ms_names = [], ms_torch_ops = [], ms_incomplete = 0\<rparr>"

definition generate_memory ::
  "export_config \<Rightarrow> mem_env \<Rightarrow> queue_mark list \<Rightarrow> queue_mark list \<Rightarrow> MemoryUseBean list
     \<Rightarrow> (MemoryUseBean list \<times> memory_data \<times> mem_state) option" where
  "generate_memory cfg env enq deq pta_memory_data =
     add_pta_memory_data cfg (init_queue_info enq deq env) (tl [0..<length (me_nodes env)]) pta_memory_data mem_start"

declare valid_loop.simps [code] running_loop.simps [code] aten_loop.simps [code]

end
