(* ===== verification/Memory_Props.thy ===== *)
theory Memory_Props
  imports Memory_Prepare Op_Tree_Props "HOL-Library.Sublist"
begin

text \<open>
  How memory records are grouped to allocations, and which operation an allocation is attributed to.
\<close>

section \<open>Groups\<close>

abbreviation is_malloc :: "MemoryUseBean \<Rightarrow> bool" where
  "is_malloc r \<equiv> mr_data_type r = MEMORY_MALLOC"

fun grab :: "nat \<Rightarrow> int list \<Rightarrow> MemoryUseBean list \<Rightarrow> MemoryUseBean list" where
  "grab (Suc k) seen (r # rs) =
     (if mr_data_type r \<in> set seen then [] else r # grab k (seen @ [mr_data_type r]) rs)"
| "grab k seen rs = []"

lemma grab_prefix: "prefix (grab k seen rs) rs"
  by (induction k seen rs rule: grab.induct) auto

lemma grab_split: "grab k seen rs @ drop (length (grab k seen rs)) rs = rs"
  using grab_prefix [of k seen rs] by (metis append_eq_conv_conj prefix_def)

lemma grab_length: "length (grab k seen rs) \<le> k"
  by (induction k seen rs rule: grab.induct) auto

lemma grab_types: "distinct (map mr_data_type (grab k seen rs)) \<and> set seen \<inter> mr_data_type ` set (grab k seen rs) = {}"
  by (induction k seen rs rule: grab.induct) auto

text \<open>The reference: an allocation takes the records after it, at most two and of different kinds.\<close>

function groups :: "MemoryUseBean list \<Rightarrow> MemoryUseBean list list" where
  "groups [] = []"
| "groups (r # rs) =
     (if is_malloc r
      then let g = grab 2 [mr_data_type r] rs in (r # g) # groups (drop (length g) rs)
      else groups rs)"
  by pat_completeness auto
termination
  by (relation "measure length") auto

lemma valid_loop_groups:
  assumes "r = l + length buf" "types = map mr_data_type buf" "length buf \<le> 3"
    and "buf \<noteq> [] \<Longrightarrow> l < length records \<and> is_malloc (records ! l)"
  shows "valid_loop records l r buf types ret = Some (ret @
    (if buf = [] then groups (drop r records)
     else let g = grab (3 - length buf) types (drop r records) in (buf @ g) # groups (drop (r + length g) records)))"
  using assms
proof (induction "2 * (length records - r) + (if buf = [] then 0 else 1)" arbitrary: l r buf types ret rule: less_induct)
  case less
  show ?case
  proof (cases "r < length records")
    case False
    then show ?thesis
      unfolding valid_loop.simps [of records l r buf types ret] using less.prems by auto
  next
    case True
    have d: "drop r records = records ! r # drop (Suc r) records" using True by (simp add: Cons_nth_drop_Suc)
    show ?thesis
    proof (cases "buf = []")
      case True
      then have l: "l = r" using less.prems by simp
      show ?thesis
      proof (cases "is_malloc (records ! r)")
        case malloc: True
        have "valid_loop records l r buf types ret = valid_loop records l (Suc r) [records ! r] [mr_data_type (records ! r)] ret"
          using less.prems \<open>buf = []\<close> \<open>r < length records\<close> malloc
          by (subst valid_loop.simps) (simp add: PTA_RECORD_TYPE_NUM_def)
        also have "\<dots> = Some (ret @ (let g = grab 2 [mr_data_type (records ! r)] (drop (Suc r) records)
            in ([records ! r] @ g) # groups (drop (Suc r + length g) records)))"
        proof -
          have lt: "2 * (length records - Suc r) + (if [records ! r] = [] then 0 else 1)
              < 2 * (length records - r) + (if buf = [] then 0 else 1)" using \<open>r < length records\<close> by simp
          show ?thesis
            using less.hyps [OF lt, of l "[mr_data_type (records ! r)]" ret] \<open>r < length records\<close> malloc l by simp
        qed
        also have "\<dots> = Some (ret @ groups (drop r records))"
          unfolding d using malloc by (simp add: Let_def add.commute)
        finally show ?thesis using \<open>buf = []\<close> by simp
      next
        case False
        have "valid_loop records l r buf types ret = valid_loop records (Suc r) (Suc r) buf types ret"
          using less.prems \<open>buf = []\<close> \<open>r < length records\<close> False by (subst valid_loop.simps) simp
        also have "\<dots> = Some (ret @ groups (drop (Suc r) records))"
          using less.hyps [of "Suc r" buf "Suc r" types ret] less.prems \<open>buf = []\<close> \<open>r < length records\<close> by simp
        finally show ?thesis using \<open>buf = []\<close> False by (simp add: d)
      qed
    next
      case buf: False
      then have l: "l < length records" "is_malloc (records ! l)" using less.prems by auto
      show ?thesis
      proof (cases "length buf < 3 \<and> mr_data_type (records ! r) \<notin> set types")
        case True
        then obtain k where k: "3 - length buf = Suc k" "3 - Suc (length buf) = k" by (cases "3 - length buf") auto
        have "valid_loop records l r buf types ret =
            valid_loop records l (Suc r) (buf @ [records ! r]) (types @ [mr_data_type (records ! r)]) ret"
          using l True \<open>r < length records\<close> by (subst valid_loop.simps) (simp add: PTA_RECORD_TYPE_NUM_def)
        also have "\<dots> = Some (ret @ (let g = grab k (types @ [mr_data_type (records ! r)]) (drop (Suc r) records)
            in ((buf @ [records ! r]) @ g) # groups (drop (Suc r + length g) records)))"
          using less.hyps [of "Suc r" "buf @ [records ! r]" l "types @ [mr_data_type (records ! r)]" ret]
            less.prems True l k \<open>r < length records\<close> by simp
        finally show ?thesis using buf True by (simp add: d k Let_def)
      next
        case False
        have g: "grab (3 - length buf) types (drop r records) = []"
          unfolding d using False less.prems(3) by (cases "3 - length buf") auto
        have "valid_loop records l r buf types ret = valid_loop records r r [] [] (ret @ [buf])"
          using l False \<open>r < length records\<close> by (subst valid_loop.simps) (auto simp: PTA_RECORD_TYPE_NUM_def)
        also have "\<dots> = Some ((ret @ [buf]) @ groups (drop r records))"
          using less.hyps [of r "[]" r "[]" "ret @ [buf]"] buf by simp
        finally show ?thesis using buf by (simp add: g)
      qed
    qed
  qed
qed

lemma get_valid_record_entry_groups: "get_valid_record_entry records = Some (groups records)"
  using valid_loop_groups [of 0 0 "[]" "[]" records "[]"] by (simp add: get_valid_record_entry_def)

lemma grab_no_malloc: "MEMORY_MALLOC \<in> set seen \<Longrightarrow> filter is_malloc (grab k seen rs) = []"
  by (induction k seen rs rule: grab.induct) auto

lemma groups_heads: "map hd (groups rs) = filter is_malloc rs"
proof (induction rs rule: groups.induct)
  case (2 r rs)
  show ?case
  proof (cases "is_malloc r")
    case True
    let ?g = "grab 2 [mr_data_type r] rs"
    have "filter is_malloc rs = filter is_malloc ?g @ filter is_malloc (drop (length ?g) rs)"
      by (metis filter_append grab_split)
    then show ?thesis using 2(1) True grab_no_malloc [of "[mr_data_type r]" 2 rs] by (simp add: Let_def)
  qed (use 2(2) in simp)
qed simp

lemma groups_shape:
  "g \<in> set (groups rs) \<Longrightarrow> 1 \<le> length g \<and> length g \<le> 3 \<and> distinct (map mr_data_type g) \<and> sublist g rs"
proof (induction rs rule: groups.induct)
  case (2 r rs)
  let ?g = "grab 2 [mr_data_type r] rs"
  have tl: "sublist h (r # rs)" if "sublist h (drop n rs)" for h n
    using that sublist_drop [of n rs] by (meson sublist_Cons_right sublist_order.order_trans)
  show ?case
  proof (cases "is_malloc r")
    case True
    then consider "g = r # ?g" | "g \<in> set (groups (drop (length ?g) rs))" using 2(3) by (auto simp: Let_def)
    then show ?thesis
    proof cases
      case 1
      have "prefix g (r # rs)" using 1 grab_prefix by simp
      then show ?thesis
        using 1 grab_length [of 2 "[mr_data_type r]" rs] grab_types [of 2 "[mr_data_type r]" rs]
        by (auto simp: prefix_imp_sublist)
    next
      case 2
      then show ?thesis using "2.IH"(1) [OF True refl] tl by blast
    qed
  next
    case False
    then show ?thesis using 2(2,3) tl [of g 0] by auto
  qed
qed simp

lemma groups_subseq: "subseq (concat (groups rs)) rs"
proof (induction rs rule: groups.induct)
  case (2 r rs)
  show ?case
  proof (cases "is_malloc r")
    case True
    let ?g = "grab 2 [mr_data_type r] rs"
    have "subseq (?g @ concat (groups (drop (length ?g) rs))) (?g @ drop (length ?g) rs)"
      using "2.IH"(1) [OF True refl] by (intro list_emb_append_mono) simp_all
    then show ?thesis using True by (simp add: Let_def grab_split)
  qed (use 2(2) in \<open>simp add: list_emb_Cons\<close>)
qed simp

text \<open>
  C29: The grouping of the memory records of an address always ends and gives one group for every
  allocation record, in their order and with the allocation first. A group has at most three records,
  of different kinds, that follow each other in the input, and no record is in two groups.
\<close>

theorem memory_groups:
  "\<exists>gs. get_valid_record_entry records = Some gs \<and> map hd gs = filter (\<lambda>r. mr_data_type r = MEMORY_MALLOC) records
     \<and> subseq (concat gs) records
     \<and> list_all (\<lambda>g. 1 \<le> length g \<and> length g \<le> 3 \<and> distinct (map mr_data_type g) \<and> sublist g records) gs"
  using get_valid_record_entry_groups [of records] groups_heads [of records] groups_subseq [of records]
    groups_shape [of _ records] by (auto simp: list_all_iff)

section \<open>Attribution to operations\<close>

definition reached :: "int list \<Rightarrow> int \<Rightarrow> nat" where
  "reached starts ts = length (takeWhile (\<lambda>s. s \<le> ts) starts)"



definition counted :: "op_store \<Rightarrow> nat \<Rightarrow> bool" where
  "counted ns i \<longleftrightarrow> node_name ns i \<noteq> ''empty_tensor'' \<and> node_name ns i \<noteq> ''malloc_workspace''"






definition search_inv :: "mem_env \<Rightarrow> nat list \<Rightarrow> int \<Rightarrow> mem_state \<Rightarrow> bool" where
  "search_inv env ops t st \<longleftrightarrow> (\<forall>tid.
     torch_ops_of st tid = filter (\<lambda>i. node_tid (me_nodes env) i = tid) (filter (counted (me_nodes env)) ops)
     \<and> index_at (ms_torch_index st) (tid, False) \<le> reached (map (start_time (me_nodes env)) (torch_ops_of st tid)) t)"

lemma search_inv_incomplete [simp]: "search_inv env ops t (st\<lparr>ms_incomplete := k\<rparr>) = search_inv env ops t st"
  by (simp add: search_inv_def torch_ops_of_def)

context op_forest
begin

lemma aten_total: "i < length ns \<Longrightarrow> \<exists>n. aten_loop ns i = Some n"
proof (induction i rule: less_induct)
  case (less i)
  then show ?case
    using parent_before [OF less.prems] by (subst aten_loop.simps) (auto split: option.splits)
qed

end








definition demo_env :: mem_env where
  "demo_env = \<lparr>me_nodes = sample_tree, me_enqueue = [], me_dequeue = (\<lambda>_. []), me_dequeue_pids = {}, me_dequeue_tids = {},
     me_device_ids = [0]\<rparr>"

definition demo_alloc :: "nat \<Rightarrow> int \<Rightarrow> MemoryUseBean" where
  "demo_alloc n t = \<lparr>mr_id = n, mr_ptr = 64, mr_time_ns = t, mr_alloc_size = 512, mr_total_allocated = 512,
     mr_total_reserved = 1024, mr_total_active = 512, mr_stream_ptr = 3, mr_device_type = 20, mr_device_index = 0,
     mr_component_type = 0, mr_data_type = 0, mr_allocator_type = 0, mr_tid = 1, mr_pid = 1\<rparr>"


text \<open>
  The builder puts the operations of all threads into one tree, so the operation around another may
  be one of another thread: an allocation made after the last operation of its thread has ended goes
  to an operation that another thread happens to run.
\<close>

definition two_threads :: mem_env where
  "two_threads = demo_env\<lparr>me_nodes := the (build_tree
     [\<lparr>oe_ts = 10, oe_end = 90, oe_name = ''aten::copy_'', oe_tid = 2, oe_pid = 1\<rparr>,
      \<lparr>oe_ts = 15, oe_end = 20, oe_name = ''aten::mul'', oe_tid = 1, oe_pid = 1\<rparr>] [])\<rparr>"

lemma names_cross_threads:
  "map_option (map mw_name \<circ> fst) (complete_record_entry_for_db two_threads [[demo_alloc 1 25]] [1, 2] mem_start)
     = Some [''aten::copy_'']
   \<and> mr_tid (demo_alloc 1 25) = 1 \<and> node_tid (me_nodes two_threads) 1 = 2"
  by code_simp

text \<open>
  An allocation without release misses two records; when both views are written, the warning counts
  it twice. Of several processes, only the rows of the first are kept.
\<close>

lemma incomplete_counted_twice:
  "missing [demo_alloc 1 30] = 2
   \<and> (case add_pta_memory_data \<lparr>ex_text = True, ex_db = True, ex_default_db = False\<rparr> demo_env [1, 2, 3] [demo_alloc 1 30] mem_start of
        Some (_, _, st) \<Rightarrow> ms_incomplete st = 4 | None \<Rightarrow> False)"
  by code_simp

definition two_processes :: mem_env where
  "two_processes = demo_env\<lparr>me_nodes := the (build_tree
     (sample_ops @ [\<lparr>oe_ts = 60, oe_end = 90, oe_name = ''aten::add'', oe_tid = 2, oe_pid = 8\<rparr>]) [])\<rparr>"

lemma second_process_dropped:
  "case add_pta_memory_data \<lparr>ex_text = False, ex_db = True, ex_default_db = False\<rparr> two_processes [1, 2, 3, 4]
      [demo_alloc 1 17, (demo_alloc 2 65)\<lparr>mr_pid := 8, mr_tid := 2\<rparr>] mem_start of
     Some (records, md, _) \<Rightarrow> length records = 2 \<and> map_option (map mw_time) (md_db md) = Some [17]
   | None \<Rightarrow> False"
  by code_simp

end
