(* ===== verification/Kernel_Relation.thy ===== *)
theory Kernel_Relation
  imports Fwk_Parser "HOL-Library.List_Lexorder" "HOL-Library.Char_ord"
begin

text \<open>
  The relation between framework operations and device kernels:
  \<open>prof_parse/_fwk_cann_relation_parser.py\<close>, the flow events of \<open>prof_parse/_cann_file_parser.py\<close> and of
  \<open>prof_view/_trace_view_parser.py\<close>, and the steps of the kernel view
  (\<open>prof_view/_kernel_view_parser.py\<close>).

  The JSON objects of the device timeline are records; their time stamps are texts, their durations are
  given in nanoseconds (the code multiplies a floating-point number by 1000).  The properties of an
  event are computed when it becomes a kernel.
\<close>

section \<open>Kernels of the device timeline\<close>

record timeline_event =
  tl_ph :: string
  tl_cat :: "string option"
  tl_id :: int
  tl_pid :: int
  tl_tid :: int
  tl_ts :: string
  tl_dur_ns :: int
  tl_name :: string
  tl_args_name :: string

record EventBean =
  k_name :: string
  k_pid :: int
  k_tid :: int
  k_ts :: int
  k_end_ns :: int

definition event_bean :: "timeline_event \<Rightarrow> EventBean res" where
  "event_bean e =
     rbind (convert_us2ns (tl_ts e) [CHR 0x09]) (\<lambda>ts.
       Inr \<lparr>k_name = tl_name e, k_pid = tl_pid e, k_tid = tl_tid e, k_ts = ts, k_end_ns = ts + tl_dur_ns e\<rparr>)"

definition unique_id :: "timeline_event \<Rightarrow> string" where
  "unique_id e = py_str_int (tl_pid e) @ ''-'' @ py_str_int (tl_tid e) @ ''-'' @ tl_ts e"

record flow =
  fl_start :: "timeline_event option"
  fl_end :: "timeline_event option"

type_synonym timeline_index = "(int \<times> flow) list \<times> (string \<times> timeline_event) list"

definition flow_at :: "(int \<times> flow) list \<Rightarrow> int \<Rightarrow> flow" where
  "flow_at d i = (case map_of d i of Some f \<Rightarrow> f | None \<Rightarrow> \<lparr>fl_start = None, fl_end = None\<rparr>)"

text \<open>The first start and the first end of a flow are kept, and the last event of an identity.\<close>

definition index_event :: "timeline_event \<Rightarrow> timeline_index \<Rightarrow> timeline_index" where
  "index_event e acc =
     (case acc of (flows, events) \<Rightarrow>
        (if tl_cat e = Some ''HostToDevice'' \<and> tl_ph e = ''s''
         then let f = flow_at flows (tl_id e)
              in (AList.update (tl_id e) (if fl_start f = None then f\<lparr>fl_start := Some e\<rparr> else f) flows, events)
         else if tl_cat e = Some ''HostToDevice'' \<and> tl_ph e = ''f''
         then let f = flow_at flows (tl_id e)
              in (AList.update (tl_id e) (if fl_end f = None then f\<lparr>fl_end := Some e\<rparr> else f) flows, events)
         else if tl_ph e = ''X'' then (flows, AList.update (unique_id e) e events)
         else (flows, events)))"

type_synonym 'k kernel_dict = "(int \<times> 'k list) list"

definition kernels_at :: "'k kernel_dict \<Rightarrow> int \<Rightarrow> 'k list" where
  "kernels_at d t = (case map_of d t of Some ks \<Rightarrow> ks | None \<Rightarrow> [])"

fun relate_flows :: "(string \<times> timeline_event) list \<Rightarrow> flow list \<Rightarrow> EventBean kernel_dict \<Rightarrow> EventBean kernel_dict res" where
  "relate_flows events [] d = Inr d"
| "relate_flows events (f # fs) d =
     (case (fl_start f, fl_end f) of
        (Some s, Some e) \<Rightarrow>
          (case map_of events (unique_id e) of
             None \<Rightarrow> relate_flows events fs d
           | Some ev \<Rightarrow>
               rbind (convert_us2ns (tl_ts s) [CHR 0x09]) (\<lambda>t.
               rbind (event_bean ev) (\<lambda>k.
                 relate_flows events fs (AList.update t (kernels_at d t @ [k]) d))))
      | _ \<Rightarrow> relate_flows events fs d)"

definition combine_acl_to_npu :: "timeline_event list \<Rightarrow> EventBean kernel_dict res" where
  "combine_acl_to_npu timeline_data =
     (case fold index_event timeline_data ([], []) of (flows, events) \<Rightarrow> relate_flows events (map snd flows) [])"

section \<open>Kernels of a task\<close>

text \<open>
  The loops over intervals that are shared by \<open>combine_kernel_dict\<close> and \<open>_update_step_node_info\<close>: from
  the remembered index on, the first interval that is not over before the time; \<open>True\<close> when it has
  begun.
\<close>

function seek :: "(int \<times> int) list \<Rightarrow> int \<Rightarrow> nat \<Rightarrow> nat \<times> bool" where
  "seek ivs t i =
     (if i < length ivs
      then (if fst (ivs ! i) > t then (i, False)
            else if t \<le> snd (ivs ! i) then (i, True)
            else seek ivs t (i + 1))
      else (i, False))"
  by pat_completeness auto
termination
  by (relation "measure (\<lambda>(ivs, t, i). length ivs - i)") auto

declare seek.simps [simp del]

definition mark_span :: "queue_mark \<Rightarrow> int \<times> int" where
  "mark_span m = (qm_ts m, qm_ts m + qm_dur m)"

definition combine_step ::
  "'k kernel_dict \<Rightarrow> queue_mark list \<Rightarrow> int \<Rightarrow> nat \<times> 'k kernel_dict \<Rightarrow> nat \<times> 'k kernel_dict" where
  "combine_step acl deq t acc =
     (case acc of (index, d) \<Rightarrow>
        (case seek (map mark_span deq) t index of (i, hit) \<Rightarrow>
           (i, if hit then AList.update (om_corr_id (deq ! i)) (kernels_at d (om_corr_id (deq ! i)) @ kernels_at acl t) d else d)))"

definition combine_kernel_dict :: "'k kernel_dict \<Rightarrow> queue_mark list \<Rightarrow> 'k kernel_dict" where
  "combine_kernel_dict acl_to_npu_dict dequeue_data_list =
     (if dequeue_data_list = [] then acl_to_npu_dict
      else snd (fold (combine_step acl_to_npu_dict dequeue_data_list) (sort (map fst acl_to_npu_dict)) (0, [])))"

section \<open>Steps\<close>

definition step_update :: "nat list \<Rightarrow> (int \<times> int) list \<Rightarrow> int \<Rightarrow> nat \<times> op_store \<Rightarrow> nat \<times> op_store" where
  "step_update steps spans t acc =
     (case acc of (index, ns) \<Rightarrow>
        (case seek spans t index of (i, hit) \<Rightarrow> (i, if hit then update_corr_id_total (steps ! i) t ns else ns)))"

definition update_step_node_info :: "nat list \<Rightarrow> int list \<Rightarrow> op_store \<Rightarrow> nat list \<times> op_store" where
  "update_step_node_info step_node_list acl_start_time_list ns =
     (let steps = sort_key (start_time ns) step_node_list;
          spans = map (\<lambda>i. (start_time ns i, end_time ns i)) steps
      in (steps, snd (fold (step_update steps spans) acl_start_time_list (0, ns))))"

record step_range =
  sr_step_id :: string
  sr_start_ts :: int
  sr_end_ts :: int
  sr_fwk_start_ts :: int

definition step_node_name :: "op_store \<Rightarrow> nat \<Rightarrow> string" where
  "step_node_name ns i = (case on_event (ns ! i) of Some e \<Rightarrow> oe_name e | None \<Rightarrow> '''')"

definition first_nonempty :: "'a list list \<Rightarrow> 'a list" where
  "first_nonempty xss = (case filter (\<lambda>xs. xs \<noteq> []) xss of [] \<Rightarrow> [] | xs # _ \<Rightarrow> xs)"

definition range_of_step :: "op_store \<Rightarrow> EventBean kernel_dict \<Rightarrow> nat \<Rightarrow> step_range list" where
  "range_of_step ns kernel_dict i =
     (let corr_ids = sort (on_total (ns ! i))
      in if on_total (ns ! i) = [] then []
         else let min_kernels = first_nonempty (map (kernels_at kernel_dict) corr_ids);
                  max_kernels = first_nonempty (map (kernels_at kernel_dict) (rev corr_ids));
                  device_start = (if min_kernels \<noteq> [] then Min (set (map k_ts min_kernels)) else start_time ns i);
                  device_end = (if max_kernels \<noteq> [] then Max (set (map k_end_ns max_kernels)) else -1)
              in [\<lparr>sr_step_id = last (split_str ''#'' (step_node_name ns i)), sr_start_ts = device_start,
                   sr_end_ts = max device_end (end_time ns i), sr_fwk_start_ts = start_time ns i\<rparr>])"

definition get_step_range :: "bool \<Rightarrow> op_store \<Rightarrow> nat \<Rightarrow> EventBean kernel_dict \<Rightarrow> step_range list \<times> op_store" where
  "get_step_range has_task_queue ns root kernel_dict =
     (if kernel_dict = [] then ([], ns)
      else let step_nodes = filter (is_profiler_step ns) (on_children (ns ! root))
           in if step_nodes = [] then ([], ns)
              else (case (if has_task_queue then (step_nodes, ns)
                          else update_step_node_info step_nodes (sort (map fst kernel_dict)) ns) of
                      (steps, ns') \<Rightarrow> (concat (map (range_of_step ns' kernel_dict) steps), ns')))"

section \<open>The trace view\<close>

definition prune_trace_by_level :: "string list \<Rightarrow> timeline_event list \<Rightarrow> timeline_event list" where
  "prune_trace_by_level prune_config data =
     filter (\<lambda>e. \<not> list_ex (\<lambda>key. prefix key (tl_name e) \<or> tl_args_name e = key) prune_config) data"

definition node_timed :: "op_store \<Rightarrow> nat \<Rightarrow> timed" where
  "node_timed ns i =
     (case on_event (ns ! i) of
        Some e \<Rightarrow> \<lparr>td_name = oe_name e, td_pid = oe_pid e, td_tid = oe_tid e, td_ts = oe_ts e, td_dur = oe_dur e, td_args = []\<rparr>
      | None \<Rightarrow> \<lparr>td_name = '''', td_pid = 0, td_tid = 0, td_ts = 0, td_dur = 0, td_args = []\<rparr>)"

definition kernel_timed :: "EventBean \<Rightarrow> timed" where
  "kernel_timed k = \<lparr>td_name = k_name k, td_pid = k_pid k, td_tid = k_tid k, td_ts = k_ts k, td_dur = k_end_ns k - k_ts k, td_args = []\<rparr>"

definition node_flows :: "op_store \<Rightarrow> nat \<Rightarrow> EventBean list \<Rightarrow> trace_event list" where
  "node_flows ns i ks = concat (map (\<lambda>k. create_torch_to_npu_flow (node_timed ns i) (kernel_timed k)) ks)"

fun direct_flows :: "op_store \<Rightarrow> nat \<Rightarrow> EventBean kernel_dict \<Rightarrow> int list \<Rightarrow> trace_event list option" where
  "direct_flows ns root acl [] = Some []"
| "direct_flows ns root acl (t # ts) =
     (case match_self_torch_op t root ns of
        None \<Rightarrow> None
      | Some None \<Rightarrow> direct_flows ns root acl ts
      | Some (Some i) \<Rightarrow> map_option ((@) (node_flows ns i (kernels_at acl t))) (direct_flows ns root acl ts))"

definition queued_flows :: "op_store \<Rightarrow> EventBean kernel_dict \<Rightarrow> nat list \<Rightarrow> trace_event list" where
  "queued_flows ns kernel_dict nodes =
     concat (map (\<lambda>i. concat (map (\<lambda>c. node_flows ns i (kernels_at kernel_dict c)) (on_self (ns ! i)))) nodes)"

definition get_flow_event ::
  "bool \<Rightarrow> op_store \<Rightarrow> queue_mark list \<Rightarrow> EventBean kernel_dict \<Rightarrow> trace_event list option" where
  "get_flow_event has_task_queue ns deq acl =
     (if \<not> has_task_queue then direct_flows ns 0 acl (map fst acl)
      else Some (queued_flows ns (combine_kernel_dict acl deq) (tl [0..<length ns])))"

section \<open>The kernel view\<close>

text \<open>The bounds of a step are texts, like the time stamps they are compared with.\<close>

definition step_texts :: "step_range \<Rightarrow> string \<times> string \<times> string" where
  "step_texts r = (sr_step_id r, us_str (sr_start_ts r), us_str (sr_end_ts r))"

definition kernel_step :: "(string \<times> string \<times> string) list \<Rightarrow> string \<Rightarrow> string option" where
  "kernel_step steps ts = map_option fst (find (\<lambda>(_, s, e). s \<le> ts \<and> ts \<le> e) steps)"

end
