(* ===== verification/Kernel_Relation_Props.thy ===== *)
theory Kernel_Relation_Props
  imports Kernel_Relation Op_Tree_Props Fwk_Props
begin

text \<open>
  Which kernels a task is given, and which operation a kernel is linked to.
\<close>

section \<open>Intervals that follow each other\<close>

definition covers :: "int \<times> int \<Rightarrow> int \<Rightarrow> bool" where
  "covers iv t \<longleftrightarrow> fst iv \<le> t \<and> t \<le> snd iv"

definition separate :: "(int \<times> int) list \<Rightarrow> bool" where
  "separate ivs \<longleftrightarrow> sorted (map fst ivs)"

text \<open>The reference: the first interval of the list that covers the time.\<close>

definition first_cover :: "(int \<times> int) list \<Rightarrow> int \<Rightarrow> nat option" where
  "first_cover ivs t = find (\<lambda>i. covers (ivs ! i) t) [0..<length ivs]"

lemma first_cover_Some:
  "first_cover ivs t = Some i \<longleftrightarrow> i < length ivs \<and> covers (ivs ! i) t \<and> (\<forall>j < i. \<not> covers (ivs ! j) t)"
  by (force simp: first_cover_def find_Some_iff)

lemma first_cover_None: "first_cover ivs t = None \<longleftrightarrow> (\<forall>i < length ivs. \<not> covers (ivs ! i) t)"
  by (auto simp: first_cover_def find_None_iff)

definition passed :: "(int \<times> int) list \<Rightarrow> nat \<Rightarrow> int \<Rightarrow> bool" where
  "passed ivs i t \<longleftrightarrow> i \<le> length ivs \<and> (\<forall>k < i. snd (ivs ! k) < t)"

lemma passed_later: "passed ivs i t \<Longrightarrow> t \<le> t' \<Longrightarrow> passed ivs i t'"
  by (force simp: passed_def)

lemma seek_end: "\<not> i < length ivs \<Longrightarrow> seek ivs t i = (i, False)"
  by (subst seek.simps) simp

lemma seek_ok:
  assumes "separate ivs" and "passed ivs i t"
  shows "passed ivs (fst (seek ivs t i)) t
    \<and> first_cover ivs t = (if snd (seek ivs t i) then Some (fst (seek ivs t i)) else None)"
  using assms
proof (induction ivs t i rule: seek.induct)
  case (1 ivs t i)
  have before: "\<not> covers (ivs ! k) t" if "k < i" for k using that 1(3) by (auto simp: passed_def covers_def)
  show ?case
  proof (cases "i < length ivs")
    case False
    then have "i = length ivs" using 1(3) by (simp add: passed_def)
    then have "seek ivs t i = (i, False)" "first_cover ivs t = None"
      using before by (auto simp: seek_end first_cover_None)
    then show ?thesis using 1(3) by simp
  next
    case True
    consider "fst (ivs ! i) > t" | "fst (ivs ! i) \<le> t" "t \<le> snd (ivs ! i)" | "fst (ivs ! i) \<le> t" "snd (ivs ! i) < t"
      by linarith
    then show ?thesis
    proof cases
      case 1
      have "\<not> covers (ivs ! k) t" if "k < length ivs" for k
      proof (cases "k < i")
        case False
        then have "fst (ivs ! i) \<le> fst (ivs ! k)"
          using \<open>separate ivs\<close> that True by (simp add: separate_def sorted_iff_nth_mono)
        then show ?thesis using 1 by (simp add: covers_def)
      qed (rule before)
      then show ?thesis using 1 True \<open>passed ivs i t\<close> by (simp add: seek.simps [of ivs t i] first_cover_None)
    next
      case 2
      then have "first_cover ivs t = Some i" using True before by (simp add: first_cover_Some covers_def)
      then show ?thesis using 2 True \<open>passed ivs i t\<close> by (simp add: seek.simps [of ivs t i])
    next
      case 3
      have "passed ivs (i + 1) t" using \<open>passed ivs i t\<close> 3 True by (auto simp: passed_def less_Suc_eq)
      then have "passed ivs (fst (seek ivs t (i + 1))) t
          \<and> first_cover ivs t = (if snd (seek ivs t (i + 1)) then Some (fst (seek ivs t (i + 1))) else None)"
        using 1(1) True 3 \<open>separate ivs\<close> by simp
      then show ?thesis using 3 True by (simp add: seek.simps [of ivs t i])
    qed
  qed
qed

section \<open>Kernels of a task\<close>

definition task_at :: "queue_mark list \<Rightarrow> int \<Rightarrow> int option" where
  "task_at deq t = map_option (\<lambda>i. om_corr_id (deq ! i)) (first_cover (map mark_span deq) t)"

lemma kernels_at_update: "kernels_at (AList.update c ks d) c' = (if c = c' then ks else kernels_at d c')"
  by (simp add: kernels_at_def update_conv)

lemma combine_fold:
  assumes "separate (map mark_span deq)" and "sorted ts" and "\<forall>t \<in> set ts. passed (map mark_span deq) i t"
  shows "kernels_at (snd (fold (combine_step acl deq) ts (i, d))) c =
    kernels_at d c @ concat (map (\<lambda>t. if task_at deq t = Some c then kernels_at acl t else []) ts)"
  using assms
proof (induction ts arbitrary: i d)
  case (Cons t ts)
  let ?ivs = "map mark_span deq"
  obtain j hit where s: "seek ?ivs t i = (j, hit)" by fastforce
  note ok = seek_ok [OF Cons.prems(1), of i t]
  have j: "passed ?ivs j t" "task_at deq t = (if hit then Some (om_corr_id (deq ! j)) else None)"
    using ok Cons.prems(3) by (auto simp: s task_at_def)
  let ?d = "if hit then AList.update (om_corr_id (deq ! j)) (kernels_at d (om_corr_id (deq ! j)) @ kernels_at acl t) d else d"
  have "\<forall>t' \<in> set ts. passed ?ivs j t'" using Cons.prems(2) passed_later [OF j(1)] by auto
  then have "kernels_at (snd (fold (combine_step acl deq) ts (j, ?d))) c =
      kernels_at ?d c @ concat (map (\<lambda>t. if task_at deq t = Some c then kernels_at acl t else []) ts)"
    using Cons.IH [OF Cons.prems(1)] Cons.prems(2) by simp
  moreover have "combine_step acl deq t (i, d) = (j, ?d)" by (simp add: combine_step_def s)
  ultimately show ?case using j(2) by (simp add: kernels_at_update)
qed simp

lemma kernel_dict_tasks:
  assumes "deq \<noteq> []" and "sorted (map qm_ts deq)"
  shows "kernels_at (combine_kernel_dict acl deq) c =
    concat (map (\<lambda>t. if task_at deq t = Some c then kernels_at acl t else []) (sort (map fst acl)))"
proof -
  have "separate (map mark_span deq)" using assms(2) by (simp add: separate_def mark_span_def comp_def)
  from combine_fold [OF this, of "sort (map fst acl)" 0 acl "[]" c] show ?thesis
    using assms(1) by (simp add: combine_kernel_dict_def passed_def kernels_at_def)
qed

text \<open>
  C12: When the dequeued tasks are listed by their start, every kernel is given to exactly the first
  task during which it was launched, and the kernels of a task are in the order of their launches;
  kernels launched outside of every task are left out.
\<close>

theorem kernel_dict_exact:
  assumes "deq \<noteq> []" and "sorted (map qm_ts deq)"
  shows "kernels_at (combine_kernel_dict acl deq) c =
    concat (map (\<lambda>t. if task_at deq t = Some c then kernels_at acl t else []) (sort (map fst acl)))"
  by (rule kernel_dict_tasks [OF assms])

definition demo_mark :: "mark_category \<Rightarrow> int \<Rightarrow> int \<Rightarrow> int \<Rightarrow> op_mark" where
  "demo_mark cat t c tid =
     \<lparr>om_time_ns = t, om_category = cat, om_corr_id = c, om_tid = tid, om_pid = 1, om_origin_name = ''add''\<rparr>"

definition demo_marks :: "op_mark list" where
  "demo_marks = [demo_mark DEQUEUE_START 100 7 2, demo_mark DEQUEUE_END 120 7 2,
     demo_mark DEQUEUE_START 130 8 2, demo_mark DEQUEUE_END 150 8 2]"

definition demo_deq :: "queue_mark list" where
  "demo_deq = snd (get_task_queue_data demo_marks)"

definition demo_kernel :: "int \<Rightarrow> EventBean" where
  "demo_kernel t = \<lparr>k_name = ''Add'', k_pid = 9, k_tid = 3, k_ts = t, k_end_ns = t + 5\<rparr>"

definition demo_acl :: "EventBean kernel_dict" where
  "demo_acl = [(145, [demo_kernel 300]), (110, [demo_kernel 200, demo_kernel 210]), (125, [demo_kernel 250])]"

lemma demo_deq_starts: "demo_deq \<noteq> []" "sorted (map qm_ts demo_deq)"
  by code_simp+

theorem kernel_dict_exact_witness:
  "kernels_at (combine_kernel_dict demo_acl demo_deq) 7 = [demo_kernel 200, demo_kernel 210]"
  using kernel_dict_exact [OF demo_deq_starts, of demo_acl 7] by code_simp

text \<open>
  The parser of the task queue lists the dequeued tasks by their end.  When two threads dequeue, a
  short task can stand before a long one that started earlier; the loop then stops at the short task,
  and a kernel that the long task launched before is not given to any task.
\<close>

definition two_dequeuers :: "op_mark list" where
  "two_dequeuers = [demo_mark DEQUEUE_START 100 7 2, demo_mark DEQUEUE_START 120 8 3,
     demo_mark DEQUEUE_END 130 8 3, demo_mark DEQUEUE_END 150 7 2]"

lemma overlapping_dequeues_lose_kernels:
  "let deq = snd (get_task_queue_data two_dequeuers)
   in map (\<lambda>m. (om_corr_id m, mark_span m)) deq = [(8, 120, 130), (7, 100, 150)]
     \<and> task_at deq 110 = Some 7
     \<and> kernels_at (combine_kernel_dict [(110, [demo_kernel 200])] deq) 7 = []
     \<and> kernels_at (combine_kernel_dict [(110, [demo_kernel 200])] deq) 8 = []"
  by code_simp

section \<open>From operations to kernels\<close>

definition op_timed :: "op_event \<Rightarrow> timed" where
  "op_timed e = \<lparr>td_name = oe_name e, td_pid = oe_pid e, td_tid = oe_tid e, td_ts = oe_ts e, td_dur = oe_dur e, td_args = []\<rparr>"

lemma kernels_at_nonempty: "k \<in> set (kernels_at d t) \<Longrightarrow> t \<in> set (map fst d)"
  using map_of_eq_None_iff [of d t] by (auto simp: kernels_at_def split: option.splits)

lemma node_timed_built: "0 < i \<Longrightarrow> i \<le> length ps \<Longrightarrow> node_timed (tree_store ops ps ms) i = op_timed (ops ! (i - 1))"
  by (simp add: node_timed_def tree_node_def op_timed_def)

definition links_to :: "(nat \<times> int) list \<Rightarrow> queue_mark list \<Rightarrow> EventBean kernel_dict \<Rightarrow> nat \<Rightarrow> EventBean \<Rightarrow> bool" where
  "links_to ms deq acl i k \<longleftrightarrow>
     0 < i \<and> (\<exists>c t. (i, c) \<in> set ms \<and> task_at deq t = Some c \<and> k \<in> set (kernels_at acl t))"

lemma queued_flows_built:
  assumes "owners [] (merged_events ops marks) = (ps, ms)" and "deq \<noteq> []" and "sorted (map qm_ts deq)"
  shows "set (queued_flows (tree_store (sort_key oe_ts ops) ps ms) (combine_kernel_dict acl deq) (tl [0..<Suc (length ps)])) =
    (\<Union>i \<in> {1..length ps}. \<Union>k \<in> {k. links_to ms deq acl i k}.
       set (create_torch_to_npu_flow (op_timed (sort_key oe_ts ops ! (i - 1))) (kernel_timed k)))"
proof -
  let ?ns = "tree_store (sort_key oe_ts ops) ps ms"
  let ?K = "\<lambda>i. {k. links_to ms deq acl i k}"
  have tl: "set (tl [0..<Suc (length ps)]) = {1..length ps}" by (auto simp: tl_upt simp del: upt_Suc)
  have ks: "(\<Union>c \<in> set (on_self (?ns ! i)). set (kernels_at (combine_kernel_dict acl deq) c)) = ?K i"
    if "i \<in> {1..length ps}" for i
    using that kernels_at_nonempty [of _ acl]
    by (fastforce simp: links_to_def tree_node_def kernel_dict_tasks [OF assms(2,3)] split: if_splits)
  have "set (queued_flows ?ns (combine_kernel_dict acl deq) (tl [0..<Suc (length ps)])) =
      (\<Union>i \<in> {1..length ps}. \<Union>k \<in> (\<Union>c \<in> set (on_self (?ns ! i)). set (kernels_at (combine_kernel_dict acl deq) c)).
         set (create_torch_to_npu_flow (node_timed ?ns i) (kernel_timed k)))"
    by (simp add: queued_flows_def node_flows_def tl atLeastLessThanSuc_atLeastAtMost [symmetric] del: upt_Suc)
  also have "\<dots> = (\<Union>i \<in> {1..length ps}. \<Union>k \<in> ?K i.
         set (create_torch_to_npu_flow (op_timed (sort_key oe_ts ops ! (i - 1))) (kernel_timed k)))"
    by (rule SUP_cong [OF refl]) (subst ks, assumption, simp add: node_timed_built)
  finally show ?thesis .
qed

text \<open>
  C13: The arrows of the trace view from operations to kernels, with a task queue whose dequeued tasks
  are listed by their start and at least one of which was recorded: an arrow is drawn from an operation
  to a kernel exactly when the operation is the innermost one open at an enqueue mark and the kernel was
  launched by the task with the mark's correlation id.
\<close>

theorem flows_exact:
  assumes "owners [] (merged_events ops marks) = (ps, ms)" and "deq \<noteq> []" and "sorted (map qm_ts deq)"
  shows "\<exists>ns fs. build_tree ops marks = Some ns \<and> get_flow_event True ns deq acl = Some fs
    \<and> set fs = (\<Union>i \<in> {1..length ps}. \<Union>k \<in> {k. links_to ms deq acl i k}.
          set (create_torch_to_npu_flow (op_timed (sort_key oe_ts ops ! (i - 1))) (kernel_timed k)))"
  using queued_flows_built [OF assms] tree_built [OF assms(1)] by (simp add: get_flow_event_def del: upt_Suc)

definition demo_enqueue_ops :: "op_event list" where
  "demo_enqueue_ops = [\<lparr>oe_ts = 10, oe_end = 90, oe_name = ''aten::add'', oe_tid = 1, oe_pid = 1\<rparr>]"

lemma demo_owned: "owners [] (merged_events demo_enqueue_ops [(20, 7), (95, 8)]) = ([0], [(1, 7), (0, 8)])"
  by code_simp

theorem flows_exact_witness:
  "\<exists>ns fs. build_tree demo_enqueue_ops [(20, 7), (95, 8)] = Some ns \<and> get_flow_event True ns demo_deq demo_acl = Some fs
     \<and> set (create_torch_to_npu_flow (op_timed (demo_enqueue_ops ! 0)) (kernel_timed (demo_kernel 200))) \<subseteq> set fs"
proof -
  obtain ns fs where f: "build_tree demo_enqueue_ops [(20, 7), (95, 8)] = Some ns" "get_flow_event True ns demo_deq demo_acl = Some fs"
    "set fs = (\<Union>i \<in> {1..length [0 :: nat]}. \<Union>k \<in> {k. links_to [(1, 7), (0, 8)] demo_deq demo_acl i k}.
       set (create_torch_to_npu_flow (op_timed (sort_key oe_ts demo_enqueue_ops ! (i - 1))) (kernel_timed k)))"
    using flows_exact [OF demo_owned demo_deq_starts, of demo_acl] by blast
  have "task_at demo_deq 110 = Some 7" "kernels_at demo_acl 110 = [demo_kernel 200, demo_kernel 210]" by code_simp+
  then have "links_to [(1, 7), (0, 8)] demo_deq demo_acl 1 (demo_kernel 200)" by (auto simp: links_to_def)
  moreover have "sort_key oe_ts demo_enqueue_ops ! 0 = demo_enqueue_ops ! 0" by code_simp
  ultimately show ?thesis using f by fastforce
qed

section \<open>Steps\<close>

text \<open>
  The kernel view compares times as texts.  Texts of the same length compare like the numbers, but a
  kernel at 10 microseconds is not found in the step from 9 to 11 microseconds.
\<close>

lemmas us_str_eval = us_str_def convert_ns2us_str_def Let_def py_str_int_def py_str_nat_def digits_rev.simps char_of_def bit_0

lemma kernel_step_by_text:
  "kernel_step [step_texts \<lparr>sr_step_id = ''3'', sr_start_ts = 9000, sr_end_ts = 11000, sr_fwk_start_ts = 0\<rparr>]
     (us_str 10000) = None
   \<and> kernel_step [step_texts \<lparr>sr_step_id = ''3'', sr_start_ts = 11000, sr_end_ts = 13000, sr_fwk_start_ts = 0\<rparr>]
     (us_str 12000) = Some ''3''"
proof -
  have us: "us_str 9000 = ''9.000''" "us_str 10000 = ''10.000''" "us_str 11000 = ''11.000''"
    "us_str 12000 = ''12.000''" "us_str 13000 = ''13.000''"
    by (simp_all add: us_str_eval)
  show ?thesis by (simp add: kernel_step_def step_texts_def us)
qed

end
