(* ===== verification/Tiling.thy ===== *)
theory Tiling
  imports Prelude "HOL-Library.List_Lexorder" "HOL-Library.Char_ord"
begin

text \<open>
  Split and tiling of the axes of a generated kernel, under \<open>torch_npu/_inductor\<close>: the choice of the axes
  (\<open>codegen/split_tiling.py\<close>), the candidates of block sizes for the autotuner (\<open>codegen/tile_generator.py\<close>),
  and the configurations and launch grid made from them (\<open>npu_triton_heuristics.py\<close>).

  An axis is its position in the kernel's \<open>sorted_axis\<close>; the lists of names and sizes have one entry per
  axis, because \<open>create_inductor_meta\<close> and \<open>get_size_hints\<close> build them from \<open>sorted_axis\<close>.  Sizes are
  integers (static shapes).  The number of vector cores and PyTorch's \<open>next_power_of_2\<close> are parameters.
  Comparisons of a floating-point quotient with 0.2 and 0.8 are written with integers; for quotients of
  numbers below \<open>2 ^ 50\<close> they are the same.
\<close>

section \<open>Element types\<close>

datatype dtype =
    Float32 | Float64 | Float16 | BFloat16 | Int32 | Int64 | Int16 | Int8 | UInt8 | Bool
  | Complex32 | Complex64 | Complex128 | OtherDtype

fun byte_per_numel :: "dtype \<Rightarrow> int option" where
  "byte_per_numel Float32 = Some 4"
| "byte_per_numel Float64 = Some 8"
| "byte_per_numel Float16 = Some 2"
| "byte_per_numel BFloat16 = Some 2"
| "byte_per_numel Int32 = Some 4"
| "byte_per_numel Int64 = Some 8"
| "byte_per_numel Int16 = Some 2"
| "byte_per_numel Int8 = Some 1"
| "byte_per_numel UInt8 = Some 1"
| "byte_per_numel Bool = Some 1"
| "byte_per_numel Complex32 = Some 4"
| "byte_per_numel Complex64 = Some 8"
| "byte_per_numel Complex128 = Some 16"
| "byte_per_numel OtherDtype = None"

definition get_byte_per_numel :: "dtype option \<Rightarrow> int res" where
  "get_byte_per_numel d =
     (case d of
        None \<Rightarrow> Inr 1
      | Some d \<Rightarrow> (case byte_per_numel d of Some b \<Rightarrow> Inr b | None \<Rightarrow> Inl KeyError))"

section \<open>Choice of the axes\<close>

record kaxis =
  ax_name :: string
  ax_length :: int
  ax_reduction :: bool
  ax_modular :: bool

record kernel =
  kn_axes :: "kaxis list"
  kn_low_dims :: "nat list"
  kn_reduction_vars :: "nat list"
  kn_need_permute :: bool

text \<open>The sort key of an axis, a text; \<open>sort(reverse=True)\<close> keeps the order of equal keys.\<close>

definition axis_key :: "kaxis \<Rightarrow> string" where
  "axis_key x =
     (let c = hd (ax_name x)
      in if c = CHR ''w'' \<or> c = CHR ''v'' \<or> c = CHR ''t'' then ''zz'' @ ax_name x
         else if ax_modular x then c # CHR ''0'' # tl (ax_name x)
         else ax_name x)"

definition sort_reverse :: "('a \<Rightarrow> 'b :: linorder) \<Rightarrow> 'a list \<Rightarrow> 'a list" where
  "sort_reverse f xs = rev (sort_key f (rev xs))"

definition sort_axes :: "kernel \<Rightarrow> nat list \<Rightarrow> nat list" where
  "sort_axes kn = sort_reverse (\<lambda>i. axis_key (kn_axes kn ! i))"

definition total_split_numels :: "kernel \<Rightarrow> nat list \<Rightarrow> int" where
  "total_split_numels kn axes = prod_list (map (\<lambda>i. ax_length (kn_axes kn ! i)) axes)"

definition split_stop :: "int \<Rightarrow> kernel \<Rightarrow> nat list \<Rightarrow> bool" where
  "split_stop ncores kn split \<longleftrightarrow> total_split_numels kn split \<ge> ncores \<or> length split = 3"

definition select_one_split_axis :: "kernel \<Rightarrow> bool \<Rightarrow> bool \<Rightarrow> nat list \<Rightarrow> nat option" where
  "select_one_split_axis kn not_reduction not_low_dims split =
     find (\<lambda>i. \<not> (not_reduction \<and> ax_reduction (kn_axes kn ! i)) \<and> \<not> (not_low_dims \<and> i \<in> set (kn_low_dims kn)) \<and> i \<notin> set split)
       [0..<length (kn_axes kn)]"

lemma select_one_SomeD:
  "select_one_split_axis kn r l split = Some i \<Longrightarrow> i < length (kn_axes kn) \<and> i \<notin> set split"
  by (auto simp: select_one_split_axis_def find_Some_iff)

lemma select_one_shrinks:
  assumes "select_one_split_axis kn r l split = Some i"
  shows "length (filter (\<lambda>j. j \<notin> set (split @ [i])) [0..<length (kn_axes kn)])
    < length (filter (\<lambda>j. j \<notin> set split) [0..<length (kn_axes kn)])"
proof -
  let ?all = "[0..<length (kn_axes kn)]"
  have "filter (\<lambda>j. j \<notin> set (split @ [i])) ?all = filter (\<lambda>j. j \<noteq> i) (filter (\<lambda>j. j \<notin> set split) ?all)"
    by (simp add: conj_commute)
  moreover have "i \<in> set (filter (\<lambda>j. j \<notin> set split) ?all)" using select_one_SomeD [OF assms] by simp
  ultimately show ?thesis using length_filter_less [of i _ "\<lambda>j. j \<noteq> i"] by metis
qed

function split_loop :: "int \<Rightarrow> kernel \<Rightarrow> nat \<Rightarrow> nat list \<Rightarrow> nat list" where
  "split_loop ncores kn tries split =
     (if split_stop ncores kn split then split
      else case select_one_split_axis kn True True split of
             Some i \<Rightarrow> split_loop ncores kn (tries + 1) (split @ [i])
           | None \<Rightarrow>
               (case select_one_split_axis kn True False split of
                  Some i \<Rightarrow> split_loop ncores kn (tries + 1) (split @ [i])
                | None \<Rightarrow> (if tries + 1 > 10 then split else split_loop ncores kn (tries + 1) split)))"
  by pat_completeness auto
termination
  by (relation "measures [\<lambda>(ncores, kn, tries, split). length (filter (\<lambda>j. j \<notin> set split) [0..<length (kn_axes kn)]),
        \<lambda>(ncores, kn, tries, split). 11 - tries]")
     (use select_one_shrinks in auto)

declare split_loop.simps [simp del]

definition select_split_axis :: "int \<Rightarrow> kernel \<Rightarrow> nat list" where
  "select_split_axis ncores kn =
     (let split = split_loop ncores kn 0 [];
          split' = (if split = [] \<and> kn_axes kn \<noteq> [] then [0] else split)
      in sort_axes kn split')"

definition tiling_stop :: "kernel \<Rightarrow> nat list \<Rightarrow> bool" where
  "tiling_stop kn tiling =
     (let total_numel = (if kn_axes kn \<noteq> [] then sum_list (map ax_length (kn_axes kn)) else 1);
          tiling_numel = (if tiling \<noteq> [] then sum_list (map (\<lambda>i. ax_length (kn_axes kn ! i)) tiling) else 1)
      in if length (kn_reduction_vars kn) > 1 \<and> list_all (\<lambda>i. i \<in> set tiling) (kn_reduction_vars kn) then True
         else (kn_need_permute kn \<or> 5 * tiling_numel \<ge> 4 * total_numel) \<and> length tiling \<ge> min 2 (length (kn_axes kn)))"

text \<open>The first pass takes the low and the reduction axes, the later ones any axis until the stop.\<close>

definition require_axis :: "kernel \<Rightarrow> nat \<Rightarrow> nat list \<Rightarrow> nat list" where
  "require_axis kn i ts =
     (let ts1 = (if i \<in> set (kn_low_dims kn) \<and> i \<notin> set ts then ts @ [i] else ts)
      in if ax_reduction (kn_axes kn ! i) \<and> i \<notin> set ts1 then ts1 @ [i] else ts1)"

definition tiling_required :: "kernel \<Rightarrow> nat list \<Rightarrow> nat list" where
  "tiling_required kn tiling = fold (require_axis kn) (rev [0..<length (kn_axes kn)]) tiling"

fun tiling_any :: "kernel \<Rightarrow> nat list \<Rightarrow> nat list \<Rightarrow> nat list" where
  "tiling_any kn [] ts = ts"
| "tiling_any kn (i # axes) ts =
     (let ts1 = (if i \<notin> set ts then ts @ [i] else ts)
      in if tiling_stop kn ts1 then ts1 else tiling_any kn axes ts1)"

text \<open>At most eleven passes: \<open>n\<close> passes are left.\<close>

primrec tiling_loop :: "kernel \<Rightarrow> nat \<Rightarrow> nat list \<Rightarrow> nat list" where
  "tiling_loop kn 0 ts = ts"
| "tiling_loop kn (Suc n) ts =
     (if tiling_stop kn ts then ts else tiling_loop kn n (tiling_any kn (rev [0..<length (kn_axes kn)]) ts))"

definition select_tiling_axis :: "kernel \<Rightarrow> nat list" where
  "select_tiling_axis kn = sort_axes kn (tiling_loop kn 11 (tiling_required kn []))"

section \<open>Candidates of block sizes\<close>

type_synonym config = "(string \<times> int) list"

record TileGenerator =
  tg_numels :: "int list"
  tg_blocks :: "int list"
  tg_candidates :: "int list list"
  tg_sub_blocks :: "int list"
  tg_axis_name :: "string list"
  tg_tiling :: "nat list"
  tg_split :: "nat list"
  tg_low_dims :: "nat list"
  tg_configs :: "config list"
  tg_bytes :: int
  tg_persistent :: bool
  tg_dual :: bool

text \<open>The device's number of vector cores and PyTorch's rounding up to a power of two.\<close>

record tile_target =
  cores :: int
  next_power_of_2 :: "int \<Rightarrow> int"

definition upper_char :: "char \<Rightarrow> char" where
  "upper_char c = (let k = (of_char c :: nat) in if 97 \<le> k \<and> k \<le> 122 then char_of (k - 32) else c)"

definition block_name :: "string list \<Rightarrow> nat \<Rightarrow> string" where
  "block_name names axis = map upper_char (names ! axis) @ ''BLOCK''"

definition sub_block_name :: "string list \<Rightarrow> nat \<Rightarrow> string" where
  "sub_block_name names axis = map upper_char (names ! axis) @ ''BLOCK_SUB''"

definition stop_numel :: "TileGenerator \<Rightarrow> int" where
  "stop_numel tg = 1024 div tg_bytes tg"

definition initial_blocks :: "int list \<Rightarrow> nat list \<Rightarrow> nat list \<Rightarrow> int list" where
  "initial_blocks numels tiling split =
     map (\<lambda>i. if i \<notin> set tiling \<and> i \<notin> set split then 1 else numels ! i) [0..<length numels]"

definition tile_generator ::
  "int list \<Rightarrow> string list \<Rightarrow> nat list \<Rightarrow> nat list \<Rightarrow> nat list \<Rightarrow> bool \<Rightarrow> dtype option \<Rightarrow> bool \<Rightarrow> TileGenerator res" where
  "tile_generator numels names tiling split low persistent d dual =
     rbind (get_byte_per_numel d) (\<lambda>b.
       Inr \<lparr>tg_numels = numels, tg_blocks = initial_blocks numels tiling split, tg_candidates = [],
            tg_sub_blocks = initial_blocks numels tiling split, tg_axis_name = names, tg_tiling = tiling, tg_split = split,
            tg_low_dims = low, tg_configs = [], tg_bytes = b, tg_persistent = persistent, tg_dual = dual\<rparr>)"

definition py_div :: "int \<Rightarrow> int \<Rightarrow> int res" where
  "py_div a b = (if b = 0 then Inl ZeroDivisionError else Inr (a div b))"

definition programs_of :: "TileGenerator \<Rightarrow> nat \<Rightarrow> int res" where
  "programs_of tg x = py_div (tg_numels tg ! x + tg_blocks tg ! x - 1) (tg_blocks tg ! x)"

fun splits_before :: "TileGenerator \<Rightarrow> nat \<Rightarrow> nat list \<Rightarrow> int \<Rightarrow> int res" where
  "splits_before tg axis [] splits = Inr splits"
| "splits_before tg axis (x # xs) splits =
     (if x \<noteq> axis then rbind (programs_of tg x) (\<lambda>p. splits_before tg axis xs (splits * p)) else Inr splits)"

definition calcu_last_split_blocks :: "tile_target \<Rightarrow> TileGenerator \<Rightarrow> nat \<Rightarrow> int res" where
  "calcu_last_split_blocks T tg axis =
     rbind (splits_before tg axis (tg_split tg) 1) (\<lambda>splits.
     rbind (py_div (cores T) splits) (\<lambda>last_splits.
       py_div (tg_numels tg ! axis + last_splits - 1) last_splits))"

definition aligned_numel :: "TileGenerator \<Rightarrow> int \<Rightarrow> int" where
  "aligned_numel tg numel =
     (let min_numel = 32 div tg_bytes tg
      in if numel \<le> min_numel then numel else ((numel + min_numel - 1) div min_numel) * min_numel)"

definition valid_tile_numel :: "TileGenerator \<Rightarrow> int \<Rightarrow> bool" where
  "valid_tile_numel tg tot \<longleftrightarrow> tot \<le> 16384 * 4 div tg_bytes tg"

definition config_get :: "config \<Rightarrow> string \<Rightarrow> int res" where
  "config_get cfg k = (case map_of cfg k of Some v \<Rightarrow> Inr v | None \<Rightarrow> Inl KeyError)"

fun config_numel :: "config \<Rightarrow> string list \<Rightarrow> int \<Rightarrow> int res" where
  "config_numel cfg [] tot = Inr tot"
| "config_numel cfg (k # ks) tot = rbind (config_get cfg k) (\<lambda>v. config_numel cfg ks (tot * v))"

definition calculate_config_numel :: "TileGenerator \<Rightarrow> config \<Rightarrow> int res" where
  "calculate_config_numel tg cfg = config_numel cfg (map (sub_block_name (tg_axis_name tg)) (tg_tiling tg)) 1"

definition sub_numel :: "TileGenerator \<Rightarrow> int" where
  "sub_numel tg = prod_list (map (\<lambda>i. tg_sub_blocks tg ! i) (tg_tiling tg))"

definition sys_maxsize :: int where "sys_maxsize = 2 ^ 63 - 1"

text \<open>The number of elements does not depend on the candidate it is computed for.\<close>

definition calculate_total_numel :: "TileGenerator \<Rightarrow> int" where
  "calculate_total_numel tg =
     fold (\<lambda>_ smallest. if sub_numel tg < smallest then sub_numel tg else smallest) (tg_candidates tg) sys_maxsize"

definition fill_config :: "TileGenerator \<Rightarrow> int list \<Rightarrow> config" where
  "fill_config tg blocks =
     fold (\<lambda>i. AList.update (sub_block_name (tg_axis_name tg) i) (aligned_numel tg (tg_sub_blocks tg ! i))) (tg_tiling tg)
       (fold (\<lambda>i. AList.update (block_name (tg_axis_name tg) i) (blocks ! i)) (tg_split tg) [])"

definition same_dict :: "config \<Rightarrow> config \<Rightarrow> bool" where
  "same_dict a b \<longleftrightarrow> list_all (\<lambda>k. map_of a k = map_of b k) (map fst a @ map fst b)"

definition find_config :: "TileGenerator \<Rightarrow> config \<Rightarrow> bool" where
  "find_config tg cfg = list_ex (\<lambda>c. same_dict c cfg) (tg_configs tg)"

definition add_to_configs :: "int list \<Rightarrow> TileGenerator \<Rightarrow> TileGenerator res" where
  "add_to_configs blocks tg =
     (let cfg = fill_config tg blocks
      in rbind (calculate_config_numel tg cfg) (\<lambda>tot.
           Inr (if valid_tile_numel tg tot \<and> \<not> find_config tg cfg then tg\<lparr>tg_configs := tg_configs tg @ [cfg]\<rparr> else tg)))"

fun add_candidates :: "int list list \<Rightarrow> TileGenerator \<Rightarrow> TileGenerator res" where
  "add_candidates [] tg = Inr tg"
| "add_candidates (b # bs) tg = rbind (add_to_configs b tg) (add_candidates bs)"

fun grid_product :: "TileGenerator \<Rightarrow> nat list \<Rightarrow> int \<Rightarrow> int res" where
  "grid_product tg [] acc = Inr acc"
| "grid_product tg (x # xs) acc = rbind (programs_of tg x) (\<lambda>p. grid_product tg xs (acc * p))"

definition calc_total_programs :: "TileGenerator \<Rightarrow> int res" where
  "calc_total_programs tg = grid_product tg (tg_split tg) 1"

definition set_block :: "nat \<Rightarrow> int \<Rightarrow> TileGenerator \<Rightarrow> TileGenerator" where
  "set_block axis v tg = tg\<lparr>tg_blocks := (tg_blocks tg)[axis := v]\<rparr>"

definition set_sub_block :: "nat \<Rightarrow> int \<Rightarrow> TileGenerator \<Rightarrow> TileGenerator" where
  "set_sub_block axis v tg = tg\<lparr>tg_sub_blocks := (tg_sub_blocks tg)[axis := v]\<rparr>"

definition push_blocks :: "TileGenerator \<Rightarrow> TileGenerator" where
  "push_blocks tg = tg\<lparr>tg_candidates := tg_candidates tg @ [tg_blocks tg]\<rparr>"

definition is_persistent_axis :: "TileGenerator \<Rightarrow> nat \<Rightarrow> bool" where
  "is_persistent_axis tg axis \<longleftrightarrow> tg_persistent tg \<and> take 1 (tg_axis_name tg ! axis) = ''r''"

text \<open>One round of the descent along a split axis, in its three parts.\<close>

definition last_block_part :: "tile_target \<Rightarrow> nat \<Rightarrow> int \<Rightarrow> TileGenerator \<Rightarrow> TileGenerator res" where
  "last_block_part T axis total_programs tg =
     (if total_programs > cores T
      then rbind (calcu_last_split_blocks T tg axis) (\<lambda>last_blocks.
             Inr (if last_blocks \<noteq> tg_blocks tg ! axis then push_blocks (set_block axis last_blocks tg) else tg))
      else Inr tg)"

definition candidate_part :: "tile_target \<Rightarrow> int \<Rightarrow> bool \<Rightarrow> TileGenerator \<Rightarrow> TileGenerator \<times> bool" where
  "candidate_part T total_programs slow tg =
     (if total_programs > cores T div 2 \<or> tg_dual tg
      then (push_blocks (if length (tg_candidates tg) > 2 then tg\<lparr>tg_candidates := tl (tg_candidates tg)\<rparr> else tg),
            total_programs > cores T div 2)
      else (tg, slow))"

definition shrink_part :: "nat \<Rightarrow> int \<Rightarrow> bool \<Rightarrow> TileGenerator \<Rightarrow> TileGenerator" where
  "shrink_part axis numel slow tg =
     (let b = (if \<not> slow then numel div 2 else numel - (if numel div 4 > 1 then numel div 4 else 1))
      in set_sub_block axis b (set_block axis b tg))"

definition split_step :: "tile_target \<Rightarrow> nat \<Rightarrow> int \<Rightarrow> bool \<Rightarrow> TileGenerator \<Rightarrow> (TileGenerator \<times> bool) res" where
  "split_step T axis numel slow tg =
     rbind (calc_total_programs tg) (\<lambda>total_programs.
     rbind (last_block_part T axis total_programs tg) (\<lambda>tg1.
       (case candidate_part T total_programs slow tg1 of (tg2, slow') \<Rightarrow>
         (let tg3 = shrink_part axis numel slow' tg2
          in rbind (calc_total_programs tg3) (\<lambda>tot.
               Inr (if tg_blocks tg3 ! axis = 1 \<and> (tot > cores T div 2 \<or> tg_dual tg3) then push_blocks tg3 else tg3, slow'))))))"

definition sub_step :: "tile_target \<Rightarrow> nat \<Rightarrow> int \<Rightarrow> TileGenerator \<Rightarrow> TileGenerator" where
  "sub_step T axis numel tg =
     set_sub_block axis (if numel \<ge> 32 then next_power_of_2 T (numel div 2) else tg_sub_blocks tg ! axis - 1) tg"

text \<open>At most thirty rounds: \<open>n\<close> rounds are left.\<close>

primrec descend_loop :: "tile_target \<Rightarrow> nat \<Rightarrow> bool \<Rightarrow> nat \<Rightarrow> bool \<Rightarrow> TileGenerator \<Rightarrow> (bool \<times> TileGenerator) res" where
  "descend_loop T axis is_split 0 slow tg = Inr (False, tg)"
| "descend_loop T axis is_split (Suc n) slow tg =
     rbind (add_candidates (tg_candidates tg) tg) (\<lambda>tg1.
       if calculate_total_numel tg1 \<le> stop_numel tg1
       then rbind (add_to_configs (tg_blocks tg1) tg1) (\<lambda>tg2. Inr (True, tg2))
       else let numel = (if is_split then tg_blocks tg1 ! axis else tg_sub_blocks tg1 ! axis)
            in if numel = 1 then rbind (add_to_configs (tg_blocks tg1) tg1) (\<lambda>tg2. Inr (False, tg2))
               else if is_split
               then (if is_persistent_axis tg1 axis then Inr (True, tg1)
                     else rbind (split_step T axis numel slow tg1) (\<lambda>(tg2, slow'). descend_loop T axis is_split n slow' tg2))
               else descend_loop T axis is_split n slow (sub_step T axis numel tg1))"

definition descend_one_axis :: "tile_target \<Rightarrow> nat \<Rightarrow> bool \<Rightarrow> TileGenerator \<Rightarrow> (bool \<times> TileGenerator) res" where
  "descend_one_axis T axis is_split tg = descend_loop T axis is_split 30 False tg"

definition descent_axis :: "tile_target \<Rightarrow> int \<Rightarrow> nat \<Rightarrow> TileGenerator \<Rightarrow> TileGenerator" where
  "descent_axis T min_numel axis tg =
     (let numel = tg_sub_blocks tg ! axis
      in if is_persistent_axis tg axis then tg
         else if numel = 1 then tg
         else if min_numel > 1 \<and> 5 * \<bar>numel - min_numel\<bar> < min_numel then tg
         else if numel \<ge> 128 then set_sub_block axis (next_power_of_2 T (numel div 2)) tg
         else set_sub_block axis (min (aligned_numel tg (numel div 2)) (next_power_of_2 T (numel div 2))) tg)"

definition descent_all_axis :: "tile_target \<Rightarrow> int \<Rightarrow> TileGenerator \<Rightarrow> TileGenerator" where
  "descent_all_axis T min_numel tg = fold (descent_axis T min_numel) (tg_low_dims tg) tg"

text \<open>At most a hundred rounds; \<open>tot\<close> is the number of elements at the start of the previous round.\<close>

primrec low_dims_loop :: "tile_target \<Rightarrow> int \<Rightarrow> nat \<Rightarrow> int \<Rightarrow> TileGenerator \<Rightarrow> TileGenerator res" where
  "low_dims_loop T min_numel 0 tot tg = Inr tg"
| "low_dims_loop T min_numel (Suc n) tot tg =
     (if tot > stop_numel tg
      then let total_numel = calculate_total_numel tg
           in rbind (add_candidates (tg_candidates tg) tg) (\<lambda>tg1.
                let tg2 = descent_all_axis T min_numel tg1;
                    tg3 = (if total_numel = calculate_total_numel tg2 then descent_all_axis T 0 tg2 else tg2)
                in low_dims_loop T min_numel n total_numel tg3)
      else Inr tg)"

definition descend_all_low_dims :: "tile_target \<Rightarrow> TileGenerator \<Rightarrow> TileGenerator res" where
  "descend_all_low_dims T tg =
     (if tg_low_dims tg = [] then Inr tg
      else low_dims_loop T (Min (set (map (\<lambda>x. tg_sub_blocks tg ! x) (tg_low_dims tg)))) 100 (calculate_total_numel tg) tg)"

fun descend_split_axis :: "tile_target \<Rightarrow> nat list \<Rightarrow> TileGenerator \<Rightarrow> (bool \<times> TileGenerator) res" where
  "descend_split_axis T [] tg = Inr (calculate_total_numel tg \<le> stop_numel tg, tg)"
| "descend_split_axis T (axis # axes) tg =
     rbind (descend_one_axis T axis True tg) (\<lambda>(reached, tg1).
       if reached then Inr (True, tg1) else descend_split_axis T axes tg1)"

fun desceond_tiling_not_low_dims :: "tile_target \<Rightarrow> nat list \<Rightarrow> TileGenerator \<Rightarrow> (bool \<times> TileGenerator) res" where
  "desceond_tiling_not_low_dims T [] tg = Inr (calculate_total_numel tg \<le> stop_numel tg, tg)"
| "desceond_tiling_not_low_dims T (axis # axes) tg =
     (if is_persistent_axis tg axis then desceond_tiling_not_low_dims T axes tg
      else rbind (descend_one_axis T axis False tg) (\<lambda>(reached, tg1).
             if reached then Inr (True, tg1) else desceond_tiling_not_low_dims T axes tg1))"

definition descend_split_tiling :: "tile_target \<Rightarrow> TileGenerator \<Rightarrow> TileGenerator res" where
  "descend_split_tiling T tg =
     (let tiling_not_low_dims = filter (\<lambda>x. x \<notin> set (tg_low_dims tg)) (tg_tiling tg)
      in rbind (descend_split_axis T (tg_split tg) tg) (\<lambda>(reached, tg1).
           if reached then Inr tg1
           else let tg2 = (if tg_candidates tg1 \<noteq> [] then tg1\<lparr>tg_sub_blocks := hd (tg_candidates tg1)\<rparr> else tg1)
                in rbind (desceond_tiling_not_low_dims T tiling_not_low_dims tg2) (\<lambda>(reached', tg3).
                     if reached' then Inr tg3 else descend_all_low_dims T tg3)))"

section \<open>Configurations and the launch grid\<close>

record npu_config =
  cf_kwargs :: config
  cf_split_axis :: "nat list"
  cf_split_blocks :: "int list"

definition fallback_config :: "int list \<Rightarrow> string list \<Rightarrow> nat list \<Rightarrow> config" where
  "fallback_config numels names split =
     (let cfg = fold (\<lambda>x. AList.update (block_name names x) (numels ! x)) split []
      in if cfg = [] then [(''dummy'', 1)] else cfg)"

fun config_values :: "config \<Rightarrow> string list \<Rightarrow> int list res" where
  "config_values cfg [] = Inr []"
| "config_values cfg (k # ks) = rbind (config_get cfg k) (\<lambda>v. rbind (config_values cfg ks) (\<lambda>vs. Inr (v # vs)))"

fun finish_configs :: "string list \<Rightarrow> nat list \<Rightarrow> config list \<Rightarrow> npu_config list res" where
  "finish_configs names split [] = Inr []"
| "finish_configs names split (c # cs) =
     rbind (config_values c (map (block_name names) split)) (\<lambda>bs.
     rbind (finish_configs names split cs) (\<lambda>rest.
       Inr (\<lparr>cf_kwargs = c, cf_split_axis = split, cf_split_blocks = bs\<rparr> # rest)))"

definition triton_config_npu_index ::
  "tile_target \<Rightarrow> int list \<Rightarrow> string list \<Rightarrow> nat list \<Rightarrow> nat list \<Rightarrow> nat list \<Rightarrow> bool \<Rightarrow> dtype option \<Rightarrow> bool \<Rightarrow> npu_config list res" where
  "triton_config_npu_index T size_hints names tiling split low persistent d dual =
     rbind (tile_generator size_hints names tiling split low persistent d dual) (\<lambda>tg.
     rbind (descend_split_tiling T tg) (\<lambda>tg'.
       finish_configs names split
         (if tg_configs tg' = [] then [fallback_config size_hints names split] else tg_configs tg')))"

definition grid_fn :: "int list \<Rightarrow> npu_config \<Rightarrow> nat \<Rightarrow> int" where
  "grid_fn numels c i =
     (if i \<ge> length (cf_split_axis c) then 1
      else let numel = numels ! (cf_split_axis c ! i); block = cf_split_blocks c ! i
           in if block = 1 then numel else (numel + block - 1) div block)"

definition launch_grid :: "int list \<Rightarrow> npu_config \<Rightarrow> int list" where
  "launch_grid numels c = map (grid_fn numels c) [0, 1, 2]"

end
