(* ===== verification/Tiling_Props.thy ===== *)
theory Tiling_Props
  imports Tiling
begin

text \<open>
  The configurations of the autotuner: they exist, fit into the unified buffer, differ from each other,
  and their launch grids cover the iteration space without empty programs.  The generator divides by a
  number that is positive only if the sizes of the earlier split axes do not exceed the number of cores;
  the choice of axes ensures this as long as no low dimension is split.
\<close>

section \<open>The invariant of the generator\<close>

definition config_ok :: "TileGenerator \<Rightarrow> config \<Rightarrow> bool" where
  "config_ok tg c \<longleftrightarrow>
     (\<exists>n. calculate_config_numel tg c = Inr n \<and> valid_tile_numel tg n)
     \<and> (\<forall>i \<in> set (tg_split tg). \<exists>v \<ge> 1. map_of c (block_name (tg_axis_name tg) i) = Some v)"

definition blocks_ok :: "TileGenerator \<Rightarrow> int list \<Rightarrow> bool" where
  "blocks_ok tg bs \<longleftrightarrow> length bs = length (tg_numels tg) \<and> (\<forall>i < length bs. 1 \<le> bs ! i \<and> bs ! i \<le> tg_numels tg ! i)"

definition plan_ok :: "tile_target \<Rightarrow> int list \<Rightarrow> nat list \<Rightarrow> nat list \<Rightarrow> nat list \<Rightarrow> bool" where
  "plan_ok T numels tiling split low \<longleftrightarrow>
     (\<forall>n \<ge> 1. 1 \<le> next_power_of_2 T n) \<and> (\<forall>n \<in> set numels. 1 \<le> n)
     \<and> (\<forall>i \<in> set (tiling @ split @ low). i < length numels)
     \<and> (\<forall>axis \<in> set split. prod_list (map (\<lambda>i. numels ! i) (takeWhile (\<lambda>x. x \<noteq> axis) split)) \<le> cores T)"

definition tile_ok :: "tile_target \<Rightarrow> TileGenerator \<Rightarrow> bool" where
  "tile_ok T tg \<longleftrightarrow>
     plan_ok T (tg_numels tg) (tg_tiling tg) (tg_split tg) (tg_low_dims tg)
     \<and> 1 \<le> tg_bytes tg \<and> tg_bytes tg \<le> 32 \<and> blocks_ok tg (tg_blocks tg)
     \<and> length (tg_sub_blocks tg) = length (tg_numels tg) \<and> (\<forall>b \<in> set (tg_sub_blocks tg). 1 \<le> b)
     \<and> (\<forall>c \<in> set (tg_candidates tg). blocks_ok tg c)
     \<and> (\<forall>c \<in> set (tg_configs tg). config_ok tg c)
     \<and> sorted_wrt (\<lambda>a b. \<not> same_dict a b) (tg_configs tg)"

text \<open>What the descent never changes.\<close>

definition same_plan :: "TileGenerator \<Rightarrow> TileGenerator \<Rightarrow> bool" where
  "same_plan tg tg' \<longleftrightarrow>
     tg_numels tg' = tg_numels tg \<and> tg_axis_name tg' = tg_axis_name tg \<and> tg_tiling tg' = tg_tiling tg
     \<and> tg_split tg' = tg_split tg \<and> tg_low_dims tg' = tg_low_dims tg \<and> tg_bytes tg' = tg_bytes tg"

lemma same_plan_refl [simp]: "same_plan tg tg"
  by (simp add: same_plan_def)

lemma same_plan_trans: "same_plan a b \<Longrightarrow> same_plan b c \<Longrightarrow> same_plan a c"
  by (simp add: same_plan_def)

lemma config_ok_same: "same_plan tg tg' \<Longrightarrow> config_ok tg' c = config_ok tg c"
  by (simp add: config_ok_def same_plan_def calculate_config_numel_def valid_tile_numel_def)

lemma blocks_ok_same: "same_plan tg tg' \<Longrightarrow> blocks_ok tg' c = blocks_ok tg c"
  by (simp add: blocks_ok_def same_plan_def)

text \<open>A step of the generator succeeds, keeps the invariant and does not change the plan.\<close>

definition goes_on :: "tile_target \<Rightarrow> TileGenerator \<Rightarrow> TileGenerator \<Rightarrow> bool" where
  "goes_on T tg tg' \<longleftrightarrow> tile_ok T tg' \<and> same_plan tg tg'"

lemma goes_on_refl: "tile_ok T tg \<Longrightarrow> goes_on T tg tg"
  by (simp add: goes_on_def)

lemma goes_on_trans: "goes_on T a b \<Longrightarrow> goes_on T b c \<Longrightarrow> goes_on T a c"
  by (auto simp: goes_on_def intro: same_plan_trans)

lemma goes_on_ok: "goes_on T a b \<Longrightarrow> tile_ok T b"
  by (simp add: goes_on_def)

section \<open>Single updates\<close>

lemma set_block_ok:
  assumes "tile_ok T tg" and "axis < length (tg_numels tg)" and "1 \<le> v" and "v \<le> tg_numels tg ! axis"
  shows "goes_on T tg (set_block axis v tg)"
proof -
  have same: "same_plan tg (set_block axis v tg)" by (simp add: same_plan_def set_block_def)
  have "blocks_ok tg ((tg_blocks tg)[axis := v])"
    using assms by (auto simp: tile_ok_def blocks_ok_def nth_list_update)
  then show ?thesis using assms(1) same
    by (simp add: goes_on_def tile_ok_def blocks_ok_same [OF same] config_ok_same [OF same]) (simp add: set_block_def)
qed

lemma set_sub_block_ok:
  assumes "tile_ok T tg" and "1 \<le> v"
  shows "goes_on T tg (set_sub_block axis v tg)"
proof -
  have same: "same_plan tg (set_sub_block axis v tg)" by (simp add: same_plan_def set_sub_block_def)
  have "\<forall>b \<in> set ((tg_sub_blocks tg)[axis := v]). 1 \<le> b"
    using assms set_update_subset_insert [of "tg_sub_blocks tg" axis v] by (auto simp: tile_ok_def)
  then show ?thesis using assms(1) same
    by (simp add: goes_on_def tile_ok_def blocks_ok_same [OF same] config_ok_same [OF same]) (simp add: set_sub_block_def)
qed

lemma push_blocks_ok:
  assumes "tile_ok T tg"
  shows "goes_on T tg (push_blocks tg)"
proof -
  have same: "same_plan tg (push_blocks tg)" by (simp add: same_plan_def push_blocks_def)
  show ?thesis using assms same
    by (simp add: goes_on_def tile_ok_def blocks_ok_same [OF same] config_ok_same [OF same]) (auto simp: push_blocks_def)
qed

lemma drop_candidate_ok:
  assumes "tile_ok T tg"
  shows "goes_on T tg (tg\<lparr>tg_candidates := tl (tg_candidates tg)\<rparr>)" (is "goes_on T tg ?tg")
proof -
  have same: "same_plan tg ?tg" by (simp add: same_plan_def)
  have "\<forall>c \<in> set (tl (tg_candidates tg)). blocks_ok tg c" using assms by (cases "tg_candidates tg") (auto simp: tile_ok_def)
  then show ?thesis using assms same
    by (simp add: goes_on_def tile_ok_def blocks_ok_same [OF same] config_ok_same [OF same])
qed

section \<open>New configurations\<close>

lemma fill_fold:
  "map_of (fold (\<lambda>i. AList.update (f i) (g i)) xs d) k =
     (case filter (\<lambda>i. f i = k) xs of [] \<Rightarrow> map_of d k | is \<Rightarrow> Some (g (last is)))"
  by (induction xs arbitrary: d) (auto simp: update_conv split: list.splits)

lemma names_differ: "block_name names i \<noteq> sub_block_name names j"
proof
  assume "block_name names i = sub_block_name names j"
  then have "last (block_name names i) = last (sub_block_name names j)" by simp
  then show False by (simp add: block_name_def sub_block_name_def)
qed

lemma fill_split:
  assumes "i \<in> set (tg_split tg)"
  shows "\<exists>j \<in> set (tg_split tg). map_of (fill_config tg bs) (block_name (tg_axis_name tg) i) = Some (bs ! j)"
proof -
  let ?k = "block_name (tg_axis_name tg) i"
  let ?is = "filter (\<lambda>j. block_name (tg_axis_name tg) j = ?k) (tg_split tg)"
  have "?is \<noteq> []" using assms by (auto simp: filter_empty_conv)
  then have "last ?is \<in> set ?is" by (rule last_in_set)
  moreover have "map_of (fill_config tg bs) ?k = Some (bs ! last ?is)"
    using \<open>?is \<noteq> []\<close> names_differ [symmetric] by (simp add: fill_config_def fill_fold split: list.splits)
  ultimately show ?thesis by auto
qed

lemma fill_sub:
  assumes "i \<in> set (tg_tiling tg)"
  shows "\<exists>v. map_of (fill_config tg bs) (sub_block_name (tg_axis_name tg) i) = Some v"
proof -
  have "filter (\<lambda>j. sub_block_name (tg_axis_name tg) j = sub_block_name (tg_axis_name tg) i) (tg_tiling tg) \<noteq> []"
    using assms by (auto simp: filter_empty_conv)
  then show ?thesis by (auto simp: fill_config_def fill_fold split: list.splits)
qed

lemma config_numel_ok:
  "\<forall>k \<in> set ks. \<exists>v. map_of c k = Some v \<Longrightarrow> \<exists>n. config_numel c ks t = Inr n"
  by (induction ks arbitrary: t) (auto simp: config_get_def)

lemma add_to_configs_ok:
  assumes ok: "tile_ok T tg" and bs: "blocks_ok tg bs"
  shows "\<exists>tg'. add_to_configs bs tg = Inr tg' \<and> goes_on T tg tg' \<and> tg_candidates tg' = tg_candidates tg
    \<and> tg_blocks tg' = tg_blocks tg \<and> tg_sub_blocks tg' = tg_sub_blocks tg \<and> tg_dual tg' = tg_dual tg \<and> tg_persistent tg' = tg_persistent tg"
proof -
  let ?c = "fill_config tg bs"
  obtain n where n: "calculate_config_numel tg ?c = Inr n"
    using config_numel_ok [of "map (sub_block_name (tg_axis_name tg)) (tg_tiling tg)" ?c 1] fill_sub
    by (auto simp: calculate_config_numel_def)
  let ?tg = "if valid_tile_numel tg n \<and> \<not> find_config tg ?c then tg\<lparr>tg_configs := tg_configs tg @ [?c]\<rparr> else tg"
  have step: "add_to_configs bs tg = Inr ?tg" by (simp add: add_to_configs_def n Let_def)
  have same: "same_plan tg ?tg" by (simp add: same_plan_def)
  have split: "\<exists>v \<ge> 1. map_of ?c (block_name (tg_axis_name tg) i) = Some v" if i: "i \<in> set (tg_split tg)" for i
  proof -
    obtain j where "j \<in> set (tg_split tg)" "map_of ?c (block_name (tg_axis_name tg) i) = Some (bs ! j)"
      using fill_split [OF i] by blast
    then show ?thesis using ok bs by (auto simp: tile_ok_def plan_ok_def blocks_ok_def)
  qed
  have "config_ok tg ?c" if "valid_tile_numel tg n" using that n split by (simp add: config_ok_def)
  then have "tile_ok T ?tg" using ok
    by (simp add: tile_ok_def blocks_ok_same [OF same] config_ok_same [OF same])
       (auto simp: sorted_wrt_append find_config_def list_ex_iff)
  then show ?thesis using step same by (auto simp: goes_on_def)
qed

text \<open>What the descent reads of the generator, beside the configurations.\<close>

definition same_tiles :: "TileGenerator \<Rightarrow> TileGenerator \<Rightarrow> bool" where
  "same_tiles tg tg' \<longleftrightarrow> tg_blocks tg' = tg_blocks tg \<and> tg_sub_blocks tg' = tg_sub_blocks tg \<and> tg_candidates tg' = tg_candidates tg"

lemma add_candidates_ok:
  assumes "tile_ok T tg" and "\<forall>b \<in> set bs. blocks_ok tg b"
  shows "\<exists>tg'. add_candidates bs tg = Inr tg' \<and> goes_on T tg tg' \<and> same_tiles tg tg'"
  using assms
proof (induction bs arbitrary: tg)
  case Nil
  then show ?case by (simp add: goes_on_refl same_tiles_def)
next
  case (Cons b bs)
  obtain tg1 where 1: "add_to_configs b tg = Inr tg1" "goes_on T tg tg1" "same_tiles tg tg1"
    using add_to_configs_ok [OF Cons.prems(1)] Cons.prems(2) by (auto simp: same_tiles_def)
  have "\<forall>b \<in> set bs. blocks_ok tg1 b" using Cons.prems(2) 1(2) blocks_ok_same [of tg tg1] by (simp add: goes_on_def)
  then obtain tg2 where "add_candidates bs tg1 = Inr tg2" "goes_on T tg1 tg2" "same_tiles tg1 tg2"
    using Cons.IH [OF goes_on_ok [OF 1(2)]] by blast
  then show ?case using 1 goes_on_trans [of T tg tg1 tg2] by (simp add: same_tiles_def)
qed

section \<open>The number of programs\<close>

lemma ceil_bounds:
  fixes n b :: int
  assumes "1 \<le> n" and "1 \<le> b"
  shows "1 \<le> (n + b - 1) div b" and "(n + b - 1) div b \<le> n" and "n \<le> (n + b - 1) div b * b" and "((n + b - 1) div b - 1) * b < n"
proof -
  let ?q = "(n + b - 1) div b" and ?r = "(n + b - 1) mod b"
  have e: "?q * b + ?r = n + b - 1" by (rule div_mult_mod_eq)
  have r: "0 \<le> ?r" "?r < b" using assms(2) by simp_all
  show n: "n \<le> ?q * b" using e r by linarith
  have "(?q - 1) * b = ?q * b - b" by (simp add: left_diff_distrib)
  then show "(?q - 1) * b < n" using e r by linarith
  show q: "1 \<le> ?q" using n assms by (smt (verit) mult_nonpos_nonneg)
  have "n + b - 1 \<le> n * b" using mult_mono [of 0 "n - 1" 0 "b - 1"] assms by (simp add: algebra_simps)
  then show "?q \<le> n" using zdiv_mono1 [of "n + b - 1" "n * b" b] assms(2) by simp
qed

lemma programs_ok:
  assumes "tile_ok T tg" and "x < length (tg_numels tg)"
  shows "\<exists>p. programs_of tg x = Inr p \<and> 1 \<le> p \<and> p \<le> tg_numels tg ! x"
proof -
  have "1 \<le> tg_numels tg ! x" "1 \<le> tg_blocks tg ! x" using assms by (auto simp: tile_ok_def plan_ok_def blocks_ok_def)
  then show ?thesis using ceil_bounds [of "tg_numels tg ! x" "tg_blocks tg ! x"] by (simp add: programs_of_def py_div_def)
qed

lemma grid_product_ok:
  assumes "tile_ok T tg" and "\<forall>x \<in> set xs. x < length (tg_numels tg)"
  shows "\<exists>p. grid_product tg xs a = Inr p"
  using assms(2)
proof (induction xs arbitrary: a)
  case (Cons x xs)
  then show ?case using programs_ok [OF assms(1), of x] by fastforce
qed simp

lemma splits_before_ok:
  assumes "tile_ok T tg" and "\<forall>x \<in> set xs. x < length (tg_numels tg)" and "1 \<le> a"
  shows "\<exists>p. splits_before tg axis xs a = Inr p \<and> 1 \<le> p
    \<and> p \<le> a * prod_list (map (\<lambda>i. tg_numels tg ! i) (takeWhile (\<lambda>x. x \<noteq> axis) xs))"
  using assms(2,3)
proof (induction xs arbitrary: a)
  case (Cons x xs)
  show ?case
  proof (cases "x = axis")
    case False
    obtain q where q: "programs_of tg x = Inr q" "1 \<le> q" "q \<le> tg_numels tg ! x"
      using programs_ok [OF assms(1)] Cons.prems(1) by auto
    let ?P = "prod_list (map (\<lambda>i. tg_numels tg ! i) (takeWhile (\<lambda>x. x \<noteq> axis) xs))"
    have "1 \<le> a * q" using mult_mono [of 1 a 1 q] q(2) Cons.prems(2) by simp
    then obtain p where p: "splits_before tg axis xs (a * q) = Inr p" "1 \<le> p" "p \<le> a * q * ?P"
      using Cons.IH [of "a * q"] Cons.prems(1) by auto
    have "0 \<le> ?P" using p(2,3) \<open>1 \<le> a * q\<close> by (smt (verit) mult_pos_neg)
    then have "a * q * ?P \<le> a * (tg_numels tg ! x) * ?P"
      using q(3) Cons.prems(2) by (intro mult_right_mono mult_left_mono) auto
    then show ?thesis using False q(1) p by (simp add: mult.assoc)
  qed (use Cons.prems in simp)
qed simp

lemma last_split_ok:
  assumes ok: "tile_ok T tg" and axis: "axis \<in> set (tg_split tg)"
  shows "\<exists>b. calcu_last_split_blocks T tg axis = Inr b \<and> 1 \<le> b \<and> b \<le> tg_numels tg ! axis"
proof -
  have plan: "plan_ok T (tg_numels tg) (tg_tiling tg) (tg_split tg) (tg_low_dims tg)" using ok by (simp add: tile_ok_def)
  obtain s where s: "splits_before tg axis (tg_split tg) 1 = Inr s" "1 \<le> s"
    "s \<le> prod_list (map (\<lambda>i. tg_numels tg ! i) (takeWhile (\<lambda>x. x \<noteq> axis) (tg_split tg)))"
    using splits_before_ok [OF ok, of "tg_split tg" 1 axis] plan by (auto simp: plan_ok_def)
  have "s \<le> cores T" using s(3) plan axis by (fastforce simp: plan_ok_def)
  then have l: "1 \<le> cores T div s" using s(2) by (simp add: int_one_le_iff_zero_less pos_imp_zdiv_pos_iff)
  have "1 \<le> tg_numels tg ! axis" using plan axis by (auto simp: plan_ok_def)
  then show ?thesis using ceil_bounds [of "tg_numels tg ! axis" "cores T div s"] s l
    by (simp add: calcu_last_split_blocks_def py_div_def)
qed

section \<open>The descent\<close>

lemma shrink_ok:
  assumes "tile_ok T tg" and "axis < length (tg_numels tg)" and "2 \<le> numel" and "numel \<le> tg_numels tg ! axis"
  shows "goes_on T tg (shrink_part axis numel slow tg)"
proof -
  let ?b = "if \<not> slow then numel div 2 else numel - (if numel div 4 > 1 then numel div 4 else 1)"
  have b: "1 \<le> ?b" "?b \<le> tg_numels tg ! axis" using assms(3,4) by auto
  note 1 = set_block_ok [OF assms(1,2) b]
  show ?thesis using goes_on_trans [OF 1 set_sub_block_ok [OF goes_on_ok [OF 1] b(1)]]
    by (simp add: shrink_part_def Let_def)
qed

lemma last_block_part_ok:
  assumes "tile_ok T tg" and "axis \<in> set (tg_split tg)" and "axis < length (tg_numels tg)"
  shows "\<exists>tg'. last_block_part T axis tot tg = Inr tg' \<and> goes_on T tg tg'"
proof -
  obtain b where b: "calcu_last_split_blocks T tg axis = Inr b" "1 \<le> b" "b \<le> tg_numels tg ! axis"
    using last_split_ok [OF assms(1,2)] by blast
  note 1 = set_block_ok [OF assms(1,3) b(2,3)]
  have "goes_on T tg (push_blocks (set_block axis b tg))" using goes_on_trans [OF 1 push_blocks_ok [OF goes_on_ok [OF 1]]] .
  then show ?thesis using b(1) goes_on_refl [OF assms(1)] by (simp add: last_block_part_def)
qed

lemma candidate_part_ok:
  assumes "tile_ok T tg"
  shows "goes_on T tg (fst (candidate_part T tot slow tg))"
proof -
  let ?tg = "if length (tg_candidates tg) > 2 then tg\<lparr>tg_candidates := tl (tg_candidates tg)\<rparr> else tg"
  have 1: "goes_on T tg ?tg" using drop_candidate_ok [OF assms] goes_on_refl [OF assms] by simp
  show ?thesis using goes_on_trans [OF 1 push_blocks_ok [OF goes_on_ok [OF 1]]] goes_on_refl [OF assms]
    by (simp add: candidate_part_def)
qed

lemma total_programs_ok:
  assumes "tile_ok T tg"
  shows "\<exists>p. calc_total_programs tg = Inr p"
  using grid_product_ok [OF assms, of "tg_split tg" 1] assms
  by (auto simp: calc_total_programs_def tile_ok_def plan_ok_def)

lemma split_step_ok:
  assumes ok: "tile_ok T tg" and split: "axis \<in> set (tg_split tg)"
    and numel: "2 \<le> numel" "numel \<le> tg_numels tg ! axis"
  shows "\<exists>tg' slow'. split_step T axis numel slow tg = Inr (tg', slow') \<and> goes_on T tg tg'"
proof -
  have axis: "axis < length (tg_numels tg)" using ok split by (simp add: tile_ok_def plan_ok_def)
  obtain p where p: "calc_total_programs tg = Inr p" using total_programs_ok [OF ok] by blast
  obtain tg1 where 1: "last_block_part T axis p tg = Inr tg1" "goes_on T tg tg1" using last_block_part_ok [OF ok split axis] by blast
  obtain tg2 slow' where 2: "candidate_part T p slow tg1 = (tg2, slow')" by fastforce
  have g2: "goes_on T tg tg2" using goes_on_trans [OF 1(2)] candidate_part_ok [OF goes_on_ok [OF 1(2)], of p slow] 2 by simp
  let ?tg3 = "shrink_part axis numel slow' tg2"
  have "goes_on T tg2 ?tg3"
    using shrink_ok [OF goes_on_ok [OF g2], of axis numel slow'] g2 axis numel by (simp add: goes_on_def same_plan_def)
  then have g3: "goes_on T tg ?tg3" by (rule goes_on_trans [OF g2])
  obtain q where q: "calc_total_programs ?tg3 = Inr q" using total_programs_ok [OF goes_on_ok [OF g3]] by blast
  show ?thesis using p 1(1) 2 q g3 goes_on_trans [OF g3 push_blocks_ok [OF goes_on_ok [OF g3]]]
    by (simp add: split_step_def Let_def)
qed

lemma sub_step_ok:
  assumes "tile_ok T tg" and "numel = tg_sub_blocks tg ! axis" and "2 \<le> numel"
  shows "goes_on T tg (sub_step T axis numel tg)"
proof -
  have "1 \<le> next_power_of_2 T (numel div 2)" using assms by (simp add: tile_ok_def plan_ok_def)
  then show ?thesis using set_sub_block_ok [OF assms(1)] assms(2,3) by (simp add: sub_step_def)
qed

lemma descend_loop_ok:
  assumes "tile_ok T tg" and "axis < length (tg_numels tg)" and "is_split \<Longrightarrow> axis \<in> set (tg_split tg)"
  shows "\<exists>r tg'. descend_loop T axis is_split n slow tg = Inr (r, tg') \<and> goes_on T tg tg'"
  using assms
proof (induction n arbitrary: slow tg)
  case 0
  show ?case using goes_on_refl [OF 0(1)] by force
next
  case (Suc n)
  have "\<forall>b \<in> set (tg_candidates tg). blocks_ok tg b" using Suc.prems(1) by (simp add: tile_ok_def)
  then obtain tg1 where 1: "add_candidates (tg_candidates tg) tg = Inr tg1" "goes_on T tg tg1"
    using add_candidates_ok [OF Suc.prems(1)] by blast
  note ok1 = goes_on_ok [OF 1(2)]
  have axis: "axis < length (tg_numels tg1)" "is_split \<Longrightarrow> axis \<in> set (tg_split tg1)"
    using Suc.prems(2,3) 1(2) by (simp_all add: goes_on_def same_plan_def)
  obtain tg2 where 2: "add_to_configs (tg_blocks tg1) tg1 = Inr tg2" "goes_on T tg1 tg2"
    using add_to_configs_ok [OF ok1, of "tg_blocks tg1"] ok1 by (auto simp: tile_ok_def)
  have rec: "\<exists>r tg'. descend_loop T axis is_split n slow' tg3 = Inr (r, tg') \<and> goes_on T tg tg'" if g3: "goes_on T tg1 tg3" for slow' tg3
  proof -
    have "axis < length (tg_numels tg3)" "is_split \<Longrightarrow> axis \<in> set (tg_split tg3)"
      using axis g3 by (simp_all add: goes_on_def same_plan_def)
    then obtain r tg' where "descend_loop T axis is_split n slow' tg3 = Inr (r, tg')" "goes_on T tg3 tg'"
      using Suc.IH [OF goes_on_ok [OF g3]] by blast
    then show ?thesis using goes_on_trans [OF 1(2) goes_on_trans [OF g3]] by blast
  qed
  let ?numel = "if is_split then tg_blocks tg1 ! axis else tg_sub_blocks tg1 ! axis"
  have lo: "1 \<le> ?numel" using ok1 axis by (auto simp: tile_ok_def blocks_ok_def)
  consider "calculate_total_numel tg1 \<le> stop_numel tg1 \<or> ?numel = 1" | "\<not> calculate_total_numel tg1 \<le> stop_numel tg1" "2 \<le> ?numel" "is_split"
    | "\<not> calculate_total_numel tg1 \<le> stop_numel tg1" "2 \<le> ?numel" "\<not> is_split" using lo by linarith
  then show ?case
  proof cases
    case 1
    then show ?thesis using \<open>add_candidates (tg_candidates tg) tg = Inr tg1\<close> 2 goes_on_trans [OF \<open>goes_on T tg tg1\<close> 2(2)] by auto
  next
    case 2
    have "tg_blocks tg1 ! axis \<le> tg_numels tg1 ! axis" using ok1 axis(1) by (simp add: tile_ok_def blocks_ok_def)
    then obtain tg3 slow' where "split_step T axis ?numel slow tg1 = Inr (tg3, slow')" "goes_on T tg1 tg3"
      using split_step_ok [OF ok1 axis(2), of ?numel slow] 2(2,3) by auto
    then show ?thesis using \<open>add_candidates (tg_candidates tg) tg = Inr tg1\<close> 2 rec [of tg3 slow'] \<open>goes_on T tg tg1\<close> by auto
  next
    case 3
    have "goes_on T tg1 (sub_step T axis ?numel tg1)" using sub_step_ok [OF ok1, of ?numel axis] 3(2,3) by simp
    then show ?thesis using \<open>add_candidates (tg_candidates tg) tg = Inr tg1\<close> 3 rec by simp
  qed
qed

lemma descend_split_axis_ok:
  assumes "tile_ok T tg" and "set axes \<subseteq> set (tg_split tg)"
  shows "\<exists>r tg'. descend_split_axis T axes tg = Inr (r, tg') \<and> goes_on T tg tg'"
  using assms
proof (induction axes arbitrary: tg)
  case Nil
  then show ?case by (simp add: goes_on_refl)
next
  case (Cons a axes)
  have a: "a < length (tg_numels tg)" "a \<in> set (tg_split tg)" using Cons.prems by (auto simp: tile_ok_def plan_ok_def)
  obtain r tg1 where 1: "descend_one_axis T a True tg = Inr (r, tg1)" "goes_on T tg tg1"
    using descend_loop_ok [OF Cons.prems(1) a(1), of True 30 False] a(2) by (auto simp: descend_one_axis_def)
  have "set axes \<subseteq> set (tg_split tg1)" using Cons.prems(2) 1(2) by (simp add: goes_on_def same_plan_def)
  then obtain r' tg2 where "descend_split_axis T axes tg1 = Inr (r', tg2)" "goes_on T tg1 tg2"
    using Cons.IH [OF goes_on_ok [OF 1(2)]] by blast
  then show ?case using 1 goes_on_trans [OF 1(2)] by auto
qed

lemma descend_tiling_ok:
  assumes "tile_ok T tg" and "set axes \<subseteq> set (tg_tiling tg)"
  shows "\<exists>r tg'. desceond_tiling_not_low_dims T axes tg = Inr (r, tg') \<and> goes_on T tg tg'"
  using assms
proof (induction axes arbitrary: tg)
  case Nil
  then show ?case by (simp add: goes_on_refl)
next
  case (Cons a axes)
  have a: "a < length (tg_numels tg)" using Cons.prems by (auto simp: tile_ok_def plan_ok_def)
  obtain r tg1 where 1: "descend_one_axis T a False tg = Inr (r, tg1)" "goes_on T tg tg1"
    using descend_loop_ok [OF Cons.prems(1) a(1), of False 30 False] by (auto simp: descend_one_axis_def)
  have "set axes \<subseteq> set (tg_tiling tg1)" using Cons.prems(2) 1(2) by (simp add: goes_on_def same_plan_def)
  then obtain r' tg2 where "desceond_tiling_not_low_dims T axes tg1 = Inr (r', tg2)" "goes_on T tg1 tg2"
    using Cons.IH [OF goes_on_ok [OF 1(2)]] by blast
  then show ?case using 1 goes_on_trans [OF 1(2)] Cons.IH [OF Cons.prems(1)] Cons.prems(2) by auto
qed

lemma descent_axis_ok:
  assumes "tile_ok T tg" and "axis < length (tg_numels tg)"
  shows "goes_on T tg (descent_axis T m axis tg)"
proof -
  let ?n = "tg_sub_blocks tg ! axis"
  have n: "1 \<le> ?n" using assms by (simp add: tile_ok_def)
  have "1 \<le> next_power_of_2 T (?n div 2)" if "?n \<noteq> 1" using assms(1) n that by (simp add: tile_ok_def plan_ok_def)
  moreover have "1 \<le> aligned_numel tg (?n div 2)" if "?n \<noteq> 1"
  proof -
    have h: "1 \<le> ?n div 2" using n that by simp
    have m: "1 \<le> 32 div tg_bytes tg"
      using assms(1) by (simp add: tile_ok_def int_one_le_iff_zero_less pos_imp_zdiv_pos_iff)
    then show ?thesis using h ceil_bounds(3) [OF h m] by (auto simp: aligned_numel_def Let_def)
  qed
  ultimately show ?thesis using goes_on_refl [OF assms(1)] set_sub_block_ok [OF assms(1)]
    by (simp add: descent_axis_def Let_def)
qed

lemma descent_all_ok:
  assumes "tile_ok T tg"
  shows "goes_on T tg (descent_all_axis T m tg)"
proof -
  have "goes_on T tg0 (fold (descent_axis T m) axes tg0)"
    if "tile_ok T tg0" "\<forall>a \<in> set axes. a < length (tg_numels tg0)" for axes tg0
    using that
  proof (induction axes arbitrary: tg0)
    case Nil
    then show ?case by (simp add: goes_on_refl)
  next
    case (Cons a axes)
    have g: "goes_on T tg0 (descent_axis T m a tg0)" using descent_axis_ok [OF Cons.prems(1)] Cons.prems(2) by simp
    then have "\<forall>x \<in> set axes. x < length (tg_numels (descent_axis T m a tg0))"
      using Cons.prems(2) by (simp add: goes_on_def same_plan_def)
    then show ?case using goes_on_trans [OF g] Cons.IH [OF goes_on_ok [OF g]] Cons.prems(2) g
      by (simp add: goes_on_def same_plan_def)
  qed
  then show ?thesis using assms by (simp add: descent_all_axis_def tile_ok_def plan_ok_def)
qed

lemma low_dims_loop_ok:
  assumes "tile_ok T tg"
  shows "\<exists>tg'. low_dims_loop T m n tot tg = Inr tg' \<and> goes_on T tg tg'"
  using assms
proof (induction n arbitrary: tot tg)
  case 0
  then show ?case by (simp add: goes_on_refl)
next
  case (Suc n)
  obtain tg1 where 1: "add_candidates (tg_candidates tg) tg = Inr tg1" "goes_on T tg tg1"
    using add_candidates_ok [OF Suc.prems, of "tg_candidates tg"] Suc.prems by (auto simp: tile_ok_def)
  let ?tg2 = "descent_all_axis T m tg1"
  let ?tg3 = "if calculate_total_numel tg = calculate_total_numel ?tg2 then descent_all_axis T 0 ?tg2 else ?tg2"
  have g2: "goes_on T tg ?tg2" by (rule goes_on_trans [OF 1(2) descent_all_ok [OF goes_on_ok [OF 1(2)]]])
  then have g3: "goes_on T tg ?tg3" using goes_on_trans [OF g2 descent_all_ok [OF goes_on_ok [OF g2]]] by simp
  obtain tg' where "low_dims_loop T m n (calculate_total_numel tg) ?tg3 = Inr tg'" "goes_on T ?tg3 tg'"
    using Suc.IH [OF goes_on_ok [OF g3]] by blast
  then show ?case using 1(1) goes_on_trans [OF g3] goes_on_refl [OF Suc.prems] by (simp add: Let_def)
qed

lemma descend_split_tiling_ok:
  assumes ok: "tile_ok T tg"
  shows "\<exists>tg'. descend_split_tiling T tg = Inr tg' \<and> goes_on T tg tg'"
proof -
  obtain r tg1 where 1: "descend_split_axis T (tg_split tg) tg = Inr (r, tg1)" "goes_on T tg tg1"
    using descend_split_axis_ok [OF ok] by blast
  let ?tg2 = "if tg_candidates tg1 \<noteq> [] then tg1\<lparr>tg_sub_blocks := hd (tg_candidates tg1)\<rparr> else tg1"
  have same: "same_plan tg1 (tg1\<lparr>tg_sub_blocks := b\<rparr>)" for b by (simp add: same_plan_def)
  have "goes_on T tg1 (tg1\<lparr>tg_sub_blocks := hd (tg_candidates tg1)\<rparr>)" if "tg_candidates tg1 \<noteq> []"
  proof -
    have "blocks_ok tg1 (hd (tg_candidates tg1))" using goes_on_ok [OF 1(2)] that by (simp add: tile_ok_def)
    then show ?thesis using goes_on_ok [OF 1(2)]
      by (simp add: goes_on_def same tile_ok_def blocks_ok_same [OF same] config_ok_same [OF same])
         (auto simp: blocks_ok_def in_set_conv_nth)
  qed
  then have g2: "goes_on T tg ?tg2" using 1(2) goes_on_trans by auto
  let ?axes = "filter (\<lambda>x. x \<notin> set (tg_low_dims tg)) (tg_tiling tg)"
  have "set ?axes \<subseteq> set (tg_tiling ?tg2)" using g2 by (auto simp: goes_on_def same_plan_def)
  then obtain r' tg3 where 3: "desceond_tiling_not_low_dims T ?axes ?tg2 = Inr (r', tg3)" "goes_on T ?tg2 tg3"
    using descend_tiling_ok [OF goes_on_ok [OF g2]] by blast
  note g3 = goes_on_trans [OF g2 3(2)]
  have "\<exists>tg4. descend_all_low_dims T tg3 = Inr tg4 \<and> goes_on T tg3 tg4"
    using low_dims_loop_ok [OF goes_on_ok [OF g3]] goes_on_refl [OF goes_on_ok [OF g3]]
    by (simp add: descend_all_low_dims_def)
  then obtain tg4 where 4: "descend_all_low_dims T tg3 = Inr tg4" "goes_on T tg3 tg4" by blast
  show ?thesis using 1 3(1) 4 g3 goes_on_trans [OF g3 4(2)] by (simp add: descend_split_tiling_def Let_def)
qed

section \<open>The configurations\<close>

lemma byte_per_numel_bounds: "byte_per_numel d = Some b \<Longrightarrow> 1 \<le> b \<and> b \<le> 32"
  by (cases d) auto

lemma get_byte_bounds: "get_byte_per_numel d = Inr b \<Longrightarrow> 1 \<le> b \<and> b \<le> 32"
  by (auto simp: get_byte_per_numel_def dest: byte_per_numel_bounds split: option.splits)

lemma generator_ok:
  assumes "plan_ok T numels tiling split low" and "tile_generator numels names tiling split low pers d dual = Inr tg"
  shows "tile_ok T tg"
proof -
  have "\<forall>b \<in> set (initial_blocks numels tiling split). 1 \<le> b" "blocks_ok tg (initial_blocks numels tiling split)"
    using assms by (auto simp: tile_generator_def res_simps initial_blocks_def blocks_ok_def plan_ok_def)
  then show ?thesis using assms get_byte_bounds [of d]
    by (auto simp: tile_generator_def res_simps tile_ok_def initial_blocks_def)
qed

lemma config_values_ok:
  assumes "\<forall>k \<in> set ks. \<exists>v \<ge> 1. map_of c k = Some v"
  shows "\<exists>bs. config_values c ks = Inr bs \<and> length bs = length ks \<and> (\<forall>b \<in> set bs. 1 \<le> b)"
  using assms by (induction ks) (auto simp: config_get_def)

lemma finish_configs_ok:
  assumes "\<forall>c \<in> set cs. \<forall>i \<in> set split. \<exists>v \<ge> 1. map_of c (block_name names i) = Some v"
  shows "\<exists>r. finish_configs names split cs = Inr r \<and> map cf_kwargs r = cs
    \<and> (\<forall>c \<in> set r. cf_split_axis c = split \<and> length (cf_split_blocks c) = length split \<and> (\<forall>b \<in> set (cf_split_blocks c). 1 \<le> b))"
  using assms
proof (induction cs)
  case (Cons c cs)
  obtain r where r: "finish_configs names split cs = Inr r" "map cf_kwargs r = cs"
    "\<forall>c \<in> set r. cf_split_axis c = split \<and> length (cf_split_blocks c) = length split \<and> (\<forall>b \<in> set (cf_split_blocks c). 1 \<le> b)"
    using Cons.IH Cons.prems by auto
  obtain bs where "config_values c (map (block_name names) split) = Inr bs" "length bs = length split" "\<forall>b \<in> set bs. 1 \<le> b"
    using config_values_ok [of "map (block_name names) split" c] Cons.prems by auto
  then show ?case using r by auto
qed simp


definition covers_axis :: "int list \<Rightarrow> npu_config \<Rightarrow> nat \<Rightarrow> bool" where
  "covers_axis numels c i \<longleftrightarrow>
     (let numel = numels ! (cf_split_axis c ! i); block = cf_split_blocks c ! i; programs = grid_fn numels c i
      in 1 \<le> block \<and> numel \<le> programs * block \<and> (programs - 1) * block < numel)"

lemma grid_covers:
  assumes "i < length (cf_split_axis c)" and "1 \<le> numels ! (cf_split_axis c ! i)" and "1 \<le> cf_split_blocks c ! i"
  shows "covers_axis numels c i"
  using ceil_bounds(3,4) [OF assms(2,3)] assms(1,3) by (simp add: covers_axis_def grid_fn_def Let_def)

definition tile_fits :: "int \<Rightarrow> string list \<Rightarrow> nat list \<Rightarrow> config \<Rightarrow> bool" where
  "tile_fits b names tiling c \<longleftrightarrow>
     (\<exists>n. config_numel c (map (sub_block_name names) tiling) 1 = Inr n \<and> n \<le> 65536 div b)"

lemma fallback_split:
  assumes "\<forall>i \<in> set split. 1 \<le> numels ! i" and "i \<in> set split"
  shows "\<exists>v \<ge> 1. map_of (fallback_config numels names split) (block_name names i) = Some v"
proof -
  let ?is = "filter (\<lambda>j. block_name names j = block_name names i) split"
  let ?c = "fold (\<lambda>x. AList.update (block_name names x) (numels ! x)) split []"
  have ne: "?is \<noteq> []" using assms(2) by (auto simp: filter_empty_conv)
  then have "last ?is \<in> set split" using last_in_set [OF ne] by simp
  moreover have "map_of ?c (block_name names i) = Some (numels ! last ?is)" using ne by (simp add: fill_fold split: list.splits)
  ultimately show ?thesis using assms(1) by (auto simp: fallback_config_def Let_def)
qed

lemma triton_configs:
  assumes plan: "plan_ok T numels tiling split low" and d: "get_byte_per_numel d = Inr b"
  shows "\<exists>cs. triton_config_npu_index T numels names tiling split low pers d dual = Inr cs
    \<and> cs \<noteq> [] \<and> (\<forall>c \<in> set cs. \<forall>i < length split. cf_split_axis c = split \<and> covers_axis numels c i)
    \<and> sorted_wrt (\<lambda>a b. \<not> same_dict a b) (map cf_kwargs cs)
    \<and> (map cf_kwargs cs = [fallback_config numels names split] \<or> (\<forall>c \<in> set cs. tile_fits b names tiling (cf_kwargs c)))"
proof -
  obtain tg where tg: "tile_generator numels names tiling split low pers d dual = Inr tg" by (simp add: tile_generator_def d)
  obtain tg' where tg': "descend_split_tiling T tg = Inr tg'" "goes_on T tg tg'"
    using descend_split_tiling_ok [OF generator_ok [OF plan tg]] by blast
  have fixed: "tg_split tg' = split" "tg_axis_name tg' = names" "tg_tiling tg' = tiling" "tg_bytes tg' = b"
    using tg tg'(2) d by (auto simp: tile_generator_def res_simps goes_on_def same_plan_def)
  let ?cs = "if tg_configs tg' = [] then [fallback_config numels names split] else tg_configs tg'"
  have pos: "\<forall>i \<in> set split. 1 \<le> numels ! i" using plan by (auto simp: plan_ok_def)
  have cs: "\<forall>c \<in> set (tg_configs tg'). config_ok tg' c" "sorted_wrt (\<lambda>a b. \<not> same_dict a b) (tg_configs tg')"
    using goes_on_ok [OF tg'(2)] by (simp_all add: tile_ok_def)
  have "\<forall>c \<in> set ?cs. \<forall>i \<in> set split. \<exists>v \<ge> 1. map_of c (block_name names i) = Some v"
    using cs(1) fallback_split [OF pos] fixed by (auto simp: config_ok_def)
  then obtain r where r: "finish_configs names split ?cs = Inr r" "map cf_kwargs r = ?cs"
    "\<forall>c \<in> set r. cf_split_axis c = split \<and> length (cf_split_blocks c) = length split \<and> (\<forall>b \<in> set (cf_split_blocks c). 1 \<le> b)"
    using finish_configs_ok by blast
  have "covers_axis numels c i" if "c \<in> set r" "i < length split" for c i
    using grid_covers [of i c numels] r(3) that pos by simp
  moreover have "r \<noteq> []" using r(2) by (auto split: if_splits)
  moreover have "\<forall>c \<in> set (tg_configs tg'). tile_fits b names tiling c"
    using cs(1) fixed by (auto simp: config_ok_def tile_fits_def calculate_config_numel_def valid_tile_numel_def)
  then have "map cf_kwargs r = [fallback_config numels names split] \<or> (\<forall>c \<in> set r. tile_fits b names tiling (cf_kwargs c))"
    using r(2) by (cases "tg_configs tg' = []") (simp_all, metis image_eqI set_map)
  moreover have "sorted_wrt (\<lambda>a b. \<not> same_dict a b) (map cf_kwargs r)" using cs(2) r(2) by simp
  ultimately show ?thesis using tg tg'(1) r(1,3) by (auto simp: triton_config_npu_index_def)
qed

section \<open>The choice of the axes\<close>

definition free_axes :: "kernel \<Rightarrow> nat list" where
  "free_axes kn = filter (\<lambda>i. \<not> ax_reduction (kn_axes kn ! i) \<and> i \<notin> set (kn_low_dims kn)) [0..<length (kn_axes kn)]"

lemma find_next:
  assumes "distinct xs" and "k \<le> length xs"
  shows "find (\<lambda>x. x \<notin> set (take k xs)) xs = (if k < length xs then Some (xs ! k) else None)"
proof -
  have "find (\<lambda>x. x \<notin> set (take k xs)) (take k xs) = None" by (simp add: find_None_iff)
  moreover have "find P (ys @ zs) = (case find P ys of None \<Rightarrow> find P zs | Some y \<Rightarrow> Some y)" for P :: "'a \<Rightarrow> bool" and ys zs
    by (induction ys) auto
  ultimately have "find (\<lambda>x. x \<notin> set (take k xs)) xs = find (\<lambda>x. x \<notin> set (take k xs)) (drop k xs)"
    by (metis append_take_drop_id option.simps(4))
  also have "\<dots> = (if k < length xs then Some (xs ! k) else None)"
    using assms(1) set_take_disj_set_drop_if_distinct [OF assms(1), of k k]
    by (cases "k < length xs") (auto simp: Cons_nth_drop_Suc [symmetric])
  finally show ?thesis .
qed

lemma find_filter: "find (\<lambda>x. P x \<and> Q x) xs = find Q (filter P xs)"
  by (induction xs) auto

lemma select_free:
  assumes "k \<le> length (free_axes kn)"
  shows "select_one_split_axis kn True True (take k (free_axes kn)) =
    (if k < length (free_axes kn) then Some (free_axes kn ! k) else None)"
proof -
  let ?P = "\<lambda>i. \<not> ax_reduction (kn_axes kn ! i) \<and> i \<notin> set (kn_low_dims kn)"
  have "select_one_split_axis kn True True (take k (free_axes kn)) =
      find (\<lambda>i. ?P i \<and> i \<notin> set (take k (free_axes kn))) [0..<length (kn_axes kn)]"
    by (simp add: select_one_split_axis_def conj_assoc)
  also have "\<dots> = find (\<lambda>i. i \<notin> set (take k (free_axes kn))) (free_axes kn)"
    unfolding find_filter free_axes_def by (rule refl)
  finally show ?thesis using find_next [OF _ assms] by (simp add: free_axes_def)
qed

lemma split_loop_keeps: "set split \<subseteq> set (split_loop c kn tries split)"
proof (induction c kn tries split rule: split_loop.induct)
  case (1 c kn tries split)
  show ?case using 1 by (subst split_loop.simps) (auto split: option.splits)
qed

lemma split_loop_prefixes:
  assumes "\<forall>k < length split. total_split_numels kn (take k split) < c"
  shows "\<forall>k < length (split_loop c kn tries split). total_split_numels kn (take k (split_loop c kn tries split)) < c"
  using assms
proof (induction c kn tries split rule: split_loop.induct)
  case (1 c kn tries split)
  show ?case
  proof (cases "split_stop c kn split")
    case True
    then have "split_loop c kn tries split = split" by (subst split_loop.simps) simp
    then show ?thesis using 1 by simp
  next
    case False
    then have more: "\<forall>k < length (split @ [i]). total_split_numels kn (take k (split @ [i])) < c" for i
      using 1(4) by (auto simp: split_stop_def less_Suc_eq)
    show ?thesis
      by (subst (1 2) split_loop.simps) (use 1 False more in \<open>auto split: option.splits\<close>)
  qed
qed

lemma split_loop_free:
  assumes "split = take k (free_axes kn)" and "k \<le> length (free_axes kn)"
    and "set (split_loop c kn tries split) \<inter> set (kn_low_dims kn) = {}"
  shows "\<exists>j \<le> length (free_axes kn). split_loop c kn tries split = take j (free_axes kn)"
  using assms
proof (induction c kn tries split arbitrary: k rule: split_loop.induct)
  case (1 c kn tries split)
  show ?case
  proof (cases "split_stop c kn split")
    case True
    then have "split_loop c kn tries split = split" by (subst split_loop.simps) simp
    then show ?thesis using 1 by blast
  next
    case False
    note sel = select_free [OF 1(5), folded 1(4)]
    show ?thesis
    proof (cases "k < length (free_axes kn)")
      case True
      let ?i = "free_axes kn ! k"
      have e: "split_loop c kn tries split = split_loop c kn (tries + 1) (split @ [?i])"
        using sel True False by (subst split_loop.simps) simp
      have next_axis: "split @ [?i] = take (Suc k) (free_axes kn)" using 1(4) True by (simp add: take_Suc_conv_app_nth)
      have some: "select_one_split_axis kn True True split = Some ?i" using sel True by simp
      show ?thesis unfolding e by (rule 1(3) [OF False some next_axis]) (use True 1(6) e in auto)
    next
      case none: False
      then have sel1: "select_one_split_axis kn True True split = None" using sel by simp
      have sel2: "select_one_split_axis kn True False split = None"
      proof (rule ccontr)
        assume "select_one_split_axis kn True False split \<noteq> None"
        then obtain i where i: "select_one_split_axis kn True False split = Some i" by blast
        have "split_loop c kn tries split = split_loop c kn (tries + 1) (split @ [i])"
          using sel1 i False by (subst split_loop.simps) simp
        then have "i \<in> set (split_loop c kn tries split)" using split_loop_keeps [of "split @ [i]" c kn "tries + 1"] by simp
        then have "i \<notin> set (kn_low_dims kn)" using 1(6) by blast
        then show False using i sel1 unfolding select_one_split_axis_def find_None_iff by (auto simp: find_Some_iff)
      qed
      show ?thesis
      proof (cases "tries + 1 > 10")
        case True
        then have "split_loop c kn tries split = split" using sel1 sel2 False by (subst split_loop.simps) simp
        then show ?thesis using 1(4,5) by blast
      next
        case t: False
        have e: "split_loop c kn tries split = split_loop c kn (tries + 1) split"
          using sel1 sel2 False t by (subst split_loop.simps) simp
        then show ?thesis using 1(1) [OF False sel1 sel2 t 1(4,5)] 1(6) by simp
      qed
    qed
  qed
qed

definition axes_sorted :: "kernel \<Rightarrow> bool" where
  "axes_sorted kn \<longleftrightarrow> sorted (map axis_key (rev (kn_axes kn)))"

lemma sort_axes_id:
  assumes "axes_sorted kn" and "sorted xs" and "\<forall>i \<in> set xs. i < length (kn_axes kn)"
  shows "sort_axes kn xs = xs"
proof -
  let ?key = "\<lambda>i. axis_key (kn_axes kn ! i)"
  have "axis_key (kn_axes kn ! j) \<le> axis_key (kn_axes kn ! i)" if "i \<le> j" "j < length (kn_axes kn)" for i j
    using assms(1) that unfolding axes_sorted_def rev_map [symmetric] sorted_rev_iff_nth_mono by simp
  then have "sorted (map ?key (rev xs))"
    using assms(2,3) unfolding rev_map [symmetric] sorted_rev_iff_nth_mono
    by (auto simp: sorted_iff_nth_mono)
  then show ?thesis by (simp add: sort_axes_def sort_reverse_def sort_key_id_if_sorted)
qed

lemma free_axes_sorted: "sorted (free_axes kn)" "\<forall>i \<in> set (free_axes kn). i < length (kn_axes kn)" "distinct (free_axes kn)"
  by (auto simp: free_axes_def sorted_wrt_filter)

lemma prefix_takeWhile:
  assumes "x \<in> set xs"
  shows "\<exists>k < length xs. takeWhile (\<lambda>y. y \<noteq> x) xs = take k xs"
proof -
  have "length (takeWhile (\<lambda>y. y \<noteq> x) xs) < length xs"
    using assms length_takeWhile_le [of "\<lambda>y. y \<noteq> x" xs]
    by (metis (full_types) le_neq_implies_less takeWhile_eq_take take_all_iff order_refl set_takeWhileD)
  then show ?thesis using takeWhile_eq_take by blast
qed

text \<open>As long as no low dimension is split, the choice of the axes is a plan the generator can use.\<close>

lemma selected_plan:
  assumes sorted: "axes_sorted kn" and len: "\<forall>a \<in> set (kn_axes kn). 1 \<le> ax_length a" and c: "1 \<le> c"
    and free: "set (select_split_axis c kn) \<inter> set (kn_low_dims kn) = {}"
    and axis: "axis \<in> set (select_split_axis c kn)"
  shows "axis < length (kn_axes kn)
    \<and> total_split_numels kn (takeWhile (\<lambda>x. x \<noteq> axis) (select_split_axis c kn)) \<le> c"
proof -
  let ?r = "split_loop c kn 0 []"
  show ?thesis
  proof (cases "?r = []")
    case True
    then have s: "select_split_axis c kn = sort_axes kn (if kn_axes kn \<noteq> [] then [0] else [])" by (simp add: select_split_axis_def)
    then have "kn_axes kn \<noteq> []" using axis by (auto simp: sort_axes_def sort_reverse_def)
    then show ?thesis using s axis c by (simp add: sort_axes_def sort_reverse_def total_split_numels_def)
  next
    case False
    have set_r: "set (select_split_axis c kn) = set ?r" using False by (simp add: select_split_axis_def sort_axes_def sort_reverse_def)
    obtain j where j: "?r = take j (free_axes kn)" using split_loop_free [of "[]" 0 kn c 0] free set_r by auto
    have r: "sorted ?r" "\<forall>i \<in> set ?r. i < length (kn_axes kn)"
      using free_axes_sorted j by (auto simp: sorted_wrt_take dest: in_set_takeD)
    have s: "select_split_axis c kn = ?r" using False sort_axes_id [OF sorted r] by (simp add: select_split_axis_def)
    obtain k where k: "k < length ?r" "takeWhile (\<lambda>x. x \<noteq> axis) ?r = take k ?r"
      using prefix_takeWhile [of axis ?r] axis s by auto
    have "total_split_numels kn (take k ?r) < c" using split_loop_prefixes [of "[]" kn c 0] k(1) by simp
    then show ?thesis using s k(2) r(2) axis by simp
  qed
qed

lemma split_loop_length:
  assumes "length split \<le> 3"
  shows "length (split_loop c kn tries split) \<le> 3"
  using assms
proof (induction c kn tries split rule: split_loop.induct)
  case (1 c kn tries split)
  show ?case
    by (subst split_loop.simps) (use 1 in \<open>auto simp: split_stop_def split: option.splits\<close>)
qed

lemma fold_insert_subset:
  assumes "\<And>i ts. set (f i ts) \<subseteq> insert i (set ts)"
  shows "set (fold f is ts) \<subseteq> set is \<union> set ts"
proof (induction "is" arbitrary: ts)
  case (Cons i "is")
  then show ?case using assms [of i ts] by fastforce
qed simp

lemma tiling_required_range:
  assumes "set ts \<subseteq> {..<length (kn_axes kn)}"
  shows "set (tiling_required kn ts) \<subseteq> {..<length (kn_axes kn)}"
proof -
  have "set (require_axis kn i ts) \<subseteq> insert i (set ts)" for i ts by (auto simp: require_axis_def Let_def)
  then have "set (tiling_required kn ts) \<subseteq> set (rev [0..<length (kn_axes kn)]) \<union> set ts"
    unfolding tiling_required_def by (rule fold_insert_subset)
  then show ?thesis using assms by (auto simp: lessThan_atLeast0)
qed

lemma tiling_any_range: "set (tiling_any kn axes ts) \<subseteq> set axes \<union> set ts"
proof (induction axes arbitrary: ts)
  case (Cons a axes)
  then show ?case using Cons.IH [of "ts @ [a]"] Cons.IH [of ts] by (auto simp: Let_def)
qed simp

lemma tiling_loop_range:
  "set ts \<subseteq> {..<length (kn_axes kn)} \<Longrightarrow> set (tiling_loop kn n ts) \<subseteq> {..<length (kn_axes kn)}"
proof (induction n arbitrary: ts)
  case (Suc n)
  have "set (tiling_any kn (rev [0..<length (kn_axes kn)]) ts) \<subseteq> {..<length (kn_axes kn)}"
    using tiling_any_range [of kn "rev [0..<length (kn_axes kn)]" ts] Suc.prems by auto
  then show ?case using Suc by simp
qed simp

definition kernel_ok :: "kernel \<Rightarrow> bool" where
  "kernel_ok kn \<longleftrightarrow> axes_sorted kn \<and> list_all (\<lambda>a. 1 \<le> ax_length a) (kn_axes kn)
     \<and> list_all (\<lambda>i. i < length (kn_axes kn)) (kn_low_dims kn)"

text \<open>PyTorch's \<open>next_power_of_2\<close>: a power of two, not below its argument.\<close>

definition rounds_up :: "tile_target \<Rightarrow> bool" where
  "rounds_up T \<longleftrightarrow> (\<forall>n \<ge> 1. n \<le> next_power_of_2 T n \<and> (\<exists>k. next_power_of_2 T n = 2 ^ k))"

lemma selected_plan_ok:
  assumes kn: "kernel_ok kn" and T: "rounds_up T" "1 \<le> cores T"
    and free: "set (select_split_axis (cores T) kn) \<inter> set (kn_low_dims kn) = {}"
  shows "plan_ok T (map ax_length (kn_axes kn)) (select_tiling_axis kn) (select_split_axis (cores T) kn) (kn_low_dims kn)"
    and "length (select_split_axis (cores T) kn) \<le> 3"
proof -
  have axes: "axes_sorted kn" "\<forall>a \<in> set (kn_axes kn). 1 \<le> ax_length a" "\<forall>i \<in> set (kn_low_dims kn). i < length (kn_axes kn)"
    using kn by (auto simp: kernel_ok_def list_all_iff)
  note plan = selected_plan [OF axes(1,2) T(2) free]
  have "set (select_tiling_axis kn) \<subseteq> {..<length (kn_axes kn)}"
    using tiling_loop_range [OF tiling_required_range [of "[]" kn], of 11]
    by (simp add: select_tiling_axis_def sort_axes_def sort_reverse_def)
  moreover have "1 \<le> next_power_of_2 T n" if "1 \<le> n" for n
  proof -
    have "n \<le> next_power_of_2 T n" using T(1) that by (simp add: rounds_up_def)
    then show ?thesis using that by linarith
  qed
  moreover have "prod_list (map (\<lambda>i. map ax_length (kn_axes kn) ! i) (takeWhile (\<lambda>x. x \<noteq> axis) (select_split_axis (cores T) kn))) \<le> cores T"
    if a: "axis \<in> set (select_split_axis (cores T) kn)" for axis
  proof -
    have "map (\<lambda>i. map ax_length (kn_axes kn) ! i) (takeWhile (\<lambda>x. x \<noteq> axis) (select_split_axis (cores T) kn)) =
        map (\<lambda>i. ax_length (kn_axes kn ! i)) (takeWhile (\<lambda>x. x \<noteq> axis) (select_split_axis (cores T) kn))"
      using plan by (intro map_cong refl) (auto dest!: set_takeWhileD)
    then show ?thesis using plan [OF a] unfolding total_split_numels_def by argo
  qed
  ultimately show "plan_ok T (map ax_length (kn_axes kn)) (select_tiling_axis kn) (select_split_axis (cores T) kn) (kn_low_dims kn)"
    using axes plan by (auto simp: plan_ok_def)
  show "length (select_split_axis (cores T) kn) \<le> 3"
    using split_loop_length [of "[]" "cores T" kn 0] by (simp add: select_split_axis_def sort_axes_def sort_reverse_def Let_def)
qed

text \<open>
  C8: For a kernel whose sizes are positive, if the chosen split axes are not low dimensions, the autotuner gets
  at least one configuration.  There are at most three split axes; every configuration's launch grid
  covers each of them with blocks of positive size and has no program without work; the configurations
  differ from each other; and unless there is only the fallback configuration, the tile of each fits
  into the unified buffer.
\<close>

theorem tile_configs_cover:
  assumes "kernel_ok kn" and "rounds_up T" and "1 \<le> cores T"
    and "set (select_split_axis (cores T) kn) \<inter> set (kn_low_dims kn) = {}" and "get_byte_per_numel d = Inr b"
  shows "let numels = map ax_length (kn_axes kn); names = map ax_name (kn_axes kn);
             tiling = select_tiling_axis kn; split = select_split_axis (cores T) kn
    in length split \<le> 3 \<and> (\<exists>cs. triton_config_npu_index T numels names tiling split (kn_low_dims kn) pers d dual = Inr cs
      \<and> cs \<noteq> [] \<and> (\<forall>c \<in> set cs. \<forall>i < length split. cf_split_axis c = split \<and> covers_axis numels c i)
      \<and> sorted_wrt (\<lambda>a b. \<not> same_dict a b) (map cf_kwargs cs)
      \<and> (map cf_kwargs cs = [fallback_config numels names split] \<or> (\<forall>c \<in> set cs. tile_fits b names tiling (cf_kwargs c))))"
  using triton_configs [OF selected_plan_ok(1) [OF assms(1-4)] assms(5)] selected_plan_ok(2) [OF assms(1-4)]
  by (simp add: Let_def)

definition ax :: "string \<Rightarrow> int \<Rightarrow> kaxis" where
  "ax n l = \<lparr>ax_name = n, ax_length = l, ax_reduction = False, ax_modular = False\<rparr>"

function power_from :: "int \<Rightarrow> int \<Rightarrow> int" where
  "power_from p n = (if n \<le> p \<or> p \<le> 0 then p else power_from (2 * p) n)"
  by pat_completeness auto
termination
  by (relation "measure (\<lambda>(p, n). nat (n - p))") auto

declare power_from.simps [simp del]

lemma power_from_ok: "p = 2 ^ j \<Longrightarrow> n \<le> power_from p n \<and> (\<exists>k. power_from p n = 2 ^ k)"
proof (induction p n arbitrary: j rule: power_from.induct)
  case (1 p n)
  then show ?case using 1(1) [of "Suc j"] by (subst (1 2) power_from.simps) auto
qed

definition demo_target :: tile_target where
  "demo_target = \<lparr>cores = 4, next_power_of_2 = power_from 1\<rparr>"

lemma demo_target_ok: "rounds_up demo_target" "1 \<le> cores demo_target"
  using power_from_ok [of 1 0] by (simp_all add: rounds_up_def demo_target_def)

definition row_kernel :: kernel where
  "row_kernel = \<lparr>kn_axes = [ax ''y0'' 8, ax ''x1'' 512], kn_low_dims = [1], kn_reduction_vars = [], kn_need_permute = False\<rparr>"

lemma row_kernel_ok: "kernel_ok row_kernel" "set (select_split_axis (cores demo_target) row_kernel) \<inter> set (kn_low_dims row_kernel) = {}"
proof -
  show "kernel_ok row_kernel" by (simp add: kernel_ok_def axes_sorted_def row_kernel_def ax_def axis_key_def)
  show "set (select_split_axis (cores demo_target) row_kernel) \<inter> set (kn_low_dims row_kernel) = {}" by code_simp
qed

theorem tile_configs_cover_witness:
  "\<exists>cs. triton_config_npu_index demo_target [8, 512] [''y0'', ''x1''] (select_tiling_axis row_kernel)
      (select_split_axis 4 row_kernel) [1] False (Some Float32) False = Inr cs \<and> cs \<noteq> []"
proof -
  have "get_byte_per_numel (Some Float32) = Inr 4" by (simp add: get_byte_per_numel_def)
  from tile_configs_cover [OF row_kernel_ok(1) demo_target_ok row_kernel_ok(2) this, of False False]
  show ?thesis by (auto simp: Let_def row_kernel_def ax_def demo_target_def)
qed

text \<open>
  When the axes with neither reductions nor low dimensions do not fill the cores, low dimensions
  are split too, and the sorting puts them first.  The kernel below has eight rows of two blocks of 4096
  elements, read both along the rows and along the elements; the earlier split axis alone has
  more elements than there are cores, and the generator divides by zero.
\<close>

definition transposed_kernel :: kernel where
  "transposed_kernel = \<lparr>kn_axes = [ax ''z0'' 8, ax ''y1'' 2, ax ''x2'' 4096], kn_low_dims = [0, 2],
     kn_reduction_vars = [], kn_need_permute = True\<rparr>"

lemma low_dim_split_raises:
  "select_split_axis (cores demo_target) transposed_kernel = [0, 1]
   \<and> triton_config_npu_index demo_target (map ax_length (kn_axes transposed_kernel)) (map ax_name (kn_axes transposed_kernel))
       (select_tiling_axis transposed_kernel) [0, 1] (kn_low_dims transposed_kernel) False (Some Float32) False
     = Inl ZeroDivisionError"
proof
  show "select_split_axis (cores demo_target) transposed_kernel = [0, 1]" by code_simp
  show "triton_config_npu_index demo_target (map ax_length (kn_axes transposed_kernel)) (map ax_name (kn_axes transposed_kernel))
       (select_tiling_axis transposed_kernel) [0, 1] (kn_low_dims transposed_kernel) False (Some Float32) False
     = Inl ZeroDivisionError" by code_simp
qed

end
