(* ===== verification/Grad_Scaler.thy ===== *)
theory Grad_Scaler
  imports Prelude
begin

text \<open>
  The gradient scaler of mixed-precision training, \<open>torch_npu/npu/amp/grad_scaler.py\<close>.

  The scaler's attributes, the gradients of the optimizers and the log of the optimizer steps are one
  state; methods are stateful computations that may raise.  Tensors are opaque values; what the code
  needs of them are the parameters of \<open>amp_ops\<close>: the check for infinite or undefined values, unscaling,
  coalescing of sparse values, multiplication of a scale by a factor, the test for infinity and the
  reciprocal.  The method \<open>_check_scale_growth_tracker\<close> is inherited from PyTorch; it is the parameter
  \<open>op_check\<close>, a function of the two attributes it checks.
\<close>

section \<open>State\<close>

datatype OptState = READY | UNSCALED | STEPPED

record opt_entry =
  oe_stage :: OptState
  oe_found_inf :: "(nat \<times> nat) list"

definition refresh_per_optimizer_state :: opt_entry where
  "refresh_per_optimizer_state = \<lparr>oe_stage = READY, oe_found_inf = []\<rparr>"

record 'v grad =
  gr_device :: nat
  gr_dtype :: nat
  gr_sparse :: bool
  gr_value :: 'v

text \<open>The number of the half-precision type.\<close>

definition float16 :: nat where "float16 = 0"

record optimizer =
  op_id :: nat
  op_fused :: bool
  op_supports_amp :: bool

record ('f, 'v) amp_ops =
  op_nonfinite :: "'v \<Rightarrow> bool"
  op_unscale :: "'v \<Rightarrow> 'f \<Rightarrow> 'v"
  op_coalesce :: "'v \<Rightarrow> 'v"
  op_mul :: "'f \<Rightarrow> 'f \<Rightarrow> 'f"
  op_isinf :: "'f \<Rightarrow> bool"
  op_le_one :: "'f \<Rightarrow> bool"
  op_ge_one :: "'f \<Rightarrow> bool"
  op_recip :: "'f \<Rightarrow> 'f"
  op_scale :: "'v \<Rightarrow> 'f \<Rightarrow> 'v"
  op_check :: "'f option \<Rightarrow> nat option \<Rightarrow> unit res"

record ('f, 'v) scaler =
  sc_enabled :: bool
  sc_init_scale :: 'f
  sc_scale :: "'f option"
  sc_device :: nat
  sc_growth_factor :: 'f
  sc_backoff_factor :: 'f
  sc_growth_interval :: int
  sc_dynamic :: bool
  sc_growth_tracker :: "nat option"
  sc_states :: "nat \<Rightarrow> opt_entry"
  sc_has_overflow :: bool
  sc_clear_overflow_flag :: bool
  sc_dist_initialized :: bool
  sc_dist_overflow_count :: "nat option"
  sc_grads :: "nat \<Rightarrow> 'v grad option list"
  sc_steps :: "(nat \<times> 'v grad option list) list"
  sc_reduced :: "nat list"

type_synonym ('f, 'v, 'a) amp = "(('f, 'v) scaler, 'a) stm"

text \<open>A disabled scaler has no attributes but \<open>_enabled\<close>; no method reads the others then.\<close>

definition grad_scaler ::
  "('f, 'v) amp_ops \<Rightarrow> bool \<Rightarrow> 'f \<Rightarrow> 'f \<Rightarrow> 'f \<Rightarrow> int \<Rightarrow> bool \<Rightarrow> bool \<Rightarrow> (nat \<Rightarrow> 'v grad option list) \<Rightarrow> ('f, 'v) scaler res" where
  "grad_scaler ops not_available init_scale growth_factor backoff_factor growth_interval dynamic enabled grads =
     (let on = (if enabled \<and> not_available then False else enabled)
      in if on \<and> op_le_one ops growth_factor then Inl ValueError
         else if on \<and> op_ge_one ops backoff_factor then Inl ValueError
         else Inr \<lparr>sc_enabled = on, sc_init_scale = init_scale, sc_scale = None, sc_device = 0,
                sc_growth_factor = growth_factor, sc_backoff_factor = backoff_factor, sc_growth_interval = growth_interval,
                sc_dynamic = dynamic, sc_growth_tracker = None, sc_states = (\<lambda>_. refresh_per_optimizer_state),
                sc_has_overflow = False, sc_clear_overflow_flag = False, sc_dist_initialized = False,
                sc_dist_overflow_count = None, sc_grads = grads, sc_steps = [], sc_reduced = []\<rparr>)"

section \<open>Scaling the outputs\<close>

text \<open>The answers of the environment: whether the process group is initialised, whether the device supports
  infinities, and the all-reduce, which turns the value this rank passes in into the value it gets back.\<close>

record amp_env =
  en_dist_initialized :: bool
  en_support_inf_nan :: bool
  en_all_reduce :: "nat \<Rightarrow> nat"

definition lazy_init_scale_growth_tracker :: "nat \<Rightarrow> ('f, 'v, unit) amp" where
  "lazy_init_scale_growth_tracker dev =
     sbind (sget sc_growth_tracker) (\<lambda>t.
       if t \<noteq> None then sraise RuntimeError
       else smod (\<lambda>s. s\<lparr>sc_scale := Some (sc_init_scale s), sc_device := dev, sc_growth_tracker := Some 0\<rparr>))"

definition lazy_init_dist :: "amp_env \<Rightarrow> ('f, 'v, unit) amp" where
  "lazy_init_dist en =
     sbind (sget sc_dist_overflow_count) (\<lambda>c.
       if c \<noteq> None then sraise RuntimeError
       else smod (\<lambda>s. s\<lparr>sc_dist_initialized := (if en_dist_initialized en then True else sc_dist_initialized s),
                        sc_dist_overflow_count := Some 0\<rparr>))"

datatype 'v outputs = OTensor nat bool 'v | OSeq "'v outputs list" | OOther

text \<open>The scale a tensor is multiplied with, after the lazy initialisation.\<close>

definition scale_tensor :: "('f, 'v) amp_ops \<Rightarrow> nat \<Rightarrow> bool \<Rightarrow> 'v \<Rightarrow> ('f, 'v, 'v outputs) amp" where
  "scale_tensor ops dev is_npu v =
     (if \<not> is_npu then sraise ValueError
      else sbind (sget sc_scale) (\<lambda>sc.
           sseq (if sc = None then lazy_init_scale_growth_tracker dev else sret ())
             (sbind (sget sc_scale) (\<lambda>sc'.
                case sc' of None \<Rightarrow> sraise RuntimeError | Some f \<Rightarrow> sret (OTensor dev is_npu (op_scale ops v f))))))"

fun apply_scale :: "('f, 'v) amp_ops \<Rightarrow> 'v outputs \<Rightarrow> ('f, 'v, 'v outputs) amp"
  and apply_scales :: "('f, 'v) amp_ops \<Rightarrow> 'v outputs list \<Rightarrow> ('f, 'v, 'v outputs list) amp" where
  "apply_scale ops (OTensor dev is_npu v) = scale_tensor ops dev is_npu v"
| "apply_scale ops (OSeq xs) = sbind (apply_scales ops xs) (\<lambda>ys. sret (OSeq ys))"
| "apply_scale ops OOther = sraise TypeError"
| "apply_scales ops [] = sret []"
| "apply_scales ops (x # xs) = sbind (apply_scale ops x) (\<lambda>y. sbind (apply_scales ops xs) (\<lambda>ys. sret (y # ys)))"

definition scale :: "('f, 'v) amp_ops \<Rightarrow> amp_env \<Rightarrow> 'v outputs \<Rightarrow> ('f, 'v, 'v outputs) amp" where
  "scale ops en outputs =
     sbind (sget sc_enabled) (\<lambda>enabled.
       if \<not> enabled then sret outputs
       else sbind (sget sc_dist_overflow_count) (\<lambda>c.
            sseq (if c = None then lazy_init_dist en else sret ())
            (sseq (smod (\<lambda>s. if sc_dynamic s \<and> \<not> sc_clear_overflow_flag s then s\<lparr>sc_clear_overflow_flag := True\<rparr> else s))
              (apply_scale ops outputs))))"

section \<open>Unscaling the gradients\<close>

text \<open>\<open>get\<close> of the replicator: the copy for a device, made on the first request.\<close>

definition found_at :: "(nat \<times> nat) list \<Rightarrow> nat \<Rightarrow> nat" where
  "found_at d dev = (case map_of d dev of Some n \<Rightarrow> n | None \<Rightarrow> 0)"

definition found_get :: "nat \<Rightarrow> (nat \<times> nat) list \<Rightarrow> (nat \<times> nat) list" where
  "found_get dev d = AList.update dev (found_at d dev) d"

type_synonym grouped = "(nat \<times> (nat \<times> nat list) list) list"

text \<open>The positions of the gradients by device and by type, dictionaries in the order of insertion.\<close>

definition add_grad :: "nat \<Rightarrow> nat \<Rightarrow> nat \<Rightarrow> grouped \<Rightarrow> grouped" where
  "add_grad dev dt i groups =
     (let inner = (case map_of groups dev of Some d \<Rightarrow> d | None \<Rightarrow> []);
          idx = (case map_of inner dt of Some l \<Rightarrow> l | None \<Rightarrow> [])
      in AList.update dev (AList.update dt (idx @ [i]) inner) groups)"

fun collect_grads ::
  "('f, 'v) amp_ops \<Rightarrow> bool \<Rightarrow> nat \<Rightarrow> 'v grad option list \<Rightarrow> grouped \<Rightarrow> ('v grad option list \<times> grouped) res" where
  "collect_grads ops allow_fp16 i [] groups = Inr ([], groups)"
| "collect_grads ops allow_fp16 i (None # gs) groups =
     rbind (collect_grads ops allow_fp16 (Suc i) gs groups) (\<lambda>(gs', groups'). Inr (None # gs', groups'))"
| "collect_grads ops allow_fp16 i (Some g # gs) groups =
     (if \<not> allow_fp16 \<and> gr_dtype g = float16 then Inl TypeError
      else let g' = (if gr_sparse g \<and> gr_dtype g = float16 then g\<lparr>gr_value := op_coalesce ops (gr_value g)\<rparr> else g)
           in rbind (collect_grads ops allow_fp16 (Suc i) gs (add_grad (gr_device g') (gr_dtype g') i groups)) (\<lambda>(gs', groups').
                Inr (Some g' # gs', groups')))"

record 'v unscaling =
  un_grads :: "'v grad option list"
  un_found :: "(nat \<times> nat) list"
  un_overflow :: bool

definition bad_grad :: "('f, 'v) amp_ops \<Rightarrow> 'v grad option \<Rightarrow> bool" where
  "bad_grad ops g = (case g of Some g \<Rightarrow> op_nonfinite ops (gr_value g) | None \<Rightarrow> False)"

definition unscale_grad :: "('f, 'v) amp_ops \<Rightarrow> 'f \<Rightarrow> 'v grad option \<Rightarrow> 'v grad option" where
  "unscale_grad ops inv_scale g = map_option (\<lambda>g. g\<lparr>gr_value := op_unscale ops (gr_value g) inv_scale\<rparr>) g"

text \<open>One call of \<open>_amp_foreach_non_finite_check_and_unscale_\<close>, or the multiplications of a static scale.\<close>

definition unscale_group :: "('f, 'v) amp_ops \<Rightarrow> bool \<Rightarrow> 'f \<Rightarrow> nat \<times> nat list \<Rightarrow> 'v unscaling \<Rightarrow> 'v unscaling" where
  "unscale_group ops dynamic inv_scale grp u =
     (case grp of (dev, idx) \<Rightarrow>
        (let gs = fold (\<lambda>i gs. gs[i := unscale_grad ops inv_scale (gs ! i)]) idx (un_grads u)
         in if dynamic
            then let n = (if list_ex (\<lambda>i. bad_grad ops (un_grads u ! i)) idx then 1 else found_at (un_found u) dev)
                 in \<lparr>un_grads = gs, un_found = AList.update dev n (un_found u), un_overflow = un_overflow u \<or> n > 0\<rparr>
            else u\<lparr>un_grads := gs\<rparr>))"

definition flat_groups :: "grouped \<Rightarrow> (nat \<times> nat list) list" where
  "flat_groups groups = concat (map (\<lambda>(dev, inner). map (\<lambda>(dt, idx). (dev, idx)) inner) groups)"

definition fused_groups :: "nat \<Rightarrow> 'v grad option list \<Rightarrow> (nat \<times> nat list) list" where
  "fused_groups dev gs = map (\<lambda>i. (dev, [i])) (filter (\<lambda>i. gs ! i \<noteq> None) [0..<length gs])"

text \<open>
  \<open>dist.all_reduce\<close> replaces the tensor by the result; the log keeps what this rank passed in.
\<close>

definition all_reduce_count :: "amp_env \<Rightarrow> ('f, 'v, unit) amp" where
  "all_reduce_count en =
     smod (\<lambda>s. case sc_dist_overflow_count s of
                None \<Rightarrow> s
              | Some c \<Rightarrow> s\<lparr>sc_dist_overflow_count := Some (en_all_reduce en c), sc_reduced := sc_reduced s @ [c]\<rparr>)"

definition sync_dist_overflow_count :: "amp_env \<Rightarrow> ('f, 'v, unit) amp" where
  "sync_dist_overflow_count en =
     (if en_support_inf_nan en then sret ()
      else sbind (sget id) (\<lambda>s.
        if sc_dynamic s \<and> sc_dist_initialized s
        then (case sc_dist_overflow_count s of
                None \<Rightarrow> sraise AttributeError
              | Some c \<Rightarrow>
                  (if sc_has_overflow s
                   then sseq (smod (\<lambda>s. s\<lparr>sc_dist_overflow_count := Some (c + 1)\<rparr>))
                        (sseq (all_reduce_count en)
                          (smod (\<lambda>s. s\<lparr>sc_dist_overflow_count := Some 0\<rparr>)))
                   else sseq (all_reduce_count en)
                        (sseq (smod (\<lambda>s. if sc_dist_overflow_count s \<noteq> Some 0 then s\<lparr>sc_has_overflow := True\<rparr> else s))
                          (smod (\<lambda>s. s\<lparr>sc_dist_overflow_count := Some 0\<rparr>)))))
        else sret ()))"

definition unscale_grads ::
  "('f, 'v) amp_ops \<Rightarrow> amp_env \<Rightarrow> optimizer \<Rightarrow> 'f \<Rightarrow> bool \<Rightarrow> ('f, 'v, (nat \<times> nat) list) amp" where
  "unscale_grads ops en opt inv_scale allow_fp16 =
     sbind (sget id) (\<lambda>s.
     sbind (slift (if op_fused opt
                   then Inr (sc_grads s (op_id opt), fused_groups (sc_device s) (sc_grads s (op_id opt)))
                   else rbind (collect_grads ops allow_fp16 0 (sc_grads s (op_id opt)) []) (\<lambda>(gs, groups). Inr (gs, flat_groups groups))))
       (\<lambda>(gs, groups).
         let u = fold (unscale_group ops (sc_dynamic s) inv_scale) groups \<lparr>un_grads = gs, un_found = [], un_overflow = sc_has_overflow s\<rparr>
         in sseq (smod (\<lambda>s. s\<lparr>sc_grads := (sc_grads s)(op_id opt := un_grads u), sc_has_overflow := un_overflow u\<rparr>))
            (sseq (sync_dist_overflow_count en)
              (sbind (sget id) (\<lambda>s'.
                 sret (if sc_has_overflow s' then AList.update (sc_device s') (found_at (un_found u) (sc_device s') + 1) (un_found u)
                       else found_get (sc_device s') (un_found u)))))))"

definition check_scale :: "('f, 'v) amp_ops \<Rightarrow> ('f, 'v, unit) amp" where
  "check_scale ops = sbind (sget id) (\<lambda>s. slift (op_check ops (sc_scale s) (sc_growth_tracker s)))"

definition set_entry :: "nat \<Rightarrow> (opt_entry \<Rightarrow> opt_entry) \<Rightarrow> ('f, 'v, unit) amp" where
  "set_entry i f = smod (\<lambda>s. s\<lparr>sc_states := (sc_states s)(i := f (sc_states s i))\<rparr>)"

definition unscale :: "('f, 'v) amp_ops \<Rightarrow> amp_env \<Rightarrow> optimizer \<Rightarrow> ('f, 'v, unit) amp" where
  "unscale ops en opt =
     sbind (sget sc_enabled) (\<lambda>enabled.
       if \<not> enabled then sret ()
       else sseq (check_scale ops)
            (sbind (sget id) (\<lambda>s.
               case oe_stage (sc_states s (op_id opt)) of
                 UNSCALED \<Rightarrow> sraise RuntimeError
               | STEPPED \<Rightarrow> sraise RuntimeError
               | READY \<Rightarrow>
                   (case sc_scale s of
                      None \<Rightarrow> sraise RuntimeError
                    | Some f \<Rightarrow>
                        sbind (unscale_grads ops en opt (op_recip ops f) False) (\<lambda>found.
                          set_entry (op_id opt) (\<lambda>e. e\<lparr>oe_found_inf := found, oe_stage := UNSCALED\<rparr>))))))"

section \<open>Stepping the optimizer\<close>

definition optimizer_step :: "optimizer \<Rightarrow> ('f, 'v, unit) amp" where
  "optimizer_step opt = smod (\<lambda>s. s\<lparr>sc_steps := sc_steps s @ [(op_id opt, sc_grads s (op_id opt))]\<rparr>)"

definition maybe_opt_step :: "optimizer \<Rightarrow> ('f, 'v, unit) amp" where
  "maybe_opt_step opt =
     sbind (sget id) (\<lambda>s.
       if sum_list (map snd (oe_found_inf (sc_states s (op_id opt)))) = 0 \<and> \<not> sc_has_overflow s then optimizer_step opt
       else sret ())"

definition set_stepped :: "optimizer \<Rightarrow> ('f, 'v, unit) amp" where
  "set_stepped opt = set_entry (op_id opt) (\<lambda>e. e\<lparr>oe_stage := STEPPED\<rparr>)"

definition step :: "('f, 'v) amp_ops \<Rightarrow> amp_env \<Rightarrow> bool \<Rightarrow> optimizer \<Rightarrow> ('f, 'v, unit) amp" where
  "step ops en has_closure opt =
     sbind (sget sc_enabled) (\<lambda>enabled.
       if \<not> enabled then optimizer_step opt
       else if has_closure then sraise RuntimeError
       else sseq (check_scale ops)
            (sbind (sget id) (\<lambda>s.
               if oe_stage (sc_states s (op_id opt)) = STEPPED then sraise RuntimeError
               else if op_supports_amp opt then sseq (optimizer_step opt) (set_stepped opt)
               else sseq (if oe_stage (sc_states s (op_id opt)) = READY then unscale ops en opt else sret ())
                    (sbind (sget id) (\<lambda>s'.
                       if length (oe_found_inf (sc_states s' (op_id opt))) \<le> 0 then sraise RuntimeError
                       else sseq (if sc_dynamic s' then maybe_opt_step opt else optimizer_step opt) (set_stepped opt))))))"

section \<open>Updating the scale\<close>

definition npu_update_scale :: "('f, 'v) amp_ops \<Rightarrow> 'f \<Rightarrow> nat \<Rightarrow> ('f, 'v) scaler \<Rightarrow> ('f, 'v) scaler" where
  "npu_update_scale ops f t s =
     (if sc_has_overflow s then s\<lparr>sc_scale := Some (op_mul ops f (sc_backoff_factor s)), sc_growth_tracker := Some 0\<rparr>
      else if int (t + 1) = sc_growth_interval s
      then let new_scale = op_mul ops f (sc_growth_factor s)
           in s\<lparr>sc_scale := Some (if \<not> op_isinf ops new_scale then new_scale else f), sc_growth_tracker := Some 0\<rparr>
      else s\<lparr>sc_growth_tracker := Some (t + 1)\<rparr>)"

datatype 'f new_scale = NoScale | FloatScale 'f | TensorScale bool nat bool 'f

definition end_iteration :: "('f, 'v) scaler \<Rightarrow> ('f, 'v) scaler" where
  "end_iteration s = s\<lparr>sc_states := (\<lambda>_. refresh_per_optimizer_state), sc_has_overflow := False, sc_clear_overflow_flag := False\<rparr>"

definition update :: "('f, 'v) amp_ops \<Rightarrow> 'f new_scale \<Rightarrow> ('f, 'v, unit) amp" where
  "update ops new_scale =
     sbind (sget sc_enabled) (\<lambda>enabled.
       if \<not> enabled then sret ()
       else sseq (check_scale ops)
            (sseq (case new_scale of
                     FloatScale f \<Rightarrow> smod (\<lambda>s. s\<lparr>sc_scale := Some f\<rparr>)
                   | TensorScale is_npu_float numel requires_grad f \<Rightarrow>
                       (if \<not> is_npu_float then sraise TypeError
                        else if numel \<noteq> 1 then sraise ValueError
                        else if requires_grad then sraise ValueError
                        else smod (\<lambda>s. s\<lparr>sc_scale := Some f\<rparr>))
                   | NoScale \<Rightarrow>
                       sbind (sget id) (\<lambda>s.
                         if sc_dynamic s
                         then (case (sc_scale s, sc_growth_tracker s) of
                                 (Some f, Some t) \<Rightarrow> smod (npu_update_scale ops f t)
                               | _ \<Rightarrow> sraise AttributeError)
                         else sret ()))
              (smod end_iteration)))"

end
