(* ===== verification/Grad_Scaler_Props.thy ===== *)
theory Grad_Scaler_Props
  imports Grad_Scaler
begin

text \<open>
  What a step of the scaler does to gradients and optimizer, how the scale develops, that the ranks of a
  job agree on skipping, and the order of calls the scaler enforces.
\<close>

section \<open>Positions of the gradients\<close>

definition positions :: "grouped \<Rightarrow> nat list" where
  "positions groups = concat (map snd (flat_groups groups))"

definition inner_positions :: "(nat \<times> nat list) list \<Rightarrow> nat list" where
  "inner_positions inner = concat (map snd inner)"

lemma positions_eq: "positions groups = concat (map (\<lambda>g. inner_positions (snd g)) groups)"
  by (induction groups) (auto simp: positions_def flat_groups_def inner_positions_def case_prod_beta comp_def)

lemma mset_update:
  assumes "distinct (map fst al)"
  shows "mset (concat (map (\<lambda>g. h (snd g)) (AList.update k v al))) + (case map_of al k of None \<Rightarrow> {#} | Some v0 \<Rightarrow> mset (h v0)) =
    mset (concat (map (\<lambda>g. h (snd g)) al)) + mset (h v)"
  using assms by (induction al) (auto split: option.splits)

lemma set_update_subset: "set (AList.update k v al) \<subseteq> insert (k, v) (set al)"
  by (induction al) auto

definition groups_ok :: "grouped \<Rightarrow> bool" where
  "groups_ok groups \<longleftrightarrow> distinct (map fst groups) \<and> (\<forall>g \<in> set groups. distinct (map fst (snd g)))"

lemma add_grad_ok:
  assumes "groups_ok groups"
  shows "groups_ok (add_grad dev dt i groups)" and "mset (positions (add_grad dev dt i groups)) = mset (positions groups) + {#i#}"
proof -
  let ?inner = "case map_of groups dev of Some d \<Rightarrow> d | None \<Rightarrow> []"
  let ?idx = "case map_of ?inner dt of Some l \<Rightarrow> l | None \<Rightarrow> []"
  let ?new = "AList.update dt (?idx @ [i]) ?inner"
  have add: "add_grad dev dt i groups = AList.update dev ?new groups" by (simp add: add_grad_def Let_def)
  have inner: "distinct (map fst ?inner)" using assms by (auto simp: groups_ok_def split: option.splits dest: map_of_SomeD)
  then have "distinct (map fst ?new)" by (rule distinct_update)
  then have "\<forall>g \<in> set (AList.update dev ?new groups). distinct (map fst (snd g))"
    using assms set_update_subset [of dev ?new groups] by (auto simp: groups_ok_def)
  then show "groups_ok (add_grad dev dt i groups)" using assms by (simp add: groups_ok_def add distinct_update)
  have new: "mset (inner_positions ?new) = mset (inner_positions ?inner) + {#i#}"
    using mset_update [OF inner, of "\<lambda>l. l" dt "?idx @ [i]"]
    by (cases "map_of ?inner dt") (auto simp: inner_positions_def)
  have dist: "distinct (map fst groups)" using assms by (simp add: groups_ok_def)
  show "mset (positions (add_grad dev dt i groups)) = mset (positions groups) + {#i#}"
  proof (cases "map_of groups dev")
    case None
    then show ?thesis using mset_update [OF dist, of inner_positions dev ?new] new
      unfolding positions_eq add by (simp add: inner_positions_def)
  next
    case (Some d)
    then show ?thesis using mset_update [OF dist, of inner_positions dev ?new] new unfolding positions_eq add by simp
  qed
qed

definition present :: "nat \<Rightarrow> 'v grad option list \<Rightarrow> nat list" where
  "present i gs = map (\<lambda>k. i + k) (filter (\<lambda>k. gs ! k \<noteq> None) [0..<length gs])"

lemma present_Cons: "present i (g # gs) = (if g = None then [] else [i]) @ present (Suc i) gs"
proof -
  have "[0..<length (g # gs)] = 0 # map Suc [0..<length gs]" by (simp add: upt_conv_Cons map_Suc_upt del: upt_Suc)
  then show ?thesis by (simp add: present_def filter_map comp_def del: upt_Suc)
qed

definition no_half :: "'v grad option list \<Rightarrow> bool" where
  "no_half gs = list_all (\<lambda>g. case g of Some g \<Rightarrow> gr_dtype g \<noteq> float16 | None \<Rightarrow> True) gs"

lemma collect_ok:
  assumes "no_half gs" and "groups_ok groups"
  shows "\<exists>groups'. collect_grads ops False i gs groups = Inr (gs, groups') \<and> groups_ok groups'
    \<and> mset (positions groups') = mset (positions groups) + mset (present i gs)"
  using assms
proof (induction gs arbitrary: i groups)
  case Nil
  then show ?case by (simp add: present_def)
next
  case (Cons g gs)
  show ?case
  proof (cases g)
    case None
    then show ?thesis using Cons.IH [of groups "Suc i"] Cons.prems by (auto simp: no_half_def present_Cons)
  next
    case (Some h)
    note a = add_grad_ok [OF Cons.prems(2), of "gr_device h" "gr_dtype h" i]
    have h: "gr_dtype h \<noteq> float16" "no_half gs" using Cons.prems(1) Some by (auto simp: no_half_def)
    obtain groups' where "collect_grads ops False (Suc i) gs (add_grad (gr_device h) (gr_dtype h) i groups) = Inr (gs, groups')"
      "groups_ok groups'" "mset (positions groups') = mset (positions groups) + {#i#} + mset (present (Suc i) gs)"
      using Cons.IH [OF h(2) a(1), of "Suc i"] a(2) by auto
    then show ?thesis using Some h(1) by (simp add: present_Cons Let_def)
  qed
qed

section \<open>Unscaling\<close>

lemma update_positions:
  assumes "distinct idx" and "\<forall>i \<in> set idx. i < length gs"
  shows "fold (\<lambda>i gs. gs[i := f (gs ! i)]) idx gs = map (\<lambda>k. if k \<in> set idx then f (gs ! k) else gs ! k) [0..<length gs]"
  using assms
proof (induction idx arbitrary: gs)
  case (Cons i idx)
  have "fold (\<lambda>i gs. gs[i := f (gs ! i)]) idx (gs[i := f (gs ! i)]) =
      map (\<lambda>k. if k \<in> set idx then f (gs[i := f (gs ! i)] ! k) else gs[i := f (gs ! i)] ! k) [0..<length (gs[i := f (gs ! i)])]"
    using Cons.prems by (intro Cons.IH) auto
  then show ?case using Cons.prems by (auto simp: nth_list_update)
qed (simp add: map_nth)

definition found_ok :: "'v unscaling \<Rightarrow> bool" where
  "found_ok u \<longleftrightarrow> un_overflow u \<or> (\<forall>n \<in> set (map snd (un_found u)). n = 0)"

lemma unscale_groups_ok:
  assumes "distinct (concat (map snd gps))" and "\<forall>i \<in> set (concat (map snd gps)). i < length (un_grads u)"
    and "found_ok u"
  shows "let r = fold (unscale_group ops dynamic inv_scale) gps u; idx = set (concat (map snd gps))
    in un_grads r = map (\<lambda>k. if k \<in> idx then unscale_grad ops inv_scale (un_grads u ! k) else un_grads u ! k) [0..<length (un_grads u)]
      \<and> found_ok r \<and> un_overflow r = (un_overflow u \<or> dynamic \<and> (\<exists>i \<in> idx. bad_grad ops (un_grads u ! i)))"
  using assms
proof (induction gps arbitrary: u)
  case Nil
  then show ?case by (simp add: map_nth)
next
  case (Cons g gps)
  obtain dev idx where g: "g = (dev, idx)" by fastforce
  let ?u = "unscale_group ops dynamic inv_scale g u"
  have idx: "distinct idx" "\<forall>i \<in> set idx. i < length (un_grads u)" "set idx \<inter> set (concat (map snd gps)) = {}"
    using Cons.prems(1,2) g by auto
  have grads: "un_grads ?u = map (\<lambda>k. if k \<in> set idx then unscale_grad ops inv_scale (un_grads u ! k) else un_grads u ! k) [0..<length (un_grads u)]"
    using update_positions [OF idx(1,2)] by (simp add: unscale_group_def g Let_def)
  have zero: "un_overflow u \<or> found_at (un_found u) dev = 0"
    using Cons.prems(3) map_of_SomeD [of "un_found u" dev] by (force simp: found_ok_def found_at_def split: option.splits)
  have over: "un_overflow ?u = (un_overflow u \<or> dynamic \<and> (\<exists>i \<in> set idx. bad_grad ops (un_grads u ! i)))"
    using zero by (auto simp: unscale_group_def g Let_def list_ex_iff)
  have ok: "found_ok ?u"
    using Cons.prems(3) zero set_update_subset [of dev _ "un_found u"]
    by (auto simp: found_ok_def unscale_group_def g Let_def list_ex_iff) fastforce+
  have len: "length (un_grads ?u) = length (un_grads u)" using grads by simp
  have "distinct (concat (map snd gps))" "\<forall>i \<in> set (concat (map snd gps)). i < length (un_grads ?u)"
    using Cons.prems(1,2) len by auto
  note IH = Cons.IH [OF this ok, unfolded Let_def len]
  have same: "un_grads ?u ! i = un_grads u ! i" if "i \<in> set (concat (map snd gps))" for i
    using idx(3) that Cons.prems(2) grads by auto
  have nth: "un_grads ?u ! k = (if k \<in> set idx then unscale_grad ops inv_scale (un_grads u ! k) else un_grads u ! k)" if "k < length (un_grads u)" for k
    using grads that by simp
  have "un_overflow (fold (unscale_group ops dynamic inv_scale) gps ?u) =
      (un_overflow u \<or> dynamic \<and> (\<exists>i \<in> set (concat (map snd (g # gps))). bad_grad ops (un_grads u ! i)))"
  proof -
    have "(\<exists>i \<in> set (concat (map snd gps)). bad_grad ops (un_grads ?u ! i)) = (\<exists>i \<in> set (concat (map snd gps)). bad_grad ops (un_grads u ! i))"
      by (rule bex_cong [OF refl]) (simp only: same)
    moreover have "set (concat (map snd (g # gps))) = set idx \<union> set (concat (map snd gps))" by (simp add: g)
    ultimately show ?thesis using IH over by blast
  qed
  moreover have "un_grads (fold (unscale_group ops dynamic inv_scale) gps ?u) =
      map (\<lambda>k. if k \<in> set (concat (map snd (g # gps))) then unscale_grad ops inv_scale (un_grads u ! k) else un_grads u ! k) [0..<length (un_grads u)]"
    using IH idx(3) nth g by auto
  ultimately show ?case using IH by (simp add: Let_def)
qed

section \<open>A step\<close>

definition checks :: "('f, 'v) amp_ops \<Rightarrow> bool" where
  "checks ops \<longleftrightarrow> (\<forall>f t. op_check ops (Some f) (Some t) = Inr ())"

text \<open>A scaler that is in use: \<open>scale\<close> has initialised it.\<close>

definition in_use :: "('f, 'v) scaler \<Rightarrow> bool" where
  "in_use s \<longleftrightarrow> sc_enabled s \<and> sc_scale s \<noteq> None \<and> sc_growth_tracker s \<noteq> None \<and> sc_dist_overflow_count s = Some 0"

definition local_overflow :: "('f, 'v) amp_ops \<Rightarrow> optimizer \<Rightarrow> ('f, 'v) scaler \<Rightarrow> bool" where
  "local_overflow ops opt s \<longleftrightarrow> sc_has_overflow s \<or> sc_dynamic s \<and> list_ex (bad_grad ops) (sc_grads s (op_id opt))"

definition syncs :: "amp_env \<Rightarrow> ('f, 'v) scaler \<Rightarrow> bool" where
  "syncs en s \<longleftrightarrow> \<not> en_support_inf_nan en \<and> sc_dynamic s \<and> sc_dist_initialized s"

definition overflow_after :: "('f, 'v) amp_ops \<Rightarrow> amp_env \<Rightarrow> optimizer \<Rightarrow> ('f, 'v) scaler \<Rightarrow> bool" where
  "overflow_after ops en opt s \<longleftrightarrow>
     local_overflow ops opt s
     \<or> syncs en s \<and> en_all_reduce en 0 \<noteq> 0"

text \<open>What a step passes to the all-reduce.\<close>

definition passed :: "('f, 'v) amp_ops \<Rightarrow> amp_env \<Rightarrow> optimizer \<Rightarrow> ('f, 'v) scaler \<Rightarrow> nat list" where
  "passed ops en opt s = (if syncs en s then [if local_overflow ops opt s then 1 else 0] else [])"

lemma present_0: "present 0 gs = filter (\<lambda>k. gs ! k \<noteq> None) [0..<length gs]"
  by (simp add: present_def)

lemma groups_of_grads:
  assumes "op_fused opt \<or> no_half (sc_grads s (op_id opt))"
  shows "\<exists>gps. (if op_fused opt
                   then Inr (sc_grads s (op_id opt), fused_groups (sc_device s) (sc_grads s (op_id opt)))
                   else rbind (collect_grads ops False 0 (sc_grads s (op_id opt)) []) (\<lambda>(gs, groups). Inr (gs, flat_groups groups)))
     = Inr (sc_grads s (op_id opt), gps) \<and> mset (concat (map snd gps)) = mset (present 0 (sc_grads s (op_id opt)))"
proof (cases "op_fused opt")
  case True
  then show ?thesis by (simp add: fused_groups_def present_0 comp_def concat_map_singleton)
next
  case False
  then obtain groups where "collect_grads ops False 0 (sc_grads s (op_id opt)) [] = Inr (sc_grads s (op_id opt), groups)"
    "mset (positions groups) = mset (present 0 (sc_grads s (op_id opt)))"
    using collect_ok [of "sc_grads s (op_id opt)" "[]" ops 0] assms by (auto simp: groups_ok_def positions_def flat_groups_def)
  then show ?thesis using False by (simp add: positions_def)
qed

lemma unscale_all:
  assumes "mset (concat (map snd gps)) = mset (present 0 gs)"
  shows "let u = fold (unscale_group ops dynamic inv_scale) gps \<lparr>un_grads = gs, un_found = [], un_overflow = ov\<rparr>
    in un_grads u = map (unscale_grad ops inv_scale) gs \<and> found_ok u
      \<and> un_overflow u = (ov \<or> dynamic \<and> list_ex (bad_grad ops) gs)"
proof -
  let ?u = "\<lparr>un_grads = gs, un_found = [], un_overflow = ov\<rparr>"
  have set: "set (concat (map snd gps)) = {k. k < length gs \<and> gs ! k \<noteq> None}"
    using arg_cong [OF assms(1), of set_mset] by (auto simp: present_0)
  have "distinct (concat (map snd gps))" using assms(1) by (metis distinct_filter distinct_upt mset_eq_imp_distinct_iff present_0)
  moreover have "\<forall>i \<in> set (concat (map snd gps)). i < length (un_grads ?u)" using set by simp
  moreover have "found_ok ?u" by (simp add: found_ok_def)
  ultimately have r: "let r = fold (unscale_group ops dynamic inv_scale) gps ?u; idx = set (concat (map snd gps))
    in un_grads r = map (\<lambda>k. if k \<in> idx then unscale_grad ops inv_scale (un_grads ?u ! k) else un_grads ?u ! k) [0..<length (un_grads ?u)]
      \<and> found_ok r \<and> un_overflow r = (un_overflow ?u \<or> dynamic \<and> (\<exists>i \<in> idx. bad_grad ops (un_grads ?u ! i)))"
    by (rule unscale_groups_ok)
  have "map (\<lambda>k. if k \<in> {k. k < length gs \<and> gs ! k \<noteq> None} then unscale_grad ops inv_scale (gs ! k) else gs ! k) [0..<length gs]
      = map (unscale_grad ops inv_scale) gs"
    by (rule nth_equalityI) (auto simp: unscale_grad_def)
  moreover have "(\<exists>i \<in> {k. k < length gs \<and> gs ! k \<noteq> None}. bad_grad ops (gs ! i)) = list_ex (bad_grad ops) gs"
    by (auto simp: list_ex_length bad_grad_def split: option.splits)
  ultimately show ?thesis using r unfolding set Let_def unscaling.select_convs by simp
qed

lemma sync_run:
  assumes "sc_dist_overflow_count s = Some 0"
  shows "sync_dist_overflow_count en s = (Inr (), s\<lparr>
    sc_has_overflow := (sc_has_overflow s \<or> syncs en s \<and> en_all_reduce en 0 \<noteq> 0),
    sc_reduced := sc_reduced s @ (if syncs en s then [if sc_has_overflow s then 1 else 0] else [])\<rparr>)"
  using assms
  by (cases s) (auto simp: sync_dist_overflow_count_def all_reduce_count_def syncs_def sbind_def sseq_def sget_def smod_def sret_def)

lemma unscale_grads_run:
  assumes "op_fused opt \<or> no_half (sc_grads s (op_id opt))" and "in_use s"
  shows "\<exists>found. unscale_grads ops en opt inv_scale False s =
      (Inr found, s\<lparr>sc_grads := (sc_grads s)(op_id opt := map (unscale_grad ops inv_scale) (sc_grads s (op_id opt))),
                    sc_has_overflow := overflow_after ops en opt s,
                    sc_reduced := sc_reduced s @ passed ops en opt s\<rparr>)
    \<and> found \<noteq> [] \<and> (\<not> overflow_after ops en opt s \<longrightarrow> sum_list (map snd found) = 0)"
proof -
  let ?gs = "sc_grads s (op_id opt)"
  obtain gps where g: "(if op_fused opt then Inr (?gs, fused_groups (sc_device s) ?gs)
       else rbind (collect_grads ops False 0 ?gs []) (\<lambda>(gs, groups). Inr (gs, flat_groups groups))) = Inr (?gs, gps)"
    "mset (concat (map snd gps)) = mset (present 0 ?gs)" using groups_of_grads [OF assms(1)] by blast
  define u where "u = fold (unscale_group ops (sc_dynamic s) inv_scale) gps \<lparr>un_grads = ?gs, un_found = [], un_overflow = sc_has_overflow s\<rparr>"
  have u: "un_grads u = map (unscale_grad ops inv_scale) ?gs" "found_ok u" "un_overflow u = local_overflow ops opt s"
    using unscale_all [OF g(2), of ops "sc_dynamic s" inv_scale "sc_has_overflow s"] by (simp_all add: u_def Let_def local_overflow_def)
  have zero: "sum_list (map snd (found_get (sc_device s) (un_found u))) = 0" if "\<not> local_overflow ops opt s"
  proof -
    have z: "\<forall>n \<in> set (map snd (un_found u)). n = 0" using u(2,3) that by (simp add: found_ok_def)
    then have "found_at (un_found u) (sc_device s) = 0"
      using map_of_SomeD [of "un_found u" "sc_device s"] by (force simp: found_at_def split: option.splits)
    then show ?thesis using z set_update_subset [of "sc_device s" 0 "un_found u"] by (force simp: found_get_def)
  qed
  let ?s1 = "s\<lparr>sc_grads := (sc_grads s)(op_id opt := un_grads u), sc_has_overflow := un_overflow u\<rparr>"
  let ?s2 = "s\<lparr>sc_grads := (sc_grads s)(op_id opt := un_grads u), sc_has_overflow := overflow_after ops en opt s,
                    sc_reduced := sc_reduced s @ passed ops en opt s\<rparr>"
  have "unscale_grads ops en opt inv_scale False s =
      sseq (sync_dist_overflow_count en) (sbind (sget id) (\<lambda>s'.
        sret (if sc_has_overflow s' then AList.update (sc_device s') (found_at (un_found u) (sc_device s') + 1) (un_found u)
              else found_get (sc_device s') (un_found u)))) ?s1"
    unfolding unscale_grads_def u_def by (simp add: sbind_def sget_def slift_def g(1) sseq_def smod_def Let_def)
  moreover have "sync_dist_overflow_count en ?s1 = (Inr (), ?s2)"
    using assms(2) sync_run [of ?s1 en] u(3) by (simp add: in_use_def overflow_after_def passed_def syncs_def)
  ultimately show ?thesis using u(1) zero
    by (auto simp: sseq_def sbind_def sget_def sret_def found_get_def overflow_after_def)
qed

lemma check_run: "checks ops \<Longrightarrow> in_use s \<Longrightarrow> check_scale ops s = (Inr (), s)"
  by (auto simp: check_scale_def sbind_def sget_def slift_def checks_def in_use_def)

lemma unscale_run:
  assumes ops: "checks ops" and s: "in_use s" "oe_stage (sc_states s (op_id opt)) = READY"
    and opt: "op_fused opt \<or> no_half (sc_grads s (op_id opt))"
  shows "\<exists>s' found. unscale ops en opt s = (Inr (), s')
    \<and> s' = s\<lparr>sc_states := (sc_states s)(op_id opt := \<lparr>oe_stage = UNSCALED, oe_found_inf = found\<rparr>),
             sc_grads := (sc_grads s)(op_id opt := map (unscale_grad ops (op_recip ops (the (sc_scale s)))) (sc_grads s (op_id opt))),
             sc_has_overflow := overflow_after ops en opt s,
                    sc_reduced := sc_reduced s @ passed ops en opt s\<rparr>
    \<and> found \<noteq> [] \<and> (\<not> overflow_after ops en opt s \<longrightarrow> sum_list (map snd found) = 0)"
proof -
  obtain f where f: "sc_scale s = Some f" using s(1) by (auto simp: in_use_def)
  obtain found where found: "unscale_grads ops en opt (op_recip ops f) False s =
      (Inr found, s\<lparr>sc_grads := (sc_grads s)(op_id opt := map (unscale_grad ops (op_recip ops f)) (sc_grads s (op_id opt))),
                    sc_has_overflow := overflow_after ops en opt s,
                    sc_reduced := sc_reduced s @ passed ops en opt s\<rparr>)"
    "found \<noteq> []" "\<not> overflow_after ops en opt s \<longrightarrow> sum_list (map snd found) = 0"
    using unscale_grads_run [OF opt s(1), of ops en "op_recip ops f"] by blast
  have entry: "e\<lparr>oe_found_inf := found, oe_stage := UNSCALED\<rparr> = \<lparr>oe_stage = UNSCALED, oe_found_inf = found\<rparr>" for e :: opt_entry
    by (cases e) simp
  have "unscale ops en opt s = (Inr (), s\<lparr>sc_states := (sc_states s)(op_id opt := \<lparr>oe_stage = UNSCALED, oe_found_inf = found\<rparr>),
             sc_grads := (sc_grads s)(op_id opt := map (unscale_grad ops (op_recip ops (the (sc_scale s)))) (sc_grads s (op_id opt))),
             sc_has_overflow := overflow_after ops en opt s,
                    sc_reduced := sc_reduced s @ passed ops en opt s\<rparr>)"
    using s found(1) f check_run [OF ops s(1)]
    by (simp add: unscale_def sbind_def sget_def sseq_def set_entry_def smod_def in_use_def entry)
  then show ?thesis using found(2,3) by blast
qed

definition unscaled :: "('f, 'v) amp_ops \<Rightarrow> optimizer \<Rightarrow> ('f, 'v) scaler \<Rightarrow> 'v grad option list" where
  "unscaled ops opt s = map (unscale_grad ops (op_recip ops (the (sc_scale s)))) (sc_grads s (op_id opt))"

lemma step_run:
  assumes ops: "checks ops" and s: "in_use s" "oe_stage (sc_states s (op_id opt)) = READY" "sc_dynamic s"
    and opt: "op_fused opt \<or> no_half (sc_grads s (op_id opt))" "\<not> op_supports_amp opt"
  shows "\<exists>found s'. step ops en False opt s = (Inr (), s')
    \<and> s' = s\<lparr>sc_states := (sc_states s)(op_id opt := \<lparr>oe_stage = STEPPED, oe_found_inf = found\<rparr>),
             sc_grads := (sc_grads s)(op_id opt := unscaled ops opt s),
             sc_has_overflow := overflow_after ops en opt s, sc_reduced := sc_reduced s @ passed ops en opt s,
             sc_steps := sc_steps s @ (if overflow_after ops en opt s then [] else [(op_id opt, unscaled ops opt s)])\<rparr>"
proof -
  obtain s1 found where u: "unscale ops en opt s = (Inr (), s1)"
    "s1 = s\<lparr>sc_states := (sc_states s)(op_id opt := \<lparr>oe_stage = UNSCALED, oe_found_inf = found\<rparr>),
            sc_grads := (sc_grads s)(op_id opt := unscaled ops opt s), sc_has_overflow := overflow_after ops en opt s,
                    sc_reduced := sc_reduced s @ passed ops en opt s\<rparr>"
    "found \<noteq> []" "\<not> overflow_after ops en opt s \<longrightarrow> sum_list (map snd found) = 0"
    using unscale_run [OF ops s(1,2) opt(1), of en] unfolding unscaled_def by blast
  have "step ops en False opt s = sseq (maybe_opt_step opt) (set_stepped opt) s1"
    using s opt(2) u(1,3) check_run [OF ops s(1)]
    by (simp add: step_def sbind_def sget_def sseq_def in_use_def) (simp add: u(2) s(3))
  also have "\<dots> = (Inr (), s\<lparr>sc_states := (sc_states s)(op_id opt := \<lparr>oe_stage = STEPPED, oe_found_inf = found\<rparr>),
             sc_grads := (sc_grads s)(op_id opt := unscaled ops opt s),
             sc_has_overflow := overflow_after ops en opt s, sc_reduced := sc_reduced s @ passed ops en opt s,
             sc_steps := sc_steps s @ (if overflow_after ops en opt s then [] else [(op_id opt, unscaled ops opt s)])\<rparr>)"
    using u(4) by (auto simp: u(2) sseq_def maybe_opt_step_def optimizer_step_def set_stepped_def set_entry_def
        sbind_def sget_def smod_def sret_def)
  finally show ?thesis by blast
qed

section \<open>The scale\<close>

definition grow :: "('f, 'v) amp_ops \<Rightarrow> 'f \<Rightarrow> 'f \<Rightarrow> 'f" where
  "grow ops g f = (let n = op_mul ops f g in if op_isinf ops n then f else n)"

lemma update_run:
  assumes "checks ops" and "in_use s" and "sc_dynamic s" and "sc_scale s = Some f" and "sc_growth_tracker s = Some t"
  shows "update ops NoScale s = (Inr (), end_iteration (npu_update_scale ops f t s))"
  using assms check_run [OF assms(1,2)]
  by (simp add: update_def sbind_def sget_def sseq_def smod_def in_use_def)

lemma amp_iteration_run:
  assumes ops: "checks ops" and s: "in_use s" "oe_stage (sc_states s (op_id opt)) = READY" "sc_dynamic s"
    and opt: "op_fused opt \<or> no_half (sc_grads s (op_id opt))" "\<not> op_supports_amp opt"
    and f: "sc_scale s = Some f" "sc_growth_tracker s = Some t"
  shows "\<exists>s'. sseq (step ops en False opt) (update ops NoScale) s = (Inr (), s')
    \<and> in_use s' \<and> \<not> sc_has_overflow s' \<and> oe_stage (sc_states s' (op_id opt)) = READY
    \<and> sc_grads s' = (sc_grads s)(op_id opt := unscaled ops opt s)
    \<and> sc_steps s' = sc_steps s @ (if overflow_after ops en opt s then [] else [(op_id opt, unscaled ops opt s)])
    \<and> (sc_scale s', sc_growth_tracker s') =
        (if overflow_after ops en opt s then (Some (op_mul ops f (sc_backoff_factor s)), Some 0)
         else if int (t + 1) = sc_growth_interval s then (Some (grow ops (sc_growth_factor s) f), Some 0)
         else (Some f, Some (t + 1)))"
proof -
  obtain found s1 where 1: "step ops en False opt s = (Inr (), s1)"
    "s1 = s\<lparr>sc_states := (sc_states s)(op_id opt := \<lparr>oe_stage = STEPPED, oe_found_inf = found\<rparr>),
             sc_grads := (sc_grads s)(op_id opt := unscaled ops opt s),
             sc_has_overflow := overflow_after ops en opt s, sc_reduced := sc_reduced s @ passed ops en opt s,
             sc_steps := sc_steps s @ (if overflow_after ops en opt s then [] else [(op_id opt, unscaled ops opt s)])\<rparr>"
    using step_run [OF ops s opt, of en] by blast
  have "update ops NoScale s1 = (Inr (), end_iteration (npu_update_scale ops f t s1))"
    using update_run [OF ops, of s1 f t] s f by (simp add: 1(2) in_use_def)
  then have "sseq (step ops en False opt) (update ops NoScale) s = (Inr (), end_iteration (npu_update_scale ops f t s1))"
    using 1(1) by (simp add: sseq_def sbind_def)
  then show ?thesis using s(1) f
    by (auto simp: 1(2) end_iteration_def npu_update_scale_def in_use_def refresh_per_optimizer_state_def grow_def Let_def)
qed

text \<open>
  C9: An iteration with a dynamic scale, that is a step of an optimizer and the update.  The gradients are unscaled
  exactly once; the optimizer steps, with the unscaled gradients, unless an infinite or undefined value
  was found here or, without device support for infinities, on another rank; the scale shrinks after an
  overflow, grows when the interval is complete and the result is finite, and is kept otherwise; and the
  scaler is ready for the next iteration.
\<close>

theorem amp_iteration:
  assumes "checks ops" and "in_use s" and "oe_stage (sc_states s (op_id opt)) = READY" and "sc_dynamic s"
    and "op_fused opt \<or> no_half (sc_grads s (op_id opt))" and "\<not> op_supports_amp opt"
    and "sc_scale s = Some f" and "sc_growth_tracker s = Some t"
  shows "\<exists>s'. sseq (step ops en False opt) (update ops NoScale) s = (Inr (), s')
    \<and> in_use s' \<and> \<not> sc_has_overflow s' \<and> oe_stage (sc_states s' (op_id opt)) = READY
    \<and> sc_grads s' = (sc_grads s)(op_id opt := unscaled ops opt s)
    \<and> sc_steps s' = sc_steps s @ (if overflow_after ops en opt s then [] else [(op_id opt, unscaled ops opt s)])
    \<and> (sc_scale s', sc_growth_tracker s') =
        (if overflow_after ops en opt s then (Some (op_mul ops f (sc_backoff_factor s)), Some 0)
         else if int (t + 1) = sc_growth_interval s then (Some (grow ops (sc_growth_factor s) f), Some 0)
         else (Some f, Some (t + 1)))"
  by (rule amp_iteration_run [OF assms])

text \<open>A concrete arithmetic: values and scales are integers, and a value above 100 counts as infinite.\<close>

definition int_ops :: "(int, int) amp_ops" where
  "int_ops = \<lparr>op_nonfinite = (\<lambda>v. v > 100), op_unscale = (\<lambda>v f. v - f), op_coalesce = id, op_mul = (\<lambda>a b. a + b),
     op_isinf = (\<lambda>f. f > 100), op_le_one = (\<lambda>f. f \<le> 0), op_ge_one = (\<lambda>f. f \<ge> 0), op_recip = id, op_scale = (\<lambda>v f. v + f),
     op_check = (\<lambda>f t. if f \<noteq> None \<and> t \<noteq> None then Inr () else Inl RuntimeError)\<rparr>"

definition demo_grads :: "nat \<Rightarrow> int grad option list" where
  "demo_grads i = [Some \<lparr>gr_device = 0, gr_dtype = 1, gr_sparse = False, gr_value = (if i = 1 then 200 else 30)\<rparr>, None,
                   Some \<lparr>gr_device = 1, gr_dtype = 1, gr_sparse = False, gr_value = 40\<rparr>]"

definition demo_scaler :: "(int, int) scaler" where
  "demo_scaler =
     (case grad_scaler int_ops False 16 1 (-1) 2 True True demo_grads of
        Inr s \<Rightarrow> snd (scale int_ops \<lparr>en_dist_initialized = True, en_support_inf_nan = False, en_all_reduce = id\<rparr> (OTensor 0 True 1) s))"

definition amp_demo_env :: "nat \<Rightarrow> amp_env" where
  "amp_demo_env n = \<lparr>en_dist_initialized = True, en_support_inf_nan = False, en_all_reduce = (\<lambda>_. n)\<rparr>"

definition demo_opt :: "nat \<Rightarrow> optimizer" where
  "demo_opt i = \<lparr>op_id = i, op_fused = False, op_supports_amp = False\<rparr>"

lemma demo_scaler_facts:
  "checks int_ops" "in_use demo_scaler" "sc_dynamic demo_scaler" "oe_stage (sc_states demo_scaler i) = READY"
  "sc_scale demo_scaler = Some 16" "sc_growth_tracker demo_scaler = Some 0" "sc_grads demo_scaler = demo_grads"
  "sc_has_overflow demo_scaler = False" "sc_dist_initialized demo_scaler"
  by (simp_all add: checks_def in_use_def demo_scaler_def grad_scaler_def int_ops_def scale_def sbind_def sget_def sseq_def
      lazy_init_dist_def scale_tensor_def lazy_init_scale_growth_tracker_def smod_def sret_def refresh_per_optimizer_state_def)

theorem amp_iteration_witness:
  "\<exists>s'. sseq (step int_ops (amp_demo_env 0) False (demo_opt 0)) (update int_ops NoScale) demo_scaler = (Inr (), s')
     \<and> in_use s' \<and> sc_growth_tracker s' = Some 1"
proof -
  have opt: "op_fused (demo_opt 0) \<or> no_half (sc_grads demo_scaler (op_id (demo_opt 0)))" "\<not> op_supports_amp (demo_opt 0)"
    unfolding demo_scaler_facts(7) by code_simp+
  have "\<not> overflow_after int_ops (amp_demo_env 0) (demo_opt 0) demo_scaler"
    by (simp add: overflow_after_def local_overflow_def demo_scaler_facts demo_grads_def demo_opt_def amp_demo_env_def bad_grad_def int_ops_def)
  moreover have "sc_growth_interval demo_scaler = 2" by code_simp
  ultimately show ?thesis
    using amp_iteration [OF demo_scaler_facts(1,2,4,3) opt demo_scaler_facts(5,6), of "amp_demo_env 0"] by auto
qed


section \<open>Training\<close>

text \<open>
  An iteration of training: the loss is scaled, the backward pass leaves gradients, the optimizer steps
  through the scaler, and the scale is updated.
\<close>

definition backward :: "nat \<Rightarrow> 'v grad option list \<Rightarrow> ('f, 'v, unit) amp" where
  "backward i gs = smod (\<lambda>s. s\<lparr>sc_grads := (sc_grads s)(i := gs)\<rparr>)"

definition training_iteration ::
  "('f, 'v) amp_ops \<Rightarrow> amp_env \<Rightarrow> optimizer \<Rightarrow> 'v \<Rightarrow> 'v grad option list \<Rightarrow> ('f, 'v, unit) amp" where
  "training_iteration ops en opt loss gs =
     sbind (scale ops en (OTensor 0 True loss)) (\<lambda>_.
     sseq (backward (op_id opt) gs) (sseq (step ops en False opt) (update ops NoScale)))"

lemma scale_run:
  assumes "in_use s" and "sc_scale s = Some f"
  shows "\<exists>b. scale ops en (OTensor dev True v) s = (Inr (OTensor dev True (op_scale ops v f)), s\<lparr>sc_clear_overflow_flag := b\<rparr>)"
proof -
  let ?b = "sc_clear_overflow_flag s \<or> sc_dynamic s"
  have "scale ops en (OTensor dev True v) s = (Inr (OTensor dev True (op_scale ops v f)), s\<lparr>sc_clear_overflow_flag := ?b\<rparr>)"
    using assms by (cases s) (auto simp: scale_def scale_tensor_def in_use_def sbind_def sget_def sseq_def smod_def sret_def)
  then show ?thesis by blast
qed

lemma step_update_frame:
  assumes "sseq (step ops en False opt) (update ops NoScale) s = (Inr (), s')"
    and "checks ops" and "in_use s" and "oe_stage (sc_states s (op_id opt)) = READY" and "sc_dynamic s"
    and "op_fused opt \<or> no_half (sc_grads s (op_id opt))" and "\<not> op_supports_amp opt"
  shows "sc_dynamic s' \<and> sc_growth_interval s' = sc_growth_interval s \<and> sc_growth_factor s' = sc_growth_factor s
    \<and> sc_dist_initialized s' = sc_dist_initialized s"
proof -
  obtain f t where ft: "sc_scale s = Some f" "sc_growth_tracker s = Some t" using assms(3) by (auto simp: in_use_def)
  obtain found s1 where 1: "step ops en False opt s = (Inr (), s1)"
    "s1 = s\<lparr>sc_states := (sc_states s)(op_id opt := \<lparr>oe_stage = STEPPED, oe_found_inf = found\<rparr>),
             sc_grads := (sc_grads s)(op_id opt := unscaled ops opt s),
             sc_has_overflow := overflow_after ops en opt s, sc_reduced := sc_reduced s @ passed ops en opt s,
             sc_steps := sc_steps s @ (if overflow_after ops en opt s then [] else [(op_id opt, unscaled ops opt s)])\<rparr>"
    using step_run [OF assms(2-7), of en] by blast
  have "update ops NoScale s1 = (Inr (), end_iteration (npu_update_scale ops f t s1))"
    using update_run [OF assms(2), of s1 f t] assms(3,5) ft by (simp add: 1(2) in_use_def)
  then have "s' = end_iteration (npu_update_scale ops f t s1)"
    using assms(1) 1(1) by (simp add: sseq_def sbind_def)
  then show ?thesis using assms(5) by (simp add: 1(2) end_iteration_def npu_update_scale_def Let_def)
qed

text \<open>A scaler between two iterations, with the scale and the number of successes since the last growth.\<close>

definition ready_at :: "('f, 'v) scaler \<Rightarrow> optimizer \<Rightarrow> 'f \<Rightarrow> nat \<Rightarrow> bool" where
  "ready_at s opt f t \<longleftrightarrow> in_use s \<and> sc_dynamic s \<and> \<not> sc_has_overflow s \<and> oe_stage (sc_states s (op_id opt)) = READY
     \<and> sc_scale s = Some f \<and> sc_growth_tracker s = Some t"

definition finite_grads :: "('f, 'v) amp_ops \<Rightarrow> optimizer \<Rightarrow> 'v grad option list \<Rightarrow> bool" where
  "finite_grads ops opt gs \<longleftrightarrow> (op_fused opt \<or> no_half gs) \<and> \<not> list_ex (bad_grad ops) gs"

lemma training_step:
  assumes ops: "checks ops" and s: "ready_at s opt f t" and gs: "finite_grads ops opt gs"
    and opt: "\<not> op_supports_amp opt" and others: "en_support_inf_nan en \<or> en_all_reduce en 0 = 0"
  shows "\<exists>s'. training_iteration ops en opt loss gs s = (Inr (), s')
    \<and> (if int (t + 1) = sc_growth_interval s then ready_at s' opt (grow ops (sc_growth_factor s) f) 0 else ready_at s' opt f (t + 1))
    \<and> sc_growth_interval s' = sc_growth_interval s \<and> sc_growth_factor s' = sc_growth_factor s
    \<and> sc_steps s' = sc_steps s @ [(op_id opt, map (unscale_grad ops (op_recip ops f)) gs)]"
proof -
  obtain b where b: "scale ops en (OTensor 0 True loss) s = (Inr (OTensor 0 True (op_scale ops loss f)), s\<lparr>sc_clear_overflow_flag := b\<rparr>)"
    using scale_run [of s f] s unfolding ready_at_def by blast
  let ?s = "s\<lparr>sc_clear_overflow_flag := b, sc_grads := (sc_grads s)(op_id opt := gs)\<rparr>"
  have pre: "in_use ?s" "oe_stage (sc_states ?s (op_id opt)) = READY" "sc_dynamic ?s"
      "op_fused opt \<or> no_half (sc_grads ?s (op_id opt))" "sc_scale ?s = Some f" "sc_growth_tracker ?s = Some t"
    using s gs by (auto simp: ready_at_def in_use_def finite_grads_def)
  have fine: "\<not> overflow_after ops en opt ?s"
    using s gs others by (auto simp: overflow_after_def local_overflow_def finite_grads_def ready_at_def syncs_def)
  have un: "unscaled ops opt ?s = map (unscale_grad ops (op_recip ops f)) gs" using pre(5) by (simp add: unscaled_def)
  obtain s' where s': "sseq (step ops en False opt) (update ops NoScale) ?s = (Inr (), s')"
    "in_use s'" "\<not> sc_has_overflow s'" "oe_stage (sc_states s' (op_id opt)) = READY"
    "sc_steps s' = sc_steps s @ [(op_id opt, map (unscale_grad ops (op_recip ops f)) gs)]"
    "(sc_scale s', sc_growth_tracker s') = (if int (t + 1) = sc_growth_interval s then (Some (grow ops (sc_growth_factor s) f), Some 0) else (Some f, Some (t + 1)))"
    using amp_iteration_run [OF ops pre(1-4) opt pre(5,6), of en] fine un by auto
  have frame: "sc_dynamic s'" "sc_growth_interval s' = sc_growth_interval s" "sc_growth_factor s' = sc_growth_factor s"
    using step_update_frame [OF s'(1) ops pre(1-4) opt] by simp_all
  have "training_iteration ops en opt loss gs s = (Inr (), s')"
    using b s'(1) by (simp add: training_iteration_def sbind_def sseq_def backward_def smod_def)
  then show ?thesis using s'(2-6) frame by (auto simp: ready_at_def split: if_splits)
qed

lemma growth_run:
  assumes ops: "checks ops" and s: "ready_at s opt f t" and opt: "\<not> op_supports_amp opt"
    and others: "en_support_inf_nan en \<or> en_all_reduce en 0 = 0"
    and k: "sc_growth_interval s = int k" "t < k"
    and gss: "\<forall>gs \<in> set gss. finite_grads ops opt gs"
  defines "scale_at i \<equiv> (grow ops (sc_growth_factor s) ^^ ((t + i) div k)) f"
  shows "\<exists>s'. smap_seq (training_iteration ops en opt loss) gss s = (Inr (), s')
    \<and> ready_at s' opt (scale_at (length gss)) ((t + length gss) mod k)
    \<and> sc_growth_interval s' = int k \<and> sc_growth_factor s' = sc_growth_factor s
    \<and> sc_steps s' = sc_steps s @ map (\<lambda>i. (op_id opt, map (unscale_grad ops (op_recip ops (scale_at i))) (gss ! i))) [0..<length gss]"
  using gss
proof (induction gss rule: rev_induct)
  case Nil
  then show ?case using s k by (simp add: sret_def scale_at_def)
next
  case (snoc gs gss)
  let ?n = "length gss" and ?t = "(t + length gss) mod k"
  obtain s1 where 1: "smap_seq (training_iteration ops en opt loss) gss s = (Inr (), s1)"
    "ready_at s1 opt (scale_at ?n) ?t" "sc_growth_interval s1 = int k" "sc_growth_factor s1 = sc_growth_factor s"
    "sc_steps s1 = sc_steps s @ map (\<lambda>i. (op_id opt, map (unscale_grad ops (op_recip ops (scale_at i))) (gss ! i))) [0..<?n]"
    using snoc by auto
  have gs: "finite_grads ops opt gs" using snoc.prems by simp
  obtain s2 where 2: "training_iteration ops en opt loss gs s1 = (Inr (), s2)"
    "if ?t + 1 = k then ready_at s2 opt (grow ops (sc_growth_factor s) (scale_at ?n)) 0 else ready_at s2 opt (scale_at ?n) (?t + 1)"
    "sc_growth_interval s2 = int k" "sc_growth_factor s2 = sc_growth_factor s"
    "sc_steps s2 = sc_steps s1 @ [(op_id opt, map (unscale_grad ops (op_recip ops (scale_at ?n))) gs)]"
    using training_step [OF ops 1(2) gs opt others, of loss, unfolded 1(3,4) of_nat_eq_iff] by blast
  have run: "smap_seq (training_iteration ops en opt loss) (gss @ [gs]) s = (Inr (), s2)"
    using 1(1) 2(1) by (simp add: smap_seq_append sseq_def sbind_def sret_def)
  have at: "ready_at s2 opt (scale_at (Suc ?n)) ((t + Suc ?n) mod k)"
    using 2(2) by (cases "?t + 1 = k") (simp_all add: scale_at_def mod_Suc div_Suc)
  have "map (\<lambda>i. (op_id opt, map (unscale_grad ops (op_recip ops (scale_at i))) ((gss @ [gs]) ! i))) [0..<?n]
      = map (\<lambda>i. (op_id opt, map (unscale_grad ops (op_recip ops (scale_at i))) (gss ! i))) [0..<?n]"
    by (simp add: nth_append)
  then show ?case using run at 1(5) 2(3,4,5) by simp
qed

text \<open>
  C14: Training without overflow on any rank, of an optimizer that leaves scaling to the scaler and, unless it is fused, has
  no half-precision gradients: each iteration scales the loss, runs the backward pass, steps and updates. Every iteration returns and steps
  the optimizer once, with its gradients unscaled by the scale of that iteration; the scale is multiplied by
  the growth factor once per complete interval, as far as the result is finite, and the tracker holds the
  remainder.
\<close>

theorem growth_schedule:
  assumes "checks ops" and "ready_at s opt f t" and "\<not> op_supports_amp opt"
    and "en_support_inf_nan en \<or> en_all_reduce en 0 = 0" and "sc_growth_interval s = int k" and "t < k"
    and "\<forall>gs \<in> set gss. finite_grads ops opt gs"
  shows "\<exists>s'. smap_seq (training_iteration ops en opt loss) gss s = (Inr (), s')
    \<and> sc_scale s' = Some ((grow ops (sc_growth_factor s) ^^ ((t + length gss) div k)) f)
    \<and> sc_growth_tracker s' = Some ((t + length gss) mod k)
    \<and> sc_steps s' = sc_steps s @ map (\<lambda>i. (op_id opt,
          map (unscale_grad ops (op_recip ops ((grow ops (sc_growth_factor s) ^^ ((t + i) div k)) f))) (gss ! i))) [0..<length gss]"
  using growth_run [OF assms, of loss] unfolding ready_at_def by blast

theorem growth_schedule_witness:
  "\<exists>s'. smap_seq (training_iteration int_ops (amp_demo_env 0) (demo_opt 0) 1) (replicate 5 (demo_grads 0)) demo_scaler = (Inr (), s')
     \<and> sc_scale s' = Some 18 \<and> sc_growth_tracker s' = Some 1 \<and> length (sc_steps s') = 5"
proof -
  have at: "ready_at demo_scaler (demo_opt 0) 16 0"
    using demo_scaler_facts by (simp add: ready_at_def)
  have opt: "\<not> op_supports_amp (demo_opt 0)" "en_support_inf_nan (amp_demo_env 0) \<or> en_all_reduce (amp_demo_env 0) 0 = 0"
    by (simp_all add: demo_opt_def amp_demo_env_def)
  have k: "sc_growth_interval demo_scaler = int 2" "(0 :: nat) < 2" by code_simp+
  have gf: "sc_growth_factor demo_scaler = 1" "sc_steps demo_scaler = []" by code_simp+
  have gs: "\<forall>gs \<in> set (replicate 5 (demo_grads 0)). finite_grads int_ops (demo_opt 0) gs"
    by (simp add: finite_grads_def no_half_def float16_def demo_grads_def bad_grad_def int_ops_def)
  have "(grow int_ops 1 ^^ 2) 16 = 18" by code_simp
  then show ?thesis
    using growth_schedule [OF demo_scaler_facts(1) at opt k gs, of 1] gf by auto
qed

section \<open>All ranks\<close>

definition rank_ok :: "optimizer \<Rightarrow> ('f, 'v) scaler \<Rightarrow> bool" where
  "rank_ok opt s \<longleftrightarrow> in_use s \<and> oe_stage (sc_states s (op_id opt)) = READY \<and> sc_dynamic s \<and> sc_dist_initialized s
     \<and> (op_fused opt \<or> no_half (sc_grads s (op_id opt)))"

text \<open>
  The all-reduce of a job: every rank has its own environment, and what a rank gets back is the sum of
  what the steps of all ranks pass in, which their logs show.
\<close>

definition contributes :: "('f, 'v) amp_ops \<Rightarrow> optimizer \<Rightarrow> amp_env \<Rightarrow> ('f, 'v) scaler \<Rightarrow> nat list" where
  "contributes ops opt en s = drop (length (sc_reduced s)) (sc_reduced (snd (step ops en False opt s)))"

definition all_reduce_sums :: "('f, 'v) amp_ops \<Rightarrow> optimizer \<Rightarrow> (amp_env \<times> ('f, 'v) scaler) list \<Rightarrow> bool" where
  "all_reduce_sums ops opt job \<longleftrightarrow>
     (\<forall>(en, s) \<in> set job. \<forall>c \<in> set (contributes ops opt en s).
        en_all_reduce en c = sum_list (concat (map (\<lambda>(en, s). contributes ops opt en s) job)))"

definition any_overflow :: "('f, 'v) amp_ops \<Rightarrow> optimizer \<Rightarrow> (amp_env \<times> ('f, 'v) scaler) list \<Rightarrow> bool" where
  "any_overflow ops opt job = list_ex (\<lambda>(en, s). local_overflow ops opt s) job"

lemma contributes_passed:
  assumes "checks ops" and "rank_ok opt s" and "\<not> op_supports_amp opt"
  shows "contributes ops opt en s = passed ops en opt s"
  using step_run [OF assms(1), of s opt en] assms(2,3) by (auto simp: rank_ok_def contributes_def)

lemma overflow_all:
  assumes ops: "checks ops" and opt: "\<not> op_supports_amp opt"
    and job: "\<forall>(en, s) \<in> set job. rank_ok opt s \<and> \<not> en_support_inf_nan en" and sums: "all_reduce_sums ops opt job"
    and i: "(en, s) \<in> set job"
  shows "overflow_after ops en opt s \<longleftrightarrow> any_overflow ops opt job"
proof -
  have c: "contributes ops opt en s = [if local_overflow ops opt s then 1 else 0]" if "(en, s) \<in> set job" for en s
    using contributes_passed [OF ops _ opt, of s en] job that by (auto simp: passed_def syncs_def rank_ok_def)
  have sum: "sum_list (concat (map (\<lambda>(en, s). contributes ops opt en s) job)) \<noteq> 0
      \<longleftrightarrow> any_overflow ops opt job"
  proof -
    have "map (\<lambda>(en, s). contributes ops opt en s) job = map (\<lambda>(en, s). [if local_overflow ops opt s then 1 else 0]) job"
      using c by (intro map_cong) auto
    then show ?thesis by (simp add: any_overflow_def list_ex_iff case_prod_beta)
  qed
  have syn: "syncs en s" using job i by (auto simp: syncs_def rank_ok_def)
  show ?thesis
  proof (cases "local_overflow ops opt s")
    case True
    then have "any_overflow ops opt job" using i unfolding any_overflow_def list_ex_iff by force
    then show ?thesis using True by (simp add: overflow_after_def)
  next
    case False
    then have "0 \<in> set (contributes ops opt en s)" using c [OF i] by simp
    then have "en_all_reduce en 0 = sum_list (concat (map (\<lambda>(en, s). contributes ops opt en s) job))"
      using sums i unfolding all_reduce_sums_def by fast
    then show ?thesis using False syn sum by (simp add: overflow_after_def)
  qed
qed

text \<open>
  C15: The ranks of a job agree. On a device without infinities, with a dynamic scale and the all-reduce summing what the
  steps of the ranks pass in, every rank's step returns, every rank then knows whether any of
  them had an overflow, and either all of them step their optimizer or none does.
\<close>

theorem ranks_agree:
  assumes "checks ops" and "\<not> op_supports_amp opt"
    and "\<forall>(en, s) \<in> set job. rank_ok opt s \<and> \<not> en_support_inf_nan en"
    and "all_reduce_sums ops opt job"
  shows "\<forall>(en, s) \<in> set job. \<exists>s'. step ops en False opt s = (Inr (), s')
     \<and> sc_has_overflow s' = any_overflow ops opt job
     \<and> sc_dist_overflow_count s' = Some 0
     \<and> sc_steps s' = sc_steps s @
         (if any_overflow ops opt job then [] else [(op_id opt, unscaled ops opt s)])"
proof clarify
  fix en s assume i: "(en, s) \<in> set job"
  then have ok: "rank_ok opt s" using assms(3) by auto
  then show "\<exists>s'. step ops en False opt s = (Inr (), s')
     \<and> sc_has_overflow s' = any_overflow ops opt job
     \<and> sc_dist_overflow_count s' = Some 0
     \<and> sc_steps s' = sc_steps s @
         (if any_overflow ops opt job then [] else [(op_id opt, unscaled ops opt s)])"
    using step_run [OF assms(1), of s opt en] assms(2) overflow_all [OF assms i] by (auto simp: rank_ok_def in_use_def)
qed

definition clean_rank :: "(int, int) scaler" where
  "clean_rank = demo_scaler\<lparr>sc_grads := (\<lambda>_. demo_grads 0)\<rparr>"

definition demo_job :: "(amp_env \<times> (int, int) scaler) list" where
  "demo_job = [(amp_demo_env 1, demo_scaler), (amp_demo_env 1, clean_rank)]"

theorem ranks_agree_witness:
  "\<not> local_overflow int_ops (demo_opt 1) clean_rank
   \<and> (\<exists>s'. step int_ops (amp_demo_env 1) False (demo_opt 1) clean_rank = (Inr (), s')
        \<and> sc_has_overflow s' \<and> sc_steps s' = [])"
proof -
  have "no_half (demo_grads 0)" "no_half (demo_grads 1)" by code_simp+
  then have ok: "\<forall>(en, s) \<in> set demo_job. rank_ok (demo_opt 1) s \<and> \<not> en_support_inf_nan en"
    using demo_scaler_facts by (simp add: demo_job_def rank_ok_def clean_rank_def in_use_def demo_opt_def amp_demo_env_def)
  have amp: "\<not> op_supports_amp (demo_opt 1)" by (simp add: demo_opt_def)
  have loc: "local_overflow int_ops (demo_opt 1) demo_scaler" "\<not> local_overflow int_ops (demo_opt 1) clean_rank"
    by (simp_all add: local_overflow_def clean_rank_def demo_scaler_facts demo_grads_def demo_opt_def bad_grad_def int_ops_def)
  have "contributes int_ops (demo_opt 1) (amp_demo_env 1) demo_scaler = [1]"
    "contributes int_ops (demo_opt 1) (amp_demo_env 1) clean_rank = [0]"
    using contributes_passed [OF demo_scaler_facts(1) _ amp] ok loc
    by (simp_all add: demo_job_def passed_def syncs_def rank_ok_def)
  then have sums: "all_reduce_sums int_ops (demo_opt 1) demo_job"
    by (simp add: all_reduce_sums_def demo_job_def) (simp add: amp_demo_env_def)
  have steps: "sc_steps clean_rank = []" by code_simp
  from ranks_agree [OF demo_scaler_facts(1) amp ok sums] show ?thesis
    using loc steps by (auto simp: demo_job_def any_overflow_def)
qed

section \<open>The order of calls\<close>

lemma calls_out_of_order:
  assumes "checks ops" and "in_use s"
  shows "oe_stage (sc_states s (op_id opt)) = STEPPED \<Longrightarrow> step ops en False opt s = (Inl RuntimeError, s)"
    and "oe_stage (sc_states s (op_id opt)) \<noteq> READY \<Longrightarrow> unscale ops en opt s = (Inl RuntimeError, s)"
    and "step ops en True opt s = (Inl RuntimeError, s)"
  using check_run [OF assms] assms(2)
  by (simp_all add: step_def unscale_def sbind_def sget_def sseq_def sraise_def in_use_def split: OptState.splits)

text \<open>
  The overflow flag belongs to the scaler, not to the optimizer: after an overflow in the gradients of
  one optimizer, another optimizer whose gradients are finite does not step in this iteration.
\<close>

lemma overflow_skips_other_optimizer:
  assumes "checks ops" and "in_use s" and "oe_stage (sc_states s (op_id opt)) = READY" and "sc_dynamic s"
    and "no_half (sc_grads s (op_id opt))" and "\<not> op_supports_amp opt" and "sc_has_overflow s"
  shows "\<exists>s'. step ops en False opt s = (Inr (), s') \<and> sc_steps s' = sc_steps s"
  using step_run [of ops s opt en] assms by (auto simp: overflow_after_def local_overflow_def)

text \<open>An update without any step counts as a successful iteration.\<close>

lemma update_without_step:
  assumes "checks ops" and "in_use s" and "sc_dynamic s" and "\<not> sc_has_overflow s"
    and "sc_scale s = Some f" and "sc_growth_tracker s = Some t" and "int (t + 1) \<noteq> sc_growth_interval s"
  shows "\<exists>s'. update ops NoScale s = (Inr (), s') \<and> sc_growth_tracker s' = Some (t + 1)"
  using update_run [OF assms(1,2,3,5,6)] assms(4,7) by (auto simp: end_iteration_def npu_update_scale_def)

end
