(* ===== verification/Graph_Tree.thy ===== *)
theory Graph_Tree
  imports Prelude
begin

text \<open>
  The manager of graph trees, \<open>torch_npu/npu/_graph_tree.py\<close>: which compiled function is warmed up, recorded as a
  graph, replayed or run without a graph, and when a path of the tree ends.

  Nodes are a store in the order of their creation; a reference to a node is its index.  The answers of the
  environment during a call are a record \<open>genv\<close>: PyTorch's generation counter, whether all outputs of a
  node's path are dead, the result of a child's \<open>check_invariants\<close>, whether the function mutates inputs
  that no graph manages, what the function does when it is run (it raises, or returns so many outputs),
  whether a replay raises, whether the allocator's pool passes the checks after a checkpoint, and the
  configuration.  What is done with tensors and with the allocator is logged as actions.  Methods are
  stateful computations: an exception leaves the state the code has reached.

  A node keeps the number of its output references, \<open>len(tensor_weakrefs)\<close>, the number of its stack
  traces, if it has any, and whether it holds a state of the allocator.  The checks that only run under
  \<open>slow_path_cudagraph_asserts\<close> and \<open>fast_path_cudagraph_asserts\<close> while a function runs are not modelled.
\<close>

section \<open>State\<close>

datatype ExecutionState = NONE | WARMUP | RECORDING | EXECUTION

datatype CompilationMode = FORWARD | BACKWARD | INFERENCE

datatype check_status =
    SUCCESS | StaticInputIdxMismatch | CudagraphManagedIdxMismatch | ExpectedDeadIndicesBeforeGraphMismatch

record graph_node =
  gn_warmup :: bool
  gn_id :: int
  gn_function :: nat
  gn_parent :: "nat option"
  gn_children :: "(nat \<times> nat list) list"
  gn_refs :: nat
  gn_traces :: "nat option"
  gn_saved :: bool

datatype tree_action = RunModel nat | RunWarmup nat | Record nat | Execute nat | Checkpoint nat | Dealloc nat

record tree_manager =
  tm_alive :: bool
  tm_nodes :: "graph_node list"
  tm_roots :: "(nat \<times> nat list) list"
  tm_modes :: "nat \<Rightarrow> CompilationMode option"
  tm_traces :: "nat \<Rightarrow> nat option"
  tm_functions :: nat
  tm_warmed_up :: "nat list"
  tm_warned :: "nat list"
  tm_graph_counter :: int
  tm_warmup_counter :: int
  tm_mutation_hint :: "int option \<times> nat \<Rightarrow> bool option"
  tm_num_rerecord :: "int option \<times> nat \<Rightarrow> nat"
  tm_path_state :: ExecutionState
  tm_current :: "nat option"
  tm_current_gen :: int
  tm_mark_step :: int
  tm_pending_backwards :: bool
  tm_mode :: "CompilationMode option"
  tm_fail_counter :: nat
  tm_checkpoints :: nat
  tm_actions :: "tree_action list"

record genv =
  ge_generation :: int
  ge_dead :: "nat \<Rightarrow> bool"
  ge_status :: "nat \<Rightarrow> check_status"
  ge_mutation :: "nat option \<Rightarrow> nat \<Rightarrow> bool"
  ge_mutated_idxs :: "nat \<Rightarrow> bool"
  ge_skip_warmup :: bool
  ge_force_warmup :: bool
  ge_inline_modules :: bool
  ge_rerecord_limit :: nat
  ge_model :: "nat \<Rightarrow> nat res"
  ge_replay :: "nat \<Rightarrow> unit res"
  ge_pool :: "unit res"

type_synonym 'a gm = "(tree_manager, 'a) stm"

definition tree_manager_init :: tree_manager where
  "tree_manager_init =
     \<lparr>tm_alive = True, tm_nodes = [], tm_roots = [], tm_modes = (\<lambda>_. None), tm_traces = (\<lambda>_. None), tm_functions = 0, tm_warmed_up = [], tm_warned = [],
      tm_graph_counter = 0, tm_warmup_counter = -1, tm_mutation_hint = (\<lambda>_. None), tm_num_rerecord = (\<lambda>_. 0),
      tm_path_state = NONE, tm_current = None, tm_current_gen = -1, tm_mark_step = 0, tm_pending_backwards = False,
      tm_mode = None, tm_fail_counter = 0, tm_checkpoints = 0, tm_actions = []\<rparr>"

text \<open>Setting the current node to nothing also resets the state of the path.\<close>

definition set_current :: "nat option \<Rightarrow> tree_manager \<Rightarrow> tree_manager" where
  "set_current v s = (case v of None \<Rightarrow> s\<lparr>tm_current := None, tm_path_state := NONE\<rparr> | Some i \<Rightarrow> s\<lparr>tm_current := Some i\<rparr>)"

definition log_action :: "tree_action \<Rightarrow> tree_manager \<Rightarrow> tree_manager" where
  "log_action a s = s\<lparr>tm_actions := tm_actions s @ [a]\<rparr>"

definition get_node_id :: "tree_manager \<Rightarrow> int option" where
  "get_node_id s = map_option (\<lambda>i. gn_id (tm_nodes s ! i)) (tm_current s)"

section \<open>Generations\<close>

definition get_curr_generation :: "genv \<Rightarrow> tree_manager \<Rightarrow> int" where
  "get_curr_generation en s = (if tm_mark_step s \<noteq> 0 then tm_mark_step s else ge_generation en)"

definition update_generation :: "genv \<Rightarrow> tree_manager \<Rightarrow> tree_manager" where
  "update_generation en s = s\<lparr>tm_current_gen := get_curr_generation en s\<rparr>"

definition in_new_torch_compile_invocation :: "genv \<Rightarrow> tree_manager \<Rightarrow> bool" where
  "in_new_torch_compile_invocation en s \<longleftrightarrow> tm_current_gen s \<noteq> get_curr_generation en s"

definition can_start_new_generation :: "genv \<Rightarrow> tree_manager \<Rightarrow> bool" where
  "can_start_new_generation en s =
     (if \<not> in_new_torch_compile_invocation en s then False
      else if tm_mark_step s \<noteq> 0 then True
      else \<not> tm_pending_backwards s)"

definition mark_step_begin :: "tree_manager \<Rightarrow> tree_manager" where
  "mark_step_begin s = s\<lparr>tm_mark_step := tm_mark_step s - 1\<rparr>"

section \<open>Ending a path\<close>

text \<open>The nodes from a node up to the root; a parent is created before its children.\<close>

function path_to_root :: "graph_node list \<Rightarrow> nat \<Rightarrow> nat list" where
  "path_to_root ns i =
     i # (case gn_parent (ns ! i) of Some p \<Rightarrow> (if p < i then path_to_root ns p else []) | None \<Rightarrow> [])"
  by pat_completeness auto
termination
  by (relation "measure snd") auto

declare path_to_root.simps [simp del]

definition check_warn_on_unable_to_start_executing :: "genv \<Rightarrow> nat \<Rightarrow> unit gm" where
  "check_warn_on_unable_to_start_executing en f s =
     (if f \<in> set (tm_warned s) \<or> \<not> in_new_torch_compile_invocation en s then (Inr (), s)
      else case tm_current s of
             None \<Rightarrow> (Inl RuntimeError, s)
           | Some i \<Rightarrow>
               (let existing = filter (\<lambda>j. gn_function (tm_nodes s ! j) = f) (rev (path_to_root (tm_nodes s) i));
                    parents = remdups (concat (map (\<lambda>j. case gn_parent (tm_nodes s ! j) of
                                 Some p \<Rightarrow> [gn_function (tm_nodes s ! p)] | None \<Rightarrow> []) (existing @ [i])))
                in if length existing \<le> 1 then (Inr (), s)
                   else if length parents = length existing then (Inr (), s)
                   else (Inr (), s\<lparr>tm_warned := tm_warned s @ [f]\<rparr>)))"

text \<open>
  The check of each node on the path from the root: \<open>len\<close> of missing stack traces raises \<open>TypeError\<close>, a
  number of traces different from that of the outputs \<open>RuntimeError\<close>.
\<close>

fun check_traces :: "graph_node list \<Rightarrow> nat list \<Rightarrow> unit res" where
  "check_traces ns [] = Inr ()"
| "check_traces ns (j # js) =
     (case gn_traces (ns ! j) of
        None \<Rightarrow> Inl TypeError
      | Some n \<Rightarrow> (if gn_refs (ns ! j) \<noteq> n then Inl RuntimeError else check_traces ns js))"

definition dealloc_current_path_weakrefs :: "unit gm" where
  "dealloc_current_path_weakrefs s =
     (case tm_current s of
        None \<Rightarrow> (Inl RuntimeError, s)
      | Some i \<Rightarrow>
          (case check_traces (tm_nodes s) (rev (path_to_root (tm_nodes s) i)) of
             Inl e \<Rightarrow> (Inl e, s)
           | Inr _ \<Rightarrow> (Inr (), log_action (Dealloc i) s)))"

definition clear_current_path_state_and_set_to_none :: "unit gm" where
  "clear_current_path_state_and_set_to_none s =
     (case tm_current s of
        None \<Rightarrow> (Inl RuntimeError, s)
      | Some i \<Rightarrow> (if gn_warmup (tm_nodes s ! i) then (Inl RuntimeError, s) else (Inr (), set_current None s)))"

definition try_end_curr_recording :: "genv \<Rightarrow> nat \<Rightarrow> unit gm" where
  "try_end_curr_recording en f s =
     (if tm_path_state s \<noteq> RECORDING then (Inl RuntimeError, s)
      else case tm_current s of
             None \<Rightarrow> (Inl RuntimeError, s)
           | Some i \<Rightarrow>
               (if can_start_new_generation en s
                then sseq dealloc_current_path_weakrefs clear_current_path_state_and_set_to_none s
                else if ge_dead en i then clear_current_path_state_and_set_to_none s
                else check_warn_on_unable_to_start_executing en f s))"

definition try_end_curr_execution :: "genv \<Rightarrow> unit gm" where
  "try_end_curr_execution en s =
     (if tm_path_state s = RECORDING then (Inl RuntimeError, s)
      else case tm_current s of
             None \<Rightarrow> (Inr (), s)
           | Some i \<Rightarrow>
               (if can_start_new_generation en s then clear_current_path_state_and_set_to_none s
                else if ge_dead en i then clear_current_path_state_and_set_to_none s
                else (Inr (), s)))"

definition try_end_curr_warmup :: "genv \<Rightarrow> nat \<Rightarrow> unit gm" where
  "try_end_curr_warmup en f s =
     (if can_start_new_generation en s then sseq dealloc_current_path_weakrefs (smod (set_current None)) s
      else case tm_current s of
             None \<Rightarrow> (Inl RuntimeError, s)
           | Some i \<Rightarrow>
               (if ge_dead en i then (Inr (), set_current None s)
                else check_warn_on_unable_to_start_executing en f s))"

section \<open>Running a function\<close>

definition update_mutation_hint :: "genv \<Rightarrow> nat \<Rightarrow> tree_manager \<Rightarrow> tree_manager" where
  "update_mutation_hint en f s =
     s\<lparr>tm_mutation_hint := (tm_mutation_hint s)((get_node_id s, f) := Some (ge_mutation en (tm_current s) f))\<rparr>"

definition exceed_rerecord_limit :: "genv \<Rightarrow> int option \<Rightarrow> nat \<Rightarrow> tree_manager \<Rightarrow> bool" where
  "exceed_rerecord_limit en node_id f s =
     (if ge_inline_modules en then False else tm_num_rerecord s (node_id, f) > ge_rerecord_limit en)"

definition apply_checkpoint :: "genv \<Rightarrow> unit gm" where
  "apply_checkpoint en s =
     (case tm_current s of
        None \<Rightarrow> (Inl RuntimeError, s)
      | Some i \<Rightarrow>
          (if gn_warmup (tm_nodes s ! i) then (Inl RuntimeError, s)
           else let s1 = s\<lparr>tm_checkpoints := Suc (tm_checkpoints s)\<rparr>
                in if \<not> gn_saved (tm_nodes s ! i) then (Inl RuntimeError, s1)
                   else (case ge_pool en of
                           Inl e \<Rightarrow> (Inl e, s1)
                         | Inr _ \<Rightarrow> (Inr (), log_action (Checkpoint i) s1))))"

definition add_node :: "graph_node \<Rightarrow> tree_manager \<Rightarrow> tree_manager" where
  "add_node n s = s\<lparr>tm_nodes := tm_nodes s @ [n]\<rparr>"

text \<open>\<open>d[f].append(i)\<close> and the read of \<open>d[f]\<close>, which creates the entry of a \<open>defaultdict\<close>.\<close>

definition nodes_at :: "(nat \<times> nat list) list \<Rightarrow> nat \<Rightarrow> nat list" where
  "nodes_at d f = (case map_of d f of Some is \<Rightarrow> is | None \<Rightarrow> [])"

definition append_at :: "nat \<Rightarrow> nat \<Rightarrow> (nat \<times> nat list) list \<Rightarrow> (nat \<times> nat list) list" where
  "append_at f i d = AList.update f (nodes_at d f @ [i]) d"

definition touch :: "nat \<Rightarrow> (nat \<times> nat list) list \<Rightarrow> (nat \<times> nat list) list" where
  "touch f d = AList.update f (nodes_at d f) d"

definition add_child :: "nat \<Rightarrow> nat \<Rightarrow> nat \<Rightarrow> tree_manager \<Rightarrow> tree_manager" where
  "add_child p f i s =
     s\<lparr>tm_nodes := (tm_nodes s)[p := (tm_nodes s ! p)\<lparr>gn_children := append_at f i (gn_children (tm_nodes s ! p))\<rparr>]\<rparr>"

definition warmup_node :: "nat \<Rightarrow> tree_manager \<Rightarrow> graph_node" where
  "warmup_node f s =
     \<lparr>gn_warmup = True, gn_id = tm_warmup_counter s, gn_function = f, gn_parent = tm_current s, gn_children = [],
      gn_refs = 0, gn_traces = tm_traces s f, gn_saved = False\<rparr>"

definition set_refs :: "nat \<Rightarrow> nat \<Rightarrow> tree_manager \<Rightarrow> tree_manager" where
  "set_refs i n s = s\<lparr>tm_nodes := (tm_nodes s)[i := (tm_nodes s ! i)\<lparr>gn_refs := n\<rparr>]\<rparr>"

text \<open>The node is current before the function runs, and gets its output references after it has returned.\<close>

definition run_eager :: "genv \<Rightarrow> nat \<Rightarrow> unit gm" where
  "run_eager en f s =
     (let s1 = s\<lparr>tm_warmed_up := List.insert f (tm_warmed_up s)\<rparr>;
          i = length (tm_nodes s1);
          s2 = (add_node (warmup_node f s1) s1)\<lparr>tm_warmup_counter := tm_warmup_counter s1 - 1\<rparr>;
          s3 = log_action (RunWarmup i) (update_generation en ((set_current (Some i) s2)\<lparr>tm_path_state := WARMUP\<rparr>))
      in case ge_model en f of
           Inl e \<Rightarrow> (Inl e, s3)
         | Inr n \<Rightarrow> (Inr (), set_refs i n s3))"

text \<open>
  The node is made by recording the function: when that raises or the number of outputs is not that of
  the stack traces, there is no node, only a number has been used up.
\<close>

definition recorded_node :: "nat \<Rightarrow> nat \<Rightarrow> tree_manager \<Rightarrow> graph_node" where
  "recorded_node f n s =
     \<lparr>gn_warmup = False, gn_id = tm_graph_counter s, gn_function = f, gn_parent = tm_current s, gn_children = [],
      gn_refs = n, gn_traces = Some n, gn_saved = True\<rparr>"

definition record_graph :: "genv \<Rightarrow> nat \<Rightarrow> tree_manager \<Rightarrow> nat res" where
  "record_graph en f s =
     rbind (ge_model en f) (\<lambda>n.
       case tm_traces s f of None \<Rightarrow> Inr n | Some k \<Rightarrow> (if k \<noteq> n then Inl RuntimeError else Inr n))"

definition record_function :: "genv \<Rightarrow> nat \<Rightarrow> unit gm" where
  "record_function en f s =
     (if (case tm_current s of Some i \<Rightarrow> gn_warmup (tm_nodes s ! i) | None \<Rightarrow> False) then (Inl RuntimeError, s)
      else let i = length (tm_nodes s);
               s0 = s\<lparr>tm_graph_counter := tm_graph_counter s + 1\<rparr>
           in case record_graph en f s of
                Inl e \<Rightarrow> (Inl e, s0)
              | Inr n \<Rightarrow>
                  (let s1 = add_node (recorded_node f n s) s0;
                       s2 = (case tm_current s of
                               None \<Rightarrow> s1\<lparr>tm_roots := append_at f i (tm_roots s1)\<rparr>
                             | Some p \<Rightarrow> add_child p f i s1)
                   in (Inr (), log_action (Record i) (update_generation en ((set_current (Some i) s2)\<lparr>tm_path_state := RECORDING\<rparr>)))))"

definition execute_node :: "genv \<Rightarrow> nat \<Rightarrow> unit gm" where
  "execute_node en i s =
     (ge_replay en i, log_action (Execute i) (update_generation en ((set_current (Some i) s)\<lparr>tm_path_state := EXECUTION\<rparr>)))"

fun scan_children :: "genv \<Rightarrow> nat list \<Rightarrow> bool \<Rightarrow> nat option \<times> bool" where
  "scan_children en [] unexpected = (None, unexpected)"
| "scan_children en (c # cs) unexpected =
     (if ge_status en c = SUCCESS then (Some c, unexpected)
      else scan_children en cs
             (unexpected \<or> ge_status en c = StaticInputIdxMismatch \<or> ge_status en c = CudagraphManagedIdxMismatch))"

text \<open>A call either finishes or, after it has ended the path, runs again from the roots.\<close>

datatype outcome = Finished | Again

definition run_model :: "genv \<Rightarrow> nat \<Rightarrow> outcome gm" where
  "run_model en f s = (rbind (ge_model en f) (\<lambda>_. Inr Finished), log_action (RunModel f) s)"

definition finishing :: "unit gm \<Rightarrow> outcome gm" where
  "finishing m = sseq m (sret Finished)"

definition count_rerecord :: "nat \<Rightarrow> tree_manager \<Rightarrow> tree_manager" where
  "count_rerecord f s =
     s\<lparr>tm_num_rerecord := (tm_num_rerecord s)((get_node_id s, f) := Suc (tm_num_rerecord s (get_node_id s, f)))\<rparr>"

text \<open>From the decision that no child can be replayed to the new recording.\<close>

definition new_recording :: "genv \<Rightarrow> nat \<Rightarrow> outcome gm" where
  "new_recording en f =
     sseq (smod (\<lambda>s. s\<lparr>tm_fail_counter := Suc (tm_fail_counter s)\<rparr>))
     (sseq (try_end_curr_execution en)
     (sseq (\<lambda>s. if tm_current s \<noteq> None then apply_checkpoint en s else (Inr (), s))
     (finishing (record_function en f))))"

definition rerecord :: "genv \<Rightarrow> nat \<Rightarrow> bool \<Rightarrow> outcome gm" where
  "rerecord en f unexpected s =
     (let s1 = (if unexpected then count_rerecord f s else s)
      in if unexpected \<and> exceed_rerecord_limit en (get_node_id s1) f s1 then run_model en f s1
         else new_recording en f s1)"

definition unmatched :: "genv \<Rightarrow> nat \<Rightarrow> bool \<Rightarrow> outcome gm" where
  "unmatched en f unexpected s =
     (let s1 = (if ge_mutated_idxs en f then update_mutation_hint en f s else s)
      in if ge_mutated_idxs en f \<and> tm_mutation_hint s1 (get_node_id s1, f) = Some True then run_model en f s1
         else rerecord en f unexpected s1)"

definition match_children :: "genv \<Rightarrow> nat \<Rightarrow> outcome gm" where
  "match_children en f s =
     (let children = (case tm_current s of
                        None \<Rightarrow> nodes_at (tm_roots s) f
                      | Some p \<Rightarrow> nodes_at (gn_children (tm_nodes s ! p)) f);
          s1 = (case tm_current s of
                  None \<Rightarrow> s\<lparr>tm_roots := touch f (tm_roots s)\<rparr>
                | Some p \<Rightarrow> s\<lparr>tm_nodes := (tm_nodes s)[p := (tm_nodes s ! p)\<lparr>gn_children := touch f (gn_children (tm_nodes s ! p))\<rparr>]\<rparr>)
      in case scan_children en children False of
           (Some c, _) \<Rightarrow> finishing (execute_node en c) s1
         | (None, unexpected) \<Rightarrow>
             (if tm_current s1 \<noteq> None \<and> f \<in> set (map fst (tm_roots s1))
              then sseq (try_end_curr_execution en) (\<lambda>s2.
                     if tm_current s2 = None then (Inr Again, s2) else unmatched en f unexpected s2) s1
              else unmatched en f unexpected s1))"

definition run_step :: "genv \<Rightarrow> nat \<Rightarrow> outcome gm" where
  "run_step en f =
     sseq (\<lambda>s. if tm_path_state s = RECORDING then try_end_curr_recording en f s else (Inr (), s))
     (sseq (\<lambda>s. if tm_path_state s = WARMUP then try_end_curr_warmup en f s else (Inr (), s)) (\<lambda>s2.
       let node_id = get_node_id s2;
           s3 = (if tm_mutation_hint s2 (node_id, f) = None then update_mutation_hint en f s2 else s2)
       in if tm_mutation_hint s3 (node_id, f) = Some True \<or> exceed_rerecord_limit en node_id f s3 then run_model en f s3
          else if \<not> (f \<in> set (tm_warmed_up s3) \<or> ge_skip_warmup en) \<or> tm_path_state s3 = WARMUP \<or> ge_force_warmup en
          then sseq (\<lambda>s. if tm_path_state s = EXECUTION then apply_checkpoint en s else (Inr (), s)) (finishing (run_eager en f)) s3
          else if (case tm_current s3 of Some i \<Rightarrow> gn_warmup (tm_nodes s3 ! i) | None \<Rightarrow> False) then (Inl RuntimeError, s3)
          else if tm_path_state s3 \<noteq> RECORDING then match_children en f s3
          else finishing (record_function en f) s3))"

definition after_run :: "CompilationMode \<Rightarrow> tree_manager \<Rightarrow> tree_manager" where
  "after_run m s =
     (case m of FORWARD \<Rightarrow> s\<lparr>tm_pending_backwards := True\<rparr> | BACKWARD \<Rightarrow> s\<lparr>tm_pending_backwards := False\<rparr> | INFERENCE \<Rightarrow> s)"

text \<open>A call runs again only when it has just ended a path, so it runs again at most once.\<close>

lemma stm_again:
  "finishing m s = (Inr r, s') \<Longrightarrow> r = Finished"
  "run_model en f s = (Inr r, s') \<Longrightarrow> r = Finished"
  "unmatched en f u s = (Inr r, s') \<Longrightarrow> r = Finished"
proof -
  show fin: "finishing m s = (Inr r, s') \<Longrightarrow> r = Finished" for m s s'
    by (auto simp: finishing_def sseq_ok sret_def)
  show mod: "run_model en f s = (Inr r, s') \<Longrightarrow> r = Finished" for s s'
    by (auto simp: run_model_def rbind_def split: sum.splits)
  show "unmatched en f u s = (Inr r, s') \<Longrightarrow> r = Finished"
    by (auto simp: unmatched_def rerecord_def new_recording_def Let_def sseq_ok split: if_splits dest: mod fin)
qed

lemma try_end_clears:
  "try_end_curr_recording en f s = (Inr u, s') \<Longrightarrow> tm_current s \<noteq> None"
  "try_end_curr_warmup en f s = (Inr u, s') \<Longrightarrow> tm_current s \<noteq> None"
  by (auto simp: try_end_curr_recording_def try_end_curr_warmup_def dealloc_current_path_weakrefs_def sseq_ok
      split: if_splits option.splits)

lemma match_again:
  assumes "match_children en f s = (Inr Again, s')"
  shows "tm_current s \<noteq> None \<and> tm_current s' = None"
proof (cases "tm_current s")
  case None
  then show ?thesis using assms
    by (auto simp: match_children_def Let_def split: prod.splits option.splits dest: stm_again)
next
  case (Some p)
  then show ?thesis using assms
    by (auto simp: match_children_def Let_def sseq_ok split: prod.splits option.splits if_splits dest: stm_again)
qed

lemma update_hint_current [simp]: "tm_current (update_mutation_hint en f s) = tm_current s"
  by (simp add: update_mutation_hint_def)

lemma run_step_again:
  assumes "run_step en f s = (Inr Again, s')"
  shows "tm_current s \<noteq> None \<and> tm_current s' = None"
proof -
  obtain u s1 where 1: "(if tm_path_state s = RECORDING then try_end_curr_recording en f s else (Inr (), s)) = (Inr u, s1)"
    using assms by (auto simp: run_step_def sseq_ok)
  obtain v s2 where 2: "(if tm_path_state s1 = WARMUP then try_end_curr_warmup en f s1 else (Inr (), s1)) = (Inr v, s2)"
    using assms 1 by (auto simp: run_step_def sseq_ok)
  let ?s3 = "if tm_mutation_hint s2 (get_node_id s2, f) = None then update_mutation_hint en f s2 else s2"
  have run: "run_step en f s =
      (if tm_mutation_hint ?s3 (get_node_id s2, f) = Some True \<or> exceed_rerecord_limit en (get_node_id s2) f ?s3 then run_model en f ?s3
       else if \<not> (f \<in> set (tm_warmed_up ?s3) \<or> ge_skip_warmup en) \<or> tm_path_state ?s3 = WARMUP \<or> ge_force_warmup en
       then sseq (\<lambda>s. if tm_path_state s = EXECUTION then apply_checkpoint en s else (Inr (), s)) (finishing (run_eager en f)) ?s3
       else if (case tm_current ?s3 of Some i \<Rightarrow> gn_warmup (tm_nodes ?s3 ! i) | None \<Rightarrow> False) then (Inl RuntimeError, ?s3)
       else if tm_path_state ?s3 \<noteq> RECORDING then match_children en f ?s3
       else finishing (record_function en f) ?s3)"
    unfolding run_step_def sseq_def sbind_def 1 2 by (simp add: 2 Let_def)
  have "match_children en f ?s3 = (Inr Again, s')"
    using assms unfolding run
    by (simp split: if_splits option.splits) (auto simp: sseq_ok dest: stm_again)
  then have "tm_current s2 \<noteq> None" "tm_current s' = None" using match_again [of en f ?s3 s'] by (simp_all split: if_splits)
  then show ?thesis using 1 2 try_end_clears(1) [of en f s u s1] try_end_clears(2) [of en f s1 v s2] by (auto split: if_splits)
qed

function graph_run :: "genv \<Rightarrow> nat \<Rightarrow> unit gm" where
  "graph_run en f s =
     (if \<not> tm_alive s then (Inl RuntimeError, s)
      else case tm_modes s f of
             None \<Rightarrow> (Inl KeyError, s)
           | Some m \<Rightarrow>
               (case run_step en f (s\<lparr>tm_mode := Some m\<rparr>) of
                  (Inl e, s1) \<Rightarrow> (Inl e, s1)
                | (Inr Finished, s1) \<Rightarrow> (Inr (), after_run m s1)
                | (Inr Again, s1) \<Rightarrow>
                    (case graph_run en f s1 of
                       (Inl e, s2) \<Rightarrow> (Inl e, s2)
                     | (Inr _, s2) \<Rightarrow> (Inr (), after_run m s2))))"
  by pat_completeness auto
termination
  by (relation "measure (\<lambda>(en, f, s). if tm_current s = None then 0 else 1)") (auto dest!: run_step_again [OF sym])

declare graph_run.simps [simp del]

definition set_to_running_backward :: "tree_manager \<Rightarrow> tree_manager" where
  "set_to_running_backward s = s\<lparr>tm_pending_backwards := False, tm_mode := Some BACKWARD\<rparr>"

definition shutdown :: "tree_manager \<Rightarrow> tree_manager" where
  "shutdown s = set_current None (s\<lparr>tm_alive := False, tm_roots := []\<rparr>)"

definition register_function :: "CompilationMode \<Rightarrow> nat option \<Rightarrow> tree_manager \<Rightarrow> nat \<times> tree_manager" where
  "register_function m traces s =
     (tm_functions s, s\<lparr>tm_modes := (tm_modes s)(tm_functions s \<mapsto> m), tm_traces := (tm_traces s)(tm_functions s := traces),
        tm_functions := Suc (tm_functions s)\<rparr>)"

definition add_function :: "genv \<Rightarrow> CompilationMode \<Rightarrow> nat option \<Rightarrow> nat gm" where
  "add_function en m traces s =
     (case register_function m traces s of (f, s1) \<Rightarrow> sseq (graph_run en f) (sret f) s1)"

definition compilation_mode :: "bool \<Rightarrow> bool \<Rightarrow> CompilationMode res" where
  "compilation_mode is_backward is_inference =
     (if is_backward \<and> is_inference then Inl RuntimeError
      else Inr (if is_backward then BACKWARD else if is_inference then INFERENCE else FORWARD))"

definition npugraphify :: "genv \<Rightarrow> bool \<Rightarrow> bool \<Rightarrow> nat option \<Rightarrow> nat gm" where
  "npugraphify en is_backward is_inference traces =
     sbind (slift (compilation_mode is_backward is_inference)) (\<lambda>m. add_function en m traces)"

text \<open>One function per combination of integer inputs; \<open>cache\<close> maps the combination to the function.\<close>

definition deferred_npugraphify ::
  "genv \<Rightarrow> bool \<Rightarrow> bool \<Rightarrow> nat option \<Rightarrow> int list \<Rightarrow> (int list \<times> nat) list \<Rightarrow> (int list \<times> nat) list gm" where
  "deferred_npugraphify en is_backward is_inference traces int_key fn_cache =
     (case map_of fn_cache int_key of
        Some f \<Rightarrow> sseq (graph_run en f) (sret fn_cache)
      | None \<Rightarrow> sbind (npugraphify en is_backward is_inference traces) (\<lambda>f. sret (AList.update int_key f fn_cache)))"

section \<open>The life of a manager\<close>

record tree_container =
  tc_manager :: "tree_manager option"
  tc_live_fns :: int
  tc_live_storages :: int
  tc_graph :: bool

definition tree_container_init :: tree_container where
  "tree_container_init = \<lparr>tc_manager = None, tc_live_fns = 0, tc_live_storages = 0, tc_graph = False\<rparr>"

definition finalize_tensor :: "tree_container \<Rightarrow> tree_container" where
  "finalize_tensor c =
     (let c1 = c\<lparr>tc_live_storages := tc_live_storages c - 1\<rparr>
      in if tc_live_storages c1 = 0
         then (if tc_live_fns c1 = 0 then c1\<lparr>tc_graph := False, tc_manager := None\<rparr> else c1\<lparr>tc_graph := False\<rparr>)
         else c1)"

definition finalize_npugraphify_fn :: "tree_container \<Rightarrow> tree_container" where
  "finalize_npugraphify_fn c =
     (let c1 = c\<lparr>tc_live_fns := tc_live_fns c - 1\<rparr> in if tc_live_fns c1 = 0 then c1\<lparr>tc_manager := None\<rparr> else c1)"

definition add_strong_reference :: "tree_container \<Rightarrow> tree_container" where
  "add_strong_reference c = c\<lparr>tc_live_fns := tc_live_fns c + 1\<rparr>"

definition get_tree_manager :: "tree_container \<Rightarrow> tree_manager \<times> tree_container" where
  "get_tree_manager c =
     (case tc_manager c of
        Some m \<Rightarrow> (m, c)
      | None \<Rightarrow> (tree_manager_init, c\<lparr>tc_manager := Some tree_manager_init\<rparr>))"

section \<open>Liveness of outputs\<close>

definition get_liveness :: "('r \<Rightarrow> bool) \<Rightarrow> 'r option list list \<Rightarrow> bool list list" where
  "get_liveness alive weakrefs =
     (if length weakrefs = 0 then [] else map (map (\<lambda>w. case w of Some r \<Rightarrow> alive r | None \<Rightarrow> False)) weakrefs)"

fun different_from :: "nat \<Rightarrow> bool list list \<Rightarrow> bool list list \<Rightarrow> (nat \<times> nat) list res" where
  "different_from i [] cur = Inr []"
| "different_from i (p # prev) [] = Inr []"
| "different_from i (p # prev) (c # cur) =
     (if length p \<noteq> length c then Inl RuntimeError
      else rbind (different_from (Suc i) prev cur) (\<lambda>rest.
             Inr (map (Pair i) (filter (\<lambda>j. p ! j \<noteq> c ! j) [0..<length p]) @ rest)))"

definition get_different_indices :: "bool list list \<Rightarrow> bool list list \<Rightarrow> (nat \<times> nat) list res" where
  "get_different_indices prev cur = (if \<not> length prev \<le> length cur then Inl RuntimeError else different_from 0 prev cur)"

definition data_ptrs_dead_since_invocation ::
  "('r \<Rightarrow> bool) \<Rightarrow> bool list list \<Rightarrow> 'r option list list \<Rightarrow> int list list \<Rightarrow> int list res" where
  "data_ptrs_dead_since_invocation alive recorded_liveness_after path_weakrefs ptrs =
     rbind (get_different_indices recorded_liveness_after (get_liveness alive path_weakrefs)) (\<lambda>dead.
       if list_all (\<lambda>(depth, j). depth < length ptrs \<and> j < length (ptrs ! depth)) dead
       then Inr (map (\<lambda>(depth, j). ptrs ! depth ! j) dead) else Inl IndexError)"

fun check_liveness :: "('r \<Rightarrow> bool) \<Rightarrow> (nat \<times> nat) list \<Rightarrow> 'r option list list \<Rightarrow> bool res" where
  "check_liveness alive [] refs = Inr True"
| "check_liveness alive ((d, j) # ix) refs =
     (if \<not> (d < length refs \<and> j < length (refs ! d)) then Inl IndexError
      else case refs ! d ! j of
             None \<Rightarrow> Inl RuntimeError
           | Some r \<Rightarrow> (if alive r then Inr False else check_liveness alive ix refs))"

end
