(* ===== verification/Graph_Tree_Props.thy ===== *)
theory Graph_Tree_Props
  imports Graph_Tree
begin

text \<open>
  The manager of graph trees keeps its tree well formed whatever raises.  As long as the functions do not
  raise, it never reaches one of its internal errors, runs the called function exactly once per call, and
  replays or records only below the node that was current or at the root.  After a warm-up that raised,
  every call in a new generation fails.
\<close>

section \<open>The invariant\<close>

lemma nodes_at_simps [simp]:
  "nodes_at [] g = []"
  "nodes_at (append_at f i d) g = nodes_at d g @ (if g = f then [i] else [])"
  "nodes_at (touch f d) g = nodes_at d g"
  by (auto simp: nodes_at_def append_at_def touch_def update_conv)

definition graph_at :: "graph_node list \<Rightarrow> nat option \<Rightarrow> nat \<Rightarrow> nat \<Rightarrow> bool" where
  "graph_at ns p f c \<longleftrightarrow> c < length ns \<and> gn_parent (ns ! c) = p \<and> gn_function (ns ! c) = f \<and> \<not> gn_warmup (ns ! c)"

text \<open>A node whose outputs and stack traces are equally many, and a recorded node.\<close>

definition traced :: "graph_node \<Rightarrow> bool" where
  "traced n \<longleftrightarrow> gn_traces n = Some (gn_refs n)"

definition node_ok :: "graph_node list \<Rightarrow> nat \<Rightarrow> bool" where
  "node_ok ns i \<longleftrightarrow>
     (\<forall>p. gn_parent (ns ! i) = Some p \<longrightarrow> p < i \<and> (gn_warmup (ns ! p) \<longrightarrow> gn_warmup (ns ! i)))
     \<and> (\<not> gn_warmup (ns ! i) \<longrightarrow> traced (ns ! i) \<and> gn_saved (ns ! i))
     \<and> (\<forall>f. \<forall>c \<in> set (nodes_at (gn_children (ns ! i)) f). graph_at ns (Some i) f c)"

definition nodes_ok :: "graph_node list \<Rightarrow> bool" where
  "nodes_ok ns \<longleftrightarrow> (\<forall>i < length ns. node_ok ns i)"

definition current_ok :: "tree_manager \<Rightarrow> bool" where
  "current_ok s \<longleftrightarrow>
     (case tm_current s of
        None \<Rightarrow> tm_path_state s = NONE
      | Some i \<Rightarrow> i < length (tm_nodes s) \<and> tm_path_state s \<noteq> NONE \<and> (gn_warmup (tm_nodes s ! i) \<longleftrightarrow> tm_path_state s = WARMUP))"

definition tree_ok :: "tree_manager \<Rightarrow> bool" where
  "tree_ok s \<longleftrightarrow> nodes_ok (tm_nodes s) \<and> (\<forall>f. \<forall>i \<in> set (nodes_at (tm_roots s) f). graph_at (tm_nodes s) None f i) \<and> current_ok s"

lemma tree_ok_init: "tree_ok tree_manager_init"
  by (simp add: tree_ok_def nodes_ok_def current_ok_def tree_manager_init_def)

subsection \<open>Paths\<close>

lemma path_le: "j \<in> set (path_to_root ns i) \<Longrightarrow> j \<le> i"
proof (induction ns i arbitrary: j rule: path_to_root.induct)
  case (1 ns i)
  then show ?case by (subst (asm) (2) path_to_root.simps) (force split: option.splits if_splits)
qed

lemma path_cong: "(\<And>j. j \<le> i \<Longrightarrow> gn_parent (ns' ! j) = gn_parent (ns ! j)) \<Longrightarrow> path_to_root ns' i = path_to_root ns i"
proof (induction ns i rule: path_to_root.induct)
  case (1 ns i)
  show ?case
    unfolding path_to_root.simps [of ns' i] path_to_root.simps [of ns i] 1(2) [OF order_refl]
    using 1 by (auto split: option.splits)
qed

definition traced_path :: "graph_node list \<Rightarrow> nat \<Rightarrow> bool" where
  "traced_path ns i \<longleftrightarrow> (\<forall>j \<in> set (path_to_root ns i). traced (ns ! j))"

lemma traced_path_cong:
  assumes "\<And>j. j \<le> i \<Longrightarrow> gn_parent (ns' ! j) = gn_parent (ns ! j) \<and> traced (ns' ! j) = traced (ns ! j)"
  shows "traced_path ns' i = traced_path ns i"
  using path_cong [of i ns' ns] path_le [of _ ns i] assms by (simp add: traced_path_def)

lemma traced_path_step:
  assumes "\<And>p. gn_parent (ns ! i) = Some p \<Longrightarrow> p < i"
  shows "traced_path ns i \<longleftrightarrow> traced (ns ! i) \<and> (\<forall>p. gn_parent (ns ! i) = Some p \<longrightarrow> traced_path ns p)"
proof (cases "gn_parent (ns ! i)")
  case None
  then show ?thesis by (simp add: traced_path_def path_to_root.simps [of ns i])
next
  case (Some p)
  then show ?thesis using assms by (simp add: traced_path_def path_to_root.simps [of ns i])
qed

text \<open>The path to a recorded node consists of recorded nodes.\<close>

lemma recorded_path:
  assumes "nodes_ok ns"
  shows "i < length ns \<Longrightarrow> \<not> gn_warmup (ns ! i) \<Longrightarrow> traced_path ns i"
proof (induction i rule: less_induct)
  case (less i)
  then have i: "node_ok ns i" using assms by (simp add: nodes_ok_def)
  have "traced_path ns p" if "gn_parent (ns ! i) = Some p" for p
    using less.IH [of p] less.prems i that by (auto simp: node_ok_def)
  then show ?case using i less.prems by (subst traced_path_step) (auto simp: node_ok_def)
qed

lemma check_traces_ok: "check_traces ns js = Inr () \<longleftrightarrow> (\<forall>j \<in> set js. traced (ns ! j))"
  by (induction js) (auto simp: traced_def split: option.splits)

definition path_traced :: "tree_manager \<Rightarrow> bool" where
  "path_traced s \<longleftrightarrow> (\<forall>i. tm_current s = Some i \<longrightarrow> traced_path (tm_nodes s) i)"

lemma recording_traced: "tree_ok s \<Longrightarrow> tm_path_state s \<noteq> WARMUP \<Longrightarrow> path_traced s"
  using recorded_path by (auto simp: tree_ok_def current_ok_def path_traced_def)

section \<open>Steps of a call\<close>

fun quiet :: "tree_action \<Rightarrow> bool" where
  "quiet (Checkpoint _) = True"
| "quiet (Dealloc _) = True"
| "quiet _ = False"

text \<open>What no call changes, and the state of the tree, with a complete path when \<open>k\<close> is asked for.\<close>

definition same_tables :: "tree_manager \<Rightarrow> tree_manager \<Rightarrow> bool" where
  "same_tables s s' \<longleftrightarrow> tm_alive s' = tm_alive s \<and> tm_modes s' = tm_modes s \<and> tm_functions s' = tm_functions s
     \<and> tm_traces s' = tm_traces s"

definition tree_at :: "bool \<Rightarrow> tree_manager \<Rightarrow> bool" where
  "tree_at k s \<longleftrightarrow> tree_ok s \<and> (k \<longrightarrow> path_traced s)"

lemma tree_atD [simp]: "tree_at k s \<Longrightarrow> tree_ok s"
  by (simp add: tree_at_def)

definition keeps :: "tree_manager \<Rightarrow> tree_manager \<Rightarrow> bool" where
  "keeps s s' \<longleftrightarrow> tree_ok s' \<and> same_tables s s'"

lemma same_tables_refl [simp]: "same_tables s s"
  by (simp add: same_tables_def)

lemma same_tables_trans: "same_tables a b \<Longrightarrow> same_tables b c \<Longrightarrow> same_tables a c"
  by (simp add: same_tables_def)

text \<open>What a call may do before it runs the function.\<close>

definition prepares :: "bool \<Rightarrow> tree_manager \<Rightarrow> tree_manager \<Rightarrow> bool" where
  "prepares k s s' \<longleftrightarrow> tree_at k s' \<and> same_tables s s'
     \<and> (tm_current s' = tm_current s \<or> tm_current s' = None)
     \<and> (\<exists>pre. tm_actions s' = tm_actions s @ pre \<and> list_all quiet pre)"

lemma prepares_refl: "tree_at k s \<Longrightarrow> prepares k s s"
  by (simp add: prepares_def)

lemma prepares_trans: "prepares k a b \<Longrightarrow> prepares k b c \<Longrightarrow> prepares k a c"
  unfolding prepares_def same_tables_def by (metis append_assoc list_all_append)

lemma prepares_at: "prepares k s s' \<Longrightarrow> tree_at k s'"
  by (simp add: prepares_def)

lemma prepares_keeps: "prepares k s s' \<Longrightarrow> keeps s s'"
  by (auto simp: prepares_def keeps_def)

text \<open>The function is run once, by the last action of the call, as a child of the former current node or as a root.\<close>

definition placed_below :: "tree_manager \<Rightarrow> tree_manager \<Rightarrow> nat \<Rightarrow> nat \<Rightarrow> bool" where
  "placed_below s s' f i \<longleftrightarrow> i < length (tm_nodes s') \<and> gn_function (tm_nodes s' ! i) = f
     \<and> (gn_parent (tm_nodes s' ! i) = tm_current s \<or> gn_parent (tm_nodes s' ! i) = None) \<and> tm_current s' = Some i"

fun ran :: "nat \<Rightarrow> tree_manager \<Rightarrow> tree_manager \<Rightarrow> tree_action \<Rightarrow> bool" where
  "ran f s s' (RunModel g) = (g = f)"
| "ran f s s' (RunWarmup i) = (placed_below s s' f i \<and> tm_path_state s' = WARMUP)"
| "ran f s s' (Record i) = (placed_below s s' f i \<and> tm_path_state s' = RECORDING)"
| "ran f s s' (Execute i) = (placed_below s s' f i \<and> tm_path_state s' = EXECUTION)"
| "ran f s s' a = False"

definition runs :: "bool \<Rightarrow> nat \<Rightarrow> tree_manager \<Rightarrow> tree_manager \<Rightarrow> bool" where
  "runs k f s s' \<longleftrightarrow> tree_at k s' \<and> same_tables s s'
     \<and> (\<exists>pre a. tm_actions s' = tm_actions s @ pre @ [a] \<and> list_all quiet pre \<and> ran f s s' a)"

lemma runs_keeps: "runs k f s s' \<Longrightarrow> keeps s s'"
  by (auto simp: runs_def keeps_def)

lemma prepares_runs:
  assumes "prepares k a b" and "runs k f b c"
  shows "runs k f a c"
proof -
  obtain pre where pre: "tm_actions b = tm_actions a @ pre" "list_all quiet pre" using assms(1) by (auto simp: prepares_def)
  obtain pre' x where x: "tm_actions c = tm_actions b @ pre' @ [x]" "list_all quiet pre'" "ran f b c x"
    using assms(2) unfolding runs_def by blast
  have "tm_current b = tm_current a \<or> tm_current b = None" using assms(1) by (simp add: prepares_def)
  then have "ran f a c x" using x(3) by (cases x) (auto simp: placed_below_def)
  moreover have "tm_actions c = tm_actions a @ (pre @ pre') @ [x]" "list_all quiet (pre @ pre')" using pre x by simp_all
  moreover have "tree_at k c" "same_tables a c"
    using assms same_tables_trans [of a b c] by (auto simp: runs_def prepares_def)
  ultimately show ?thesis unfolding runs_def by blast
qed

subsection \<open>Results\<close>

text \<open>
  A result with the state it leaves: the tree is well formed in any case; when \<open>k\<close> holds there is no
  exception; and a value satisfies the condition.
\<close>

definition good :: "bool \<Rightarrow> tree_manager \<Rightarrow> ('a \<Rightarrow> tree_manager \<Rightarrow> bool) \<Rightarrow> 'a res \<times> tree_manager \<Rightarrow> bool" where
  "good k s Q x \<longleftrightarrow> keeps s (snd x) \<and> (case fst x of Inl e \<Rightarrow> \<not> k | Inr v \<Rightarrow> Q v (snd x))"

lemma goodI_ok: "keeps s s' \<Longrightarrow> Q v s' \<Longrightarrow> good k s Q (Inr v, s')"
  by (simp add: good_def)

lemma goodI_err: "keeps s s' \<Longrightarrow> \<not> k \<Longrightarrow> good k s Q (Inl e, s')"
  by (simp add: good_def)

lemma good_prepared: "prepares k s s' \<Longrightarrow> good k s (\<lambda>_. prepares k s) (Inr v, s')"
  by (rule goodI_ok [OF prepares_keeps])

lemma good_mono: "good k s P x \<Longrightarrow> (\<And>v s'. P v s' \<Longrightarrow> Q v s') \<Longrightarrow> good k s Q x"
  by (auto simp: good_def split: sum.splits)

lemma good_from: "good k t Q x \<Longrightarrow> same_tables s t \<Longrightarrow> good k s Q x"
  using same_tables_trans by (auto simp: good_def keeps_def split: sum.splits)

lemma good_bind:
  assumes "good k s P (m s)" and "\<And>v s'. P v s' \<Longrightarrow> good k s' Q (g v s')"
  shows "good k s Q (sbind m g s)"
proof (cases "m s")
  case (Pair r s')
  show ?thesis
  proof (cases r)
    case (Inl e)
    then show ?thesis using assms(1) Pair by (auto simp: good_def sbind_def)
  next
    case (Inr v)
    then have "same_tables s s'" "P v s'" using assms(1) Pair by (auto simp: good_def keeps_def)
    then show ?thesis using good_from [OF assms(2)] Inr Pair by (simp add: sbind_def)
  qed
qed

lemma good_seq: "good k s P (m s) \<Longrightarrow> (\<And>v s'. P v s' \<Longrightarrow> good k s' Q (g s')) \<Longrightarrow> good k s Q (sseq m g s)"
  unfolding sseq_def by (rule good_bind)

definition outcome_ok :: "bool \<Rightarrow> nat \<Rightarrow> tree_manager \<Rightarrow> outcome \<Rightarrow> tree_manager \<Rightarrow> bool" where
  "outcome_ok k f s r s' = (case r of Finished \<Rightarrow> runs k f s s' | Again \<Rightarrow> prepares k s s')"

lemma good_outcome:
  assumes "prepares k s t" and "good k t (outcome_ok k f t) x"
  shows "good k s (outcome_ok k f s) x"
proof -
  have "good k t (outcome_ok k f s) x"
    using assms(2) by (rule good_mono) (use prepares_runs [OF assms(1)] prepares_trans [OF assms(1)] in \<open>auto simp: outcome_ok_def split: outcome.splits\<close>)
  then show ?thesis using assms(1) by (auto simp: prepares_def intro: good_from)
qed

lemma good_then:
  assumes "good k s (\<lambda>_ s'. prepares k s s' \<and> P s') (m s)"
    and "\<And>s'. prepares k s s' \<Longrightarrow> P s' \<Longrightarrow> good k s' (outcome_ok k f s') (g s')"
  shows "good k s (outcome_ok k f s) (sseq m g s)"
proof (rule good_seq, rule assms(1))
  fix v :: 'a and s'
  assume p: "prepares k s s' \<and> P s'"
  have "good k s' (outcome_ok k f s') (g s')" using assms(2) p by blast
  then show "good k s' (outcome_ok k f s) (g s')"
    by (rule good_mono) (use p prepares_runs prepares_trans in \<open>fastforce simp: outcome_ok_def split: outcome.splits\<close>)
qed

lemma good_finishing:
  assumes "good k s (\<lambda>_. runs k f s) (m s)"
  shows "good k s (outcome_ok k f s) (finishing m s)"
  unfolding finishing_def
proof (rule good_seq, rule assms)
  fix v s' assume "runs k f s s'"
  then show "good k s' (outcome_ok k f s) (sret Finished s')"
    by (auto simp: sret_def good_def outcome_ok_def keeps_def runs_def)
qed

section \<open>Preparation\<close>

lemma tree_at_frame:
  assumes "tree_at k s" and "tm_nodes s' = tm_nodes s" and "tm_roots s' = tm_roots s" and "tm_current s' = tm_current s" and "tm_path_state s' = tm_path_state s"
  shows "tree_at k s'"
  using assms by (auto simp: tree_at_def tree_ok_def current_ok_def path_traced_def split: option.splits)

lemma prepares_frame:
  assumes "tree_at k s" and "tm_nodes s' = tm_nodes s" and "tm_roots s' = tm_roots s" and "tm_current s' = tm_current s" and "tm_path_state s' = tm_path_state s"
    and "same_tables s s'" and "tm_actions s' = tm_actions s @ pre" and "list_all quiet pre"
  shows "prepares k s s'"
  using assms tree_at_frame [OF assms(1-5)] by (auto simp: prepares_def)

lemma prepares_clear: "tree_at k s \<Longrightarrow> prepares k s (set_current None s)"
  by (simp add: prepares_def tree_at_def tree_ok_def current_ok_def set_current_def path_traced_def same_tables_def)

lemma prepares_hint: "tree_at k s \<Longrightarrow> prepares k s (update_mutation_hint en f s)"
  by (rule prepares_frame [of _ _ _ "[]"]) (simp_all add: update_mutation_hint_def same_tables_def)

lemma warn_good:
  assumes "tree_at k s" and "tm_current s \<noteq> None"
  shows "good k s (\<lambda>_ s'. prepares k s s' \<and> tm_path_state s' = tm_path_state s) (check_warn_on_unable_to_start_executing en f s)"
proof -
  have w: "prepares k s (s\<lparr>tm_warned := w\<rparr>)" for w
    by (rule prepares_frame [of _ _ _ "[]"]) (simp_all add: assms same_tables_def)
  show ?thesis using assms(2) w prepares_refl [OF assms(1)]
    by (auto simp: check_warn_on_unable_to_start_executing_def Let_def intro!: goodI_ok prepares_keeps [where k = k])
qed

lemma prepares_log: "tree_at k s \<Longrightarrow> quiet a \<Longrightarrow> prepares k s (log_action a s)"
  by (rule prepares_frame [of _ _ _ "[a]"]) (simp_all add: log_action_def same_tables_def)

lemma clear_ok:
  assumes "tree_ok s" and "tm_current s = Some i" and "tm_path_state s \<noteq> WARMUP"
  shows "clear_current_path_state_and_set_to_none s = (Inr (), set_current None s)"
  using assms by (simp add: clear_current_path_state_and_set_to_none_def tree_ok_def current_ok_def)

lemma dealloc_good:
  assumes ok: "tree_at k s" and i: "tm_current s = Some i"
  shows "good k s (\<lambda>_ s'. prepares k s s' \<and> s' = log_action (Dealloc i) s) (dealloc_current_path_weakrefs s)"
proof (cases "traced_path (tm_nodes s) i")
  case True
  then have "check_traces (tm_nodes s) (rev (path_to_root (tm_nodes s) i)) = Inr ()"
    by (simp add: check_traces_ok traced_path_def)
  then show ?thesis
    using prepares_log [OF ok, of "Dealloc i"] prepares_keeps i by (simp add: dealloc_current_path_weakrefs_def good_def)
next
  case False
  then have "\<not> k" using ok i by (auto simp: tree_at_def path_traced_def)
  then show ?thesis
    using i prepares_keeps [OF prepares_refl [OF ok]] prepares_log [OF ok, of "Dealloc i"] prepares_keeps
    by (auto simp: dealloc_current_path_weakrefs_def good_def split: sum.splits)
qed

lemma end_recording_good:
  assumes ok: "tree_at k s" and rec: "tm_path_state s = RECORDING"
  shows "good k s (\<lambda>_ s'. prepares k s s' \<and> (tm_path_state s' = RECORDING \<or> tm_path_state s' = NONE)) (try_end_curr_recording en f s)"
proof -
  obtain i where i: "tm_current s = Some i" using assms by (auto simp: tree_at_def tree_ok_def current_ok_def split: option.splits)
  have none: "tm_path_state (set_current None t) = NONE" for t by (simp add: set_current_def)
  have clear: "good k s (\<lambda>_ s'. prepares k s s' \<and> (tm_path_state s' = RECORDING \<or> tm_path_state s' = NONE))
      (clear_current_path_state_and_set_to_none s)"
    using clear_ok [OF tree_atD [OF ok] i] rec prepares_clear [OF ok] none prepares_keeps by (auto simp: good_def)
  have both: "good k s (\<lambda>_ s'. prepares k s s' \<and> (tm_path_state s' = RECORDING \<or> tm_path_state s' = NONE))
      (sseq dealloc_current_path_weakrefs clear_current_path_state_and_set_to_none s)"
  proof (rule good_seq, rule dealloc_good [OF ok i])
    fix v s' assume p: "prepares k s s' \<and> s' = log_action (Dealloc i) s"
    then have s': "tree_at k s'" "tm_current s' = Some i" "tm_path_state s' = RECORDING"
      using i rec by (auto simp: prepares_def log_action_def)
    show "good k s' (\<lambda>_ s'. prepares k s s' \<and> (tm_path_state s' = RECORDING \<or> tm_path_state s' = NONE))
        (clear_current_path_state_and_set_to_none s')"
      using clear_ok [OF tree_atD [OF s'(1)] s'(2)] s'(3) prepares_clear [OF s'(1)] prepares_trans [of k s s'] p none prepares_keeps
      by (auto simp: good_def)
  qed
  show ?thesis
    unfolding try_end_curr_recording_def using rec i clear both warn_good [OF ok, of en f]
    by (auto intro: good_mono)
qed

lemma end_warmup_good:
  assumes ok: "tree_at k s" and "tm_path_state s = WARMUP"
  shows "good k s (\<lambda>_. prepares k s) (try_end_curr_warmup en f s)"
proof -
  obtain i where i: "tm_current s = Some i" using assms by (auto simp: tree_at_def tree_ok_def current_ok_def split: option.splits)
  have both: "good k s (\<lambda>_. prepares k s) (sseq dealloc_current_path_weakrefs (smod (set_current None)) s)"
  proof (rule good_seq, rule dealloc_good [OF ok i])
    fix v s' assume p: "prepares k s s' \<and> s' = log_action (Dealloc i) s"
    then have "prepares k s' (set_current None s')" by (auto intro: prepares_clear prepares_at)
    then show "good k s' (\<lambda>_. prepares k s) (smod (set_current None) s')"
      using p prepares_trans [of k s s'] prepares_keeps by (auto simp: good_def smod_def)
  qed
  show ?thesis
    unfolding try_end_curr_warmup_def using i both warn_good [OF ok, of en f] good_prepared [OF prepares_clear [OF ok]]
    by (auto intro: good_mono)
qed

lemma end_execution_good:
  assumes ok: "tree_at k s" and st: "tm_path_state s \<noteq> RECORDING" "tm_path_state s \<noteq> WARMUP"
  shows "good k s (\<lambda>_ s'. prepares k s s' \<and> (s' = s \<or> s' = set_current None s)) (try_end_curr_execution en s)"
proof (cases "tm_current s")
  case None
  then show ?thesis using st prepares_refl [OF ok] prepares_keeps by (simp add: try_end_curr_execution_def good_def)
next
  case (Some i)
  then show ?thesis using st clear_ok [OF tree_atD [OF ok] Some st(2)] prepares_clear [OF ok] prepares_refl [OF ok] prepares_keeps
    by (simp add: try_end_curr_execution_def good_def)
qed

section \<open>Growing the tree\<close>

lemma graph_at_append: "graph_at ns p f c \<Longrightarrow> graph_at (ns @ [n]) p f c"
  by (auto simp: graph_at_def nth_append)

lemma nodes_ok_append:
  assumes ns: "nodes_ok ns" and "gn_children n = []"
    and "\<And>p. gn_parent n = Some p \<Longrightarrow> p < length ns \<and> (gn_warmup (ns ! p) \<longrightarrow> gn_warmup n)"
    and "\<not> gn_warmup n \<Longrightarrow> traced n \<and> gn_saved n"
  shows "nodes_ok (ns @ [n])"
  unfolding nodes_ok_def
proof (intro allI impI)
  fix i assume i: "i < length (ns @ [n])"
  show "node_ok (ns @ [n]) i"
  proof (cases "i < length ns")
    case True
    then have "node_ok ns i" using ns by (simp add: nodes_ok_def)
    then show ?thesis using True graph_at_append by (fastforce simp: node_ok_def nth_append)
  next
    case False
    then have "i = length ns" using i by simp
    then show ?thesis using assms(2-4) by (auto simp: node_ok_def nth_append)
  qed
qed

lemma graph_at_update:
  assumes "gn_warmup n = gn_warmup (ns ! p)" "gn_function n = gn_function (ns ! p)" "gn_parent n = gn_parent (ns ! p)"
  shows "graph_at (ns[p := n]) q f c = graph_at ns q f c"
  using assms by (cases "p < length ns") (auto simp: graph_at_def nth_list_update)

lemma nodes_ok_update:
  assumes ns: "nodes_ok ns" and p: "p < length ns"
    and n: "gn_warmup n = gn_warmup (ns ! p)" "gn_function n = gn_function (ns ! p)" "gn_parent n = gn_parent (ns ! p)"
    and "\<not> gn_warmup n \<Longrightarrow> traced n \<and> gn_saved n"
    and "\<And>f c. c \<in> set (nodes_at (gn_children n) f) \<Longrightarrow> graph_at ns (Some p) f c"
  shows "nodes_ok (ns[p := n])"
  unfolding nodes_ok_def
proof (intro allI impI)
  fix i assume "i < length (ns[p := n])"
  then have i: "i < length ns" "node_ok ns i" using ns by (simp_all add: nodes_ok_def)
  show "node_ok (ns[p := n]) i"
    using i p n assms(6,7) unfolding node_ok_def graph_at_update [OF n]
    by (cases "i = p") (auto simp: nth_list_update)
qed

lemma tree_ok_nodes: "tree_ok s \<Longrightarrow> nodes_ok (tm_nodes s)"
  by (simp add: tree_ok_def)

lemma current_bound: "tree_ok s \<Longrightarrow> tm_current s = Some p \<Longrightarrow> p < length (tm_nodes s)"
  by (simp add: tree_ok_def current_ok_def)

lemma same_path:
  assumes "nodes_ok ns" and "p < length ns"
  shows "traced_path (ns @ [n]) p = traced_path ns p"
  using assms by (intro traced_path_cong) (auto simp: nth_append)

section \<open>Running\<close>

text \<open>
  The environment of a call that nothing disturbs: the function returns as many outputs as it has stack
  traces, no replay raises, and the allocator's pool passes its checks.
\<close>

definition calm :: "genv \<Rightarrow> nat \<Rightarrow> nat option \<Rightarrow> bool" where
  "calm en f traces \<longleftrightarrow> (\<exists>n. ge_model en f = Inr n \<and> traces = Some n) \<and> (\<forall>i. ge_replay en i = Inr ()) \<and> ge_pool en = Inr ()"

locale graph_call =
  fixes en :: genv and f :: nat and k :: bool and traces :: "nat option"
  assumes undisturbed: "k \<Longrightarrow> calm en f traces"

context graph_call
begin

lemma model_good:
  assumes ok: "tree_at k s"
  shows "good k s (outcome_ok k f s) (run_model en f s)"
proof -
  let ?s = "log_action (RunModel f) s"
  have "tree_at k ?s" by (rule tree_at_frame [OF ok]) (simp_all add: log_action_def)
  then have "runs k f s ?s"
    unfolding runs_def by (intro conjI exI [of _ "[]"] exI [of _ "RunModel f"]) (simp_all add: log_action_def same_tables_def)
  then show ?thesis
    using undisturbed runs_keeps by (auto simp: run_model_def good_def outcome_ok_def calm_def rbind_def split: sum.splits)
qed

lemma checkpoint_good:
  assumes ok: "tree_at k s" and i: "tm_current s = Some i" and st: "tm_path_state s \<noteq> WARMUP"
  shows "good k s (\<lambda>_ s'. prepares k s s' \<and> tm_path_state s' = tm_path_state s) (apply_checkpoint en s)"
proof -
  let ?s = "s\<lparr>tm_checkpoints := Suc (tm_checkpoints s)\<rparr>"
  have p: "prepares k s ?s" by (rule prepares_frame [of _ _ _ "[]"]) (simp_all add: ok same_tables_def)
  have q: "prepares k s (log_action (Checkpoint i) ?s)"
    using prepares_trans [OF p prepares_log [OF prepares_at [OF p], of "Checkpoint i"]] by simp
  have "\<not> gn_warmup (tm_nodes s ! i)" "i < length (tm_nodes s)" using ok i st by (auto simp: tree_at_def tree_ok_def current_ok_def)
  moreover from this have "gn_saved (tm_nodes s ! i)" using ok by (auto simp: tree_at_def tree_ok_def nodes_ok_def node_ok_def)
  ultimately show ?thesis
    using i undisturbed p q prepares_keeps
    by (auto simp: apply_checkpoint_def Let_def good_def calm_def log_action_def split: sum.splits)
qed

lemma execute_good:
  assumes ok: "tree_at k s" and c: "graph_at (tm_nodes s) (tm_current s) f c"
  shows "good k s (\<lambda>_. runs k f s) (execute_node en c s)"
proof -
  let ?s = "snd (execute_node en c s)"
  have "tree_ok ?s"
    using ok c by (auto simp: tree_at_def tree_ok_def current_ok_def execute_node_def log_action_def update_generation_def set_current_def graph_at_def)
  moreover have "path_traced ?s"
    using recorded_path [of "tm_nodes s" c] ok c
    by (auto simp: path_traced_def tree_at_def tree_ok_def graph_at_def execute_node_def log_action_def update_generation_def set_current_def)
  moreover have "placed_below s ?s f c" "tm_path_state ?s = EXECUTION" "same_tables s ?s"
      "tm_actions ?s = tm_actions s @ [] @ [Execute c]"
    using c by (simp_all add: placed_below_def execute_node_def log_action_def update_generation_def set_current_def graph_at_def same_tables_def)
  ultimately have "runs k f s ?s" unfolding runs_def tree_at_def by (intro conjI exI [of _ "[]"] exI [of _ "Execute c"]) simp_all
  then show ?thesis
    using undisturbed runs_keeps by (auto simp: good_def execute_node_def calm_def split: sum.splits)
qed

text \<open>A node that is added below the current node, when it is a warm-up or the current node is recorded.\<close>

lemma added_ok:
  assumes ok: "tree_ok s" and n: "gn_children n = []" "gn_parent n = tm_current s" "\<not> gn_warmup n \<Longrightarrow> traced n \<and> gn_saved n"
    and w: "gn_warmup n \<or> tm_path_state s \<noteq> WARMUP"
  shows "nodes_ok (tm_nodes s @ [n])" and "i \<in> set (nodes_at (tm_roots s) h) \<Longrightarrow> graph_at (tm_nodes s @ [n]) None h i"
proof -
  have "p < length (tm_nodes s) \<and> (gn_warmup (tm_nodes s ! p) \<longrightarrow> gn_warmup n)" if "gn_parent n = Some p" for p
    using ok w that n(2) by (auto simp: tree_ok_def current_ok_def)
  then show "nodes_ok (tm_nodes s @ [n])"
    using tree_ok_nodes [OF ok] n(1,3) by (intro nodes_ok_append) blast+
  show "i \<in> set (nodes_at (tm_roots s) h) \<Longrightarrow> graph_at (tm_nodes s @ [n]) None h i"
    using ok graph_at_append by (auto simp: tree_ok_def)
qed

lemma eager_good:
  assumes ok: "tree_at k s" and tr: "tm_traces s f = traces"
  shows "good k s (\<lambda>_. runs k f s) (run_eager en f s)"
proof -
  let ?i = "length (tm_nodes s)"
  let ?s1 = "s\<lparr>tm_warmed_up := List.insert f (tm_warmed_up s)\<rparr>"
  let ?n = "warmup_node f ?s1"
  define s3 where "s3 = log_action (RunWarmup ?i) (update_generation en ((set_current (Some ?i)
      ((add_node ?n ?s1)\<lparr>tm_warmup_counter := tm_warmup_counter ?s1 - 1\<rparr>))\<lparr>tm_path_state := WARMUP\<rparr>))"
  have fields: "tm_nodes s3 = tm_nodes s @ [?n]" "tm_roots s3 = tm_roots s" "tm_current s3 = Some ?i" "tm_path_state s3 = WARMUP"
      "tm_actions s3 = tm_actions s @ [RunWarmup ?i]" "same_tables s s3"
    by (simp_all add: s3_def log_action_def update_generation_def set_current_def add_node_def same_tables_def)
  have n: "gn_children ?n = []" "gn_parent ?n = tm_current s" "gn_warmup ?n" "gn_function ?n = f" "gn_traces ?n = traces"
    using tr by (simp_all add: warmup_node_def)
  note added = added_ok [OF tree_atD [OF ok] n(1,2)]
  have ok3: "tree_ok s3" using added n(3) by (auto simp: tree_ok_def current_ok_def fields)
  have run: "run_eager en f s = (case ge_model en f of Inl e \<Rightarrow> (Inl e, s3) | Inr m \<Rightarrow> (Inr (), set_refs ?i m s3))"
    by (simp add: run_eager_def Let_def s3_def split: sum.split)
  show ?thesis
  proof (cases "ge_model en f")
    case (Inl e)
    then have "\<not> k" using undisturbed by (auto simp: calm_def)
    then show ?thesis using run Inl ok3 fields(6) by (simp add: good_def keeps_def)
  next
    case (Inr m)
    let ?s4 = "set_refs ?i m s3" and ?m = "?n\<lparr>gn_refs := m\<rparr>"
    have nodes: "tm_nodes ?s4 = tm_nodes s @ [?m]" by (simp add: set_refs_def fields(1))
    have "gn_children ?m = []" "gn_parent ?m = tm_current s" "gn_warmup ?m" using n by simp_all
    note added' = added_ok [OF tree_atD [OF ok] this(1,2)]
    have "tree_ok ?s4"
      using added' n(3) by (auto simp: tree_ok_def current_ok_def nodes) (simp_all add: set_refs_def fields)
    moreover have "path_traced ?s4" if k
    proof -
      have "traced ?m" using undisturbed that Inr n(5) by (auto simp: traced_def calm_def)
      moreover have "traced_path (tm_nodes s @ [?m]) p" if "tm_current s = Some p" for p
        using same_path [of "tm_nodes s" p ?m] current_bound [OF tree_atD [OF ok] that] ok that \<open>k\<close>
        by (auto simp: tree_at_def path_traced_def tree_ok_nodes)
      moreover have "p < ?i" if "tm_current s = Some p" for p using current_bound [OF tree_atD [OF ok] that] .
      ultimately have "traced_path (tm_nodes s @ [?m]) ?i" using n(2) by (subst traced_path_step) auto
      then show ?thesis by (simp add: path_traced_def nodes) (simp add: set_refs_def fields)
    qed
    moreover have "placed_below s ?s4 f ?i" "tm_path_state ?s4 = WARMUP" "same_tables s ?s4" "tm_actions ?s4 = tm_actions s @ [] @ [RunWarmup ?i]"
      using fields n(2,4) by (simp_all add: placed_below_def nodes) (simp_all add: set_refs_def same_tables_def)
    ultimately have "runs k f s ?s4" unfolding runs_def tree_at_def by (intro conjI exI [of _ "[]"] exI [of _ "RunWarmup ?i"]) simp_all
    then show ?thesis using run Inr runs_keeps by (simp add: good_def)
  qed
qed

lemma record_good:
  assumes ok: "tree_at k s" and w: "tm_path_state s \<noteq> WARMUP" and tr: "tm_traces s f = traces"
  shows "good k s (\<lambda>_. runs k f s) (record_function en f s)"
proof -
  let ?i = "length (tm_nodes s)"
  let ?s0 = "s\<lparr>tm_graph_counter := tm_graph_counter s + 1\<rparr>"
  have nw: "\<not> (case tm_current s of Some i \<Rightarrow> gn_warmup (tm_nodes s ! i) | None \<Rightarrow> False)"
    using ok w by (auto simp: tree_at_def tree_ok_def current_ok_def split: option.splits)
  have s0: "keeps s ?s0" using prepares_keeps [OF prepares_frame [OF ok, of ?s0 "[]"]] by (simp add: same_tables_def)
  show ?thesis
  proof (cases "record_graph en f s")
    case (Inl e)
    then have "\<not> k" using undisturbed tr by (auto simp: record_graph_def calm_def)
    then show ?thesis using Inl nw s0 by (simp add: record_function_def Let_def good_def)
  next
    case (Inr m)
    let ?n = "recorded_node f m s"
    let ?s1 = "add_node ?n ?s0"
    let ?s2 = "case tm_current s of None \<Rightarrow> ?s1\<lparr>tm_roots := append_at f ?i (tm_roots ?s1)\<rparr> | Some p \<Rightarrow> add_child p f ?i ?s1"
    let ?s3 = "log_action (Record ?i) (update_generation en ((set_current (Some ?i) ?s2)\<lparr>tm_path_state := RECORDING\<rparr>))"
    have run: "record_function en f s = (Inr (), ?s3)" using nw Inr by (simp add: record_function_def Let_def)
    have n: "gn_children ?n = []" "gn_parent ?n = tm_current s" "\<not> gn_warmup ?n" "traced ?n \<and> gn_saved ?n" "gn_function ?n = f"
      by (simp_all add: recorded_node_def traced_def)
    note added = added_ok [OF tree_atD [OF ok] n(1,2,4)]
    have nodes: "nodes_ok (tm_nodes ?s2) \<and> (\<forall>h. \<forall>i \<in> set (nodes_at (tm_roots ?s2) h). graph_at (tm_nodes ?s2) None h i)
        \<and> length (tm_nodes ?s2) = Suc ?i \<and> gn_function (tm_nodes ?s2 ! ?i) = f \<and> gn_parent (tm_nodes ?s2 ! ?i) = tm_current s
        \<and> \<not> gn_warmup (tm_nodes ?s2 ! ?i)"
    proof (cases "tm_current s")
      case None
      then show ?thesis using added w n by (auto simp: graph_at_def add_node_def)
    next
      case (Some p)
      have p: "p < ?i" using current_bound [OF tree_atD [OF ok] Some] .
      let ?ns = "tm_nodes s @ [?n]"
      let ?p = "(?ns ! p)\<lparr>gn_children := append_at f ?i (gn_children (?ns ! p))\<rparr>"
      have ns: "nodes_ok ?ns" using added w by blast
      have pok: "node_ok ?ns p" using ns p by (simp add: nodes_ok_def)
      have new: "graph_at ?ns (Some p) f ?i" using n Some by (simp add: graph_at_def)
      have "nodes_ok (?ns[p := ?p])"
      proof (rule nodes_ok_update [OF ns])
        show "graph_at ?ns (Some p) h c" if "c \<in> set (nodes_at (gn_children ?p) h)" for h c
          using that new pok by (auto simp: node_ok_def split: if_splits)
        show "traced ?p \<and> gn_saved ?p" if "\<not> gn_warmup ?p"
          using that pok by (simp add: node_ok_def traced_def)
      qed (use p in simp_all)
      moreover have "graph_at (?ns[p := ?p]) None h i" if "i \<in> set (nodes_at (tm_roots s) h)" for h i
        using added(2) w that by (subst graph_at_update) auto
      ultimately show ?thesis using Some p n by (auto simp: add_child_def add_node_def)
    qed
    have ok3: "tree_ok ?s3"
      using nodes by (auto simp: tree_ok_def current_ok_def log_action_def update_generation_def set_current_def)
    moreover have "path_traced ?s3" by (rule recording_traced [OF ok3]) (simp add: log_action_def update_generation_def)
    moreover have "placed_below s ?s3 f ?i"
      using nodes by (auto simp: placed_below_def log_action_def update_generation_def set_current_def)
    moreover have "tm_actions ?s3 = tm_actions s @ [] @ [Record ?i]" "tm_path_state ?s3 = RECORDING" "same_tables s ?s3"
      by (simp_all add: log_action_def update_generation_def set_current_def add_node_def add_child_def same_tables_def split: option.split)
    ultimately have "runs k f s ?s3" unfolding runs_def tree_at_def by (intro conjI exI [of _ "[]"] exI [of _ "Record ?i"]) simp_all
    then show ?thesis using run runs_keeps by (simp add: good_def)
  qed
qed

subsection \<open>From the roots or the current node\<close>

definition at :: "tree_manager \<Rightarrow> bool" where
  "at s \<longleftrightarrow> tree_at k s \<and> tm_traces s f = traces"

lemma at_prepared: "at s \<Longrightarrow> prepares k s s' \<Longrightarrow> at s'"
  by (auto simp: at_def prepares_def same_tables_def)

lemma new_recording_good:
  assumes at: "at s" and st: "tm_path_state s \<noteq> RECORDING" "tm_path_state s \<noteq> WARMUP"
  shows "good k s (outcome_ok k f s) (new_recording en f s)"
  unfolding new_recording_def
proof (rule good_then)
  let ?s = "s\<lparr>tm_fail_counter := Suc (tm_fail_counter s)\<rparr>"
  have "prepares k s ?s" by (rule prepares_frame [of _ _ _ "[]"]) (use at in \<open>simp_all add: at_def same_tables_def\<close>)
  then show "good k s (\<lambda>_ s'. prepares k s s' \<and> tm_path_state s' = tm_path_state s) (smod (\<lambda>s. s\<lparr>tm_fail_counter := Suc (tm_fail_counter s)\<rparr>) s)"
    using prepares_keeps by (auto simp: smod_def good_def)
next
  fix s1 assume "prepares k s s1" "tm_path_state s1 = tm_path_state s"
  then have s1: "at s1" "tm_path_state s1 \<noteq> RECORDING" "tm_path_state s1 \<noteq> WARMUP" using at st at_prepared by auto
  show "good k s1 (outcome_ok k f s1) (sseq (try_end_curr_execution en)
      (sseq (\<lambda>s. if tm_current s \<noteq> None then apply_checkpoint en s else (Inr (), s)) (finishing (record_function en f))) s1)"
  proof (rule good_then, rule end_execution_good)
    show "tree_at k s1" "tm_path_state s1 \<noteq> RECORDING" "tm_path_state s1 \<noteq> WARMUP" using s1 by (simp_all add: at_def)
    fix s2 assume p: "prepares k s1 s2" "s2 = s1 \<or> s2 = set_current None s1"
    then have s2: "at s2" "tm_path_state s2 \<noteq> WARMUP" using s1 at_prepared by (auto simp: set_current_def)
    show "good k s2 (outcome_ok k f s2)
        (sseq (\<lambda>s. if tm_current s \<noteq> None then apply_checkpoint en s else (Inr (), s)) (finishing (record_function en f)) s2)"
    proof (rule good_then)
      show "good k s2 (\<lambda>_ s'. prepares k s2 s' \<and> tm_path_state s' = tm_path_state s2) (if tm_current s2 \<noteq> None then apply_checkpoint en s2 else (Inr (), s2))"
        using s2 checkpoint_good [of s2] prepares_refl [of k s2] prepares_keeps by (auto simp: at_def good_def)
      fix s3 assume "prepares k s2 s3" "tm_path_state s3 = tm_path_state s2"
      then have "at s3" "tm_path_state s3 \<noteq> WARMUP" using s2 at_prepared by auto
      then show "good k s3 (outcome_ok k f s3) (finishing (record_function en f) s3)"
        by (intro good_finishing record_good) (simp_all add: at_def)
    qed
  qed
qed

lemma rerecord_good:
  assumes at: "at s" and st: "tm_path_state s \<noteq> RECORDING" "tm_path_state s \<noteq> WARMUP"
  shows "good k s (outcome_ok k f s) (rerecord en f u s)"
proof -
  define s1 where "s1 = (if u then count_rerecord f s else s)"
  have p: "prepares k s s1"
    by (rule prepares_frame [of _ _ _ "[]"]) (use at in \<open>simp_all add: s1_def at_def count_rerecord_def same_tables_def\<close>)
  have s1: "at s1" "tm_path_state s1 \<noteq> RECORDING" "tm_path_state s1 \<noteq> WARMUP"
    using at_prepared [OF at p] st by (simp_all add: s1_def count_rerecord_def)
  have "good k s1 (outcome_ok k f s1) (rerecord en f u s)"
    unfolding rerecord_def Let_def s1_def [symmetric] using model_good [of s1] new_recording_good [OF s1] s1(1) by (simp add: at_def)
  then show ?thesis by (rule good_outcome [OF p])
qed

lemma unmatched_good:
  assumes at: "at s" and st: "tm_path_state s \<noteq> RECORDING" "tm_path_state s \<noteq> WARMUP"
  shows "good k s (outcome_ok k f s) (unmatched en f u s)"
proof -
  define s1 where "s1 = (if ge_mutated_idxs en f then update_mutation_hint en f s else s)"
  have p: "prepares k s s1" using prepares_hint [of k s] prepares_refl [of k s] at by (simp add: s1_def at_def)
  have s1: "at s1" "tm_path_state s1 \<noteq> RECORDING" "tm_path_state s1 \<noteq> WARMUP"
    using at_prepared [OF at p] st by (simp_all add: s1_def update_mutation_hint_def)
  have "good k s1 (outcome_ok k f s1) (unmatched en f u s)"
    unfolding unmatched_def Let_def s1_def [symmetric] using model_good [of s1] rerecord_good [OF s1] s1(1) by (simp add: at_def)
  then show ?thesis by (rule good_outcome [OF p])
qed

end

lemma scan_children_found: "scan_children en cs u = (Some c, v) \<Longrightarrow> c \<in> set cs"
  by (induction cs arbitrary: u) (auto split: if_splits)

lemma touched_ok:
  fixes f :: nat
  assumes ok: "tree_at k s"
  defines "children \<equiv> case tm_current s of None \<Rightarrow> nodes_at (tm_roots s) f | Some p \<Rightarrow> nodes_at (gn_children (tm_nodes s ! p)) f"
  defines "t \<equiv> case tm_current s of None \<Rightarrow> s\<lparr>tm_roots := touch f (tm_roots s)\<rparr>
     | Some p \<Rightarrow> s\<lparr>tm_nodes := (tm_nodes s)[p := (tm_nodes s ! p)\<lparr>gn_children := touch f (gn_children (tm_nodes s ! p))\<rparr>]\<rparr>"
  shows "prepares k s t" and "tm_path_state t = tm_path_state s" and "tm_current t = tm_current s"
    and "c \<in> set children \<Longrightarrow> graph_at (tm_nodes t) (tm_current t) f c"
proof -
  show st: "tm_path_state t = tm_path_state s" and cur: "tm_current t = tm_current s" by (simp_all add: t_def split: option.splits)
  have "tree_at k t \<and> (c \<in> set children \<longrightarrow> graph_at (tm_nodes t) (tm_current t) f c)"
  proof (cases "tm_current s")
    case None
    then show ?thesis using ok by (simp add: t_def children_def tree_at_def tree_ok_def current_ok_def path_traced_def)
  next
    case (Some p)
    have p: "p < length (tm_nodes s)" using current_bound [OF tree_atD [OF ok] Some] .
    have pok: "node_ok (tm_nodes s) p" using p tree_ok_nodes [OF tree_atD [OF ok]] by (simp add: nodes_ok_def)
    let ?n = "(tm_nodes s ! p)\<lparr>gn_children := touch f (gn_children (tm_nodes s ! p))\<rparr>"
    have at: "graph_at ((tm_nodes s)[p := ?n]) q h c = graph_at (tm_nodes s) q h c" for q h c by (rule graph_at_update) simp_all
    have "nodes_ok ((tm_nodes s)[p := ?n])"
      using p pok tree_ok_nodes [OF tree_atD [OF ok]] by (intro nodes_ok_update) (auto simp: node_ok_def traced_def)
    moreover have "traced_path ((tm_nodes s)[p := ?n]) i = traced_path (tm_nodes s) i" for i
    proof (rule traced_path_cong)
      fix j
      show "gn_parent ((tm_nodes s)[p := ?n] ! j) = gn_parent (tm_nodes s ! j) \<and> traced ((tm_nodes s)[p := ?n] ! j) = traced (tm_nodes s ! j)"
        using p by (cases "j = p") (simp_all add: traced_def)
    qed
    ultimately have "tree_at k t"
      using ok Some p by (auto simp: t_def tree_at_def tree_ok_def current_ok_def path_traced_def at nth_list_update)
    moreover have "graph_at (tm_nodes t) (tm_current t) f c" if "c \<in> set children"
      using that pok Some by (simp add: t_def children_def at node_ok_def)
    ultimately show ?thesis by blast
  qed
  then show "prepares k s t" and "c \<in> set children \<Longrightarrow> graph_at (tm_nodes t) (tm_current t) f c"
    by (auto simp: prepares_def cur t_def same_tables_def split: option.splits)
qed

context graph_call
begin

lemma match_children_good:
  assumes at: "at s" and st: "tm_path_state s \<noteq> RECORDING" "tm_path_state s \<noteq> WARMUP"
  shows "good k s (outcome_ok k f s) (match_children en f s)"
proof -
  define children where "children = (case tm_current s of None \<Rightarrow> nodes_at (tm_roots s) f | Some p \<Rightarrow> nodes_at (gn_children (tm_nodes s ! p)) f)"
  define t where "t = (case tm_current s of None \<Rightarrow> s\<lparr>tm_roots := touch f (tm_roots s)\<rparr>
     | Some p \<Rightarrow> s\<lparr>tm_nodes := (tm_nodes s)[p := (tm_nodes s ! p)\<lparr>gn_children := touch f (gn_children (tm_nodes s ! p))\<rparr>]\<rparr>)"
  have sat: "tree_at k s" using at by (simp add: at_def)
  note touched = touched_ok [OF sat, where f = f, folded t_def children_def]
  have tst: "at t" "tm_path_state t \<noteq> RECORDING" "tm_path_state t \<noteq> WARMUP" using touched(2) st at_prepared [OF at touched(1)] by simp_all
  have tat: "tree_at k t" using tst(1) by (simp add: at_def)
  obtain c u where sc: "scan_children en children False = (c, u)" by fastforce
  have eq: "match_children en f s = (case c of Some c \<Rightarrow> finishing (execute_node en c) t
      | None \<Rightarrow> (if tm_current t \<noteq> None \<and> f \<in> set (map fst (tm_roots t))
              then sseq (try_end_curr_execution en) (\<lambda>s2. if tm_current s2 = None then (Inr Again, s2) else unmatched en f u s2) t
              else unmatched en f u t))"
    unfolding match_children_def Let_def children_def [symmetric] t_def [symmetric] sc by (cases c) simp_all
  have end_path: "good k t (outcome_ok k f t)
      (sseq (try_end_curr_execution en) (\<lambda>s2. if tm_current s2 = None then (Inr Again, s2) else unmatched en f u s2) t)"
  proof (rule good_then, rule end_execution_good [OF tat tst(2,3)])
    fix s2 assume p: "prepares k t s2" "s2 = t \<or> s2 = set_current None t"
    then have "at s2" "tm_path_state s2 \<noteq> RECORDING" "tm_path_state s2 \<noteq> WARMUP"
      using tst at_prepared by (auto simp: set_current_def)
    then show "good k s2 (outcome_ok k f s2) (if tm_current s2 = None then (Inr Again, s2) else unmatched en f u s2)"
      using unmatched_good [of s2 u] prepares_refl [of k s2] prepares_keeps by (auto simp: at_def good_def outcome_ok_def)
  qed
  have "good k t (outcome_ok k f t) (match_children en f s)"
  proof (cases c)
    case (Some i)
    then have "graph_at (tm_nodes t) (tm_current t) f i" using touched(4) scan_children_found sc by blast
    then have "good k t (\<lambda>_. runs k f t) (execute_node en i t)" by (rule execute_good [OF tat])
    then have "good k t (outcome_ok k f t) (finishing (execute_node en i) t)" by (rule good_finishing)
    then show ?thesis using eq Some by simp
  next
    case None
    then show ?thesis using eq end_path unmatched_good [OF tst] by simp
  qed
  then show ?thesis by (rule good_outcome [OF touched(1)])
qed

lemma decide_good:
  assumes at: "at s2"
  defines "s3 \<equiv> if tm_mutation_hint s2 (get_node_id s2, f) = None then update_mutation_hint en f s2 else s2"
  shows "good k s2 (outcome_ok k f s2)
     (if tm_mutation_hint s3 (get_node_id s2, f) = Some True \<or> exceed_rerecord_limit en (get_node_id s2) f s3 then run_model en f s3
      else if \<not> (f \<in> set (tm_warmed_up s3) \<or> ge_skip_warmup en) \<or> tm_path_state s3 = WARMUP \<or> ge_force_warmup en
      then sseq (\<lambda>s. if tm_path_state s = EXECUTION then apply_checkpoint en s else (Inr (), s)) (finishing (run_eager en f)) s3
      else if (case tm_current s3 of Some i \<Rightarrow> gn_warmup (tm_nodes s3 ! i) | None \<Rightarrow> False) then (Inl RuntimeError, s3)
      else if tm_path_state s3 \<noteq> RECORDING then match_children en f s3
      else finishing (record_function en f) s3)"
proof -
  have p: "prepares k s2 s3" using prepares_hint [of k s2 en f] prepares_refl [of k s2] at by (simp add: s3_def at_def)
  have s3: "at s3" using at_prepared [OF at p] .
  then have tat: "tree_at k s3" "tm_traces s3 f = traces" by (simp_all add: at_def)
  have warm: "(case tm_current s3 of Some i \<Rightarrow> gn_warmup (tm_nodes s3 ! i) | None \<Rightarrow> False) = (tm_path_state s3 = WARMUP)"
    using tat(1) by (auto simp: tree_at_def tree_ok_def current_ok_def split: option.splits)
  have eager: "good k s3 (outcome_ok k f s3)
      (sseq (\<lambda>s. if tm_path_state s = EXECUTION then apply_checkpoint en s else (Inr (), s)) (finishing (run_eager en f)) s3)"
  proof (rule good_then)
    have "tm_current s3 \<noteq> None" if "tm_path_state s3 = EXECUTION"
      using tat(1) that by (auto simp: tree_at_def tree_ok_def current_ok_def split: option.splits)
    then show "good k s3 (\<lambda>_ s'. prepares k s3 s' \<and> True) (if tm_path_state s3 = EXECUTION then apply_checkpoint en s3 else (Inr (), s3))"
      using checkpoint_good [OF tat(1)] prepares_refl [OF tat(1)] prepares_keeps by (auto simp: good_def split: sum.splits)
    fix s4 assume "prepares k s3 s4"
    then have "at s4" using at_prepared [OF s3] by blast
    then show "good k s4 (outcome_ok k f s4) (finishing (run_eager en f) s4)"
      by (intro good_finishing eager_good) (simp_all add: at_def)
  qed
  have recording: "good k s3 (outcome_ok k f s3) (finishing (record_function en f) s3)" if "tm_path_state s3 \<noteq> WARMUP"
    by (rule good_finishing, rule record_good [OF tat(1) that tat(2)])
  show ?thesis
    by (rule good_outcome [OF p])
      (use model_good [OF tat(1)] eager match_children_good [OF s3] recording warm in auto)
qed

lemma run_step_good:
  assumes at: "at s"
  shows "good k s (outcome_ok k f s) (run_step en f s)"
  unfolding run_step_def
proof (rule good_then)
  show "good k s (\<lambda>_ s'. prepares k s s' \<and> True) (if tm_path_state s = RECORDING then try_end_curr_recording en f s else (Inr (), s))"
    using end_recording_good [of k s en f] prepares_refl [of k s] prepares_keeps at by (auto simp: at_def good_def split: sum.splits)
  fix s1 assume "prepares k s s1"
  then have s1: "at s1" using at_prepared [OF at] by blast
  show "good k s1 (outcome_ok k f s1) (sseq (\<lambda>s. if tm_path_state s = WARMUP then try_end_curr_warmup en f s else (Inr (), s)) (\<lambda>s2.
       let node_id = get_node_id s2;
           s3 = (if tm_mutation_hint s2 (node_id, f) = None then update_mutation_hint en f s2 else s2)
       in if tm_mutation_hint s3 (node_id, f) = Some True \<or> exceed_rerecord_limit en node_id f s3 then run_model en f s3
          else if \<not> (f \<in> set (tm_warmed_up s3) \<or> ge_skip_warmup en) \<or> tm_path_state s3 = WARMUP \<or> ge_force_warmup en
          then sseq (\<lambda>s. if tm_path_state s = EXECUTION then apply_checkpoint en s else (Inr (), s)) (finishing (run_eager en f)) s3
          else if (case tm_current s3 of Some i \<Rightarrow> gn_warmup (tm_nodes s3 ! i) | None \<Rightarrow> False) then (Inl RuntimeError, s3)
          else if tm_path_state s3 \<noteq> RECORDING then match_children en f s3
          else finishing (record_function en f) s3) s1)"
  proof (rule good_then)
    show "good k s1 (\<lambda>_ s'. prepares k s1 s' \<and> True) (if tm_path_state s1 = WARMUP then try_end_curr_warmup en f s1 else (Inr (), s1))"
      using end_warmup_good [of k s1 en f] prepares_refl [of k s1] prepares_keeps s1 by (auto simp: at_def good_def split: sum.splits)
    fix s2 assume "prepares k s1 s2"
    then have "at s2" using at_prepared [OF s1] by blast
    from decide_good [OF this]
    show "good k s2 (outcome_ok k f s2) (let node_id = get_node_id s2;
           s3 = (if tm_mutation_hint s2 (node_id, f) = None then update_mutation_hint en f s2 else s2)
       in if tm_mutation_hint s3 (node_id, f) = Some True \<or> exceed_rerecord_limit en node_id f s3 then run_model en f s3
          else if \<not> (f \<in> set (tm_warmed_up s3) \<or> ge_skip_warmup en) \<or> tm_path_state s3 = WARMUP \<or> ge_force_warmup en
          then sseq (\<lambda>s. if tm_path_state s = EXECUTION then apply_checkpoint en s else (Inr (), s)) (finishing (run_eager en f)) s3
          else if (case tm_current s3 of Some i \<Rightarrow> gn_warmup (tm_nodes s3 ! i) | None \<Rightarrow> False) then (Inl RuntimeError, s3)
          else if tm_path_state s3 \<noteq> RECORDING then match_children en f s3
          else finishing (record_function en f) s3)"
      unfolding Let_def .
  qed
qed

end

lemma after_run_frame:
  "tm_nodes (after_run m s) = tm_nodes s" "tm_roots (after_run m s) = tm_roots s" "tm_current (after_run m s) = tm_current s"
  "tm_path_state (after_run m s) = tm_path_state s" "tm_actions (after_run m s) = tm_actions s" "same_tables t (after_run m s) = same_tables t s"
  by (simp_all add: after_run_def same_tables_def split: CompilationMode.split)

lemma after_run_runs:
  assumes r: "runs k f s s'"
  shows "runs k f s (after_run m s')"
proof -
  obtain pre a where a: "tm_actions s' = tm_actions s @ pre @ [a]" "list_all quiet pre" "ran f s s' a" using r unfolding runs_def by blast
  have "tree_at k (after_run m s')" using tree_at_frame [of k s' "after_run m s'"] r by (simp add: runs_def after_run_frame)
  moreover have "ran f s (after_run m s') a" using a(3) by (cases a) (simp_all add: placed_below_def after_run_frame)
  ultimately show ?thesis using r a(1,2) unfolding runs_def by (auto simp: after_run_frame)
qed

context graph_call
begin

lemma graph_run_good:
  assumes "at s" and "tm_alive s" and "tm_modes s f = Some m"
  shows "good k s (\<lambda>_. runs k f s) (graph_run en f s)"
  using assms
proof (induction "if tm_current s = None then 0 else 1 :: nat" arbitrary: s rule: less_induct)
  case less
  let ?s = "s\<lparr>tm_mode := Some m\<rparr>"
  have p: "prepares k s ?s" by (rule prepares_frame [of _ _ _ "[]"]) (use less.prems in \<open>simp_all add: at_def same_tables_def\<close>)
  have good: "good k s (outcome_ok k f s) (run_step en f ?s)"
    by (rule good_outcome [OF p run_step_good [OF at_prepared [OF less.prems(1) p]]])
  obtain r s1 where r: "run_step en f ?s = (r, s1)" by fastforce
  have run: "graph_run en f s = (case r of Inl e \<Rightarrow> (Inl e, s1) | Inr Finished \<Rightarrow> (Inr (), after_run m s1)
      | Inr Again \<Rightarrow> (case graph_run en f s1 of (Inl e, s2) \<Rightarrow> (Inl e, s2) | (Inr _, s2) \<Rightarrow> (Inr (), after_run m s2)))"
    using less.prems(2,3) r by (subst graph_run.simps) (simp split: sum.split outcome.split)
  show ?case
  proof (cases r)
    case (Inl e)
    then show ?thesis using good run r by (simp add: good_def)
  next
    case (Inr v)
    show ?thesis
    proof (cases v)
      case Finished
      then have "runs k f s s1" using good r Inr by (simp add: good_def outcome_ok_def)
      then show ?thesis using run Inr Finished runs_keeps [OF after_run_runs] by (simp add: good_def after_run_runs)
    next
      case Again
      then have p1: "prepares k s s1" using good r Inr by (simp add: good_def outcome_ok_def)
      have "tm_current s \<noteq> None \<and> tm_current s1 = None" using run_step_again [of en f ?s s1] r Inr Again by simp
      then have "good k s1 (\<lambda>_. runs k f s1) (graph_run en f s1)"
        using less.prems p1 by (intro less.hyps at_prepared [OF less.prems(1) p1]) (auto simp: prepares_def same_tables_def)
      then have "good k s (\<lambda>_. runs k f s) (graph_run en f s1)"
        by (rule good_from [OF good_mono]) (use p1 prepares_runs [OF p1] in \<open>auto simp: prepares_def\<close>)
      then show ?thesis using run Inr Again after_run_runs runs_keeps [OF after_run_runs]
        by (auto simp: good_def split: prod.splits sum.splits)
    qed
  qed
qed

end

text \<open>Every call of the model is such a call, with \<open>k\<close> true exactly when nothing disturbs it.\<close>

interpretation call: graph_call en f "calm en f (tm_traces s f) \<and> b" "tm_traces s f" for en f s b
  by unfold_locales simp

section \<open>Reachable managers\<close>

text \<open>
  The states of a manager under any sequence of registrations, calls, marks and backward passes, the calls
  that raise included.  The flag says that nothing has disturbed a call so far.
\<close>

inductive manager_reach :: "bool \<Rightarrow> tree_manager \<Rightarrow> bool" where
  start: "manager_reach True tree_manager_init"
| register: "manager_reach b s \<Longrightarrow> register_function m tr s = (f, s') \<Longrightarrow> manager_reach b s'"
| call: "manager_reach b s \<Longrightarrow> graph_run en f s = (r, s') \<Longrightarrow> manager_reach (calm en f (tm_traces s f) \<and> b) s'"
| mark: "manager_reach b s \<Longrightarrow> manager_reach b (mark_step_begin s)"
| backward: "manager_reach b s \<Longrightarrow> manager_reach b (set_to_running_backward s)"

definition manager_ok :: "bool \<Rightarrow> tree_manager \<Rightarrow> bool" where
  "manager_ok b s \<longleftrightarrow> tree_at b s \<and> tm_alive s \<and> dom (tm_modes s) = {..<tm_functions s}"

lemma call_good:
  assumes "manager_ok b s" and "tm_modes s f = Some m"
  shows "good (calm en f (tm_traces s f) \<and> b) s (\<lambda>_. runs (calm en f (tm_traces s f) \<and> b) f s) (graph_run en f s)"
proof -
  have "tree_at (calm en f (tm_traces s f) \<and> b) s" using assms(1) by (auto simp: manager_ok_def tree_at_def)
  then show ?thesis
    using assms by (intro graph_call.graph_run_good [OF call.graph_call_axioms, where m = m])
      (simp_all add: manager_ok_def graph_call.at_def [OF call.graph_call_axioms])
qed

lemma reach_ok: "manager_reach b s \<Longrightarrow> manager_ok b s"
proof (induction rule: manager_reach.induct)
  case start
  show ?case using tree_ok_init by (simp add: manager_ok_def tree_at_def path_traced_def tree_manager_init_def)
next
  case (register b s m tr f s')
  have s': "s' = s\<lparr>tm_modes := (tm_modes s)(tm_functions s \<mapsto> m), tm_traces := (tm_traces s)(tm_functions s := tr),
        tm_functions := Suc (tm_functions s)\<rparr>"
    using register(2) by (auto simp: register_function_def)
  have "tree_at b s'" using register(3) tree_at_frame [of b s s'] by (simp add: s' manager_ok_def)
  then show ?case using register(3) by (simp add: s' manager_ok_def lessThan_Suc)
next
  case (call b s en f r s')
  show ?case
  proof (cases "tm_modes s f")
    case None
    then have "s' = s" using call(2,3) by (subst (asm) graph_run.simps) (auto simp: manager_ok_def)
    then show ?thesis using call(3) by (auto simp: manager_ok_def tree_at_def)
  next
    case (Some m)
    let ?k = "calm en f (tm_traces s f) \<and> b"
    from call_good [OF call(3) Some, of en]
    have g: "keeps s s'" "case r of Inl e \<Rightarrow> \<not> ?k | Inr _ \<Rightarrow> runs ?k f s s'" by (cases r; simp add: call(2) good_def)+
    then have "tree_at ?k s'" by (cases r) (auto simp: tree_at_def keeps_def runs_def)
    then show ?thesis using g(1) call(3) by (simp add: manager_ok_def keeps_def same_tables_def)
  qed
next
  case (mark b s)
  then show ?case using tree_at_frame [of b s "mark_step_begin s"] by (auto simp: manager_ok_def mark_step_begin_def)
next
  case (backward b s)
  then show ?case using tree_at_frame [of b s "set_to_running_backward s"] by (auto simp: manager_ok_def set_to_running_backward_def)
qed

text \<open>
  C7: Whatever functions have been registered and called before, and whatever raised in those calls and
  raises in this one, a call of a registered function ends and leaves the tree well formed.  As long as nothing
  disturbs the calls, that is the functions return as many outputs as they have stack traces, no replay
  raises and the allocator's pool passes its checks, the call returns: none of the manager's internal
  checks fails.  The function is run exactly once, by the last action of the call; a warm-up, a recording or a
  replay happens at a node of this function that is a root or a child of the node that was current,
  and the path state names the kind of the run.
\<close>

theorem graph_calls_run_once:
  assumes "manager_reach b s" and "f < tm_functions s"
  shows "tree_ok (snd (graph_run en f s))
    \<and> (b \<and> calm en f (tm_traces s f) \<longrightarrow>
        (\<exists>s' pre a. graph_run en f s = (Inr (), s') \<and> manager_reach True s'
          \<and> tm_actions s' = tm_actions s @ pre @ [a] \<and> list_all quiet pre \<and> ran f s s' a))"
proof -
  have ok: "manager_ok b s" by (rule reach_ok [OF assms(1)])
  then obtain m where m: "tm_modes s f = Some m" using assms(2) by (auto simp: manager_ok_def dom_def set_eq_iff)
  obtain r s' where r: "graph_run en f s = (r, s')" by fastforce
  note good = call_good [OF ok m, of en, unfolded r]
  have reach: "manager_reach True s'" if "b \<and> calm en f (tm_traces s f)"
    using manager_reach.call [OF assms(1) r] that by simp
  show ?thesis using good reach r by (cases r) (auto simp: good_def keeps_def runs_def)
qed

definition demo_genv :: "int \<Rightarrow> check_status \<Rightarrow> genv" where
  "demo_genv g st =
     \<lparr>ge_generation = g, ge_dead = (\<lambda>_. False), ge_status = (\<lambda>_. st), ge_mutation = (\<lambda>_ _. False), ge_mutated_idxs = (\<lambda>_. False),
      ge_skip_warmup = False, ge_force_warmup = False, ge_inline_modules = False, ge_rerecord_limit = 128,
      ge_model = (\<lambda>_. Inr 2), ge_replay = (\<lambda>_. Inr ()), ge_pool = Inr ()\<rparr>"

definition demo_manager :: tree_manager where
  "demo_manager = snd (register_function INFERENCE (Some 2) tree_manager_init)"

definition demo_calls :: "(int \<times> check_status) list \<Rightarrow> unit gm" where
  "demo_calls cs = smap_seq (\<lambda>(g, st). graph_run (demo_genv g st) 0) cs"

lemma demo_manager_reach: "manager_reach True demo_manager"
  using manager_reach.register [OF manager_reach.start, of INFERENCE "Some 2"]
  by (cases "register_function INFERENCE (Some 2) tree_manager_init") (simp add: demo_manager_def)

theorem graph_calls_run_once_witness:
  "\<exists>s1 s2. graph_run (demo_genv 1 SUCCESS) 0 demo_manager = (Inr (), s1) \<and> graph_run (demo_genv 2 SUCCESS) 0 s1 = (Inr (), s2)
     \<and> tree_ok s2 \<and> tm_actions s2 = [RunWarmup 0, Dealloc 0, Record 1]"
proof -
  let ?s1 = "snd (graph_run (demo_genv 1 SUCCESS) 0 demo_manager)"
  have tables: "0 < tm_functions demo_manager" "tm_traces demo_manager 0 = Some 2" "0 < tm_functions ?s1" "tm_traces ?s1 0 = Some 2"
    by code_simp+
  have calm: "calm (demo_genv g SUCCESS) 0 (Some 2)" for g by (simp add: calm_def demo_genv_def)
  have 1: "graph_run (demo_genv 1 SUCCESS) 0 demo_manager = (Inr (), ?s1)" "manager_reach True ?s1"
    using graph_calls_run_once [OF demo_manager_reach tables(1), of "demo_genv 1 SUCCESS"] calm [of 1] tables(2) by auto
  have 2: "tree_ok (snd (graph_run (demo_genv 2 SUCCESS) 0 ?s1))" "fst (graph_run (demo_genv 2 SUCCESS) 0 ?s1) = Inr ()"
    using graph_calls_run_once [OF 1(2) tables(3), of "demo_genv 2 SUCCESS"] calm [of 2] tables(4) by auto
  have "tm_actions (snd (graph_run (demo_genv 2 SUCCESS) 0 ?s1)) = [RunWarmup 0, Dealloc 0, Record 1]" by code_simp
  with 1 2 show ?thesis by (metis prod.collapse)
qed

text \<open>
  In three generations a function is warmed up, recorded and replayed.  In a fourth, where the recorded graph does
  not fit any more, the call ends the path and starts over, and the matching at the root, which a
  comment says must succeed, fails: a second graph is recorded.
\<close>

lemma warm_up_record_replay:
  "case demo_calls [(1, SUCCESS), (2, SUCCESS), (3, SUCCESS), (4, CudagraphManagedIdxMismatch)] demo_manager of
     (Inr _, s) \<Rightarrow> tm_actions s = [RunWarmup 0, Dealloc 0, Record 1, Dealloc 1, Execute 1, Record 2] \<and> tm_path_state s = RECORDING
   | _ \<Rightarrow> False"
  by code_simp

text \<open>
  A function that raises while it is warmed up leaves a current node without output references.  The next
  call that could start a new generation, of whatever function, then fails the check of the references
  against the stack traces, and leaves everything but the mode as it was, so that the calls after it fail
  as well.
\<close>

lemma incomplete_warmup_stuck:
  assumes "tree_ok s" and "tm_alive s" and "tm_modes s f = Some m" and "tm_path_state s = WARMUP"
    and "\<not> path_traced s" and "can_start_new_generation en s"
  shows "\<exists>e. graph_run en f s = (Inl e, s\<lparr>tm_mode := Some m\<rparr>)"
proof -
  obtain i where i: "tm_current s = Some i" "\<not> traced_path (tm_nodes s) i" using assms(5) by (auto simp: path_traced_def)
  then obtain e where e: "check_traces (tm_nodes s) (rev (path_to_root (tm_nodes s) i)) = Inl e"
    using check_traces_ok [of "tm_nodes s" "rev (path_to_root (tm_nodes s) i)"]
    by (cases "check_traces (tm_nodes s) (rev (path_to_root (tm_nodes s) i))") (auto simp: traced_path_def)
  let ?s = "s\<lparr>tm_mode := Some m\<rparr>"
  have gen: "can_start_new_generation en ?s"
    using assms(6) by (simp add: can_start_new_generation_def in_new_torch_compile_invocation_def get_curr_generation_def split: if_splits)
  then have "run_step en f ?s = (Inl e, ?s)"
    using assms(4) i e by (simp add: run_step_def sseq_def sbind_def try_end_curr_warmup_def dealloc_current_path_weakrefs_def)
  then show ?thesis using assms(2,3) by (subst graph_run.simps) simp
qed

lemma raising_warmup_blocks:
  "case sseq (\<lambda>s. (Inr (), snd (graph_run ((demo_genv 1 SUCCESS)\<lparr>ge_model := \<lambda>_. Inl ValueError\<rparr>) 0 s)))
          (graph_run (demo_genv 2 SUCCESS) 0) demo_manager of
     (r, s) \<Rightarrow> r = Inl RuntimeError \<and> tm_path_state s = WARMUP \<and> tm_actions s = [RunWarmup 0]"
  by code_simp

section \<open>Dead outputs\<close>

lemma different_from_ok:
  assumes "length prev \<le> length cur" and "\<forall>k < length prev. length (prev ! k) = length (cur ! k)"
  shows "\<exists>ds. different_from i prev cur = Inr ds
    \<and> set ds = {(i + k, j) | k j. k < length prev \<and> j < length (prev ! k) \<and> prev ! k ! j \<noteq> cur ! k ! j}"
  using assms
proof (induction i prev cur rule: different_from.induct)
  case (3 i p prev c cur)
  have len: "length p = length c" using 3(3) by auto
  have "\<forall>k < length prev. length (prev ! k) = length (cur ! k)" using 3(3) by (metis Suc_less_eq length_Cons nth_Cons_Suc)
  then obtain ds where ds: "different_from (Suc i) prev cur = Inr ds"
    "set ds = {(Suc i + k, j) | k j. k < length prev \<and> j < length (prev ! k) \<and> prev ! k ! j \<noteq> cur ! k ! j}"
    using 3(1) [OF _] len 3(2) by auto
  have "{(i + k, j) | k j. k < length (p # prev) \<and> j < length ((p # prev) ! k) \<and> (p # prev) ! k ! j \<noteq> (c # cur) ! k ! j}
      = {(i, j) | j. j < length p \<and> p ! j \<noteq> c ! j} \<union> set ds" (is "?A = ?B")
  proof
    show "?A \<subseteq> ?B" unfolding ds(2) by (force simp: nth_Cons split: nat.splits)
    show "?B \<subseteq> ?A" unfolding ds(2) by (force intro: exI [of _ "Suc _"])
  qed
  then show ?case using ds(1) len by auto
qed simp_all

text \<open>
  The addresses that are given back to the allocator before a recording are those of the outputs whose
  liveness changed since the node was recorded.
\<close>

lemma dead_ptrs_exact:
  assumes "length before \<le> length refs" and "\<forall>k < length before. length (before ! k) = length (refs ! k)"
    and "length before \<le> length ptrs" and "\<forall>k < length before. length (before ! k) = length (ptrs ! k)"
  shows "\<exists>ps. data_ptrs_dead_since_invocation alive before refs ptrs = Inr ps
    \<and> set ps = {ptrs ! k ! j | k j. k < length before \<and> j < length (before ! k)
         \<and> before ! k ! j \<noteq> (case refs ! k ! j of Some r \<Rightarrow> alive r | None \<Rightarrow> False)}"
proof -
  let ?cur = "get_liveness alive refs"
  have len: "length ?cur = length refs" by (simp add: get_liveness_def)
  have nth: "?cur ! k ! j = (case refs ! k ! j of Some r \<Rightarrow> alive r | None \<Rightarrow> False)" if "k < length before" "j < length (before ! k)" for k j
    using that assms by (auto simp: get_liveness_def)
  have "\<forall>k < length before. length (before ! k) = length (?cur ! k)" using assms by (auto simp: get_liveness_def)
  then obtain ds where ds: "different_from 0 before ?cur = Inr ds"
    "set ds = {(k, j) | k j. k < length before \<and> j < length (before ! k) \<and> before ! k ! j \<noteq> ?cur ! k ! j}"
    using different_from_ok [of before ?cur 0] assms(1) len by auto
  have "data_ptrs_dead_since_invocation alive before refs ptrs = Inr (map (\<lambda>(d, j). ptrs ! d ! j) ds)"
    using ds assms len by (auto simp: data_ptrs_dead_since_invocation_def get_different_indices_def list_all_iff)
  then show ?thesis using ds(2) nth by fastforce
qed

section \<open>The container\<close>

text \<open>The manager is given up when the last function dies, and a new one is made on the next request.\<close>

lemma container_life:
  "tc_live_fns c = 1 \<Longrightarrow> tc_manager (finalize_npugraphify_fn c) = None"
  "tc_live_fns c > 1 \<Longrightarrow> tc_manager (finalize_npugraphify_fn c) = tc_manager c"
  "finalize_npugraphify_fn (add_strong_reference c) = (if tc_live_fns c = 0 then c\<lparr>tc_manager := None\<rparr> else c)"
  "tc_manager (snd (get_tree_manager c)) = Some (fst (get_tree_manager c))"
  by (cases c; simp add: finalize_npugraphify_fn_def add_strong_reference_def get_tree_manager_def Let_def split: option.split)+

end
