(* ===== verification/Heap_Queue.thy ===== *)
theory Heap_Queue
  imports Prelude
begin

text \<open>
  Python's \<open>queue.PriorityQueue\<close>, which keeps a list with \<open>heapq\<close>: \<open>put\<close> appends and sifts down towards
  the root, \<open>get\<close> moves the last entry into the root, sifts the hole up to a leaf along the smaller
  children and sifts down again.  Entries with equal keys are not ordered; clients may only rely on the
  contract of the locale \<open>priority_queue\<close>, which the list implementation satisfies.
\<close>

section \<open>The contract\<close>

locale priority_queue =
  fixes key :: "'a \<Rightarrow> int" and entries :: "'q \<Rightarrow> 'a multiset" and ok :: "'q \<Rightarrow> bool" and new :: 'q
    and put :: "'a \<Rightarrow> 'q \<Rightarrow> 'q" and get :: "'q \<Rightarrow> ('a \<times> 'q) option"
  assumes new_ok: "ok new" "entries new = {#}"
    and put_ok: "ok q \<Longrightarrow> ok (put x q)" "ok q \<Longrightarrow> entries (put x q) = add_mset x (entries q)"
    and get_None: "ok q \<Longrightarrow> get q = None \<longleftrightarrow> entries q = {#}"
    and get_Some: "ok q \<Longrightarrow> get q = Some (x, q') \<Longrightarrow> ok q' \<and> entries q = add_mset x (entries q') \<and> (\<forall>y \<in># entries q. key x \<le> key y)"
begin

lemma get_smaller: "ok q \<Longrightarrow> get q = Some (x, q') \<Longrightarrow> size (entries q') < size (entries q)"
  using get_Some by fastforce

lemma get_entry: "ok q \<Longrightarrow> get q = Some (x, q') \<Longrightarrow> x \<in># entries q"
  using get_Some by fastforce

end

section \<open>\<open>heapq\<close>\<close>

definition parent_pos :: "nat \<Rightarrow> nat" where
  "parent_pos i = (i - 1) div 2"

text \<open>\<open>_siftdown\<close> with start position 0: the hole at \<open>pos\<close> moves up until \<open>x\<close> fits.\<close>

function sift_down :: "('a \<Rightarrow> int) \<Rightarrow> 'a \<Rightarrow> nat \<Rightarrow> 'a list \<Rightarrow> 'a list" where
  "sift_down k x pos h =
     (if pos > 0 \<and> k x < k (h ! parent_pos pos) then sift_down k x (parent_pos pos) (h[pos := h ! parent_pos pos])
      else h[pos := x])"
  by pat_completeness auto
termination
  by (relation "measure (\<lambda>(k, x, pos, h). pos)") (auto simp: parent_pos_def)

declare sift_down.simps [simp del]

text \<open>\<open>_siftup\<close>: the hole moves to a leaf along the smaller child (the right one when equal).\<close>

definition smaller_child :: "('a \<Rightarrow> int) \<Rightarrow> nat \<Rightarrow> 'a list \<Rightarrow> nat" where
  "smaller_child k pos h =
     (let c = 2 * pos + 1 in if c + 1 < length h \<and> \<not> k (h ! c) < k (h ! (c + 1)) then c + 1 else c)"

function sift_up :: "('a \<Rightarrow> int) \<Rightarrow> 'a \<Rightarrow> nat \<Rightarrow> 'a list \<Rightarrow> 'a list" where
  "sift_up k x pos h =
     (if 2 * pos + 1 < length h
      then let c = smaller_child k pos h in sift_up k x c (h[pos := h ! c])
      else sift_down k x pos h)"
  by pat_completeness auto
termination
  by (relation "measure (\<lambda>(k, x, pos, h). length h - pos)") (auto simp: smaller_child_def Let_def)

declare sift_up.simps [simp del]

definition heap_put :: "('a \<Rightarrow> int) \<Rightarrow> 'a \<Rightarrow> 'a list \<Rightarrow> 'a list" where
  "heap_put k x h = sift_down k x (length h) (h @ [x])"

definition heap_get :: "('a \<Rightarrow> int) \<Rightarrow> 'a list \<Rightarrow> ('a \<times> 'a list) option" where
  "heap_get k h =
     (if h = [] then None
      else if length h = 1 then Some (hd h, [])
      else Some (hd h, sift_up k (last h) 0 (butlast h)))"

section \<open>The heap order\<close>

definition heap_ordered :: "('a \<Rightarrow> int) \<Rightarrow> 'a list \<Rightarrow> bool" where
  "heap_ordered k h \<longleftrightarrow> (\<forall>i. 0 < i \<and> i < length h \<longrightarrow> k (h ! parent_pos i) \<le> k (h ! i))"

text \<open>The order except at a hole: its children are not smaller than its parent.\<close>

definition holed :: "('a \<Rightarrow> int) \<Rightarrow> 'a list \<Rightarrow> nat \<Rightarrow> bool" where
  "holed k h pos \<longleftrightarrow> pos < length h
     \<and> (\<forall>i. 0 < i \<and> i < length h \<and> i \<noteq> pos \<and> parent_pos i \<noteq> pos \<longrightarrow> k (h ! parent_pos i) \<le> k (h ! i))
     \<and> (\<forall>i. 0 < i \<and> i < length h \<and> parent_pos i = pos \<and> 0 < pos \<longrightarrow> k (h ! parent_pos pos) \<le> k (h ! i))"

definition fits_below :: "('a \<Rightarrow> int) \<Rightarrow> 'a list \<Rightarrow> nat \<Rightarrow> 'a \<Rightarrow> bool" where
  "fits_below k h pos x \<longleftrightarrow> (\<forall>i. 0 < i \<and> i < length h \<and> parent_pos i = pos \<longrightarrow> k x \<le> k (h ! i))"

lemma parent_pos_less: "0 < i \<Longrightarrow> parent_pos i < i"
  by (auto simp: parent_pos_def)

lemma parent_pos_child: "0 < i \<and> parent_pos i = p \<longleftrightarrow> i = 2 * p + 1 \<or> i = 2 * p + 2"
  by (auto simp: parent_pos_def)

lemma update_swap: "i < length h \<Longrightarrow> j < length h \<Longrightarrow> i \<noteq> j \<Longrightarrow> mset (h[i := h ! j, j := x]) = mset (h[i := x])"
proof -
  assume a: "i < length h" "j < length h" "i \<noteq> j"
  let ?l = "h[i := x]"
  have "?l[i := ?l ! j, j := ?l ! i] = h[i := h ! j, j := x]" using a by simp
  moreover have "mset (?l[i := ?l ! j, j := ?l ! i]) = mset ?l" by (rule mset_swap) (use a in simp_all)
  ultimately show ?thesis by simp
qed

lemma holed_up:
  assumes "holed k h pos" "fits_below k h pos x" "0 < pos" "k x < k (h ! parent_pos pos)"
  shows "holed k (h[pos := h ! parent_pos pos]) (parent_pos pos)" "fits_below k (h[pos := h ! parent_pos pos]) (parent_pos pos) x"
proof -
  let ?p = "parent_pos pos"
  have p: "?p < pos" "pos < length h" using parent_pos_less assms(1,3) by (auto simp: holed_def)
  have up: "k (h ! parent_pos ?p) \<le> k (h ! ?p)" if "0 < ?p"
    using assms(1) that p by (auto simp: holed_def dest!: spec [of _ ?p] dest: parent_pos_less)
  have edge: "k (h ! parent_pos i) \<le> k (h ! i)" if "0 < i" "i < length h" "i \<noteq> pos" "parent_pos i \<noteq> pos" for i
    using assms(1) that by (auto simp: holed_def)
  have below: "k (h ! ?p) \<le> k (h ! i)" if "0 < i" "i < length h" "parent_pos i = pos" for i
    using assms(1,3) that by (auto simp: holed_def)
  show "holed k (h[pos := h ! ?p]) ?p"
    unfolding holed_def
  proof (intro conjI allI impI)
    show "?p < length (h[pos := h ! ?p])" using p by simp
  next
    fix i assume i: "0 < i \<and> i < length (h[pos := h ! ?p]) \<and> i \<noteq> ?p \<and> parent_pos i \<noteq> ?p"
    then have "i \<noteq> pos" by auto
    then show "k (h[pos := h ! ?p] ! parent_pos i) \<le> k (h[pos := h ! ?p] ! i)"
      using i edge [of i] below [of i] p by (cases "parent_pos i = pos") (auto simp: nth_list_update)
  next
    fix i assume i: "0 < i \<and> i < length (h[pos := h ! ?p]) \<and> parent_pos i = ?p \<and> 0 < ?p"
    have q: "parent_pos ?p \<noteq> pos" using p i parent_pos_less [of ?p] by auto
    show "k (h[pos := h ! ?p] ! parent_pos ?p) \<le> k (h[pos := h ! ?p] ! i)"
      using i q up edge [of i] p by (cases "i = pos") (auto simp: nth_list_update intro: order_trans)
  qed
  show "fits_below k (h[pos := h ! ?p]) ?p x"
    unfolding fits_below_def using edge assms(4) p by (auto simp: nth_list_update intro: order_trans less_imp_le) (metis dual_order.strict_implies_order less_le_trans nat_neq_iff)
qed

lemma sift_down_ok:
  assumes "holed k h pos" "fits_below k h pos x"
  shows "heap_ordered k (sift_down k x pos h) \<and> mset (sift_down k x pos h) = mset (h[pos := x])"
  using assms
proof (induction k x pos h rule: sift_down.induct)
  case (1 k x pos h)
  show ?case
  proof (cases "pos > 0 \<and> k x < k (h ! parent_pos pos)")
    case True
    then have "parent_pos pos < pos" "pos < length h" using parent_pos_less 1(2) by (auto simp: holed_def)
    then show ?thesis using 1(1) [OF True] holed_up [OF 1(2,3)] True update_swap [of pos h "parent_pos pos" x]
      by (simp add: sift_down.simps [of k x pos])
  next
    case False
    have "heap_ordered k (h[pos := x])"
      unfolding heap_ordered_def
    proof (intro allI impI)
      fix i assume i: "0 < i \<and> i < length (h[pos := x])"
      then show "k (h[pos := x] ! parent_pos i) \<le> k (h[pos := x] ! i)"
        using 1(2,3) False parent_pos_less [of i]
        by (auto simp: holed_def fits_below_def nth_list_update)
    qed
    then show ?thesis using False by (auto simp: sift_down.simps [of k x pos])
  qed
qed

lemma smaller_child_ok:
  assumes "2 * pos + 1 < length h"
  shows "parent_pos (smaller_child k pos h) = pos \<and> pos < smaller_child k pos h \<and> smaller_child k pos h < length h"
    and "0 < i \<Longrightarrow> i < length h \<Longrightarrow> parent_pos i = pos \<Longrightarrow> k (h ! smaller_child k pos h) \<le> k (h ! i)"
proof -
  show "parent_pos (smaller_child k pos h) = pos \<and> pos < smaller_child k pos h \<and> smaller_child k pos h < length h"
    using assms by (auto simp: smaller_child_def Let_def parent_pos_def)
  show "k (h ! smaller_child k pos h) \<le> k (h ! i)" if "0 < i" "i < length h" "parent_pos i = pos"
  proof -
    have "i = 2 * pos + 1 \<or> i = 2 * pos + 2" using that parent_pos_child by blast
    then show ?thesis using that by (auto simp: smaller_child_def Let_def)
  qed
qed

lemma holed_down:
  assumes "holed k h pos" "2 * pos + 1 < length h" "c = smaller_child k pos h"
  shows "holed k (h[pos := h ! c]) c"
proof -
  note c = smaller_child_ok [OF assms(2), where k = k, folded assms(3)]
  have edge: "k (h ! parent_pos i) \<le> k (h ! i)" if "0 < i" "i < length h" "i \<noteq> pos" "parent_pos i \<noteq> pos" for i
    using assms(1) that by (auto simp: holed_def)
  show ?thesis
    unfolding holed_def
  proof (intro conjI allI impI)
    show "c < length (h[pos := h ! c])" using c by simp
  next
    fix i assume i: "0 < i \<and> i < length (h[pos := h ! c]) \<and> i \<noteq> c \<and> parent_pos i \<noteq> c"
    show "k (h[pos := h ! c] ! parent_pos i) \<le> k (h[pos := h ! c] ! i)"
    proof (cases "i = pos")
      case True
      then have "k (h ! parent_pos pos) \<le> k (h ! c)" using assms(1) c(1) i by (auto simp: holed_def)
      then show ?thesis using True i parent_pos_less [of i] by (auto simp: nth_list_update)
    next
      case False
      have "pos < length h" using assms(1) by (simp add: holed_def)
      then show ?thesis using False i edge [of i] c(2) [of i] by (cases "parent_pos i = pos") (auto simp: nth_list_update)
    qed
  next
    fix i assume i: "0 < i \<and> i < length (h[pos := h ! c]) \<and> parent_pos i = c \<and> 0 < c"
    then have "i \<noteq> pos" using c(1) parent_pos_less [of i] by auto
    then show "k (h[pos := h ! c] ! parent_pos c) \<le> k (h[pos := h ! c] ! i)"
      using i edge [of i] c(1) by (auto simp: nth_list_update)
  qed
qed

lemma sift_up_ok:
  assumes "holed k h pos"
  shows "heap_ordered k (sift_up k x pos h) \<and> mset (sift_up k x pos h) = mset (h[pos := x])"
  using assms
proof (induction k x pos h rule: sift_up.induct)
  case (1 k x pos h)
  let ?c = "smaller_child k pos h"
  show ?case
  proof (cases "2 * pos + 1 < length h")
    case True
    note c = smaller_child_ok(1) [OF True, where k = k]
    have "pos < length h" using 1(2) by (simp add: holed_def)
    then show ?thesis using 1(1) [OF True refl] holed_down [OF 1(2) True refl] True update_swap [of pos h ?c x] c
      by (simp add: sift_up.simps [of k x pos] Let_def)
  next
    case False
    then have "fits_below k h pos x" by (auto simp: fits_below_def parent_pos_def)
    then show ?thesis using sift_down_ok [OF 1(2)] False by (simp add: sift_up.simps [of k x pos])
  qed
qed

lemma heap_put_ok:
  assumes "heap_ordered k h"
  shows "heap_ordered k (heap_put k x h)" "mset (heap_put k x h) = add_mset x (mset h)"
proof -
  have leaf: "parent_pos i \<noteq> length h" if "0 < i" "i < Suc (length h)" for i using parent_pos_less [OF that(1)] that(2) by simp
  have "k ((h @ [x]) ! parent_pos i) \<le> k ((h @ [x]) ! i)" if "0 < i" "i < length h" for i
    using assms that parent_pos_less [OF that(1)] by (simp add: heap_ordered_def nth_append)
  then have "holed k (h @ [x]) (length h)" using leaf by (auto simp: holed_def less_Suc_eq)
  moreover have "fits_below k (h @ [x]) (length h) x" using leaf by (auto simp: fits_below_def)
  ultimately have "heap_ordered k (sift_down k x (length h) (h @ [x])) \<and> mset (sift_down k x (length h) (h @ [x])) = mset ((h @ [x])[length h := x])"
    by (rule sift_down_ok)
  then show "heap_ordered k (heap_put k x h)" "mset (heap_put k x h) = add_mset x (mset h)"
    by (simp_all add: heap_put_def)
qed

lemma root_least:
  assumes "heap_ordered k h" "i < length h"
  shows "k (h ! 0) \<le> k (h ! i)"
  using assms(2)
proof (induction i rule: less_induct)
  case (less i)
  show ?case
  proof (cases "i = 0")
    case False
    then have "k (h ! 0) \<le> k (h ! parent_pos i)" using less parent_pos_less [of i] by simp
    also have "\<dots> \<le> k (h ! i)" using assms(1) less(2) False by (simp add: heap_ordered_def)
    finally show ?thesis .
  qed simp
qed

lemma heap_get_ok:
  assumes "heap_ordered k h" "heap_get k h = Some (x, h')"
  shows "heap_ordered k h' \<and> mset h = add_mset x (mset h') \<and> (\<forall>y \<in># mset h. k x \<le> k y)"
proof -
  have ne: "h \<noteq> []" using assms(2) by (auto simp: heap_get_def)
  have x: "x = h ! 0" using assms(2) by (auto simp: heap_get_def hd_conv_nth split: if_splits)
  have least: "\<forall>y \<in># mset h. k x \<le> k y" using root_least [OF assms(1)] by (auto simp: x in_set_conv_nth)
  show ?thesis
  proof (cases "length h = 1")
    case True
    then obtain y where "h = [y]" by (cases h) auto
    then show ?thesis using assms(2) least by (auto simp: heap_get_def heap_ordered_def)
  next
    case False
    then obtain ys z where h: "h = x # ys @ [z]" using ne x by (cases h; cases "tl h" rule: rev_cases) auto
    have h': "h' = sift_up k z 0 (x # ys)" using assms(2) h False by (simp add: heap_get_def)
    have "k ((x # ys) ! parent_pos i) \<le> k ((x # ys) ! i)" if "0 < i" "i < Suc (length ys)" for i
    proof -
      have same: "(x # ys @ [z]) ! j = (x # ys) ! j" if "j < Suc (length ys)" for j
        using that nth_append [of "x # ys" "[z]" j] by simp
      have "k ((x # ys @ [z]) ! parent_pos i) \<le> k ((x # ys @ [z]) ! i)" using assms(1) that by (simp add: heap_ordered_def h)
      then show ?thesis using same [of i] same [of "parent_pos i"] that parent_pos_less [OF that(1)] by simp
    qed
    then have "holed k (x # ys) 0" unfolding holed_def by (auto simp del: nth_Cons_pos)
    from sift_up_ok [OF this, of z] show ?thesis using least h' by (simp add: h)
  qed
qed

interpretation heapq: priority_queue k mset "heap_ordered k" "[]" "heap_put k" "heap_get k" for k :: "'a \<Rightarrow> int"
proof
  show "heap_ordered k []" "mset [] = {#}" by (simp_all add: heap_ordered_def)
  show "heap_ordered k q \<Longrightarrow> heap_ordered k (heap_put k x q)" for q x by (rule heap_put_ok)
  show "heap_ordered k q \<Longrightarrow> mset (heap_put k x q) = add_mset x (mset q)" for q x by (rule heap_put_ok)
  show "heap_ordered k q \<Longrightarrow> heap_get k q = None \<longleftrightarrow> mset q = {#}" for q by (simp add: heap_get_def)
  show "heap_ordered k q \<Longrightarrow> heap_get k q = Some (x, q') \<Longrightarrow> heap_ordered k q' \<and> mset q = add_mset x (mset q') \<and> (\<forall>y \<in># mset q. k x \<le> k y)"
    for q x q' by (rule heap_get_ok)
qed

end
