(* ===== verification/Event_Tree.thy ===== *)
theory Event_Tree
  imports Fwk_Parser Memory_Prepare Python_Trace Heap_Queue
begin

text \<open>
  The tree of profiler events, \<open>prof_parse/_event_tree_parser.py\<close>, on which the memory timeline works: the
  text format of tensors and parameters (with the encoder of \<open>csrc/toolkit/profiler/inc/data_reporter.h\<close>
  that writes it), the events of operations, allocations and Python calls, the tree that the stack replay
  builds from them, and the numbering of storages and tensors.

  Events are a store in the order of \<open>sorted_events\<close>; a reference to an event is its index.  A tensor of an
  event is identified by its position (event, argument, element), because every metadata object is made
  once, when its event is made; the object's \<open>_IDReference\<close> is the entry of a store at that position.
\<close>

section \<open>Tensors in text\<close>

definition hex_val :: "char \<Rightarrow> int option" where
  "hex_val c =
     (let k = (of_char c :: nat)
      in if 48 \<le> k \<and> k \<le> 57 then Some (int k - 48)
         else if 97 \<le> k \<and> k \<le> 102 then Some (int k - 87)
         else if 65 \<le> k \<and> k \<le> 70 then Some (int k - 55)
         else None)"

fun parse_hex_digits :: "int \<Rightarrow> string \<Rightarrow> int option" where
  "parse_hex_digits acc [] = Some acc"
| "parse_hex_digits acc (c # cs) =
     (case hex_val c of
        Some v \<Rightarrow> parse_hex_digits (16 * acc + v) cs
      | None \<Rightarrow>
          (case cs of
             d # ds \<Rightarrow> (case hex_val d of
                         Some v \<Rightarrow> (if c = CHR ''_'' then parse_hex_digits (16 * acc + v) ds else None)
                       | None \<Rightarrow> None)
           | [] \<Rightarrow> None))"

definition parse_hex :: "string \<Rightarrow> int option" where
  "parse_hex s = (case s of [] \<Rightarrow> None | c # _ \<Rightarrow> if hex_val c = None then None else parse_hex_digits 0 s)"

text \<open>\<open>int(s, 16)\<close>: white space, a sign, an optional \<open>0x\<close>, hexadecimal digits.\<close>

definition hex_body :: "string \<Rightarrow> int option" where
  "hex_body s =
     (case s of
        c # x # r \<Rightarrow>
          (if c = CHR ''0'' \<and> (x = CHR ''x'' \<or> x = CHR ''X'')
           then parse_hex (case r of u # r' \<Rightarrow> (if u = CHR ''_'' then r' else r) | [] \<Rightarrow> r)
           else parse_hex s)
      | _ \<Rightarrow> parse_hex s)"

definition py_int16 :: "string \<Rightarrow> int res" where
  "py_int16 s =
     (let r = (case py_strip is_space s of
                 c # cs \<Rightarrow> (if c = CHR ''-'' then map_option uminus (hex_body cs)
                            else if c = CHR ''+'' then hex_body cs
                            else hex_body (c # cs))
               | [] \<Rightarrow> None)
      in case r of None \<Rightarrow> Inl ValueError | Some n \<Rightarrow> Inr n)"

fun rmap :: "('a \<Rightarrow> 'b res) \<Rightarrow> 'a list \<Rightarrow> 'b list res" where
  "rmap f [] = Inr []"
| "rmap f (x # xs) = rbind (f x) (\<lambda>y. rbind (rmap f xs) (\<lambda>ys. Inr (y # ys)))"

record TensorMetadata =
  md_impl :: int
  md_ptr :: "int option"
  md_dtype :: string
  md_dtype_size :: int
  md_sizes :: "int list"
  md_strides :: "int list"
  md_device_type :: int
  md_device_index :: int

definition int_list :: "string \<Rightarrow> int list res" where
  "int_list s = (if s \<noteq> [] then rmap py_int (split_on CHR '','' s) else Inr [])"

definition parse_tensor_metadata :: "string \<Rightarrow> TensorMetadata option res" where
  "parse_tensor_metadata tensor_str =
     (case split_on CHR '';'' tensor_str of
        [impl, ptr, dtype, dtype_size, sizes, strides, device_type, device_index] \<Rightarrow>
          rbind (py_int16 impl) (\<lambda>i.
          rbind (if ptr \<noteq> [] then rbind (py_int16 ptr) (\<lambda>p. Inr (Some p)) else Inr None) (\<lambda>p.
          rbind (py_int dtype_size) (\<lambda>n.
          rbind (int_list sizes) (\<lambda>sz.
          rbind (int_list strides) (\<lambda>st.
          rbind (py_int device_type) (\<lambda>dt.
          rbind (py_int device_index) (\<lambda>di.
            Inr (Some \<lparr>md_impl = i, md_ptr = p, md_dtype = dtype, md_dtype_size = n, md_sizes = sz, md_strides = st,
                        md_device_type = dt, md_device_index = di\<rparr>))))))))
      | _ \<Rightarrow> Inr None)"

definition get_str_from_list :: "string list \<Rightarrow> nat \<Rightarrow> string" where
  "get_str_from_list str_list index = (if index < length str_list then str_list ! index else '''')"

datatype op_input = InTensor "TensorMetadata option" | InList "TensorMetadata option list" | InText string

definition tensor_list_items :: "string \<Rightarrow> string list" where
  "tensor_list_items s = split_on CHR '')'' (rev (dropWhile (\<lambda>c. c = CHR '')'') (rev (py_strip is_space s))))"

fun parse_inputs ::
  "string list \<Rightarrow> string list \<Rightarrow> string list \<Rightarrow> nat \<Rightarrow> nat \<Rightarrow> nat \<Rightarrow> string list \<Rightarrow> op_input list res" where
  "parse_inputs tensors tensorlists scalars i j k [] = Inr []"
| "parse_inputs tensors tensorlists scalars i j k (t # types) =
     (if t \<notin> {''None'', ''Scalar'', ''ScalarList'', ''TensorList''}
      then rbind (parse_tensor_metadata (get_str_from_list tensors i)) (\<lambda>m.
           rbind (parse_inputs tensors tensorlists scalars (Suc i) j k types) (\<lambda>rest. Inr (InTensor m # rest)))
      else if t = ''TensorList''
      then rbind (rmap parse_tensor_metadata (tensor_list_items (get_str_from_list tensorlists j))) (\<lambda>ms.
           rbind (parse_inputs tensors tensorlists scalars i (Suc j) k types) (\<lambda>rest. Inr (InList ms # rest)))
      else if t = ''Scalar''
      then rbind (parse_inputs tensors tensorlists scalars i j (Suc k) types) (\<lambda>rest.
             Inr (InText (get_str_from_list scalars k) # rest))
      else rbind (parse_inputs tensors tensorlists scalars i j k types) (\<lambda>rest. Inr (InText t # rest)))"

definition split_field :: "(string \<Rightarrow> string list) \<Rightarrow> string option \<Rightarrow> string list" where
  "split_field sp s = (case s of Some s \<Rightarrow> sp (py_strip is_space s) | None \<Rightarrow> [])"

definition parse_input_from_string ::
  "string option \<Rightarrow> string option \<Rightarrow> string option \<Rightarrow> string option \<Rightarrow> op_input list res" where
  "parse_input_from_string types tensors tensorlists scalars =
     parse_inputs (split_field (split_on CHR '')'') tensors) (split_field (split_on CHR ''}'') tensorlists)
       (split_field (split_on CHR '';'') scalars) 0 0 0
       (split_field (split_str [CHR '';'', CHR 0x0D, CHR 0x0A]) types)"

section \<open>Parameters in text\<close>

record ModuleParam =
  mp_name :: string
  mp_tensor :: "TensorMetadata option"
  mp_grad :: "TensorMetadata option"

record OptimizerParam =
  opt_tensor :: "TensorMetadata option"
  opt_grad :: "TensorMetadata option"
  opt_state :: "(string \<times> TensorMetadata option) list option"

definition optional_metadata :: "string \<Rightarrow> TensorMetadata option res" where
  "optional_metadata s = (if s \<noteq> [] then parse_tensor_metadata s else Inr None)"

definition parse_module_param :: "string \<Rightarrow> ModuleParam option res" where
  "parse_module_param param_str =
     (case split_on CHR '')'' (py_strip is_space param_str) of
        [name, metadata, grad] \<Rightarrow>
          rbind (parse_tensor_metadata metadata) (\<lambda>t.
          rbind (optional_metadata grad) (\<lambda>g. Inr (Some \<lparr>mp_name = name, mp_tensor = t, mp_grad = g\<rparr>)))
      | _ \<Rightarrow> Inr None)"

fun state_pairs :: "string list \<Rightarrow> (string \<times> TensorMetadata option) list \<Rightarrow> (string \<times> TensorMetadata option) list option res" where
  "state_pairs [] acc = Inr (Some acc)"
| "state_pairs (st # sts) acc =
     (if st = [] then state_pairs sts acc
      else case split_on CHR ''>'' (py_strip is_space st) of
             [name, metadata] \<Rightarrow> rbind (parse_tensor_metadata metadata) (\<lambda>t. state_pairs sts (acc @ [(name, t)]))
           | _ \<Rightarrow> Inr None)"

definition parse_state_param :: "string \<Rightarrow> (string \<times> TensorMetadata option) list option res" where
  "parse_state_param state_str = state_pairs (split_on CHR '']'' (py_strip is_space state_str)) []"

definition parse_optimizer_param :: "string \<Rightarrow> OptimizerParam option res" where
  "parse_optimizer_param param_str =
     (case split_on CHR '')'' (py_strip is_space param_str) of
        [metadata, grad, state] \<Rightarrow>
          rbind (parse_tensor_metadata metadata) (\<lambda>t.
          rbind (optional_metadata grad) (\<lambda>g.
          rbind (if state \<noteq> [] then parse_state_param state else Inr (Some [])) (\<lambda>s.
            Inr (Some \<lparr>opt_tensor = t, opt_grad = g, opt_state = s\<rparr>))))
      | _ \<Rightarrow> Inr None)"

record KeyAndParam =
  kp_key :: int
  kp_module_params :: "string list option"
  kp_optimizer_params :: "string list option"

definition param_tensor_bean :: "int \<Rightarrow> (nat \<times> string) list \<Rightarrow> KeyAndParam" where
  "param_tensor_bean key data =
     \<lparr>kp_key = key, kp_module_params = map_option (split_on CHR ''}'') (map_of data 1),
      kp_optimizer_params = map_option (split_on CHR ''}'') (map_of data 2)\<rparr>"

section \<open>The encoder\<close>

text \<open>What the C++ side writes: fields ended by semicolons, the last one bare; a null pointer is empty.\<close>

fun hex_rev :: "nat \<Rightarrow> string" where
  "hex_rev n =
     (let d = n mod 16; c = char_of (if d < 10 then d + 48 else d + 87)
      in if n < 16 then [c] else c # hex_rev (n div 16))"

declare hex_rev.simps [simp del]

definition to_string_ptr :: "nat \<Rightarrow> string" where
  "to_string_ptr p = (if p = 0 then ''0'' else ''0x'' @ rev (hex_rev p))"

definition join_with :: "char \<Rightarrow> string list \<Rightarrow> string" where
  "join_with c ws = (case ws of [] \<Rightarrow> [] | w # ws \<Rightarrow> w @ concat (map (\<lambda>v. c # v) ws))"

definition encodeTensor :: "TensorMetadata \<Rightarrow> string" where
  "encodeTensor t =
     join_with CHR '';''
       [to_string_ptr (nat (md_impl t)), (case md_ptr t of None \<Rightarrow> [] | Some p \<Rightarrow> to_string_ptr (nat p)), md_dtype t,
        py_str_int (md_dtype_size t), join_with CHR '','' (map py_str_int (md_sizes t)),
        join_with CHR '','' (map py_str_int (md_strides t)), py_str_int (md_device_type t), py_str_int (md_device_index t)]"

definition encodeTensors :: "TensorMetadata list \<Rightarrow> string" where
  "encodeTensors ts = butlast (concat (map (\<lambda>t. encodeTensor t @ '')'') ts))"

definition encodeTensorLists :: "TensorMetadata list list \<Rightarrow> string" where
  "encodeTensorLists tss = butlast (concat (map (\<lambda>ts. concat (map (\<lambda>t. encodeTensor t @ '')'') ts) @ ''}'') tss))"

section \<open>Events\<close>

record torch_fields =
  tf_name :: string
  tf_end_ns :: int
  tf_scope :: int
  tf_forward_tid :: int
  tf_sequence_num :: int
  tf_inputs :: "op_input list"

record alloc_fields =
  af_ptr :: int
  af_alloc_size :: int
  af_total_active :: int
  af_total_allocated :: int
  af_total_reserved :: int
  af_device_type :: int
  af_device_index :: int

record pycall_fields =
  pf_name :: string
  pf_end_ns :: int
  pf_key :: "int option"
  pf_module_parameters :: "ModuleParam option list option"
  pf_optimizer_parameters :: "OptimizerParam option list option"

datatype extra_fields = TorchOp torch_fields | Allocation alloc_fields | PyCall pycall_fields

record ProfilerEvent =
  pv_tid :: int
  pv_start_ns :: int
  pv_fields :: extra_fields

definition pv_end_ns :: "ProfilerEvent \<Rightarrow> int" where
  "pv_end_ns e = (case pv_fields e of TorchOp f \<Rightarrow> tf_end_ns f | Allocation _ \<Rightarrow> pv_start_ns e | PyCall f \<Rightarrow> pf_end_ns f)"

definition pv_name :: "ProfilerEvent \<Rightarrow> string" where
  "pv_name e = (case pv_fields e of TorchOp f \<Rightarrow> tf_name f | Allocation _ \<Rightarrow> ''[Memory]'' | PyCall f \<Rightarrow> pf_name f)"

record scoped_op = torch_op +
  so_scope :: int

definition extra_torch_op :: "scoped_op \<Rightarrow> torch_fields res" where
  "extra_torch_op b =
     (let args = get_args (torch_op.truncate b)
      in rbind (parse_input_from_string (args_str args ''Input type'') (map_of (to_fields b) 5) (map_of (to_fields b) 6)
                  (map_of (to_fields b) 7)) (\<lambda>ins.
           Inr \<lparr>tf_name = to_name (torch_op.truncate b), tf_end_ns = to_end_ns b, tf_scope = so_scope b,
                tf_forward_tid = (case args_int args ''Fwd thread id'' of Some n \<Rightarrow> n | None \<Rightarrow> -1),
                tf_sequence_num = (case args_int args ''Sequence number'' of Some n \<Rightarrow> n | None \<Rightarrow> -1), tf_inputs = ins\<rparr>))"

definition alloc_event :: "MemoryUseBean \<Rightarrow> ProfilerEvent" where
  "alloc_event b =
     \<lparr>pv_tid = mr_tid b, pv_start_ns = mr_time_ns b,
      pv_fields = Allocation \<lparr>af_ptr = mr_ptr b, af_alloc_size = mr_alloc_size b, af_total_active = mr_total_active b,
        af_total_allocated = mr_total_allocated b, af_total_reserved = mr_total_reserved b,
        af_device_type = mr_device_type b, af_device_index = mr_device_index b\<rparr>\<rparr>"

text \<open>The parameters of a call are an object whose attributes \<open>params_of\<close> reads.\<close>

definition extra_py_call :: "(pyval \<Rightarrow> KeyAndParam) \<Rightarrow> PyTraceEvent \<Rightarrow> pycall_fields res" where
  "extra_py_call params_of b =
     (let f = \<lparr>pf_name = pe_name b, pf_end_ns = pe_end_time b, pf_key = None, pf_module_parameters = None, pf_optimizer_parameters = None\<rparr>
      in case pe_params b of
           None \<Rightarrow> Inr f
         | Some o' \<Rightarrow>
             (let kp = params_of o'; f1 = f\<lparr>pf_key := Some (kp_key kp)\<rparr>
              in case (kp_module_params kp, kp_optimizer_params kp) of
                   (Some (m # ms), _) \<Rightarrow> rbind (rmap parse_module_param (m # ms)) (\<lambda>ps. Inr (f1\<lparr>pf_module_parameters := Some ps\<rparr>))
                 | (_, Some (m # ms)) \<Rightarrow> rbind (rmap parse_optimizer_param (m # ms)) (\<lambda>ps. Inr (f1\<lparr>pf_optimizer_parameters := Some ps\<rparr>))
                 | _ \<Rightarrow> Inr f1))"

definition pycall_event :: "(pyval \<Rightarrow> KeyAndParam) \<Rightarrow> PyTraceEvent \<Rightarrow> ProfilerEvent res" where
  "pycall_event params_of b =
     rbind (extra_py_call params_of b) (\<lambda>f. Inr \<lparr>pv_tid = pe_tid b, pv_start_ns = pe_start_time b, pv_fields = PyCall f\<rparr>)"

section \<open>The stack replay\<close>

record stack_state =
  ts_finished :: "bool list"
  ts_parent :: "nat option list"
  ts_children :: "nat list list"
  ts_thread :: "int \<Rightarrow> nat option"

definition tree_start :: "nat \<Rightarrow> stack_state" where
  "tree_start n = \<lparr>ts_finished = replicate n False, ts_parent = replicate n None, ts_children = replicate n [], ts_thread = (\<lambda>_. None)\<rparr>"

text \<open>The functions return whether the replay goes on; an error is printed and ends it, the tree stays as it is.\<close>

definition mark_finished :: "nat \<Rightarrow> stack_state \<Rightarrow> bool \<times> stack_state" where
  "mark_finished i st =
     (if ts_finished st ! i then (False, st) else (True, st\<lparr>ts_finished := (ts_finished st)[i := True]\<rparr>))"

definition forward_tid :: "ProfilerEvent \<Rightarrow> int" where
  "forward_tid e = (case pv_fields e of TorchOp f \<Rightarrow> tf_forward_tid f | _ \<Rightarrow> 0)"

definition find_parent :: "ProfilerEvent \<Rightarrow> stack_state \<Rightarrow> nat option" where
  "find_parent e st =
     (case ts_thread st (pv_tid e) of
        Some p \<Rightarrow> Some p
      | None \<Rightarrow> (if forward_tid e \<noteq> 0 then ts_thread st (forward_tid e) else None))"

definition attach :: "nat \<Rightarrow> nat option \<Rightarrow> stack_state \<Rightarrow> stack_state" where
  "attach i parent st =
     (case parent of
        None \<Rightarrow> st
      | Some p \<Rightarrow> st\<lparr>ts_parent := (ts_parent st)[i := Some p], ts_children := (ts_children st)[p := ts_children st ! p @ [i]]\<rparr>)"

definition push_event ::
  "(nat \<Rightarrow> 'q \<Rightarrow> 'q) \<Rightarrow> ProfilerEvent list \<Rightarrow> nat \<Rightarrow> stack_state \<Rightarrow> 'q \<Rightarrow> bool \<times> stack_state \<times> 'q" where
  "push_event put evs i st q =
     (let e = evs ! i
      in if ts_parent st ! i \<noteq> None then (False, st, q)
         else if list_ex (\<lambda>c. \<not> ts_finished st ! c) (ts_children st ! i) then (False, st, q)
         else if ts_finished st ! i then (False, st, q)
         else let st1 = attach i (find_parent e st) st
              in if pv_end_ns e > pv_start_ns e
                 then (True, st1\<lparr>ts_thread := (ts_thread st1)(pv_tid e := Some i)\<rparr>, put i q)
                 else (case mark_finished i st1 of (b, st2) \<Rightarrow> (b, st2, q)))"

partial_function (option) close_until :: "nat \<Rightarrow> nat \<Rightarrow> stack_state \<Rightarrow> (bool \<times> stack_state) option" where
  "close_until cur i st =
     (if cur = i then Some (True, st)
      else case mark_finished cur st of (b, st1) \<Rightarrow>
             (if \<not> b then Some (False, st1)
              else case ts_parent st1 ! cur of
                     None \<Rightarrow> Some (False, st1)
                   | Some p \<Rightarrow> close_until p i st1))"

definition pop_event :: "ProfilerEvent list \<Rightarrow> nat \<Rightarrow> stack_state \<Rightarrow> (bool \<times> stack_state) option" where
  "pop_event evs i st =
     (if ts_finished st ! i then Some (True, st)
      else let tid = pv_tid (evs ! i)
           in case ts_thread st tid of
                None \<Rightarrow> Some (False, st)
              | Some cur \<Rightarrow>
                  (case close_until cur i st of
                     None \<Rightarrow> None
                   | Some (False, st1) \<Rightarrow> Some (False, st1)
                   | Some (True, st1) \<Rightarrow>
                       (case mark_finished i st1 of (b, st2) \<Rightarrow>
                          (if \<not> b then Some (False, st2)
                           else Some (True, st2\<lparr>ts_thread := (ts_thread st2)(tid := ts_parent st2 ! i)\<rparr>)))))"

text \<open>Events that ended before the limit are closed, all of them without a limit.\<close>

partial_function (option) drain ::
  "('q \<Rightarrow> (nat \<times> 'q) option) \<Rightarrow> ProfilerEvent list \<Rightarrow> int option \<Rightarrow> stack_state \<Rightarrow> 'q \<Rightarrow> (bool \<times> stack_state \<times> 'q) option" where
  "drain get evs limit st q =
     (case get q of
        None \<Rightarrow> Some (True, st, q)
      | Some (top_event, q1) \<Rightarrow>
          (if (case limit of Some t \<Rightarrow> pv_end_ns (evs ! top_event) < t | None \<Rightarrow> True)
           then (case pop_event evs top_event st of
                   None \<Rightarrow> None
                 | Some (b, st1) \<Rightarrow> (if \<not> b then Some (False, st1, q1) else drain get evs limit st1 q1))
           else Some (True, st, q)))"

primrec replay_events ::
  "(nat \<Rightarrow> 'q \<Rightarrow> 'q) \<Rightarrow> ('q \<Rightarrow> (nat \<times> 'q) option) \<Rightarrow> ProfilerEvent list \<Rightarrow> nat list \<Rightarrow> stack_state \<Rightarrow> 'q \<Rightarrow> stack_state option" where
  "replay_events put get evs [] st q = map_option (\<lambda>(b, st1, q1). st1) (drain get evs None st q)"
| "replay_events put get evs (i # is) st q =
     (case drain get evs (Some (pv_start_ns (evs ! i))) st q of
        None \<Rightarrow> None
      | Some (b, st1, q1) \<Rightarrow>
          (if \<not> b then Some st1
           else case push_event put evs i st1 q1 of (b', st2, q2) \<Rightarrow>
                  (if \<not> b' then Some st2 else replay_events put get evs is st2 q2)))"

definition end_key :: "ProfilerEvent list \<Rightarrow> nat \<Rightarrow> int" where
  "end_key evs i = pv_end_ns (evs ! i)"

definition build_event_tree :: "ProfilerEvent list \<Rightarrow> stack_state option" where
  "build_event_tree evs =
     replay_events (heap_put (end_key evs)) (heap_get (end_key evs)) evs [0..<length evs] (tree_start (length evs)) []"

section \<open>Numbers of storages and tensors\<close>

type_synonym tensor_ref = "nat \<times> nat \<times> nat"

record IDReference =
  id_tensor :: "nat option"
  id_allocation :: "nat option"

record RawTensorInfo =
  rt_impl :: "int option"
  rt_ptr :: "int option"
  rt_device_type :: int
  rt_device_index :: int
  rt_is_free :: bool
  rt_ref :: tensor_ref

definition raw_info :: "tensor_ref \<Rightarrow> TensorMetadata option \<Rightarrow> RawTensorInfo res" where
  "raw_info r t =
     (case t of
        None \<Rightarrow> Inl AttributeError
      | Some t \<Rightarrow> Inr \<lparr>rt_impl = Some (md_impl t), rt_ptr = md_ptr t, rt_device_type = md_device_type t,
                      rt_device_index = md_device_index t, rt_is_free = False, rt_ref = r\<rparr>)"

definition grad_info :: "tensor_ref \<Rightarrow> TensorMetadata option \<Rightarrow> RawTensorInfo list res" where
  "grad_info r g = (if g = None then Inr [] else rbind (raw_info r g) (\<lambda>x. Inr [x]))"

fun input_infos :: "nat \<Rightarrow> nat \<Rightarrow> op_input \<Rightarrow> RawTensorInfo list res" where
  "input_infos i k (InTensor None) = Inr []"
| "input_infos i k (InTensor (Some t)) = rbind (raw_info (i, k, 0) (Some t)) (\<lambda>x. Inr [x])"
| "input_infos i k (InList ts) = rmap (\<lambda>(j, t). raw_info (i, k, j) t) (enumerate 0 ts)"
| "input_infos i k (InText _) = Inr []"

definition module_infos :: "nat \<Rightarrow> nat \<Rightarrow> ModuleParam option \<Rightarrow> RawTensorInfo list res" where
  "module_infos i k p =
     (case p of
        None \<Rightarrow> Inr []
      | Some p \<Rightarrow> rbind (raw_info (i, k, 0) (mp_tensor p)) (\<lambda>t. rbind (grad_info (i, k, 1) (mp_grad p)) (\<lambda>g. Inr (t # g))))"

definition optimizer_infos :: "nat \<Rightarrow> nat \<Rightarrow> OptimizerParam option \<Rightarrow> RawTensorInfo list res" where
  "optimizer_infos i k p =
     (case p of
        None \<Rightarrow> Inr []
      | Some p \<Rightarrow>
          rbind (raw_info (i, k, 0) (opt_tensor p)) (\<lambda>t.
          rbind (grad_info (i, k, 1) (opt_grad p)) (\<lambda>g.
            (case opt_state p of
               None \<Rightarrow> Inl TypeError
             | Some st \<Rightarrow> rbind (rmap (\<lambda>(j, _, s). raw_info (i, k, j) s) (enumerate 2 st)) (\<lambda>ss. Inr (t # g @ ss))))))"

fun tensor_infos :: "nat \<Rightarrow> int list \<Rightarrow> ProfilerEvent list \<Rightarrow> RawTensorInfo list res" where
  "tensor_infos i seen [] = Inr []"
| "tensor_infos i seen (e # es) =
     (let add = (\<lambda>r seen'. rbind r (\<lambda>xss. rbind (tensor_infos (Suc i) seen' es) (\<lambda>rest. Inr (concat xss @ rest))))
      in case pv_fields e of
           TorchOp f \<Rightarrow> add (rmap (\<lambda>(k, x). input_infos i k x) (enumerate 0 (tf_inputs f))) seen
         | Allocation f \<Rightarrow>
             add (Inr [[\<lparr>rt_impl = None, rt_ptr = Some (af_ptr f), rt_device_type = af_device_type f,
                         rt_device_index = af_device_index f, rt_is_free = af_alloc_size f < 0, rt_ref = (i, 0, 0)\<rparr>]]) seen
         | PyCall f \<Rightarrow>
             (case pf_key f of
                None \<Rightarrow> tensor_infos (Suc i) seen es
              | Some key \<Rightarrow>
                  (if key \<in> set seen then tensor_infos (Suc i) seen es
                   else case (pf_module_parameters f, pf_optimizer_parameters f) of
                          (Some ps, _) \<Rightarrow> add (rmap (\<lambda>(k, p). module_infos i k p) (enumerate 0 ps)) (key # seen)
                        | (None, Some ps) \<Rightarrow> add (rmap (\<lambda>(k, p). optimizer_infos i k p) (enumerate 0 ps)) (key # seen)
                        | (None, None) \<Rightarrow> tensor_infos (Suc i) (key # seen) es)))"

definition get_tensor_info :: "ProfilerEvent list \<Rightarrow> RawTensorInfo list res" where
  "get_tensor_info sorted_events = tensor_infos 0 [] sorted_events"

type_synonym storage_key = "int option \<times> int \<times> int"

definition storage_key_of :: "RawTensorInfo \<Rightarrow> storage_key" where
  "storage_key_of t = (rt_ptr t, rt_device_type t, rt_device_index t)"

fun number_storages :: "nat \<Rightarrow> (storage_key \<Rightarrow> nat option) \<Rightarrow> RawTensorInfo list \<Rightarrow> nat list" where
  "number_storages n m [] = []"
| "number_storages n m (t # ts) =
     (let key = storage_key_of t;
          (a, n1, m1) = (case m key of Some a \<Rightarrow> (a, n, m) | None \<Rightarrow> (n, Suc n, m(key \<mapsto> n)))
      in a # number_storages n1 (if rt_is_free t then m1(key := None) else m1) ts)"

fun number_ids :: "nat \<Rightarrow> (nat \<Rightarrow> nat option) \<Rightarrow> nat list \<Rightarrow> (nat \<Rightarrow> nat option)" where
  "number_ids n m [] = m"
| "number_ids n m (a # as) = (case m a of Some _ \<Rightarrow> number_ids n m as | None \<Rightarrow> number_ids (Suc n) (m(a \<mapsto> n)) as)"

fun write_tensor_ids ::
  "(nat \<Rightarrow> nat option) \<Rightarrow> (RawTensorInfo \<times> nat) list \<Rightarrow> (tensor_ref \<Rightarrow> IDReference) \<Rightarrow> (tensor_ref \<Rightarrow> IDReference)" where
  "write_tensor_ids m [] ids = ids"
| "write_tensor_ids m ((t, a) # ts) ids =
     (case m a of
        None \<Rightarrow> ids
      | Some k \<Rightarrow> write_tensor_ids m ts (ids(rt_ref t := (ids (rt_ref t))\<lparr>id_tensor := Some k\<rparr>)))"

definition no_ids :: "tensor_ref \<Rightarrow> IDReference" where
  "no_ids = (\<lambda>_. \<lparr>id_tensor = None, id_allocation = None\<rparr>)"

definition calculate_unique_id :: "ProfilerEvent list \<Rightarrow> (tensor_ref \<Rightarrow> IDReference) res" where
  "calculate_unique_id sorted_events =
     rbind (get_tensor_info sorted_events) (\<lambda>tensors.
       let numbered = zip tensors (number_storages 0 (\<lambda>_. None) tensors);
           ids = fold (\<lambda>(t, a) ids. ids(rt_ref t := (ids (rt_ref t))\<lparr>id_allocation := Some a\<rparr>)) numbered no_ids;
           tensor_set = set (map snd (filter (\<lambda>(t, a). rt_impl t \<noteq> None) numbered));
           kept = filter (\<lambda>(t, a). a \<in> tensor_set) numbered
       in Inr (write_tensor_ids (number_ids 0 (\<lambda>_. None) (map snd kept)) kept ids))"

section \<open>The event tree\<close>

definition annotation_prefix :: string where
  "annotation_prefix = ''autograd::engine::evaluate_function: ''"

definition takes_autograd :: "torch_fields \<Rightarrow> torch_fields \<Rightarrow> bool" where
  "takes_autograd f g \<longleftrightarrow> tf_scope f = 0 \<and> tf_scope g = 1 \<and> prefix annotation_prefix (tf_name f)"

fun connect_autograd :: "(int \<times> int \<times> torch_fields) list \<Rightarrow> (int \<times> int \<times> torch_fields) list" where
  "connect_autograd ((tid, ts, f) # (tid', ts', g) # rest) =
     (tid, ts, if takes_autograd f g then f\<lparr>tf_sequence_num := tf_sequence_num g, tf_forward_tid := tf_forward_tid g\<rparr> else f)
       # connect_autograd ((tid', ts', g) # rest)"
| "connect_autograd fs = fs"

definition fetch_op_events :: "scoped_op list \<Rightarrow> ProfilerEvent list res" where
  "fetch_op_events beans =
     rbind (rmap (\<lambda>b. rbind (extra_torch_op b) (\<lambda>f. Inr (to_tid b, to_ts b, f))) beans) (\<lambda>fs.
       Inr (map (\<lambda>(tid, ts, f). \<lparr>pv_tid = tid, pv_start_ns = ts, pv_fields = TorchOp f\<rparr>) (connect_autograd fs)))"

definition fetch_allocation_events :: "MemoryUseBean list \<Rightarrow> ProfilerEvent list" where
  "fetch_allocation_events beans = map alloc_event (filter (\<lambda>b. mr_data_type b \<noteq> 2) beans)"

definition fetch_pycall_events :: "(pyval \<Rightarrow> KeyAndParam) \<Rightarrow> PyTraceEvent list \<Rightarrow> ProfilerEvent list res" where
  "fetch_pycall_events params_of beans = rmap (pycall_event params_of) beans"

text \<open>The first event of which \<open>validate_events\<close> complains; it only prints.\<close>

definition event_complaint :: "ProfilerEvent \<Rightarrow> bool" where
  "event_complaint e \<longleftrightarrow>
     pv_start_ns e > pv_end_ns e
     \<or> (case pv_fields e of
          TorchOp f \<Rightarrow> InTensor None \<in> set (tf_inputs f)
        | Allocation _ \<Rightarrow> False
        | PyCall f \<Rightarrow>
            (case (pf_module_parameters f, pf_optimizer_parameters f) of
               (Some _, Some _) \<Rightarrow> True
             | (Some ps, None) \<Rightarrow> None \<in> set ps
             | (None, Some ps) \<Rightarrow> list_ex (\<lambda>p. case p of None \<Rightarrow> True | Some p \<Rightarrow> opt_state p = None) ps
             | (None, None) \<Rightarrow> False))"

definition validate_events :: "ProfilerEvent list \<Rightarrow> ProfilerEvent option" where
  "validate_events sorted_events = find event_complaint sorted_events"

record EventTree =
  et_events :: "ProfilerEvent list"
  et_parent :: "nat option list"
  et_children :: "nat list list"
  et_ids :: "tensor_ref \<Rightarrow> IDReference"

definition event_tree_of :: "ProfilerEvent list \<Rightarrow> EventTree res option" where
  "event_tree_of events =
     (let sorted_events = sort_key pv_start_ns events
      in case build_event_tree sorted_events of
           None \<Rightarrow> None
         | Some st \<Rightarrow>
             Some (rbind (calculate_unique_id sorted_events) (\<lambda>ids.
               Inr \<lparr>et_events = sorted_events, et_parent = ts_parent st, et_children = ts_children st, et_ids = ids\<rparr>)))"

definition event_tree ::
  "(pyval \<Rightarrow> KeyAndParam) \<Rightarrow> scoped_op list \<Rightarrow> MemoryUseBean list \<Rightarrow> PyTraceEvent list \<Rightarrow> EventTree res option" where
  "event_tree params_of ops mems calls =
     (case rbind (fetch_op_events ops) (\<lambda>os. rbind (fetch_pycall_events params_of calls) (\<lambda>cs.
             Inr (os @ fetch_allocation_events mems @ cs))) of
        Inl e \<Rightarrow> Some (Inl e)
      | Inr events \<Rightarrow> event_tree_of events)"

definition get_root_nodes :: "EventTree \<Rightarrow> nat list" where
  "get_root_nodes t = filter (\<lambda>i. et_parent t ! i = None) [0..<length (et_events t)]"

end
