(* ===== verification/Event_Tree_Props.thy ===== *)
theory Event_Tree_Props
  imports Event_Tree
begin

text \<open>
  Properties of the event tree: the stack replay with its priority queue never runs into one of its error
  branches and builds the reference tree; the numbers of storages and tensors are exact; the text format
  of tensors reads back.
\<close>

section \<open>The reference tree\<close>

text \<open>
  The reference keeps one stack of open events per thread.  Before an event starts, every stack is cut below its
  outermost event that has ended; the parent is the top of the thread's stack, or, when the stack is empty,
  the event the thread was attached to when it last began, or else the top of the forward thread.
\<close>

type_synonym stacks = "int \<Rightarrow> nat list"
type_synonym bases = "int \<Rightarrow> nat option"

definition close_before :: "ProfilerEvent list \<Rightarrow> int \<Rightarrow> nat list \<Rightarrow> nat list" where
  "close_before evs t stk = rev (takeWhile (\<lambda>i. end_key evs i \<ge> t) (rev stk))"

definition top_of :: "stacks \<Rightarrow> bases \<Rightarrow> int \<Rightarrow> nat option" where
  "top_of stk base tid = (case stk tid of i # _ \<Rightarrow> Some i | [] \<Rightarrow> base tid)"

definition ref_parent :: "ProfilerEvent \<Rightarrow> stacks \<Rightarrow> bases \<Rightarrow> nat option" where
  "ref_parent e stk base =
     (case top_of stk base (pv_tid e) of
        Some p \<Rightarrow> Some p
      | None \<Rightarrow> (if forward_tid e \<noteq> 0 then top_of stk base (forward_tid e) else None))"

definition lasting :: "ProfilerEvent \<Rightarrow> bool" where
  "lasting e \<longleftrightarrow> pv_end_ns e > pv_start_ns e"

definition ref_push :: "ProfilerEvent list \<Rightarrow> nat \<Rightarrow> stacks \<times> bases \<Rightarrow> stacks \<times> bases" where
  "ref_push evs i sb =
     (case sb of (stk, base) \<Rightarrow>
        (let e = evs ! i; tid = pv_tid e
         in if lasting e
            then (stk(tid := i # stk tid), if stk tid = [] then base(tid := ref_parent e stk base) else base)
            else (stk, base)))"

primrec ref_parents :: "ProfilerEvent list \<Rightarrow> nat list \<Rightarrow> stacks \<Rightarrow> bases \<Rightarrow> nat option list" where
  "ref_parents evs [] stk base = []"
| "ref_parents evs (i # is) stk base =
     (let stk1 = (\<lambda>tid. close_before evs (pv_start_ns (evs ! i)) (stk tid));
          (stk2, base2) = ref_push evs i (stk1, base)
      in ref_parent (evs ! i) stk1 base # ref_parents evs is stk2 base2)"

section \<open>The replay keeps the stacks\<close>

fun tree_linked :: "nat option list \<Rightarrow> nat list \<Rightarrow> nat option \<Rightarrow> bool" where
  "tree_linked ps [] b = True"
| "tree_linked ps [i] b = (ps ! i = b)"
| "tree_linked ps (i # j # is) b = (ps ! i = Some j \<and> tree_linked ps (j # is) b)"

definition stacks_ok :: "ProfilerEvent list \<Rightarrow> nat \<Rightarrow> stacks \<Rightarrow> bases \<Rightarrow> stack_state \<Rightarrow> bool" where
  "stacks_ok evs n stk base st \<longleftrightarrow>
     n \<le> length evs \<and> length (ts_finished st) = length evs \<and> length (ts_parent st) = length evs
     \<and> ts_thread st = top_of stk base
     \<and> (\<forall>tid. distinct (stk tid) \<and> tree_linked (ts_parent st) (stk tid) (base tid))
     \<and> (\<forall>tid. \<forall>i \<in> set (stk tid). i < n \<and> pv_tid (evs ! i) = tid)
     \<and> (\<forall>tid b. base tid = Some b \<longrightarrow> b < n)
     \<and> (\<forall>i < length evs. ts_finished st ! i \<longleftrightarrow> i < n \<and> i \<notin> set (stk (pv_tid (evs ! i))))"

definition tree_rows :: "ProfilerEvent list \<Rightarrow> nat \<Rightarrow> stack_state \<Rightarrow> bool" where
  "tree_rows evs n st \<longleftrightarrow>
     (\<forall>i. n \<le> i \<and> i < length evs \<longrightarrow> ts_parent st ! i = None)
     \<and> (\<forall>i < n. \<forall>p. ts_parent st ! i = Some p \<longrightarrow> p < i)
     \<and> ts_children st = map (\<lambda>p. filter (\<lambda>i. ts_parent st ! i = Some p) [0..<n]) [0..<length evs]"

lemma linked_tail: "tree_linked ps (pre @ i # post) b \<Longrightarrow> tree_linked ps (i # post) b"
  by (induction ps pre b rule: tree_linked.induct) (auto elim: tree_linked.elims)

lemma linked_parent: "tree_linked ps (i # post) b \<Longrightarrow> ps ! i = (case post of j # _ \<Rightarrow> Some j | [] \<Rightarrow> b)"
  by (cases post) auto

lemma linked_drop: "tree_linked ps (i # post) b \<Longrightarrow> tree_linked ps post b"
  by (cases post) auto

lemma close_until_ok:
  assumes "tree_linked (ts_parent st) (pre @ i # post) b" "distinct (pre @ i # post)" "\<forall>j \<in> set pre. \<not> ts_finished st ! j \<and> j < length (ts_finished st)"
  shows "close_until (hd (pre @ [i])) i st
    = Some (True, st\<lparr>ts_finished := map (\<lambda>j. ts_finished st ! j \<or> j \<in> set pre) [0..<length (ts_finished st)]\<rparr>)"
  using assms
proof (induction pre arbitrary: st)
  case Nil
  have "map (\<lambda>j. ts_finished st ! j) [0..<length (ts_finished st)] = ts_finished st" by (rule map_nth)
  then show ?case by (simp add: close_until.simps [of i i])
next
  case (Cons j pre)
  let ?st = "st\<lparr>ts_finished := (ts_finished st)[j := True]\<rparr>"
  have p: "ts_parent st ! j = Some (hd (pre @ [i]))" using Cons.prems(1) by (cases pre) auto
  have "tree_linked (ts_parent ?st) (pre @ i # post) b" using Cons.prems(1) linked_drop [of _ j "pre @ i # post"] by simp
  moreover have "\<forall>j' \<in> set pre. \<not> ts_finished ?st ! j' \<and> j' < length (ts_finished ?st)" using Cons.prems(2,3) by (auto simp: nth_list_update)
  ultimately have "close_until (hd (pre @ [i])) i ?st
      = Some (True, ?st\<lparr>ts_finished := map (\<lambda>k. ts_finished ?st ! k \<or> k \<in> set pre) [0..<length (ts_finished ?st)]\<rparr>)"
    using Cons.IH Cons.prems(2) by simp
  moreover have "map (\<lambda>k. (ts_finished st)[j := True] ! k \<or> k \<in> set pre) [0..<length (ts_finished st)]
      = map (\<lambda>k. ts_finished st ! k \<or> k = j \<or> k \<in> set pre) [0..<length (ts_finished st)]"
    using Cons.prems(3) by (auto simp: nth_list_update)
  ultimately show ?case using Cons.prems(2,3) p by (simp add: close_until.simps [of j i] mark_finished_def)
qed

lemma pop_event_ok:
  assumes ok: "stacks_ok evs n stk base st" and rows: "tree_rows evs n st" and i: "i < n"
  shows "\<exists>stk' st'. pop_event evs i st = Some (True, st') \<and> stacks_ok evs n stk' base st' \<and> tree_rows evs n st'
    \<and> ts_parent st' = ts_parent st \<and> i \<notin> set (stk' (pv_tid (evs ! i)))
    \<and> (\<forall>tid. \<exists>pre. stk tid = pre @ stk' tid \<and> (pre \<noteq> [] \<longrightarrow> last pre = i))"
proof (cases "ts_finished st ! i")
  case True
  moreover have "i < length evs" using ok i by (simp add: stacks_ok_def)
  ultimately have "i \<notin> set (stk (pv_tid (evs ! i)))" using ok by (simp add: stacks_ok_def)
  moreover have "pop_event evs i st = Some (True, st)" using True by (simp add: pop_event_def)
  ultimately show ?thesis using ok rows by (intro exI [of _ stk] exI [of _ st]) simp
next
  case False
  let ?tid = "pv_tid (evs ! i)"
  have n: "n \<le> length evs" and len: "length (ts_finished st) = length evs" using ok by (simp_all add: stacks_ok_def)
  then have il: "i < length evs" using i by simp
  have fin: "ts_finished st ! j \<longleftrightarrow> j < n \<and> j \<notin> set (stk (pv_tid (evs ! j)))" if "j < length evs" for j using ok that by (simp add: stacks_ok_def)
  have "i \<in> set (stk ?tid)" using fin [OF il] False i by simp
  then obtain pre post where s: "stk ?tid = pre @ i # post" by (meson split_list)
  have "distinct (stk ?tid) \<and> tree_linked (ts_parent st) (stk ?tid) (base ?tid)" using ok unfolding stacks_ok_def by blast
  then have d: "distinct (pre @ i # post)" and l: "tree_linked (ts_parent st) (pre @ i # post) (base ?tid)" by (simp_all add: s)
  have mem: "j < n \<and> pv_tid (evs ! j) = ?tid" if "j \<in> set (pre @ i # post)" for j using ok that unfolding stacks_ok_def s [symmetric] by blast
  have opn: "\<forall>j \<in> set pre. \<not> ts_finished st ! j \<and> j < length (ts_finished st)"
  proof
    fix j assume j: "j \<in> set pre"
    then have "j < n" "pv_tid (evs ! j) = ?tid" using mem [of j] by auto
    then show "\<not> ts_finished st ! j \<and> j < length (ts_finished st)" using fin [of j] s len n j by auto
  qed
  let ?st1 = "st\<lparr>ts_finished := map (\<lambda>j. ts_finished st ! j \<or> j \<in> set pre) [0..<length (ts_finished st)]\<rparr>"
  let ?st' = "?st1\<lparr>ts_finished := (ts_finished ?st1)[i := True], ts_thread := (ts_thread st)(?tid := ts_parent st ! i)\<rparr>"
  let ?stk = "stk(?tid := post)"
  have cur: "ts_thread st ?tid = Some (hd (pre @ [i]))" using ok s by (cases pre) (auto simp: stacks_ok_def top_of_def)
  have "i \<notin> set pre" using d by auto
  then have "pop_event evs i st = Some (True, ?st')"
    using close_until_ok [OF l d opn] cur False len il by (simp add: pop_event_def Let_def mark_finished_def)
  moreover have "stacks_ok evs n ?stk base ?st'"
  proof -
    have "ts_parent st ! i = (case post of j # _ \<Rightarrow> Some j | [] \<Rightarrow> base ?tid)" using linked_parent [OF linked_tail [OF l]] .
    then have th: "ts_thread ?st' = top_of ?stk base" using ok by (auto simp: stacks_ok_def top_of_def fun_eq_iff)
    have lk: "tree_linked (ts_parent st) post (base ?tid)" using linked_drop [OF linked_tail [OF l]] .
    have fin': "ts_finished ?st' ! j \<longleftrightarrow> j < n \<and> j \<notin> set (?stk (pv_tid (evs ! j)))" if "j < length evs" for j
    proof -
      have "ts_finished ?st' ! j \<longleftrightarrow> j = i \<or> ts_finished st ! j \<or> j \<in> set pre" using that len il by (cases "j = i") auto
      also have "\<dots> \<longleftrightarrow> j < n \<and> j \<notin> set (?stk (pv_tid (evs ! j)))"
        using fin [OF that] mem [of j] d i s by (auto simp: fun_upd_apply split: if_splits)
      finally show ?thesis .
    qed
    have other: "distinct (stk tid) \<and> tree_linked (ts_parent st) (stk tid) (base tid)" and otherm: "j \<in> set (stk tid) \<Longrightarrow> j < n \<and> pv_tid (evs ! j) = tid"
      and bs: "base tid = Some b \<Longrightarrow> b < n" for tid j b
      using ok unfolding stacks_ok_def by blast+
    show ?thesis unfolding stacks_ok_def
    proof (intro conjI allI impI ballI)
      show "ts_finished ?st' ! j = (j < n \<and> j \<notin> set (?stk (pv_tid (evs ! j))))" if "j < length evs" for j using fin' [OF that] .
      show "distinct (?stk tid)" "tree_linked (ts_parent ?st') (?stk tid) (base tid)" for tid using other [of tid] d lk by (simp_all add: fun_upd_apply)
      show "j < n" "pv_tid (evs ! j) = tid" if "j \<in> set (?stk tid)" for tid j using that otherm [of j tid] mem [of j] by (auto split: if_splits)
      show "b < n" if "base tid = Some b" for tid b using bs [OF that] .
      show "length (ts_parent ?st') = length evs" using ok by (simp add: stacks_ok_def)
    qed (use th n len in simp_all)
  qed
  moreover have "tree_rows evs n ?st'" using rows by (simp add: tree_rows_def)
  moreover have "\<exists>pre'. stk tid = pre' @ ?stk tid \<and> (pre' \<noteq> [] \<longrightarrow> last pre' = i)" for tid
    using s by (cases "tid = ?tid") (auto intro: exI [of _ "pre @ [i]"])
  moreover have "i \<notin> set (?stk ?tid)" using d by simp
  ultimately show ?thesis by (intro exI [of _ ?stk] exI [of _ ?st']) simp
qed

lemma close_before_cut: "end_key evs i < t \<Longrightarrow> close_before evs t (pre @ i # post) = close_before evs t post"
proof -
  assume "end_key evs i < t"
  then have "takeWhile (\<lambda>i. end_key evs i \<ge> t) (rev post @ i # rev pre) = takeWhile (\<lambda>i. end_key evs i \<ge> t) (rev post)"
    by (induction post rule: rev_induct) auto
  then show ?thesis by (simp add: close_before_def)
qed

lemma close_before_id: "\<forall>i \<in> set stk. t \<le> end_key evs i \<Longrightarrow> close_before evs t stk = stk"
  by (simp add: close_before_def takeWhile_eq_all_conv [THEN iffD2])

lemma close_before_popped:
  assumes "stk = pre @ stk'" "pre \<noteq> [] \<longrightarrow> last pre = i" "end_key evs i < t"
  shows "close_before evs t stk = close_before evs t stk'"
  using assms close_before_cut [of evs i t "butlast pre" stk'] by (cases pre rule: rev_cases) auto

section \<open>Pushing an event\<close>

lemma linked_cong: "\<forall>i \<in> set xs. ps ! i = ps' ! i \<Longrightarrow> tree_linked ps xs b = tree_linked ps' xs b"
  by (induction ps xs b rule: tree_linked.induct) auto

lemma top_of_bound:
  assumes "stacks_ok evs n stk base st" "top_of stk base tid = Some p"
  shows "p < n"
proof (cases "stk tid")
  case Nil
  then show ?thesis using assms by (auto simp: stacks_ok_def top_of_def)
next
  case (Cons i rest)
  have "\<forall>i \<in> set (stk tid). i < n" using assms(1) unfolding stacks_ok_def by blast
  then show ?thesis using assms(2) Cons by (simp add: top_of_def)
qed

lemma ref_parent_bound: "stacks_ok evs n stk base st \<Longrightarrow> ref_parent e stk base = Some p \<Longrightarrow> p < n"
  using top_of_bound by (fastforce simp: ref_parent_def split: option.splits if_splits)

lemma attach_rows:
  assumes "tree_rows evs n st" "n < length evs" "length (ts_parent st) = length evs" "\<forall>p. par = Some p \<longrightarrow> p < n"
  shows "ts_parent (attach n par st) = (ts_parent st)[n := par]" "tree_rows evs (Suc n) (attach n par st)"
    "ts_finished (attach n par st) = ts_finished st" "ts_thread (attach n par st) = ts_thread st"
proof -
  have none: "ts_parent st ! n = None" using assms(1,2) by (simp add: tree_rows_def)
  have ch: "ts_children st = map (\<lambda>p. filter (\<lambda>i. ts_parent st ! i = Some p) [0..<n]) [0..<length evs]" using assms(1) by (simp add: tree_rows_def)
  show par: "ts_parent (attach n par st) = (ts_parent st)[n := par]"
    using none list_update_id [of "ts_parent st" n] by (cases par) (simp_all add: attach_def)
  show "ts_finished (attach n par st) = ts_finished st" "ts_thread (attach n par st) = ts_thread st" by (simp_all add: attach_def split: option.split)
  have "ts_children (attach n par st) = map (\<lambda>p. filter (\<lambda>i. (ts_parent st)[n := par] ! i = Some p) [0..<Suc n]) [0..<length evs]"
  proof (rule nth_equalityI)
    show "length (ts_children (attach n par st)) = length (map (\<lambda>p. filter (\<lambda>i. (ts_parent st)[n := par] ! i = Some p) [0..<Suc n]) [0..<length evs])"
      by (simp add: attach_def ch split: option.split)
    fix q assume "q < length (ts_children (attach n par st))"
    then have q: "q < length evs" by (simp add: attach_def ch split: option.splits)
    have "filter (\<lambda>i. (ts_parent st)[n := par] ! i = Some q) [0..<n] = filter (\<lambda>i. ts_parent st ! i = Some q) [0..<n]"
      by (rule filter_cong) auto
    then show "ts_children (attach n par st) ! q = map (\<lambda>p. filter (\<lambda>i. (ts_parent st)[n := par] ! i = Some p) [0..<Suc n]) [0..<length evs] ! q"
      using q assms(2,3) by (auto simp: attach_def ch nth_list_update split: option.split)
  qed
  then show "tree_rows evs (Suc n) (attach n par st)"
    using assms unfolding tree_rows_def par by (auto simp: nth_list_update less_Suc_eq)
qed

lemma push_event_ok:
  assumes ok: "stacks_ok evs n stk base st" and rows: "tree_rows evs n st" and n: "n < length evs" and push: "ref_push evs n (stk, base) = (stk', base')"
  shows "\<exists>st'. push_event put evs n st q = (True, st', if lasting (evs ! n) then put n q else q)
    \<and> stacks_ok evs (Suc n) stk' base' st' \<and> tree_rows evs (Suc n) st' \<and> ts_parent st' = (ts_parent st)[n := ref_parent (evs ! n) stk base]"
proof -
  let ?e = "evs ! n" and ?par = "ref_parent (evs ! n) stk base"
  let ?tid = "pv_tid ?e" and ?st1 = "attach n ?par st"
  have len: "length (ts_finished st) = length evs" "length (ts_parent st) = length evs" and th: "ts_thread st = top_of stk base"
    and dl: "distinct (stk tid) \<and> tree_linked (ts_parent st) (stk tid) (base tid)"
    and mem: "i \<in> set (stk tid) \<Longrightarrow> i < n \<and> pv_tid (evs ! i) = tid"
    and bs: "base tid = Some b \<Longrightarrow> b < n"
    and fin: "i < length evs \<Longrightarrow> ts_finished st ! i \<longleftrightarrow> i < n \<and> i \<notin> set (stk (pv_tid (evs ! i)))" for tid i b
    using ok unfolding stacks_ok_def by blast+
  have pb: "\<forall>p. ?par = Some p \<longrightarrow> p < n" using ref_parent_bound [OF ok] by blast
  note at = attach_rows [OF rows n len(2) pb]
  have none: "ts_parent st ! n = None" using rows n by (simp add: tree_rows_def)
  have nochild: "ts_children st ! n = []"
    using rows n by (fastforce simp: tree_rows_def filter_empty_conv)
  have fp: "find_parent ?e st = ?par" by (simp add: find_parent_def ref_parent_def th split: option.split)
  have nf: "\<not> ts_finished st ! n" using fin [OF n] by simp
  have lk: "tree_linked ((ts_parent st)[n := ?par]) (stk tid) (base tid)" for tid
  proof -
    have "\<forall>i \<in> set (stk tid). (ts_parent st)[n := ?par] ! i = ts_parent st ! i"
    proof
      fix i assume "i \<in> set (stk tid)"
      then have "i \<noteq> n" using mem [of i tid] by auto
      then show "(ts_parent st)[n := ?par] ! i = ts_parent st ! i" by simp
    qed
    from linked_cong [OF this] show ?thesis using dl [of tid] by simp
  qed
  show ?thesis
  proof (cases "lasting ?e")
    case True
    let ?st' = "?st1\<lparr>ts_thread := (ts_thread ?st1)(?tid := Some n)\<rparr>"
    have s': "stk' = stk(?tid := n # stk ?tid)" "base' = (if stk ?tid = [] then base(?tid := ?par) else base)"
      using push True by (auto simp: ref_push_def Let_def)
    have thr: "ts_thread ?st' = top_of stk' base'" using th at(4) by (auto simp: s' top_of_def fun_eq_iff split: list.split)
    have dl': "distinct (stk' tid) \<and> tree_linked ((ts_parent st)[n := ?par]) (stk' tid) (base' tid)" for tid
    proof (cases "tid = ?tid")
      case True
      have "?par = Some j" if "stk ?tid = j # js" for j js using that by (simp add: ref_parent_def top_of_def)
      then show ?thesis using True dl [of tid] lk [of tid] mem [of n ?tid] n len
        by (cases "stk ?tid") (auto simp: s')
    next
      case False
      then show ?thesis using dl [of tid] lk [of tid] by (simp add: s')
    qed
    have fin': "ts_finished st ! i \<longleftrightarrow> i < Suc n \<and> i \<notin> set (stk' (pv_tid (evs ! i)))" if "i < length evs" for i
      using fin [OF that] by (auto simp: s' less_Suc_eq fun_upd_apply)
    have "stacks_ok evs (Suc n) stk' base' ?st'"
      unfolding stacks_ok_def
    proof (intro conjI allI impI ballI)
      show "ts_finished ?st' ! i = (i < Suc n \<and> i \<notin> set (stk' (pv_tid (evs ! i))))" if "i < length evs" for i using fin' [OF that] at(3) by simp
      show "tree_linked (ts_parent ?st') (stk' tid) (base' tid)" "distinct (stk' tid)" for tid using dl' [of tid] at(1) by simp_all
      show "i < Suc n" "pv_tid (evs ! i) = tid" if "i \<in> set (stk' tid)" for tid i using that mem [of i tid] by (auto simp: s' split: if_splits)
      show "b < Suc n" if "base' tid = Some b" for tid b using that bs [of tid b] pb by (auto simp: s' split: if_splits)
    qed (use thr n len at in simp_all)
    moreover have "push_event put evs n st q = (True, ?st', put n q)"
      using True none nochild nf fp by (simp add: push_event_def lasting_def Let_def)
    moreover have "tree_rows evs (Suc n) ?st'" using at(2) by (simp add: tree_rows_def)
    ultimately show ?thesis using True at(1) by auto
  next
    case False
    let ?st' = "?st1\<lparr>ts_finished := (ts_finished ?st1)[n := True]\<rparr>"
    have s': "stk' = stk" "base' = base" using push False by (auto simp: ref_push_def Let_def)
    have fin': "(ts_finished st)[n := True] ! i \<longleftrightarrow> i < Suc n \<and> i \<notin> set (stk' (pv_tid (evs ! i)))" if "i < length evs" for i
      using fin [OF that] mem [of n "pv_tid (evs ! n)"] n len that by (auto simp: s' nth_list_update less_Suc_eq)
    have "stacks_ok evs (Suc n) stk' base' ?st'"
      unfolding stacks_ok_def
    proof (intro conjI allI impI ballI)
      show "ts_finished ?st' ! i = (i < Suc n \<and> i \<notin> set (stk' (pv_tid (evs ! i))))" if "i < length evs" for i using fin' [OF that] at(3) by simp
      show "tree_linked (ts_parent ?st') (stk' tid) (base' tid)" "distinct (stk' tid)" for tid using lk [of tid] dl [of tid] at(1) by (simp_all add: s')
      show "i < Suc n" "pv_tid (evs ! i) = tid" if "i \<in> set (stk' tid)" for tid i using that mem [of i tid] by (auto simp: s')
      show "b < Suc n" if "base' tid = Some b" for tid b using that bs [of tid b] by (auto simp: s')
    qed (use th n len at in \<open>simp_all add: s'\<close>)
    moreover have "push_event put evs n st q = (True, ?st', q)"
      using False none nochild nf fp at(3) by (simp add: push_event_def lasting_def mark_finished_def Let_def)
    moreover have "tree_rows evs (Suc n) ?st'" using at(2) by (simp add: tree_rows_def)
    ultimately show ?thesis using False at(1) by auto
  qed
qed

section \<open>The replay builds the reference tree\<close>

locale event_queue = priority_queue "end_key evs" entries ok new put get
  for evs :: "ProfilerEvent list" and entries :: "'q \<Rightarrow> nat multiset" and ok :: "'q \<Rightarrow> bool" and new :: 'q
    and put :: "nat \<Rightarrow> 'q \<Rightarrow> 'q" and get :: "'q \<Rightarrow> (nat \<times> 'q) option"
begin

definition holds_open :: "nat \<Rightarrow> stacks \<Rightarrow> 'q \<Rightarrow> bool" where
  "holds_open n stk q \<longleftrightarrow> ok q \<and> (\<forall>tid. \<forall>i \<in> set (stk tid). i \<in># entries q) \<and> (\<forall>i \<in># entries q. i < n)"

definition cut :: "int option \<Rightarrow> nat list \<Rightarrow> nat list" where
  "cut limit stk = (case limit of Some t \<Rightarrow> close_before evs t stk | None \<Rightarrow> [])"

lemma drain_ok:
  assumes "stacks_ok evs n stk base st" "tree_rows evs n st" "holds_open n stk q"
  shows "\<exists>st' q'. drain get evs limit st q = Some (True, st', q') \<and> stacks_ok evs n (\<lambda>tid. cut limit (stk tid)) base st'
    \<and> tree_rows evs n st' \<and> ts_parent st' = ts_parent st \<and> holds_open n (\<lambda>tid. cut limit (stk tid)) q'"
  using assms
proof (induction "size (entries q)" arbitrary: q st stk rule: less_induct)
  case less
  have q: "ok q" "\<And>tid i. i \<in> set (stk tid) \<Longrightarrow> i \<in># entries q" "\<And>i. i \<in># entries q \<Longrightarrow> i < n"
    using less.prems(3) unfolding holds_open_def by blast+
  let ?late = "\<lambda>i. case limit of Some t \<Rightarrow> pv_end_ns (evs ! i) < t | None \<Rightarrow> True"
  show ?case
  proof (cases "get q")
    case None
    then have "entries q = {#}" using get_None [OF q(1)] by simp
    then have "stk tid = []" for tid using q(2) [of _ tid] by (cases "stk tid") auto
    then have "(\<lambda>tid. cut limit (stk tid)) = stk" by (auto simp: cut_def close_before_def split: option.split)
    then show ?thesis using less.prems None by (auto simp: drain.simps [of get evs limit st q])
  next
    case (Some r)
    obtain i q1 where g: "get q = Some (i, q1)" using Some by (cases r) auto
    note g' = get_Some [OF q(1) g, THEN conjunct2, THEN conjunct1] get_Some [OF q(1) g, THEN conjunct1] get_Some [OF q(1) g, THEN conjunct2, THEN conjunct2]
    have i: "i < n" using q(3) [OF get_entry [OF q(1) g]] .
    show ?thesis
    proof (cases "?late i")
      case False
      then obtain t where t: "limit = Some t" "t \<le> end_key evs i" by (cases limit) (auto simp: end_key_def)
      have "t \<le> end_key evs j" if "j \<in> set (stk tid)" for j tid using q(2) [OF that] g'(3) t(2) by force
      then have "(\<lambda>tid. cut limit (stk tid)) = stk" using close_before_id by (simp add: cut_def t(1))
      then show ?thesis using less.prems False g by (auto simp: drain.simps [of get evs limit st q])
    next
      case True
      obtain stk' st' where p: "pop_event evs i st = Some (True, st')" "stacks_ok evs n stk' base st'" "tree_rows evs n st'"
        "ts_parent st' = ts_parent st" "i \<notin> set (stk' (pv_tid (evs ! i)))"
        and pre: "\<forall>tid. \<exists>pre. stk tid = pre @ stk' tid \<and> (pre \<noteq> [] \<longrightarrow> last pre = i)"
        using pop_event_ok [OF less.prems(1,2) i] by blast
      have sub: "j \<in> set (stk tid)" if "j \<in> set (stk' tid)" for j tid using pre that by (metis Un_iff set_append)
      have ne: "j \<noteq> i" if "j \<in> set (stk' tid)" for j tid
      proof -
        have "pv_tid (evs ! j) = tid" using p(2) that unfolding stacks_ok_def by blast
        then show ?thesis using p(5) that by auto
      qed
      have h: "holds_open n stk' q1" unfolding holds_open_def
      proof (intro conjI allI ballI)
        show "ok q1" using g'(2) .
        show "j \<in># entries q1" if "j \<in> set (stk' tid)" for tid j using q(2) [OF sub [OF that]] ne [OF that] g'(1) by simp
        show "j < n" if "j \<in># entries q1" for j using q(3) [of j] g'(1) that by simp
      qed
      have "cut limit (stk tid) = cut limit (stk' tid)" for tid
        using pre [THEN spec, of tid] True close_before_popped [of "stk tid" _ "stk' tid" i evs] by (auto simp: cut_def end_key_def split: option.splits)
      moreover have "drain get evs limit st q = drain get evs limit st' q1" using True g p(1) by (simp add: drain.simps [of get evs limit st q])
      ultimately show ?thesis using less.hyps [OF get_smaller [OF q(1) g] p(2,3) h] p(4) by simp
    qed
  qed
qed

lemma replay_ok:
  assumes "stacks_ok evs n stk base st" "tree_rows evs n st" "holds_open n stk q" "n \<le> length evs"
  shows "\<exists>st'. replay_events put get evs [n..<length evs] st q = Some st' \<and> ts_finished st' = replicate (length evs) True
    \<and> tree_rows evs (length evs) st' \<and> ts_parent st' = take n (ts_parent st) @ ref_parents evs [n..<length evs] stk base"
  using assms
proof (induction "length evs - n" arbitrary: n stk base st q)
  case 0
  then have n: "n = length evs" by simp
  obtain st' q' where d: "drain get evs None st q = Some (True, st', q')" "stacks_ok evs n (\<lambda>tid. []) base st'" "tree_rows evs n st'" "ts_parent st' = ts_parent st"
    using drain_ok [OF 0(2-4), of None] by (auto simp: cut_def)
  have "ts_finished st' = replicate (length evs) True" using d(2) n by (auto simp: stacks_ok_def intro: nth_equalityI)
  moreover have "length (ts_parent st) = length evs" using 0(2) by (simp add: stacks_ok_def)
  ultimately show ?case using d n by simp
next
  case (Suc k)
  then have n: "n < length evs" by simp
  then have up: "[n..<length evs] = n # [Suc n..<length evs]" by (simp add: upt_conv_Cons)
  let ?t = "pv_start_ns (evs ! n)"
  let ?stk1 = "\<lambda>tid. close_before evs ?t (stk tid)"
  obtain st1 q1 where d: "drain get evs (Some ?t) st q = Some (True, st1, q1)" "stacks_ok evs n ?stk1 base st1" "tree_rows evs n st1"
    "ts_parent st1 = ts_parent st" "holds_open n ?stk1 q1"
    using drain_ok [OF Suc.prems(1-3), of "Some ?t"] by (auto simp: cut_def)
  obtain stk2 base2 where r: "ref_push evs n (?stk1, base) = (stk2, base2)" by (cases "ref_push evs n (?stk1, base)")
  let ?q2 = "if lasting (evs ! n) then put n q1 else q1"
  obtain st2 where p: "push_event put evs n st1 q1 = (True, st2, ?q2)" "stacks_ok evs (Suc n) stk2 base2 st2" "tree_rows evs (Suc n) st2"
    "ts_parent st2 = (ts_parent st1)[n := ref_parent (evs ! n) ?stk1 base]"
    using push_event_ok [OF d(2,3) n r, of put q1] by (elim exE conjE) (rule that)
  have h: "holds_open (Suc n) stk2 ?q2"
    using d(5) r put_ok [of q1 n] by (auto simp: holds_open_def ref_push_def Let_def less_Suc_eq split: if_splits)
  have len: "length (ts_parent st) = length evs" using Suc.prems(1) by (simp add: stacks_ok_def)
  have "take (Suc n) (ts_parent st2) = take n (ts_parent st) @ [ref_parent (evs ! n) ?stk1 base]"
    using n len by (simp add: p(4) d(4) take_Suc_conv_app_nth)
  moreover have "k = length evs - Suc n" using Suc(2) by simp
  ultimately show ?case
    using Suc.hyps(1) [of "Suc n", OF _ p(2,3) h] n d(1) p(1) r by (auto simp: up)
qed

theorem replay_builds:
  "\<exists>st. replay_events put get evs [0..<length evs] (tree_start (length evs)) new = Some st
    \<and> ts_finished st = replicate (length evs) True \<and> tree_rows evs (length evs) st
    \<and> ts_parent st = ref_parents evs [0..<length evs] (\<lambda>_. []) (\<lambda>_. None)"
proof -
  have "stacks_ok evs 0 (\<lambda>_. []) (\<lambda>_. None) (tree_start (length evs))" by (simp add: stacks_ok_def tree_start_def top_of_def fun_eq_iff)
  moreover have "tree_rows evs 0 (tree_start (length evs))" by (simp add: tree_rows_def tree_start_def map_replicate_const)
  moreover have "holds_open 0 (\<lambda>_. []) new" using new_ok by (simp add: holds_open_def)
  ultimately show ?thesis using replay_ok [of 0] by auto
qed

end

interpretation heap_events: event_queue evs mset "heap_ordered (end_key evs)" "[]" "heap_put (end_key evs)" "heap_get (end_key evs)" for evs
  by unfold_locales

section \<open>Threads with nested events\<close>

definition well_nested :: "ProfilerEvent list \<Rightarrow> bool" where
  "well_nested evs \<longleftrightarrow>
     sorted (map pv_start_ns evs) \<and> list_all (\<lambda>e. forward_tid e = 0) evs
     \<and> (\<forall>k < length evs. \<forall>j < k. pv_tid (evs ! j) = pv_tid (evs ! k) \<and> lasting (evs ! j) \<and> lasting (evs ! k)
          \<longrightarrow> pv_end_ns (evs ! j) < pv_start_ns (evs ! k) \<or> pv_end_ns (evs ! k) \<le> pv_end_ns (evs ! j))"

definition running :: "ProfilerEvent list \<Rightarrow> int \<Rightarrow> int \<Rightarrow> nat \<Rightarrow> bool" where
  "running evs tid t j \<longleftrightarrow> pv_tid (evs ! j) = tid \<and> lasting (evs ! j) \<and> t \<le> pv_end_ns (evs ! j)"

text \<open>The last event of the thread that started before and is not over.\<close>

definition innermost :: "ProfilerEvent list \<Rightarrow> nat \<Rightarrow> nat option" where
  "innermost evs i = find (running evs (pv_tid (evs ! i)) (pv_start_ns (evs ! i))) (rev [0..<i])"

lemma takeWhile_filter:
  assumes "sorted_wrt (\<lambda>x y. P y \<longrightarrow> P x) xs"
  shows "takeWhile P xs = filter P xs"
  using assms by (induction xs) (auto simp: filter_empty_conv)

lemma find_filter_hd: "find P xs = (case filter P xs of [] \<Rightarrow> None | x # _ \<Rightarrow> Some x)"
  by (induction xs) auto

lemma close_running:
  assumes nest: "well_nested evs" and n: "n \<le> length evs" and t: "\<forall>j < n. pv_start_ns (evs ! j) \<le> t" and t': "t \<le> t'"
  shows "close_before evs t' (rev (filter (running evs tid t) [0..<n])) = rev (filter (running evs tid t') [0..<n])"
proof -
  let ?P = "\<lambda>i. t' \<le> end_key evs i" and ?L = "filter (running evs tid t) [0..<n]"
  have "sorted_wrt (\<lambda>j k. ?P k \<longrightarrow> ?P j) ?L"
  proof (rule sorted_wrt_mono_rel)
    show "sorted_wrt (<) ?L" by (rule sorted_wrt_filter) (simp add: strict_sorted_iff)
    show "?P k \<longrightarrow> ?P j" if "j \<in> set ?L" "k \<in> set ?L" "j < k" for j k
    proof -
      have "k < n" "running evs tid t j" "running evs tid t k" using that by auto
      then have "pv_end_ns (evs ! k) \<le> pv_end_ns (evs ! j)"
        using nest n t that(3) unfolding well_nested_def running_def by (metis le_trans less_le_trans not_less)
      then show ?thesis by (simp add: end_key_def)
    qed
  qed
  then have "takeWhile ?P ?L = filter ?P ?L" by (rule takeWhile_filter)
  moreover have "filter ?P ?L = filter (running evs tid t') [0..<n]"
    using t' by (auto simp: running_def end_key_def intro: filter_cong)
  ultimately show ?thesis by (simp add: close_before_def)
qed

lemma ref_parents_nested:
  assumes nest: "well_nested evs" and n: "n \<le> length evs" and t: "\<forall>j < n. pv_start_ns (evs ! j) \<le> t" "\<forall>j. n \<le> j \<and> j < length evs \<longrightarrow> t \<le> pv_start_ns (evs ! j)"
  shows "ref_parents evs [n..<length evs] (\<lambda>tid. rev (filter (running evs tid t) [0..<n])) (\<lambda>_. None) = map (innermost evs) [n..<length evs]"
  using n t
proof (induction "length evs - n" arbitrary: n t)
  case (Suc k)
  then have n: "n < length evs" by simp
  let ?e = "evs ! n"
  let ?t = "pv_start_ns ?e"
  let ?live = "\<lambda>m tid. rev (filter (running evs tid ?t) [0..<m])"
  have fwd: "forward_tid ?e = 0" using nest n by (simp add: well_nested_def list_all_length)
  have stk: "close_before evs ?t (rev (filter (running evs tid t) [0..<n])) = ?live n tid" for tid
    by (rule close_running [OF nest]) (use Suc.prems n in auto)
  have par: "ref_parent ?e (?live n) (\<lambda>_. None) = innermost evs n"
    by (simp add: ref_parent_def top_of_def fwd innermost_def find_filter_hd rev_filter split: list.split)
  have sorted: "pv_start_ns (evs ! i) \<le> pv_start_ns (evs ! j)" if "i \<le> j" "j < length evs" for i j
    using nest that sorted_nth_mono [of "map pv_start_ns evs" i j] by (simp add: well_nested_def)
  have push: "ref_push evs n (?live n, \<lambda>_. None) = (?live (Suc n), \<lambda>_. None)"
  proof (cases "lasting ?e")
    case True
    have "(\<lambda>_. None)(pv_tid ?e := ref_parent ?e (?live n) (\<lambda>_. None)) = (\<lambda>_. None)" if "?live n (pv_tid ?e) = []"
      unfolding par using that by (auto simp: innermost_def find_filter_hd rev_filter)
    moreover have "running evs tid ?t n \<longleftrightarrow> tid = pv_tid ?e" for tid using True by (auto simp: running_def lasting_def)
    ultimately show ?thesis using True by (auto simp: ref_push_def Let_def fun_eq_iff)
  next
    case False
    then have "\<not> running evs tid ?t n" for tid by (simp add: running_def)
    then show ?thesis using False by (simp add: ref_push_def Let_def)
  qed
  have "ref_parents evs [Suc n..<length evs] (?live (Suc n)) (\<lambda>_. None) = map (innermost evs) [Suc n..<length evs]"
    by (rule Suc.hyps(1)) (use Suc(2) n sorted in \<open>auto simp: less_Suc_eq_le\<close>)
  then show ?case using n par push by (simp add: upt_conv_Cons [OF n] stk)
qed simp

lemma parents_nested:
  assumes "well_nested evs"
  shows "ref_parents evs [0..<length evs] (\<lambda>_. []) (\<lambda>_. None) = map (innermost evs) [0..<length evs]"
proof (cases "evs = []")
  case False
  have "\<forall>j. 0 \<le> j \<and> j < length evs \<longrightarrow> pv_start_ns (evs ! 0) \<le> pv_start_ns (evs ! j)"
    using assms False sorted_nth_mono [of "map pv_start_ns evs" 0] by (auto simp: well_nested_def)
  from ref_parents_nested [OF assms _ _ this] show ?thesis by simp
qed simp

text \<open>
  C23: The stack replay ends on every list of events without running into one of its error branches, and
  closes every event.  The parents are those of the reference stacks, whatever order the queue gives to events
  that end at the same time, and the children of an event are exactly the events it is the parent of, in
  order.  When the events of each thread are nested, the parent is the innermost event of the thread that
  is still running.
\<close>

theorem event_tree_exact:
  "\<exists>st. build_event_tree evs = Some st \<and> ts_finished st = replicate (length evs) True
    \<and> ts_parent st = ref_parents evs [0..<length evs] (\<lambda>_. []) (\<lambda>_. None)
    \<and> ts_children st = map (\<lambda>p. filter (\<lambda>i. ts_parent st ! i = Some p) [0..<length evs]) [0..<length evs]
    \<and> (well_nested evs \<longrightarrow> ts_parent st = map (innermost evs) [0..<length evs])"
  using heap_events.replay_builds [of evs] parents_nested [of evs] by (auto simp: build_event_tree_def tree_rows_def)

definition demo_scoped_op :: "string \<Rightarrow> int \<Rightarrow> int \<Rightarrow> int \<Rightarrow> int \<Rightarrow> op_input list \<Rightarrow> ProfilerEvent" where
  "demo_scoped_op name tid fwd s e ins = \<lparr>pv_tid = tid, pv_start_ns = s,
     pv_fields = TorchOp \<lparr>tf_name = name, tf_end_ns = e, tf_scope = 0, tf_forward_tid = fwd, tf_sequence_num = 0, tf_inputs = ins\<rparr>\<rparr>"

definition demo_events :: "ProfilerEvent list" where
  "demo_events = [demo_scoped_op ''a'' 1 0 0 10 [], demo_scoped_op ''b'' 1 0 1 4 [], demo_scoped_op ''c'' 2 0 2 9 [], demo_scoped_op ''d'' 1 0 5 10 [], demo_scoped_op ''e'' 1 0 6 7 []]"

lemma demo_nested: "well_nested demo_events"
proof -
  have "\<forall>k \<in> set [0..<5]. \<forall>j \<in> set [0..<k]. pv_tid (demo_events ! j) = pv_tid (demo_events ! k) \<and> lasting (demo_events ! j) \<and> lasting (demo_events ! k)
          \<longrightarrow> pv_end_ns (demo_events ! j) < pv_start_ns (demo_events ! k) \<or> pv_end_ns (demo_events ! k) \<le> pv_end_ns (demo_events ! j)" by code_simp
  moreover have "length demo_events = 5" "sorted (map pv_start_ns demo_events) \<and> list_all (\<lambda>e. forward_tid e = 0) demo_events" by code_simp+
  ultimately show ?thesis unfolding well_nested_def by (metis atLeastLessThan_iff set_upt zero_le)
qed

theorem event_tree_exact_witness:
  "\<exists>st. build_event_tree demo_events = Some st \<and> ts_parent st = [None, Some 0, None, Some 0, Some 3]"
proof -
  have "map (innermost demo_events) [0..<length demo_events] = [None, Some 0, None, Some 0, Some 3]" by code_simp
  then show ?thesis using event_tree_exact [of demo_events] demo_nested by auto
qed

declare close_until.simps [code] drain.simps [code]

text \<open>
  A thread stays attached to the event of the forward thread under which it began: an operation that starts
  long after that event is over is still its child.
\<close>

lemma late_event_keeps_parent:
  "map_option ts_parent (build_event_tree [demo_scoped_op ''forward'' 1 0 0 10 [], demo_scoped_op ''backward'' 2 1 1 3 [], demo_scoped_op ''later'' 2 0 100 110 []])
     = Some [None, Some 0, Some 0]"
  by code_simp

end
