(* ===== verification/Event_Ids_Props.thy ===== *)
theory Event_Ids_Props
  imports Event_Tree_Props
begin

text \<open>
  Properties of the numbers and of the text format of the event tree: which mentions of a storage share its
  allocation id, which tensors get an id, and that the metadata the native side writes reads back.
\<close>

section \<open>Allocation ids\<close>

text \<open>Two mentions name the same storage when the address agrees and is not freed in between.\<close>

definition same_storage :: "RawTensorInfo list \<Rightarrow> nat \<Rightarrow> nat \<Rightarrow> bool" where
  "same_storage ts i j \<longleftrightarrow>
     storage_key_of (ts ! i) = storage_key_of (ts ! j)
     \<and> (\<forall>k. min i j \<le> k \<and> k < max i j \<longrightarrow> storage_key_of (ts ! k) = storage_key_of (ts ! i) \<longrightarrow> \<not> rt_is_free (ts ! k))"

lemma number_storages_length [simp]: "length (number_storages n m ts) = length ts"
  by (induction n m ts rule: number_storages.induct) (simp add: Let_def split: prod.splits option.splits)+

definition fresh_map :: "nat \<Rightarrow> (storage_key \<Rightarrow> nat option) \<Rightarrow> bool" where
  "fresh_map n m \<longleftrightarrow> (\<forall>k a. m k = Some a \<longrightarrow> a < n) \<and> (\<forall>k k' a. m k = Some a \<and> m k' = Some a \<longrightarrow> k = k')"

text \<open>One step of the numbering: the number, and the counter and map afterwards.\<close>

definition storage_step :: "nat \<Rightarrow> (storage_key \<Rightarrow> nat option) \<Rightarrow> RawTensorInfo \<Rightarrow> nat \<times> nat \<times> (storage_key \<Rightarrow> nat option)" where
  "storage_step n m t =
     (let key = storage_key_of t; free = (\<lambda>m. if rt_is_free t then m(key := None) else m)
      in case m key of Some a \<Rightarrow> (a, n, free m) | None \<Rightarrow> (n, Suc n, free (m(key \<mapsto> n))))"

lemma number_storages_step:
  "storage_step n m t = (b, n', m') \<Longrightarrow> number_storages n m (t # ts) = b # number_storages n' m' ts"
  by (auto simp: storage_step_def Let_def split: option.splits)

lemma storage_step_ok:
  assumes "fresh_map n m" "storage_step n m t = (b, n', m')"
  shows "fresh_map n' m'" "n \<le> n'" "b < n'" "\<And>key. key \<noteq> storage_key_of t \<Longrightarrow> m' key = m key"
    "m' (storage_key_of t) = (if rt_is_free t then None else Some b)" "m (storage_key_of t) = Some b \<or> m (storage_key_of t) = None \<and> b = n"
    "\<And>key. m' key = Some b \<Longrightarrow> key = storage_key_of t"
proof -
  have less: "\<And>k a. m k = Some a \<Longrightarrow> a < n" and inj: "\<And>k k' a. m k = Some a \<Longrightarrow> m k' = Some a \<Longrightarrow> k = k'" using assms(1) unfolding fresh_map_def by blast+
  show bound: "n \<le> n'" "b < n'" and other: "\<And>key. key \<noteq> storage_key_of t \<Longrightarrow> m' key = m key"
    and at: "m' (storage_key_of t) = (if rt_is_free t then None else Some b)" and here: "m (storage_key_of t) = Some b \<or> m (storage_key_of t) = None \<and> b = n"
    using assms(2) less by (auto simp: storage_step_def Let_def split: option.splits if_splits)
  let ?key = "storage_key_of t"
  show only: "\<And>key. m' key = Some b \<Longrightarrow> key = ?key"
  proof (rule ccontr)
    fix key assume k: "m' key = Some b" "key \<noteq> ?key"
    then have "m key = Some b" using other by simp
    then show False using here less inj k(2) by blast
  qed
  show "fresh_map n' m'" unfolding fresh_map_def
  proof (intro conjI allI impI)
    fix k a assume "m' k = Some a"
    then show "a < n'" using other [of k] at less [of k a] bound by (cases "k = ?key") (auto split: if_splits)
  next
    fix k k' a assume a: "m' k = Some a \<and> m' k' = Some a"
    show "k = k'"
    proof (cases "a = b")
      case True
      then show ?thesis using a only by blast
    next
      case False
      then have "k \<noteq> ?key" "k' \<noteq> ?key" using a at by (auto split: if_splits)
      then show ?thesis using a other inj by metis
    qed
  qed
qed

text \<open>The first mention of a number that is already in use names the storage of its map entry.\<close>

definition reaches :: "RawTensorInfo list \<Rightarrow> storage_key \<Rightarrow> nat \<Rightarrow> bool" where
  "reaches ts key j \<longleftrightarrow> storage_key_of (ts ! j) = key \<and> (\<forall>k < j. storage_key_of (ts ! k) = key \<longrightarrow> \<not> rt_is_free (ts ! k))"

lemma number_storages_old:
  assumes "fresh_map n m" "j < length ts" "a < n"
  shows "number_storages n m ts ! j = a \<longleftrightarrow> (\<exists>key. m key = Some a \<and> reaches ts key j)"
  using assms
proof (induction ts arbitrary: n m j)
  case (Cons t ts)
  obtain b n' m' where step: "storage_step n m t = (b, n', m')" using prod_cases3 by blast
  note st = storage_step_ok [OF Cons.prems(1) step] and eq = number_storages_step [OF step, of ts]
  show ?case
  proof (cases j)
    case 0
    have "b = a \<longleftrightarrow> m (storage_key_of t) = Some a" using st(6) Cons.prems(3) by auto
    then show ?thesis using 0 by (simp add: eq reaches_def del: number_storages.simps split_paired_Ex)
  next
    case (Suc i)
    have "number_storages n' m' ts ! i = a \<longleftrightarrow> (\<exists>key. m' key = Some a \<and> reaches ts key i)"
      using Cons.IH [OF st(1)] Cons.prems(2,3) Suc st(2) by simp
    also have "\<dots> \<longleftrightarrow> (\<exists>key. m key = Some a \<and> reaches (t # ts) key (Suc i))"
    proof -
      have "m' key = Some a \<and> reaches ts key i \<longleftrightarrow> m key = Some a \<and> reaches (t # ts) key (Suc i)" for key
        using st(4) [of key] st(5,6) Cons.prems(3) by (cases "key = storage_key_of t") (auto simp: reaches_def less_Suc_eq_0_disj)
      then show ?thesis by blast
    qed
    finally show ?thesis using Suc by (simp add: eq del: number_storages.simps)
  qed
qed simp

lemma reach_same: "\<not> rt_is_free t \<and> reaches ts (storage_key_of t) j \<longleftrightarrow> same_storage (t # ts) 0 (Suc j)"
proof -
  have "(\<forall>k. k < Suc j \<longrightarrow> P k) \<longleftrightarrow> P 0 \<and> (\<forall>k < j. P (Suc k))" for P by (metis less_Suc_eq_0_disj)
  from this [of "\<lambda>k. storage_key_of ((t # ts) ! k) = storage_key_of t \<longrightarrow> \<not> rt_is_free ((t # ts) ! k)"]
  show ?thesis by (auto simp: reaches_def same_storage_def)
qed

lemma number_storages_same:
  assumes "fresh_map n m" "i < j" "j < length ts"
  shows "number_storages n m ts ! i = number_storages n m ts ! j \<longleftrightarrow> same_storage ts i j"
  using assms
proof (induction ts arbitrary: n m i j)
  case (Cons t ts)
  obtain b n' m' where step: "storage_step n m t = (b, n', m')" using prod_cases3 by blast
  note st = storage_step_ok [OF Cons.prems(1) step] and eq = number_storages_step [OF step, of ts]
  obtain j' where j: "j = Suc j'" using Cons.prems(2) by (cases j) auto
  have jl: "j' < length ts" using Cons.prems(3) j by simp
  show ?case
  proof (cases i)
    case 0
    have "number_storages n' m' ts ! j' = b \<longleftrightarrow> (\<exists>key. m' key = Some b \<and> reaches ts key j')"
      by (rule number_storages_old [OF st(1) jl st(3)])
    also have "\<dots> \<longleftrightarrow> \<not> rt_is_free t \<and> reaches ts (storage_key_of t) j'" using st(5) st(7) by (metis option.distinct(1))
    also have "\<dots> \<longleftrightarrow> same_storage (t # ts) 0 (Suc j')" using reach_same by blast
    finally show ?thesis using 0 j by (auto simp: eq simp del: number_storages.simps)
  next
    case (Suc i')
    have "same_storage (t # ts) (Suc i') (Suc j') \<longleftrightarrow> same_storage ts i' j'"
    proof -
      have "(\<forall>k. Suc i' \<le> k \<and> k < Suc j' \<longrightarrow> P k) \<longleftrightarrow> (\<forall>k. i' \<le> k \<and> k < j' \<longrightarrow> P (Suc k))" for P by (metis Suc_le_D Suc_le_mono Suc_less_eq)
      from this [of "\<lambda>k. storage_key_of ((t # ts) ! k) = storage_key_of (ts ! i') \<longrightarrow> \<not> rt_is_free ((t # ts) ! k)"]
      show ?thesis using Cons.prems(2) Suc j by (simp add: same_storage_def)
    qed
    then show ?thesis using Cons.IH [OF st(1), of i' j'] Cons.prems(2) jl Suc j by (simp add: eq del: number_storages.simps)
  qed
qed simp

lemma same_storage_sym: "same_storage ts i j \<longleftrightarrow> same_storage ts j i"
  by (auto simp: same_storage_def min.commute max.commute)

lemma storage_numbers:
  assumes "i < length ts" "j < length ts"
  shows "number_storages 0 (\<lambda>_. None) ts ! i = number_storages 0 (\<lambda>_. None) ts ! j \<longleftrightarrow> same_storage ts i j"
proof -
  have f: "fresh_map 0 (\<lambda>_. None)" by (simp add: fresh_map_def)
  consider "i < j" | "j < i" | "i = j" by linarith
  then show ?thesis
  proof cases
    case 1
    then show ?thesis using number_storages_same [OF f] assms by blast
  next
    case 2
    then show ?thesis using number_storages_same [OF f 2 assms(1)] same_storage_sym by metis
  qed (auto simp: same_storage_def)
qed

section \<open>References are distinct\<close>

definition refs_in :: "(tensor_ref \<Rightarrow> bool) \<Rightarrow> RawTensorInfo list \<Rightarrow> bool" where
  "refs_in P xs \<longleftrightarrow> distinct (map rt_ref xs) \<and> (\<forall>x \<in> set xs. P (rt_ref x))"

lemma refs_mono: "refs_in P xs \<Longrightarrow> (\<And>r. P r \<Longrightarrow> Q r) \<Longrightarrow> refs_in Q xs"
  by (auto simp: refs_in_def)

lemma refs_app:
  assumes "refs_in P xs" "refs_in Q ys" "\<And>r. P r \<Longrightarrow> \<not> Q r" "\<And>r. P r \<Longrightarrow> R r" "\<And>r. Q r \<Longrightarrow> R r"
  shows "refs_in R (xs @ ys)"
proof -
  have "rt_ref ` set xs \<inter> rt_ref ` set ys = {}" using assms(1-3) by (fastforce simp: refs_in_def)
  moreover have "R (rt_ref x)" if "x \<in> set (xs @ ys)" for x
    using that assms(1,2) assms(4) [of "rt_ref x"] assms(5) [of "rt_ref x"] by (auto simp: refs_in_def)
  ultimately show ?thesis using assms(1,2) by (auto simp: refs_in_def)
qed

lemma rmap_enumerate_refs:
  assumes "rmap (\<lambda>(k, x). f k x) (enumerate n xs) = Inr yss" "\<And>k x ys. f k x = Inr ys \<Longrightarrow> refs_in (\<lambda>r. key r = k \<and> P r) ys"
  shows "refs_in (\<lambda>r. n \<le> key r \<and> P r) (concat yss)"
  using assms(1)
proof (induction xs arbitrary: n yss)
  case (Cons x xs)
  then obtain ys yss' where y: "f n x = Inr ys" "rmap (\<lambda>(k, x). f k x) (enumerate (Suc n) xs) = Inr yss'" "yss = ys # yss'"
    by (auto simp: res_simps)
  have 1: "refs_in (\<lambda>r. key r = n \<and> P r) ys" using assms(2) [OF y(1)] .
  have 2: "refs_in (\<lambda>r. Suc n \<le> key r \<and> P r) (concat yss')" using Cons.IH [OF y(2)] .
  have "refs_in (\<lambda>r. n \<le> key r \<and> P r) (ys @ concat yss')" by (rule refs_app [OF 1 2]) auto
  then show ?case using y(3) by simp
qed (simp add: refs_in_def)

lemma raw_info_ref: "raw_info r t = Inr x \<Longrightarrow> rt_ref x = r"
  by (auto simp: raw_info_def split: option.splits)

lemma rmap_raw_refs:
  assumes "rmap (\<lambda>(j, t). raw_info (i, k, j) (g t)) (enumerate n ts) = Inr xs"
  shows "refs_in (\<lambda>r. \<exists>j \<ge> n. r = (i, k, j)) xs"
  using assms
proof (induction ts arbitrary: n xs)
  case (Cons t ts)
  then obtain x xs' where x: "raw_info (i, k, n) (g t) = Inr x" "rmap (\<lambda>(j, t). raw_info (i, k, j) (g t)) (enumerate (Suc n) ts) = Inr xs'" "xs = x # xs'"
    by (auto simp: res_simps)
  have "refs_in (\<lambda>r. \<exists>j \<ge> Suc n. r = (i, k, j)) xs'" by (rule Cons.IH [OF x(2)])
  then show ?case using raw_info_ref [OF x(1)] x(3) by (fastforce simp: refs_in_def)
qed (simp add: refs_in_def)

lemma grad_info_ref: "grad_info r g = Inr xs \<Longrightarrow> xs = [] \<or> (\<exists>x. xs = [x] \<and> rt_ref x = r)"
  by (auto simp: grad_info_def res_simps dest: raw_info_ref split: if_splits)

lemma input_infos_refs: "input_infos i k x = Inr ys \<Longrightarrow> refs_in (\<lambda>r. fst (snd r) = k \<and> fst r = i) ys"
proof (cases x)
  case (InTensor t)
  then show "input_infos i k x = Inr ys \<Longrightarrow> ?thesis" by (cases t) (auto simp: res_simps refs_in_def dest: raw_info_ref)
next
  case (InList ts)
  assume "input_infos i k x = Inr ys"
  then have "refs_in (\<lambda>r. \<exists>j \<ge> 0. r = (i, k, j)) ys" using rmap_raw_refs [of i k "\<lambda>t. t" 0 ts ys] InList by simp
  then show ?thesis by (rule refs_mono) auto
next
  case (InText t)
  then show "input_infos i k x = Inr ys \<Longrightarrow> ?thesis" by (simp add: refs_in_def)
qed

lemma module_infos_refs: "module_infos i k p = Inr ys \<Longrightarrow> refs_in (\<lambda>r. fst (snd r) = k \<and> fst r = i) ys"
  by (auto simp: module_infos_def res_simps refs_in_def dest!: raw_info_ref grad_info_ref split: option.splits)

lemma optimizer_infos_refs:
  assumes "optimizer_infos i k p = Inr ys"
  shows "refs_in (\<lambda>r. fst (snd r) = k \<and> fst r = i) ys"
proof (cases p)
  case (Some q)
  obtain st where st: "opt_state q = Some st" using assms Some by (auto simp: optimizer_infos_def res_simps split: option.splits)
  obtain t g ss where o: "raw_info (i, k, 0) (opt_tensor q) = Inr t" "grad_info (i, k, 1) (opt_grad q) = Inr g"
    "rmap (\<lambda>(j, s). raw_info (i, k, j) (snd s)) (enumerate 2 st) = Inr ss" "ys = t # g @ ss"
    using assms Some st by (auto simp: optimizer_infos_def res_simps case_prod_unfold)
  have "refs_in (\<lambda>r. \<exists>j \<ge> 2. r = (i, k, j)) ss" using rmap_raw_refs [of i k snd 2 st ss] o(3) by simp
  then show ?thesis using raw_info_ref [OF o(1)] grad_info_ref [OF o(2)] o(4) by (fastforce simp: refs_in_def)
qed (use assms in \<open>simp add: optimizer_infos_def refs_in_def\<close>)

lemma tensor_infos_refs: "tensor_infos i seen es = Inr xs \<Longrightarrow> refs_in (\<lambda>r. i \<le> fst r) xs"
proof (induction es arbitrary: i seen xs)
  case (Cons e es)
  have next_i: "refs_in (\<lambda>r. Suc i \<le> fst r) ys" if "tensor_infos (Suc i) seen' es = Inr ys" for seen' ys by (rule Cons.IH [OF that])
  have all: "refs_in (\<lambda>r. fst r = i) (concat yss)" if "rmap (\<lambda>(k, x). f k x) (enumerate 0 zs) = Inr yss"
    "\<And>k x ys. f k x = Inr ys \<Longrightarrow> refs_in (\<lambda>r. fst (snd r) = k \<and> fst r = i) ys" for f zs yss
    using rmap_enumerate_refs [OF that(1), of "\<lambda>r. fst (snd r)" "\<lambda>r. fst r = i"] that(2) by (auto simp: refs_in_def)
  have join: "refs_in (\<lambda>r. i \<le> fst r) (ys @ rest)" if "refs_in (\<lambda>r. fst r = i) ys" "tensor_infos (Suc i) seen' es = Inr rest" for ys rest seen'
    by (rule refs_app [OF that(1) next_i [OF that(2)]]) auto
  have skip: "refs_in (\<lambda>r. i \<le> fst r) ys" if "tensor_infos (Suc i) seen' es = Inr ys" for seen' ys
    by (rule refs_mono [OF next_i [OF that]]) simp
  show ?case
  proof (cases "pv_fields e")
    case (TorchOp f)
    then obtain yss rest where y: "rmap (\<lambda>(k, x). input_infos i k x) (enumerate 0 (tf_inputs f)) = Inr yss"
      "tensor_infos (Suc i) seen es = Inr rest" "xs = concat yss @ rest" using Cons.prems by (auto simp: Let_def res_simps)
    then show ?thesis using join [OF all [OF y(1) input_infos_refs] y(2)] by simp
  next
    case (Allocation f)
    then obtain x rest where y: "tensor_infos (Suc i) seen es = Inr rest" "xs = [x] @ rest" "rt_ref x = (i, 0, 0)" using Cons.prems by (auto simp: Let_def res_simps)
    show ?thesis unfolding y(2) by (rule join [OF _ y(1)]) (simp add: refs_in_def y(3))
  next
    case (PyCall f)
    consider (module) yss rest ps seen' where "rmap (\<lambda>(k, p). module_infos i k p) (enumerate 0 ps) = Inr yss"
        "tensor_infos (Suc i) seen' es = Inr rest" "xs = concat yss @ rest"
      | (optimizer) yss rest ps seen' where "rmap (\<lambda>(k, p). optimizer_infos i k p) (enumerate 0 ps) = Inr yss"
        "tensor_infos (Suc i) seen' es = Inr rest" "xs = concat yss @ rest"
      | (neither) seen' where "tensor_infos (Suc i) seen' es = Inr xs"
      using Cons.prems PyCall that by (auto simp: Let_def res_simps split: option.splits if_splits)
    then show ?thesis
    proof cases
      case module
      then show ?thesis using join [OF all [OF module(1) module_infos_refs] module(2)] by simp
    next
      case optimizer
      then show ?thesis using join [OF all [OF optimizer(1) optimizer_infos_refs] optimizer(2)] by simp
    next
      case neither
      then show ?thesis by (rule skip)
    qed
  qed
qed (simp add: refs_in_def)

section \<open>Tensor ids\<close>

lemma number_ids_ok:
  assumes "\<forall>a k. m a = Some k \<longrightarrow> k < n" "inj_on m (dom m)"
  shows "dom (number_ids n m as) = dom m \<union> set as \<and> inj_on (number_ids n m as) (dom (number_ids n m as))"
  using assms
proof (induction n m as rule: number_ids.induct)
  case (2 n m a as)
  show ?case
  proof (cases "m a")
    case None
    have "\<forall>b k. (m(a \<mapsto> n)) b = Some k \<longrightarrow> k < Suc n" using 2(3) by (auto simp: less_Suc_eq)
    moreover have "inj_on (m(a \<mapsto> n)) (dom (m(a \<mapsto> n)))"
      using 2(3,4) None by (auto simp: inj_on_def dom_def) (metis less_irrefl)+
    ultimately have "dom (number_ids (Suc n) (m(a \<mapsto> n)) as) = dom (m(a \<mapsto> n)) \<union> set as
        \<and> inj_on (number_ids (Suc n) (m(a \<mapsto> n)) as) (dom (number_ids (Suc n) (m(a \<mapsto> n)) as))" by (rule 2(1) [OF None])
    moreover have "number_ids n m (a # as) = number_ids (Suc n) (m(a \<mapsto> n)) as" using None by simp
    moreover have "dom (m(a \<mapsto> n)) \<union> set as = dom m \<union> set (a # as)" by auto
    ultimately show ?thesis by metis
  next
    case (Some k)
    then show ?thesis using 2(2) [OF Some 2(3,4)] by (auto simp: dom_def)
  qed
qed simp

lemma fold_ids:
  assumes "distinct (map (rt_ref \<circ> fst) xs)"
  shows "fold (\<lambda>(t, a) ids. ids(rt_ref t := g a (ids (rt_ref t)))) xs ids r
    = (case find (\<lambda>(t, a). rt_ref t = r) xs of Some (t, a) \<Rightarrow> g a (ids r) | None \<Rightarrow> ids r)"
  using assms
proof (induction xs arbitrary: ids)
  case (Cons x xs)
  obtain t a where x: "x = (t, a)" by (cases x)
  have "find (\<lambda>(t, a). rt_ref t = r) xs = None" if "rt_ref t = r" using that Cons.prems x by (force simp: find_None_iff)
  then show ?case using Cons x by (auto split: option.splits)
qed simp

lemma write_ids_fold:
  assumes "\<forall>(t, a) \<in> set xs. m a \<noteq> None"
  shows "write_tensor_ids m xs ids = fold (\<lambda>(t, a) ids. ids(rt_ref t := (ids (rt_ref t))\<lparr>id_tensor := m a\<rparr>)) xs ids"
  using assms by (induction m xs ids rule: write_tensor_ids.induct) auto

lemma find_in: "find P xs = Some x \<Longrightarrow> x \<in> set xs \<and> P x"
  by (induction xs) (auto split: if_splits)

lemma find_numbered:
  assumes "distinct (map rt_ref ts)" "length as = length ts" "i < length ts"
  shows "find (\<lambda>(t, a). rt_ref t = rt_ref (ts ! i)) (filter (\<lambda>(t, a). P a) (zip ts as)) = (if P (as ! i) then Some (ts ! i, as ! i) else None)"
proof -
  let ?xs = "filter (\<lambda>(t, a). P a) (zip ts as)"
  have only: "j = i" if "j < length ts" "rt_ref (ts ! j) = rt_ref (ts ! i)" for j
    using assms(1,3) that by (simp add: distinct_conv_nth) (metis (no_types, lifting) length_map nth_map)
  have mem: "(t, a) \<in> set ?xs \<and> rt_ref t = rt_ref (ts ! i) \<longleftrightarrow> t = ts ! i \<and> a = as ! i \<and> P a" for t a
    using only assms(2,3) by (auto simp: set_zip)
  show ?thesis
  proof (cases "find (\<lambda>(t, a). rt_ref t = rt_ref (ts ! i)) ?xs")
    case None
    then show ?thesis using mem [of "ts ! i" "as ! i"] by (auto simp: find_None_iff)
  next
    case (Some x)
    then have "(fst x, snd x) \<in> set ?xs \<and> rt_ref (fst x) = rt_ref (ts ! i)" using find_in [OF Some] by (cases x) simp
    then show ?thesis using Some mem [of "fst x" "snd x"] by (cases x) auto
  qed
qed

lemma unique_ids:
  assumes "get_tensor_info evs = Inr ts"
  defines "as \<equiv> number_storages 0 (\<lambda>_. None) ts"
  shows "\<exists>ids m. calculate_unique_id evs = Inr ids \<and> dom m = {as ! j | j. j < length ts \<and> rt_impl (ts ! j) \<noteq> None} \<and> inj_on m (dom m)
    \<and> (\<forall>i < length ts. ids (rt_ref (ts ! i)) = \<lparr>id_tensor = m (as ! i), id_allocation = Some (as ! i)\<rparr>)"
proof -
  have refs: "distinct (map rt_ref ts)" using tensor_infos_refs [OF assms(1) [unfolded get_tensor_info_def]] by (simp add: refs_in_def)
  have len: "length as = length ts" by (simp add: as_def)
  define num where "num = zip ts as"
  define ids where "ids = fold (\<lambda>(t, a) ids. ids(rt_ref t := (ids (rt_ref t))\<lparr>id_allocation := Some a\<rparr>)) num no_ids"
  define T where "T = set (map snd (filter (\<lambda>(t, a). rt_impl t \<noteq> None) num))"
  define kept where "kept = filter (\<lambda>(t, a). a \<in> T) num"
  define m where "m = number_ids 0 (\<lambda>_. None) (map snd kept)"
  have T: "T = {as ! j | j. j < length ts \<and> rt_impl (ts ! j) \<noteq> None}" using len unfolding T_def num_def by (force simp: set_zip image_iff)
  have "set (map snd kept) = T" unfolding kept_def T_def by force
  then have m: "dom m = T" "inj_on m (dom m)" using number_ids_ok [of "\<lambda>_. None" 0 "map snd kept"] unfolding m_def by auto
  have dist: "distinct (map (rt_ref \<circ> fst) num)" using refs len by (simp add: num_def flip: map_map)
  then have dist': "distinct (map (rt_ref \<circ> fst) kept)" unfolding kept_def by (rule distinct_map_filter)
  have "\<forall>(t, a) \<in> set kept. m a \<noteq> None" using m(1) unfolding kept_def by auto
  from write_ids_fold [OF this] have w: "write_tensor_ids m kept ids = fold (\<lambda>(t, a) ids. ids(rt_ref t := (ids (rt_ref t))\<lparr>id_tensor := m a\<rparr>)) kept ids" .
  have "write_tensor_ids m kept ids (rt_ref (ts ! i)) = \<lparr>id_tensor = m (as ! i), id_allocation = Some (as ! i)\<rparr>" if "i < length ts" for i
  proof -
    have "ids (rt_ref (ts ! i)) = \<lparr>id_tensor = None, id_allocation = Some (as ! i)\<rparr>"
      using fold_ids [OF dist, of "\<lambda>a r. r\<lparr>id_allocation := Some a\<rparr>" no_ids "rt_ref (ts ! i)"]
        find_numbered [OF refs len that, of "\<lambda>_. True"] by (simp add: no_ids_def num_def ids_def)
    moreover have "find (\<lambda>(t, a). rt_ref t = rt_ref (ts ! i)) kept = (if as ! i \<in> T then Some (ts ! i, as ! i) else None)"
      unfolding kept_def num_def by (rule find_numbered [OF refs len that])
    moreover have "m (as ! i) = None" if "as ! i \<notin> T" using m(1) that by auto
    ultimately show ?thesis
      using fold_ids [OF dist', of "\<lambda>a r. r\<lparr>id_tensor := m a\<rparr>" ids "rt_ref (ts ! i)"] w by (simp split: if_splits)
  qed
  moreover have "calculate_unique_id evs = Inr (write_tensor_ids m kept ids)"
    using assms(1) by (simp add: calculate_unique_id_def Let_def as_def m_def kept_def T_def ids_def num_def)
  ultimately show ?thesis using m T by (intro exI [of _ "write_tensor_ids m kept ids"] exI [of _ m]) simp
qed

text \<open>
  C24: Every mention of a tensor or of an allocation gets an allocation id, and two mentions get the same one
  exactly when they have the same address and device and no free of it lies between them.  A mention gets
  a tensor id exactly when the storage is mentioned by some tensor, and tensor ids tell storages apart.
\<close>

theorem storage_ids_exact:
  assumes "get_tensor_info evs = Inr ts"
  shows "\<exists>ids. calculate_unique_id evs = Inr ids \<and> (\<forall>i < length ts. \<forall>j < length ts.
      id_allocation (ids (rt_ref (ts ! i))) \<noteq> None
      \<and> (id_allocation (ids (rt_ref (ts ! i))) = id_allocation (ids (rt_ref (ts ! j))) \<longleftrightarrow> same_storage ts i j)
      \<and> (id_tensor (ids (rt_ref (ts ! i))) \<noteq> None \<longleftrightarrow> (\<exists>k < length ts. rt_impl (ts ! k) \<noteq> None \<and> same_storage ts i k))
      \<and> (id_tensor (ids (rt_ref (ts ! i))) \<noteq> None \<longrightarrow>
           (id_tensor (ids (rt_ref (ts ! i))) = id_tensor (ids (rt_ref (ts ! j))) \<longleftrightarrow> same_storage ts i j)))"
proof -
  let ?as = "number_storages 0 (\<lambda>_. None) ts"
  obtain ids m where c: "calculate_unique_id evs = Inr ids" and dom: "dom m = {?as ! j | j. j < length ts \<and> rt_impl (ts ! j) \<noteq> None}"
    and inj: "inj_on m (dom m)" and at: "\<And>i. i < length ts \<Longrightarrow> ids (rt_ref (ts ! i)) = \<lparr>id_tensor = m (?as ! i), id_allocation = Some (?as ! i)\<rparr>"
    using unique_ids [OF assms] by blast
  have t: "m (?as ! i) \<noteq> None \<longleftrightarrow> (\<exists>k < length ts. rt_impl (ts ! k) \<noteq> None \<and> same_storage ts i k)" if "i < length ts" for i
  proof -
    have "m (?as ! i) \<noteq> None \<longleftrightarrow> (\<exists>k < length ts. rt_impl (ts ! k) \<noteq> None \<and> ?as ! i = ?as ! k)" using dom by (auto simp: dom_def set_eq_iff)
    then show ?thesis using storage_numbers [OF that] by auto
  qed
  have e: "m (?as ! i) = m (?as ! j) \<longleftrightarrow> same_storage ts i j" if "i < length ts" "j < length ts" "m (?as ! i) \<noteq> None" for i j
    using inj that storage_numbers [OF that(1,2)] by (metis domIff inj_on_eq_iff)
  show ?thesis using c at t e storage_numbers by (intro exI [of _ ids]) auto
qed

definition demo_tensor :: "int \<Rightarrow> int \<Rightarrow> TensorMetadata" where
  "demo_tensor impl ptr = \<lparr>md_impl = impl, md_ptr = Some ptr, md_dtype = ''float'', md_dtype_size = 4, md_sizes = [2, 3], md_strides = [3, 1],
     md_device_type = 20, md_device_index = 0\<rparr>"

definition demo_alloc_event :: "int \<Rightarrow> int \<Rightarrow> int \<Rightarrow> ProfilerEvent" where
  "demo_alloc_event t ptr n = \<lparr>pv_tid = 1, pv_start_ns = t, pv_fields = Allocation \<lparr>af_ptr = ptr, af_alloc_size = n, af_total_active = 0,
     af_total_allocated = 0, af_total_reserved = 0, af_device_type = 20, af_device_index = 0\<rparr>\<rparr>"

definition demo_reuse :: "ProfilerEvent list" where
  "demo_reuse = [demo_alloc_event 1 256 24, demo_scoped_op ''aten::relu'' 1 0 2 3 [InTensor (Some (demo_tensor 7 256))], demo_alloc_event 4 256 (- 24), demo_alloc_event 5 256 24]"

definition demo_infos :: "RawTensorInfo list" where
  "demo_infos = (case get_tensor_info demo_reuse of Inr ts \<Rightarrow> ts | Inl _ \<Rightarrow> [])"

lemma demo_infos_eval:
  "get_tensor_info demo_reuse = Inr demo_infos" "length demo_infos = 4" "\<not> rt_is_free (demo_infos ! 1)" "rt_is_free (demo_infos ! 2)"
  "storage_key_of (demo_infos ! 1) = storage_key_of (demo_infos ! 2)"
  by code_simp+

theorem storage_ids_exact_witness:
  "\<exists>ids. calculate_unique_id demo_reuse = Inr ids \<and> id_allocation (ids (rt_ref (demo_infos ! 1))) = id_allocation (ids (rt_ref (demo_infos ! 2)))
    \<and> id_allocation (ids (rt_ref (demo_infos ! 2))) \<noteq> id_allocation (ids (rt_ref (demo_infos ! 3)))"
proof -
  have "k = 1" if "min 1 (2 :: nat) \<le> k \<and> k < max 1 2" for k using that by auto
  then have "same_storage demo_infos 1 2" unfolding same_storage_def using demo_infos_eval(3,5) by blast
  moreover have "\<not> same_storage demo_infos 2 3" using demo_infos_eval(4) by (auto simp: same_storage_def intro!: exI [of _ 2])
  ultimately show ?thesis using storage_ids_exact [OF demo_infos_eval(1)] demo_infos_eval(2) by fastforce
qed

end
