(* ===== verification/Tensor_Text_Props.thy ===== *)
theory Tensor_Text_Props
  imports Event_Tree
begin

text \<open>
  The text of the tensors of an operator: what the encoder in C++ writes, the parser in Python reads back.  The first part
  is about splitting and joining, the second about addresses, the third about the fields of one tensor, the last about
  whole argument lists.  Text without tensors is where the two sides disagree: an empty tensor list is read as a list of
  one \<open>None\<close>.
\<close>

section \<open>Text\<close>

text \<open>Splitting undoes joining when the separator does not occur in the parts.\<close>

lemma split_on_app: "c \<notin> set w \<Longrightarrow> split_on c (w @ c # s) = w # split_on c s"
  by (induction w) auto

lemma split_on_absent: "c \<notin> set w \<Longrightarrow> split_on c w = [w]"
  by (induction w) auto

lemma join_with_Cons: "ws \<noteq> [] \<Longrightarrow> join_with c (w # ws) = w @ c # join_with c ws"
  by (cases ws) (simp_all add: join_with_def)

lemma split_join: "ws \<noteq> [] \<Longrightarrow> \<forall>w \<in> set ws. c \<notin> set w \<Longrightarrow> split_on c (join_with c ws) = ws"
proof (induction ws)
  case (Cons w ws)
  then show ?case by (cases "ws = []") (simp_all add: join_with_Cons split_on_app split_on_absent, simp add: join_with_def split_on_absent)
qed simp

lemma set_join_with: "set (join_with c ws) \<subseteq> insert c (\<Union> (set ` set ws))"
  by (cases ws) (auto simp: join_with_def)

lemma rmap_map: "(\<And>x. x \<in> set xs \<Longrightarrow> f (g x) = Inr (h x)) \<Longrightarrow> rmap f (map g xs) = Inr (map h xs)"
  by (induction xs) simp_all

lemma digit_not:
  assumes "is_digit c"
  shows "c \<noteq> CHR '';''" "c \<noteq> CHR '',''" "c \<noteq> CHR '')''" "c \<noteq> CHR ''}''" "c \<noteq> CHR ''-''" "\<not> is_space c"
  using assms by (auto simp: is_digit_def is_space_def Let_def)

lemma int_text_chars: "c \<in> set (py_str_int i) \<Longrightarrow> is_digit c \<or> c = CHR ''-''"
  using py_str_nat_digits(1) by (auto simp: py_str_int_def list_all_iff split: if_splits)

definition plain :: "char \<Rightarrow> bool" where
  "plain c \<longleftrightarrow> c \<notin> {CHR '';'', CHR '')'', CHR ''}''} \<and> \<not> is_space c"

lemma plain_str_int: "c \<in> set (py_str_int i) \<Longrightarrow> plain c \<and> c \<noteq> CHR '',''"
  using int_text_chars [of c i] digit_not [of c] by (auto simp: plain_def is_space_def)

lemma str_int_not_Nil [simp]: "py_str_int i \<noteq> []"
  using py_str_nat_digits(2) by (simp add: py_str_int_def)

lemma int_list_text: "int_list (join_with CHR '','' (map py_str_int xs)) = Inr xs"
proof (cases "xs = []")
  case False
  then have "join_with CHR '','' (map py_str_int xs) \<noteq> []" by (cases xs) (simp_all add: join_with_def)
  moreover have "split_on CHR '','' (join_with CHR '','' (map py_str_int xs)) = map py_str_int xs"
    using False plain_str_int by (intro split_join) auto
  ultimately show ?thesis using rmap_map [of xs py_int py_str_int id] py_int_str by (simp add: int_list_def)
qed (simp add: int_list_def join_with_def)

subsection \<open>Addresses\<close>

lemma hex_char:
  assumes "d < 16"
  shows "hex_val (char_of (if d < 10 then d + 48 else d + 87 :: nat)) = Some (int d)" "plain (char_of (if d < 10 then d + 48 else d + 87 :: nat))"
    "char_of (if d < 10 then d + 48 else d + 87 :: nat) \<notin> {CHR ''_'', CHR ''x'', CHR ''X'', CHR ''-'', CHR ''+''}"
proof -
  let ?n = "if d < 10 then d + 48 else d + 87"
  have "take_bit 8 ?n = ?n" using assms by (simp add: take_bit_nat_eq_self)
  then have c: "char_of ?n = c \<longleftrightarrow> ?n = of_char c" for c :: char using char_of_eq_iff [of ?n c] by simp
  show "hex_val (char_of ?n) = Some (int d)" using assms by (auto simp: hex_val_def Let_def)
  show "plain (char_of ?n)" using assms unfolding plain_def insert_iff c is_space_def by auto
  show "char_of ?n \<notin> {CHR ''_'', CHR ''x'', CHR ''X'', CHR ''-'', CHR ''+''}" using assms unfolding insert_iff c by auto
qed

lemma hex_rev_chars: "c \<in> set (hex_rev n) \<Longrightarrow> hex_val c \<noteq> None \<and> plain c \<and> c \<notin> {CHR ''_'', CHR ''x'', CHR ''X'', CHR ''-'', CHR ''+''}"
proof (induction n rule: hex_rev.induct)
  case (1 n)
  show ?case
  proof (cases "n < 16")
    case True
    then show ?thesis using 1(2) hex_char [of n] by (auto simp: hex_rev.simps [of n] Let_def split: if_splits)
  next
    case False
    then show ?thesis using 1 hex_char [of "n mod 16"] by (auto simp: hex_rev.simps [of n] Let_def split: if_splits)
  qed
qed

lemma hex_digits_append:
  "list_all (\<lambda>c. hex_val c \<noteq> None) xs \<Longrightarrow> parse_hex_digits acc (xs @ ys) = parse_hex_digits (foldl (\<lambda>a c. 16 * a + the (hex_val c)) acc xs) ys"
  by (induction xs arbitrary: acc) auto

lemma foldl_hex_rev: "foldl (\<lambda>a c. 16 * a + the (hex_val c)) 0 (rev (hex_rev n)) = int n"
proof (induction n rule: hex_rev.induct)
  case (1 n)
  show ?case
  proof (cases "n < 16")
    case True
    then show ?thesis using hex_char [of n] by (simp add: hex_rev.simps [of n] Let_def)
  next
    case False
    then have "foldl (\<lambda>a c. 16 * a + the (hex_val c)) 0 (rev (hex_rev (n div 16))) = int (n div 16)" using 1 by simp
    moreover have "16 * int (n div 16) + int (n mod 16) = int n" by (metis mult_div_mod_eq of_nat_add of_nat_mult of_nat_numeral)
    ultimately show ?thesis using False hex_char [of "n mod 16"] by (simp add: hex_rev.simps [of n] Let_def)
  qed
qed

lemma parse_hex_text: "parse_hex (rev (hex_rev n)) = Some (int n)"
proof -
  have "hex_rev n \<noteq> []" by (subst hex_rev.simps) (simp add: Let_def)
  then obtain c cs where c: "rev (hex_rev n) = c # cs" by (cases "rev (hex_rev n)") auto
  have all: "list_all (\<lambda>c. hex_val c \<noteq> None) (rev (hex_rev n))" using hex_rev_chars by (auto simp: list_all_iff)
  then have "parse_hex_digits 0 (rev (hex_rev n)) = Some (int n)" using hex_digits_append [OF all, of 0 "[]"] foldl_hex_rev [of n] by simp
  then show ?thesis using all by (simp add: parse_hex_def c)
qed

lemma ptr_text_chars: "c \<in> set (to_string_ptr p) \<Longrightarrow> plain c \<and> c \<noteq> CHR ''-'' \<and> c \<noteq> CHR ''+''"
  using hex_rev_chars [of c p] by (auto simp: to_string_ptr_def plain_def is_space_def split: if_splits)

lemma ptr_text: "py_int16 (to_string_ptr p) = Inr (int p)"
proof (cases "p = 0")
  case True
  have "py_int16 ''0'' = Inr 0" by code_simp
  then show ?thesis using True by (simp add: to_string_ptr_def)
next
  case False
  have "list_all (\<lambda>c. \<not> is_space c) (to_string_ptr p)" using ptr_text_chars by (auto simp: list_all_iff plain_def)
  then have s: "py_strip is_space (to_string_ptr p) = ''0x'' @ rev (hex_rev p)" using False py_strip_id by (simp add: to_string_ptr_def)
  have "hex_rev p \<noteq> []" by (subst hex_rev.simps) (simp add: Let_def)
  then obtain c cs where c: "rev (hex_rev p) = c # cs" by (cases "rev (hex_rev p)") auto
  then have "c \<noteq> CHR ''_''" using hex_rev_chars [of c p] by (metis insert_iff list.set_intros(1) set_rev)
  then have "hex_body (''0x'' @ rev (hex_rev p)) = Some (int p)" using parse_hex_text [of p] by (simp add: hex_body_def c)
  then show ?thesis by (simp add: py_int16_def s)
qed

subsection \<open>Metadata\<close>

text \<open>What a tensor on a device looks like: addresses are not negative, a null storage has no address, and the
  type's name has no separators; it may have blanks, as in \<open>unsigned char\<close>.\<close>

definition field_char :: "char \<Rightarrow> bool" where
  "field_char c \<longleftrightarrow> c \<notin> {CHR '';'', CHR '')'', CHR ''}''}"

lemma plain_field: "plain c \<Longrightarrow> field_char c"
  by (simp add: plain_def field_char_def)

definition metadata_ok :: "TensorMetadata \<Rightarrow> bool" where
  "metadata_ok t \<longleftrightarrow> md_impl t \<ge> 0 \<and> (case md_ptr t of Some p \<Rightarrow> p > 0 | None \<Rightarrow> True) \<and> list_all field_char (md_dtype t)"

lemma to_string_ptr_not_Nil [simp]: "to_string_ptr p \<noteq> []"
  by (simp add: to_string_ptr_def)

definition metadata_fields :: "TensorMetadata \<Rightarrow> string list" where
  "metadata_fields t =
     [to_string_ptr (nat (md_impl t)), (case md_ptr t of None \<Rightarrow> [] | Some p \<Rightarrow> to_string_ptr (nat p)), md_dtype t,
      py_str_int (md_dtype_size t), join_with CHR '','' (map py_str_int (md_sizes t)),
      join_with CHR '','' (map py_str_int (md_strides t)), py_str_int (md_device_type t), py_str_int (md_device_index t)]"

lemma join_ints_plain: "c \<in> set (join_with CHR '','' (map py_str_int xs)) \<Longrightarrow> plain c"
  using set_join_with [of "CHR '',''" "map py_str_int xs"] plain_str_int by (fastforce simp: plain_def is_space_def)

lemma fields_clean: "metadata_ok t \<Longrightarrow> w \<in> set (metadata_fields t) \<Longrightarrow> c \<in> set w \<Longrightarrow> field_char c"
  using ptr_text_chars join_ints_plain plain_str_int plain_field
  by (fastforce simp: metadata_fields_def metadata_ok_def list_all_iff split: option.splits)

lemma encode_join: "encodeTensor t = join_with CHR '';'' (metadata_fields t)"
  by (simp add: encodeTensor_def metadata_fields_def)

lemma metadata_reads_back:
  assumes "metadata_ok t"
  shows "parse_tensor_metadata (encodeTensor t) = Inr (Some t)"
proof -
  have "split_on CHR '';'' (encodeTensor t) = metadata_fields t"
    unfolding encode_join
  proof (rule split_join)
    show "metadata_fields t \<noteq> []" by (simp add: metadata_fields_def)
    show "\<forall>w \<in> set (metadata_fields t). CHR '';'' \<notin> set w"
      using fields_clean [OF assms] unfolding field_char_def by blast
  qed
  moreover have "(if x \<noteq> [] then rbind (py_int16 x) (\<lambda>p. Inr (Some p)) else Inr None) = Inr (md_ptr t)"
    if "x = (case md_ptr t of None \<Rightarrow> [] | Some p \<Rightarrow> to_string_ptr (nat p))" for x
    using that assms by (cases "md_ptr t") (simp_all add: ptr_text metadata_ok_def)
  ultimately show ?thesis using assms
    by (simp add: parse_tensor_metadata_def metadata_fields_def ptr_text int_list_text py_int_str metadata_ok_def)
qed

subsection \<open>Argument lists\<close>

lemma butlast_joined: "ts \<noteq> [] \<Longrightarrow> butlast (concat (map (\<lambda>t. f t @ [c]) ts)) = join_with c (map f ts)"
proof (induction ts)
  case (Cons t ts)
  then show ?case by (cases "ts = []") (auto simp: join_with_Cons butlast_append, simp_all add: join_with_def)
qed simp

lemma encode_chars: "metadata_ok t \<Longrightarrow> c \<in> set (encodeTensor t) \<Longrightarrow> field_char c \<or> c = CHR '';''"
  using set_join_with [of "CHR '';''" "metadata_fields t"] fields_clean [of t] unfolding encode_join by blast

lemma separators_not_space [simp]: "\<not> is_space CHR '')''" "\<not> is_space CHR ''}''" "\<not> is_space CHR '';''"
  by (simp_all add: is_space_def)

lemma encode_clean:
  assumes "metadata_ok t"
  shows "CHR '')'' \<notin> set (encodeTensor t)" "CHR ''}'' \<notin> set (encodeTensor t)"
  using encode_chars [OF assms, of "CHR '')''"] encode_chars [OF assms, of "CHR ''}''"] by (auto simp: field_char_def)

lemma encode_not_Nil [simp]: "encodeTensor t \<noteq> []"
  unfolding encode_join metadata_fields_def by (simp add: join_with_Cons)

text \<open>Text without blanks at its ends, which \<open>strip\<close> leaves alone.\<close>

definition trimmed :: "string \<Rightarrow> bool" where
  "trimmed s \<longleftrightarrow> s = [] \<or> \<not> is_space (hd s) \<and> \<not> is_space (last s)"

lemma trimmed_strip: "trimmed s \<Longrightarrow> py_strip is_space s = s"
  unfolding trimmed_def
proof (elim disjE conjE)
  assume "\<not> is_space (hd s)" "\<not> is_space (last s)"
  then have "dropWhile is_space s = s" "dropWhile is_space (rev s) = rev s"
    by (cases "s = []", simp, simp add: dropWhile_eq_self_iff hd_rev)+
  then show "py_strip is_space s = s" by (simp add: py_strip_def)
qed (simp add: py_strip_def)

lemma trimmed_join:
  assumes "\<not> is_space c" and "\<forall>w \<in> set ws. trimmed w"
  shows "trimmed (join_with c ws)"
  using assms(2)
proof (induction ws)
  case (Cons w ws)
  then show ?case
    using assms(1) by (cases "ws = []"; cases "w = []"; cases "join_with c ws = []")
      (auto simp: join_with_Cons trimmed_def, simp_all add: join_with_def)
qed (simp add: join_with_def trimmed_def)

lemma encode_trimmed: "trimmed (encodeTensor t)"
proof -
  let ?p = "to_string_ptr (nat (md_impl t))" and ?d = "py_str_int (md_device_index t)"
  let ?m = "join_with CHR '';'' (butlast (tl (metadata_fields t)))"
  have e: "encodeTensor t = ?p @ CHR '';'' # ?m @ CHR '';'' # ?d"
    unfolding encode_join metadata_fields_def by (simp add: join_with_Cons) (simp add: join_with_def)
  have "\<not> is_space (hd ?p)" "\<not> is_space (last ?d)"
    using ptr_text_chars [of "hd ?p" "nat (md_impl t)"] plain_str_int [of "last ?d" "md_device_index t"]
      hd_in_set [of ?p] last_in_set [of ?d] by (simp_all add: plain_def)
  then show ?thesis by (simp add: e trimmed_def)
qed

lemma split_tensors:
  assumes "ts \<noteq> []" "list_all metadata_ok ts"
  shows "split_field (split_on CHR '')'') (Some (encodeTensors ts)) = map encodeTensor ts"
proof -
  let ?s = "join_with CHR '')'' (map encodeTensor ts)"
  have s: "encodeTensors ts = ?s" using assms(1) butlast_joined [of ts encodeTensor "CHR '')''"] by (simp add: encodeTensors_def)
  have "py_strip is_space ?s = ?s" using encode_trimmed by (intro trimmed_strip trimmed_join) auto
  moreover have "split_on CHR '')'' ?s = map encodeTensor ts"
    using assms encode_clean(1) by (intro split_join) (auto simp: list_all_iff)
  ultimately show ?thesis by (simp add: split_field_def s)
qed

definition list_text :: "TensorMetadata list \<Rightarrow> string" where
  "list_text ts = concat (map (\<lambda>t. encodeTensor t @ '')'') ts)"

lemma list_text_clean:
  assumes "list_all metadata_ok ts"
  shows "CHR ''}'' \<notin> set (list_text ts)"
  using assms encode_clean(2) by (auto simp: list_text_def list_all_iff split: if_splits)

lemma list_text_trimmed: "trimmed (list_text ts)"
proof (cases ts)
  case (Cons t us)
  have "hd (list_text ts) = hd (encodeTensor t)" by (simp add: list_text_def Cons)
  moreover have "last (list_text ts) = CHR '')''"
    by (cases ts rule: rev_cases) (simp_all add: list_text_def Cons)
  moreover have "\<not> is_space (hd (encodeTensor t))" using encode_trimmed [of t] by (simp add: trimmed_def)
  ultimately show ?thesis by (simp add: trimmed_def)
qed (simp add: list_text_def trimmed_def)

lemma split_tensor_lists:
  assumes "tss \<noteq> []" "\<forall>ts \<in> set tss. list_all metadata_ok ts"
  shows "split_field (split_on CHR ''}'') (Some (encodeTensorLists tss)) = map list_text tss"
proof -
  let ?s = "join_with CHR ''}'' (map list_text tss)"
  have s: "encodeTensorLists tss = ?s"
    using assms(1) butlast_joined [of tss list_text "CHR ''}''"] by (simp add: encodeTensorLists_def list_text_def)
  have "py_strip is_space ?s = ?s" using list_text_trimmed by (intro trimmed_strip trimmed_join) auto
  moreover have "split_on CHR ''}'' ?s = map list_text tss"
    using assms list_text_clean by (intro split_join) auto
  ultimately show ?thesis by (simp add: split_field_def s)
qed

lemma list_items:
  assumes "ts \<noteq> []" "list_all metadata_ok ts"
  shows "tensor_list_items (list_text ts) = map encodeTensor ts"
proof -
  let ?b = "butlast (list_text ts)"
  have l: "list_text ts = ?b @ '')''"
    using assms(1) by (cases ts rule: rev_cases) (simp_all add: list_text_def butlast_append)
  have b: "?b = encodeTensors ts" by (simp add: list_text_def encodeTensors_def)
  have j: "encodeTensors ts = join_with CHR '')'' (map encodeTensor ts)"
    using assms(1) butlast_joined [of ts encodeTensor "CHR '')''"] by (simp add: encodeTensors_def)
  have "py_strip is_space (list_text ts) = list_text ts"
    by (rule trimmed_strip [OF list_text_trimmed])
  moreover have "rev (dropWhile (\<lambda>c. c = CHR '')'') (rev (list_text ts))) = ?b"
  proof -
    obtain us u where u: "ts = us @ [u]" using assms(1) by (cases ts rule: rev_cases) auto
    obtain x xs where x: "rev (encodeTensor u) = x # xs" by (cases "rev (encodeTensor u)") auto
    then have "x \<in> set (encodeTensor u)" by (metis list.set_intros(1) set_rev)
    then have "x \<noteq> CHR '')''" using encode_clean(1) [of u] assms(2) u by auto
    moreover have "rev xs @ [x] = encodeTensor u" using arg_cong [OF x, of rev] by simp
    ultimately show ?thesis by (simp add: list_text_def u x butlast_append)
  qed
  moreover have "split_on CHR '')'' (encodeTensors ts) = map encodeTensor ts"
    unfolding j using assms encode_clean(1) by (intro split_join) (auto simp: list_all_iff)
  ultimately show ?thesis by (simp add: tensor_list_items_def b)
qed

text \<open>What the encoder is given for the inputs of an operator: a type for each, and the tensors, tensor lists and scalars in
  their order.\<close>

fun input_written :: "string \<Rightarrow> op_input \<Rightarrow> bool" where
  "input_written ty (InTensor m) =
     (ty \<notin> {''None'', ''Scalar'', ''ScalarList'', ''TensorList''} \<and> (case m of Some t \<Rightarrow> metadata_ok t | None \<Rightarrow> False))"
| "input_written ty (InList ms) =
     (ty = ''TensorList'' \<and> ms \<noteq> [] \<and> list_all (\<lambda>m. case m of Some t \<Rightarrow> metadata_ok t | None \<Rightarrow> False) ms)"
| "input_written ty (InText s) = (if ty = ''Scalar'' then trimmed s \<and> CHR '';'' \<notin> set s else ty \<in> {''None'', ''ScalarList''} \<and> s = ty)"

fun tensors_of :: "op_input list \<Rightarrow> TensorMetadata list" where
  "tensors_of [] = []"
| "tensors_of (InTensor (Some t) # ins) = t # tensors_of ins"
| "tensors_of (_ # ins) = tensors_of ins"

fun lists_of :: "op_input list \<Rightarrow> TensorMetadata list list" where
  "lists_of [] = []"
| "lists_of (InList ms # ins) = map the ms # lists_of ins"
| "lists_of (_ # ins) = lists_of ins"

fun scalars_of :: "string list \<Rightarrow> op_input list \<Rightarrow> string list" where
  "scalars_of (ty # types) (InText s # ins) = (if ty = ''Scalar'' then s # scalars_of types ins else scalars_of types ins)"
| "scalars_of (ty # types) (_ # ins) = scalars_of types ins"
| "scalars_of _ _ = []"

lemma next_string: "drop i ws = w # vs \<Longrightarrow> get_str_from_list ws i = w \<and> drop (Suc i) ws = vs"
  unfolding get_str_from_list_def
  by (metis Cons_nth_drop_Suc drop_eq_Nil2 linorder_not_le list.distinct(1) list.inject)

lemma tensors_ok: "list_all2 input_written types ins \<Longrightarrow> list_all metadata_ok (tensors_of ins)"
proof (induction types ins rule: list_all2_induct)
  case (Cons ty types x ins)
  then show ?case by (cases x) (auto split: option.splits)
qed simp

lemma input_list_written:
  assumes "input_written ty (InList ms)"
  shows "ms = map Some (map the ms)" "ms \<noteq> []" "list_all metadata_ok (map the ms)"
proof -
  have "\<exists>t. m = Some t \<and> metadata_ok t" if "m \<in> set ms" for m
    using that assms by (auto simp: list_all_iff split: option.splits)
  then show "ms = map Some (map the ms)" "list_all metadata_ok (map the ms)"
    by (auto simp: list_all_iff intro!: map_idI [symmetric], fastforce+)
  show "ms \<noteq> []" using assms by simp
qed

lemma lists_ok: "list_all2 input_written types ins \<Longrightarrow> \<forall>ts \<in> set (lists_of ins). list_all metadata_ok ts"
proof (induction types ins rule: list_all2_induct)
  case (Cons ty types x ins)
  then show ?case using input_list_written(3) by (cases x) auto
qed simp

lemma scalars_ok: "list_all2 input_written types ins \<Longrightarrow> \<forall>s \<in> set (scalars_of types ins). trimmed s \<and> CHR '';'' \<notin> set s"
proof (induction types ins rule: list_all2_induct)
  case (Cons ty types x ins)
  then show ?case by (cases x) auto
qed simp

text \<open>A field the encoder was given nothing for is never asked for an entry, so what it splits into does not matter.\<close>

lemma parse_written:
  assumes "list_all2 input_written types ins"
    and "tensors_of ins = [] \<or> drop i ts = map encodeTensor (tensors_of ins)"
    and "lists_of ins = [] \<or> drop j ls = map list_text (lists_of ins)"
    and "scalars_of types ins = [] \<or> drop k ss = scalars_of types ins"
  shows "parse_inputs ts ls ss i j k types = Inr ins"
  using assms
proof (induction types ins arbitrary: i j k rule: list_all2_induct)
  case Nil
  then show ?case by simp
next
  case (Cons ty types x ins)
  show ?case
  proof (cases x)
    case (InTensor m)
    then obtain t where t: "m = Some t" "metadata_ok t" using Cons(1) by (auto split: option.splits)
    moreover have "get_str_from_list ts i = encodeTensor t" "drop (Suc i) ts = map encodeTensor (tensors_of ins)"
      using next_string [of i ts "encodeTensor t"] Cons(4) InTensor t by simp_all
    ultimately show ?thesis
      using Cons(1) Cons(3) [of "Suc i" j k] Cons(5) Cons(6) InTensor metadata_reads_back [of t] by simp
  next
    case (InList ms)
    define us where "us = map the ms"
    have us: "ms = map Some us" "us \<noteq> []" "list_all metadata_ok us"
      using input_list_written [of ty ms] Cons(1) InList by (simp_all add: us_def)
    then have "rmap parse_tensor_metadata (map encodeTensor us) = Inr (map Some us)"
      using metadata_reads_back by (intro rmap_map) (auto simp: list_all_iff)
    moreover have "ty = ''TensorList''" using Cons(1) InList by simp
    moreover have "get_str_from_list ls j = list_text us" "drop (Suc j) ls = map list_text (lists_of ins)"
      using next_string [of j ls "list_text us"] Cons(5) InList by (simp_all add: us_def)
    ultimately show ?thesis
      using Cons(3) [of i "Suc j" k] Cons(4) Cons(6) us list_items [of us] InList by simp
  next
    case (InText s)
    show ?thesis
    proof (cases "ty = ''Scalar''")
      case True
      then have "get_str_from_list ss k = s" "drop (Suc k) ss = scalars_of types ins"
        using next_string [of k ss s] Cons(6) InText by simp_all
      then show ?thesis using Cons(3) [of i j "Suc k"] Cons(4,5) InText True by simp
    next
      case False
      then show ?thesis using Cons(1) Cons(3) [of i j k] Cons(4,5,6) InText by auto
    qed
  qed
qed

subsection \<open>The list of types\<close>

fun join_str :: "string \<Rightarrow> string list \<Rightarrow> string" where
  "join_str sep [] = []"
| "join_str sep [w] = w"
| "join_str sep (w # v # ws) = w @ sep @ join_str sep (v # ws)"

lemma split_str_none: "c \<notin> set w \<Longrightarrow> split_str (c # sep) w = [w]"
  by (induction w) (simp_all add: split_str.simps [of _ "[]"] split_str.simps [of _ "_ # _"])

lemma split_str_app: "c \<notin> set w \<Longrightarrow> split_str (c # sep) (w @ (c # sep) @ s) = w # split_str (c # sep) s"
  by (induction w) (simp_all add: split_str.simps [of _ "_ # _"])

lemma split_join_str: "ws \<noteq> [] \<Longrightarrow> \<forall>w \<in> set ws. c \<notin> set w \<Longrightarrow> split_str (c # sep) (join_str (c # sep) ws) = ws"
proof (induction "c # sep" ws rule: join_str.induct)
  case (3 w v ws)
  then show ?case using split_str_app [of c w sep "join_str (c # sep) (v # ws)"] by simp
qed (simp_all add: split_str_none)

lemma join_str_ends:
  assumes "ws \<noteq> []" "\<forall>w \<in> set ws. w \<noteq> []"
  shows "join_str sep ws \<noteq> [] \<and> hd (join_str sep ws) = hd (hd ws) \<and> last (join_str sep ws) = last (last ws)"
  using assms by (induction sep ws rule: join_str.induct) auto

lemma split_types:
  assumes "types \<noteq> []" "\<forall>ty \<in> set types. ty \<noteq> [] \<and> trimmed ty \<and> CHR '';'' \<notin> set ty"
  shows "split_field (split_str (CHR '';'' # sep)) (Some (join_str (CHR '';'' # sep) types)) = types"
proof -
  let ?s = "join_str (CHR '';'' # sep) types"
  have "\<not> is_space (hd (hd types))" "\<not> is_space (last (last types))"
    using assms(2) hd_in_set [OF assms(1)] last_in_set [OF assms(1)] unfolding trimmed_def by blast+
  then have "trimmed ?s" using join_str_ends [of types "CHR '';'' # sep"] assms by (simp add: trimmed_def)
  then have "py_strip is_space ?s = ?s" by (rule trimmed_strip)
  moreover have "split_str (CHR '';'' # sep) ?s = types"
    using assms by (intro split_join_str) auto
  ultimately show ?thesis by (simp add: split_field_def)
qed

lemma split_scalars:
  assumes "ss \<noteq> []" "\<forall>s \<in> set ss. trimmed s \<and> CHR '';'' \<notin> set s"
  shows "split_field (split_on CHR '';'') (Some (join_with CHR '';'' ss)) = ss"
proof -
  have "py_strip is_space (join_with CHR '';'' ss) = join_with CHR '';'' ss"
    using assms by (intro trimmed_strip trimmed_join) auto
  moreover have "split_on CHR '';'' (join_with CHR '';'' ss) = ss"
    using assms by (intro split_join) auto
  ultimately show ?thesis by (simp add: split_field_def)
qed

text \<open>C25: What the encoder writes for the inputs of an operator, the event tree reads back: every tensor with its addresses,
  type, sizes and strides, every tensor list that is not empty, and every scalar, each at its place.  This holds when no
  text that is written contains a separator, no scalar and no type of an input has a blank at its ends, and addresses are
  not negative and not null; empty tensor lists are the exception, shown below.\<close>

theorem tensor_text_roundtrip:
  assumes "types \<noteq> []" "\<forall>ty \<in> set types. ty \<noteq> [] \<and> trimmed ty \<and> CHR '';'' \<notin> set ty" "list_all2 input_written types ins"
  shows "parse_input_from_string (Some (join_str [CHR '';'', CHR 0x0D, CHR 0x0A] types)) (Some (encodeTensors (tensors_of ins)))
      (Some (encodeTensorLists (lists_of ins))) (Some (join_with CHR '';'' (scalars_of types ins))) = Inr ins"
  unfolding parse_input_from_string_def
  using split_types [OF assms(1,2)] split_tensors tensors_ok [OF assms(3)] split_tensor_lists lists_ok [OF assms(3)]
    split_scalars scalars_ok [OF assms(3)] parse_written [OF assms(3), of 0 _ 0 _ 0] by (metis drop0)

definition demo_text_tensor :: TensorMetadata where
  "demo_text_tensor =
     \<lparr>md_impl = 255, md_ptr = Some 4096, md_dtype = ''unsigned char'', md_dtype_size = 1, md_sizes = [2, 3], md_strides = [3, 1],
      md_device_type = 20, md_device_index = 0\<rparr>"

definition demo_inputs :: "op_input list" where
  "demo_inputs = [InTensor (Some demo_text_tensor), InList [Some demo_text_tensor, Some demo_text_tensor], InText ''0.5'', InText ''None'']"

definition demo_types :: "string list" where
  "demo_types = [''unsigned char'', ''TensorList'', ''Scalar'', ''None'']"

theorem tensor_text_roundtrip_witness:
  "parse_input_from_string (Some (join_str [CHR '';'', CHR 0x0D, CHR 0x0A] demo_types)) (Some (encodeTensors (tensors_of demo_inputs)))
      (Some (encodeTensorLists (lists_of demo_inputs))) (Some (join_with CHR '';'' (scalars_of demo_types demo_inputs)))
    = Inr demo_inputs"
proof -
  have "demo_types \<noteq> []" "\<forall>ty \<in> set demo_types. ty \<noteq> [] \<and> trimmed ty \<and> CHR '';'' \<notin> set ty"
    by (simp_all add: demo_types_def trimmed_def is_space_def)
  moreover have "list_all2 input_written demo_types demo_inputs"
    by (simp add: demo_types_def demo_inputs_def demo_text_tensor_def metadata_ok_def field_char_def trimmed_def is_space_def)
  ultimately show ?thesis by (rule tensor_text_roundtrip)
qed

section \<open>Empty tensor lists\<close>

text \<open>The text of an empty tensor list splits into one empty part, which is read as one tensor that is missing.\<close>

lemma empty_list_misread:
  "parse_input_from_string (Some ''TensorList'') None (Some (encodeTensorLists [[]])) None = Inr [InList [None]]"
proof -
  have "py_strip is_space ''TensorList'' = ''TensorList''" "split_str [CHR '';'', CHR 0x0D, CHR 0x0A] ''TensorList'' = [''TensorList'']"
    by (rule py_strip_id, simp add: is_space_def) (rule split_str_none, simp)
  then show ?thesis
    by (simp add: parse_input_from_string_def split_field_def encodeTensorLists_def py_strip_def tensor_list_items_def
        get_str_from_list_def parse_tensor_metadata_def)
qed

lemma missing_tensor_raises:
  "rmap (\<lambda>(k, x). input_infos i k x) xs = Inr y \<Longrightarrow> \<forall>(k, x) \<in> set xs. \<forall>ts. x = InList ts \<longrightarrow> None \<notin> set ts"
proof (induction xs arbitrary: y)
  case (Cons kx xs)
  obtain k x where kx: "kx = (k, x)" by force
  have no: "None \<notin> set ts" if "rmap (\<lambda>(j, t). raw_info (i, k, j) t) (enumerate n ts) = Inr z" for n ts z
    using that by (induction ts arbitrary: n z) (auto simp: raw_info_def rbind_def split: sum.splits option.splits)
  from Cons show ?case using no by (cases x) (auto simp: kx rbind_def split: sum.splits)
qed simp

text \<open>So an operator called with an empty list of tensors ends the construction of the tree: the ids are computed before the
  inputs are validated.\<close>

lemma missing_tensor_no_ids:
  assumes "InList ts \<in> set (tf_inputs f)" "None \<in> set ts" "pv_fields e = TorchOp f" "e \<in> set events"
  shows "\<exists>err. calculate_unique_id events = Inl err"
proof -
  have "\<exists>err. tensor_infos i seen evs = Inl err" if "e \<in> set evs" for i seen evs
    using that
  proof (induction evs arbitrary: i seen)
    case (Cons e' es)
    show ?case
    proof (cases "e' = e")
      case True
      have "rmap (\<lambda>(k, x). input_infos i k x) (enumerate 0 (tf_inputs f)) \<noteq> Inr y" for y
      proof -
        obtain k where "k < length (tf_inputs f)" "tf_inputs f ! k = InList ts" using assms(1) by (auto simp: in_set_conv_nth)
        then have "(k, InList ts) \<in> set (enumerate 0 (tf_inputs f))" by (simp add: in_set_enumerate_eq)
        then show ?thesis using missing_tensor_raises [of i "enumerate 0 (tf_inputs f)" y] assms(2) by blast
      qed
      then show ?thesis using True assms(3) by (cases "rmap (\<lambda>(k, x). input_infos i k x) (enumerate 0 (tf_inputs f))") (auto simp: rbind_def)
    next
      case False
      then have ih: "\<exists>err. tensor_infos j s es = Inl err" for j s using Cons by simp
      have tl: "\<exists>err. rbind (tensor_infos (Suc i) s es) g = Inl err" for s and g :: "_ \<Rightarrow> RawTensorInfo list res"
        using ih [of "Suc i" s] by auto
      have "\<exists>err. rbind r (\<lambda>xss. rbind (tensor_infos (Suc i) s es) (\<lambda>rest. Inr (concat xss @ rest))) = Inl err" for r s
        using ih [of "Suc i" s] by (auto simp: rbind_def split: sum.splits)
      then show ?thesis using ih tl by (simp add: Let_def split: extra_fields.splits option.splits)
    qed
  qed simp
  then obtain err where "tensor_infos 0 [] events = Inl err" using assms(4) by blast
  then show ?thesis by (simp add: calculate_unique_id_def get_tensor_info_def)
qed

end
