(* ===== verification/Memory_Flow.thy ===== *)
theory Memory_Flow
  imports Event_Tree "HOL-Library.Product_Lexorder"
begin

text \<open>
  The data flow graph of the memory timeline, first part of \<open>prof_view/_memory_timeline_parser.py\<close>: keys of
  tensors, the sizes of their storages, which arguments of an operator may be changed, and the graph whose
  nodes are operators and allocations and whose edges say which version of which tensor they read, change,
  allocate and free.

  The events are those of an \<open>EventTree\<close>; an event is its index, a tensor its position in the event.  Two
  functions come from PyTorch and are parameters, the record \<open>flow_lib\<close>: \<open>traverse_dfs\<close>, and the schemas that
  \<open>torch._C\<close> has for the name of an operator (\<open>None\<close> when it raises \<open>RuntimeError\<close>).
\<close>

section \<open>Keys\<close>

text \<open>The address in a key's \<open>Storage\<close> is for display only, equality and order ignore it, so it is left out here.\<close>

datatype TensorKey =
  TensorKey (tk_device_type: int) (tk_device_index: int) (tk_id: nat) (tk_allocation: nat)

definition as_sortable :: "TensorKey \<Rightarrow> nat \<times> nat \<times> int \<times> int" where
  "as_sortable k = (tk_id k, tk_allocation k, tk_device_type k, tk_device_index k)"

lemma as_sortable_inject: "as_sortable a = as_sortable b \<longleftrightarrow> a = b"
  by (cases a; cases b) (auto simp: as_sortable_def)

instantiation TensorKey :: linorder
begin

definition less_eq_TensorKey :: "TensorKey \<Rightarrow> TensorKey \<Rightarrow> bool" where
  "less_eq_TensorKey a b \<longleftrightarrow> as_sortable a \<le> as_sortable b"

definition less_TensorKey :: "TensorKey \<Rightarrow> TensorKey \<Rightarrow> bool" where
  "less_TensorKey a b \<longleftrightarrow> as_sortable a < as_sortable b"

instance
proof
  fix a b c :: TensorKey
  show "a < b \<longleftrightarrow> a \<le> b \<and> \<not> b \<le> a" unfolding less_eq_TensorKey_def less_TensorKey_def by (rule less_le_not_le)
  show "a \<le> a" unfolding less_eq_TensorKey_def by simp
  show "a \<le> c" if "a \<le> b" "b \<le> c" using that unfolding less_eq_TensorKey_def by (rule order_trans)
  show "a = b" if "a \<le> b" "b \<le> a" using that unfolding less_eq_TensorKey_def by (metis antisym as_sortable_inject)
  show "a \<le> b \<or> b \<le> a" unfolding less_eq_TensorKey_def by (rule linear)
qed

end

definition make_key :: "nat option \<Rightarrow> nat option \<Rightarrow> int option \<Rightarrow> int \<Rightarrow> int \<Rightarrow> TensorKey option" where
  "make_key tensor_id allocation_id storage_ptr device_type device_index =
     (case (tensor_id, storage_ptr, allocation_id) of
        (Some t, Some p, Some a) \<Rightarrow> Some (TensorKey device_type device_index t a)
      | _ \<Rightarrow> None)"

definition from_allocation :: "EventTree \<Rightarrow> nat \<Rightarrow> alloc_fields \<Rightarrow> TensorKey option" where
  "from_allocation T i alloc =
     (let r = et_ids T (i, 0, 0)
      in make_key (id_tensor r) (id_allocation r) (Some (af_ptr alloc)) (af_device_type alloc) (af_device_index alloc))"

definition from_tensor :: "EventTree \<Rightarrow> tensor_ref \<Rightarrow> TensorMetadata option \<Rightarrow> TensorKey option" where
  "from_tensor T pos t =
     (case t of
        None \<Rightarrow> None
      | Some t \<Rightarrow> (let r = et_ids T pos
                  in make_key (id_tensor r) (id_allocation r) (md_ptr t) (md_device_type t) (md_device_index t)))"

section \<open>Parameters and gradients\<close>

definition event_at :: "EventTree \<Rightarrow> nat \<Rightarrow> ProfilerEvent" where
  "event_at T i = et_events T ! i"

text \<open>The test reads the inputs of the child before it looks at what kind of event the child is.\<close>

definition check_tensor_in_accumulategrad :: "torch_fields \<Rightarrow> ProfilerEvent \<Rightarrow> bool res" where
  "check_tensor_in_accumulategrad node child =
     (if \<not> (tf_scope node = 1
             \<and> tf_name node \<in> {''torch::autograd::AccumulateGrad'', ''struct torch::autograd::AccumulateGrad''})
      then Inr False
      else case pv_fields child of
             TorchOp f \<Rightarrow>
               Inr (tf_name f \<in> {''aten::detach'', ''aten::add_''} \<and>
                    (case tf_inputs f of InTensor (Some _) # _ \<Rightarrow> True | _ \<Rightarrow> False))
           | _ \<Rightarrow> Inl AttributeError)"

definition module_keys :: "EventTree \<Rightarrow> nat \<Rightarrow> nat \<times> ModuleParam option \<Rightarrow> (TensorKey option \<times> TensorKey option) res" where
  "module_keys T i kp =
     (case snd kp of
        None \<Rightarrow> Inl AttributeError
      | Some p \<Rightarrow> Inr (from_tensor T (i, fst kp, 0) (mp_tensor p), from_tensor T (i, fst kp, 1) (mp_grad p)))"

definition optimizer_keys :: "EventTree \<Rightarrow> nat \<Rightarrow> nat \<times> OptimizerParam option \<Rightarrow> (TensorKey option \<times> TensorKey option) res" where
  "optimizer_keys T i kp =
     (case snd kp of
        None \<Rightarrow> Inl AttributeError
      | Some p \<Rightarrow> Inr (from_tensor T (i, fst kp, 0) (opt_tensor p), from_tensor T (i, fst kp, 1) (opt_grad p)))"

definition extract_parameters_and_gradients :: "EventTree \<Rightarrow> nat \<Rightarrow> (TensorKey option \<times> TensorKey option) list res" where
  "extract_parameters_and_gradients T i =
     (case pv_fields (event_at T i) of
        TorchOp f \<Rightarrow>
          (case et_children T ! i of
             [] \<Rightarrow> Inr []
           | c # _ \<Rightarrow>
               rbind (check_tensor_in_accumulategrad f (event_at T c)) (\<lambda>b.
                 if \<not> b then Inr []
                 else case pv_fields (event_at T c) of
                        TorchOp g \<Rightarrow> (case tf_inputs g of InTensor t # _ \<Rightarrow> Inr [(None, from_tensor T (c, 0, 0) t)] | _ \<Rightarrow> Inr [])
                      | _ \<Rightarrow> Inr []))
      | Allocation _ \<Rightarrow> Inr []
      | PyCall f \<Rightarrow>
          rbind (case pf_module_parameters f of None \<Rightarrow> Inr [] | Some ps \<Rightarrow> rmap (module_keys T i) (enumerate 0 ps)) (\<lambda>ms.
          rbind (case pf_optimizer_parameters f of None \<Rightarrow> Inr [] | Some ps \<Rightarrow> rmap (optimizer_keys T i) (enumerate 0 ps)) (\<lambda>os.
            Inr (ms @ os))))"

definition extract_parameters :: "EventTree \<Rightarrow> nat \<Rightarrow> TensorKey list res" where
  "extract_parameters T i = rbind (extract_parameters_and_gradients T i) (\<lambda>ps. Inr (List.map_filter fst ps))"

definition extract_gradients :: "EventTree \<Rightarrow> nat \<Rightarrow> TensorKey list res" where
  "extract_gradients T i = rbind (extract_parameters_and_gradients T i) (\<lambda>ps. Inr (List.map_filter snd ps))"

text \<open>The scopes on the way to the root.  Parents come before their children, so as many steps as there are events suffice.\<close>

primrec scopes_up :: "nat \<Rightarrow> EventTree \<Rightarrow> nat option \<Rightarrow> int list" where
  "scopes_up 0 T event = []"
| "scopes_up (Suc n) T event =
     (case event of
        None \<Rightarrow> []
      | Some i \<Rightarrow>
          (case pv_fields (event_at T i) of TorchOp f \<Rightarrow> [tf_scope f] | _ \<Rightarrow> []) @ scopes_up n T (et_parent T ! i))"

definition get_scopes :: "EventTree \<Rightarrow> nat option \<Rightarrow> int list" where
  "get_scopes T event = scopes_up (Suc (length (et_events T))) T event"

section \<open>Sizes of storages\<close>

definition num_bytes :: "TensorMetadata \<Rightarrow> int" where
  "num_bytes t = foldl (*) (md_dtype_size t) (md_sizes t)"

definition update_size_dict ::
  "EventTree \<Rightarrow> tensor_ref \<times> TensorMetadata option \<Rightarrow> (TensorKey \<Rightarrow> int option) \<Rightarrow> (TensorKey \<Rightarrow> int option)" where
  "update_size_dict T rt d =
     (case (from_tensor T (fst rt) (snd rt), snd rt) of
        (Some key, Some t) \<Rightarrow> d(key \<mapsto> max (case d key of Some n \<Rightarrow> n | None \<Rightarrow> 0) (num_bytes t))
      | _ \<Rightarrow> d)"

definition input_tensors :: "nat \<Rightarrow> nat \<Rightarrow> op_input \<Rightarrow> (tensor_ref \<times> TensorMetadata option) list" where
  "input_tensors i k x =
     (case x of
        InTensor (Some t) \<Rightarrow> [((i, k, 0), Some t)]
      | InTensor None \<Rightarrow> []
      | InList ts \<Rightarrow> map (\<lambda>(j, t). ((i, k, j), t)) (enumerate 0 ts)
      | InText _ \<Rightarrow> [])"

definition flat_tensor_inputs :: "nat \<Rightarrow> torch_fields \<Rightarrow> (tensor_ref \<times> TensorMetadata option) list" where
  "flat_tensor_inputs i f = concat (map (\<lambda>(k, x). input_tensors i k x) (enumerate 0 (tf_inputs f)))"

definition module_tensors :: "nat \<Rightarrow> nat \<times> ModuleParam option \<Rightarrow> (tensor_ref \<times> TensorMetadata option) list res" where
  "module_tensors i kp =
     (case snd kp of
        None \<Rightarrow> Inl AttributeError
      | Some p \<Rightarrow> Inr [((i, fst kp, 0), mp_tensor p), ((i, fst kp, 1), mp_grad p)])"

definition optimizer_tensors :: "nat \<Rightarrow> nat \<times> OptimizerParam option \<Rightarrow> (tensor_ref \<times> TensorMetadata option) list res" where
  "optimizer_tensors i kp =
     (case snd kp of
        None \<Rightarrow> Inl AttributeError
      | Some p \<Rightarrow>
          (case opt_state p of
             None \<Rightarrow> Inl TypeError
           | Some st \<Rightarrow> Inr (((i, fst kp, 0), opt_tensor p) # ((i, fst kp, 1), opt_grad p)
                              # map (\<lambda>(j, _, t). ((i, fst kp, j), t)) (enumerate 2 st))))"

definition event_tensors :: "EventTree \<Rightarrow> nat \<Rightarrow> (tensor_ref \<times> TensorMetadata option) list res" where
  "event_tensors T i =
     (case pv_fields (event_at T i) of
        TorchOp f \<Rightarrow> Inr (flat_tensor_inputs i f)
      | Allocation _ \<Rightarrow> Inr []
      | PyCall f \<Rightarrow>
          (case (pf_module_parameters f, pf_optimizer_parameters f) of
             (Some ps, _) \<Rightarrow> rbind (rmap (module_tensors i) (enumerate 0 ps)) (\<lambda>xs. Inr (concat xs))
           | (None, Some ps) \<Rightarrow> rbind (rmap (optimizer_tensors i) (enumerate 0 ps)) (\<lambda>xs. Inr (concat xs))
           | (None, None) \<Rightarrow> Inr []))"

definition add_allocation :: "EventTree \<Rightarrow> nat \<Rightarrow> (TensorKey \<Rightarrow> int option) \<Rightarrow> (TensorKey \<Rightarrow> int option)" where
  "add_allocation T i d =
     (case pv_fields (event_at T i) of
        Allocation a \<Rightarrow>
          (case from_allocation T i a of
             Some key \<Rightarrow> (if d key = None then d(key \<mapsto> \<bar>af_alloc_size a\<bar>) else d)
           | None \<Rightarrow> d)
      | _ \<Rightarrow> d)"

definition storage_size_dict :: "EventTree \<Rightarrow> (TensorKey \<Rightarrow> int option) res" where
  "storage_size_dict T =
     rbind (rmap (event_tensors T) [0..<length (et_events T)]) (\<lambda>xss.
       Inr (fold (update_size_dict T) (concat xss) (\<lambda>_. None)
            ++ fold (add_allocation T) [0..<length (et_events T)] (\<lambda>_. None)))"

definition storage_size :: "(TensorKey \<Rightarrow> int option) \<Rightarrow> TensorKey \<Rightarrow> int" where
  "storage_size d key = (case d key of Some n \<Rightarrow> n | None \<Rightarrow> 0)"

section \<open>Schemas\<close>

text \<open>What the matcher asks of the type of an argument, in the order of its tests.\<close>

datatype schema_type = OptionalType schema_type | AnyType | TensorType | TensorListType | OtherType

type_synonym schema = "(schema_type \<times> bool) list"

record flow_lib =
  fl_traverse_dfs :: "(nat \<Rightarrow> nat list) \<Rightarrow> nat list \<Rightarrow> nat list"
  fl_schemas :: "string \<Rightarrow> schema list option"

datatype observed = ObservedKey TensorKey | ObservedNone | ObservedList "TensorKey option list" | ObservedText string

fun types_match :: "observed \<Rightarrow> schema_type \<Rightarrow> bool" where
  "types_match obs (OptionalType t) = (obs = ObservedText ''None'' \<or> types_match obs t)"
| "types_match obs AnyType = True"
| "types_match obs TensorType = (case obs of ObservedKey _ \<Rightarrow> True | _ \<Rightarrow> False)"
| "types_match obs TensorListType = (case obs of ObservedList ks \<Rightarrow> list_all (\<lambda>k. k \<noteq> None) ks | _ \<Rightarrow> False)"
| "types_match obs OtherType = (case obs of ObservedKey _ \<Rightarrow> False | ObservedList _ \<Rightarrow> False | _ \<Rightarrow> True)"

definition observe :: "EventTree \<Rightarrow> nat \<Rightarrow> nat \<times> op_input \<Rightarrow> observed" where
  "observe T i kx =
     (case snd kx of
        InTensor t \<Rightarrow> (case from_tensor T (i, fst kx, 0) t of Some key \<Rightarrow> ObservedKey key | None \<Rightarrow> ObservedNone)
      | InList ts \<Rightarrow> ObservedList (map (\<lambda>(j, t). from_tensor T (i, fst kx, j) t) (enumerate 0 ts))
      | InText s \<Rightarrow> ObservedText s)"

definition lookup_schemas :: "flow_lib \<Rightarrow> string \<Rightarrow> schema list option" where
  "lookup_schemas L name = (if \<not> str_in ''::'' name then None else fl_schemas L name)"

definition schema_matches :: "observed list \<Rightarrow> schema \<Rightarrow> bool" where
  "schema_matches signature schema \<longleftrightarrow>
     length schema = length signature \<and> list_all (\<lambda>(obs, arg). types_match obs (fst arg)) (zip signature schema)"

definition match_schemas :: "flow_lib \<Rightarrow> EventTree \<Rightarrow> nat \<Rightarrow> torch_fields \<Rightarrow> schema list" where
  "match_schemas L T i f =
     (case lookup_schemas L (tf_name f) of
        None \<Rightarrow> []
      | Some schemas \<Rightarrow> filter (schema_matches (map (observe T i) (enumerate 0 (tf_inputs f)))) schemas)"

definition merge_mutable :: "schema \<Rightarrow> bool list \<Rightarrow> bool list" where
  "merge_mutable schema mutable =
     map2 (\<or>) (if mutable = [] then replicate (length schema) False else mutable) (map snd schema)"

definition inputs_are_mutable :: "flow_lib \<Rightarrow> EventTree \<Rightarrow> nat \<Rightarrow> torch_fields \<Rightarrow> bool option list" where
  "inputs_are_mutable L T i f =
     (let mutable = fold merge_mutable (match_schemas L T i f) []
      in if mutable = [] then replicate (length (tf_inputs f)) None else map Some mutable)"

section \<open>The data flow graph\<close>

record DataFlowEdge =
  fe_input_version :: "nat option"
  fe_mutated :: "bool option"

definition new_edge :: DataFlowEdge where
  "new_edge = \<lparr>fe_input_version = None, fe_mutated = Some False\<rparr>"

definition is_allocation :: "DataFlowEdge \<Rightarrow> bool" where
  "is_allocation e \<longleftrightarrow> fe_input_version e = None"

definition is_deletion :: "DataFlowEdge \<Rightarrow> bool" where
  "is_deletion e \<longleftrightarrow> fe_mutated e = None"

type_synonym edges = "(TensorKey \<times> DataFlowEdge) list"
type_synonym versions = "TensorKey \<Rightarrow> nat option"

record DataFlowNode =
  fn_event :: nat
  fn_edges :: edges

definition edge_at :: "edges \<Rightarrow> TensorKey \<Rightarrow> DataFlowEdge" where
  "edge_at es key = (case map_of es key of Some e \<Rightarrow> e | None \<Rightarrow> new_edge)"

definition lookup_version :: "TensorKey \<Rightarrow> versions \<Rightarrow> nat \<times> versions" where
  "lookup_version key av = (case av key of Some v \<Rightarrow> (v, av) | None \<Rightarrow> (0, av(key \<mapsto> 0)))"

definition increase_version :: "TensorKey \<Rightarrow> versions \<Rightarrow> versions res" where
  "increase_version key av = (case av key of Some v \<Rightarrow> Inr (av(key \<mapsto> v + 1)) | None \<Rightarrow> Inl TypeError)"

definition children_of :: "EventTree \<Rightarrow> nat \<Rightarrow> nat list" where
  "children_of T i = et_children T ! i"

definition mutable_uses :: "flow_lib \<Rightarrow> EventTree \<Rightarrow> nat \<Rightarrow> (TensorKey option \<times> bool option) list" where
  "mutable_uses L T i =
     (case pv_fields (event_at T i) of
        TorchOp f \<Rightarrow>
          concat (map (\<lambda>((k, x), m). map (\<lambda>(pos, t). (from_tensor T pos t, m)) (input_tensors i k x))
                    (zip (enumerate 0 (tf_inputs f)) (inputs_are_mutable L T i f)))
      | _ \<Rightarrow> [])"

definition add_mutable ::
  "TensorKey option \<times> bool option \<Rightarrow> (TensorKey option \<times> bool option set) list \<Rightarrow> (TensorKey option \<times> bool option set) list" where
  "add_mutable km d =
     AList.update (fst km) (insert (snd km) (case map_of d (fst km) of Some s \<Rightarrow> s | None \<Rightarrow> {})) d"

definition input_edge :: "TensorKey option \<times> bool option set \<Rightarrow> edges \<times> versions \<Rightarrow> edges \<times> versions" where
  "input_edge ks st =
     (case fst ks of
        None \<Rightarrow> st
      | Some key \<Rightarrow>
          (case lookup_version key (snd st) of (v, av) \<Rightarrow>
             (AList.update key \<lparr>fe_input_version = Some v, fe_mutated = Some (Some True \<in> snd ks \<or> snd ks = {None})\<rparr> (fst st), av)))"

definition deletion_edge :: "EventTree \<Rightarrow> nat \<Rightarrow> edges \<times> versions \<Rightarrow> edges \<times> versions" where
  "deletion_edge T i st =
     (case pv_fields (event_at T i) of
        Allocation a \<Rightarrow>
          (if af_alloc_size a < 0
           then (case from_allocation T i a of
                   None \<Rightarrow> st
                 | Some key \<Rightarrow>
                     (case lookup_version key (snd st) of (v, av) \<Rightarrow>
                        (AList.update key \<lparr>fe_input_version = Some v, fe_mutated = None\<rparr> (fst st), av)))
           else st)
      | _ \<Rightarrow> st)"

definition allocation_edge :: "EventTree \<Rightarrow> nat \<Rightarrow> edges \<Rightarrow> edges" where
  "allocation_edge T i es =
     (case pv_fields (event_at T i) of
        Allocation a \<Rightarrow>
          (if af_alloc_size a > 0
           then (case from_allocation T i a of
                   None \<Rightarrow> es
                 | Some key \<Rightarrow> AList.update key ((edge_at es key)\<lparr>fe_input_version := None\<rparr>) es)
           else es)
      | _ \<Rightarrow> es)"

definition determine_edges :: "flow_lib \<Rightarrow> EventTree \<Rightarrow> nat \<Rightarrow> versions \<Rightarrow> edges \<times> versions" where
  "determine_edges L T i av =
     (let subtree = fl_traverse_dfs L (children_of T) [i];
          mutable_by_key = fold add_mutable (concat (map (mutable_uses L T) subtree)) [];
          st1 = fold input_edge mutable_by_key ([], av);
          st2 = fold (deletion_edge T) subtree st1
      in (sort_key fst (fold (allocation_edge T) subtree (fst st2)), snd st2))"

fun bump_versions :: "edges \<Rightarrow> versions \<Rightarrow> versions res" where
  "bump_versions [] av = Inr av"
| "bump_versions ((key, e) # es) av =
     (if fe_mutated e = Some True \<and> \<not> is_allocation e
      then rbind (increase_version key av) (bump_versions es)
      else bump_versions es av)"

definition data_flow_node :: "flow_lib \<Rightarrow> EventTree \<Rightarrow> nat \<Rightarrow> versions \<Rightarrow> (DataFlowNode \<times> versions) res" where
  "data_flow_node L T i av =
     (case determine_edges L T i av of (es, av1) \<Rightarrow>
        rbind (bump_versions es av1) (\<lambda>av2. Inr (\<lparr>fn_event = i, fn_edges = es\<rparr>, av2)))"

definition fn_inputs :: "DataFlowNode \<Rightarrow> (TensorKey \<times> nat) list" where
  "fn_inputs n = List.map_filter (\<lambda>(key, e). map_option (Pair key) (fe_input_version e)) (fn_edges n)"

definition fn_outputs :: "DataFlowNode \<Rightarrow> (TensorKey \<times> nat) list" where
  "fn_outputs n =
     map (\<lambda>(key, e). (key, case fe_input_version e of None \<Rightarrow> 0 | Some v \<Rightarrow> v + 1))
       (filter (\<lambda>(key, e). is_allocation e \<and> \<not> is_deletion e \<or> fe_mutated e = Some True) (fn_edges n))"

definition fn_intermediates :: "DataFlowNode \<Rightarrow> TensorKey list" where
  "fn_intermediates n = map fst (filter (\<lambda>(key, e). is_allocation e \<and> is_deletion e) (fn_edges n))"

definition leaf_op :: "flow_lib \<Rightarrow> EventTree \<Rightarrow> nat \<Rightarrow> bool" where
  "leaf_op L T i =
     (case pv_fields (event_at T i) of
        TorchOp f \<Rightarrow> tf_scope f = 1 \<or> match_schemas L T i f \<noteq> []
      | _ \<Rightarrow> False)"

definition leaf_event :: "flow_lib \<Rightarrow> EventTree \<Rightarrow> nat \<Rightarrow> bool" where
  "leaf_event L T i \<longleftrightarrow> leaf_op L T i \<or> (case pv_fields (event_at T i) of Allocation _ \<Rightarrow> True | _ \<Rightarrow> False)"

definition get_children :: "flow_lib \<Rightarrow> EventTree \<Rightarrow> nat \<Rightarrow> nat list" where
  "get_children L T i = (if leaf_event L T i then [] else children_of T i)"

definition start_of :: "EventTree \<Rightarrow> nat \<Rightarrow> int" where
  "start_of T i = pv_start_ns (event_at T i)"

definition extract_leaf_events :: "flow_lib \<Rightarrow> EventTree \<Rightarrow> nat list \<Rightarrow> nat list" where
  "extract_leaf_events L T root_nodes =
     sort_key (start_of T) (filter (leaf_event L T) (fl_traverse_dfs L (get_children L T) root_nodes))"

fun flow_nodes_from :: "flow_lib \<Rightarrow> EventTree \<Rightarrow> nat list \<Rightarrow> versions \<Rightarrow> DataFlowNode list res" where
  "flow_nodes_from L T [] av = Inr []"
| "flow_nodes_from L T (i # is) av =
     rbind (data_flow_node L T i av) (\<lambda>(n, av1). rbind (flow_nodes_from L T is av1) (\<lambda>ns. Inr (n # ns)))"

definition flow_nodes :: "flow_lib \<Rightarrow> EventTree \<Rightarrow> DataFlowNode list res" where
  "flow_nodes L T =
     rbind (flow_nodes_from L T (extract_leaf_events L T (get_root_nodes T)) (\<lambda>_. None)) (\<lambda>ns.
       Inr (sort_key (\<lambda>n. start_of T (fn_event n)) ns))"

text \<open>Whether \<open>validate\<close> warns: a node makes a version on the device that an earlier node has made.\<close>

fun flow_warns :: "(TensorKey \<times> nat) list \<Rightarrow> DataFlowNode list \<Rightarrow> bool" where
  "flow_warns seen [] = False"
| "flow_warns seen (n # ns) =
     (list_ex (\<lambda>kv. kv \<in> set seen \<and> tk_device_type (fst kv) = 20) (fn_outputs n) \<or> flow_warns (seen @ fn_outputs n) ns)"

end
