(* ===== verification/Memory_Timeline.thy ===== *)
theory Memory_Timeline
  imports Memory_Flow "HOL-Library.Log_Nat"
begin

text \<open>
  The memory timeline, second part of \<open>prof_view/_memory_timeline_parser.py\<close>: the categories of tensors and the
  passes that set them, the timeline of creations, changes and releases, and its exports.

  Python sets of keys, versions and ids are sets; no result depends on the order of an iteration over one of them,
  because each such iteration only adds to a set or sets one category.  A dictionary that is iterated is an
  association list.
\<close>

section \<open>Categories\<close>

datatype Category = INPUT | TEMPORARY | ACTIVATION | GRADIENT | AUTOGRAD_DETAIL | PARAMETER | OPTIMIZER_STATE

record CategoryElement =
  ce_by_id :: "Category option"
  ce_by_key :: "TensorKey \<Rightarrow> Category option"
  ce_by_version :: "TensorKey \<times> nat \<Rightarrow> Category option"
  ce_by_id_keyset :: "TensorKey list"

type_synonym CategoryDict = "(nat \<times> CategoryElement) list"

definition new_element :: CategoryElement where
  "new_element = \<lparr>ce_by_id = None, ce_by_key = (\<lambda>_. None), ce_by_version = (\<lambda>_. None), ce_by_id_keyset = []\<rparr>"

definition element_at :: "CategoryDict \<Rightarrow> nat \<Rightarrow> CategoryElement" where
  "element_at d i = (case map_of d i of Some e \<Rightarrow> e | None \<Rightarrow> new_element)"

definition set_by_id :: "TensorKey \<Rightarrow> Category \<Rightarrow> CategoryDict \<Rightarrow> CategoryDict" where
  "set_by_id key category d =
     (let e = element_at d (tk_id key)
      in AList.update (tk_id key) (e\<lparr>ce_by_id := Some category, ce_by_id_keyset := List.insert key (ce_by_id_keyset e)\<rparr>) d)"

definition set_by_key :: "TensorKey \<Rightarrow> Category \<Rightarrow> CategoryDict \<Rightarrow> CategoryDict" where
  "set_by_key key category d =
     (let e = element_at d (tk_id key) in AList.update (tk_id key) (e\<lparr>ce_by_key := (ce_by_key e)(key \<mapsto> category)\<rparr>) d)"

definition setdefault_by_version :: "Category \<Rightarrow> TensorKey \<times> nat \<Rightarrow> CategoryDict \<Rightarrow> CategoryDict" where
  "setdefault_by_version category kv d =
     (let e = element_at d (tk_id (fst kv))
      in if ce_by_version e kv = None
         then AList.update (tk_id (fst kv)) (e\<lparr>ce_by_version := (ce_by_version e)(kv \<mapsto> category)\<rparr>) d
         else AList.update (tk_id (fst kv)) e d)"

definition category_get :: "CategoryDict \<Rightarrow> TensorKey \<times> nat \<Rightarrow> Category option" where
  "category_get d kv =
     (let e = element_at d (tk_id (fst kv))
      in case ce_by_id e of
           Some c \<Rightarrow> Some c
         | None \<Rightarrow> (case ce_by_key e (fst kv) of Some c \<Rightarrow> Some c | None \<Rightarrow> ce_by_version e kv))"

definition is_gradient :: "CategoryDict \<Rightarrow> TensorKey \<times> nat \<Rightarrow> bool" where
  "is_gradient d kv \<longleftrightarrow> category_get d kv = Some GRADIENT"

definition is_backward :: "EventTree \<Rightarrow> nat \<Rightarrow> bool" where
  "is_backward T i \<longleftrightarrow> 1 \<in> set (get_scopes T (Some i))"

section \<open>The passes\<close>

definition node_versions :: "DataFlowNode \<Rightarrow> (TensorKey \<times> nat) list" where
  "node_versions n = fn_inputs n @ map (\<lambda>key. (key, 0)) (fn_intermediates n) @ fn_outputs n"

definition category_snapshot :: "DataFlowNode list \<Rightarrow> CategoryDict \<Rightarrow> (TensorKey \<times> nat) list" where
  "category_snapshot ns d =
     sort (remdups (concat (map node_versions ns) @ concat (map (\<lambda>(i, e). map (\<lambda>key. (key, 0)) (ce_by_id_keyset e)) d)))"

definition model_relevant :: "CategoryDict \<Rightarrow> TensorKey \<times> nat \<Rightarrow> bool" where
  "model_relevant d kv \<longleftrightarrow> category_get d kv \<in> {Some GRADIENT, Some PARAMETER}"

definition node_depends :: "CategoryDict \<Rightarrow> DataFlowNode \<Rightarrow> nat set \<Rightarrow> nat set" where
  "node_depends d n D =
     (let ids = map (tk_id \<circ> fst) (filter (\<lambda>kv. model_relevant d kv \<or> tk_id (fst kv) \<in> D) (fn_inputs n))
      in if ids \<noteq> [] then D \<union> set ids \<union> set (map (tk_id \<circ> fst) (fn_outputs n)) else D)"

definition depends_round :: "CategoryDict \<Rightarrow> DataFlowNode list \<Rightarrow> nat set \<Rightarrow> nat set" where
  "depends_round d ns D = fold (node_depends d) ns D"

definition graph_ids :: "DataFlowNode list \<Rightarrow> nat set" where
  "graph_ids ns = (\<Union>n \<in> set ns. tk_id ` fst ` (set (fn_inputs n) \<union> set (fn_outputs n)))"

lemma node_depends_grows: "D \<subseteq> node_depends d n D"
  by (auto simp: node_depends_def Let_def)

lemma node_depends_ids: "node_depends d n D \<subseteq> D \<union> graph_ids [n]"
  by (auto simp: node_depends_def graph_ids_def Let_def)

lemma graph_ids_Cons: "graph_ids (n # ns) = graph_ids [n] \<union> graph_ids ns"
  by (simp add: graph_ids_def)

lemma depends_round_grows: "D \<subseteq> depends_round d ns D"
  unfolding depends_round_def by (induction ns arbitrary: D) (use node_depends_grows in \<open>auto, blast\<close>)

lemma depends_round_ids: "depends_round d ns D \<subseteq> D \<union> graph_ids ns"
proof (induction ns arbitrary: D)
  case Nil
  then show ?case by (simp add: depends_round_def)
next
  case (Cons n ns)
  have "depends_round d (n # ns) D = depends_round d ns (node_depends d n D)" by (simp add: depends_round_def)
  then show ?case using Cons [of "node_depends d n D"] node_depends_ids [of d n D] unfolding graph_ids_Cons [of n ns] by blast
qed

lemma finite_graph_ids [simp]: "finite (graph_ids ns)"
  by (simp add: graph_ids_def)

text \<open>The loop ends when a round adds nothing, which the code sees by the size of the set.\<close>

function depends_loop :: "CategoryDict \<Rightarrow> DataFlowNode list \<Rightarrow> nat set \<Rightarrow> nat set" where
  "depends_loop d ns D =
     (let D1 = depends_round d ns D in if card D1 = card D then D1 else depends_loop d ns D1)"
  by pat_completeness auto
termination
proof (relation "measure (\<lambda>(d, ns, D). card (graph_ids ns - D))")
  fix d ns D D1
  assume D1: "D1 = depends_round d ns D" and "card D1 \<noteq> card D"
  then have "D \<noteq> D1" by auto
  then have "D \<subset> D1" using depends_round_grows [of D d ns] D1 by auto
  moreover have "D1 \<subseteq> D \<union> graph_ids ns" using depends_round_ids [of d ns D] D1 by simp
  ultimately have "graph_ids ns - D1 \<subset> graph_ids ns - D" by blast
  then show "((d, ns, D1), d, ns, D) \<in> measure (\<lambda>(d, ns, D). card (graph_ids ns - D))"
    by (simp add: psubset_card_mono)
qed simp

declare depends_loop.simps [simp del]

definition any_version_depends_on_gradient :: "CategoryDict \<Rightarrow> DataFlowNode list \<Rightarrow> nat set" where
  "any_version_depends_on_gradient d ns = depends_loop d ns {}"

definition set_ids :: "Category \<Rightarrow> TensorKey list \<Rightarrow> CategoryDict \<Rightarrow> CategoryDict" where
  "set_ids category keys d = fold (\<lambda>key. set_by_id key category) keys d"

definition set_gradients_and_temporaries ::
  "flow_lib \<Rightarrow> EventTree \<Rightarrow> DataFlowNode list \<Rightarrow> CategoryDict \<Rightarrow> CategoryDict res" where
  "set_gradients_and_temporaries L T ns d =
     rbind (rmap (extract_gradients T) (fl_traverse_dfs L (children_of T) (get_root_nodes T))) (\<lambda>gs.
       Inr (fold (\<lambda>key. set_by_key key TEMPORARY) (concat (map fn_intermediates ns)) (set_ids GRADIENT (concat gs) d)))"

definition set_parameters_using_python_tracer :: "flow_lib \<Rightarrow> EventTree \<Rightarrow> CategoryDict \<Rightarrow> CategoryDict res" where
  "set_parameters_using_python_tracer L T d =
     rbind (rmap (extract_parameters T) (fl_traverse_dfs L (children_of T) (get_root_nodes T))) (\<lambda>ps.
       Inr (set_ids PARAMETER (concat ps) d))"

definition node_tensors :: "DataFlowNode \<Rightarrow> (TensorKey \<times> nat) set" where
  "node_tensors n = set (fn_inputs n) \<union> set (fn_outputs n)"

definition produces_step :: "CategoryDict \<Rightarrow> DataFlowNode \<Rightarrow> (TensorKey \<times> nat) set \<Rightarrow> (TensorKey \<times> nat) set" where
  "produces_step d n P =
     (if \<exists>kv \<in> node_tensors n. model_relevant d kv \<or> kv \<in> P then P \<union> node_tensors n else P)"

definition input_candidates :: "EventTree \<Rightarrow> CategoryDict \<Rightarrow> DataFlowNode list \<Rightarrow> (TensorKey \<times> nat) list" where
  "input_candidates T d ns =
     (let produces_gradient = fold (produces_step d) (rev ns) {};
          made_backward = \<Union> (set (map (\<lambda>n. if is_backward T (fn_event n) then set (fn_outputs n) else {}) ns))
      in filter (\<lambda>kv. kv \<in> produces_gradient - made_backward) (remdups (concat (map (\<lambda>n. fn_inputs n @ fn_outputs n) ns))))"

definition set_inputs :: "EventTree \<Rightarrow> DataFlowNode list \<Rightarrow> CategoryDict \<Rightarrow> CategoryDict" where
  "set_inputs T ns d =
     (let depends_on_gradient = any_version_depends_on_gradient d ns
      in fold (setdefault_by_version INPUT) (filter (\<lambda>kv. tk_id (fst kv) \<notin> depends_on_gradient) (input_candidates T d ns)) d)"

definition forward_step ::
  "EventTree \<Rightarrow> CategoryDict \<Rightarrow> DataFlowNode \<Rightarrow> (TensorKey \<times> nat) set \<times> (TensorKey \<times> nat) set
     \<Rightarrow> (TensorKey \<times> nat) set \<times> (TensorKey \<times> nat) set" where
  "forward_step T d n st =
     (case st of (fwd, params) \<Rightarrow>
        (if \<not> is_backward T (fn_event n) \<and> \<not> (\<exists>kv \<in> node_tensors n. is_gradient d kv) \<and> fwd \<inter> set (fn_inputs n) \<noteq> {}
         then let fwd1 = fwd \<union> set (fn_outputs n) in (fwd1, params \<union> (set (fn_inputs n) - fwd1))
         else (fwd, params)))"

definition used_step :: "CategoryDict \<Rightarrow> DataFlowNode \<Rightarrow> (TensorKey \<times> nat) set \<Rightarrow> (TensorKey \<times> nat) set" where
  "used_step d n U = (if \<exists>kv \<in> set (fn_outputs n). is_gradient d kv \<or> kv \<in> U then U \<union> set (fn_inputs n) else U)"

definition set_parameters_using_data_flow :: "EventTree \<Rightarrow> DataFlowNode list \<Rightarrow> CategoryDict \<Rightarrow> CategoryDict" where
  "set_parameters_using_data_flow T ns d =
     (let snapshot = category_snapshot ns d;
          candidate_fwd_tensors = set (filter (\<lambda>kv. category_get d kv = Some INPUT) snapshot);
          candidate_parameters = snd (fold (forward_step T d) ns (candidate_fwd_tensors, {}));
          used_for_gradient = fold (used_step d) (rev ns) {};
          parameter_keys = tk_id ` fst ` (candidate_parameters \<inter> used_for_gradient) \<inter> any_version_depends_on_gradient d ns
      in set_ids PARAMETER (filter (\<lambda>key. tk_id key \<in> parameter_keys) (map fst snapshot)) d)"

definition activation_step :: "EventTree \<Rightarrow> DataFlowNode \<Rightarrow> CategoryDict \<Rightarrow> CategoryDict" where
  "activation_step T n d =
     (let input_categories = category_get d ` set (fn_inputs n)
      in if input_categories \<inter> {Some INPUT, Some ACTIVATION} \<noteq> {}
            \<and> input_categories - {Some INPUT, Some ACTIVATION, Some PARAMETER, Some TEMPORARY} = {}
            \<and> \<not> is_backward T (fn_event n)
         then fold (setdefault_by_version ACTIVATION) (fn_outputs n) d
         else d)"

definition set_activations :: "EventTree \<Rightarrow> DataFlowNode list \<Rightarrow> CategoryDict \<Rightarrow> CategoryDict" where
  "set_activations T ns d = fold (activation_step T) ns d"

definition state_keys :: "EventTree \<Rightarrow> nat \<Rightarrow> nat \<times> OptimizerParam option \<Rightarrow> TensorKey list res" where
  "state_keys T i kp =
     (case snd kp of
        None \<Rightarrow> Inl AttributeError
      | Some p \<Rightarrow>
          (case opt_state p of
             None \<Rightarrow> Inl TypeError
           | Some st \<Rightarrow> Inr (List.map_filter (\<lambda>(j, _, t). from_tensor T (i, fst kp, j) t) (enumerate 2 st))))"

definition event_state_keys :: "EventTree \<Rightarrow> nat \<Rightarrow> TensorKey list res" where
  "event_state_keys T i =
     (case pv_fields (event_at T i) of
        PyCall f \<Rightarrow>
          (case pf_optimizer_parameters f of
             None \<Rightarrow> Inr []
           | Some ps \<Rightarrow> rbind (rmap (state_keys T i) (enumerate 0 ps)) (\<lambda>kss. Inr (concat kss)))
      | _ \<Rightarrow> Inr [])"

definition set_optimizer_state :: "flow_lib \<Rightarrow> EventTree \<Rightarrow> CategoryDict \<Rightarrow> CategoryDict res" where
  "set_optimizer_state L T d =
     rbind (rmap (event_state_keys T) (fl_traverse_dfs L (children_of T) (get_root_nodes T))) (\<lambda>kss.
       Inr (set_ids OPTIMIZER_STATE (concat kss) d))"

definition detail_step :: "TensorKey \<times> nat \<Rightarrow> CategoryDict \<Rightarrow> CategoryDict" where
  "detail_step kv d =
     (case kv of (key, version) \<Rightarrow>
        (if version = 0 \<or> category_get d (key, version - 1) \<in> {None, Some AUTOGRAD_DETAIL}
         then setdefault_by_version AUTOGRAD_DETAIL kv d else d))"

definition set_autograd_detail :: "EventTree \<Rightarrow> DataFlowNode list \<Rightarrow> CategoryDict \<Rightarrow> CategoryDict" where
  "set_autograd_detail T ns d =
     fold (\<lambda>n d. if is_backward T (fn_event n) then fold detail_step (fn_outputs n) d else d) ns d"

record MemoryProfile =
  mp_event_tree :: EventTree
  mp_flow_nodes :: "DataFlowNode list"
  mp_size_dict :: "TensorKey \<Rightarrow> int option"
  mp_categories :: CategoryDict

definition memory_profile :: "flow_lib \<Rightarrow> EventTree \<Rightarrow> MemoryProfile res" where
  "memory_profile L T =
     rbind (flow_nodes L T) (\<lambda>ns.
     rbind (storage_size_dict T) (\<lambda>sizes.
     rbind (set_gradients_and_temporaries L T ns []) (\<lambda>d1.
     rbind (set_parameters_using_python_tracer L T d1) (\<lambda>d2.
     rbind (set_optimizer_state L T (set_activations T ns (set_parameters_using_data_flow T ns (set_inputs T ns d2)))) (\<lambda>d3.
       Inr \<lparr>mp_event_tree = T, mp_flow_nodes = ns, mp_size_dict = sizes, mp_categories = set_autograd_detail T ns d3\<rparr>)))))"

section \<open>The timeline\<close>

datatype Action = PREEXISTING | CREATE | INCREMENT_VERSION | DESTROY

fun action_index :: "Action \<Rightarrow> int" where
  "action_index PREEXISTING = 0"
| "action_index CREATE = 1"
| "action_index INCREMENT_VERSION = 2"
| "action_index DESTROY = 3"

type_synonym DeviceKey = "int \<times> int"

text \<open>The key of a row is a tensor's, or a device's for memory that belongs to no tensor.\<close>

datatype row_key = OfTensor TensorKey | OfDevice DeviceKey

type_synonym timeline_row = "int \<times> Action \<times> (row_key \<times> nat) \<times> int"

definition device_of :: "row_key \<Rightarrow> DeviceKey" where
  "device_of k = (case k of OfTensor t \<Rightarrow> (tk_device_type t, tk_device_index t) | OfDevice dev \<Rightarrow> dev)"

definition mem_events :: "flow_lib \<Rightarrow> EventTree \<Rightarrow> nat list" where
  "mem_events L T =
     filter (\<lambda>i. case pv_fields (event_at T i) of Allocation _ \<Rightarrow> True | _ \<Rightarrow> False)
       (fl_traverse_dfs L (children_of T) (get_root_nodes T))"

record alloc_scan =
  as_output :: "timeline_row list"
  as_times :: "TensorKey \<times> bool \<Rightarrow> int option"
  as_live :: "(int \<times> DeviceKey) set"

definition scan_allocation :: "EventTree \<Rightarrow> nat \<Rightarrow> alloc_scan \<Rightarrow> alloc_scan" where
  "scan_allocation T i st =
     (case pv_fields (event_at T i) of
        Allocation a \<Rightarrow>
          (let ts = start_of T i; is_alloc = af_alloc_size a > 0
           in case from_allocation T i a of
                Some tkey \<Rightarrow> st\<lparr>as_times := (as_times st)((tkey, is_alloc) \<mapsto> ts)\<rparr>
              | None \<Rightarrow>
                  (let dev = (af_device_type a, af_device_index a); place = (af_ptr a, dev)
                   in if is_alloc
                      then if place \<in> as_live st
                           then st\<lparr>as_output := as_output st @ [(ts, INCREMENT_VERSION, (OfDevice dev, 0), af_alloc_size a)]\<rparr>
                           else st\<lparr>as_output := as_output st @ [(ts, CREATE, (OfDevice dev, 0), af_alloc_size a)],
                                   as_live := insert place (as_live st)\<rparr>
                      else st\<lparr>as_output := as_output st @ (ts, DESTROY, (OfDevice dev, 0), - af_alloc_size a)
                                # (if place \<in> as_live st then [] else [(-1, PREEXISTING, (OfDevice dev, 0), - af_alloc_size a)]),
                              as_live := as_live st - {place}\<rparr>))
      | _ \<Rightarrow> st)"

definition scan_start :: alloc_scan where
  "scan_start = \<lparr>as_output = [], as_times = (\<lambda>_. None), as_live = {}\<rparr>"

definition scan_allocations :: "flow_lib \<Rightarrow> EventTree \<Rightarrow> alloc_scan" where
  "scan_allocations L T = fold (scan_allocation T) (sort_key (start_of T) (mem_events L T)) scan_start"

definition last_version :: "(TensorKey \<times> nat) list \<Rightarrow> TensorKey \<Rightarrow> nat option" where
  "last_version snapshot = fold (\<lambda>(key, v) m. m(key \<mapsto> v)) snapshot (\<lambda>_. None)"

text \<open>A time that was never recorded is \<open>None\<close>, which cannot be compared with the others.\<close>

definition time_of :: "int option \<Rightarrow> int res" where
  "time_of t = (case t of Some t \<Rightarrow> Inr t | None \<Rightarrow> Inl TypeError)"

definition edge_events ::
  "EventTree \<Rightarrow> (TensorKey \<times> bool \<Rightarrow> int option) \<Rightarrow> (TensorKey \<Rightarrow> nat option) \<Rightarrow> nat \<Rightarrow> TensorKey \<times> DataFlowEdge
     \<Rightarrow> (int \<times> Action \<times> TensorKey \<times> nat) list res" where
  "edge_events T recorded lastv i ke =
     (case ke of (key, e) \<Rightarrow>
        rbind (if is_allocation e then rbind (time_of (recorded (key, True))) (\<lambda>ts. Inr [(ts, CREATE, key, 0)])
               else case (fe_mutated e, fe_input_version e) of
                      (Some True, Some v) \<Rightarrow> Inr [(start_of T i, INCREMENT_VERSION, key, v)]
                    | _ \<Rightarrow> Inr []) (\<lambda>made.
        rbind (if is_deletion e
               then (case lastv key of
                       None \<Rightarrow> Inl KeyError
                     | Some v \<Rightarrow> rbind (time_of (recorded (key, False))) (\<lambda>ts. Inr [(ts, DESTROY, key, v)]))
               else Inr []) (\<lambda>freed.
          Inr (made @ freed))))"

definition node_events ::
  "EventTree \<Rightarrow> (TensorKey \<times> bool \<Rightarrow> int option) \<Rightarrow> (TensorKey \<Rightarrow> nat option) \<Rightarrow> DataFlowNode
     \<Rightarrow> (int \<times> Action \<times> TensorKey \<times> nat) list res" where
  "node_events T recorded lastv n = rbind (rmap (edge_events T recorded lastv (fn_event n)) (fn_edges n)) (\<lambda>xs. Inr (concat xs))"

definition tensor_events :: "flow_lib \<Rightarrow> MemoryProfile \<Rightarrow> (int \<times> Action \<times> TensorKey \<times> nat) list res" where
  "tensor_events L mp =
     (let T = mp_event_tree mp; recorded = as_times (scan_allocations L T);
          snapshot = category_snapshot (mp_flow_nodes mp) (mp_categories mp)
      in rbind (rmap (node_events T recorded (last_version snapshot)) (mp_flow_nodes mp)) (\<lambda>xs.
           Inr (map (\<lambda>(key, v). (-1, PREEXISTING, key, v)) (filter (\<lambda>(key, v). recorded (key, True) = None \<and> v = 0) snapshot)
                @ concat xs)))"

definition timeline :: "flow_lib \<Rightarrow> MemoryProfile \<Rightarrow> timeline_row list res" where
  "timeline L mp =
     rbind (tensor_events L mp) (\<lambda>events.
       Inr (sort_key (\<lambda>(ts, action, _). (ts, action_index action))
              (as_output (scan_allocations L (mp_event_tree mp))
               @ map (\<lambda>(ts, action, key, v). (ts, action, (OfTensor key, v), storage_size (mp_size_dict mp) key)) events)))"

definition memory_history :: "flow_lib \<Rightarrow> MemoryProfile \<Rightarrow> (DeviceKey \<times> int \<times> int \<times> int) list" where
  "memory_history L mp =
     List.map_filter (\<lambda>i. case pv_fields (event_at (mp_event_tree mp) i) of
         Allocation a \<Rightarrow> Some ((af_device_type a, af_device_index a), af_total_active a, af_total_allocated a, af_total_reserved a)
       | _ \<Rightarrow> None)
       (fl_traverse_dfs L (children_of (mp_event_tree mp)) (get_root_nodes (mp_event_tree mp)))"

section \<open>Exports\<close>

text \<open>\<open>int(a / b)\<close>: the quotient of two integers is rounded to the nearest number with 53 significant bits, ties to even,
  and the result is cut off.  The exponents of recorded are far from the limits of the format.\<close>

definition round_half_even :: "int \<Rightarrow> int \<Rightarrow> int" where
  "round_half_even n d =
     (let q = n div d; r = n mod d
      in if 2 * r < d then q else if 2 * r > d then q + 1 else if even q then q else q + 1)"

definition scaled_quotient :: "int \<Rightarrow> int \<Rightarrow> int \<Rightarrow> int" where
  "scaled_quotient n d k =
     (if k \<ge> 0 then round_half_even (n * 2 ^ nat k) d else round_half_even n (d * 2 ^ nat (- k)))"

definition quotient_exponent :: "int \<Rightarrow> int \<Rightarrow> int" where
  "quotient_exponent n d =
     (let k = 53 - (bitlen n - bitlen d)
      in if (if k \<ge> 0 then n * 2 ^ nat k \<ge> 2 ^ 53 * d else n \<ge> 2 ^ 53 * d * 2 ^ nat (- k)) then k - 1 else k)"

definition int_of_quotient :: "int \<Rightarrow> int \<Rightarrow> int" where
  "int_of_quotient a d =
     (if a = 0 then 0
      else let k = quotient_exponent \<bar>a\<bar> d; m = scaled_quotient \<bar>a\<bar> d k
           in sgn a * (if k \<ge> 0 then m div 2 ^ nat k else m * 2 ^ nat (- k)))"

definition ns_to_us :: "int \<Rightarrow> int" where
  "ns_to_us ts = int_of_quotient ts 1000"

definition DEVICE_DICT :: "(string \<times> int) list" where
  "DEVICE_DICT = [(''cpu'', 0), (''npu'', 20)]"

definition parse_device_info :: "string \<Rightarrow> DeviceKey option" where
  "parse_device_info device_str =
     (if device_str = ''cpu'' then Some (0, -1)
      else case split_on CHR '':'' (py_strip is_space device_str) of
             [name, index] \<Rightarrow>
               (case map_of DEVICE_DICT name of
                  None \<Rightarrow> None
                | Some t \<Rightarrow> (case py_int index of Inr n \<Rightarrow> Some (t, n) | Inl _ \<Rightarrow> None))
           | _ \<Rightarrow> None)"

fun category_index :: "Category option \<Rightarrow> nat" where
  "category_index (Some PARAMETER) = 0"
| "category_index (Some OPTIMIZER_STATE) = 1"
| "category_index (Some INPUT) = 2"
| "category_index (Some TEMPORARY) = 3"
| "category_index (Some ACTIVATION) = 4"
| "category_index (Some GRADIENT) = 5"
| "category_index (Some AUTOGRAD_DETAIL) = 6"
| "category_index None = 7"

definition get_category_index :: "CategoryDict \<Rightarrow> row_key \<Rightarrow> nat \<Rightarrow> nat" where
  "get_category_index d key version =
     category_index (case key of OfTensor k \<Rightarrow> category_get d (k, version) | OfDevice _ \<Rightarrow> None)"

definition update_sizes_by_category :: "CategoryDict \<Rightarrow> row_key \<Rightarrow> nat \<Rightarrow> int \<Rightarrow> int list list \<Rightarrow> int list list" where
  "update_sizes_by_category d key version delta sizes =
     (let row = last sizes; c = get_category_index d key version + 1
      in butlast sizes @ [row[c := row ! c + delta]])"

record timeline_build =
  tb_ts_min :: int
  tb_timestamps :: "int list"
  tb_sizes :: "int list list"

definition build_row :: "CategoryDict \<Rightarrow> DeviceKey \<Rightarrow> timeline_row \<Rightarrow> timeline_build \<Rightarrow> timeline_build" where
  "build_row d dev row st =
     (case row of (ts0, action, (key, version), numbytes) \<Rightarrow>
        (if device_of key \<noteq> dev then st
         else let ts = (if ts0 \<noteq> -1 then ns_to_us ts0 else ts0);
                  ts_min = (if tb_ts_min st = -1 \<or> ts < tb_ts_min st \<and> ts > 0 then ts else tb_ts_min st);
                  (stamps, sizes) =
                    (if tb_timestamps st = [] then ([ts], [replicate 9 0])
                     else if ts \<noteq> last (tb_timestamps st) then (tb_timestamps st @ [ts], tb_sizes st @ [last (tb_sizes st)])
                     else (tb_timestamps st, tb_sizes st));
                  sizes1 =
                    (case action of
                       INCREMENT_VERSION \<Rightarrow>
                         update_sizes_by_category d key (version + 1) numbytes
                           (update_sizes_by_category d key version (- numbytes) sizes)
                     | DESTROY \<Rightarrow> update_sizes_by_category d key version (- numbytes) sizes
                     | _ \<Rightarrow> update_sizes_by_category d key version numbytes sizes)
              in \<lparr>tb_ts_min = ts_min, tb_timestamps = stamps, tb_sizes = sizes1\<rparr>))"

definition build_start :: timeline_build where
  "build_start = \<lparr>tb_ts_min = -1, tb_timestamps = [], tb_sizes = []\<rparr>"

definition construct_timeline :: "CategoryDict \<Rightarrow> timeline_row list \<Rightarrow> string \<Rightarrow> int list \<times> int list list" where
  "construct_timeline d rows device_str =
     (case parse_device_info device_str of
        None \<Rightarrow> ([], [])
      | Some dev \<Rightarrow>
          (let st = fold (build_row d dev) rows build_start
           in (map (\<lambda>t. if t < 0 then tb_ts_min st else t) (tb_timestamps st), tb_sizes st)))"

definition raw_rows :: "CategoryDict \<Rightarrow> DeviceKey \<Rightarrow> timeline_row \<Rightarrow> (int \<times> int \<times> int \<times> nat) list" where
  "raw_rows d dev row =
     (case row of (ts, action, (key, version), numbytes) \<Rightarrow>
        (if device_of key \<noteq> dev then []
         else case action of
                INCREMENT_VERSION \<Rightarrow>
                  [(ts, action_index action, - numbytes, get_category_index d key version),
                   (ts, action_index action, numbytes, get_category_index d key (version + 1))]
              | DESTROY \<Rightarrow> [(ts, action_index action, - numbytes, get_category_index d key version)]
              | _ \<Rightarrow> [(ts, action_index action, numbytes, get_category_index d key version)]))"

definition raw_events :: "CategoryDict \<Rightarrow> timeline_row list \<Rightarrow> string \<Rightarrow> (int \<times> int \<times> int \<times> nat) list" where
  "raw_events d rows device_str =
     (case parse_device_info device_str of None \<Rightarrow> [] | Some dev \<Rightarrow> concat (map (raw_rows d dev) rows))"

definition memory_peaks :: "(DeviceKey \<times> int \<times> int \<times> int) list \<Rightarrow> DeviceKey option \<Rightarrow> int \<times> int" where
  "memory_peaks history dev =
     (let own = filter (\<lambda>(key, _). Some key = dev) history; peak = (\<lambda>xs. case xs of [] \<Rightarrow> 0 | x # xs \<Rightarrow> fold max xs x)
      in (peak (map (\<lambda>(_, _, allocated, _). allocated) own), peak (map (\<lambda>(_, _, _, reserved). reserved) own)))"

text \<open>What a run writes; the picture of the HTML export is made of the same rows and the peaks.\<close>

datatype export =
    ExportNothing
  | ExportHtml "int list \<times> int list list" "int \<times> int"
  | ExportRaw "(int \<times> int \<times> int \<times> nat) list"
  | ExportJson bool "int list \<times> int list list"

definition memory_timeline_export :: "flow_lib \<Rightarrow> MemoryProfile \<Rightarrow> timeline_row list \<Rightarrow> string \<Rightarrow> string \<Rightarrow> export" where
  "memory_timeline_export L mp rows output_path device_str =
     (let d = mp_categories mp; data = construct_timeline d rows device_str
      in if suffix ''.html'' output_path
         then if fst data = [] then ExportNothing
              else ExportHtml data (memory_peaks (memory_history L mp) (parse_device_info device_str))
         else if suffix ''raw.json.gz'' output_path
         then if raw_events d rows device_str = [] then ExportNothing else ExportRaw (raw_events d rows device_str)
         else if fst data = [] then ExportNothing else ExportJson (suffix ''.gz'' output_path) data)"

text \<open>The parser: a failure of any step is logged and reported as a failed task.\<close>

definition memory_timeline_run :: "flow_lib \<Rightarrow> EventTree res \<Rightarrow> string \<Rightarrow> string \<Rightarrow> bool \<times> export" where
  "memory_timeline_run L tree output_path device_str =
     (case rbind tree (\<lambda>T. rbind (memory_profile L T) (\<lambda>mp. rbind (timeline L mp) (\<lambda>rows. Inr (mp, rows)))) of
        Inl _ \<Rightarrow> (False, ExportNothing)
      | Inr (mp, rows) \<Rightarrow> (True, memory_timeline_export L mp rows output_path device_str))"

end
