(* ===== verification/Flow_Tree.thy ===== *)
theory Flow_Tree
  imports Memory_Flow Event_Ids_Props
begin

text \<open>
  Trees of events and their traversal.  The locale \<open>traversal\<close> is what the memory timeline relies on of PyTorch's
  \<open>traverse_dfs\<close>: on a forest it visits exactly the events that can be reached from the roots, each once.  The
  pre-order walk meets the contract.  For the trees that \<open>build_event_tree\<close> makes, every event is visited, and every
  allocation lies below exactly one node of the data flow graph.
\<close>

section \<open>Forests\<close>

text \<open>Children come after their parents, below a bound.\<close>

definition forest :: "nat \<Rightarrow> (nat \<Rightarrow> nat list) \<Rightarrow> bool" where
  "forest n ch \<longleftrightarrow>
     (\<forall>i < n. distinct (ch i) \<and> (\<forall>c \<in> set (ch i). i < c \<and> c < n))
     \<and> (\<forall>i < n. \<forall>j < n. i \<noteq> j \<longrightarrow> set (ch i) \<inter> set (ch j) = {})"

definition child_rel :: "nat \<Rightarrow> (nat \<Rightarrow> nat list) \<Rightarrow> (nat \<times> nat) set" where
  "child_rel n ch = {(i, c). i < n \<and> c \<in> set (ch i)}"

definition reach_from :: "nat \<Rightarrow> (nat \<Rightarrow> nat list) \<Rightarrow> nat set \<Rightarrow> nat set" where
  "reach_from n ch R = (child_rel n ch)\<^sup>* `` R"

lemma forest_lt: "forest n ch \<Longrightarrow> i < n \<Longrightarrow> c \<in> set (ch i) \<Longrightarrow> i < c \<and> c < n"
  unfolding forest_def by blast

lemma forest_distinct: "forest n ch \<Longrightarrow> i < n \<Longrightarrow> distinct (ch i)"
  unfolding forest_def by blast

lemma child_rel_iff [simp]: "(i, c) \<in> child_rel n ch \<longleftrightarrow> i < n \<and> c \<in> set (ch i)"
  by (simp add: child_rel_def)

lemma forest_child: "forest n ch \<Longrightarrow> (i, c) \<in> child_rel n ch \<Longrightarrow> i < c \<and> c < n \<and> i < n"
  using forest_lt [of n ch i c] by simp

lemma forest_parent: "forest n ch \<Longrightarrow> (i, c) \<in> child_rel n ch \<Longrightarrow> (j, c) \<in> child_rel n ch \<Longrightarrow> i = j"
  unfolding forest_def child_rel_iff by blast

lemma forest_below:
  assumes "forest n ch" "(i, j) \<in> (child_rel n ch)\<^sup>+"
  shows "i < j"
  using assms(2)
proof (induction rule: trancl_induct)
  case (base c)
  then show ?case using forest_child [OF assms(1)] by blast
next
  case (step j c)
  then show ?case using forest_child [OF assms(1), of j c] by simp
qed

lemma forest_below_eq: "forest n ch \<Longrightarrow> (i, j) \<in> (child_rel n ch)\<^sup>* \<Longrightarrow> i \<le> j"
  using forest_below [of n ch i j] by (metis rtranclD nat_less_le order_refl)

lemma reached_bound:
  assumes "forest n ch" "(i, j) \<in> (child_rel n ch)\<^sup>*" "i < n"
  shows "j < n"
  using assms(2)
proof (cases rule: rtranclE)
  case (step w)
  then show ?thesis using forest_child [OF assms(1)] by blast
qed (use assms(3) in simp)

lemma ancestors_chain:
  assumes "forest n ch" "(r, y) \<in> (child_rel n ch)\<^sup>*" "(s, y) \<in> (child_rel n ch)\<^sup>*"
  shows "r = s \<or> (r, s) \<in> (child_rel n ch)\<^sup>+ \<or> (s, r) \<in> (child_rel n ch)\<^sup>+"
  using assms(2,3)
proof (induction rule: rtrancl_induct)
  case base
  then show ?case by (metis rtranclD)
next
  case (step y z)
  from step.prems show ?case
  proof (cases rule: rtranclE)
    case base
    then show ?thesis using step.hyps by (metis rtrancl_into_trancl1)
  next
    case (step w)
    then have "w = y" using forest_parent [OF assms(1)] \<open>(y, z) \<in> child_rel n ch\<close> by blast
    then show ?thesis using step.IH step by blast
  qed
qed

definition incomparable :: "nat \<Rightarrow> (nat \<Rightarrow> nat list) \<Rightarrow> nat list \<Rightarrow> bool" where
  "incomparable n ch rs \<longleftrightarrow> distinct rs \<and> (\<forall>r \<in> set rs. r < n) \<and> (\<forall>r \<in> set rs. \<forall>s \<in> set rs. (r, s) \<notin> (child_rel n ch)\<^sup>+)"

section \<open>The contract of the traversal\<close>

locale traversal =
  fixes traverse :: "(nat \<Rightarrow> nat list) \<Rightarrow> nat list \<Rightarrow> nat list" and n :: nat
  assumes visits: "forest n ch \<Longrightarrow> \<forall>r \<in> set rs. r < n \<Longrightarrow> set (traverse ch rs) = reach_from n ch (set rs)"
    and once: "forest n ch \<Longrightarrow> incomparable n ch rs \<Longrightarrow> distinct (traverse ch rs)"

text \<open>The walk that visits a node before its children; no path is longer than the bound.\<close>

primrec preorder :: "nat \<Rightarrow> (nat \<Rightarrow> nat list) \<Rightarrow> nat list \<Rightarrow> nat list" where
  "preorder 0 ch rs = []"
| "preorder (Suc m) ch rs = concat (map (\<lambda>r. r # preorder m ch (ch r)) rs)"

lemma preorder_sound: "y \<in> set (preorder m ch rs) \<Longrightarrow> forest n ch \<Longrightarrow> \<forall>r \<in> set rs. r < n \<Longrightarrow> y \<in> reach_from n ch (set rs)"
proof (induction m arbitrary: rs)
  case (Suc m)
  then obtain r where r: "r \<in> set rs" "y = r \<or> y \<in> set (preorder m ch (ch r))" by auto
  from r(2) show ?case
  proof
    assume "y \<in> set (preorder m ch (ch r))"
    moreover have "\<forall>c \<in> set (ch r). c < n" using Suc.prems(2,3) r(1) forest_lt by blast
    ultimately have "y \<in> reach_from n ch (set (ch r))" using Suc.IH Suc.prems(2) by blast
    then obtain c where "c \<in> set (ch r)" "(c, y) \<in> (child_rel n ch)\<^sup>*" by (auto simp: reach_from_def)
    moreover have "(r, c) \<in> child_rel n ch" if "c \<in> set (ch r)" for c using that Suc.prems(3) r(1) by simp
    ultimately show ?thesis using r(1) unfolding reach_from_def by (meson ImageI converse_rtrancl_into_rtrancl)
  qed (use r(1) in \<open>auto simp: reach_from_def\<close>)
qed simp

lemma preorder_complete:
  assumes "(r, y) \<in> (child_rel n ch)\<^sup>*" "forest n ch" "r \<in> set rs" "r < n" "n - r \<le> m"
  shows "y \<in> set (preorder m ch rs)"
  using assms
proof (induction arbitrary: m rs rule: converse_rtrancl_induct)
  case base
  then show ?case by (cases m) force+
next
  case (step r c)
  have c: "r < c" "c < n" "c \<in> set (ch r)" using step.hyps(1) step.prems(1) forest_child [of n ch r c] by auto
  obtain m' where m': "m = Suc m'" using step.prems by (cases m) auto
  have "y \<in> set (preorder m' ch (ch r))" using step.IH [of "ch r" m'] c step.prems m' by simp
  then show ?case using step.prems(2) m' by auto
qed

lemma siblings_incomparable: "forest n ch \<Longrightarrow> r < n \<Longrightarrow> incomparable n ch (ch r)"
proof -
  assume f: "forest n ch" and r: "r < n"
  have no: "(c, d) \<notin> (child_rel n ch)\<^sup>+" if c: "c \<in> set (ch r)" and d: "d \<in> set (ch r)" for c d
  proof
    assume "(c, d) \<in> (child_rel n ch)\<^sup>+"
    then obtain w where w: "(c, w) \<in> (child_rel n ch)\<^sup>*" "(w, d) \<in> child_rel n ch" by (metis tranclD2)
    have "w = r" using forest_parent [OF f w(2), of r] d r by simp
    then have "c \<le> r" using forest_below_eq [OF f w(1)] by simp
    then show False using forest_lt [OF f r c] by simp
  qed
  show ?thesis unfolding incomparable_def using no forest_lt [OF f r] forest_distinct [OF f r] by blast
qed

lemma preorder_distinct: "forest n ch \<Longrightarrow> incomparable n ch rs \<Longrightarrow> distinct (preorder m ch rs)"
proof (induction m arbitrary: rs)
  case (Suc m)
  have bound: "\<forall>r \<in> set rs. r < n" using Suc.prems(2) by (simp add: incomparable_def)
  have below: "(r, y) \<in> (child_rel n ch)\<^sup>*" if "r \<in> set rs" "y \<in> set (r # preorder m ch (ch r))" for r y
    using that preorder_sound [of y "Suc m" ch "[r]" n] Suc.prems(1) bound by (auto simp: reach_from_def)
  have one: "distinct (r # preorder m ch (ch r))" if "r \<in> set rs" for r
  proof -
    have r: "r < n" using that bound by blast
    have lt: "\<forall>c \<in> set (ch r). c < n" using forest_lt [OF Suc.prems(1) r] by blast
    have "r \<notin> set (preorder m ch (ch r))"
    proof
      assume "r \<in> set (preorder m ch (ch r))"
      then have "r \<in> reach_from n ch (set (ch r))" using preorder_sound Suc.prems(1) lt by blast
      then obtain c where c: "c \<in> set (ch r)" "(c, r) \<in> (child_rel n ch)\<^sup>*" by (auto simp: reach_from_def)
      then show False using forest_below_eq [OF Suc.prems(1) c(2)] forest_lt [OF Suc.prems(1) r c(1)] by simp
    qed
    then show ?thesis using Suc.IH [OF Suc.prems(1) siblings_incomparable [OF Suc.prems(1) r]] by simp
  qed
  have apart: "set (r # preorder m ch (ch r)) \<inter> set (s # preorder m ch (ch s)) = {}" if "r \<in> set rs" "s \<in> set rs" "r \<noteq> s" for r s
    using that below ancestors_chain [OF Suc.prems(1)] Suc.prems(2) unfolding incomparable_def by (metis disjoint_iff)
  have "distinct rs" using Suc.prems(2) by (simp add: incomparable_def)
  then show ?case unfolding preorder.simps using one apart
  proof (induction rs)
    case (Cons r rs)
    then have "distinct (concat (map (\<lambda>r. r # preorder m ch (ch r)) rs))" by simp
    moreover have "set (r # preorder m ch (ch r)) \<inter> set (concat (map (\<lambda>r. r # preorder m ch (ch r)) rs)) = {}"
      using Cons.prems(1) Cons.prems(3) [of r] unfolding set_concat set_map by fastforce
    moreover have "distinct (r # preorder m ch (ch r))" using Cons.prems(2) by simp
    ultimately show ?case unfolding list.map concat.simps distinct_append by blast
  qed simp
qed simp

interpretation walk: traversal "preorder n" n for n
proof
  fix ch rs
  assume f: "forest n ch" and r: "\<forall>r \<in> set rs. r < n"
  show "set (preorder n ch rs) = reach_from n ch (set rs)"
    using preorder_sound [OF _ f r] preorder_complete [OF _ f, of _ _ rs n] r by (auto simp: reach_from_def)
qed (rule preorder_distinct)

section \<open>Trees of events\<close>

definition event_tree_ok :: "EventTree \<Rightarrow> bool" where
  "event_tree_ok T \<longleftrightarrow>
     (let n = length (et_events T)
      in (\<forall>i < n. \<forall>p. et_parent T ! i = Some p \<longrightarrow> p < i)
         \<and> et_children T = map (\<lambda>p. filter (\<lambda>i. et_parent T ! i = Some p) [0..<n]) [0..<n])"

lemma event_tree_of_built:
  assumes "event_tree_of events = Some (Inr T)"
  shows "event_tree_ok T" "calculate_unique_id (et_events T) = Inr (et_ids T)" "et_events T = sort_key pv_start_ns events"
proof -
  let ?evs = "sort_key pv_start_ns events"
  obtain st where st: "build_event_tree ?evs = Some st" "tree_rows ?evs (length ?evs) st"
    using heap_events.replay_builds [of ?evs] by (auto simp: build_event_tree_def)
  then obtain ids where ids: "calculate_unique_id ?evs = Inr ids"
    "T = \<lparr>et_events = ?evs, et_parent = ts_parent st, et_children = ts_children st, et_ids = ids\<rparr>"
    using assms by (auto simp: event_tree_of_def Let_def res_simps)
  show "event_tree_ok T" using st(2) unfolding ids(2) event_tree_ok_def tree_rows_def Let_def by simp
  show "calculate_unique_id (et_events T) = Inr (et_ids T)" "et_events T = ?evs" using ids by simp_all
qed

lemma children_iff: "event_tree_ok T \<Longrightarrow> p < length (et_events T) \<Longrightarrow> c \<in> set (children_of T p) \<longleftrightarrow> c < length (et_events T) \<and> et_parent T ! c = Some p"
  by (simp add: event_tree_ok_def children_of_def Let_def)

lemma tree_parent: "event_tree_ok T \<Longrightarrow> i < length (et_events T) \<Longrightarrow> et_parent T ! i = Some p \<Longrightarrow> p < i"
  by (simp add: event_tree_ok_def Let_def)

lemma tree_forest: "event_tree_ok T \<Longrightarrow> forest (length (et_events T)) (children_of T)"
  unfolding forest_def
proof (intro conjI allI impI)
  assume t: "event_tree_ok T"
  fix i assume i: "i < length (et_events T)"
  show "distinct (children_of T i)" using t i by (simp add: event_tree_ok_def children_of_def Let_def)
  show "\<forall>c \<in> set (children_of T i). i < c \<and> c < length (et_events T)" using children_iff [OF t i] tree_parent [OF t] by blast
  fix j assume "j < length (et_events T)" "i \<noteq> j"
  then have "c \<notin> set (children_of T j)" if "c \<in> set (children_of T i)" for c using that children_iff [OF t] i by simp
  then show "set (children_of T i) \<inter> set (children_of T j) = {}" by blast
qed

lemma leaf_forest: "event_tree_ok T \<Longrightarrow> forest (length (et_events T)) (get_children L T)"
proof -
  assume "event_tree_ok T"
  note f = tree_forest [OF this]
  have sub: "set (get_children L T i) \<subseteq> set (children_of T i)" for i by (simp add: get_children_def)
  show ?thesis unfolding forest_def
  proof (intro conjI allI impI ballI)
    fix i assume i: "i < length (et_events T)"
    show "distinct (get_children L T i)" using forest_distinct [OF f i] by (simp add: get_children_def)
    fix c assume "c \<in> set (get_children L T i)"
    then show "i < c" "c < length (et_events T)" using forest_lt [OF f i] sub by blast+
  next
    fix i j assume "i < length (et_events T)" "j < length (et_events T)" "i \<noteq> j"
    then have "set (children_of T i) \<inter> set (children_of T j) = {}" using f unfolding forest_def by blast
    then show "set (get_children L T i) \<inter> set (get_children L T j) = {}" using sub [of i] sub [of j] by blast
  qed
qed

lemma get_children_rel:
  "(i, c) \<in> child_rel n (get_children L T) \<longleftrightarrow> (i, c) \<in> child_rel n (children_of T) \<and> \<not> leaf_event L T i"
  by (simp add: get_children_def)

lemma root_iff: "r \<in> set (get_root_nodes T) \<longleftrightarrow> r < length (et_events T) \<and> et_parent T ! r = None"
  by (auto simp: get_root_nodes_def)

lemma no_parent_root: "event_tree_ok T \<Longrightarrow> r \<in> set (get_root_nodes T) \<Longrightarrow> (i, r) \<notin> child_rel (length (et_events T)) (children_of T)"
  using children_iff [of T i r] by (auto simp: root_iff)

lemma roots_incomparable:
  assumes "event_tree_ok T" "child_rel (length (et_events T)) ch \<subseteq> child_rel (length (et_events T)) (children_of T)"
  shows "incomparable (length (et_events T)) ch (get_root_nodes T)"
proof -
  have "(i, r) \<notin> (child_rel (length (et_events T)) ch)\<^sup>+" if "r \<in> set (get_root_nodes T)" for i r
    using no_parent_root [OF assms(1) that] assms(2) by (meson subsetD tranclD2)
  moreover have "distinct (get_root_nodes T)" by (simp add: get_root_nodes_def)
  ultimately show ?thesis unfolding incomparable_def using root_iff by blast
qed

text \<open>Every event is reached from a root.\<close>

lemma all_reached: "event_tree_ok T \<Longrightarrow> reach_from (length (et_events T)) (children_of T) (set (get_root_nodes T)) = {0..<length (et_events T)}"
proof (intro equalityI subsetI)
  assume t: "event_tree_ok T"
  fix i assume "i \<in> {0..<length (et_events T)}"
  then show "i \<in> reach_from (length (et_events T)) (children_of T) (set (get_root_nodes T))"
  proof (induction i rule: less_induct)
    case (less i)
    show ?case
    proof (cases "et_parent T ! i")
      case None
      then show ?thesis using less.prems unfolding reach_from_def by (auto simp: root_iff)
    next
      case (Some p)
      then have p: "p < i" "(p, i) \<in> child_rel (length (et_events T)) (children_of T)"
        using tree_parent [OF t _ Some] children_iff [OF t, of p i] less.prems by auto
      then have "p \<in> reach_from (length (et_events T)) (children_of T) (set (get_root_nodes T))" using less by simp
      then show ?thesis using p(2) unfolding reach_from_def by (meson Image_iff rtrancl_into_rtrancl)
    qed
  qed
next
  assume t: "event_tree_ok T"
  fix i assume "i \<in> reach_from (length (et_events T)) (children_of T) (set (get_root_nodes T))"
  then show "i \<in> {0..<length (et_events T)}" using reached_bound [OF tree_forest [OF t]] unfolding reach_from_def by (auto simp: root_iff)
qed

definition leaves :: "flow_lib \<Rightarrow> EventTree \<Rightarrow> nat set" where
  "leaves L T = {l \<in> reach_from (length (et_events T)) (get_children L T) (set (get_root_nodes T)). leaf_event L T l}"

definition below_event :: "EventTree \<Rightarrow> nat \<Rightarrow> nat set" where
  "below_event T l = reach_from (length (et_events T)) (children_of T) {l}"

lemma leaf_above:
  assumes "event_tree_ok T" "i < length (et_events T)"
  shows "i \<in> reach_from (length (et_events T)) (get_children L T) (set (get_root_nodes T)) \<or> (\<exists>l \<in> leaves L T. i \<in> below_event T l)"
  using assms(2)
proof (induction i rule: less_induct)
  case (less i)
  let ?r = "reach_from (length (et_events T)) (get_children L T) (set (get_root_nodes T))"
  show ?case
  proof (cases "et_parent T ! i")
    case None
    then show ?thesis using less.prems unfolding reach_from_def by (auto simp: root_iff)
  next
    case (Some p)
    then have p: "p < i" "(p, i) \<in> child_rel (length (et_events T)) (children_of T)"
      using tree_parent [OF assms(1) _ Some] children_iff [OF assms(1), of p i] less.prems by auto
    consider "p \<in> ?r" "\<not> leaf_event L T p" | "p \<in> ?r" "leaf_event L T p" | l where "l \<in> leaves L T" "p \<in> below_event T l"
      using less.IH [OF p(1)] less.prems p(1) by fastforce
    then show ?thesis
    proof cases
      case 1
      then have "(p, i) \<in> child_rel (length (et_events T)) (get_children L T)" using p(2) get_children_rel by blast
      then show ?thesis using 1(1) unfolding reach_from_def by (meson Image_iff rtrancl_into_rtrancl)
    next
      case 2
      then have "p \<in> leaves L T" "i \<in> below_event T p" using p(2) unfolding leaves_def below_event_def reach_from_def by auto
      then show ?thesis by blast
    next
      case 3
      then have "i \<in> below_event T l" using p(2) unfolding below_event_def reach_from_def by (meson Image_iff rtrancl_into_rtrancl)
      then show ?thesis using 3(1) by blast
    qed
  qed
qed

lemma leaf_not_above:
  assumes "event_tree_ok T" "l \<in> leaves L T" "m \<in> leaves L T"
  shows "(l, m) \<notin> (child_rel (length (et_events T)) (children_of T))\<^sup>+"
proof
  let ?n = "length (et_events T)"
  assume lm: "(l, m) \<in> (child_rel ?n (children_of T))\<^sup>+"
  obtain r where r: "r \<in> set (get_root_nodes T)" "(r, m) \<in> (child_rel ?n (get_children L T))\<^sup>*"
    using assms(3) by (auto simp: leaves_def reach_from_def)
  from r(2) lm have "\<exists>w. (l, w) \<in> child_rel ?n (get_children L T)"
  proof (induction rule: rtrancl_induct)
    case base
    then show ?case using no_parent_root [OF assms(1) r(1)] by (meson tranclD2)
  next
    case (step y z)
    obtain w where w: "(l, w) \<in> (child_rel ?n (children_of T))\<^sup>*" "(w, z) \<in> child_rel ?n (children_of T)" using step.prems by (meson tranclD2)
    have "w = y" using forest_parent [OF tree_forest [OF assms(1)] w(2)] step.hyps(2) get_children_rel by blast
    then show ?case using step w(1) by (metis rtranclD)
  qed
  then have "\<not> leaf_event L T l" using get_children_rel by blast
  then show False using assms(2) by (simp add: leaves_def)
qed

lemma one_leaf:
  assumes "event_tree_ok T" "i < length (et_events T)" "leaf_event L T i"
  shows "\<exists>!l. l \<in> leaves L T \<and> i \<in> below_event T l"
proof -
  have "\<exists>l \<in> leaves L T. i \<in> below_event T l"
    using leaf_above [OF assms(1,2), of L] assms(3) unfolding leaves_def below_event_def reach_from_def by blast
  moreover have "l = m" if "l \<in> leaves L T" "m \<in> leaves L T" "i \<in> below_event T l" "i \<in> below_event T m" for l m
    using ancestors_chain [OF tree_forest [OF assms(1)], of l i m] leaf_not_above [OF assms(1)] that
    unfolding below_event_def reach_from_def by blast
  ultimately show ?thesis by blast
qed

section \<open>What the traversal gives the data flow graph\<close>

context traversal
begin

lemma all_events:
  assumes "event_tree_ok T" "n = length (et_events T)"
  shows "set (traverse (children_of T) (get_root_nodes T)) = {0..<n}" "distinct (traverse (children_of T) (get_root_nodes T))"
  using visits [of "children_of T" "get_root_nodes T"] once [of "children_of T" "get_root_nodes T"] tree_forest [OF assms(1)]
    all_reached [OF assms(1)] roots_incomparable [OF assms(1), of "children_of T"] assms(2) by (auto simp: root_iff)

lemma subtree_events:
  assumes "event_tree_ok T" "n = length (et_events T)" "i < n"
  shows "set (traverse (children_of T) [i]) = below_event T i"
  using visits [of "children_of T" "[i]"] tree_forest [OF assms(1)] assms(2,3) by (simp add: below_event_def)

lemma leaf_events:
  assumes "event_tree_ok T" "n = length (et_events T)" "fl_traverse_dfs L = traverse"
  shows "set (extract_leaf_events L T (get_root_nodes T)) = leaves L T" "distinct (extract_leaf_events L T (get_root_nodes T))"
proof -
  have sub: "child_rel n (get_children L T) \<subseteq> child_rel n (children_of T)" by (auto simp: child_rel_def get_children_def split: if_splits)
  have "set (traverse (get_children L T) (get_root_nodes T)) = reach_from n (get_children L T) (set (get_root_nodes T))"
    using visits [of "get_children L T" "get_root_nodes T"] leaf_forest [OF assms(1)] assms(2) by (simp add: root_iff)
  then show "set (extract_leaf_events L T (get_root_nodes T)) = leaves L T"
    using assms by (auto simp: extract_leaf_events_def leaves_def)
  have "distinct (traverse (get_children L T) (get_root_nodes T))"
    using once [of "get_children L T" "get_root_nodes T"] leaf_forest [OF assms(1)] roots_incomparable [OF assms(1)] sub assms(2) by simp
  then show "distinct (extract_leaf_events L T (get_root_nodes T))" using assms(3) by (simp add: extract_leaf_events_def)
qed

end

end
