(* ===== verification/Memory_Flow_Props.thy ===== *)
theory Memory_Flow_Props
  imports Memory_Flow Flow_Tree
begin

text \<open>
  Versions in the data flow graph: the graph is built without an exception, and the version an edge reads is the number
  of earlier nodes that changed the tensor, so no version above 0 is made twice.
\<close>

section \<open>Versions\<close>

text \<open>A lookup only adds keys, at version 0.\<close>

definition extends :: "versions \<Rightarrow> versions \<Rightarrow> bool" where
  "extends av av' \<longleftrightarrow> (\<forall>k. av' k = av k \<or> av k = None \<and> av' k = Some 0)"

lemma extends_refl [simp]: "extends av av"
  by (simp add: extends_def)

lemma extends_trans: "extends a b \<Longrightarrow> extends b c \<Longrightarrow> extends a c"
  unfolding extends_def by metis

lemma lookup_version_ok:
  assumes "lookup_version k av = (v, av')"
  shows "extends av av'" "av' k = Some v"
  using assms by (auto simp: lookup_version_def extends_def split: option.splits if_splits)

definition edges_ok :: "versions \<Rightarrow> edges \<times> versions \<Rightarrow> bool" where
  "edges_ok av0 st \<longleftrightarrow>
     extends av0 (snd st) \<and> distinct (map fst (fst st))
     \<and> (\<forall>k e v. (k, e) \<in> set (fst st) \<longrightarrow> fe_input_version e = Some v \<longrightarrow> snd st k = Some v)"

lemma edges_ok_update:
  assumes "edges_ok av0 (es, av)" "extends av av'" "\<And>v. fe_input_version e = Some v \<Longrightarrow> av' k = Some v"
  shows "edges_ok av0 (AList.update k e es, av')"
proof -
  have e: "extends av0 av" "distinct (map fst es)" "\<And>k e v. (k, e) \<in> set es \<Longrightarrow> fe_input_version e = Some v \<Longrightarrow> av k = Some v"
    using assms(1) unfolding edges_ok_def by auto
  have "av' k' = Some v" if "(k', e') \<in> set (AList.update k e es)" "fe_input_version e' = Some v" for k' e' v
  proof (cases "k' = k")
    case True
    have "map_of (AList.update k e es) k' = Some e'" using that(1) e(2) by (simp add: distinct_update map_of_is_SomeI)
    then have "e' = e" using True by (simp add: update_conv')
    then show ?thesis using assms(3) that(2) True by blast
  next
    case False
    have "map_of (AList.update k e es) k' = Some e'" using that(1) e(2) by (simp add: distinct_update map_of_is_SomeI)
    then have "(k', e') \<in> set es" using False by (simp add: update_conv' map_of_SomeD)
    then have "av k' = Some v" using e(3) that(2) by blast
    then show ?thesis using assms(2) unfolding extends_def by (metis option.distinct(1))
  qed
  then show ?thesis using e assms(2) extends_trans by (auto simp: edges_ok_def distinct_update)
qed

lemma input_edge_ok: "edges_ok av0 st \<Longrightarrow> edges_ok av0 (input_edge ks st)"
  using lookup_version_ok by (cases st) (auto simp: input_edge_def split: option.splits prod.splits intro!: edges_ok_update)

lemma deletion_edge_ok: "edges_ok av0 st \<Longrightarrow> edges_ok av0 (deletion_edge T i st)"
  using lookup_version_ok
  by (cases st) (auto simp: deletion_edge_def split: option.splits prod.splits extra_fields.splits intro!: edges_ok_update)

lemma allocation_edge_ok: "edges_ok av0 (es, av) \<Longrightarrow> edges_ok av0 (allocation_edge T i es, av)"
  by (auto simp: allocation_edge_def split: option.splits extra_fields.splits intro!: edges_ok_update)

lemma fold_keeps: "P s \<Longrightarrow> (\<And>x s. P s \<Longrightarrow> P (f x s)) \<Longrightarrow> P (fold f xs s)"
  by (induction xs arbitrary: s) auto

lemma determine_edges_ok:
  assumes "determine_edges L T i av = (es, av1)"
  shows "edges_ok av (es, av1)" "sorted (map fst es)"
proof -
  let ?sub = "fl_traverse_dfs L (children_of T) [i]"
  let ?st1 = "fold input_edge (fold add_mutable (concat (map (mutable_uses L T) ?sub)) []) ([], av)"
  let ?st2 = "fold (deletion_edge T) ?sub ?st1"
  let ?es3 = "fold (allocation_edge T) ?sub (fst ?st2)"
  have "edges_ok av ([], av)" by (simp add: edges_ok_def)
  then have "edges_ok av ?st1" by (rule fold_keeps) (rule input_edge_ok)
  then have "edges_ok av ?st2" by (rule fold_keeps) (rule deletion_edge_ok)
  then have "edges_ok av (fst ?st2, snd ?st2)" by simp
  then have "edges_ok av (?es3, snd ?st2)" by (rule fold_keeps [where P = "\<lambda>es. edges_ok av (es, snd ?st2)"]) (rule allocation_edge_ok)
  moreover have e: "es = sort_key fst ?es3" "av1 = snd ?st2" using assms by (simp_all add: determine_edges_def Let_def)
  moreover have "distinct (map fst (sort_key fst xs)) = distinct (map fst xs)" for xs :: edges
    by (metis mset_eq_imp_distinct_iff mset_map mset_sort)
  ultimately show "edges_ok av (es, av1)" by (simp add: edges_ok_def)
  show "sorted (map fst es)" by (simp add: e)
qed

definition changes :: "DataFlowNode \<Rightarrow> TensorKey \<Rightarrow> bool" where
  "changes n k \<longleftrightarrow> (\<exists>e. (k, e) \<in> set (fn_edges n) \<and> fe_mutated e = Some True \<and> \<not> is_allocation e)"

definition changes_of :: "TensorKey \<Rightarrow> DataFlowNode list \<Rightarrow> nat" where
  "changes_of k ns = length (filter (\<lambda>n. changes n k) ns)"

lemma changes_of_simps [simp]:
  "changes_of k [] = 0" "changes_of k (n # ns) = (if changes n k then 1 else 0) + changes_of k ns"
  "changes_of k (xs @ ys) = changes_of k xs + changes_of k ys"
  by (simp_all add: changes_of_def)

lemma bump_versions_ok:
  assumes "distinct (map fst es)" "\<And>k e. (k, e) \<in> set es \<Longrightarrow> \<not> is_allocation e \<Longrightarrow> av k \<noteq> None"
  shows "\<exists>av'. bump_versions es av = Inr av' \<and>
    (\<forall>k. av' k = (if \<exists>e. (k, e) \<in> set es \<and> fe_mutated e = Some True \<and> \<not> is_allocation e then map_option Suc (av k) else av k))"
  using assms
proof (induction es arbitrary: av)
  case (Cons ke es)
  obtain k e where ke: "ke = (k, e)" by force
  show ?case
  proof (cases "fe_mutated e = Some True \<and> \<not> is_allocation e")
    case True
    then obtain v where v: "av k = Some v" using Cons.prems(2) ke by fastforce
    have "\<exists>av'. bump_versions es (av(k \<mapsto> v + 1)) = Inr av' \<and> (\<forall>k'. av' k' =
      (if \<exists>e. (k', e) \<in> set es \<and> fe_mutated e = Some True \<and> \<not> is_allocation e then map_option Suc ((av(k \<mapsto> v + 1)) k') else (av(k \<mapsto> v + 1)) k'))"
      using Cons.prems ke by (intro Cons.IH) (auto split: if_splits)
    moreover have "(k, e') \<notin> set es" for e' using Cons.prems(1) ke by (force simp: image_iff)
    ultimately show ?thesis using True v ke by (auto simp: increase_version_def)
  next
    case False
    have "\<exists>av'. bump_versions es av = Inr av' \<and> (\<forall>k'. av' k' =
      (if \<exists>e. (k', e) \<in> set es \<and> fe_mutated e = Some True \<and> \<not> is_allocation e then map_option Suc (av k') else av k'))"
      using Cons.prems by (intro Cons.IH) auto
    then show ?thesis using False ke by auto
  qed
qed simp

text \<open>The version of a key that a map of active versions stands for.\<close>

definition version_in :: "versions \<Rightarrow> TensorKey \<Rightarrow> nat" where
  "version_in av k = (case av k of Some v \<Rightarrow> v | None \<Rightarrow> 0)"

lemma extends_version: "extends av av' \<Longrightarrow> version_in av' k = version_in av k"
  unfolding extends_def version_in_def by (metis option.simps(4,5))

lemma data_flow_node_ok:
  "\<exists>n av'. data_flow_node L T i av = Inr (n, av') \<and> fn_event n = i \<and> distinct (map fst (fn_edges n)) \<and> sorted (map fst (fn_edges n))
    \<and> fn_edges n = fst (determine_edges L T i av)
    \<and> (\<forall>k e v. (k, e) \<in> set (fn_edges n) \<longrightarrow> fe_input_version e = Some v \<longrightarrow> v = version_in av k)
    \<and> (\<forall>k. version_in av' k = version_in av k + (if changes n k then 1 else 0))"
proof -
  obtain es av1 where d: "determine_edges L T i av = (es, av1)" by (cases "determine_edges L T i av")
  note ok = determine_edges_ok [OF d]
  have e: "extends av av1" "distinct (map fst es)" "\<And>k e v. (k, e) \<in> set es \<Longrightarrow> fe_input_version e = Some v \<Longrightarrow> av1 k = Some v"
    using ok(1) unfolding edges_ok_def by auto
  have known: "av1 k \<noteq> None" if "(k, e) \<in> set es" "\<not> is_allocation e" for k e
    using e(3) [OF that(1)] that(2) unfolding is_allocation_def by fastforce
  then obtain av2 where b: "bump_versions es av1 = Inr av2"
    "\<And>k. av2 k = (if \<exists>e. (k, e) \<in> set es \<and> fe_mutated e = Some True \<and> \<not> is_allocation e then map_option Suc (av1 k) else av1 k)"
    using bump_versions_ok [OF e(2), of av1] by blast
  let ?n = "\<lparr>fn_event = i, fn_edges = es\<rparr>"
  have "version_in av2 k = version_in av1 k + (if changes ?n k then 1 else 0)" for k
  proof (cases "changes ?n k")
    case True
    then obtain v where "av1 k = Some v" using known [of k] by (auto simp: changes_def)
    then show ?thesis using True b(2) [of k] unfolding changes_def version_in_def by simp
  next
    case False
    then have "\<not> (\<exists>e. (k, e) \<in> set es \<and> fe_mutated e = Some True \<and> \<not> is_allocation e)" by (simp add: changes_def)
    then have "av2 k = av1 k" unfolding b(2) by (rule if_not_P)
    then show ?thesis using False by (simp add: version_in_def)
  qed
  moreover have "v = version_in av k" if "(k, e) \<in> set es" "fe_input_version e = Some v" for k e v
    using e(3) [OF that] extends_version [OF e(1), of k] by (simp add: version_in_def)
  ultimately show ?thesis using d b(1) e(2) ok(2) extends_version [OF e(1)] by (auto simp: data_flow_node_def)
qed

definition edges_from :: "flow_lib \<Rightarrow> EventTree \<Rightarrow> DataFlowNode \<Rightarrow> bool" where
  "edges_from L T n \<longleftrightarrow> (\<exists>av. fn_edges n = fst (determine_edges L T (fn_event n) av))"

lemma flow_nodes_from_ok:
  "\<exists>ns. flow_nodes_from L T is av = Inr ns \<and> map fn_event ns = is
    \<and> (\<forall>n \<in> set ns. distinct (map fst (fn_edges n)) \<and> sorted (map fst (fn_edges n)) \<and> edges_from L T n)
    \<and> (\<forall>j < length ns. \<forall>k e v. (k, e) \<in> set (fn_edges (ns ! j)) \<longrightarrow> fe_input_version e = Some v
         \<longrightarrow> v = version_in av k + changes_of k (take j ns))"
proof (induction "is" arbitrary: av)
  case (Cons i "is")
  obtain n av' where n: "data_flow_node L T i av = Inr (n, av')" "fn_event n = i" "distinct (map fst (fn_edges n))" "sorted (map fst (fn_edges n))"
    "fn_edges n = fst (determine_edges L T i av)"
    "\<And>k e v. (k, e) \<in> set (fn_edges n) \<Longrightarrow> fe_input_version e = Some v \<Longrightarrow> v = version_in av k"
    "\<And>k. version_in av' k = version_in av k + (if changes n k then 1 else 0)"
    using data_flow_node_ok [of L T i av] by blast
  obtain ns where ns: "flow_nodes_from L T is av' = Inr ns" "map fn_event ns = is"
    "\<And>m. m \<in> set ns \<Longrightarrow> distinct (map fst (fn_edges m)) \<and> sorted (map fst (fn_edges m)) \<and> edges_from L T m"
    "\<And>j k e v. j < length ns \<Longrightarrow> (k, e) \<in> set (fn_edges (ns ! j)) \<Longrightarrow> fe_input_version e = Some v
         \<Longrightarrow> v = version_in av' k + changes_of k (take j ns)"
    using Cons.IH [of av'] by blast
  have "v = version_in av k + changes_of k (take j (n # ns))"
    if "j < length (n # ns)" "(k, e) \<in> set (fn_edges ((n # ns) ! j))" "fe_input_version e = Some v" for j k e v
    using that n(6) [of k e v] ns(4) [of "j - 1" k e v] n(7) [of k] by (cases j) auto
  moreover have "edges_from L T n" using n(2,5) unfolding edges_from_def by blast
  ultimately show ?case using n(1-4) ns(1-3) by (intro exI [of _ "n # ns"]) auto
qed simp

lemma flow_nodes_ok:
  obtains ns where "flow_nodes L T = Inr ns" "map fn_event ns = extract_leaf_events L T (get_root_nodes T)"
    "\<And>n. n \<in> set ns \<Longrightarrow> distinct (map fst (fn_edges n)) \<and> sorted (map fst (fn_edges n)) \<and> edges_from L T n"
    "\<And>j k e v. j < length ns \<Longrightarrow> (k, e) \<in> set (fn_edges (ns ! j)) \<Longrightarrow> fe_input_version e = Some v \<Longrightarrow> v = changes_of k (take j ns)"
proof -
  obtain ns where ns: "flow_nodes_from L T (extract_leaf_events L T (get_root_nodes T)) (\<lambda>_. None) = Inr ns"
    "map fn_event ns = extract_leaf_events L T (get_root_nodes T)"
    "\<And>n. n \<in> set ns \<Longrightarrow> distinct (map fst (fn_edges n)) \<and> sorted (map fst (fn_edges n)) \<and> edges_from L T n"
    "\<And>j k e v. j < length ns \<Longrightarrow> (k, e) \<in> set (fn_edges (ns ! j)) \<Longrightarrow> fe_input_version e = Some v
       \<Longrightarrow> v = version_in (\<lambda>_. None) k + changes_of k (take j ns)"
    using flow_nodes_from_ok [of L T "extract_leaf_events L T (get_root_nodes T)" "\<lambda>_. None"] by blast
  have "sorted (map (\<lambda>n. start_of T (fn_event n)) ns)"
  proof -
    have "map (\<lambda>n. start_of T (fn_event n)) ns = map (start_of T) (map fn_event ns)" by simp
    then show ?thesis unfolding ns(2) extract_leaf_events_def by (metis sorted_sort_key)
  qed
  then have "flow_nodes L T = Inr ns" using ns(1) by (simp add: flow_nodes_def sort_key_id_if_sorted)
  then show thesis using that ns(2-4) by (simp add: version_in_def)
qed

lemma take_changes: "j < length ns \<Longrightarrow> changes_of k (take (Suc j) ns) = changes_of k (take j ns) + (if changes (ns ! j) k then 1 else 0)"
  by (simp add: take_Suc_conv_app_nth)

lemma changes_of_mono: "i \<le> j \<Longrightarrow> changes_of k (take i ns) \<le> changes_of k (take j ns)"
  by (metis changes_of_simps(3) le_add1 le_add_diff_inverse take_add)

definition allocates :: "DataFlowNode \<Rightarrow> TensorKey \<Rightarrow> bool" where
  "allocates n k \<longleftrightarrow> (\<exists>e. (k, e) \<in> set (fn_edges n) \<and> is_allocation e)"

lemma fn_inputs_iff: "(k, v) \<in> set (fn_inputs n) \<longleftrightarrow> (\<exists>e. (k, e) \<in> set (fn_edges n) \<and> fe_input_version e = Some v)"
  by (force simp: fn_inputs_def map_filter_def)

lemma fn_outputs_iff:
  "(k, v) \<in> set (fn_outputs n) \<longleftrightarrow>
     (\<exists>e. (k, e) \<in> set (fn_edges n) \<and> (is_allocation e \<and> \<not> is_deletion e \<or> fe_mutated e = Some True)
        \<and> v = (case fe_input_version e of None \<Rightarrow> 0 | Some v \<Rightarrow> v + 1))"
  by (force simp: fn_outputs_def)

lemma change_made:
  assumes "changes_of k (take j ns) = Suc u" "j \<le> length ns"
  shows "\<exists>i < j. changes (ns ! i) k \<and> changes_of k (take i ns) = u"
  using assms
proof (induction j)
  case (Suc j)
  then show ?case by (cases "changes (ns ! j) k") (auto simp: take_changes less_Suc_eq)
qed simp

text \<open>What the versions of a list of nodes have to satisfy, edge by edge.\<close>

definition versions_counted :: "DataFlowNode list \<Rightarrow> bool" where
  "versions_counted ns \<longleftrightarrow>
     (\<forall>n \<in> set ns. distinct (map fst (fn_edges n)))
     \<and> (\<forall>j < length ns. \<forall>k e v. (k, e) \<in> set (fn_edges (ns ! j)) \<longrightarrow> fe_input_version e = Some v \<longrightarrow> v = changes_of k (take j ns))"

lemma counted_edge:
  assumes "versions_counted ns" "j < length ns" "(k, e) \<in> set (fn_edges (ns ! j))"
  shows "fe_input_version e = Some v \<Longrightarrow> v = changes_of k (take j ns)"
    "allocates (ns ! j) k \<longleftrightarrow> is_allocation e" "changes (ns ! j) k \<longleftrightarrow> fe_mutated e = Some True \<and> \<not> is_allocation e"
proof -
  have "distinct (map fst (fn_edges (ns ! j)))" using assms(1,2) by (simp add: versions_counted_def)
  then have u: "e' = e" if "(k, e') \<in> set (fn_edges (ns ! j))" for e' using that assms(3) by (metis eq_key_imp_eq_value)
  show "fe_input_version e = Some v \<Longrightarrow> v = changes_of k (take j ns)" using assms unfolding versions_counted_def by blast
  show "allocates (ns ! j) k \<longleftrightarrow> is_allocation e" using u assms(3) unfolding allocates_def by blast
  show "changes (ns ! j) k \<longleftrightarrow> fe_mutated e = Some True \<and> \<not> is_allocation e" using u assms(3) unfolding changes_def by blast
qed

lemma counted_input: "versions_counted ns \<Longrightarrow> j < length ns \<Longrightarrow> (k, v) \<in> set (fn_inputs (ns ! j)) \<Longrightarrow> v = changes_of k (take j ns)"
  unfolding fn_inputs_iff using counted_edge(1) by blast

lemma counted_output:
  assumes "versions_counted ns" "j < length ns" "(k, v) \<in> set (fn_outputs (ns ! j))"
  shows "v = (if allocates (ns ! j) k then 0 else changes_of k (take (Suc j) ns))" "allocates (ns ! j) k \<or> changes (ns ! j) k"
proof -
  obtain e where e: "(k, e) \<in> set (fn_edges (ns ! j))" "is_allocation e \<and> \<not> is_deletion e \<or> fe_mutated e = Some True"
    "v = (case fe_input_version e of None \<Rightarrow> 0 | Some v \<Rightarrow> v + 1)" using assms(3) unfolding fn_outputs_iff by blast
  note c = counted_edge [OF assms(1,2) e(1)]
  show "allocates (ns ! j) k \<or> changes (ns ! j) k" using e(2) c(2,3) by blast
  show "v = (if allocates (ns ! j) k then 0 else changes_of k (take (Suc j) ns))"
  proof (cases "fe_input_version e")
    case None
    then show ?thesis using e(3) c(2) by (simp add: is_allocation_def)
  next
    case (Some u)
    then have "\<not> allocates (ns ! j) k" "changes (ns ! j) k" using e(2) c(2,3) by (auto simp: is_allocation_def)
    then show ?thesis using Some e(3) c(1) [OF Some] take_changes [OF assms(2)] by simp
  qed
qed

lemma counted_read:
  assumes "versions_counted ns" "j < length ns" "(k, v) \<in> set (fn_inputs (ns ! j))" "v > 0"
  shows "\<exists>i < j. (k, v) \<in> set (fn_outputs (ns ! i))"
proof -
  have "changes_of k (take j ns) = Suc (v - 1)" using counted_input [OF assms(1-3)] assms(4) by simp
  then obtain i where i: "i < j" "changes (ns ! i) k" "changes_of k (take i ns) = v - 1" using change_made assms(2) by (metis less_imp_le)
  then obtain e where e: "(k, e) \<in> set (fn_edges (ns ! i))" "fe_mutated e = Some True" "\<not> is_allocation e" unfolding changes_def by blast
  then obtain u where u: "fe_input_version e = Some u" by (auto simp: is_allocation_def)
  then have "u = v - 1" using counted_edge(1) [OF assms(1) _ e(1) u] i assms(2) by simp
  then have "(k, v) \<in> set (fn_outputs (ns ! i))" unfolding fn_outputs_iff using e u assms(4) by (intro exI [of _ e]) simp
  then show ?thesis using i(1) by blast
qed

lemma counted_once:
  assumes "versions_counted ns" "i < j" "j < length ns" "(k, v) \<in> set (fn_outputs (ns ! i))" "(k, v) \<in> set (fn_outputs (ns ! j))"
  shows "v = 0 \<and> allocates (ns ! i) k \<and> allocates (ns ! j) k"
proof -
  have i: "i < length ns" using assms(2,3) by simp
  note a = counted_output [OF assms(1) i assms(4)] and b = counted_output [OF assms(1,3,5)]
  have "changes_of k (take (Suc i) ns) \<le> changes_of k (take j ns)" using assms(2) by (intro changes_of_mono) simp
  then show ?thesis using a b take_changes [OF i, of k] take_changes [OF assms(3), of k] by (auto split: if_splits)
qed

text \<open>
  C21: The data flow graph is built without an exception on every tree, with one node per leaf event in the order of
  their times. The version of a tensor that a node reads is the number of earlier nodes that changed the tensor; a node
  that changes it makes the next version. So a version above 0 is made by one node only, and made before it is read; only
  version 0 can be made twice, by two nodes that both allocate the tensor.
\<close>

theorem flow_versions_exact:
  "\<exists>ns. flow_nodes L T = Inr ns \<and> map fn_event ns = extract_leaf_events L T (get_root_nodes T)
    \<and> (\<forall>j < length ns. \<forall>k v.
         ((k, v) \<in> set (fn_inputs (ns ! j)) \<longrightarrow> v = changes_of k (take j ns))
         \<and> ((k, v) \<in> set (fn_outputs (ns ! j)) \<longrightarrow>
              v = (if allocates (ns ! j) k then 0 else changes_of k (take (Suc j) ns)))
         \<and> ((k, v) \<in> set (fn_inputs (ns ! j)) \<and> v > 0 \<longrightarrow> (\<exists>i < j. (k, v) \<in> set (fn_outputs (ns ! i))))
         \<and> ((k, v) \<in> set (fn_outputs (ns ! j)) \<longrightarrow>
              (\<forall>i < j. (k, v) \<in> set (fn_outputs (ns ! i)) \<longrightarrow> v = 0 \<and> allocates (ns ! i) k \<and> allocates (ns ! j) k)))"
proof -
  obtain ns where ns: "flow_nodes L T = Inr ns" "map fn_event ns = extract_leaf_events L T (get_root_nodes T)"
    "\<And>n. n \<in> set ns \<Longrightarrow> distinct (map fst (fn_edges n)) \<and> sorted (map fst (fn_edges n)) \<and> edges_from L T n"
    "\<And>j k e v. j < length ns \<Longrightarrow> (k, e) \<in> set (fn_edges (ns ! j)) \<Longrightarrow> fe_input_version e = Some v \<Longrightarrow> v = changes_of k (take j ns)"
    using flow_nodes_ok [of L T] by metis
  then have c: "versions_counted ns" unfolding versions_counted_def by blast
  show ?thesis using ns(1,2) counted_input [OF c] counted_output(1) [OF c] counted_read [OF c] counted_once [OF c]
    by (intro exI [of _ ns]) blast
qed

text \<open>A trace in which a backward operator allocates a tensor, two others change it, and it is freed.\<close>

definition demo_backward :: "int \<Rightarrow> int \<Rightarrow> op_input list \<Rightarrow> ProfilerEvent" where
  "demo_backward s e ins = \<lparr>pv_tid = 1, pv_start_ns = s,
     pv_fields = TorchOp \<lparr>tf_name = ''a::b'', tf_end_ns = e, tf_scope = 1, tf_forward_tid = 0, tf_sequence_num = 0, tf_inputs = ins\<rparr>\<rparr>"

definition demo_flow_events :: "ProfilerEvent list" where
  "demo_flow_events =
     [demo_backward 1000 9000 [], demo_alloc_event 2000 256 24, demo_backward 10000 19000 [InTensor (Some (demo_tensor 7 256))],
      demo_backward 20000 29000 [InTensor (Some (demo_tensor 7 256))], demo_alloc_event 30000 256 (- 24)]"

definition demo_flow_tree :: EventTree where
  "demo_flow_tree = projr (the (event_tree_of demo_flow_events))"

definition demo_lib :: flow_lib where
  "demo_lib = \<lparr>fl_traverse_dfs = preorder 5, fl_schemas = (\<lambda>_. None)\<rparr>"

definition demo_key :: TensorKey where
  "demo_key = TensorKey 20 0 0 0"

lemma demo_tree_built: "event_tree_of demo_flow_events = Some (Inr demo_flow_tree)"
proof -
  have "case event_tree_of demo_flow_events of Some (Inr _) \<Rightarrow> True | _ \<Rightarrow> False" by code_simp
  then show ?thesis by (auto simp: demo_flow_tree_def split: option.splits sum.splits)
qed

lemma demo_flow_eval: "case flow_nodes demo_lib demo_flow_tree of Inr ns \<Rightarrow> (demo_key, 1) \<in> set (fn_inputs (ns ! 2)) \<and> 2 < length ns | Inl _ \<Rightarrow> False"
  by code_simp

theorem flow_versions_exact_witness:
  "\<exists>ns. flow_nodes demo_lib demo_flow_tree = Inr ns \<and> (demo_key, 1) \<in> set (fn_inputs (ns ! 2)) \<and> changes_of demo_key (take 2 ns) = 1
    \<and> (\<exists>i. (demo_key, 1) \<in> set (fn_outputs (ns ! i)))"
proof -
  obtain ns where ns: "flow_nodes demo_lib demo_flow_tree = Inr ns" "\<And>j k v. j < length ns \<Longrightarrow> (k, v) \<in> set (fn_inputs (ns ! j)) \<Longrightarrow>
     v = changes_of k (take j ns) \<and> (v > 0 \<longrightarrow> (\<exists>i < j. (k, v) \<in> set (fn_outputs (ns ! i))))"
    using flow_versions_exact [of demo_lib demo_flow_tree] by blast
  have "(demo_key, 1) \<in> set (fn_inputs (ns ! 2))" "2 < length ns" using demo_flow_eval unfolding ns(1) by simp_all
  then show ?thesis using ns(1) ns(2) [of 2 demo_key 1] by auto
qed

end
