(* ===== verification/Timeline_Balance.thy ===== *)
theory Timeline_Balance
  imports Memory_Timeline_Props
begin

text \<open>
  The timeline is balanced.  The proof counts, for one version of one tensor: a node allocates or frees a tensor exactly
  when an event below it does, an allocation lies below exactly one node, the changes of a tensor telescope over the
  nodes, and what is neither created nor listed as existing before does not occur.
\<close>

section \<open>Edges and allocation events\<close>

definition alloc_of :: "EventTree \<Rightarrow> nat \<Rightarrow> TensorKey \<Rightarrow> bool \<Rightarrow> bool" where
  "alloc_of T i k b =
     (case pv_fields (event_at T i) of
        Allocation a \<Rightarrow> from_allocation T i a = Some k \<and> (if b then af_alloc_size a > 0 else af_alloc_size a < 0)
      | _ \<Rightarrow> False)"

definition frees :: "DataFlowNode \<Rightarrow> TensorKey \<Rightarrow> bool" where
  "frees n k \<longleftrightarrow> (\<exists>e. (k, e) \<in> set (fn_edges n) \<and> is_deletion e)"

lemma deletion_fold:
  "if \<exists>i \<in> set xs. alloc_of T i k False
   then \<exists>v. map_of (fst (fold (deletion_edge T) xs st)) k = Some \<lparr>fe_input_version = Some v, fe_mutated = None\<rparr>
   else map_of (fst (fold (deletion_edge T) xs st)) k = map_of (fst st) k"
proof (induction xs arbitrary: st)
  case (Cons x xs)
  have one: "if alloc_of T x k False then \<exists>v. map_of (fst (deletion_edge T x st)) k = Some \<lparr>fe_input_version = Some v, fe_mutated = None\<rparr>
    else map_of (fst (deletion_edge T x st)) k = map_of (fst st) k"
    by (auto simp: alloc_of_def deletion_edge_def update_conv' split: extra_fields.splits option.splits prod.splits)
  show ?case using one Cons [of "deletion_edge T x st"] by (auto split: if_splits)
qed simp

lemma allocation_fold:
  "if \<exists>i \<in> set xs. alloc_of T i k True
   then map_of (fold (allocation_edge T) xs es) k = Some \<lparr>fe_input_version = None, fe_mutated = fe_mutated (edge_at es k)\<rparr>
   else map_of (fold (allocation_edge T) xs es) k = map_of es k"
proof (induction xs arbitrary: es)
  case (Cons x xs)
  have one: "if alloc_of T x k True then map_of (allocation_edge T x es) k = Some \<lparr>fe_input_version = None, fe_mutated = fe_mutated (edge_at es k)\<rparr>
    else map_of (allocation_edge T x es) k = map_of es k"
    by (auto simp: alloc_of_def allocation_edge_def update_conv' split: extra_fields.splits option.splits)
  then have "fe_mutated (edge_at (allocation_edge T x es) k) = fe_mutated (edge_at es k)" by (auto simp: edge_at_def split: if_splits)
  then show ?case using one Cons [of "allocation_edge T x es"] by (auto split: if_splits)
qed simp

lemma input_fold:
  "map_of (fst (fold input_edge ks ([], av))) k = Some e \<Longrightarrow> fe_input_version e \<noteq> None \<and> fe_mutated e \<noteq> None"
proof -
  have "\<forall>k e. map_of (fst (fold input_edge ks ([], av))) k = Some e \<longrightarrow> fe_input_version e \<noteq> None \<and> fe_mutated e \<noteq> None"
    by (rule fold_keeps) (auto simp: input_edge_def update_conv' split: option.splits prod.splits if_splits)
  then show "map_of (fst (fold input_edge ks ([], av))) k = Some e \<Longrightarrow> ?thesis" by blast
qed

lemma map_of_sorted:
  assumes "distinct (map fst xs)"
  shows "map_of (sort_key fst xs) = map_of (xs :: edges)"
proof -
  have "distinct (map fst (sort_key fst xs))" using assms by (metis mset_eq_imp_distinct_iff mset_map mset_sort)
  then show ?thesis using assms by (intro map_of_inject_set [THEN iffD2]) simp_all
qed

lemma edges_spec:
  assumes "edges_from L T n"
  defines "sub \<equiv> set (fl_traverse_dfs L (children_of T) [fn_event n])"
  shows "allocates n k \<longleftrightarrow> (\<exists>i \<in> sub. alloc_of T i k True)" "frees n k \<longleftrightarrow> (\<exists>i \<in> sub. alloc_of T i k False)"
proof -
  let ?sub = "fl_traverse_dfs L (children_of T) [fn_event n]"
  obtain av where av: "fn_edges n = fst (determine_edges L T (fn_event n) av)" using assms(1) by (auto simp: edges_from_def)
  define es1 where "es1 = fold input_edge (fold add_mutable (concat (map (mutable_uses L T) ?sub)) []) ([], av)"
  define es2 where "es2 = fst (fold (deletion_edge T) ?sub es1)"
  define es3 where "es3 = fold (allocation_edge T) ?sub es2"
  have e: "fn_edges n = sort_key fst es3" unfolding av es1_def es2_def es3_def determine_edges_def Let_def by simp
  have "distinct (map fst (fn_edges n))" using determine_edges_ok(1) av by (metis edges_ok_def fst_conv surj_pair)
  moreover have "distinct (map fst (fn_edges n)) = distinct (map fst es3)" unfolding e by (metis mset_eq_imp_distinct_iff mset_map mset_sort)
  ultimately have d: "distinct (map fst (fn_edges n))" "distinct (map fst es3)" by simp_all
  have m: "map_of (fn_edges n) = map_of es3" unfolding e by (rule map_of_sorted) (rule d(2))
  have iff: "(k, x) \<in> set (fn_edges n) \<longleftrightarrow> map_of es3 k = Some x" for x using d(1) m by (metis map_of_eq_Some_iff)
  note A = allocation_fold [of ?sub T k es2, folded es3_def] and D = deletion_fold [of ?sub T k es1, folded es2_def]
  have I: "map_of (fst es1) k = Some x \<Longrightarrow> fe_input_version x \<noteq> None \<and> fe_mutated x \<noteq> None" for x unfolding es1_def by (rule input_fold)
  have v2: "map_of es2 k = Some x \<Longrightarrow> fe_input_version x \<noteq> None" for x using D I [of x] by (auto split: if_splits)
  have m2: "is_deletion (edge_at es2 k) \<longleftrightarrow> (\<exists>i \<in> set ?sub. alloc_of T i k False)"
    using D I unfolding is_deletion_def edge_at_def new_edge_def by (auto split: if_splits option.splits)
  show "allocates n k \<longleftrightarrow> (\<exists>i \<in> sub. alloc_of T i k True)"
    unfolding allocates_def iff sub_def is_allocation_def using A v2 by (auto split: if_splits)
  show "frees n k \<longleftrightarrow> (\<exists>i \<in> sub. alloc_of T i k False)"
  proof (cases "\<exists>i \<in> set ?sub. alloc_of T i k True")
    case True
    then have "map_of es3 k = Some \<lparr>fe_input_version = None, fe_mutated = fe_mutated (edge_at es2 k)\<rparr>" using A by presburger
    then show ?thesis unfolding frees_def iff sub_def using m2 by (simp add: is_deletion_def)
  next
    case False
    then have "map_of es3 k = map_of es2 k" using A by presburger
    then show ?thesis unfolding frees_def iff sub_def using m2 D
      by (auto simp: edge_at_def is_deletion_def new_edge_def split: option.splits if_splits)
  qed
qed

section \<open>The versions of a tensor\<close>

lemma version_made:
  assumes "v < changes_of k (take j ns)" "j \<le> length ns"
  shows "\<exists>i < j. changes (ns ! i) k \<and> changes_of k (take i ns) = v"
  using assms
proof (induction j)
  case (Suc j)
  then show ?case by (cases "v < changes_of k (take j ns)") (auto simp: take_changes less_Suc_eq split: if_splits)
qed simp

lemma snapshot_set:
  "set (category_snapshot ns d) =
     (\<Union>n \<in> set ns. set (node_versions n)) \<union> (\<Union>ie \<in> set d. (\<lambda>key. (key, 0)) ` set (ce_by_id_keyset (snd ie)))"
  by (auto simp: category_snapshot_def)

lemma counted_change:
  assumes "versions_counted ns" "i < length ns" "changes (ns ! i) k"
  shows "(k, changes_of k (take i ns)) \<in> set (fn_inputs (ns ! i))" "(k, Suc (changes_of k (take i ns))) \<in> set (fn_outputs (ns ! i))"
proof -
  obtain e where e: "(k, e) \<in> set (fn_edges (ns ! i))" "fe_mutated e = Some True" "\<not> is_allocation e" using assms(3) by (auto simp: changes_def)
  then obtain u where u: "fe_input_version e = Some u" by (auto simp: is_allocation_def)
  have "u = changes_of k (take i ns)" using counted_edge(1) [OF assms(1,2) e(1) u] .
  then show "(k, changes_of k (take i ns)) \<in> set (fn_inputs (ns ! i))" "(k, Suc (changes_of k (take i ns))) \<in> set (fn_outputs (ns ! i))"
    using e u unfolding fn_inputs_iff fn_outputs_iff by auto
qed

lemma snapshot_versions:
  assumes "versions_counted ns" "(k, v) \<in> set (category_snapshot ns d)"
  shows "v \<le> changes_of k ns" "w \<le> changes_of k ns \<Longrightarrow> w = 0 \<or> w = changes_of k ns \<Longrightarrow> (k, w) \<in> set (category_snapshot ns d)"
proof -
  have le: "changes_of k (take j ns) \<le> changes_of k ns" for j using changes_of_mono [of j "max j (length ns)" k ns] by simp
  have v: "v \<le> changes_of k ns"
  proof (cases "\<exists>n \<in> set ns. (k, v) \<in> set (node_versions n)")
    case True
    then obtain j where j: "j < length ns" "(k, v) \<in> set (node_versions (ns ! j))" by (metis in_set_conv_nth)
    then consider "(k, v) \<in> set (fn_inputs (ns ! j))" | "v = 0" | "(k, v) \<in> set (fn_outputs (ns ! j))" by (auto simp: node_versions_def)
    then show ?thesis
    proof cases
      case 1
      then show ?thesis using counted_input [OF assms(1) j(1) 1] le [of j] by simp
    next
      case 3
      then show ?thesis using counted_output(1) [OF assms(1) j(1) 3] le [of "Suc j"] by simp
    qed simp
  next
    case False
    then have "v = 0" using assms(2) unfolding snapshot_set by auto
    then show ?thesis by simp
  qed
  then show "v \<le> changes_of k ns" .
  show "(k, w) \<in> set (category_snapshot ns d)" if "w \<le> changes_of k ns" "w = 0 \<or> w = changes_of k ns"
  proof (cases "changes_of k ns")
    case 0
    then show ?thesis using assms(2) v that by simp
  next
    case (Suc u)
    obtain i where i: "i < length ns" "changes (ns ! i) k" "changes_of k (take i ns) = 0"
      using version_made [of 0 k "length ns" ns] Suc by auto
    obtain j where j: "j < length ns" "changes (ns ! j) k" "changes_of k (take j ns) = u"
      using version_made [of u k "length ns" ns] Suc by auto
    have "(k, 0) \<in> set (fn_inputs (ns ! i))" "(k, Suc u) \<in> set (fn_outputs (ns ! j))"
      using counted_change [OF assms(1) i(1,2)] counted_change [OF assms(1) j(1,2)] i(3) j(3) by simp_all
    then have "(k, 0) \<in> set (node_versions (ns ! i))" "(k, Suc u) \<in> set (node_versions (ns ! j))" by (simp_all add: node_versions_def)
    then show ?thesis using that(2) Suc i(1) j(1) unfolding snapshot_set by (metis UN_I UnI1 nth_mem)
  qed
qed

lemma last_version_sorted:
  assumes "sorted (xs :: (TensorKey \<times> nat) list)"
  shows "last_version xs k = (if \<exists>v. (k, v) \<in> set xs then Some (Max {v. (k, v) \<in> set xs}) else None)"
  using assms
proof (induction xs rule: rev_induct)
  case (snoc x xs)
  obtain a b where x: "x = (a, b)" by force
  have f: "finite {v. (k, v) \<in> set ys}" for ys :: "(TensorKey \<times> nat) list"
    by (rule finite_subset [of _ "snd ` set ys"]) force+
  have IH: "last_version xs k = (if \<exists>v. (k, v) \<in> set xs then Some (Max {v. (k, v) \<in> set xs}) else None)"
    using snoc by (simp add: sorted_append)
  show ?case
  proof (cases "a = k")
    case True
    have "\<forall>y \<in> set xs. y \<le> x" using snoc.prems by (simp add: sorted_append)
    then have "v \<le> b" if "(k, v) \<in> set (xs @ [x])" for v using that True by (auto simp: x)
    then have "Max {v. (k, v) \<in> set (xs @ [x])} = b" using f [of "xs @ [x]"] True by (intro Max_eqI) (auto simp: x)
    then show ?thesis using True by (auto simp: last_version_def x)
  next
    case False
    then have "last_version (xs @ [x]) k = last_version xs k" by (simp add: last_version_def x)
    then show ?thesis using IH False by (simp add: x)
  qed
qed (simp add: last_version_def)

lemma last_version_snapshot:
  assumes "versions_counted ns"
  shows "last_version (category_snapshot ns d) k =
    (if k \<in> fst ` set (category_snapshot ns d) then Some (changes_of k ns) else None)"
proof -
  let ?s = "category_snapshot ns d"
  have "Max {v. (k, v) \<in> set ?s} = changes_of k ns" if "(k, v) \<in> set ?s" for v
  proof (rule Max_eqI)
    show "finite {v. (k, v) \<in> set ?s}" by (rule finite_subset [of _ "snd ` set ?s"]) force+
  qed (use snapshot_versions [OF assms that] snapshot_versions(1) [OF assms] in auto)
  moreover have "sorted ?s" by (simp add: category_snapshot_def)
  ultimately show ?thesis using last_version_sorted [of ?s k] by (force simp: image_iff)
qed

section \<open>Counting\<close>

text \<open>How a row changes the bytes attributed to a version of a tensor; for tensors whole storages move, so the events of
  the graph are counted in units of the storage.\<close>

definition unit_at :: "nat \<Rightarrow> nat \<Rightarrow> int" where
  "unit_at v w = (if v = w then 1 else 0)"

fun event_units :: "TensorKey \<Rightarrow> nat \<Rightarrow> int \<times> Action \<times> TensorKey \<times> nat \<Rightarrow> int" where
  "event_units k v (ts, action, key, w) =
     (if key \<noteq> k then 0
      else case action of
             INCREMENT_VERSION \<Rightarrow> unit_at v (Suc w) - unit_at v w
           | DESTROY \<Rightarrow> - unit_at v w
           | _ \<Rightarrow> unit_at v w)"

definition units :: "TensorKey \<Rightarrow> nat \<Rightarrow> (int \<times> Action \<times> TensorKey \<times> nat) list \<Rightarrow> int" where
  "units k v es = sum_list (map (event_units k v) es)"

lemma units_simps [simp]:
  "units k v [] = 0" "units k v (e # es) = event_units k v e + units k v es" "units k v (es @ es') = units k v es + units k v es'"
  by (simp_all add: units_def)

definition edge_units :: "nat \<Rightarrow> nat \<Rightarrow> DataFlowEdge \<Rightarrow> int" where
  "edge_units m v e =
     (if is_allocation e then unit_at v 0
      else case (fe_mutated e, fe_input_version e) of (Some True, Some u) \<Rightarrow> unit_at v (Suc u) - unit_at v u | _ \<Rightarrow> 0)
     - (if is_deletion e then unit_at v m else 0)"

lemma edge_events_ok:
  assumes "is_allocation e \<Longrightarrow> recorded (key, True) \<noteq> None" "is_deletion e \<Longrightarrow> recorded (key, False) \<noteq> None \<and> lastv key = Some m"
  shows "\<exists>es. edge_events T recorded lastv i (key, e) = Inr es \<and> units k v es = (if key = k then edge_units m v e else 0)"
proof -
  obtain made where made: "(if is_allocation e then rbind (time_of (recorded (key, True))) (\<lambda>ts. Inr [(ts, CREATE, key, 0)])
      else case (fe_mutated e, fe_input_version e) of (Some True, Some v) \<Rightarrow> Inr [(start_of T i, INCREMENT_VERSION, key, v)] | _ \<Rightarrow> Inr []) = Inr made"
    "units k v made = (if key \<noteq> k then 0 else if is_allocation e then unit_at v 0
      else case (fe_mutated e, fe_input_version e) of (Some True, Some u) \<Rightarrow> unit_at v (Suc u) - unit_at v u | _ \<Rightarrow> 0)"
  proof (cases "is_allocation e")
    case True
    then show thesis using that assms(1) by (auto simp: time_of_def)
  next
    case False
    then obtain u where u: "fe_input_version e = Some u" by (auto simp: is_allocation_def)
    show thesis
    proof (cases "fe_mutated e = Some True")
      case True
      then show thesis using that u False by simp
    next
      case mut: False
      then show thesis using False u by (intro that [of "[]"]) (auto split: option.splits bool.splits)
    qed
  qed
  obtain freed where freed: "(if is_deletion e then (case lastv key of None \<Rightarrow> Inl KeyError
      | Some v \<Rightarrow> rbind (time_of (recorded (key, False))) (\<lambda>ts. Inr [(ts, DESTROY, key, v)])) else Inr []) = Inr freed"
    "units k v freed = (if key \<noteq> k then 0 else if is_deletion e then - unit_at v m else 0)"
    using assms(2) by (cases "is_deletion e") (auto simp: time_of_def split: option.splits)
  show ?thesis using made freed by (simp add: edge_events_def edge_units_def)
qed

lemma rmap_Inr:
  assumes "\<And>x. x \<in> set xs \<Longrightarrow> \<exists>y. f x = Inr y \<and> P x y"
  shows "\<exists>ys. rmap f xs = Inr ys \<and> list_all2 P xs ys"
  using assms
proof (induction xs)
  case (Cons x xs)
  obtain y ys where "f x = Inr y" "P x y" "rmap f xs = Inr ys" "list_all2 P xs ys" using Cons by (metis list.set_intros(1,2))
  then show ?case by simp
qed simp

lemma units_concat: "list_all2 (\<lambda>x ys. units k v ys = f x) xs yss \<Longrightarrow> units k v (concat yss) = sum_list (map f xs)"
  by (induction xs yss rule: list_all2_induct) simp_all

lemma one_key_sum:
  assumes "distinct (map fst es)"
  shows "sum_list (map (\<lambda>(key, e). if key = k then g e else 0) es) = (case map_of es k of Some e \<Rightarrow> g e | None \<Rightarrow> (0 :: int))"
  using assms
proof (induction es)
  case (Cons ke es)
  obtain k' e where "ke = (k', e)" by force
  moreover have "map_of es k' = None" using Cons.prems \<open>ke = (k', e)\<close> by (simp add: map_of_eq_None_iff)
  ultimately show ?case using Cons by auto
qed simp

definition flag :: "bool \<Rightarrow> int" where
  "flag b = (if b then 1 else 0)"

lemma node_units:
  assumes "versions_counted ns" "j < length ns"
  shows "(case map_of (fn_edges (ns ! j)) k of Some e \<Rightarrow> edge_units m v e | None \<Rightarrow> 0) =
    flag (allocates (ns ! j) k) * unit_at v 0 - flag (frees (ns ! j) k) * unit_at v m
    + (unit_at v (changes_of k (take (Suc j) ns)) - unit_at v (changes_of k (take j ns)))"
proof (cases "map_of (fn_edges (ns ! j)) k")
  case None
  then have "(k, e) \<notin> set (fn_edges (ns ! j))" for e by (metis map_of_eq_None_iff image_eqI fst_conv)
  then show ?thesis using None take_changes [OF assms(2), of k] by (simp add: flag_def allocates_def frees_def changes_def)
next
  case (Some e)
  then have e: "(k, e) \<in> set (fn_edges (ns ! j))" by (rule map_of_SomeD)
  note c = counted_edge [OF assms e]
  have "distinct (map fst (fn_edges (ns ! j)))" using assms by (simp add: versions_counted_def)
  then have "frees (ns ! j) k \<longleftrightarrow> is_deletion e" using e unfolding frees_def by (metis eq_key_imp_eq_value)
  moreover have "fe_input_version e = Some (changes_of k (take j ns))" if "\<not> is_allocation e"
    using that c(1) by (auto simp: is_allocation_def)
  ultimately show ?thesis using Some c(2,3) take_changes [OF assms(2), of k]
    by (cases "is_allocation e"; cases "fe_mutated e = Some True")
      (auto simp: edge_units_def flag_def is_allocation_def split: option.splits bool.splits)
qed

lemma telescope: "(\<Sum>j = 0..<m. f (Suc j)) - (\<Sum>j = 0..<m. f j) = f m - (f 0 :: int)"
  by (induction m) simp_all

lemma flag_sum: "(\<Sum>j = 0..<length ns. flag (P (ns ! j))) = int (length (filter P ns))"
proof -
  have "(\<Sum>j = 0..<length ns. flag (P (ns ! j))) = sum_list (map (\<lambda>n. flag (P n)) ns)"
    by (simp add: sum_list_sum_nth)
  also have "\<dots> = int (length (filter P ns))" by (induction ns) (simp_all add: flag_def)
  finally show ?thesis .
qed

lemma graph_units:
  assumes "versions_counted ns" "m = changes_of k ns"
  shows "sum_list (map (\<lambda>n. case map_of (fn_edges n) k of Some e \<Rightarrow> edge_units m v e | None \<Rightarrow> 0) ns) =
    int (length (filter (\<lambda>n. allocates n k) ns)) * unit_at v 0 - int (length (filter (\<lambda>n. frees n k) ns)) * unit_at v m
    + (unit_at v m - unit_at v 0)"
proof -
  have "sum_list (map (\<lambda>n. case map_of (fn_edges n) k of Some e \<Rightarrow> edge_units m v e | None \<Rightarrow> 0) ns)
    = (\<Sum>j = 0..<length ns. flag (allocates (ns ! j) k) * unit_at v 0 - flag (frees (ns ! j) k) * unit_at v m
        + (unit_at v (changes_of k (take (Suc j) ns)) - unit_at v (changes_of k (take j ns))))"
    unfolding sum_list_sum_nth length_map by (rule sum.cong) (simp_all only: nth_map atLeastLessThan_iff node_units [OF assms(1)])
  also have "\<dots> = (\<Sum>j = 0..<length ns. flag (allocates (ns ! j) k)) * unit_at v 0 - (\<Sum>j = 0..<length ns. flag (frees (ns ! j) k)) * unit_at v m
      + (unit_at v (changes_of k (take (length ns) ns)) - unit_at v (changes_of k (take 0 ns)))"
    by (simp only: sum.distrib sum_subtractf sum_distrib_right telescope [of "\<lambda>j. unit_at v (changes_of k (take j ns))"])
  finally show ?thesis using assms(2) by (simp add: flag_sum [of "\<lambda>n. allocates n k"] flag_sum [of "\<lambda>n. frees n k"])
qed

section \<open>Frees\<close>

text \<open>The number of a storage is given up when it is freed, so a key is freed by one event only.\<close>

lemma tensor_infos_alloc:
  assumes "tensor_infos i0 seen es = Inr ts" "m < length es" "pv_fields (es ! m) = Allocation f"
  shows "\<exists>p < length ts. rt_ref (ts ! p) = (i0 + m, 0, 0) \<and> rt_is_free (ts ! p) = (af_alloc_size f < 0)"
  using assms
proof (induction es arbitrary: i0 seen ts m)
  case (Cons e es)
  have tail: "\<exists>p < length (xs @ rest). rt_ref ((xs @ rest) ! p) = (i0 + m, 0, 0) \<and> rt_is_free ((xs @ rest) ! p) = (af_alloc_size f < 0)"
    if ti: "tensor_infos (Suc i0) seen' es = Inr rest" and m': "m = Suc m'" for xs rest seen' m'
  proof -
    obtain p where "p < length rest" "rt_ref (rest ! p) = (Suc i0 + m', 0, 0)" "rt_is_free (rest ! p) = (af_alloc_size f < 0)"
      using Cons.IH [OF ti, of m'] Cons.prems m' by auto
    then show ?thesis using m' by (intro exI [of _ "length xs + p"]) (simp add: nth_append)
  qed
  show ?case
  proof (cases m)
    case 0
    then have e: "pv_fields e = Allocation f" using Cons.prems(3) by simp
    then obtain rest where "ts = \<lparr>rt_impl = None, rt_ptr = Some (af_ptr f), rt_device_type = af_device_type f,
        rt_device_index = af_device_index f, rt_is_free = af_alloc_size f < 0, rt_ref = (i0, 0, 0)\<rparr> # rest"
      using Cons.prems(1) by (auto simp: Let_def res_simps)
    then show ?thesis using 0 by (intro exI [of _ 0]) simp
  next
    case (Suc m')
    then obtain xs rest seen' where "ts = xs @ rest" "tensor_infos (Suc i0) seen' es = Inr rest"
      using Cons.prems(1) by (auto simp: Let_def res_simps split: extra_fields.splits option.splits if_splits) (metis append_Nil append_Cons)+
    then show ?thesis using tail Suc by blast
  qed
qed simp

lemma freed_once:
  assumes "calculate_unique_id (et_events T) = Inr (et_ids T)" "i < length (et_events T)" "j < length (et_events T)"
    "alloc_of T i k False" "alloc_of T j k False"
  shows "i = j"
proof -
  obtain ts where ts: "get_tensor_info (et_events T) = Inr ts" using assms(1) by (auto simp: calculate_unique_id_def res_simps)
  let ?as = "number_storages 0 (\<lambda>_. None) ts"
  obtain m where ids: "\<And>q. q < length ts \<Longrightarrow> et_ids T (rt_ref (ts ! q)) = \<lparr>id_tensor = m (?as ! q), id_allocation = Some (?as ! q)\<rparr>"
    using unique_ids [OF ts] assms(1) by auto
  have place: "\<exists>p < length ts. rt_ref (ts ! p) = (l, 0, 0) \<and> rt_is_free (ts ! p) \<and> ?as ! p = tk_allocation k"
    if l: "l < length (et_events T)" "alloc_of T l k False" for l
  proof -
    obtain f where f: "pv_fields (et_events T ! l) = Allocation f" "from_allocation T l f = Some k" "af_alloc_size f < 0"
      using l(2) by (auto simp: alloc_of_def event_at_def split: extra_fields.splits)
    obtain p where p: "p < length ts" "rt_ref (ts ! p) = (l, 0, 0)" "rt_is_free (ts ! p)"
      using tensor_infos_alloc [OF ts [unfolded get_tensor_info_def] l(1) f(1)] f(3) by auto
    have "?as ! p = tk_allocation k" using ids [OF p(1)] f(2) p(2) by (auto simp: from_allocation_def make_key_def Let_def split: option.splits)
    then show ?thesis using p by blast
  qed
  obtain p where p: "p < length ts" "rt_ref (ts ! p) = (i, 0, 0)" "rt_is_free (ts ! p)" "?as ! p = tk_allocation k" using place [OF assms(2,4)] by blast
  obtain q where q: "q < length ts" "rt_ref (ts ! q) = (j, 0, 0)" "rt_is_free (ts ! q)" "?as ! q = tk_allocation k" using place [OF assms(3,5)] by blast
  have "same_storage ts p q" using storage_numbers [OF p(1) q(1)] p(4) q(4) by simp
  then have "p = q" using p(3) q(3) unfolding same_storage_def by (metis linorder_neqE_nat max_def min_def order_less_imp_le order_refl not_le)
  then show ?thesis using p(2) q(2) by simp
qed

section \<open>The recorded times\<close>

lemma scan_times:
  "as_times (fold (scan_allocation T) xs st) (k, b) \<noteq> None \<longleftrightarrow>
     (\<exists>i \<in> set xs. case pv_fields (event_at T i) of Allocation a \<Rightarrow> from_allocation T i a = Some k \<and> (af_alloc_size a > 0) = b | _ \<Rightarrow> False)
     \<or> as_times st (k, b) \<noteq> None"
proof (induction xs arbitrary: st)
  case (Cons x xs)
  have "as_times (scan_allocation T x st) (k, b) \<noteq> None \<longleftrightarrow>
    (case pv_fields (event_at T x) of Allocation a \<Rightarrow> from_allocation T x a = Some k \<and> (af_alloc_size a > 0) = b | _ \<Rightarrow> False)
    \<or> as_times st (k, b) \<noteq> None"
    by (auto simp: scan_allocation_def Let_def split: extra_fields.splits option.splits)
  then show ?case using Cons [of "scan_allocation T x st"] by auto
qed simp

lemma scan_devices: "row \<in> set (as_output (scan_allocations L T)) \<Longrightarrow> \<exists>dev. fst (fst (snd (snd row))) = OfDevice dev"
proof -
  have "\<forall>row \<in> set (as_output (fold (scan_allocation T) xs scan_start)). \<exists>dev. fst (fst (snd (snd row))) = OfDevice dev" for xs
    by (rule fold_keeps) (auto simp: scan_start_def scan_allocation_def Let_def split: extra_fields.splits option.splits)
  then show "row \<in> set (as_output (scan_allocations L T)) \<Longrightarrow> ?thesis" unfolding scan_allocations_def by blast
qed

section \<open>The balance\<close>

definition alloc_events :: "EventTree \<Rightarrow> TensorKey \<Rightarrow> bool \<Rightarrow> nat set" where
  "alloc_events T k b = {i. i < length (et_events T) \<and> alloc_of T i k b}"

lemma alloc_leaf: "alloc_of T i k b \<Longrightarrow> leaf_event L T i"
  by (auto simp: alloc_of_def leaf_event_def split: extra_fields.splits)

lemma below_bound: "event_tree_ok T \<Longrightarrow> l < length (et_events T) \<Longrightarrow> i \<in> below_event T l \<Longrightarrow> i < length (et_events T)"
  using reached_bound [OF tree_forest] by (auto simp: below_event_def reach_from_def)

lemma leaves_bound: "event_tree_ok T \<Longrightarrow> l \<in> leaves L T \<Longrightarrow> l < length (et_events T)"
proof -
  assume t: "event_tree_ok T" and "l \<in> leaves L T"
  then obtain r where "r < length (et_events T)" "(r, l) \<in> (child_rel (length (et_events T)) (get_children L T))\<^sup>*"
    by (auto simp: leaves_def reach_from_def root_iff)
  then show ?thesis using reached_bound [OF leaf_forest [OF t]] by blast
qed

lemma owners_count:
  assumes "event_tree_ok T" "distinct (map fn_event ns)" "fn_event ` set ns = leaves L T" "card (alloc_events T k b) \<le> 1"
  shows "length (filter (\<lambda>nd. \<exists>i \<in> below_event T (fn_event nd). alloc_of T i k b) ns) = card (alloc_events T k b)"
proof -
  let ?Q = "\<lambda>l. \<exists>i \<in> below_event T l. alloc_of T i k b"
  have "length (filter (\<lambda>nd. ?Q (fn_event nd)) ns) = card {l \<in> leaves L T. ?Q l}"
  proof -
    have "length (filter (\<lambda>nd. ?Q (fn_event nd)) ns) = length (filter ?Q (map fn_event ns))" by (simp add: filter_map comp_def)
    also have "\<dots> = card (set (filter ?Q (map fn_event ns)))" using assms(2) by (intro distinct_card [symmetric]) (rule distinct_filter)
    also have "set (filter ?Q (map fn_event ns)) = {l \<in> leaves L T. ?Q l}" unfolding set_filter set_map assms(3) ..
    finally show ?thesis .
  qed
  also have "\<dots> = card (alloc_events T k b)"
  proof (cases "alloc_events T k b = {}")
    case True
    then have "{l \<in> leaves L T. ?Q l} = {}" using below_bound [OF assms(1) leaves_bound [OF assms(1)]] unfolding alloc_events_def by blast
    then show ?thesis using True by (simp only: card.empty)
  next
    case False
    have "finite (alloc_events T k b)" by (simp add: alloc_events_def)
    then obtain i where i: "alloc_events T k b = {i}" using False assms(4) by (metis card_0_eq card_1_singletonE le_antisym less_one not_le)
    then have "i < length (et_events T)" "alloc_of T i k b" by (auto simp: alloc_events_def)
    then obtain l where l: "l \<in> leaves L T" "i \<in> below_event T l" "\<And>m. m \<in> leaves L T \<Longrightarrow> i \<in> below_event T m \<Longrightarrow> m = l"
      using one_leaf [OF assms(1) _ alloc_leaf] by metis
    have "j = i" if "m \<in> leaves L T" "j \<in> below_event T m" "alloc_of T j k b" for j m
      using that i below_bound [OF assms(1) leaves_bound [OF assms(1)]] unfolding alloc_events_def by blast
    then have "{l \<in> leaves L T. ?Q l} = {l}" using l \<open>alloc_of T i k b\<close> by blast
    then show ?thesis using i by simp
  qed
  finally show ?thesis .
qed

lemma mentioned:
  assumes "n \<in> set ns" "(k, e) \<in> set (fn_edges n)"
  shows "k \<in> fst ` set (category_snapshot ns d)"
proof -
  have "\<exists>v. (k, v) \<in> set (node_versions n)"
  proof (cases "fe_input_version e")
    case None
    then have a: "is_allocation e" by (simp add: is_allocation_def)
    show ?thesis
    proof (cases "is_deletion e")
      case True
      then have "k \<in> set (fn_intermediates n)" using a assms(2) by (force simp: fn_intermediates_def)
      then show ?thesis by (auto simp: node_versions_def)
    next
      case False
      then have "(k, 0) \<in> set (fn_outputs n)" using a assms(2) None unfolding fn_outputs_iff by auto
      then show ?thesis by (auto simp: node_versions_def)
    qed
  next
    case (Some v)
    then have "(k, v) \<in> set (fn_inputs n)" using assms(2) unfolding fn_inputs_iff by blast
    then show ?thesis by (auto simp: node_versions_def)
  qed
  then show ?thesis using assms(1) unfolding snapshot_set by force
qed

lemma preexisting_units:
  assumes "distinct snapshot"
  shows "units k v (map (\<lambda>(key, w). (-1, PREEXISTING, key, w)) (filter (\<lambda>(key, w). P key \<and> w = 0) snapshot))
    = flag (P k \<and> (k, 0) \<in> set snapshot) * unit_at v 0"
  using assms by (induction snapshot) (auto simp: flag_def split: if_splits)

definition row_bytes :: "TensorKey \<Rightarrow> nat \<Rightarrow> timeline_row \<Rightarrow> int" where
  "row_bytes k v row =
     (case row of (ts, action, (key, w), numbytes) \<Rightarrow>
        (if key \<noteq> OfTensor k then 0
         else case action of
                INCREMENT_VERSION \<Rightarrow> (if v = w + 1 then numbytes else 0) - (if v = w then numbytes else 0)
              | DESTROY \<Rightarrow> (if v = w then - numbytes else 0)
              | _ \<Rightarrow> (if v = w then numbytes else 0)))"

text \<open>The bytes that a whole timeline leaves attributed to a version of a tensor.\<close>

definition net_bytes :: "timeline_row list \<Rightarrow> TensorKey \<Rightarrow> nat \<Rightarrow> int" where
  "net_bytes rows k v = sum_list (map (row_bytes k v) rows)"

lemma net_bytes_sort [simp]: "net_bytes (sort_key f rows) k v = net_bytes rows k v"
proof -
  have "mset (map (row_bytes k v) (sort_key f rows)) = mset (map (row_bytes k v) rows)" by simp
  then show ?thesis unfolding net_bytes_def by (metis sum_mset_sum_list)
qed

lemma net_bytes_append: "net_bytes (xs @ ys) k v = net_bytes xs k v + net_bytes ys k v"
  by (simp add: net_bytes_def)

lemma net_bytes_devices: "(\<And>row. row \<in> set rows \<Longrightarrow> \<exists>dev. fst (fst (snd (snd row))) = OfDevice dev) \<Longrightarrow> net_bytes rows k v = 0"
proof (induction rows)
  case (Cons row rows)
  obtain ts a key w b where row: "row = (ts, a, (key, w), b)" by (metis prod.collapse)
  then have "row_bytes k v row = 0" using Cons.prems [of row] by (auto simp: row_bytes_def)
  then show ?case using Cons by (simp add: net_bytes_def)
qed (simp add: net_bytes_def)

lemma net_bytes_units:
  "net_bytes (map (\<lambda>(ts, action, key, w). (ts, action, (OfTensor key, w), storage_size sizes key)) es) k v = units k v es * storage_size sizes k"
proof (induction es)
  case (Cons e es)
  obtain ts a key w where "e = (ts, a, key, w)" by (metis prod.collapse)
  then show ?case using Cons by (cases a) (auto simp: net_bytes_def row_bytes_def unit_at_def algebra_simps)
qed (simp add: net_bytes_def)

context traversal
begin

lemma tensor_events_balanced:
  assumes t: "event_tree_ok T" "n = length (et_events T)" and L: "fl_traverse_dfs L = traverse"
    and ids: "calculate_unique_id (et_events T) = Inr (et_ids T)" and mp: "memory_profile L T = Inr mp"
  defines "snapshot \<equiv> category_snapshot (mp_flow_nodes mp) (mp_categories mp)"
  shows "\<exists>es. tensor_events L mp = Inr es \<and> (\<forall>k v. card (alloc_events T k True) \<le> 1 \<longrightarrow>
     units k v es = (if last_version snapshot k = Some v \<and> alloc_events T k False = {} then 1 else 0))"
proof -
  obtain ns where ns: "flow_nodes L T = Inr ns" "map fn_event ns = extract_leaf_events L T (get_root_nodes T)"
    "\<And>n. n \<in> set ns \<Longrightarrow> distinct (map fst (fn_edges n)) \<and> sorted (map fst (fn_edges n)) \<and> edges_from L T n"
    "\<And>j k e v. j < length ns \<Longrightarrow> (k, e) \<in> set (fn_edges (ns ! j)) \<Longrightarrow> fe_input_version e = Some v \<Longrightarrow> v = changes_of k (take j ns)"
    using flow_nodes_ok [of L T] by metis
  then have c: "versions_counted ns" unfolding versions_counted_def by blast
  have mpn: "mp_flow_nodes mp = ns" "mp_event_tree mp = T" using mp ns(1) by (auto simp: memory_profile_def res_simps)
  have owners: "fn_event ` set ns = leaves L T" "distinct (map fn_event ns)"
    using leaf_events [OF t L] ns(2) by (metis list.set_map)+
  have sub: "set (fl_traverse_dfs L (children_of T) [fn_event nd]) = below_event T (fn_event nd)" if "nd \<in> set ns" for nd
    using subtree_events [OF t] leaves_bound [OF t(1)] owners(1) that L t(2) by (metis imageI)
  have allocs: "allocates nd k \<longleftrightarrow> (\<exists>i \<in> below_event T (fn_event nd). alloc_of T i k True)"
    and freesb: "frees nd k \<longleftrightarrow> (\<exists>i \<in> below_event T (fn_event nd). alloc_of T i k False)" if "nd \<in> set ns" for nd k
    using edges_spec [of L T nd k] ns(3) [OF that] sub [OF that] by simp_all
  have in_events: "i \<in> alloc_events T k b" if "nd \<in> set ns" "i \<in> below_event T (fn_event nd)" "alloc_of T i k b" for nd i k b
    using that below_bound [OF t(1) leaves_bound [OF t(1)]] owners(1) unfolding alloc_events_def by blast
  define recorded where "recorded = as_times (scan_allocations L T)"
  have visited: "set (sort_key (start_of T) (mem_events L T)) = {i. i < n \<and> (case pv_fields (event_at T i) of Allocation _ \<Rightarrow> True | _ \<Rightarrow> False)}"
    using all_events [OF t] by (auto simp: mem_events_def L)
  have rec_True: "recorded (k, True) \<noteq> None \<longleftrightarrow> alloc_events T k True \<noteq> {}" for k
    unfolding recorded_def scan_allocations_def scan_times visited alloc_events_def alloc_of_def t(2)
    by (auto simp: scan_start_def split: extra_fields.splits)
  have rec_False: "recorded (k, False) \<noteq> None" if "alloc_events T k False \<noteq> {}" for k
    using that unfolding recorded_def scan_allocations_def scan_times visited alloc_events_def alloc_of_def t(2)
    by (fastforce simp: scan_start_def split: extra_fields.splits)
  have lastv: "last_version snapshot k = (if k \<in> fst ` set snapshot then Some (changes_of k ns) else None)" for k
    unfolding snapshot_def mpn by (rule last_version_snapshot [OF c])
  have edge: "\<exists>es. edge_events T recorded (last_version snapshot) (fn_event nd) ke = Inr es
      \<and> (\<forall>k v. units k v es = (case ke of (key, e) \<Rightarrow> if key = k then edge_units (changes_of k ns) v e else 0))"
    if nd: "nd \<in> set ns" and ke: "ke \<in> set (fn_edges nd)" for nd ke
  proof -
    obtain key e where e: "ke = (key, e)" by force
    have "recorded (key, True) \<noteq> None" if "is_allocation e"
    proof -
      have "allocates nd key" using that ke e by (auto simp: allocates_def)
      then show ?thesis using allocs [OF nd] in_events [OF nd] rec_True by blast
    qed
    moreover have "recorded (key, False) \<noteq> None \<and> last_version snapshot key = Some (changes_of key ns)" if "is_deletion e"
    proof -
      have "frees nd key" using that ke e by (auto simp: frees_def)
      moreover have "key \<in> fst ` set snapshot" unfolding snapshot_def mpn using mentioned [OF nd] ke e by blast
      moreover have "recorded (key, False) \<noteq> None" if "frees nd key" using that freesb [OF nd] in_events [OF nd] rec_False by blast
      ultimately show ?thesis using lastv [of key] by simp
    qed
    ultimately have ev: "\<exists>es. edge_events T recorded (last_version snapshot) (fn_event nd) (key, e) = Inr es
       \<and> units k v es = (if key = k then edge_units (changes_of key ns) v e else 0)" for k v
      by (intro edge_events_ok)
    then obtain es where "edge_events T recorded (last_version snapshot) (fn_event nd) (key, e) = Inr es" by blast
    then show ?thesis using ev e by (intro exI [of _ es]) auto
  qed
  define node_sum where "node_sum k v nd = (case map_of (fn_edges nd) k of Some e \<Rightarrow> edge_units (changes_of k ns) v e | None \<Rightarrow> 0)" for k v and nd :: DataFlowNode
  have node: "\<exists>es. node_events T recorded (last_version snapshot) nd = Inr es \<and> (\<forall>k v. units k v es = node_sum k v nd)"
    if nd: "nd \<in> set ns" for nd
  proof -
    obtain ess where ess: "rmap (edge_events T recorded (last_version snapshot) (fn_event nd)) (fn_edges nd) = Inr ess"
      "list_all2 (\<lambda>ke es. \<forall>k v. units k v es = (case ke of (key, e) \<Rightarrow> if key = k then edge_units (changes_of k ns) v e else 0)) (fn_edges nd) ess"
      using rmap_Inr [of "fn_edges nd" "edge_events T recorded (last_version snapshot) (fn_event nd)"
        "\<lambda>ke es. \<forall>k v. units k v es = (case ke of (key, e) \<Rightarrow> if key = k then edge_units (changes_of k ns) v e else 0)", OF edge [OF nd]]
      by blast
    have "units k v (concat ess) = node_sum k v nd" for k v
    proof -
      have "list_all2 (\<lambda>ke es. units k v es = (case ke of (key, e) \<Rightarrow> if key = k then edge_units (changes_of k ns) v e else 0)) (fn_edges nd) ess"
        using ess(2) by (rule list_all2_mono) blast
      from units_concat [OF this] show ?thesis
        using one_key_sum [of "fn_edges nd" k "edge_units (changes_of k ns) v"] ns(3) [OF nd] by (simp add: node_sum_def)
    qed
    then show ?thesis using ess(1) by (simp add: node_events_def)
  qed
  obtain ess where ess: "rmap (node_events T recorded (last_version snapshot)) ns = Inr ess"
    "list_all2 (\<lambda>nd es. \<forall>k v. units k v es = node_sum k v nd) ns ess"
    using rmap_Inr [of ns "node_events T recorded (last_version snapshot)" "\<lambda>nd es. \<forall>k v. units k v es = node_sum k v nd", OF node] by blast
  let ?pre = "map (\<lambda>(key, v). (-1, PREEXISTING, key, v)) (filter (\<lambda>(key, v). recorded (key, True) = None \<and> v = 0) snapshot)"
  have te: "tensor_events L mp = Inr (?pre @ concat ess)"
    using ess(1) unfolding tensor_events_def Let_def mpn recorded_def snapshot_def by simp
  have "units k v (?pre @ concat ess) = (if last_version snapshot k = Some v \<and> alloc_events T k False = {} then 1 else 0)"
    if one: "card (alloc_events T k True) \<le> 1" for k v
  proof -
    let ?A = "length (filter (\<lambda>nd. allocates nd k) ns)" and ?D = "length (filter (\<lambda>nd. frees nd k) ns)" and ?m = "changes_of k ns"
    have "list_all2 (\<lambda>nd es. units k v es = node_sum k v nd) ns ess" using ess(2) by (rule list_all2_mono) blast
    from units_concat [OF this] have g: "units k v (concat ess) = int ?A * unit_at v 0 - int ?D * unit_at v ?m + (unit_at v ?m - unit_at v 0)"
      using graph_units [OF c refl, of k v] by (simp add: node_sum_def)
    have "distinct snapshot" by (simp add: snapshot_def category_snapshot_def)
    then have p: "units k v ?pre = flag (recorded (k, True) = None \<and> (k, 0) \<in> set snapshot) * unit_at v 0" by (rule preexisting_units)
    have A: "?A = card (alloc_events T k True)"
    proof -
      have "filter (\<lambda>nd. allocates nd k) ns = filter (\<lambda>nd. \<exists>i \<in> below_event T (fn_event nd). alloc_of T i k True) ns"
        by (rule filter_cong) (simp_all add: allocs)
      then show ?thesis using owners_count [OF t(1) owners(2,1) one] by simp
    qed
    have f1: "card (alloc_events T k False) \<le> 1"
    proof -
      have "finite (alloc_events T k False)" by (simp add: alloc_events_def)
      moreover have "\<forall>i \<in> alloc_events T k False. \<forall>j \<in> alloc_events T k False. i = j"
        using freed_once [OF ids, of _ _ k] unfolding alloc_events_def by blast
      ultimately show ?thesis using card_le_Suc0_iff_eq by fastforce
    qed
    have D: "?D = card (alloc_events T k False)"
    proof -
      have "filter (\<lambda>nd. frees nd k) ns = filter (\<lambda>nd. \<exists>i \<in> below_event T (fn_event nd). alloc_of T i k False) ns"
        by (rule filter_cong) (simp_all add: freesb)
      then show ?thesis using owners_count [OF t(1) owners(2,1) f1] by simp
    qed
    show ?thesis
    proof (cases "k \<in> fst ` set snapshot")
      case True
      then have "(k, 0) \<in> set snapshot" using snapshot_versions(2) [OF c, of k _ "mp_categories mp" 0] unfolding snapshot_def mpn by force
      moreover have "finite (alloc_events T k True)" "finite (alloc_events T k False)" by (simp_all add: alloc_events_def)
      moreover from this have "flag (recorded (k, True) = None) = 1 - int ?A" "int ?D = flag (alloc_events T k False \<noteq> {})"
        using rec_True [of k] A D one f1 by (auto simp: flag_def le_Suc_eq)
      ultimately have e: "flag (recorded (k, True) = None \<and> (k, 0) \<in> set snapshot) = 1 - int ?A" "int ?D = flag (alloc_events T k False \<noteq> {})"
        by simp_all
      have "units k v (?pre @ concat ess) = (1 - int ?A) * unit_at v 0 + (int ?A * unit_at v 0 - int ?D * unit_at v ?m + (unit_at v ?m - unit_at v 0))"
        unfolding units_simps(3) p g e(1) ..
      also have "\<dots> = (1 - flag (alloc_events T k False \<noteq> {})) * unit_at v ?m" unfolding e(2) by (simp add: algebra_simps)
      finally show ?thesis using lastv [of k] True by (simp add: flag_def unit_at_def)
    next
      case False
      then have no: "(k, e) \<notin> set (fn_edges nd)" if "nd \<in> set ns" for nd e
        using mentioned [OF that] unfolding snapshot_def mpn by blast
      then have "?A = 0" "?D = 0" "?m = 0" by (auto simp: allocates_def frees_def changes_of_def changes_def filter_empty_conv)
      moreover have "(k, 0) \<notin> set snapshot" using False by force
      ultimately show ?thesis using g p lastv [of k] False by (simp add: flag_def)
    qed
  qed
  then show ?thesis using te by blast
qed

end

text \<open>
  C19: For every trace from which a memory profile is made, the timeline is made without an exception. It is balanced on
  the storages with at most one allocation record under their version key: the bytes attributed to a version are taken
  away again when the version is replaced, and those of the last version when the storage is freed; what the timeline leaves
  is the size of the storage at the last version of each one that is not freed, and nothing elsewhere. Storages with
  several allocation records under one key are not covered; \<open>DataFlowGraph.validate\<close> warns about them.
\<close>

theorem timeline_balanced:
  assumes "event_tree_of events = Some (Inr T)" "traversal (fl_traverse_dfs L) (length events)" "memory_profile L T = Inr mp"
  shows "\<exists>rows. timeline L mp = Inr rows \<and> (\<forall>k v. card (alloc_events T k True) \<le> 1 \<longrightarrow>
    net_bytes rows k v =
      (if last_version (category_snapshot (mp_flow_nodes mp) (mp_categories mp)) k = Some v \<and> alloc_events T k False = {}
       then storage_size (mp_size_dict mp) k else 0))"
proof -
  note built = event_tree_of_built [OF assms(1)]
  have len: "length events = length (et_events T)" using built(3) by simp
  have tree: "mp_event_tree mp = T" using assms(3) by (auto simp: memory_profile_def res_simps)
  obtain es where es: "tensor_events L mp = Inr es" "\<And>k v. card (alloc_events T k True) \<le> 1 \<Longrightarrow>
     units k v es = (if last_version (category_snapshot (mp_flow_nodes mp) (mp_categories mp)) k = Some v \<and> alloc_events T k False = {} then 1 else 0)"
    using traversal.tensor_events_balanced [OF assms(2) built(1) len refl built(2) assms(3)] by blast
  obtain rows where rows: "timeline L mp = Inr rows" by (simp add: timeline_def es(1))
  then have "net_bytes rows k v = units k v es * storage_size (mp_size_dict mp) k" for k v
    using net_bytes_devices [of "as_output (scan_allocations L T)" k v, OF scan_devices] net_bytes_units [of "mp_size_dict mp" es k v]
    by (auto simp: timeline_def es(1) net_bytes_append tree)
  then show ?thesis using rows es(2) by (intro exI [of _ rows]) simp
qed

lemma demo_allocated: "card (alloc_events demo_flow_tree demo_key True) \<le> 1"
proof -
  have "alloc_events demo_flow_tree demo_key True = set (filter (\<lambda>i. alloc_of demo_flow_tree i demo_key True) [0..<length (et_events demo_flow_tree)])"
    by (auto simp: alloc_events_def)
  moreover have "card (set (filter (\<lambda>i. alloc_of demo_flow_tree i demo_key True) [0..<length (et_events demo_flow_tree)])) \<le> 1" by code_simp
  ultimately show ?thesis by simp
qed

lemma demo_last: "last_version (category_snapshot (mp_flow_nodes demo_profile) (mp_categories demo_profile)) demo_key = Some 2"
  by code_simp

theorem timeline_balanced_witness:
  "\<exists>rows. timeline demo_lib demo_profile = Inr rows \<and> net_bytes rows demo_key 1 = 0"
proof -
  have "traversal (fl_traverse_dfs demo_lib) (length demo_flow_events)"
  proof -
    have "length demo_flow_events = 5" "fl_traverse_dfs demo_lib = preorder 5" by (simp_all add: demo_lib_def demo_flow_events_def)
    then show ?thesis using walk.traversal_axioms [of 5] by (simp only:)
  qed
  from timeline_balanced [OF demo_tree_built this demo_profile_made] demo_allocated show ?thesis using demo_last by auto
qed

end
