(* ===== verification/Timeline_Export.thy ===== *)
theory Timeline_Export
  imports Memory_Timeline_Props Complex_Main
begin

text \<open>
  Properties of the exports of the memory timeline: the conversion to microseconds, which goes through a division of
  floating-point numbers, keeps the order of times, and the rows of the JSON export are the running sums of the events of
  the raw export.
\<close>

section \<open>Division in floating point\<close>

lemma round_half_even_mono:
  assumes "d > 0" "n \<le> n'"
  shows "round_half_even n d \<le> round_half_even n' d"
proof (cases "n div d = n' div d")
  case True
  then have "n mod d \<le> n' mod d" using assms(2) by (metis add_le_cancel_left div_mult_mod_eq)
  then show ?thesis using True by (auto simp: round_half_even_def Let_def)
next
  case False
  then have "n div d + 1 \<le> n' div d" using assms zdiv_mono1 [of n n' d] by simp
  then show ?thesis by (auto simp: round_half_even_def Let_def)
qed

lemma round_half_even_le:
  assumes "d > 0" "n \<le> m * d"
  shows "round_half_even n d \<le> m"
proof -
  have "round_half_even (m * d) d = m" using assms(1) by (simp add: round_half_even_def)
  then show ?thesis using round_half_even_mono [OF assms] by simp
qed

lemma round_half_even_ge:
  assumes "d > 0" "m * d \<le> n"
  shows "m \<le> round_half_even n d"
proof -
  have "round_half_even (m * d) d = m" using assms(1) by (simp add: round_half_even_def)
  then show ?thesis using round_half_even_mono [OF assms] by simp
qed

text \<open>The quotient times the power of two that makes it a number of 53 bits.\<close>

definition scaled :: "int \<Rightarrow> int \<Rightarrow> int \<Rightarrow> real" where
  "scaled n d k = real_of_int n / real_of_int d * 2 powi k"

lemma scaled_le:
  assumes "d > 0"
  shows "real_of_int m \<le> scaled n d k \<longleftrightarrow> (if k \<ge> 0 then m * d \<le> n * 2 ^ nat k else m * (d * 2 ^ nat (- k)) \<le> n)"
    "scaled n d k \<le> real_of_int m \<longleftrightarrow> (if k \<ge> 0 then n * 2 ^ nat k \<le> m * d else n \<le> m * (d * 2 ^ nat (- k)))"
proof -
  have d: "real_of_int d > 0" using assms by simp
  show "real_of_int m \<le> scaled n d k \<longleftrightarrow> (if k \<ge> 0 then m * d \<le> n * 2 ^ nat k else m * (d * 2 ^ nat (- k)) \<le> n)"
  proof (cases "k \<ge> 0")
    case True
    have "real_of_int m \<le> scaled n d k \<longleftrightarrow> real_of_int (m * d) \<le> real_of_int (n * 2 ^ nat k)"
      using True d by (simp add: scaled_def power_int_def field_simps)
    then show ?thesis using True by (simp only: of_int_le_iff if_True)
  next
    case False
    have "real_of_int m \<le> scaled n d k \<longleftrightarrow> real_of_int (m * (d * 2 ^ nat (- k))) \<le> real_of_int n"
      using False d by (simp add: scaled_def power_int_def field_simps)
    then show ?thesis using False by (simp only: of_int_le_iff if_False)
  qed
  show "scaled n d k \<le> real_of_int m \<longleftrightarrow> (if k \<ge> 0 then n * 2 ^ nat k \<le> m * d else n \<le> m * (d * 2 ^ nat (- k)))"
  proof (cases "k \<ge> 0")
    case True
    have "scaled n d k \<le> real_of_int m \<longleftrightarrow> real_of_int (n * 2 ^ nat k) \<le> real_of_int (m * d)"
      using True d by (simp add: scaled_def power_int_def field_simps)
    then show ?thesis using True by (simp only: of_int_le_iff if_True)
  next
    case False
    have "scaled n d k \<le> real_of_int m \<longleftrightarrow> real_of_int n \<le> real_of_int (m * (d * 2 ^ nat (- k)))"
      using False d by (simp add: scaled_def power_int_def field_simps)
    then show ?thesis using False by (simp only: of_int_le_iff if_False)
  qed
qed

lemma scaled_quotient_bounds:
  assumes "d > 0"
  shows "real_of_int m \<le> scaled n d k \<Longrightarrow> m \<le> scaled_quotient n d k" "scaled n d k \<le> real_of_int m \<Longrightarrow> scaled_quotient n d k \<le> m"
  using assms round_half_even_ge [of "d * 2 ^ nat (- k)" m n] round_half_even_ge [of d m "n * 2 ^ nat k"]
    round_half_even_le [of "d * 2 ^ nat (- k)" n m] round_half_even_le [of d "n * 2 ^ nat k" m]
  unfolding scaled_le [OF assms] scaled_quotient_def by (auto split: if_splits)

lemma scaled_half: "scaled n d (k - 1) = scaled n d k / 2"
  by (simp add: scaled_def power_int_diff)

lemma quotient_exponent_ok:
  assumes "n > 0" "d > 0"
  shows "2 ^ 52 \<le> scaled n d (quotient_exponent n d)" "scaled n d (quotient_exponent n d) < 2 ^ 53"
proof -
  let ?s = "bitlen n - bitlen d" and ?k = "53 - (bitlen n - bitlen d)"
  have b: "2 powi (bitlen x - 1) \<le> real_of_int x \<and> real_of_int x < 2 powi bitlen x" if "x > 0" for x :: int
  proof -
    have p: "bitlen x \<ge> 1" using that bitlen_nonneg [of x] bitlen_eq_zero_iff [of x] by linarith
    have "2 ^ nat (bitlen x - 1) \<le> x \<and> x < 2 ^ nat (bitlen x)" using bitlen_bounds that by blast
    then have "real_of_int (2 ^ nat (bitlen x - 1)) \<le> real_of_int x \<and> real_of_int x < real_of_int (2 ^ nat (bitlen x))"
      by (simp only: of_int_le_iff of_int_less_iff)
    then show ?thesis using p by (simp add: power_int_def)
  qed
  have lo: "2 powi (?s - 1) \<le> real_of_int n / real_of_int d"
  proof -
    have "2 powi (?s - 1) * real_of_int d \<le> 2 powi (?s - 1) * 2 powi bitlen d" using b [OF assms(2)] by (simp add: less_imp_le)
    also have "\<dots> = 2 powi (bitlen n - 1)" by (simp flip: power_int_add)
    also have "\<dots> \<le> real_of_int n" using b [OF assms(1)] by blast
    finally show ?thesis using assms(2) by (simp add: field_simps)
  qed
  have hi: "real_of_int n / real_of_int d < 2 powi (?s + 1)"
  proof -
    have "real_of_int n < 2 powi bitlen n" using b [OF assms(1)] by blast
    also have "\<dots> = 2 powi (?s + 1) * 2 powi (bitlen d - 1)" by (simp flip: power_int_add)
    also have "\<dots> \<le> 2 powi (?s + 1) * real_of_int d" using b [OF assms(2)] by simp
    finally show ?thesis using assms(2) by (simp add: field_simps)
  qed
  have l: "2 ^ 52 \<le> scaled n d ?k"
  proof -
    have "2 powi (?s - 1) * 2 powi ?k \<le> scaled n d ?k" unfolding scaled_def using lo by (intro mult_right_mono) simp_all
    moreover have "2 powi (?s - 1) * 2 powi ?k = (2 powi 52 :: real)" by (simp flip: power_int_add)
    ultimately show ?thesis by simp
  qed
  have h: "scaled n d ?k < 2 ^ 54"
  proof -
    have "scaled n d ?k < 2 powi (?s + 1) * 2 powi ?k" unfolding scaled_def using hi by (intro mult_strict_right_mono) simp_all
    moreover have "2 powi (?s + 1) * 2 powi ?k = (2 powi 54 :: real)" by (simp flip: power_int_add)
    ultimately show ?thesis by simp
  qed
  have c: "(if ?k \<ge> 0 then n * 2 ^ nat ?k \<ge> 2 ^ 53 * d else n \<ge> 2 ^ 53 * d * 2 ^ nat (- ?k)) \<longleftrightarrow> 2 ^ 53 \<le> scaled n d ?k"
    using scaled_le(1) [OF assms(2), of "2 ^ 53" n ?k] by (simp add: mult.assoc)
  note half = scaled_half [of n d ?k]
  show "2 ^ 52 \<le> scaled n d (quotient_exponent n d)" "scaled n d (quotient_exponent n d) < 2 ^ 53"
    using l h half c by (auto simp: quotient_exponent_def Let_def)
qed

definition rounded :: "int \<Rightarrow> int \<Rightarrow> real" where
  "rounded n d = real_of_int (scaled_quotient n d (quotient_exponent n d)) * 2 powi (- quotient_exponent n d)"

lemma floor_scaled:
  "k \<ge> 0 \<Longrightarrow> \<lfloor>real_of_int m * 2 powi (- k)\<rfloor> = m div 2 ^ nat k" "k < 0 \<Longrightarrow> \<lfloor>real_of_int m * 2 powi (- k)\<rfloor> = m * 2 ^ nat (- k)"
proof -
  assume k: "k \<ge> 0"
  have "(2 :: real) powi (- k) = inverse (2 ^ nat k)" unfolding power_int_minus using k by (simp add: power_int_def)
  then have "real_of_int m * 2 powi (- k) = real_of_int m / real_of_int (2 ^ nat k)" by (simp add: divide_inverse)
  then show "\<lfloor>real_of_int m * 2 powi (- k)\<rfloor> = m div 2 ^ nat k" by (simp only: floor_divide_of_int_eq)
next
  assume k: "k < 0"
  then have "real_of_int m * 2 powi (- k) = real_of_int (m * 2 ^ nat (- k))" by (simp add: power_int_def)
  then show "\<lfloor>real_of_int m * 2 powi (- k)\<rfloor> = m * 2 ^ nat (- k)" by (simp only: floor_of_int)
qed

lemma int_of_quotient_floor:
  assumes "n > 0"
  shows "int_of_quotient n d = \<lfloor>rounded n d\<rfloor>"
  using assms floor_scaled [of "quotient_exponent n d" "scaled_quotient n d (quotient_exponent n d)"]
  by (simp add: int_of_quotient_def rounded_def Let_def)

lemma rounded_bounds:
  assumes "n > 0" "d > 0"
  shows "2 powi (52 - quotient_exponent n d) \<le> rounded n d" "rounded n d \<le> 2 powi (53 - quotient_exponent n d)"
proof -
  let ?k = "quotient_exponent n d"
  have "2 ^ 52 \<le> scaled_quotient n d ?k" "scaled_quotient n d ?k \<le> 2 ^ 53"
    using quotient_exponent_ok [OF assms] by (auto intro!: scaled_quotient_bounds [OF assms(2)])
  then have "real_of_int (2 ^ 52) \<le> real_of_int (scaled_quotient n d ?k)" "real_of_int (scaled_quotient n d ?k) \<le> real_of_int (2 ^ 53)"
    by (simp_all only: of_int_le_iff)
  then have b: "2 powi 52 * 2 powi (- ?k) \<le> rounded n d" "rounded n d \<le> 2 powi 53 * 2 powi (- ?k)"
    unfolding rounded_def by (auto intro!: mult_right_mono)
  have e: "2 powi 52 * 2 powi (- ?k) = (2 powi (52 - ?k) :: real)" "2 powi 53 * 2 powi (- ?k) = (2 powi (53 - ?k) :: real)"
    by (simp_all add: power_int_diff power_int_minus divide_inverse)
  show "2 powi (52 - ?k) \<le> rounded n d" "rounded n d \<le> 2 powi (53 - ?k)" using b unfolding e by blast+
qed

lemma scaled_quotient_mono:
  assumes "d > 0" "n \<le> n'"
  shows "scaled_quotient n d k \<le> scaled_quotient n' d k"
  using assms by (auto simp: scaled_quotient_def intro!: round_half_even_mono)

lemma rounded_mono:
  assumes "n > 0" "n \<le> n'" "d > 0"
  shows "rounded n d \<le> rounded n' d"
proof -
  let ?k = "quotient_exponent n d" and ?k' = "quotient_exponent n' d"
  consider "?k = ?k'" | "?k' < ?k" | "?k < ?k'" by linarith
  then show ?thesis
  proof cases
    case 1
    have "real_of_int (scaled_quotient n d ?k) \<le> real_of_int (scaled_quotient n' d ?k)"
      using scaled_quotient_mono [OF assms(3,2)] by (simp only: of_int_le_iff)
    then show ?thesis unfolding rounded_def 1 [symmetric] by (intro mult_right_mono) simp_all
  next
    case 2
    have "rounded n d \<le> 2 powi (53 - ?k)" using rounded_bounds(2) assms by blast
    also have "\<dots> \<le> 2 powi (52 - ?k')" using 2 by (intro power_int_increasing) simp_all
    also have "\<dots> \<le> rounded n' d" using rounded_bounds(1) [of n' d] assms by simp
    finally show ?thesis .
  next
    case 3
    have "scaled n d ?k' \<le> scaled n' d ?k'" unfolding scaled_def using assms by (intro mult_right_mono divide_right_mono) simp_all
    then have "scaled n d ?k' < 2 ^ 53" using quotient_exponent_ok(2) [of n' d] assms by simp
    moreover have "2 ^ 52 * 2 powi (?k' - ?k) \<le> scaled n d ?k'"
    proof -
      have "scaled n d ?k' = scaled n d ?k * 2 powi (?k' - ?k)" by (simp add: scaled_def power_int_diff)
      moreover have "2 ^ 52 * 2 powi (?k' - ?k) \<le> scaled n d ?k * (2 powi (?k' - ?k) :: real)"
        using quotient_exponent_ok(1) [OF assms(1,3)] by (intro mult_right_mono) simp_all
      ultimately show ?thesis by simp
    qed
    moreover have "(2 :: real) powi 1 \<le> 2 powi (?k' - ?k)" using 3 by (intro power_int_increasing) simp_all
    ultimately show ?thesis by simp
  qed
qed

text \<open>Dividing a time by 1000 keeps the order of times, and times that are not negative.\<close>

lemma ns_to_us_mono:
  assumes "0 \<le> a" "a \<le> b"
  shows "0 \<le> ns_to_us a" "ns_to_us a \<le> ns_to_us b"
proof -
  have pos: "0 \<le> ns_to_us c" if "c > 0" for c
  proof -
    have "0 \<le> (2 powi (52 - quotient_exponent c 1000) :: real)" by simp
    also have "\<dots> \<le> rounded c 1000" using rounded_bounds(1) [OF that, of 1000] by simp
    finally show ?thesis using int_of_quotient_floor [OF that, of 1000] by (simp add: ns_to_us_def)
  qed
  have z: "ns_to_us 0 = 0" by (simp add: ns_to_us_def int_of_quotient_def)
  show "0 \<le> ns_to_us a" using pos [of a] z assms(1) by (cases "a = 0") auto
  show "ns_to_us a \<le> ns_to_us b"
  proof (cases "a = 0")
    case True
    then show ?thesis using pos [of b] z assms by (cases "b = 0") auto
  next
    case False
    then show ?thesis using rounded_mono [of a b 1000] assms int_of_quotient_floor [of a 1000] int_of_quotient_floor [of b 1000]
      by (auto simp: ns_to_us_def intro!: floor_mono)
  qed
qed

text \<open>Times of today have too many digits for a fraction of a microsecond: the last 125 nanoseconds before a full
  microsecond are counted to the next one.\<close>

lemma ns_to_us_rounds_up: "ns_to_us 1700000000000000999 = 1700000000000001" "ns_to_us 1700000000000000874 = 1700000000000000"
  by code_simp+

section \<open>The rows of the export\<close>

definition us_time :: "int \<Rightarrow> int" where
  "us_time ts = (if ts \<noteq> -1 then ns_to_us ts else ts)"

lemma us_time_mono:
  assumes "a = -1 \<or> 0 \<le> a" "b = -1 \<or> 0 \<le> b" "a \<le> b"
  shows "us_time a \<le> us_time b" "us_time a = -1 \<or> 0 \<le> us_time a"
  using assms ns_to_us_mono [of a b] ns_to_us_mono(1) [of a a] ns_to_us_mono(1) [of b b] by (auto simp: us_time_def)

definition raw_time :: "int \<times> int \<times> int \<times> nat \<Rightarrow> int" where
  "raw_time r = us_time (fst r)"

definition raw_bytes :: "int \<times> int \<times> int \<times> nat \<Rightarrow> int" where
  "raw_bytes r = fst (snd (snd r))"

definition raw_category :: "int \<times> int \<times> int \<times> nat \<Rightarrow> nat" where
  "raw_category r = snd (snd (snd r))"

text \<open>The bytes of a category up to a time, according to the raw events.\<close>

definition bytes_until :: "(int \<times> int \<times> int \<times> nat) list \<Rightarrow> int \<Rightarrow> nat \<Rightarrow> int" where
  "bytes_until rs t c = sum_list (map raw_bytes (filter (\<lambda>r. raw_time r \<le> t \<and> raw_category r = c) rs))"

text \<open>A row has one column per category, after a column that is always 0.\<close>

definition sums_row :: "(int \<times> int \<times> int \<times> nat) list \<Rightarrow> int \<Rightarrow> int list" where
  "sums_row rs t = 0 # map (bytes_until rs t) [0..<8]"

lemma category_index_less: "category_index c < 8"
  by (cases c rule: category_index.cases) simp_all

lemma get_category_index_less [simp]: "get_category_index d key version < 8"
  by (simp add: get_category_index_def category_index_less)

definition add_to :: "nat \<Rightarrow> int \<Rightarrow> int list \<Rightarrow> int list" where
  "add_to c b row = row[c + 1 := row ! (c + 1) + b]"

lemma update_sizes_eq:
  "update_sizes_by_category d key version b (xs @ [row]) = xs @ [add_to (get_category_index d key version) b row]"
  by (simp add: update_sizes_by_category_def add_to_def Let_def)

lemma add_to_sums:
  assumes "raw_time r \<le> t" "raw_category r < 8"
  shows "add_to (raw_category r) (raw_bytes r) (sums_row rs t) = sums_row (rs @ [r]) t"
  using assms by (intro nth_equalityI) (auto simp: add_to_def sums_row_def bytes_until_def nth_list_update nth_Cons split: nat.splits)

lemma sums_row_later: "raw_time r > t \<Longrightarrow> sums_row (rs @ [r]) t = sums_row rs t"
  by (simp add: sums_row_def bytes_until_def)

lemma sums_row_same:
  assumes "\<forall>r \<in> set rs. raw_time r \<le> t" "t \<le> t'"
  shows "sums_row rs t = sums_row rs t'"
proof -
  have "filter (\<lambda>r. raw_time r \<le> t \<and> raw_category r = c) rs = filter (\<lambda>r. raw_time r \<le> t' \<and> raw_category r = c) rs" for c
    using assms by (intro filter_cong) auto
  then show ?thesis by (simp add: sums_row_def bytes_until_def)
qed

text \<open>A row of the timeline changes the last row of sizes by its raw events, one after the other.\<close>

definition apply_raw :: "(int \<times> int \<times> int \<times> nat) list \<Rightarrow> int list \<Rightarrow> int list" where
  "apply_raw rs row = fold (\<lambda>r. add_to (raw_category r) (raw_bytes r)) rs row"

lemma apply_raw_sums:
  assumes "\<forall>r \<in> set new. raw_time r \<le> t \<and> raw_category r < 8"
  shows "apply_raw new (sums_row rs t) = sums_row (rs @ new) t"
  using assms
proof (induction new arbitrary: rs)
  case (Cons r new)
  then show ?case using add_to_sums [of r t rs] Cons.IH [of "rs @ [r]"] by (simp add: apply_raw_def)
qed (simp add: apply_raw_def)

definition first_stamp :: "int list \<Rightarrow> int" where
  "first_stamp ts = (case filter (\<lambda>t. t \<noteq> -1) ts of [] \<Rightarrow> -1 | t # _ \<Rightarrow> t)"

definition row_time :: "timeline_row \<Rightarrow> int" where
  "row_time row = us_time (fst row)"

lemma raw_rows_props:
  assumes "device_of (fst (fst (snd (snd row)))) = dev"
  shows "\<forall>r \<in> set (raw_rows d dev row). raw_time r = row_time row \<and> raw_category r < 8" "raw_rows d dev row \<noteq> []"
proof -
  obtain ts a key v b where "row = (ts, a, (key, v), b)" by (metis prod.collapse)
  then show "\<forall>r \<in> set (raw_rows d dev row). raw_time r = row_time row \<and> raw_category r < 8" "raw_rows d dev row \<noteq> []"
    using assms by (cases a; simp add: raw_rows_def raw_time_def row_time_def raw_category_def)+
qed

lemma build_row_eq:
  assumes "device_of (fst (fst (snd (snd row)))) = dev"
  shows "build_row d dev row st =
    (let ts = row_time row;
         (stamps, sizes) = (if tb_timestamps st = [] then ([ts], [replicate 9 0])
           else if ts \<noteq> last (tb_timestamps st) then (tb_timestamps st @ [ts], tb_sizes st @ [last (tb_sizes st)])
           else (tb_timestamps st, tb_sizes st))
     in \<lparr>tb_ts_min = (if tb_ts_min st = -1 \<or> ts < tb_ts_min st \<and> ts > 0 then ts else tb_ts_min st), tb_timestamps = stamps,
         tb_sizes = butlast sizes @ [apply_raw (raw_rows d dev row) (last sizes)]\<rparr>)"
proof -
  obtain ts a key v b where row: "row = (ts, a, (key, v), b)" by (metis prod.collapse)
  have upd: "update_sizes_by_category d key w x sizes = butlast sizes @ [add_to (get_category_index d key w) x (last sizes)]" for w x and sizes :: "int list list"
    by (simp add: update_sizes_by_category_def add_to_def Let_def)
  show ?thesis using assms
    by (cases a) (simp_all add: row build_row_def row_time_def us_time_def upd raw_rows_def apply_raw_def raw_category_def raw_bytes_def Let_def
        split: prod.splits)
qed

definition times_ok :: "timeline_row list \<Rightarrow> bool" where
  "times_ok rows \<longleftrightarrow> sorted (map fst rows) \<and> (\<forall>row \<in> set rows. fst row = -1 \<or> 0 \<le> fst row)"

lemma times_ok_snoc: "times_ok (xs @ [x]) \<Longrightarrow> times_ok xs \<and> (\<forall>y \<in> set xs. row_time y \<le> row_time x)"
  using us_time_mono(1) by (auto simp: times_ok_def sorted_append row_time_def)

lemma remdups_adj_snoc: "xs \<noteq> [] \<Longrightarrow> remdups_adj (xs @ [x]) = remdups_adj xs @ (if last xs = x then [] else [x])"
  by (metis append_butlast_last_id append_assoc append_Cons append_Nil remdups_adj_append_two)

lemma strict_remdups_adj: "sorted xs \<Longrightarrow> sorted_wrt (<) (remdups_adj (xs :: int list))"
  by (induction xs rule: remdups_adj.induct) (auto simp: less_le)

lemma first_stamp_snoc:
  assumes "\<forall>y \<in> set ys. y \<le> t"
  shows "first_stamp (ys @ [t]) = (if first_stamp ys = -1 \<or> t < first_stamp ys \<and> t > 0 then t else first_stamp ys)"
proof (cases "filter (\<lambda>t. t \<noteq> -1) ys")
  case (Cons u us)
  then have "u \<in> set (filter (\<lambda>t. t \<noteq> -1) ys)" by simp
  then have "u \<in> set ys" "u \<noteq> -1" by simp_all
  then show ?thesis using assms Cons by (auto simp: first_stamp_def)
qed (simp add: first_stamp_def)

lemma sums_rows_later: "\<forall>r \<in> set new. t < raw_time r \<Longrightarrow> sums_row (rs @ new) t = sums_row rs t"
  by (induction new rule: rev_induct) (simp_all add: sums_row_later flip: append_assoc)

lemma times_ok_sorted: "times_ok xs \<Longrightarrow> sorted (map row_time xs)"
  using us_time_mono(1) by (induction xs) (auto simp: times_ok_def row_time_def)

lemma sorted_le_last: "sorted xs \<Longrightarrow> x \<in> set xs \<Longrightarrow> x \<le> last (xs :: int list)"
  by (induction xs) auto

lemma build_prefix:
  assumes "times_ok xs" "\<forall>row \<in> set xs. device_of (fst (fst (snd (snd row)))) = dev"
  shows "fold (build_row d dev) xs build_start =
    \<lparr>tb_ts_min = first_stamp (map row_time xs), tb_timestamps = remdups_adj (map row_time xs),
     tb_sizes = map (sums_row (concat (map (raw_rows d dev) xs))) (remdups_adj (map row_time xs))\<rparr>"
  using assms
proof (induction xs rule: rev_induct)
  case (snoc x xs)
  let ?t = "row_time x" and ?new = "raw_rows d dev x" and ?rs = "concat (map (raw_rows d dev) xs)" and ?S = "remdups_adj (map row_time xs)"
  have ok: "times_ok xs" "\<And>y. y \<in> set xs \<Longrightarrow> row_time y \<le> ?t" using times_ok_snoc [OF snoc.prems(1)] by blast+
  have x: "device_of (fst (fst (snd (snd x)))) = dev" using snoc.prems(2) by simp
  note rp = raw_rows_props(1) [OF x, of d]
  have old_rs: "\<exists>y \<in> set xs. raw_time r = row_time y" if "r \<in> set ?rs" for r
    using that raw_rows_props(1) snoc.prems(2) by fastforce
  note IH = snoc.IH [OF ok(1)]
  have st: "fold (build_row d dev) xs build_start = \<lparr>tb_ts_min = first_stamp (map row_time xs), tb_timestamps = ?S, tb_sizes = map (sums_row ?rs) ?S\<rparr>"
    using IH snoc.prems(2) by simp
  have new: "apply_raw ?new (sums_row ?rs ?t) = sums_row (?rs @ ?new) ?t" using rp by (intro apply_raw_sums) simp
  have old: "map (sums_row (?rs @ ?new)) S = map (sums_row ?rs) S" if "\<forall>t' \<in> set S. t' < ?t" for S
    using that rp by (intro map_cong) (auto intro!: sums_rows_later)
  have strict: "sorted_wrt (<) ?S" using times_ok_sorted [OF ok(1)] by (rule strict_remdups_adj)
  have tmin: "first_stamp (map row_time (xs @ [x])) = (if first_stamp (map row_time xs) = -1 \<or> ?t < first_stamp (map row_time xs) \<and> ?t > 0
      then ?t else first_stamp (map row_time xs))"
    using first_stamp_snoc [of "map row_time xs" ?t] ok(2) by simp
  have step: "fold (build_row d dev) (xs @ [x]) build_start = build_row d dev x (fold (build_row d dev) xs build_start)" by simp
  show ?case
  proof (cases "xs = []")
    case True
    have "replicate 9 0 = sums_row [] ?t" by (simp add: sums_row_def bytes_until_def numeral_eq_Suc)
    then show ?thesis unfolding step st build_row_eq [OF x] using True new tmin by (simp add: Let_def)
  next
    case False
    then have S: "?S \<noteq> []" "last ?S = row_time (last xs)" by (simp_all add: last_map)
    then have "last ?S \<le> ?t" using ok(2) [of "last xs"] False by simp
    have below: "t' < last ?S" if "t' \<in> set (butlast ?S)" for t'
      using that strict S(1) by (metis append_butlast_last_id sorted_wrt_append list.set_intros(1))
    show ?thesis
    proof (cases "last ?S = ?t")
      case True
      have "remdups_adj (map row_time (xs @ [x])) = ?S" using remdups_adj_snoc [of "map row_time xs" ?t] False True S(2) by (simp add: last_map)
      moreover have "map (sums_row (?rs @ ?new)) ?S = map (sums_row ?rs) (butlast ?S) @ [sums_row (?rs @ ?new) ?t]"
        using old [of "butlast ?S"] below True S(1) by (metis append_butlast_last_id list.simps(8,9) map_append)
      ultimately show ?thesis unfolding step st build_row_eq [OF x]
        using True S(1) new tmin by (simp add: Let_def last_map map_butlast)
    next
      case lt: False
      have lt': "last ?S < ?t" using lt \<open>last ?S \<le> ?t\<close> by simp
      have "remdups_adj (map row_time (xs @ [x])) = ?S @ [?t]" using remdups_adj_snoc [of "map row_time xs" ?t] False lt S(2) by (simp add: last_map)
      moreover have "map (sums_row (?rs @ ?new)) ?S = map (sums_row ?rs) ?S"
      proof (rule old)
        have "set ?S = insert (last ?S) (set (butlast ?S))" using arg_cong [OF append_butlast_last_id [OF S(1)], of set] by simp
        then show "\<forall>t' \<in> set ?S. t' < ?t" using below lt' by (metis insertE less_trans)
      qed
      moreover have "sums_row ?rs (last ?S) = sums_row ?rs ?t"
      proof (rule sums_row_same)
        have "row_time y \<le> last ?S" if "y \<in> set xs" for y
          using sorted_le_last [OF times_ok_sorted [OF ok(1)], of "row_time y"] that by simp
        then show "\<forall>r \<in> set ?rs. raw_time r \<le> last ?S" using old_rs by metis
      qed (use lt' in simp)
      ultimately show ?thesis unfolding step st build_row_eq [OF x]
        using lt S(1) new tmin by (simp add: Let_def last_map)
    qed
  qed
qed (simp add: build_start_def first_stamp_def)

lemma build_filter: "fold (build_row d dev) rows st = fold (build_row d dev) (filter (\<lambda>row. device_of (fst (fst (snd (snd row)))) = dev) rows) st"
  by (induction rows arbitrary: st) (auto simp: build_row_def split: prod.splits)

lemma raw_filter:
  "concat (map (raw_rows d dev) rows) = concat (map (raw_rows d dev) (filter (\<lambda>row. device_of (fst (fst (snd (snd row)))) = dev) rows))"
  by (induction rows) (auto simp: raw_rows_def split: prod.splits)

lemma raw_times:
  assumes "\<forall>row \<in> set xs. device_of (fst (fst (snd (snd row)))) = dev"
  shows "raw_time ` set (concat (map (raw_rows d dev) xs)) = row_time ` set xs"
proof -
  have "raw_time ` set (raw_rows d dev row) = {row_time row}" if "row \<in> set xs" for row
  proof -
    note p = raw_rows_props [of row dev d, OF bspec [OF assms that]]
    have "raw_time ` set (raw_rows d dev row) \<subseteq> {row_time row}" using p(1) by blast
    moreover have "raw_time ` set (raw_rows d dev row) \<noteq> {}" using p(2) by simp
    ultimately show ?thesis by (metis subset_singletonD)
  qed
  then have "(\<Union>row \<in> set xs. raw_time ` set (raw_rows d dev row)) = (\<Union>row \<in> set xs. {row_time row})" by (intro SUP_cong refl)
  then show ?thesis unfolding set_concat set_map image_image image_UN by blast
qed

lemma timeline_sorted: "timeline L mp = Inr rows \<Longrightarrow> sorted (map fst rows)"
proof -
  have "sorted (map fst (sort_key (\<lambda>(ts, action, _). (ts, action_index action)) xs))" for xs :: "timeline_row list"
  proof -
    have "sorted (map (\<lambda>(ts, action, _). (ts, action_index action)) (sort_key (\<lambda>(ts, action, _). (ts, action_index action)) xs))" by simp
    then show ?thesis unfolding sorted_map by (rule sorted_wrt_mono_rel [rotated]) (auto simp: less_eq_prod_def)
  qed
  then show "timeline L mp = Inr rows \<Longrightarrow> ?thesis" by (auto simp: timeline_def res_simps)
qed

lemma first_stamp_remdups: "first_stamp (remdups_adj ts) = first_stamp ts"
  by (induction ts rule: remdups_adj.induct) (auto simp: first_stamp_def)

lemma stamped_sorted:
  assumes "sorted_wrt (<) ts" "\<forall>t \<in> set ts. t = -1 \<or> 0 \<le> t"
  shows "sorted (map (\<lambda>t. if t < 0 then first_stamp ts else t) ts)"
proof -
  have later: "sorted (map (\<lambda>t. if t < 0 then u else t) us)" if "sorted_wrt (<) us" "\<forall>t \<in> set us. 0 \<le> t" for us and u :: int
  proof -
    have "map (\<lambda>t. if t < 0 then u else t) us = us" using that(2) by (intro map_idI) auto
    then show ?thesis using that(1) by (simp add: strict_sorted_imp_sorted)
  qed
  show ?thesis
  proof (cases ts)
    case (Cons t us)
    have gt: "\<forall>u \<in> set us. t < u" "sorted_wrt (<) us" using assms(1) Cons by simp_all
    show ?thesis
    proof (cases "t = -1")
      case True
      have nn: "\<forall>u \<in> set us. 0 \<le> u" using gt(1) True by auto
      then have "first_stamp ts = (case us of [] \<Rightarrow> -1 | u # _ \<Rightarrow> u)" using Cons True by (cases us) (auto simp: first_stamp_def)
      moreover have "\<forall>v \<in> set us. (case us of [] \<Rightarrow> -1 | u # _ \<Rightarrow> u) \<le> v" using gt(2) by (cases us) auto
      ultimately show ?thesis using later [OF gt(2) nn] Cons True nn by auto
    next
      case False
      then have "\<forall>u \<in> set ts. 0 \<le> u" using gt(1) Cons assms(2) by fastforce
      then show ?thesis using later [OF assms(1)] by blast
    qed
  qed simp
qed

text \<open>
  C20: The two exports agree. On the timeline of a profile whose times are not negative, the JSON export has one row for every
  microsecond in which something happens on the device, in ascending order, and the column of a category holds the sum of
  the bytes that the raw export lists for the category up to that microsecond. Rows of memory that existed before are
  stamped with the first time that is known.
\<close>

theorem exports_agree:
  assumes "timeline L mp = Inr rows" "\<forall>row \<in> set rows. fst row = -1 \<or> 0 \<le> fst row" "parse_device_info device_str = Some dev"
  defines "raw \<equiv> raw_events (mp_categories mp) rows device_str"
  shows "\<exists>stamps. sorted_wrt (<) stamps \<and> set stamps = raw_time ` set raw
    \<and> construct_timeline (mp_categories mp) rows device_str =
        (map (\<lambda>t. if t < 0 then first_stamp stamps else t) stamps, map (\<lambda>t. 0 # map (bytes_until raw t) [0..<8]) stamps)
    \<and> sorted (fst (construct_timeline (mp_categories mp) rows device_str))"
proof -
  let ?d = "mp_categories mp" and ?xs = "filter (\<lambda>row. device_of (fst (fst (snd (snd row)))) = dev) rows"
  let ?S = "remdups_adj (map row_time ?xs)"
  have "sorted (map fst ?xs)" using timeline_sorted [OF assms(1)] by (rule sorted_filter)
  then have ok: "times_ok ?xs" using assms(2) by (simp add: times_ok_def)
  have raw: "raw = concat (map (raw_rows ?d dev) ?xs)" using assms(3) raw_filter [of ?d dev rows] by (simp add: raw_def raw_events_def)
  have strict: "sorted_wrt (<) ?S" using strict_remdups_adj [OF times_ok_sorted [OF ok]] .
  have stamps: "t = -1 \<or> 0 \<le> t" if "t \<in> set ?S" for t
  proof -
    have "t \<in> row_time ` set ?xs" using that by (simp only: remdups_adj_set set_map)
    then obtain row where "row \<in> set ?xs" "t = us_time (fst row)" unfolding row_time_def by blast
    moreover from this have "fst row = -1 \<or> 0 \<le> fst row" using ok unfolding times_ok_def by blast
    ultimately show ?thesis using us_time_mono(2) [of "fst row" "fst row"] by simp
  qed
  have c: "construct_timeline ?d rows device_str =
      (map (\<lambda>t. if t < 0 then first_stamp ?S else t) ?S, map (\<lambda>t. 0 # map (bytes_until raw t) [0..<8]) ?S)"
    using build_prefix [OF ok, of dev ?d] assms(3) build_filter [of ?d dev rows build_start]
    by (simp add: construct_timeline_def Let_def first_stamp_remdups raw sums_row_def [abs_def])
  moreover have "set ?S = raw_time ` set raw" unfolding raw using raw_times [of ?xs dev ?d] by simp
  moreover have "sorted (fst (construct_timeline ?d rows device_str))" unfolding c using stamped_sorted [OF strict] stamps by simp
  ultimately show ?thesis using strict by blast
qed

theorem exports_agree_witness:
  "\<exists>stamps. sorted_wrt (<) stamps \<and> set stamps = raw_time ` set (raw_events (mp_categories demo_profile) demo_rows ''npu:0'')
    \<and> snd (construct_timeline (mp_categories demo_profile) demo_rows ''npu:0'') =
        map (\<lambda>t. 0 # map (bytes_until (raw_events (mp_categories demo_profile) demo_rows ''npu:0'') t) [0..<8]) stamps"
proof -
  have "parse_device_info ''npu:0'' = Some (20, 0)" by code_simp
  moreover have "\<forall>row \<in> set demo_rows. fst row = -1 \<or> 0 \<le> fst row" by (simp add: demo_rows_def)
  ultimately show ?thesis using exports_agree [OF demo_timeline, of "''npu:0''" "(20, 0)"] by force
qed

end
