(* ===== verification/Spec2Isabelle.thy ===== *)
theory Spec2Isabelle
  imports Profiler_Props Flight_Props Time_Range Task_Props Trace_Codec_Props Op_Tree_Props Python_Trace_Props
    Fwk_Props Memory_Props Kernel_Relation_Props Tiling_Props Grad_Scaler_Props Graph_Tree_Props
    Event_Tree_Props Event_Ids_Props Tensor_Text_Props Timeline_Balance Timeline_Export
begin

text \<open>
  \<^bold>\<open>Verification of the profiler, the flight recorder analysis and the training runtime of \<open>torch_npu\<close>\<close>

  The repository adapts PyTorch to Ascend NPUs. Most of its Python code forwards to the C++ extension
  or patches PyTorch classes; the parts with logic of their own are the profiler, which collects and
  analyses traces, the flight recorder analysis, which compares the collective operations of all
  ranks of a job, and, of the training runtime, the gradient scaler, the manager of graph trees and the
  choice of block sizes for generated kernels. These are modelled here, definition by definition.

  \<^bold>\<open>Parts and theories.\<close>

  \<^item> \<^emph>\<open>Shared\<close> (\<open>Prelude\<close>). Results are \<open>error + 'a\<close>, stateful code is a function from states to
    a result and a state (an exception keeps the state reached), Python values are \<open>pyval\<close>. A Python
    set is a set; code that iterates one takes the iteration as a parameter with the contract of the
    locale \<open>set_iteration\<close>. Text is \<open>string\<close>; \<open>int\<close>, \<open>str\<close> and \<open>split\<close> are modelled as the code uses them.

  \<^item> \<^emph>\<open>Profiling front end\<close> (\<open>torch_npu/profiler\<close>, \<open>torch_npu/utils/_path_manager.py\<close>). \<open>Scheduler\<close>
    holds \<open>scheduler.py\<close>; its locale \<open>disciplined_schedule\<close> is what the profiler relies on, interpreted
    for every user schedule and for the default one. \<open>Path_Manager\<close> holds the checks and file operations
    on a file system that is a partial map. \<open>Native_Profiler\<close> holds what the native calls do to
    \<open>ProfilerMgr\<close> (\<open>csrc/profiler/profiler_mgr.cpp\<close>, \<open>npu_profiler.cpp\<close>): its flags, configuration and
    receivers, phase by phase of a session. \<open>Profiler_Control\<close> holds \<open>profiler.py\<close>,
    \<open>_profiler_action_controller.py\<close>, \<open>profiler_interface.py\<close> and \<open>_profiler_path_creator.py\<close>: the
    table of transitions, the life cycle of a profile, and \<open>no_exception_func\<close>, under which every public
    method swallows what it raises. \<open>Profiler_Props\<close> shows the shape of schedules, where a
    run ends whatever raises, what it has saved and released when nothing was reported, what a stop in a
    warm-up step leaves in the native manager, and what the file operations leave behind.

  \<^item> \<^emph>\<open>Analysis run\<close> (\<open>profiler/analysis\<close>). \<open>Task_Manager\<close> holds
    \<open>_task_manager.py\<close>: tasks with dependencies, workers reached through pipes, scheduling, messages, the
    run. \<open>Task_Facts\<close>, \<open>Task_Messages\<close> and \<open>Task_Progress\<close> prove its invariants under the contract of the locale
    \<open>task_env\<close>. \<open>Parser_Config\<close> holds the tables of parsers and the choice of those that run.
    \<open>Task_Props\<close> shows safety and progress of scheduling, the transport of results, and that every
    configured set of parsers is accepted. \<open>Time_Range\<close> holds the merging of intervals and the overlap of
    communication and computation (\<open>_time_range_calculator.py\<close>) with their set semantics.

  \<^item> \<^emph>\<open>Framework data\<close>. \<open>Trace_Codec\<close>: decoders of the records, time conversions, numbering of
    strings (\<open>_tlv_decoder.py\<close>, \<open>_binary_decoder.py\<close>, \<open>_constant.py\<close>, \<open>_id_manager.py\<close>). \<open>Op_Tree\<close>: the
    tree of operations (\<open>_tree_builder.py\<close>, \<open>_torch_op_node.py\<close>) as a store of nodes, with the locale
    \<open>op_forest\<close> for its users, extended by the times of nested operations as \<open>timed_forest\<close>, both interpreted
    for every tree the builder makes. \<open>Trace_Event\<close>: the events of
    the trace view (\<open>_trace_event_manager.py\<close>). \<open>Python_Trace\<close>: the replay of Python calls
    (\<open>_python_trace_parser.py\<close>). \<open>Fwk_Parser\<close>: marks of the task queue, links of forward and backward
    operations, rows and events (\<open>_fwk_file_parser.py\<close> and its beans). \<open>Memory_Prepare\<close>: grouping of
    memory records and their attribution to operations (\<open>_memory_prepare_parser.py\<close>). The theories
    \<open>Trace_Codec_Props\<close>, \<open>Op_Tree_Props\<close>, \<open>Python_Trace_Props\<close>, \<open>Fwk_Props\<close> and \<open>Memory_Props\<close> relate each
    of them to a reference: robustness of decoding against truncation, round trips of times, the exact tree
    and search, well-nested calls, the exact pairing and linking, the groups of records and the operation
    an allocation belongs to.

  \<^item> \<^emph>\<open>Event tree\<close>. \<open>Heap_Queue\<close>: the binary heap of Python's \<open>queue.PriorityQueue\<close>, with the locale
    \<open>priority_queue\<close> for its users. \<open>Event_Tree\<close>: \<open>_event_tree_parser.py\<close>, on which the memory timeline works:
    the text of tensors and parameters, with the encoder of \<open>data_reporter.h\<close> that writes it, the events, the
    stack replay and the numbering of storages. \<open>Event_Tree_Props\<close> proves the replay for every queue that meets
    the contract (locale \<open>event_queue\<close>) and interprets it for the heap; \<open>Event_Ids_Props\<close> shows which mentions
    of a storage share a number; \<open>Tensor_Text_Props\<close> shows that the encoded inputs read back.

  \<^item> \<^emph>\<open>Memory timeline\<close> (\<open>_memory_timeline_parser.py\<close>). \<open>Memory_Flow\<close>: keys, sizes of storages, schemas and the
    data flow graph over the event tree. \<open>Memory_Timeline\<close>: categories and the passes that set them, the timeline and its
    exports, with the division in floating point that turns nanoseconds into microseconds. \<open>Flow_Tree\<close> states what is
    needed of PyTorch's \<open>traverse_dfs\<close> as the locale \<open>traversal\<close>, interprets it for the pre-order walk, and shows that an
    allocation lies below exactly one node of the graph. \<open>Memory_Flow_Props\<close> shows that versions count the changes of a
    tensor, \<open>Memory_Timeline_Props\<close> that dependence on gradients is a least fixed point, \<open>Timeline_Balance\<close> that the timeline
    is balanced, \<open>Timeline_Export\<close> that the two exports agree.

  \<^item> \<^emph>\<open>Device data\<close>. \<open>Kernel_Relation\<close>: which kernels belong to which task, operation and step
    (\<open>_cann_file_parser.py\<close>, \<open>_fwk_cann_relation_parser.py\<close>, \<open>_trace_view_parser.py\<close>,
    \<open>_kernel_view_parser.py\<close>). \<open>Kernel_Relation_Props\<close> composes it with the operation tree: the kernels of
    a task, the arrows of the trace view, and where overlapping tasks or times as text lose kernels.

  \<^item> \<^emph>\<open>Training runtime\<close>. \<open>Grad_Scaler\<close>: \<open>npu/amp/grad_scaler.py\<close>, with tensors as opaque values;
    the all-reduce of the overflow count is a parameter that is given what each rank passes in.
    \<open>Grad_Scaler_Props\<close> shows an iteration, the growth of the scale over training iterations and the
    agreement of the ranks of a job.
    \<open>Graph_Tree\<close>: the manager of \<open>npu/_graph_tree.py\<close>, nodes in a store, functions and replays that may
    raise; \<open>Graph_Tree_Props\<close> shows, over the reachable states, raising calls included, that the tree stays
    well formed, that an undisturbed call returns and runs its function once (locale \<open>graph_call\<close>), and that a
    warm-up that raised blocks the calls after it.
    \<open>Tiling\<close>: \<open>_inductor/codegen/split_tiling.py\<close>, \<open>tile_generator.py\<close> and the configurations and launch
    grid of \<open>npu_triton_heuristics.py\<close>; \<open>Tiling_Props\<close> shows that the configurations cover the tensor and fit the
    buffer, and where the generator divides by zero.

  \<^item> \<^emph>\<open>Flight recorder\<close> (\<open>tools/flight_recorder/components\<close>). \<open>Flight_Types\<close> holds \<open>types.py\<close>,
    \<open>Flight_Match\<close> \<open>utils.py\<close> with the locale \<open>rank_iteration\<close>, \<open>Flight_Build\<close> \<open>builder.py\<close>. \<open>Flight_Match_Facts\<close>,
    \<open>Flight_Build_Facts\<close>, \<open>Flight_Loop_Facts\<close> and \<open>Flight_Healthy\<close> are lemmas on them; \<open>Flight_Props\<close> shows
    when operations match, that the pairing loop ends, loses no entry and recognises a healthy job, and
    where it raises or runs forever.

  \<^bold>\<open>Conventions.\<close> Dictionaries whose order matters are association lists updated in place, as Python
  keeps insertion order; others are functions or maps. Objects that are shared and updated are a store
  with indices (operation tree) or are passed as values where only one reference is live. A loop that may
  not end is a \<open>partial_function\<close> into \<open>option\<close>, where \<open>None\<close> is not returning; that it returns is proved
  for the inputs the code gives it, and that it does not is proved where it does not. Loops with
  a counter (tiling) are recursive on the rounds the code allows, so there is no fuel of our own and no
  bound on the size of inputs; the walk from an event to its root is given as many steps as there are events,
  which is enough because parents come before their children. Sorting is the stable \<open>sort_key\<close>.

  \<^bold>\<open>Parameters.\<close> Reading files, the operating system's answers, pickled payloads, the iteration order of
  sets, the device library behind the native profiler, the all-reduce of a job, what a compiled function does when it is run, PyTorch's traversal of event trees and its operator schemas, operations on tensors, PyTorch's \<open>next_power_of_2\<close>, the checks a graph node makes
  before a replay and the choices of the environment (which events a poll returns) are arguments,
  with their documented laws as locale assumptions or hypotheses. Time stamps are taken after the conversion
  from device counters. Floating-point divisions for display are left out, the values stay integers, except for the
  times of the memory timeline, whose rounding is modelled.

  \<^bold>\<open>Not modelled.\<close> The C++ extension and the bindings over it (\<open>torch_npu/npu\<close>, \<open>torch_npu/csrc\<close>), except for the
  manager of profiling sessions and the encoder of tensors, the
  tensors and storages of graph nodes, lowering and code generation of the inductor backend, ONNX export,
  distributed glue, contrib modules and code generation: their behaviour is that of PyTorch classes, tensors,
  symbolic expressions and the device runtime, which are not part of the sources. Of the profiler: the
  vendor files and the remaining views, the progress bar, the code that runs inside a worker process,
  metadata files and log output. Of the flight recorder: loading of the dump files and verbose printing.
\<close>

end
